(* ===== verification/Prelude.thy ===== *)
theory Prelude
  imports Main "HOL-Library.Word" "HOL-Library.Char_ord" "HOL-Library.List_Lexorder"
    "HOL-Library.Sublist"
begin

text \<open>
  Shared vocabulary of the stellmap development.

  A Go \<open>string\<close> and a Go \<open>[]byte\<close> are both sequences of bytes, and \<open>char\<close> in HOL is a byte, so
  both are modelled by \<open>bytes = char list\<close>; the conversions \<open>string(b)\<close> and \<open>[]byte(s)\<close> are the
  identity. A nil slice and an empty slice are the same list. The order on \<open>bytes\<close> is the
  lexicographic order by byte value (theories Char_ord and List_Lexorder), which is the order of
  Go's \<open><\<close> on strings and of Pebble's default comparer.

  \<open>uint64\<close> is \<open>64 word\<close>, where arithmetic wraps. \<open>int64\<close>, \<open>int\<close> and \<open>int32\<close> are \<open>int\<close> with the
  wrap-around written out by \<open>wrap_i64\<close> at the one addition of the source where it matters.

  A Go \<open>map\<close> that the source iterates over is an association list: the list order is the order
  in which one \<open>range\<close> statement visits the entries, which Go leaves unspecified.
\<close>

type_synonym bytes = "char list"
type_synonym u64 = "64 word"

text \<open>A Go map in the order of one \<open>range\<close> loop.\<close>

type_synonym ('k, 'v) gomap = "('k \<times> 'v) list"

named_theorems step_simps "equations that evaluate one operation of the model"
named_theorems inv_intros "operations that keep a component's invariant"

subsection \<open>Signed 64-bit arithmetic\<close>

definition wrap_i64 :: "int \<Rightarrow> int" where
  "wrap_i64 x = (x + 2 ^ 63) mod 2 ^ 64 - 2 ^ 63"

definition is_i64 :: "int \<Rightarrow> bool" where
  "is_i64 x \<longleftrightarrow> - (2 ^ 63) \<le> x \<and> x < 2 ^ 63"

lemma wrap_i64_id: "is_i64 x \<Longrightarrow> wrap_i64 x = x"
  by (simp add: wrap_i64_def is_i64_def)

lemma wrap_i64_range: "is_i64 (wrap_i64 x)"
  unfolding wrap_i64_def is_i64_def by simp

lemma wrap_i64_over:
  assumes "2 ^ 63 \<le> x" "x < 2 ^ 64 + 2 ^ 63"
  shows "wrap_i64 x = x - 2 ^ 64"
proof -
  have "(x + 2 ^ 63) mod 2 ^ 64 = (x + 2 ^ 63 - 2 ^ 64) mod 2 ^ 64"
    by (rule minus_mod_self2 [symmetric])
  also have "\<dots> = x + 2 ^ 63 - 2 ^ 64"
    using assms by (intro mod_pos_pos_trivial) auto
  finally show ?thesis by (simp add: wrap_i64_def)
qed

subsection \<open>Lists\<close>

text \<open>The first index whose element satisfies a predicate: \<open>sort.Search\<close> on a monotone predicate.\<close>

fun first_index :: "('a \<Rightarrow> bool) \<Rightarrow> 'a list \<Rightarrow> nat" where
  "first_index P [] = 0"
| "first_index P (x # xs) = (if P x then 0 else Suc (first_index P xs))"

lemma first_index_le: "first_index P xs \<le> length xs"
  by (induction xs) auto

lemma take_first_index: "take (first_index P xs) xs = takeWhile (\<lambda>x. \<not> P x) xs"
  by (induction xs) auto

lemma drop_first_index: "drop (first_index P xs) xs = dropWhile (\<lambda>x. \<not> P x) xs"
  by (induction xs) auto

lemma first_index_none: "(\<And>x. x \<in> set xs \<Longrightarrow> \<not> P x) \<Longrightarrow> first_index P xs = length xs"
  by (induction xs) auto

lemma first_index_append_hit:
  "(\<And>x. x \<in> set xs \<Longrightarrow> \<not> P x) \<Longrightarrow> P y \<Longrightarrow> first_index P (xs @ y # ys) = length xs"
  by (induction xs) auto

text \<open>A list with strictly increasing keys is determined by its set.\<close>

lemma strict_sorted_unique:
  fixes xs ys :: "'a::linorder list"
  assumes "sorted_wrt (<) xs" "sorted_wrt (<) ys" "set xs = set ys"
  shows "xs = ys"
  using assms by (metis strict_sorted_equal)

lemma strict_keys_unique:
  fixes xs ys :: "('a::linorder \<times> 'b) list"
  assumes "sorted_wrt (<) (map fst xs)" "sorted_wrt (<) (map fst ys)" "set xs = set ys"
  shows "xs = ys"
proof -
  have d: "distinct (map fst xs)" "distinct (map fst ys)"
    using assms(1,2) by (simp_all add: strict_sorted_iff)
  have "map fst xs = map fst ys"
    by (rule strict_sorted_unique [OF assms(1,2)]) (simp add: assms(3))
  moreover have "map_of xs = map_of ys"
    using map_of_inject_set [OF d] assms(3) by simp
  ultimately show ?thesis
    using d by (metis map_of_zip_inject length_map zip_map_fst_snd)
qed

lemma sorted_wrt_filter_fst:
  "sorted_wrt P (map fst xs) \<Longrightarrow> sorted_wrt P (map fst (filter Q xs))"
  by (induction xs) auto

subsection \<open>Results\<close>

text \<open>Sequencing of fallible steps: \<open>Inl\<close> is the error return, \<open>Inr\<close> the value.\<close>

definition and_then :: "'e + 'a \<Rightarrow> ('a \<Rightarrow> 'e + 'b) \<Rightarrow> 'e + 'b" where
  "and_then r f = (case r of Inl e \<Rightarrow> Inl e | Inr a \<Rightarrow> f a)"

lemma and_then_simps [simp]:
  "and_then (Inl e) f = Inl e"
  "and_then (Inr a) f = f a"
  by (simp_all add: and_then_def)

lemma and_then_eq_Inr [simp]:
  "and_then r f = Inr b \<longleftrightarrow> (\<exists>a. r = Inr a \<and> f a = Inr b)"
  by (cases r) auto

lemma and_then_eq_Inl:
  "and_then r f = Inl e \<longleftrightarrow> r = Inl e \<or> (\<exists>a. r = Inr a \<and> f a = Inl e)"
  by (cases r) auto

text \<open>A loop whose body may return an error: it stops at the first one.\<close>

fun fold_result :: "('a \<Rightarrow> 's \<Rightarrow> 'e + 's) \<Rightarrow> 'a list \<Rightarrow> 's \<Rightarrow> 'e + 's" where
  "fold_result f [] s = Inr s"
| "fold_result f (x # xs) s = and_then (f x s) (fold_result f xs)"

lemma fold_result_append:
  "fold_result f (xs @ ys) s = and_then (fold_result f xs s) (fold_result f ys)"
  by (induction xs arbitrary: s) (auto simp: and_then_def split: sum.splits)

end
