(* ===== verification/Go_Strings.thy ===== *)
theory Go_Strings
  imports Prelude
begin

text \<open>
  The parts of Go's standard packages \<open>strings\<close>, \<open>strconv\<close>, \<open>unicode/utf8\<close> and \<open>fmt\<close> that the
  stellmap sources call, as functions on bytes: TrimSpace, Split, SplitN, Join, Index, HasPrefix,
  TrimPrefix, TrimRight, ToLower, decimal printing with and without zero padding, Atoi and
  ParseUint. The Unicode case table is the one parameter (\<open>ul\<close>, the map \<open>unicode.ToLower\<close>).
\<close>

subsection \<open>Prefixes and suffixes\<close>

definition HasPrefix :: "bytes \<Rightarrow> bytes \<Rightarrow> bool" where
  "HasPrefix s p \<longleftrightarrow> take (length p) s = p"

definition HasSuffix :: "bytes \<Rightarrow> bytes \<Rightarrow> bool" where
  "HasSuffix s p \<longleftrightarrow> length p \<le> length s \<and> drop (length s - length p) s = p"

definition TrimPrefix :: "bytes \<Rightarrow> bytes \<Rightarrow> bytes" where
  "TrimPrefix s p = (if HasPrefix s p then drop (length p) s else s)"

lemma HasPrefix_iff: "HasPrefix s p \<longleftrightarrow> (\<exists>t. s = p @ t)"
  unfolding HasPrefix_def by (metis append_eq_conv_conj append_take_drop_id)

lemma HasSuffix_iff: "HasSuffix s p \<longleftrightarrow> (\<exists>t. s = t @ p)"
  unfolding HasSuffix_def
  by (metis append_take_drop_id diff_diff_cancel length_append le_add2 append_eq_conv_conj
      length_drop diff_add_inverse2)

lemma HasPrefix_append [simp]: "HasPrefix (p @ t) p"
  by (auto simp: HasPrefix_iff)

lemma HasPrefix_refl [simp]: "HasPrefix p p"
  by (simp add: HasPrefix_def)

lemma TrimPrefix_append [simp]: "TrimPrefix (p @ t) p = t"
  by (simp add: TrimPrefix_def)

lemma HasPrefix_trans: "HasPrefix s p \<Longrightarrow> HasPrefix p q \<Longrightarrow> HasPrefix s q"
  by (auto simp: HasPrefix_iff)

subsection \<open>White space\<close>

text \<open>
  \<open>strings.TrimSpace\<close> removes leading and trailing code points for which \<open>unicode.IsSpace\<close> holds:
  the six ASCII blanks, U+0085, U+00A0, U+1680, U+2000 to U+200A, U+2028, U+2029, U+202F, U+205F and
  U+3000. Their UTF-8 encodings are listed here. UTF-8 is self-synchronising, so a string starts
  (ends) with such a code point exactly when it starts (ends) with its encoding; an invalid byte
  decodes to U+FFFD, which is no space.
\<close>

definition space_seqs :: "bytes list" where
  "space_seqs =
    [[CHR 0x20], [CHR 0x09], [CHR 0x0A], [CHR 0x0B], [CHR 0x0C], [CHR 0x0D],
     [CHR 0xC2, CHR 0x85], [CHR 0xC2, CHR 0xA0],
     [CHR 0xE1, CHR 0x9A, CHR 0x80],
     [CHR 0xE2, CHR 0x80, CHR 0x80], [CHR 0xE2, CHR 0x80, CHR 0x81],
     [CHR 0xE2, CHR 0x80, CHR 0x82], [CHR 0xE2, CHR 0x80, CHR 0x83],
     [CHR 0xE2, CHR 0x80, CHR 0x84], [CHR 0xE2, CHR 0x80, CHR 0x85],
     [CHR 0xE2, CHR 0x80, CHR 0x86], [CHR 0xE2, CHR 0x80, CHR 0x87],
     [CHR 0xE2, CHR 0x80, CHR 0x88], [CHR 0xE2, CHR 0x80, CHR 0x89],
     [CHR 0xE2, CHR 0x80, CHR 0x8A],
     [CHR 0xE2, CHR 0x80, CHR 0xA8], [CHR 0xE2, CHR 0x80, CHR 0xA9],
     [CHR 0xE2, CHR 0x80, CHR 0xAF], [CHR 0xE2, CHR 0x81, CHR 0x9F],
     [CHR 0xE3, CHR 0x80, CHR 0x80]]"

text \<open>Remove leading occurrences of the given non-empty sequences.\<close>

function strip_left :: "bytes list \<Rightarrow> bytes \<Rightarrow> bytes" where
  "strip_left seqs s =
     (case find (\<lambda>p. p \<noteq> [] \<and> HasPrefix s p) seqs of
        None \<Rightarrow> s
      | Some p \<Rightarrow> strip_left seqs (drop (length p) s))"
  by pat_completeness auto
termination
proof (relation "measure (\<lambda>(seqs, s). length s)", simp)
  fix seqs s p
  assume "find (\<lambda>p. p \<noteq> [] \<and> HasPrefix s p) seqs = Some p"
  then have "p \<noteq> []" "HasPrefix s p"
    by (auto simp: find_Some_iff)
  then show "((seqs, drop (length p) s), seqs, s) \<in> measure (\<lambda>(seqs, s). length s)"
    by (auto simp: HasPrefix_iff)
qed

declare strip_left.simps [simp del]

definition TrimSpace :: "bytes \<Rightarrow> bytes" where
  "TrimSpace s = rev (strip_left (map rev space_seqs) (rev (strip_left space_seqs s)))"

text \<open>A string that TrimSpace leaves alone: no blank at either end.\<close>

definition trimmed :: "bytes \<Rightarrow> bool" where
  "trimmed s \<longleftrightarrow> (\<forall>p \<in> set space_seqs. \<not> HasPrefix s p \<and> \<not> HasSuffix s p)"

lemma strip_left_none:
  "(\<forall>p \<in> set seqs. p \<noteq> [] \<longrightarrow> \<not> HasPrefix s p) \<Longrightarrow> strip_left seqs s = s"
proof -
  assume "\<forall>p \<in> set seqs. p \<noteq> [] \<longrightarrow> \<not> HasPrefix s p"
  then have "find (\<lambda>p. p \<noteq> [] \<and> HasPrefix s p) seqs = None"
    by (auto simp: find_None_iff)
  then show ?thesis by (subst strip_left.simps) simp
qed

lemma strip_left_done:
  "p \<in> set seqs \<Longrightarrow> p \<noteq> [] \<Longrightarrow> \<not> HasPrefix (strip_left seqs s) p"
proof (induction seqs s rule: strip_left.induct)
  case (1 seqs s)
  show ?case
  proof (cases "find (\<lambda>p. p \<noteq> [] \<and> HasPrefix s p) seqs")
    case None
    moreover from None have "strip_left seqs s = s"
      by (subst strip_left.simps) simp
    ultimately show ?thesis
      using "1.prems" by (auto simp: find_None_iff)
  next
    case (Some q)
    then show ?thesis
      using "1.IH" [OF Some "1.prems"] by (subst strip_left.simps) simp
  qed
qed

lemma strip_left_suffix: "\<exists>u. s = u @ strip_left seqs s"
proof (induction seqs s rule: strip_left.induct)
  case (1 seqs s)
  show ?case
  proof (cases "find (\<lambda>p. p \<noteq> [] \<and> HasPrefix s p) seqs")
    case None
    then show ?thesis by (subst strip_left.simps) simp
  next
    case (Some q)
    from "1.IH" [OF this] obtain u where u: "drop (length q) s = u @ strip_left seqs (drop (length q) s)"
      by blast
    have "strip_left seqs s = strip_left seqs (drop (length q) s)"
      using Some by (subst strip_left.simps) simp
    moreover have "s = take (length q) s @ u @ strip_left seqs (drop (length q) s)"
      using u by (metis append_take_drop_id)
    ultimately show ?thesis by (metis append.assoc)
  qed
qed

lemma HasSuffix_rev: "HasSuffix s p \<longleftrightarrow> HasPrefix (rev s) (rev p)"
  by (auto simp: HasSuffix_iff HasPrefix_iff) (metis rev_append rev_rev_ident)+

lemma space_seqs_nonempty: "p \<in> set space_seqs \<Longrightarrow> p \<noteq> []"
  by (auto simp: space_seqs_def)

lemma TrimSpace_sub: "\<exists>u v. s = u @ TrimSpace s @ v"
proof -
  obtain u where u: "s = u @ strip_left space_seqs s"
    using strip_left_suffix by blast
  obtain v where v: "rev (strip_left space_seqs s) = v @ rev (TrimSpace s)"
    using strip_left_suffix [of "rev (strip_left space_seqs s)" "map rev space_seqs"]
    by (auto simp: TrimSpace_def)
  then have "strip_left space_seqs s = TrimSpace s @ rev v"
    by (metis rev_append rev_rev_ident)
  with u show ?thesis by metis
qed

lemma set_TrimSpace: "set (TrimSpace s) \<subseteq> set s"
  using TrimSpace_sub [of s] by (metis Un_iff set_append subsetI)

lemma trimmed_TrimSpace [simp]: "trimmed (TrimSpace s)"
  unfolding trimmed_def
proof (intro ballI conjI)
  fix p assume p: "p \<in> set space_seqs"
  let ?l = "strip_left space_seqs s"
  have "\<not> HasPrefix ?l p"
    using p by (intro strip_left_done space_seqs_nonempty)
  moreover have "\<exists>v. ?l = TrimSpace s @ v"
    using strip_left_suffix [of "rev ?l" "map rev space_seqs"]
    by (metis TrimSpace_def rev_append rev_rev_ident)
  ultimately show "\<not> HasPrefix (TrimSpace s) p"
    by (auto simp: HasPrefix_iff)
  have "rev p \<noteq> []" "rev p \<in> set (map rev space_seqs)"
    using p space_seqs_nonempty by auto
  then show "\<not> HasSuffix (TrimSpace s) p"
    using strip_left_done [of "rev p" "map rev space_seqs" "rev ?l"]
    by (simp add: HasSuffix_rev TrimSpace_def)
qed

lemma TrimSpace_trimmed: "trimmed s \<Longrightarrow> TrimSpace s = s"
proof -
  assume t: "trimmed s"
  have "strip_left space_seqs s = s"
    using t by (intro strip_left_none) (auto simp: trimmed_def)
  moreover have "strip_left (map rev space_seqs) (rev s) = rev s"
    using t by (intro strip_left_none) (auto simp: trimmed_def HasSuffix_rev)
  ultimately show "TrimSpace s = s" by (simp add: TrimSpace_def)
qed

lemma trimmed_iff: "trimmed s \<longleftrightarrow> TrimSpace s = s"
  using TrimSpace_trimmed trimmed_TrimSpace by metis

lemma TrimSpace_idem [simp]: "TrimSpace (TrimSpace s) = TrimSpace s"
  by (simp add: TrimSpace_trimmed)

lemma trimmed_Nil [simp]: "trimmed []"
  by (simp add: trimmed_def HasPrefix_def HasSuffix_def space_seqs_def)

lemma TrimSpace_Nil [simp]: "TrimSpace [] = []"
  by (simp add: TrimSpace_trimmed)

subsection \<open>Split and Join\<close>

text \<open>\<open>strings.Split(s, sep)\<close> for a one-byte separator.\<close>

fun Split :: "bytes \<Rightarrow> char \<Rightarrow> bytes list" where
  "Split [] c = [[]]"
| "Split (x # xs) c =
     (if x = c then [] # Split xs c
      else (case Split xs c of [] \<Rightarrow> [[x]] | y # ys \<Rightarrow> (x # y) # ys))"

fun Join :: "bytes list \<Rightarrow> bytes \<Rightarrow> bytes" where
  "Join [] sep = []"
| "Join [x] sep = x"
| "Join (x # y # ys) sep = x @ sep @ Join (y # ys) sep"

lemma Split_nonempty [simp]: "Split s c \<noteq> []"
  by (cases s) (auto split: list.splits)

lemma Join_Cons: "ys \<noteq> [] \<Longrightarrow> Join (x # ys) sep = x @ sep @ Join ys sep"
  by (cases ys) auto

lemma Join_Split [simp]: "Join (Split s c) [c] = s"
proof (induction s)
  case (Cons x xs)
  then show ?case
    by (cases "Split xs c"; cases "tl (Split xs c)") (auto simp: Join_Cons)
qed simp

lemma Split_no_sep: "c \<notin> set s \<Longrightarrow> Split s c = [s]"
  by (induction s) auto

lemma Split_append_sep: "c \<notin> set x \<Longrightarrow> Split (x @ c # s) c = x # Split s c"
  by (induction x) auto

lemma Split_parts_no_sep: "p \<in> set (Split s c) \<Longrightarrow> c \<notin> set p"
  by (induction s arbitrary: p) (auto split: if_splits list.splits)

lemma Split_Join:
  "ps \<noteq> [] \<Longrightarrow> (\<forall>p \<in> set ps. c \<notin> set p) \<Longrightarrow> Split (Join ps [c]) c = ps"
proof (induction ps)
  case (Cons p ps)
  then show ?case
    by (cases "ps = []") (auto simp: Join_Cons Split_no_sep Split_append_sep)
qed simp

subsection \<open>Index and SplitN\<close>

fun Index :: "bytes \<Rightarrow> bytes \<Rightarrow> nat option" where
  "Index s sub =
     (if HasPrefix s sub then Some 0
      else (case s of [] \<Rightarrow> None | _ # t \<Rightarrow> map_option Suc (Index t sub)))"

declare Index.simps [simp del]

lemma Index_Nil: "Index [] sub = (if sub = [] then Some 0 else None)"
  by (subst Index.simps) (simp add: HasPrefix_def)

lemma Index_Cons:
  "Index (x # t) sub = (if HasPrefix (x # t) sub then Some 0 else map_option Suc (Index t sub))"
  by (subst Index.simps) simp

lemma Index_Some:
  "Index s sub = Some i \<Longrightarrow> i + length sub \<le> length s \<and> HasPrefix (drop i s) sub"
proof (induction s arbitrary: i)
  case Nil
  then show ?case by (auto simp: Index_Nil HasPrefix_def split: if_splits)
next
  case (Cons x t)
  show ?case
  proof (cases "HasPrefix (x # t) sub")
    case True
    then have "i = 0" using Cons.prems by (simp add: Index_Cons)
    then show ?thesis using True by (metis HasPrefix_iff add_0 drop0 le_add1 length_append)
  next
    case False
    then obtain j where "i = Suc j" "Index t sub = Some j"
      using Cons.prems by (auto simp: Index_Cons)
    then show ?thesis using Cons.IH by auto
  qed
qed

lemma Index_None: "Index s sub = None \<longleftrightarrow> (\<forall>u v. s \<noteq> u @ sub @ v)"
proof (induction s)
  case Nil
  then show ?case by (auto simp: Index_Nil)
next
  case (Cons x t)
  show ?case
  proof (cases "HasPrefix (x # t) sub")
    case True
    then obtain v where "x # t = [] @ sub @ v"
      by (auto simp: HasPrefix_iff)
    then have "\<not> (\<forall>u v. x # t \<noteq> u @ sub @ v)" by blast
    moreover from True have "Index (x # t) sub = Some 0" by (simp add: Index_Cons)
    ultimately show ?thesis by simp
  next
    case False
    then have "(\<forall>u v. x # t \<noteq> u @ sub @ v) \<longleftrightarrow> (\<forall>u v. t \<noteq> u @ sub @ v)"
      by (auto simp: HasPrefix_iff Cons_eq_append_conv)
    with False Cons show ?thesis by (simp add: Index_Cons)
  qed
qed

text \<open>\<open>strings.SplitN(s, sep, 2)\<close>: cut at the first occurrence of the separator.\<close>

definition SplitN2 :: "bytes \<Rightarrow> bytes \<Rightarrow> bytes list" where
  "SplitN2 s sep =
     (case Index s sep of
        None \<Rightarrow> [s]
      | Some i \<Rightarrow> [take i s, drop (i + length sep) s])"

text \<open>\<open>strings.TrimRight(s, "/")\<close>: drop the trailing bytes of a one-byte cutset.\<close>

definition TrimRight :: "bytes \<Rightarrow> char \<Rightarrow> bytes" where
  "TrimRight s c = rev (dropWhile (\<lambda>x. x = c) (rev s))"

subsection \<open>Decimal numbers\<close>

definition digit_char :: "nat \<Rightarrow> char" where
  "digit_char d = char_of (48 + d)"

text \<open>\<open>strconv.FormatUint(n, 10)\<close> and the verb \<open>%d\<close>.\<close>

fun FormatUint :: "nat \<Rightarrow> bytes" where
  "FormatUint n = (if n < 10 then [digit_char n] else FormatUint (n div 10) @ [digit_char (n mod 10)])"

declare FormatUint.simps [simp del]

text \<open>The verb \<open>%020d\<close>.\<close>

definition Format020 :: "nat \<Rightarrow> bytes" where
  "Format020 n = (let d = FormatUint n in replicate (20 - length d) (digit_char 0) @ d)"

definition is_digit :: "char \<Rightarrow> bool" where
  "is_digit c \<longleftrightarrow> 48 \<le> (of_char c :: nat) \<and> (of_char c :: nat) \<le> 57"

definition digits_value :: "bytes \<Rightarrow> nat" where
  "digits_value s = foldl (\<lambda>n c. 10 * n + (of_char c - 48)) 0 s"

text \<open>\<open>strconv.ParseUint(s, 10, 64)\<close>: \<open>None\<close> is any of its errors.\<close>

definition ParseUint :: "bytes \<Rightarrow> nat option" where
  "ParseUint s =
     (if s \<noteq> [] \<and> list_all is_digit s \<and> digits_value s < 2 ^ 64 then Some (digits_value s) else None)"

text \<open>\<open>strconv.Atoi(s)\<close> on a 64-bit platform: an optional sign, decimal digits, and a range check.\<close>

definition Atoi :: "bytes \<Rightarrow> int option" where
  "Atoi s =
     (let neg = (take 1 s = ''-'');
          body = (if take 1 s = ''-'' \<or> take 1 s = ''+'' then drop 1 s else s);
          v = (if neg then - int (digits_value body) else int (digits_value body))
      in if body \<noteq> [] \<and> list_all is_digit body \<and> is_i64 v then Some v else None)"

lemma of_char_digit_char: "d < 10 \<Longrightarrow> of_char (digit_char d) = 48 + d"
  by (simp add: digit_char_def)

lemma digit_char_less: "d < 10 \<Longrightarrow> e < 10 \<Longrightarrow> digit_char d < digit_char e \<longleftrightarrow> d < e"
  by (simp add: less_char_def of_char_digit_char)

lemma digit_char_inject: "d < 10 \<Longrightarrow> e < 10 \<Longrightarrow> digit_char d = digit_char e \<longleftrightarrow> d = e"
  by (metis of_char_digit_char add_left_cancel)

lemma is_digit_digit_char: "d < 10 \<Longrightarrow> is_digit (digit_char d)"
  by (simp add: is_digit_def of_char_digit_char)

lemma FormatUint_nonempty [simp]: "FormatUint n \<noteq> []"
  by (subst FormatUint.simps) simp

lemma FormatUint_digits: "list_all is_digit (FormatUint n)"
proof (induction n rule: FormatUint.induct)
  case (1 n)
  then show ?case
    by (subst FormatUint.simps) (simp add: is_digit_digit_char)
qed

lemma digits_value_snoc: "digits_value (s @ [c]) = 10 * digits_value s + (of_char c - 48)"
  by (simp add: digits_value_def)

lemma digits_value_FormatUint: "digits_value (FormatUint n) = n"
proof (induction n rule: FormatUint.induct)
  case (1 n)
  show ?case
  proof (cases "n < 10")
    case True
    then show ?thesis
      by (subst FormatUint.simps) (simp add: digits_value_def of_char_digit_char)
  next
    case False
    then show ?thesis
      using "1.IH" by (subst FormatUint.simps) (simp add: digits_value_snoc of_char_digit_char)
  qed
qed

lemma FormatUint_inject [simp]: "FormatUint n = FormatUint m \<longleftrightarrow> n = m"
  by (metis digits_value_FormatUint)

lemma ParseUint_FormatUint: "n < 2 ^ 64 \<Longrightarrow> ParseUint (FormatUint n) = Some n"
  by (simp add: ParseUint_def FormatUint_digits digits_value_FormatUint)

lemma ParseUint_bound: "ParseUint s = Some n \<Longrightarrow> n < 2 ^ 64"
  by (auto simp: ParseUint_def split: if_splits)

text \<open>Fixed-width decimal numerals: what \<open>%020d\<close> prints, and why it sorts numerically.\<close>

fun fixed_digits :: "nat \<Rightarrow> nat \<Rightarrow> bytes" where
  "fixed_digits 0 n = []"
| "fixed_digits (Suc w) n = digit_char (n div 10 ^ w) # fixed_digits w (n mod 10 ^ w)"

lemma length_fixed_digits [simp]: "length (fixed_digits w n) = w"
  by (induction w arbitrary: n) auto

lemma fixed_digits_snoc:
  "fixed_digits (Suc w) n = fixed_digits w (n div 10) @ [digit_char (n mod 10)]"
  if "n < 10 ^ Suc w" for n w
  using that
proof (induction w arbitrary: n)
  case 0
  then show ?case by simp
next
  case (Suc w)
  let ?m = "n mod 10 ^ Suc w"
  have m: "?m < 10 ^ Suc w" by simp
  have q: "n div 10 ^ Suc w = n div 10 div 10 ^ w"
    by (simp add: div_mult2_eq)
  have r: "?m div 10 = n div 10 mod 10 ^ w"
    by (simp add: mod_mult2_eq)
  have "?m mod 10 = n mod 10"
    by (simp add: mod_mult2_eq)
  then show ?case
    using Suc.IH [OF m] q r by (simp only: fixed_digits.simps(2) [of "Suc w"] append_Cons) simp
qed

lemma fixed_digits_zero: "n < 10 ^ w \<Longrightarrow> fixed_digits (Suc w) n = digit_char 0 # fixed_digits w n"
  by simp

lemma fixed_digits_FormatUint:
  "n < 10 ^ w \<Longrightarrow> 0 < w \<Longrightarrow>
     length (FormatUint n) \<le> w \<and>
     fixed_digits w n = replicate (w - length (FormatUint n)) (digit_char 0) @ FormatUint n"
proof (induction n arbitrary: w rule: FormatUint.induct)
  case (1 n)
  then obtain v where v: "w = Suc v" by (cases w) auto
  show ?case
  proof (cases "n < 10")
    case True
    have "fixed_digits (Suc v) n = replicate v (digit_char 0) @ [digit_char n]"
    proof (induction v)
      case (Suc v)
      have "n < 10 ^ Suc v" using True by (simp add: less_le_trans [OF True])
      then show ?case using Suc by simp
    qed (use True in simp)
    with True v show ?thesis by (subst (1 2 3) FormatUint.simps) simp
  next
    case False
    have v0: "0 < v" using "1.prems" False v by (cases v) auto
    have "n div 10 < 10 ^ v" using "1.prems" v by (simp add: less_mult_imp_div_less mult.commute)
    from "1.IH" [OF False this v0] have
      l: "length (FormatUint (n div 10)) \<le> v" and
      f: "fixed_digits v (n div 10) =
        replicate (v - length (FormatUint (n div 10))) (digit_char 0) @ FormatUint (n div 10)"
      by simp_all
    have F: "FormatUint n = FormatUint (n div 10) @ [digit_char (n mod 10)]"
      using False by (subst FormatUint.simps) simp
    have "fixed_digits w n = fixed_digits v (n div 10) @ [digit_char (n mod 10)]"
      using fixed_digits_snoc [of n v] "1.prems" v by simp
    with l f F v show ?thesis by simp
  qed
qed

lemma Format020_fixed: "n < 10 ^ 20 \<Longrightarrow> Format020 n = fixed_digits 20 n"
  using fixed_digits_FormatUint [of n 20] by (simp add: Format020_def Let_def)

lemma div_mod_less_iff:
  fixes n m p :: nat
  shows "n < m \<longleftrightarrow> n div p < m div p \<or> n div p = m div p \<and> n mod p < m mod p"
proof (cases "n div p = m div p")
  case True
  have n: "n = m div p * p + n mod p"
    using True by (metis div_mult_mod_eq)
  have "m = m div p * p + m mod p" by simp
  with n have "n < m \<longleftrightarrow> n mod p < m mod p" by linarith
  with True show ?thesis by simp
next
  case False
  have "n < m" if "n div p < m div p" for n m
    using that by (meson div_le_mono linorder_not_less)
  with False show ?thesis by (meson linorder_neq_iff order_less_asym)
qed

lemma fixed_digits_less:
  "n < 10 ^ w \<Longrightarrow> m < 10 ^ w \<Longrightarrow> fixed_digits w n < fixed_digits w m \<longleftrightarrow> n < m"
proof (induction w arbitrary: n m)
  case (Suc w)
  let ?p = "10 ^ w :: nat"
  have d: "n div ?p < 10" "m div ?p < 10"
    using Suc.prems by (auto simp: less_mult_imp_div_less mult.commute)
  have IH: "fixed_digits w (n mod ?p) < fixed_digits w (m mod ?p) \<longleftrightarrow> n mod ?p < m mod ?p"
    by (rule Suc.IH) simp_all
  have "n < m \<longleftrightarrow> n div ?p < m div ?p \<or> n div ?p = m div ?p \<and> n mod ?p < m mod ?p"
    by (rule div_mod_less_iff)
  then show ?case
    using d IH by (auto simp: digit_char_less digit_char_inject)
qed simp

lemma Format020_less: "n < 10 ^ 20 \<Longrightarrow> m < 10 ^ 20 \<Longrightarrow> Format020 n < Format020 m \<longleftrightarrow> n < m"
  by (simp add: Format020_fixed fixed_digits_less)

lemma Format020_inject: "n < 10 ^ 20 \<Longrightarrow> m < 10 ^ 20 \<Longrightarrow> Format020 n = Format020 m \<longleftrightarrow> n = m"
  by (metis Format020_less linorder_neq_iff)

subsection \<open>UTF-8 and ToLower\<close>

definition rune_error :: nat where
  "rune_error = 0xFFFD"

definition cont_byte :: "char \<Rightarrow> bool" where
  "cont_byte c \<longleftrightarrow> 0x80 \<le> (of_char c :: nat) \<and> (of_char c :: nat) \<le> 0xBF"

text \<open>
  The bounds \<open>utf8.acceptRanges\<close> puts on the second byte, by the first byte of a sequence of three
  or four bytes.
\<close>

definition second_ok :: "nat \<Rightarrow> nat \<Rightarrow> bool" where
  "second_ok b0 b1 \<longleftrightarrow>
     (if b0 = 0xE0 then 0xA0 else if b0 = 0xF0 then 0x90 else 0x80) \<le> b1 \<and>
     b1 \<le> (if b0 = 0xED then 0x9F else if b0 = 0xF4 then 0x8F else 0xBF)"

text \<open>
  \<open>utf8.DecodeRuneInString\<close> on a non-empty string: the code point and its width. Every malformed
  sequence is U+FFFD of width 1.
\<close>

fun DecodeRune :: "bytes \<Rightarrow> nat \<times> nat" where
  "DecodeRune [] = (rune_error, 0)"
| "DecodeRune (c0 # s) =
     (let b0 = of_char c0 :: nat in
      if b0 < 0x80 then (b0, 1)
      else if 0xC2 \<le> b0 \<and> b0 \<le> 0xDF then
        (case s of
           c1 # _ \<Rightarrow>
             if cont_byte c1 then ((b0 - 0xC0) * 64 + (of_char c1 - 0x80), 2) else (rune_error, 1)
         | _ \<Rightarrow> (rune_error, 1))
      else if 0xE0 \<le> b0 \<and> b0 \<le> 0xEF then
        (case s of
           c1 # c2 # _ \<Rightarrow>
             if second_ok b0 (of_char c1) \<and> cont_byte c2
             then ((b0 - 0xE0) * 4096 + (of_char c1 - 0x80) * 64 + (of_char c2 - 0x80), 3)
             else (rune_error, 1)
         | _ \<Rightarrow> (rune_error, 1))
      else if 0xF0 \<le> b0 \<and> b0 \<le> 0xF4 then
        (case s of
           c1 # c2 # c3 # _ \<Rightarrow>
             if second_ok b0 (of_char c1) \<and> cont_byte c2 \<and> cont_byte c3
             then ((b0 - 0xF0) * 262144 + (of_char c1 - 0x80) * 4096
                   + (of_char c2 - 0x80) * 64 + (of_char c3 - 0x80), 4)
             else (rune_error, 1)
         | _ \<Rightarrow> (rune_error, 1))
      else (rune_error, 1))"

text \<open>\<open>utf8.AppendRune\<close>: surrogates and values beyond U+10FFFF are written as U+FFFD.\<close>

definition EncodeRune :: "nat \<Rightarrow> bytes" where
  "EncodeRune r0 =
     (let r = (if 0xD800 \<le> r0 \<and> r0 \<le> 0xDFFF \<or> 0x10FFFF < r0 then rune_error else r0) in
      if r < 0x80 then [char_of r]
      else if r < 0x800 then [char_of (0xC0 + r div 64), char_of (0x80 + r mod 64)]
      else if r < 0x10000 then
        [char_of (0xE0 + r div 4096), char_of (0x80 + r div 64 mod 64), char_of (0x80 + r mod 64)]
      else
        [char_of (0xF0 + r div 262144), char_of (0x80 + r div 4096 mod 64),
         char_of (0x80 + r div 64 mod 64), char_of (0x80 + r mod 64)])"

definition lower_rune :: "(nat \<Rightarrow> nat) \<Rightarrow> nat \<Rightarrow> nat" where
  "lower_rune ul r = (if r < 0x80 then (if 65 \<le> r \<and> r \<le> 90 then r + 32 else r) else ul r)"

text \<open>
  \<open>strings.ToLower\<close>: every code point is mapped and written back, and a malformed byte becomes the
  three bytes of U+FFFD.
\<close>

fun ToLower :: "(nat \<Rightarrow> nat) \<Rightarrow> bytes \<Rightarrow> bytes" where
  "ToLower ul [] = []"
| "ToLower ul (c # s) =
     (case DecodeRune (c # s) of
        (r, w) \<Rightarrow> EncodeRune (lower_rune ul r) @ ToLower ul (drop (w - 1) s))"

definition is_ascii :: "bytes \<Rightarrow> bool" where
  "is_ascii s \<longleftrightarrow> (\<forall>c \<in> set s. (of_char c :: nat) < 0x80)"

definition lower_char :: "char \<Rightarrow> char" where
  "lower_char c = (let b = of_char c :: nat in if 65 \<le> b \<and> b \<le> 90 then char_of (b + 32) else c)"

lemma ToLower_ascii: "is_ascii s \<Longrightarrow> ToLower ul s = map lower_char s"
proof (induction s)
  case (Cons c s)
  then have c: "(of_char c :: nat) < 0x80" and s: "is_ascii s"
    by (auto simp: is_ascii_def)
  have "EncodeRune (lower_rune ul (of_char c)) = [lower_char c]"
    using c by (auto simp: EncodeRune_def lower_rune_def lower_char_def Let_def)
  then show ?case using c Cons.IH [OF s] by (simp add: Let_def)
qed simp

declare ToLower.simps [simp del]

lemma ToLower_code [code]:
  "ToLower ul s =
     (if is_ascii s then map lower_char s
      else case s of
        [] \<Rightarrow> []
      | c # t \<Rightarrow>
          (case DecodeRune s of (r, w) \<Rightarrow> EncodeRune (lower_rune ul r) @ ToLower ul (drop (w - 1) t)))"
proof (cases "is_ascii s")
  case True
  then show ?thesis by (simp add: ToLower_ascii)
next
  case False
  then show ?thesis by (cases s) (simp_all add: ToLower.simps del: DecodeRune.simps)
qed

lemma length_ToLower_ascii: "is_ascii s \<Longrightarrow> length (ToLower ul s) = length s"
  by (simp add: ToLower_ascii)

lemma is_ascii_simps [simp]:
  "is_ascii []"
  "is_ascii (c # s) \<longleftrightarrow> (of_char c :: nat) < 0x80 \<and> is_ascii s"
  "is_ascii (s @ t) \<longleftrightarrow> is_ascii s \<and> is_ascii t"
  by (auto simp: is_ascii_def)

end
