(* ===== verification/Registry_Selector.thy ===== *)
theory Registry_Selector
  imports Go_Strings
begin

text \<open>
  Label selectors (\<open>internal/registry/selector.go\<close>): the parser of the Kubernetes-style selector
  syntax and of the legacy \<open>label=key=value\<close> filters, and the evaluation of a selector on an
  instance's labels.

  An error return is \<open>Inl\<close>. A run-time panic of the Go code (a slice bound out of range) is the
  error value \<open>SlicePanic\<close>, so that "the parser never panics" is a statement of the model.
\<close>

datatype labelSelectorOperator =
  OpExists | OpNotExists | OpEquals | OpNotEquals | OpIn | OpNotIn

record labelRequirement =
  lr_Key :: bytes
  lr_Operator :: labelSelectorOperator
  lr_Values :: "bytes list"

type_synonym Selector = "labelRequirement list"

datatype selector_error =
    UnexpectedClosing bytes
  | EmptyRequirement bytes
  | Unbalanced bytes
  | ExpressionEmpty
  | KeyRequired bytes
  | ExpectedValues bytes
  | SetValuesEmpty
  | KeyAndValueRequired bytes
  | LegacyFormat bytes
  | LegacyKeyValue bytes
  | SlicePanic

text \<open>The slice expressions \<open>s[:i]\<close> and \<open>s[i:]\<close>, which panic when \<open>i\<close> exceeds the length.\<close>

definition slice_to :: "bytes \<Rightarrow> nat \<Rightarrow> selector_error + bytes" where
  "slice_to s i = (if i \<le> length s then Inr (take i s) else Inl SlicePanic)"

definition slice_from :: "bytes \<Rightarrow> nat \<Rightarrow> selector_error + bytes" where
  "slice_from s i = (if i \<le> length s then Inr (drop i s) else Inl SlicePanic)"

subsection \<open>Splitting at top-level commas\<close>

text \<open>
  The loop of \<open>splitSelectorExpressions\<close>: \<open>rest\<close> is \<open>raw[index:]\<close>. The Go loop ranges over code
  points; the three bytes it looks for are ASCII and occur in no longer encoding, so ranging over
  bytes visits them at the same indexes.
\<close>

fun split_loop ::
  "bytes \<Rightarrow> bytes \<Rightarrow> nat \<Rightarrow> nat \<Rightarrow> nat \<Rightarrow> bytes list \<Rightarrow> selector_error + (bytes list \<times> nat \<times> nat)"
where
  "split_loop raw [] index start depth exprs = Inr (exprs, start, depth)"
| "split_loop raw (r # rest) index start depth exprs =
     (if r = CHR ''('' then split_loop raw rest (Suc index) start (Suc depth) exprs
      else if r = CHR '')'' then
        (if depth = 0 then Inl (UnexpectedClosing raw)
         else split_loop raw rest (Suc index) start (depth - 1) exprs)
      else if r = CHR '','' \<and> depth = 0 then
        (let expression = TrimSpace (take (index - start) (drop start raw)) in
         if expression = [] then Inl (EmptyRequirement raw)
         else split_loop raw rest (Suc index) (Suc index) depth (exprs @ [expression]))
      else split_loop raw rest (Suc index) start depth exprs)"

definition splitSelectorExpressions :: "bytes \<Rightarrow> selector_error + bytes list" where
  "splitSelectorExpressions raw0 =
     (let raw = TrimSpace raw0 in
      if raw = [] then Inr []
      else and_then (split_loop raw raw 0 0 0 [])
        (\<lambda>(exprs, start, depth).
           if depth \<noteq> 0 then Inl (Unbalanced raw)
           else let tail = TrimSpace (drop start raw) in
                if tail = [] then Inl (EmptyRequirement raw) else Inr (exprs @ [tail])))"

subsection \<open>One expression\<close>

fun parse_set_values :: "bytes list \<Rightarrow> bytes list \<Rightarrow> selector_error + bytes list" where
  "parse_set_values [] acc = Inr acc"
| "parse_set_values (item # items) acc =
     (let v = TrimSpace item in
      if v = [] then Inl SetValuesEmpty
      else if v \<in> set acc then parse_set_values items acc
      else parse_set_values items (acc @ [v]))"

definition parseSetSelectorValues :: "bytes \<Rightarrow> selector_error + bytes list" where
  "parseSetSelectorValues raw =
     and_then (parse_set_values (Split raw (CHR '','')) [])
       (\<lambda>values. if values = [] then Inl SetValuesEmpty else Inr values)"

text \<open>The two candidates, in the order the code tries them.\<close>

definition set_candidates :: "(bytes \<times> labelSelectorOperator) list" where
  "set_candidates = [('' notin'', OpNotIn), ('' in'', OpIn)]"

text \<open>
  One pass of the loop body for a candidate found at \<open>index\<close> of the lower-cased expression. The index
  is then used to cut the \<^emph>\<open>original\<close> expression.
\<close>

definition parse_candidate ::
  "bytes \<Rightarrow> nat \<Rightarrow> bytes \<Rightarrow> labelSelectorOperator \<Rightarrow> selector_error + labelRequirement" where
  "parse_candidate expression index token operator =
     and_then (slice_to expression index) (\<lambda>k.
       let key = TrimSpace k in
       if key = [] then Inl (KeyRequired expression)
       else and_then (slice_from expression (index + length token)) (\<lambda>vt.
         let valuesText = TrimSpace vt in
         if \<not> HasPrefix valuesText ''('' \<or> \<not> HasSuffix valuesText '')'' then
           Inl (ExpectedValues expression)
         else if length valuesText < 2 then Inl SlicePanic
         else and_then (parseSetSelectorValues (take (length valuesText - 2) (drop 1 valuesText)))
           (\<lambda>values. Inr \<lparr>lr_Key = key, lr_Operator = operator, lr_Values = values\<rparr>)))"

fun try_candidates ::
  "bytes \<Rightarrow> bytes \<Rightarrow> (bytes \<times> labelSelectorOperator) list \<Rightarrow> (selector_error + labelRequirement) option"
where
  "try_candidates expression lower [] = None"
| "try_candidates expression lower ((token, operator) # cs) =
     (case Index lower token of
        None \<Rightarrow> try_candidates expression lower cs
      | Some index \<Rightarrow> Some (parse_candidate expression index token operator))"

text \<open>\<open>None\<close> is the return value \<open>ok = false\<close>.\<close>

definition parseSetSelectorExpression ::
  "(nat \<Rightarrow> nat) \<Rightarrow> bytes \<Rightarrow> (selector_error + labelRequirement) option" where
  "parseSetSelectorExpression ul expression =
     try_candidates expression (ToLower ul expression) set_candidates"

definition parseBinarySelectorExpression ::
  "bytes \<Rightarrow> nat \<Rightarrow> nat \<Rightarrow> labelSelectorOperator \<Rightarrow> selector_error + labelRequirement" where
  "parseBinarySelectorExpression expression index operatorLength operator =
     and_then (slice_to expression index) (\<lambda>k.
     and_then (slice_from expression (index + operatorLength)) (\<lambda>v.
       let key = TrimSpace k; value = TrimSpace v in
       if key = [] \<or> value = [] then Inl (KeyAndValueRequired expression)
       else Inr \<lparr>lr_Key = key, lr_Operator = operator, lr_Values = [value]\<rparr>))"

definition parseSelectorExpression ::
  "(nat \<Rightarrow> nat) \<Rightarrow> bytes \<Rightarrow> selector_error + labelRequirement" where
  "parseSelectorExpression ul expression0 =
     (let expression = TrimSpace expression0 in
      if expression = [] then Inl ExpressionEmpty
      else case parseSetSelectorExpression ul expression of
        Some r \<Rightarrow> r
      | None \<Rightarrow>
        (case Index expression ''!='' of
          Some idx \<Rightarrow> parseBinarySelectorExpression expression idx 2 OpNotEquals
        | None \<Rightarrow>
        (case Index expression ''=='' of
          Some idx \<Rightarrow> parseBinarySelectorExpression expression idx 2 OpEquals
        | None \<Rightarrow>
        (case Index expression ''='' of
          Some idx \<Rightarrow> parseBinarySelectorExpression expression idx 1 OpEquals
        | None \<Rightarrow>
          if HasPrefix expression ''!'' then
            (let key = TrimSpace (drop 1 expression) in
             if key = [] then Inl (KeyRequired expression)
             else Inr \<lparr>lr_Key = key, lr_Operator = OpNotExists, lr_Values = []\<rparr>)
          else Inr \<lparr>lr_Key = expression, lr_Operator = OpExists, lr_Values = []\<rparr>))))"

subsection \<open>Whole parameter lists\<close>

fun parse_expressions ::
  "(nat \<Rightarrow> nat) \<Rightarrow> bytes list \<Rightarrow> Selector \<Rightarrow> selector_error + Selector" where
  "parse_expressions ul [] acc = Inr acc"
| "parse_expressions ul (e # es) acc =
     and_then (parseSelectorExpression ul e) (\<lambda>r. parse_expressions ul es (acc @ [r]))"

fun parse_items :: "(nat \<Rightarrow> nat) \<Rightarrow> bytes list \<Rightarrow> Selector \<Rightarrow> selector_error + Selector" where
  "parse_items ul [] acc = Inr acc"
| "parse_items ul (item0 # items) acc =
     (let item = TrimSpace item0 in
      if item = [] then parse_items ul items acc
      else and_then (splitSelectorExpressions item) (\<lambda>es.
           and_then (parse_expressions ul es acc) (parse_items ul items)))"

definition parseLabelSelectors :: "(nat \<Rightarrow> nat) \<Rightarrow> bytes list \<Rightarrow> selector_error + Selector" where
  "parseLabelSelectors ul items = parse_items ul items []"

fun parse_legacy :: "bytes list \<Rightarrow> Selector \<Rightarrow> selector_error + Selector" where
  "parse_legacy [] acc = Inr acc"
| "parse_legacy (item0 # items) acc =
     (let item = TrimSpace item0 in
      if item = [] then parse_legacy items acc
      else case SplitN2 item ''='' of
        [a, b] \<Rightarrow>
          (let key = TrimSpace a; value = TrimSpace b in
           if key = [] \<or> value = [] then Inl (LegacyKeyValue item)
           else parse_legacy items
                  (acc @ [\<lparr>lr_Key = key, lr_Operator = OpEquals, lr_Values = [value]\<rparr>]))
      | _ \<Rightarrow> Inl (LegacyFormat item))"

definition parseLegacyLabelFilters :: "bytes list \<Rightarrow> selector_error + Selector" where
  "parseLegacyLabelFilters items = parse_legacy items []"

definition ParseLabelSelectorFilters ::
  "(nat \<Rightarrow> nat) \<Rightarrow> bytes list \<Rightarrow> bytes list \<Rightarrow> selector_error + Selector" where
  "ParseLabelSelectorFilters ul selectors legacyLabels =
     and_then (parseLabelSelectors ul selectors) (\<lambda>parsed.
     and_then (parseLegacyLabelFilters legacyLabels) (\<lambda>legacy. Inr (parsed @ legacy)))"

subsection \<open>Evaluation\<close>

definition containsString :: "bytes list \<Rightarrow> bytes \<Rightarrow> bool" where
  "containsString items target \<longleftrightarrow> list_ex (\<lambda>item. item = target) items"

text \<open>\<open>None\<close> is the index panic of \<open>requirement.Values[0]\<close> on an empty list.\<close>

definition first_value :: "bytes list \<Rightarrow> bytes option" where
  "first_value vs = (case vs of [] \<Rightarrow> None | v # _ \<Rightarrow> Some v)"

definition matchesLabelRequirement ::
  "(bytes, bytes) gomap \<Rightarrow> labelRequirement \<Rightarrow> bool option" where
  "matchesLabelRequirement labels req =
     (let value = map_of labels (lr_Key req) in
      case lr_Operator req of
        OpExists \<Rightarrow> Some (value \<noteq> None)
      | OpNotExists \<Rightarrow> Some (value = None)
      | OpEquals \<Rightarrow>
          (case value of None \<Rightarrow> Some False
           | Some v \<Rightarrow> map_option (\<lambda>w. v = w) (first_value (lr_Values req)))
      | OpNotEquals \<Rightarrow>
          (case value of None \<Rightarrow> Some True
           | Some v \<Rightarrow> map_option (\<lambda>w. v \<noteq> w) (first_value (lr_Values req)))
      | OpIn \<Rightarrow> Some (case value of None \<Rightarrow> False | Some v \<Rightarrow> containsString (lr_Values req) v)
      | OpNotIn \<Rightarrow> Some (case value of None \<Rightarrow> True | Some v \<Rightarrow> \<not> containsString (lr_Values req) v))"

fun MatchesLabelSelector :: "(bytes, bytes) gomap \<Rightarrow> Selector \<Rightarrow> bool option" where
  "MatchesLabelSelector labels [] = Some True"
| "MatchesLabelSelector labels (r # rs) =
     (case matchesLabelRequirement labels r of
        None \<Rightarrow> None
      | Some False \<Rightarrow> Some False
      | Some True \<Rightarrow> MatchesLabelSelector labels rs)"

end
