(* ===== verification/Selector_Correct.thy ===== *)
theory Selector_Correct
  imports Registry_Selector
begin

text \<open>
  Correctness of the label selectors: what the parser accepts is well formed, evaluation of a parsed
  selector is the conjunction of its requirements and never indexes an empty value list, printing
  and parsing are inverse on plain labels, and parsing panics on some malformed UTF-8 input but on no
  ASCII input.
\<close>

subsection \<open>Specification\<close>

definition label_text :: "bytes \<Rightarrow> bool" where
  "label_text s \<longleftrightarrow> s \<noteq> [] \<and> trimmed s"

text \<open>What the parser promises of each requirement.\<close>

definition requirement_ok :: "labelRequirement \<Rightarrow> bool" where
  "requirement_ok r \<longleftrightarrow>
     label_text (lr_Key r) \<and> list_all label_text (lr_Values r) \<and>
     (case lr_Operator r of
        OpExists \<Rightarrow> lr_Values r = []
      | OpNotExists \<Rightarrow> lr_Values r = []
      | OpEquals \<Rightarrow> length (lr_Values r) = 1
      | OpNotEquals \<Rightarrow> length (lr_Values r) = 1
      | OpIn \<Rightarrow> lr_Values r \<noteq> [] \<and> distinct (lr_Values r)
      | OpNotIn \<Rightarrow> lr_Values r \<noteq> [] \<and> distinct (lr_Values r))"

text \<open>The meaning of a requirement on a label map.\<close>

definition requirement_holds :: "(bytes \<rightharpoonup> bytes) \<Rightarrow> labelRequirement \<Rightarrow> bool" where
  "requirement_holds m r =
     (case lr_Operator r of
        OpExists \<Rightarrow> lr_Key r \<in> dom m
      | OpNotExists \<Rightarrow> lr_Key r \<notin> dom m
      | OpEquals \<Rightarrow> m (lr_Key r) \<in> Some ` set (lr_Values r)
      | OpNotEquals \<Rightarrow> m (lr_Key r) \<notin> Some ` set (lr_Values r)
      | OpIn \<Rightarrow> m (lr_Key r) \<in> Some ` set (lr_Values r)
      | OpNotIn \<Rightarrow> m (lr_Key r) \<notin> Some ` set (lr_Values r))"

subsection \<open>Evaluation\<close>

lemma matchesLabelRequirement_ok:
  "requirement_ok r \<Longrightarrow>
     matchesLabelRequirement labels r = Some (requirement_holds (map_of labels) r)"
  by (auto simp: requirement_ok_def matchesLabelRequirement_def requirement_holds_def first_value_def
      containsString_def list_ex_iff length_Suc_conv domIff
      split: labelSelectorOperator.splits option.splits)

lemma MatchesLabelSelector_ok:
  "list_all requirement_ok sel \<Longrightarrow>
     MatchesLabelSelector labels sel = Some (list_all (requirement_holds (map_of labels)) sel)"
  by (induction sel) (auto simp: matchesLabelRequirement_ok split: bool.splits)

subsection \<open>What the parser accepts\<close>

lemma parse_set_values_ok:
  "parse_set_values items acc = Inr vs \<Longrightarrow> list_all label_text acc \<Longrightarrow> distinct acc \<Longrightarrow>
     list_all label_text vs \<and> distinct vs"
  by (induction items arbitrary: acc) (auto simp: Let_def label_text_def split: if_splits)

lemma parse_candidate_ok:
  assumes "parse_candidate e i token operator = Inr r" "operator = OpIn \<or> operator = OpNotIn"
  shows "requirement_ok r"
  using assms
  by (auto simp: parse_candidate_def Let_def requirement_ok_def label_text_def
      parseSetSelectorValues_def split: if_splits dest!: parse_set_values_ok
      split: labelSelectorOperator.splits)

lemma parseSetSelectorExpression_ok:
  "parseSetSelectorExpression ul e = Some (Inr r) \<Longrightarrow> requirement_ok r"
  by (auto simp: parseSetSelectorExpression_def set_candidates_def split: option.splits
      dest: parse_candidate_ok)

lemma parseBinarySelectorExpression_ok:
  assumes "parseBinarySelectorExpression e i n operator = Inr r"
    "operator = OpEquals \<or> operator = OpNotEquals"
  shows "requirement_ok r"
  using assms
  by (auto simp: parseBinarySelectorExpression_def Let_def requirement_ok_def label_text_def
      split: if_splits labelSelectorOperator.splits)

lemma requirement_ok_exists:
  "label_text k \<Longrightarrow> operator = OpExists \<or> operator = OpNotExists \<Longrightarrow>
     requirement_ok \<lparr>lr_Key = k, lr_Operator = operator, lr_Values = []\<rparr>"
  by (auto simp: requirement_ok_def split: labelSelectorOperator.splits)

lemma parseSelectorExpression_ok:
  "parseSelectorExpression ul e = Inr r \<Longrightarrow> requirement_ok r"
  by (auto simp: parseSelectorExpression_def Let_def split: if_splits option.splits
      dest: parseSetSelectorExpression_ok parseBinarySelectorExpression_ok
      intro!: requirement_ok_exists simp: label_text_def)

lemma parse_expressions_ok:
  "parse_expressions ul es acc = Inr sel \<Longrightarrow> list_all requirement_ok acc \<Longrightarrow>
     list_all requirement_ok sel"
  by (induction es arbitrary: acc) (auto dest: parseSelectorExpression_ok)

lemma parse_items_ok:
  "parse_items ul items acc = Inr sel \<Longrightarrow> list_all requirement_ok acc \<Longrightarrow>
     list_all requirement_ok sel"
  by (induction items arbitrary: acc) (auto simp: Let_def dest: parse_expressions_ok split: if_splits)

lemma parse_legacy_ok:
  "parse_legacy items acc = Inr sel \<Longrightarrow> list_all requirement_ok acc \<Longrightarrow>
     list_all requirement_ok sel"
  by (induction items arbitrary: acc)
    (auto simp: Let_def SplitN2_def requirement_ok_def label_text_def
      split: if_splits option.splits)

lemma ParseLabelSelectorFilters_requirements:
  "ParseLabelSelectorFilters ul selectors labels = Inr sel \<Longrightarrow> list_all requirement_ok sel"
  by (auto simp: ParseLabelSelectorFilters_def parseLabelSelectors_def parseLegacyLabelFilters_def
      dest!: parse_items_ok parse_legacy_ok)

subsection \<open>Panics\<close>

lemma parse_set_values_no_panic: "parse_set_values items acc \<noteq> Inl SlicePanic"
  by (induction items arbitrary: acc) (auto simp: Let_def)

lemma split_loop_no_panic: "split_loop raw rest i s d ex \<noteq> Inl SlicePanic"
  by (induction raw rest i s d ex rule: split_loop.induct) (auto simp: Let_def)

lemma splitSelectorExpressions_no_panic: "splitSelectorExpressions raw \<noteq> Inl SlicePanic"
  using split_loop_no_panic
  by (auto simp: splitSelectorExpressions_def Let_def and_then_eq_Inl split: if_splits)

lemma parens_length: "HasPrefix s ''('' \<Longrightarrow> HasSuffix s '')'' \<Longrightarrow> 2 \<le> length s"
  by (auto simp: HasPrefix_iff HasSuffix_iff Cons_eq_append_conv)

lemma parse_candidate_no_panic:
  "i + length token \<le> length e \<Longrightarrow> parse_candidate e i token operator \<noteq> Inl SlicePanic"
  using parse_set_values_no_panic parens_length
  by (auto simp: parse_candidate_def slice_to_def slice_from_def Let_def and_then_eq_Inl
      parseSetSelectorValues_def split: if_splits)
    (meson linorder_not_less)

lemma parseSet_ascii_no_panic:
  assumes "is_ascii e"
  shows "parseSetSelectorExpression ul e \<noteq> Some (Inl SlicePanic)"
proof -
  have "parse_candidate e i token operator \<noteq> Inl SlicePanic"
    if "Index (ToLower ul e) token = Some i" for i token operator
    using Index_Some [OF that] length_ToLower_ascii [OF assms, of ul]
    by (intro parse_candidate_no_panic) simp
  then show ?thesis
    by (auto simp: parseSetSelectorExpression_def set_candidates_def split: option.splits)
qed

lemma parseBinary_no_panic:
  "Index e token = Some i \<Longrightarrow> n \<le> length token \<Longrightarrow>
     parseBinarySelectorExpression e i n operator \<noteq> Inl SlicePanic"
  by (drule Index_Some)
    (auto simp: parseBinarySelectorExpression_def slice_to_def slice_from_def Let_def)

lemma parseSelectorExpression_no_panic:
  assumes "is_ascii e"
  shows "parseSelectorExpression ul e \<noteq> Inl SlicePanic"
proof -
  have "is_ascii (TrimSpace e)"
    using assms set_TrimSpace [of e] by (auto simp: is_ascii_def)
  then show ?thesis
    using parseSet_ascii_no_panic [of "TrimSpace e" ul]
    by (auto simp: parseSelectorExpression_def Let_def parseBinary_no_panic split: option.splits)
qed

lemma split_loop_parts:
  "split_loop raw rest i s d ex = Inr (ex', s', d') \<Longrightarrow> x \<in> set ex' \<Longrightarrow>
     x \<in> set ex \<or> set x \<subseteq> set raw"
proof (induction raw rest i s d ex rule: split_loop.induct)
  case (2 raw r rest i s d ex)
  have "set (TrimSpace (take (i - s) (drop s raw))) \<subseteq> set raw"
    using set_TrimSpace set_take_subset set_drop_subset by (meson subset_trans)
  with 2 show ?case by (auto simp: Let_def split: if_splits)
qed simp

lemma splitSelectorExpressions_parts:
  assumes "splitSelectorExpressions raw = Inr es" "e \<in> set es"
  shows "set e \<subseteq> set raw"
proof -
  have t: "set (TrimSpace raw) \<subseteq> set raw" by (rule set_TrimSpace)
  have "set (TrimSpace (drop s (TrimSpace raw))) \<subseteq> set raw" for s
    using set_TrimSpace set_drop_subset t by (meson subset_trans)
  then show ?thesis
    using assms t by (fastforce simp: splitSelectorExpressions_def Let_def split: if_splits
        dest: split_loop_parts)
qed

lemma parse_expressions_no_panic:
  "\<forall>e \<in> set es. is_ascii e \<Longrightarrow> parse_expressions ul es acc \<noteq> Inl SlicePanic"
  by (induction es arbitrary: acc) (auto simp: and_then_eq_Inl dest: parseSelectorExpression_no_panic)

lemma parse_items_no_panic:
  "\<forall>s \<in> set items. is_ascii s \<Longrightarrow> parse_items ul items acc \<noteq> Inl SlicePanic"
proof (induction items arbitrary: acc)
  case (Cons item items)
  have "\<forall>e \<in> set es. is_ascii e" if "splitSelectorExpressions (TrimSpace item) = Inr es" for es
    using splitSelectorExpressions_parts [OF that] set_TrimSpace [of item] Cons.prems
    by (fastforce simp: is_ascii_def)
  then show ?case
    using Cons splitSelectorExpressions_no_panic
    by (auto simp: Let_def and_then_eq_Inl dest: parse_expressions_no_panic)
qed simp

lemma parse_legacy_no_panic: "parse_legacy items acc \<noteq> Inl SlicePanic"
  by (induction items arbitrary: acc) (auto simp: Let_def SplitN2_def split: option.splits)

subsection \<open>Printing\<close>

text \<open>The concrete syntax of a requirement, as \<open>LabelSelectorSyntaxSummary\<close> documents it.\<close>

definition print_requirement :: "labelRequirement \<Rightarrow> bytes" where
  "print_requirement r =
     (case lr_Operator r of
        OpExists \<Rightarrow> lr_Key r
      | OpNotExists \<Rightarrow> ''!'' @ lr_Key r
      | OpEquals \<Rightarrow> lr_Key r @ ''='' @ concat (lr_Values r)
      | OpNotEquals \<Rightarrow> lr_Key r @ ''!='' @ concat (lr_Values r)
      | OpIn \<Rightarrow> lr_Key r @ '' in ('' @ Join (lr_Values r) '','' @ '')''
      | OpNotIn \<Rightarrow> lr_Key r @ '' notin ('' @ Join (lr_Values r) '','' @ '')'')"

text \<open>Letters, digits and the four punctuation bytes common in labels.\<close>

definition plain_char :: "char \<Rightarrow> bool" where
  "plain_char c \<longleftrightarrow>
     (let b = of_char c :: nat in
      48 \<le> b \<and> b \<le> 57 \<or> 65 \<le> b \<and> b \<le> 90 \<or> 97 \<le> b \<and> b \<le> 122 \<or> c \<in> set ''-_./'')"

definition plain_requirement :: "labelRequirement \<Rightarrow> bool" where
  "plain_requirement r \<longleftrightarrow>
     requirement_ok r \<and> list_all plain_char (lr_Key r) \<and> list_all (list_all plain_char) (lr_Values r)"

text \<open>A visible ASCII byte: neither blank nor part of a longer encoding.\<close>

definition solid :: "char \<Rightarrow> bool" where
  "solid c \<longleftrightarrow> 0x21 \<le> (of_char c :: nat) \<and> (of_char c :: nat) < 0x7F"

lemma solid_space_seqs:
  "solid c \<Longrightarrow> p \<in> set space_seqs \<Longrightarrow> hd p \<noteq> c \<and> last p \<noteq> c"
  by (auto simp: solid_def space_seqs_def)

lemma trimmed_solid: "s = [] \<or> solid (hd s) \<and> solid (last s) \<Longrightarrow> trimmed s"
proof (cases "s = []")
  case False
  assume "s = [] \<or> solid (hd s) \<and> solid (last s)"
  with False have h: "solid (hd s)" and l: "solid (last s)" by auto
  show ?thesis
    unfolding trimmed_def
  proof (intro ballI conjI notI)
    fix p assume p: "p \<in> set space_seqs"
    then have n: "p \<noteq> []" by (rule space_seqs_nonempty)
    show False if "HasPrefix s p"
      using that solid_space_seqs [OF h p] n by (auto simp: HasPrefix_iff)
    show False if "HasSuffix s p"
      using that solid_space_seqs [OF l p] n by (auto simp: HasSuffix_iff)
  qed
qed simp

lemma plain_char_facts:
  assumes "plain_char c"
  shows "solid c" "(of_char c :: nat) < 0x80" "c \<notin> set '' ,()=!''" "lower_char c \<noteq> CHR '' ''"
proof -
  show "solid c" using assms by (auto simp: plain_char_def solid_def Let_def)
  then show "(of_char c :: nat) < 0x80" by (simp add: solid_def)
  show "c \<notin> set '' ,()=!''" using assms by (auto simp: plain_char_def Let_def)
  show "lower_char c \<noteq> CHR '' ''"
  proof
    assume "lower_char c = CHR '' ''"
    then have "(of_char (lower_char c) :: nat) = 32" by simp
    with assms show False
      by (auto simp: plain_char_def lower_char_def Let_def split: if_splits)
  qed
qed

lemma not_plain_char [simp]:
  "\<not> plain_char (CHR '' '')" "\<not> plain_char (CHR '','')" "\<not> plain_char (CHR ''('')"
  "\<not> plain_char (CHR '')'')" "\<not> plain_char (CHR ''='')" "\<not> plain_char (CHR ''!'')"
  by (simp_all add: plain_char_def)

lemma plain_trimmed: "list_all plain_char s \<Longrightarrow> trimmed s"
  by (cases "s = []") (auto simp: list_all_iff intro!: trimmed_solid plain_char_facts(1))

lemma plain_not_special: "list_all plain_char s \<Longrightarrow> c \<in> set '' ,()=!'' \<Longrightarrow> c \<notin> set s"
  using plain_char_facts(3) by (auto simp: list_all_iff)

lemma plain_ascii: "list_all plain_char s \<Longrightarrow> is_ascii s"
  using plain_char_facts(2) by (auto simp: list_all_iff is_ascii_def)

lemma plain_lower: "list_all plain_char s \<Longrightarrow> CHR '' '' \<notin> set (map lower_char s)"
  using plain_char_facts(4) by (force simp: list_all_iff)

lemma Index_skip:
  "c \<notin> set u \<Longrightarrow> Index (u @ s) (c # t) = map_option (\<lambda>i. length u + i) (Index s (c # t))"
proof (induction u)
  case Nil
  then show ?case by (simp add: option.map_ident)
next
  case (Cons x u)
  then have "\<not> HasPrefix (x # u @ s) (c # t)" by (auto simp: HasPrefix_def)
  with Cons show ?case by (simp add: Index_Cons option.map_comp comp_def)
qed

lemma Index_absent: "c \<notin> set s \<Longrightarrow> Index s (c # t) = None"
  by (auto simp: Index_None)

subsection \<open>Parsing a printed requirement\<close>

lemma parse_set_values_plain:
  "list_all label_text vs \<Longrightarrow> distinct (acc @ vs) \<Longrightarrow> parse_set_values vs acc = Inr (acc @ vs)"
  by (induction vs arbitrary: acc) (auto simp: Let_def label_text_def TrimSpace_trimmed)

lemma parseSetSelectorValues_Join:
  assumes "list_all label_text vs" "list_all (list_all plain_char) vs" "distinct vs" "vs \<noteq> []"
  shows "parseSetSelectorValues (Join vs '','') = Inr vs"
proof -
  have "Split (Join vs '','') (CHR '','') = vs"
    by (intro Split_Join ballI) (use assms in simp, metis assms(2) list_all_iff not_plain_char(2))
  then show ?thesis
    using assms parse_set_values_plain [of vs "[]"] by (simp add: parseSetSelectorValues_def)
qed

lemma plain_Join_chars:
  "list_all (list_all plain_char) vs \<Longrightarrow> c \<in> set (Join vs '','') \<Longrightarrow> plain_char c \<or> c = CHR '',''"
  by (induction vs "'',''" rule: Join.induct) (auto simp: list_all_iff)

lemma plain_Join_lower:
  "list_all (list_all plain_char) vs \<Longrightarrow> CHR '' '' \<notin> set (map lower_char (Join vs '',''))"
proof
  assume a: "list_all (list_all plain_char) vs"
    and "CHR '' '' \<in> set (map lower_char (Join vs '',''))"
  then obtain c where c: "c \<in> set (Join vs '','')" "lower_char c = CHR '' ''" by force
  have "lower_char (CHR '','') \<noteq> CHR '' ''" by (simp add: lower_char_def)
  with plain_Join_chars [OF a c(1)] c(2) plain_char_facts(4) show False by metis
qed

lemma ascii_Join: "list_all (list_all plain_char) vs \<Longrightarrow> is_ascii (Join vs '','')"
  using plain_Join_chars [of vs] plain_char_facts(2) by (fastforce simp: is_ascii_def)

lemma parse_candidate_printed:
  assumes "label_text k" "list_all label_text vs" "list_all (list_all plain_char) vs"
    "distinct vs" "vs \<noteq> []"
  shows "parse_candidate (k @ token @ '' ('' @ Join vs '','' @ '')'') (length k) token operator =
    Inr \<lparr>lr_Key = k, lr_Operator = operator, lr_Values = vs\<rparr>"
proof -
  let ?vt = "''('' @ Join vs '','' @ '')''"
  have s: "TrimSpace ('' '' @ ?vt) = ?vt"
  proof -
    have t: "trimmed ?vt" by (rule trimmed_solid) (simp add: solid_def)
    have "strip_left space_seqs ('' '' @ ?vt) = strip_left space_seqs ?vt"
      by (subst strip_left.simps) (simp add: space_seqs_def HasPrefix_def)
    with t show ?thesis
      by (simp add: TrimSpace_def trimmed_iff)
  qed
  have "parseSetSelectorValues (Join vs '','') = Inr vs"
    by (rule parseSetSelectorValues_Join) (use assms in auto)
  then show ?thesis
    using assms(1) s
    by (simp add: parse_candidate_def slice_to_def slice_from_def Let_def label_text_def
        TrimSpace_trimmed HasPrefix_def HasSuffix_def)
qed

lemma parseSet_binary_none:
  assumes "is_ascii s" "CHR '' '' \<notin> set (map lower_char s)"
  shows "parseSetSelectorExpression ul s = None"
  using assms
  by (simp add: parseSetSelectorExpression_def set_candidates_def ToLower_ascii Index_absent)

lemma parseSet_printed_in:
  assumes "list_all plain_char k" "label_text k" "list_all label_text vs"
    "list_all (list_all plain_char) vs" "distinct vs" "vs \<noteq> []"
  shows "parseSetSelectorExpression ul (k @ '' in ('' @ Join vs '','' @ '')'') =
      Some (Inr \<lparr>lr_Key = k, lr_Operator = OpIn, lr_Values = vs\<rparr>)"
    and "parseSetSelectorExpression ul (k @ '' notin ('' @ Join vs '','' @ '')'') =
      Some (Inr \<lparr>lr_Key = k, lr_Operator = OpNotIn, lr_Values = vs\<rparr>)"
proof -
  have sp: "CHR '' '' \<notin> set (map lower_char k)" "CHR '' '' \<notin> set (map lower_char (Join vs '',''))"
    using assms by (auto intro!: plain_lower plain_Join_lower simp del: set_map)
  have as: "is_ascii k" "is_ascii (Join vs '','')"
    using assms by (auto intro: plain_ascii ascii_Join)
  have paren: "lower_char (CHR '')'') \<noteq> CHR '' ''" by (simp add: lower_char_def)
  have none: "Index (map lower_char (Join vs '','') @ [lower_char (CHR '')'')]) (CHR '' '' # t) = None" for t
    using sp(2) paren by (intro Index_absent) (simp del: set_map)
  note low = lower_char_def [of "CHR '' ''"] lower_char_def [of "CHR ''i''"]
    lower_char_def [of "CHR ''n''"] lower_char_def [of "CHR ''o''"] lower_char_def [of "CHR ''t''"]
    lower_char_def [of "CHR ''(''"]
  show "parseSetSelectorExpression ul (k @ '' in ('' @ Join vs '','' @ '')'') =
      Some (Inr \<lparr>lr_Key = k, lr_Operator = OpIn, lr_Values = vs\<rparr>)"
    using parse_candidate_printed [OF assms(2-6), of "'' in''" OpIn] sp as none
    by (simp add: parseSetSelectorExpression_def set_candidates_def ToLower_ascii low Index_skip
        Index_Cons Index_Nil HasPrefix_def del: set_map)
  show "parseSetSelectorExpression ul (k @ '' notin ('' @ Join vs '','' @ '')'') =
      Some (Inr \<lparr>lr_Key = k, lr_Operator = OpNotIn, lr_Values = vs\<rparr>)"
    using parse_candidate_printed [OF assms(2-6), of "'' notin''" OpNotIn] sp as none
    by (simp add: parseSetSelectorExpression_def set_candidates_def ToLower_ascii low Index_skip
        Index_Cons Index_Nil HasPrefix_def del: set_map)
qed

lemma parseBinary_printed:
  assumes "label_text k" "label_text v"
  shows "parseBinarySelectorExpression (k @ token @ v) (length k) (length token) operator =
    Inr \<lparr>lr_Key = k, lr_Operator = operator, lr_Values = [v]\<rparr>"
  using assms
  by (simp add: parseBinarySelectorExpression_def slice_to_def slice_from_def label_text_def
      TrimSpace_trimmed)

lemma printed_ends:
  assumes "plain_requirement r"
  shows "solid (hd (print_requirement r)) \<and> solid (last (print_requirement r))"
proof -
  have "lr_Key r \<noteq> []" "\<forall>c \<in> set (lr_Key r). solid c"
    using assms by (auto simp: plain_requirement_def requirement_ok_def label_text_def list_all_iff
        intro!: plain_char_facts(1))
  moreover have "v \<noteq> [] \<and> solid (last v)" if "lr_Values r = [v]" for v
    using assms that by (auto simp: plain_requirement_def requirement_ok_def label_text_def
        list_all_iff intro!: plain_char_facts(1))
  ultimately show ?thesis
    using assms
    by (auto simp: print_requirement_def plain_requirement_def requirement_ok_def length_Suc_conv
        solid_def [of "CHR ''!''"] solid_def [of "CHR '')''"] split: labelSelectorOperator.splits)
qed

lemma printed_trimmed:
  assumes "plain_requirement r"
  shows "trimmed (print_requirement r)" "print_requirement r \<noteq> []"
  using assms printed_ends [OF assms]
  by (auto intro: trimmed_solid)
    (auto simp: print_requirement_def plain_requirement_def requirement_ok_def label_text_def
      split: labelSelectorOperator.splits)

lemma plain_special_bytes:
  "list_all plain_char s \<Longrightarrow> CHR ''='' \<notin> set s \<and> CHR ''!'' \<notin> set s \<and> CHR '' '' \<notin> set s"
  using plain_not_special by auto

lemma lower_char_special:
  "lower_char (CHR ''='') \<noteq> CHR '' ''" "lower_char (CHR ''!'') \<noteq> CHR '' ''"
  by (simp_all add: lower_char_def)

lemmas plain_facts = plain_lower plain_ascii lower_char_special lower_char_special [symmetric]

text \<open>One lemma per form of expression; \<open>trimmed\<close> of the whole is \<open>printed_trimmed\<close>.\<close>

lemma parse_printed_exists:
  assumes "label_text k" "list_all plain_char k"
  shows "parseSelectorExpression ul k = Inr \<lparr>lr_Key = k, lr_Operator = OpExists, lr_Values = []\<rparr>"
proof -
  have "\<not> HasPrefix k ''!''"
    using plain_special_bytes [OF assms(2)] by (auto simp: HasPrefix_iff)
  moreover have "parseSetSelectorExpression ul k = None"
    using assms by (intro parseSet_binary_none plain_facts)
  ultimately show ?thesis
    using assms plain_special_bytes [OF assms(2)]
    by (simp add: parseSelectorExpression_def label_text_def TrimSpace_trimmed Index_absent)
qed

lemma parse_printed_not_exists:
  assumes "label_text k" "list_all plain_char k" "trimmed (''!'' @ k)"
  shows "parseSelectorExpression ul (''!'' @ k) =
    Inr \<lparr>lr_Key = k, lr_Operator = OpNotExists, lr_Values = []\<rparr>"
proof -
  note sp = plain_special_bytes [OF assms(2)]
  have "parseSetSelectorExpression ul (''!'' @ k) = None"
    using assms by (intro parseSet_binary_none) (simp_all add: plain_facts del: set_map)
  moreover have "Index (''!'' @ k) ''!='' = None"
    using sp by (cases k) (auto simp: Index_Cons Index_absent HasPrefix_def Index_Nil)
  ultimately show ?thesis
    using assms sp
    by (simp add: parseSelectorExpression_def label_text_def TrimSpace_trimmed Index_absent
        HasPrefix_def)
qed

lemma parse_printed_equals:
  assumes "label_text k" "list_all plain_char k" "label_text v" "list_all plain_char v"
    "trimmed (k @ ''='' @ v)"
  shows "parseSelectorExpression ul (k @ ''='' @ v) =
    Inr \<lparr>lr_Key = k, lr_Operator = OpEquals, lr_Values = [v]\<rparr>"
proof -
  note sp = plain_special_bytes [OF assms(2)] plain_special_bytes [OF assms(4)]
  have "parseSetSelectorExpression ul (k @ ''='' @ v) = None"
    using assms by (intro parseSet_binary_none) (simp_all add: plain_facts del: set_map)
  moreover have "Index (k @ ''='' @ v) ''=='' = None"
    using sp by (cases v) (auto simp: Index_skip Index_Cons Index_absent HasPrefix_def Index_Nil)
  moreover have "Index (k @ ''='' @ v) ''='' = Some (length k)"
    using sp by (simp add: Index_skip Index_Cons HasPrefix_def)
  moreover have "Index (k @ ''='' @ v) ''!='' = None"
    using sp by (intro Index_absent) simp
  ultimately show ?thesis
    using assms(5) parseBinary_printed [OF assms(1,3), of "''=''" OpEquals]
    by (simp add: parseSelectorExpression_def TrimSpace_trimmed)
qed

lemma parse_printed_not_equals:
  assumes "label_text k" "list_all plain_char k" "label_text v" "list_all plain_char v"
    "trimmed (k @ ''!='' @ v)"
  shows "parseSelectorExpression ul (k @ ''!='' @ v) =
    Inr \<lparr>lr_Key = k, lr_Operator = OpNotEquals, lr_Values = [v]\<rparr>"
proof -
  note sp = plain_special_bytes [OF assms(2)] plain_special_bytes [OF assms(4)]
  have "parseSetSelectorExpression ul (k @ ''!='' @ v) = None"
    using assms by (intro parseSet_binary_none) (simp_all add: plain_facts del: set_map)
  moreover have "Index (k @ ''!='' @ v) ''!='' = Some (length k)"
    using sp by (simp add: Index_skip Index_Cons HasPrefix_def)
  ultimately show ?thesis
    using assms(5) parseBinary_printed [OF assms(1,3), of "''!=''" OpNotEquals]
    by (simp add: parseSelectorExpression_def TrimSpace_trimmed numeral_2_eq_2)
qed

lemma parse_printed_requirement:
  assumes "plain_requirement r"
  shows "parseSelectorExpression ul (print_requirement r) = Inr r"
proof -
  let ?k = "lr_Key r" and ?vs = "lr_Values r"
  have ok: "requirement_ok r" "label_text ?k" "list_all label_text ?vs" "list_all plain_char ?k"
    "list_all (list_all plain_char) ?vs"
    using assms by (simp_all add: plain_requirement_def requirement_ok_def)
  note tr = printed_trimmed [OF assms, unfolded print_requirement_def]
  have rec: "r = \<lparr>lr_Key = ?k, lr_Operator = lr_Operator r, lr_Values = ?vs\<rparr>" by simp
  show ?thesis
  proof (cases "lr_Operator r")
    case OpExists
    then show ?thesis
      using parse_printed_exists [OF ok(2,4)] ok(1) rec
      by (simp add: print_requirement_def requirement_ok_def)
  next
    case OpNotExists
    then show ?thesis
      using parse_printed_not_exists [OF ok(2,4)] ok(1) rec tr
      by (simp add: print_requirement_def requirement_ok_def)
  next
    case OpEquals
    then obtain v where "?vs = [v]" using ok(1) by (auto simp: requirement_ok_def length_Suc_conv)
    then show ?thesis
      using OpEquals parse_printed_equals [OF ok(2,4), of v] ok rec tr
      by (simp add: print_requirement_def)
  next
    case OpNotEquals
    then obtain v where "?vs = [v]" using ok(1) by (auto simp: requirement_ok_def length_Suc_conv)
    then show ?thesis
      using OpNotEquals parse_printed_not_equals [OF ok(2,4), of v] ok rec tr
      by (simp add: print_requirement_def)
  next
    case OpIn
    then show ?thesis
      using tr rec parseSet_printed_in(1) [OF ok(4,2,3,5)] ok(1)
      by (simp add: parseSelectorExpression_def print_requirement_def requirement_ok_def
          TrimSpace_trimmed)
  next
    case OpNotIn
    then show ?thesis
      using tr rec parseSet_printed_in(2) [OF ok(4,2,3,5)] ok(1)
      by (simp add: parseSelectorExpression_def print_requirement_def requirement_ok_def
          TrimSpace_trimmed)
  qed
qed

subsection \<open>Splitting a printed selector\<close>

text \<open>
  The parenthesis depth after reading a piece of text that has no top-level comma; \<open>None\<close> if it has
  one or closes more than it opened.
\<close>

fun scan_depth :: "bytes \<Rightarrow> nat \<Rightarrow> nat option" where
  "scan_depth [] d = Some d"
| "scan_depth (c # s) d =
     (if c = CHR ''('' then scan_depth s (Suc d)
      else if c = CHR '')'' then (if d = 0 then None else scan_depth s (d - 1))
      else if c = CHR '','' \<and> d = 0 then None
      else scan_depth s d)"

lemma split_loop_scan:
  "scan_depth e d = Some d' \<Longrightarrow>
     split_loop raw (e @ rest) i st d ex = split_loop raw rest (i + length e) st d' ex"
  by (induction e arbitrary: d i) (auto split: if_splits)

lemma scan_depth_append:
  "scan_depth (e @ f) d = (case scan_depth e d of None \<Rightarrow> None | Some d' \<Rightarrow> scan_depth f d')"
  by (induction e arbitrary: d) auto

lemma scan_depth_plain: "list_all plain_char s \<Longrightarrow> scan_depth s d = Some d"
  by (induction s) auto

lemma scan_depth_Join: "list_all (list_all plain_char) vs \<Longrightarrow> scan_depth (Join vs '','') (Suc d) = Some (Suc d)"
  by (induction vs "'',''" rule: Join.induct) (auto simp: scan_depth_append scan_depth_plain)

lemma scan_depth_printed: "plain_requirement r \<Longrightarrow> scan_depth (print_requirement r) 0 = Some 0"
  by (auto simp: plain_requirement_def requirement_ok_def print_requirement_def scan_depth_append
      scan_depth_plain scan_depth_Join length_Suc_conv split: labelSelectorOperator.splits)

lemma split_loop_Join:
  assumes "es \<noteq> []" "\<forall>e \<in> set es. scan_depth e 0 = Some 0 \<and> e \<noteq> [] \<and> trimmed e"
    "raw = pre @ Join es '',''"
  shows "split_loop raw (Join es '','') (length pre) (length pre) 0 ex =
    Inr (ex @ butlast es, length raw - length (last es), 0)"
  using assms
proof (induction es arbitrary: pre ex)
  case (Cons e es)
  show ?case
  proof (cases "es = []")
    case True
    then show ?thesis
      using Cons.prems split_loop_scan [of e 0 0 raw "[]"] by simp
  next
    case False
    have raw: "raw = (pre @ e @ '','') @ Join es '',''"
      using Cons.prems False by (simp add: Join_Cons)
    have "split_loop raw (Join (e # es) '','') (length pre) (length pre) 0 ex =
        split_loop raw (CHR '','' # Join es '','') (length pre + length e) (length pre) 0 ex"
      using Cons.prems False split_loop_scan [of e 0 0] by (simp add: Join_Cons)
    also have "\<dots> = split_loop raw (Join es '','') (length (pre @ e @ '',''))
        (length (pre @ e @ '','')) 0 (ex @ [e])"
      using Cons.prems(2) raw by (simp add: TrimSpace_trimmed)
    finally show ?thesis
      using Cons.IH [OF False _ raw, of "ex @ [e]"] Cons.prems(2) False by simp
  qed
qed simp

lemma splitSelectorExpressions_Join:
  assumes "es \<noteq> []" "\<forall>e \<in> set es. scan_depth e 0 = Some 0 \<and> e \<noteq> [] \<and> trimmed e"
    "trimmed (Join es '','')"
  shows "splitSelectorExpressions (Join es '','') = Inr es"
proof -
  have l: "last es \<noteq> [] \<and> trimmed (last es)"
    using assms(1,2) by simp
  obtain pre where pre: "Join es '','' = pre @ last es"
    using assms(1) by (induction es "'',''" rule: Join.induct) auto
  then have "drop (length (Join es '','') - length (last es)) (Join es '','') = last es" by simp
  moreover have "Join es '','' \<noteq> []" using pre l by simp
  ultimately show ?thesis
    using assms split_loop_Join [OF assms(1,2), of "Join es '',''" "[]" "[]"] l
    by (simp add: splitSelectorExpressions_def TrimSpace_trimmed)
qed

lemma parse_expressions_printed:
  "list_all plain_requirement sel \<Longrightarrow>
     parse_expressions ul (map print_requirement sel) acc = Inr (acc @ sel)"
  by (induction sel arbitrary: acc) (auto simp: parse_printed_requirement)

lemma Join_printed_trimmed:
  assumes "list_all plain_requirement sel" "sel \<noteq> []"
  shows "trimmed (Join (map print_requirement sel) '','')"
proof -
  have "Join (map print_requirement sel) '','' \<noteq> [] \<and>
      hd (Join (map print_requirement sel) '','') = hd (print_requirement (hd sel)) \<and>
      last (Join (map print_requirement sel) '','') = last (print_requirement (last sel))"
    using assms
  proof (induction sel)
    case (Cons r sel)
    then show ?case
      using printed_trimmed(2) [of r] by (cases "sel = []") (auto simp: Join_Cons)
  qed simp
  then show ?thesis
    using assms printed_ends by (intro trimmed_solid) (auto simp: list_all_iff)
qed

subsection \<open>Properties\<close>

text \<open>C31. Soundness of label selectors. Whatever selector and legacy label parameters the parser
  accepts, every requirement it returns is well formed (a non-blank key, and as many non-blank
  values as its operator needs), and evaluating the result on any label map returns, without an index
  panic, whether all requirements hold.\<close>

theorem selector_sound:
  assumes "ParseLabelSelectorFilters ul selectors legacy = Inr sel"
  shows "(\<forall>r \<in> set sel. requirement_ok r) \<and>
    MatchesLabelSelector labels sel = Some (\<forall>r \<in> set sel. requirement_holds (map_of labels) r)"
  using ParseLabelSelectorFilters_requirements [OF assms] MatchesLabelSelector_ok
  by (simp add: list_all_iff)

theorem selector_sound_witness:
  "ParseLabelSelectorFilters id [''color=gray, version in (v2,v3)''] [] =
     Inr [\<lparr>lr_Key = ''color'', lr_Operator = OpEquals, lr_Values = [''gray'']\<rparr>,
          \<lparr>lr_Key = ''version'', lr_Operator = OpIn, lr_Values = [''v2'', ''v3'']\<rparr>] \<and>
   MatchesLabelSelector [(''version'', ''v3''), (''color'', ''gray'')]
     [\<lparr>lr_Key = ''color'', lr_Operator = OpEquals, lr_Values = [''gray'']\<rparr>,
      \<lparr>lr_Key = ''version'', lr_Operator = OpIn, lr_Values = [''v2'', ''v3'']\<rparr>] = Some True"
proof -
  have p: "ParseLabelSelectorFilters id [''color=gray, version in (v2,v3)''] [] =
     Inr [\<lparr>lr_Key = ''color'', lr_Operator = OpEquals, lr_Values = [''gray'']\<rparr>,
          \<lparr>lr_Key = ''version'', lr_Operator = OpIn, lr_Values = [''v2'', ''v3'']\<rparr>]"
    by code_simp
  show ?thesis
    using p selector_sound [OF p, of "[(''version'', ''v3''), (''color'', ''gray'')]"]
    by (simp add: requirement_holds_def)
qed

text \<open>Round trip of the selector syntax. A non-empty selector whose keys and values consist of
  letters, digits and \<open>-_./\<close>, printed in the documented syntax and joined by commas, parses back to
  itself.\<close>

theorem selector_print_parse:
  assumes "list_all plain_requirement sel" "sel \<noteq> []"
  shows "ParseLabelSelectorFilters ul [Join (map print_requirement sel) '',''] [] = Inr sel"
proof -
  let ?s = "Join (map print_requirement sel) '',''"
  have t: "trimmed ?s" using assms by (rule Join_printed_trimmed)
  have "splitSelectorExpressions ?s = Inr (map print_requirement sel)"
    using assms scan_depth_printed printed_trimmed
    by (intro splitSelectorExpressions_Join t) (auto simp: list_all_iff)
  moreover have "?s \<noteq> []"
    using assms printed_trimmed(2) by (cases sel; cases "tl sel") (auto simp: list_all_iff)
  ultimately show ?thesis
    using t parse_expressions_printed [OF assms(1), of ul "[]"]
    by (simp add: ParseLabelSelectorFilters_def parseLabelSelectors_def parseLegacyLabelFilters_def
        TrimSpace_trimmed)
qed

theorem selector_print_parse_witness:
  "ParseLabelSelectorFilters id [''color=gray,version notin (v2,v3),!deprecated''] [] =
     Inr [\<lparr>lr_Key = ''color'', lr_Operator = OpEquals, lr_Values = [''gray'']\<rparr>,
          \<lparr>lr_Key = ''version'', lr_Operator = OpNotIn, lr_Values = [''v2'', ''v3'']\<rparr>,
          \<lparr>lr_Key = ''deprecated'', lr_Operator = OpNotExists, lr_Values = []\<rparr>]"
proof -
  let ?sel = "[\<lparr>lr_Key = ''color'', lr_Operator = OpEquals, lr_Values = [''gray'']\<rparr>,
          \<lparr>lr_Key = ''version'', lr_Operator = OpNotIn, lr_Values = [''v2'', ''v3'']\<rparr>,
          \<lparr>lr_Key = ''deprecated'', lr_Operator = OpNotExists, lr_Values = []\<rparr>]"
  have "list_all plain_requirement ?sel" by code_simp
  from selector_print_parse [OF this, of id] show ?thesis
    by (simp add: print_requirement_def)
qed

text \<open>On ASCII selector parameters the parser never panics: it returns a selector or one of its
  error values.\<close>

theorem selector_ascii_no_panic:
  assumes "\<forall>s \<in> set selectors. is_ascii s"
  shows "ParseLabelSelectorFilters ul selectors legacy \<noteq> Inl SlicePanic"
  using parse_items_no_panic [OF assms, of ul "[]"] parse_legacy_no_panic [of legacy "[]"]
  by (auto simp: ParseLabelSelectorFilters_def parseLabelSelectors_def parseLegacyLabelFilters_def
      and_then_eq_Inl)

theorem selector_ascii_no_panic_witness:
  "ParseLabelSelectorFilters id [''version in v2''] [] \<noteq> Inl SlicePanic"
proof -
  have "\<forall>s \<in> set [''version in v2'']. is_ascii s" by code_simp
  then show ?thesis by (rule selector_ascii_no_panic)
qed

lemma lower_FF_step:
  "ul 0xFFFD = 0xFFFD \<Longrightarrow> ToLower ul (CHR 0xFF # s) = [CHR 0xEF, CHR 0xBF, CHR 0xBD] @ ToLower ul s"
  by (simp add: ToLower.simps Let_def rune_error_def lower_rune_def EncodeRune_def
      char_of_eq_iff take_bit_eq_mod)

lemma lower_FFs:
  "ul 0xFFFD = 0xFFFD \<Longrightarrow>
     ToLower ul (replicate n (CHR 0xFF) @ '' in'') =
     concat (replicate n [CHR 0xEF, CHR 0xBF, CHR 0xBD]) @ '' in''"
proof (induction n)
  case 0
  have "is_ascii '' in''" by simp
  then show ?case by (simp add: ToLower_ascii lower_char_def)
next
  case (Suc n)
  then show ?case using lower_FF_step [of ul "replicate n (CHR 0xFF) @ '' in''"] by simp
qed

text \<open>A selector parameter that starts with two or more bytes 0xFF (invalid UTF-8, reachable as
  \<open>%FF\<close> in a URL) followed by \<open>" in"\<close> makes the parser panic: \<open>strings.ToLower\<close> replaces each invalid
  byte by three, so an index found in the lower-cased copy lies beyond the end of the original. The
  hypothesis is that the Unicode case table leaves U+FFFD alone.\<close>

theorem selector_invalid_utf8_panics:
  assumes "ul 0xFFFD = 0xFFFD" "2 \<le> n"
  shows "ParseLabelSelectorFilters ul [replicate n (CHR 0xFF) @ '' in''] legacy = Inl SlicePanic"
proof -
  let ?e = "replicate n (CHR 0xFF) @ '' in''" and ?u = "concat (replicate n [CHR 0xEF, CHR 0xBF, CHR 0xBD])"
  have hd: "hd ?e = CHR 0xFF" "last ?e = CHR ''n''" "?e \<noteq> []"
    using assms(2) by (auto simp: hd_append)
  have t: "TrimSpace ?e = ?e"
  proof (intro TrimSpace_trimmed, unfold trimmed_def, intro ballI conjI notI)
    fix p assume p: "p \<in> set space_seqs"
    show False if "HasPrefix ?e p"
      using that p hd(1) by (auto simp: HasPrefix_iff space_seqs_def)
    show False if "HasSuffix ?e p"
      using that p hd(2) by (auto simp: HasSuffix_iff space_seqs_def)
  qed
  have scan: "scan_depth ?e 0 = Some 0"
  proof -
    have "scan_depth (replicate k (CHR 0xFF)) 0 = Some 0" for k
      by (induction k) auto
    then show ?thesis by (simp add: scan_depth_append)
  qed
  have split: "splitSelectorExpressions ?e = Inr [?e]"
    using splitSelectorExpressions_Join [of "[?e]"] t scan hd(3) by (simp add: trimmed_iff)
  have sp: "CHR '' '' \<notin> set ?u" by (auto simp: set_replicate_conv_if split: if_splits)
  have "Index (ToLower ul ?e) '' notin'' = None" "Index (ToLower ul ?e) '' in'' = Some (3 * n)"
    using sp
    by (simp_all add: lower_FFs [of ul n, OF assms(1)] Index_skip Index_Cons Index_Nil HasPrefix_def
        length_concat sum_list_replicate del: set_concat)
  then have "parseSetSelectorExpression ul ?e = Some (Inl SlicePanic)"
    using assms(2)
    by (simp add: parseSetSelectorExpression_def set_candidates_def parse_candidate_def slice_to_def)
  then show ?thesis
    using t split hd(3)
    by (simp add: ParseLabelSelectorFilters_def parseLabelSelectors_def parseSelectorExpression_def)
qed

theorem selector_invalid_utf8_panics_witness:
  "ParseLabelSelectorFilters id [[CHR 0xFF, CHR 0xFF] @ '' in''] [] = Inl SlicePanic"
  using selector_invalid_utf8_panics [of id 2 "[]"] by (simp add: numeral_2_eq_2)

end
