(* ===== verification/Registry_Model.thy ===== *)
theory Registry_Model
  imports Registry_Selector "HOL-Library.AList"
begin

text \<open>
  The registry's domain model (\<open>internal/registry/model.go\<close>): endpoints, register inputs, stored
  values, service identities, key layout, leases and query matching. Error returns are the values of
  \<open>registry_error\<close>; the pointer parameters of the normalisation functions are arguments and
  results.
\<close>

subsection \<open>Data\<close>

record Endpoint =
  ep_Name :: bytes
  ep_Protocol :: bytes
  ep_Host :: bytes
  ep_Port :: int
  ep_Path :: bytes
  ep_Weight :: int

record RegisterInput =
  ri_Namespace :: bytes
  ri_Service :: bytes
  ri_Organization :: bytes
  ri_BusinessDomain :: bytes
  ri_CapabilityDomain :: bytes
  ri_Application :: bytes
  ri_Role :: bytes
  ri_InstanceID :: bytes
  ri_Zone :: bytes
  ri_Labels :: "(bytes, bytes) gomap"
  ri_Metadata :: "(bytes, bytes) gomap"
  ri_Endpoints :: "Endpoint list"
  ri_LeaseTTLSeconds :: int

record Value =
  v_Namespace :: bytes
  v_Service :: bytes
  v_Organization :: bytes
  v_BusinessDomain :: bytes
  v_CapabilityDomain :: bytes
  v_Application :: bytes
  v_Role :: bytes
  v_InstanceID :: bytes
  v_Zone :: bytes
  v_Labels :: "(bytes, bytes) gomap"
  v_Metadata :: "(bytes, bytes) gomap"
  v_Endpoints :: "Endpoint list"
  v_LeaseTTLSeconds :: int
  v_RegisteredAtUnix :: int
  v_LastHeartbeatUnix :: int

record Query =
  q_Namespace :: bytes
  q_Service :: bytes
  q_Services :: "bytes list"
  q_ServicePrefixes :: "bytes list"
  q_Zone :: bytes
  q_Endpoint :: bytes
  q_Selector :: Selector
  q_Limit :: int

text \<open>The six pointers that \<open>NormalizeStructuredServiceIdentity\<close> reads and writes.\<close>

record ServiceIdentity =
  si_service :: bytes
  si_organization :: bytes
  si_businessDomain :: bytes
  si_capabilityDomain :: bytes
  si_application :: bytes
  si_role :: bytes

datatype registry_error =
    LeaseTTLNegative
  | EndpointRequired
  | EndpointProtocolRequired
  | EndpointHostRequired
  | EndpointPortRange
  | EndpointWeightNegative
  | DuplicateEndpoint bytes
  | ServiceRequired
  | DimensionsRequired
  | ServiceMismatch bytes bytes
  | NamespaceRequired
  | HierarchyGap
  | LimitSyntax bytes
  | LimitNegative
  | SelectorError selector_error

definition RootPrefix :: bytes where
  "RootPrefix = ''/registry/''"

definition DefaultLeaseTTLSeconds :: int where
  "DefaultLeaseTTLSeconds = 30"

definition DefaultEndpointWeight :: int where
  "DefaultEndpointWeight = 100"

subsection \<open>Copies\<close>

text \<open>
  \<open>CloneStringMap\<close>. The argument lists the entries in the order the \<open>range\<close> loop visits them; a key
  that trims to an earlier key overwrites it. A nil map is the empty list.
\<close>

fun clone_entries :: "(bytes, bytes) gomap \<Rightarrow> (bytes, bytes) gomap \<Rightarrow> (bytes, bytes) gomap" where
  "clone_entries [] cloned = cloned"
| "clone_entries ((key0, value) # rest) cloned =
     (let key = TrimSpace key0 in
      if key = [] then clone_entries rest cloned
      else clone_entries rest (AList.update key (TrimSpace value) cloned))"

definition CloneStringMap :: "(bytes, bytes) gomap \<Rightarrow> (bytes, bytes) gomap" where
  "CloneStringMap source = clone_entries source []"

definition clone_endpoint :: "Endpoint \<Rightarrow> Endpoint" where
  "clone_endpoint e =
     \<lparr>ep_Name = ep_Name e, ep_Protocol = ep_Protocol e, ep_Host = ep_Host e,
      ep_Port = ep_Port e, ep_Path = ep_Path e, ep_Weight = ep_Weight e\<rparr>"

definition CloneEndpoints :: "Endpoint list \<Rightarrow> Endpoint list" where
  "CloneEndpoints source = map clone_endpoint source"

definition FilterEndpoints :: "Endpoint list \<Rightarrow> bytes \<Rightarrow> Endpoint list" where
  "FilterEndpoints endpoints expected =
     (if expected = [] then CloneEndpoints endpoints
      else map clone_endpoint
        (filter (\<lambda>e. ep_Name e = expected \<or> ep_Protocol e = expected) endpoints))"

subsection \<open>Service identities\<close>

definition ComposeServiceName :: "bytes \<Rightarrow> bytes \<Rightarrow> bytes \<Rightarrow> bytes \<Rightarrow> bytes \<Rightarrow> bytes" where
  "ComposeServiceName organization businessDomain capabilityDomain application role =
     Join [TrimSpace organization, TrimSpace businessDomain, TrimSpace capabilityDomain,
           TrimSpace application, TrimSpace role] ''.''"

definition ParseServiceName :: "bytes \<Rightarrow> bytes \<times> bytes \<times> bytes \<times> bytes \<times> bytes \<times> bool" where
  "ParseServiceName service0 =
     (let service = TrimSpace service0; none = ([], [], [], [], [], False) in
      if service = [] then none
      else case Split service (CHR ''.'') of
        [a, b, c, d, e] \<Rightarrow>
          (if list_ex (\<lambda>part. TrimSpace part = []) [a, b, c, d, e] then none
           else (a, b, c, d, e, True))
      | _ \<Rightarrow> none)"

definition hasAnyServiceDimension :: "bytes list \<Rightarrow> bool" where
  "hasAnyServiceDimension values \<longleftrightarrow> list_ex (\<lambda>v. TrimSpace v \<noteq> []) values"

definition hasAllServiceDimensions :: "bytes list \<Rightarrow> bool" where
  "hasAllServiceDimensions values \<longleftrightarrow> list_all (\<lambda>v. TrimSpace v \<noteq> []) values \<and> values \<noteq> []"

fun gap_loop :: "bytes list \<Rightarrow> bool \<Rightarrow> bool" where
  "gap_loop [] seenEmpty = False"
| "gap_loop (v # vs) seenEmpty =
     (if TrimSpace v = [] then gap_loop vs True
      else if seenEmpty then True else gap_loop vs seenEmpty)"

definition hasGapInServiceDimensions :: "bytes list \<Rightarrow> bool" where
  "hasGapInServiceDimensions values = gap_loop values False"

definition serviceHierarchyDimensions ::
  "bytes \<Rightarrow> bytes \<Rightarrow> bytes \<Rightarrow> bytes \<Rightarrow> bytes \<Rightarrow> bytes list" where
  "serviceHierarchyDimensions organization businessDomain capabilityDomain application role =
     takeWhile (\<lambda>v. v \<noteq> [])
       [TrimSpace organization, TrimSpace businessDomain, TrimSpace capabilityDomain,
        TrimSpace application, TrimSpace role]"

definition si_dims :: "ServiceIdentity \<Rightarrow> bytes list" where
  "si_dims i = [si_organization i, si_businessDomain i, si_capabilityDomain i, si_application i, si_role i]"

definition si_canonical :: "ServiceIdentity \<Rightarrow> bytes" where
  "si_canonical i =
     ComposeServiceName (si_organization i) (si_businessDomain i) (si_capabilityDomain i)
       (si_application i) (si_role i)"

definition or_else :: "bytes \<Rightarrow> bytes \<Rightarrow> bytes" where
  "or_else x y = (if x = [] then y else x)"

text \<open>The block that fills the empty dimensions from the parsed service name.\<close>

definition fill_identity :: "ServiceIdentity \<Rightarrow> ServiceIdentity" where
  "fill_identity i =
     (case ParseServiceName (si_service i) of
        (a, b, c, d, e, _) \<Rightarrow>
          i\<lparr>si_organization := or_else (si_organization i) a,
            si_businessDomain := or_else (si_businessDomain i) b,
            si_capabilityDomain := or_else (si_capabilityDomain i) c,
            si_application := or_else (si_application i) d,
            si_role := or_else (si_role i) e\<rparr>)"

definition trim_identity :: "ServiceIdentity \<Rightarrow> ServiceIdentity" where
  "trim_identity i =
     \<lparr>si_service = TrimSpace (si_service i),
      si_organization = TrimSpace (si_organization i),
      si_businessDomain = TrimSpace (si_businessDomain i),
      si_capabilityDomain = TrimSpace (si_capabilityDomain i),
      si_application = TrimSpace (si_application i),
      si_role = TrimSpace (si_role i)\<rparr>"

definition NormalizeStructuredServiceIdentity ::
  "ServiceIdentity \<Rightarrow> registry_error + ServiceIdentity" where
  "NormalizeStructuredServiceIdentity i0 =
     (let t = trim_identity i0;
          i = (if si_service t \<noteq> [] then fill_identity t else t) in
      if si_service i \<noteq> [] \<and> \<not> hasAnyServiceDimension (si_dims i) then Inr i
      else if \<not> hasAnyServiceDimension (si_dims i) then
        (if si_service i = [] then Inl ServiceRequired else Inr i)
      else if \<not> hasAllServiceDimensions (si_dims i) then Inl DimensionsRequired
      else if si_service i = [] then Inr (i\<lparr>si_service := si_canonical i\<rparr>)
      else if si_service i \<noteq> si_canonical i then
        Inl (ServiceMismatch (si_service i) (si_canonical i))
      else Inr i)"

subsection \<open>Register inputs and values\<close>

definition EffectiveLeaseTTLSeconds :: "int \<Rightarrow> int" where
  "EffectiveLeaseTTLSeconds ttl = (if ttl > 0 then ttl else DefaultLeaseTTLSeconds)"

text \<open>The body of the endpoint loop, on the names seen so far and the endpoints kept so far.\<close>

definition normalize_endpoint ::
  "Endpoint \<Rightarrow> bytes set \<times> Endpoint list \<Rightarrow> registry_error + (bytes set \<times> Endpoint list)" where
  "normalize_endpoint e0 = (\<lambda>(seen, normalized).
     let e = e0\<lparr>ep_Name := TrimSpace (ep_Name e0), ep_Protocol := TrimSpace (ep_Protocol e0),
               ep_Host := TrimSpace (ep_Host e0), ep_Path := TrimSpace (ep_Path e0)\<rparr> in
     if ep_Protocol e = [] then Inl EndpointProtocolRequired
     else
       let e = (if ep_Name e = [] then e\<lparr>ep_Name := ep_Protocol e\<rparr> else e) in
       if ep_Host e = [] then Inl EndpointHostRequired
       else if ep_Port e \<le> 0 \<or> ep_Port e > 65535 then Inl EndpointPortRange
       else if ep_Weight e < 0 then Inl EndpointWeightNegative
       else
         let e = (if ep_Weight e = 0 then e\<lparr>ep_Weight := DefaultEndpointWeight\<rparr> else e) in
         if ep_Name e \<in> seen then Inl (DuplicateEndpoint (ep_Name e))
         else Inr (insert (ep_Name e) seen, normalized @ [e]))"

definition ri_identity :: "RegisterInput \<Rightarrow> ServiceIdentity" where
  "ri_identity r =
     \<lparr>si_service = ri_Service r, si_organization = ri_Organization r,
      si_businessDomain = ri_BusinessDomain r, si_capabilityDomain = ri_CapabilityDomain r,
      si_application = ri_Application r, si_role = ri_Role r\<rparr>"

definition NormalizeRegisterInput :: "RegisterInput \<Rightarrow> registry_error + RegisterInput" where
  "NormalizeRegisterInput r =
     and_then (NormalizeStructuredServiceIdentity (ri_identity r)) (\<lambda>i.
       if ri_LeaseTTLSeconds r < 0 then Inl LeaseTTLNegative
       else if ri_Endpoints r = [] then Inl EndpointRequired
       else and_then (fold_result normalize_endpoint (ri_Endpoints r) ({}, [])) (\<lambda>(seen, normalized).
         Inr \<lparr>ri_Namespace = TrimSpace (ri_Namespace r),
              ri_Service = si_service i,
              ri_Organization = si_organization i,
              ri_BusinessDomain = si_businessDomain i,
              ri_CapabilityDomain = si_capabilityDomain i,
              ri_Application = si_application i,
              ri_Role = si_role i,
              ri_InstanceID = TrimSpace (ri_InstanceID r),
              ri_Zone = TrimSpace (ri_Zone r),
              ri_Labels = CloneStringMap (ri_Labels r),
              ri_Metadata = CloneStringMap (ri_Metadata r),
              ri_Endpoints = normalized,
              ri_LeaseTTLSeconds = EffectiveLeaseTTLSeconds (ri_LeaseTTLSeconds r)\<rparr>))"

definition NewValue :: "RegisterInput \<Rightarrow> int \<Rightarrow> Value" where
  "NewValue r now =
     \<lparr>v_Namespace = ri_Namespace r,
      v_Service = ri_Service r,
      v_Organization = ri_Organization r,
      v_BusinessDomain = ri_BusinessDomain r,
      v_CapabilityDomain = ri_CapabilityDomain r,
      v_Application = ri_Application r,
      v_Role = ri_Role r,
      v_InstanceID = ri_InstanceID r,
      v_Zone = ri_Zone r,
      v_Labels = CloneStringMap (ri_Labels r),
      v_Metadata = CloneStringMap (ri_Metadata r),
      v_Endpoints = CloneEndpoints (ri_Endpoints r),
      v_LeaseTTLSeconds = EffectiveLeaseTTLSeconds (ri_LeaseTTLSeconds r),
      v_RegisteredAtUnix = now,
      v_LastHeartbeatUnix = now\<rparr>"

text \<open>
  \<open>IsAlive\<close>. The sum of the last heartbeat and the lease is an \<open>int64\<close> addition, which wraps.
\<close>

definition IsAlive :: "Value \<Rightarrow> int \<Rightarrow> bool" where
  "IsAlive v now =
     (if now \<le> 0 then True
      else
        let lastHeartbeat =
              (if v_LastHeartbeatUnix v \<le> 0 then v_RegisteredAtUnix v else v_LastHeartbeatUnix v) in
        if lastHeartbeat \<le> 0 then True
        else now \<le> wrap_i64 (lastHeartbeat + EffectiveLeaseTTLSeconds (v_LeaseTTLSeconds v)))"

subsection \<open>Keys\<close>

definition ServicePrefix :: "bytes \<Rightarrow> bytes \<Rightarrow> bytes" where
  "ServicePrefix namespace service = RootPrefix @ namespace @ ''/'' @ service @ ''/''"

definition NamespacePrefix :: "bytes \<Rightarrow> bytes" where
  "NamespacePrefix namespace = RootPrefix @ TrimSpace namespace @ ''/''"

definition Key :: "bytes \<Rightarrow> bytes \<Rightarrow> bytes \<Rightarrow> bytes" where
  "Key namespace service instanceID = RootPrefix @ namespace @ ''/'' @ service @ ''/'' @ instanceID"

text \<open>\<open>None\<close> is the return value \<open>ok = false\<close>, whose strings are all empty.\<close>

definition ParseKey :: "bytes \<Rightarrow> (bytes \<times> bytes \<times> bytes) option" where
  "ParseKey raw =
     (if \<not> HasPrefix raw RootPrefix then None
      else case Split (TrimPrefix raw RootPrefix) (CHR ''/'') of
        [a, b, c] \<Rightarrow>
          (if TrimSpace a = [] \<or> TrimSpace b = [] \<or> TrimSpace c = [] then None else Some (a, b, c))
      | _ \<Rightarrow> None)"

subsection \<open>Matching\<close>

definition MatchServiceQuery :: "bytes \<Rightarrow> Query \<Rightarrow> bool" where
  "MatchServiceQuery service0 query =
     (let service = TrimSpace service0 in
      if q_Service query \<noteq> [] \<and> service \<noteq> q_Service query then False
      else if q_Services query \<noteq> [] \<and>
              \<not> list_ex (\<lambda>expected. service = expected) (q_Services query) then False
      else if q_ServicePrefixes query \<noteq> [] \<and>
              \<not> list_ex (\<lambda>prefix. service = prefix \<or> HasPrefix service (prefix @ ''.'') \<or>
                                  HasPrefix service prefix) (q_ServicePrefixes query) then False
      else True)"

text \<open>\<open>None\<close> is the index panic of the selector evaluation.\<close>

definition MatchQuery :: "Value \<Rightarrow> Query \<Rightarrow> bool option" where
  "MatchQuery v query =
     (if q_Namespace query \<noteq> [] \<and> v_Namespace v \<noteq> q_Namespace query then Some False
      else if \<not> MatchServiceQuery (v_Service v) query then Some False
      else if q_Zone query \<noteq> [] \<and> v_Zone v \<noteq> q_Zone query then Some False
      else case MatchesLabelSelector (v_Labels v) (q_Selector query) of
        None \<Rightarrow> None
      | Some False \<Rightarrow> Some False
      | Some True \<Rightarrow>
          if q_Endpoint query \<noteq> [] \<and> FilterEndpoints (v_Endpoints v) (q_Endpoint query) = []
          then Some False else Some True)"

subsection \<open>Request identities\<close>

definition NormalizeInstanceIdentity :: "bytes \<Rightarrow> bytes \<Rightarrow> bytes \<Rightarrow> bytes \<times> bytes \<times> bytes" where
  "NormalizeInstanceIdentity namespace service instanceID =
     (TrimSpace namespace, TrimSpace service, TrimSpace instanceID)"

definition NormalizeRegisterRequest :: "RegisterInput \<Rightarrow> registry_error + RegisterInput" where
  "NormalizeRegisterRequest request = NormalizeRegisterInput request"

record DeregisterRequest =
  dr_Namespace :: bytes
  dr_Service :: bytes
  dr_Organization :: bytes
  dr_BusinessDomain :: bytes
  dr_CapabilityDomain :: bytes
  dr_Application :: bytes
  dr_Role :: bytes
  dr_InstanceID :: bytes

record HeartbeatRequest =
  hr_Namespace :: bytes
  hr_Service :: bytes
  hr_Organization :: bytes
  hr_BusinessDomain :: bytes
  hr_CapabilityDomain :: bytes
  hr_Application :: bytes
  hr_Role :: bytes
  hr_InstanceID :: bytes
  hr_LeaseTTLSeconds :: int

subsection \<open>Query parameters\<close>

text \<open>
  \<open>url.Values\<close>: a map from a parameter name to its values in order of appearance. \<open>url_get\<close> is
  \<open>values.Get(key)\<close>, \<open>url_all\<close> is \<open>values[key]\<close>.
\<close>

type_synonym url_values = "(bytes, bytes list) gomap"

definition url_all :: "url_values \<Rightarrow> bytes \<Rightarrow> bytes list" where
  "url_all values key = (case map_of values key of None \<Rightarrow> [] | Some vs \<Rightarrow> vs)"

definition url_get :: "url_values \<Rightarrow> bytes \<Rightarrow> bytes" where
  "url_get values key = (case url_all values key of [] \<Rightarrow> [] | v # _ \<Rightarrow> v)"

definition parseLimit :: "bytes \<Rightarrow> registry_error + int" where
  "parseLimit raw =
     (if TrimSpace raw = [] then Inr 0
      else case Atoi raw of
        None \<Rightarrow> Inl (LimitSyntax raw)
      | Some limit \<Rightarrow> if limit < 0 then Inl LimitNegative else Inr limit)"

text \<open>The loop of \<open>normalizeStringSlice\<close>; the result so far is also the set of values seen.\<close>

fun normalize_values :: "bytes list \<Rightarrow> bytes list \<Rightarrow> bytes list" where
  "normalize_values [] result = result"
| "normalize_values (v0 # vs) result =
     (let v = TrimSpace v0 in
      if v = [] \<or> v \<in> set result then normalize_values vs result
      else normalize_values vs (result @ [v]))"

definition normalizeStringSlice :: "bytes list \<Rightarrow> bytes list" where
  "normalizeStringSlice values = normalize_values values []"

definition appendUniqueString :: "bytes list \<Rightarrow> bytes \<Rightarrow> bytes list" where
  "appendUniqueString values value0 =
     (let value = TrimSpace value0 in
      if value = [] \<or> value \<in> set values then values else values @ [value])"

definition query_identity :: "url_values \<Rightarrow> Query \<Rightarrow> ServiceIdentity" where
  "query_identity values query =
     (let i = \<lparr>si_service = q_Service query,
               si_organization = TrimSpace (url_get values ''organization''),
               si_businessDomain = TrimSpace (url_get values ''businessDomain''),
               si_capabilityDomain = TrimSpace (url_get values ''capabilityDomain''),
               si_application = TrimSpace (url_get values ''application''),
               si_role = TrimSpace (url_get values ''role'')\<rparr>
      in if si_service i \<noteq> [] then fill_identity i else i)"

definition normalizeQueryServiceIdentity :: "url_values \<Rightarrow> Query \<Rightarrow> registry_error + Query" where
  "normalizeQueryServiceIdentity values query =
     (let i = query_identity values query in
      if \<not> hasAnyServiceDimension (si_dims i) then Inr query
      else if hasGapInServiceDimensions (si_dims i) then Inl HierarchyGap
      else if hasAllServiceDimensions (si_dims i) then
        (if si_service i \<noteq> [] \<and> si_service i \<noteq> si_canonical i
         then Inl (ServiceMismatch (si_service i) (si_canonical i))
         else Inr (query\<lparr>q_Service := si_canonical i,
                         q_Services := appendUniqueString (q_Services query) (si_canonical i)\<rparr>))
      else
        let prefix = Join (serviceHierarchyDimensions (si_organization i) (si_businessDomain i)
                             (si_capabilityDomain i) (si_application i) (si_role i)) ''.'' in
        if prefix \<noteq> [] then
          Inr (query\<lparr>q_ServicePrefixes := appendUniqueString (q_ServicePrefixes query) prefix\<rparr>)
        else Inr query)"

definition base_query :: "url_values \<Rightarrow> Query" where
  "base_query values =
     (let services = normalizeStringSlice (url_all values ''service'') in
      \<lparr>q_Namespace = TrimSpace (url_get values ''namespace''),
       q_Service = (case services of [s] \<Rightarrow> s | _ \<Rightarrow> TrimSpace (url_get values ''service'')),
       q_Services = services,
       q_ServicePrefixes = normalizeStringSlice (url_all values ''servicePrefix''),
       q_Zone = TrimSpace (url_get values ''zone''),
       q_Endpoint = TrimSpace (url_get values ''endpoint''),
       q_Selector = [], q_Limit = 0\<rparr>)"

definition ParseQuery :: "(nat \<Rightarrow> nat) \<Rightarrow> url_values \<Rightarrow> registry_error + Query" where
  "ParseQuery ul values =
     (if TrimSpace (url_get values ''namespace'') = [] then Inl NamespaceRequired
      else and_then (normalizeQueryServiceIdentity values (base_query values)) (\<lambda>query.
           and_then (parseLimit (url_get values ''limit'')) (\<lambda>limit.
           case ParseLabelSelectorFilters ul (url_all values ''selector'') (url_all values ''label'') of
             Inl e \<Rightarrow> Inl (SelectorError e)
           | Inr selector \<Rightarrow> Inr (query\<lparr>q_Limit := limit, q_Selector := selector\<rparr>))))"

end
