(* ===== verification/Registry_Correct.thy ===== *)
theory Registry_Correct
  imports Registry_Model Selector_Correct
begin

text \<open>
  Correctness of the registry's domain model: the normal form of register inputs, the layout of keys,
  the lease rule and the meaning of a query.
\<close>

subsection \<open>Label maps\<close>

definition clean_map :: "(bytes, bytes) gomap \<Rightarrow> bool" where
  "clean_map m \<longleftrightarrow> distinct (map fst m) \<and>
     list_all (\<lambda>(k, v). k \<noteq> [] \<and> trimmed k \<and> trimmed v) m"

lemma set_AList_update: "set (AList.update k v m) \<subseteq> insert (k, v) (set m)"
  by (induction m) auto

lemma clone_entries_clean: "clean_map acc \<Longrightarrow> clean_map (clone_entries es acc)"
proof (induction es acc rule: clone_entries.induct)
  case (2 k v rest acc)
  have "clean_map (AList.update (TrimSpace k) (TrimSpace v) acc)" if "TrimSpace k \<noteq> []"
  proof -
    have "distinct (map fst (AList.update (TrimSpace k) (TrimSpace v) acc))"
      using 2(3) by (intro distinct_update) (simp add: clean_map_def)
    moreover have "list_all (\<lambda>(k, v). k \<noteq> [] \<and> trimmed k \<and> trimmed v)
        (AList.update (TrimSpace k) (TrimSpace v) acc)"
      using 2(3) that set_AList_update [of "TrimSpace k" "TrimSpace v" acc]
      unfolding clean_map_def list_all_iff by fastforce
    ultimately show ?thesis by (simp add: clean_map_def)
  qed
  with 2 show ?case by (simp add: Let_def)
qed simp

lemma AList_update_fresh: "k \<notin> fst ` set m \<Longrightarrow> AList.update k v m = m @ [(k, v)]"
  by (induction m) auto

lemma clone_entries_id:
  "clean_map (acc @ es) \<Longrightarrow> clone_entries es acc = acc @ es"
proof (induction es acc rule: clone_entries.induct)
  case (2 k v rest acc)
  from 2(3) have "k \<notin> fst ` set acc" "k \<noteq> []" "TrimSpace k = k" "TrimSpace v = v"
    by (auto simp: clean_map_def trimmed_iff)
  with 2 show ?case by (simp add: AList_update_fresh Let_def)
qed simp

lemma CloneStringMap_clean [simp]: "clean_map (CloneStringMap m)"
  unfolding CloneStringMap_def by (rule clone_entries_clean) (simp add: clean_map_def)

lemma CloneStringMap_id: "clean_map m \<Longrightarrow> CloneStringMap m = m"
  by (simp add: CloneStringMap_def clone_entries_id)

lemma CloneStringMap_idem [simp]: "CloneStringMap (CloneStringMap m) = CloneStringMap m"
  by (rule CloneStringMap_id) simp

text \<open>The lookup of a clone, for any order of the entries.\<close>

lemma map_of_clone_entries:
  "map_of (clone_entries es acc) k =
     (case find (\<lambda>(k', v). TrimSpace k' = k \<and> k \<noteq> []) (rev es) of
        Some (k', v) \<Rightarrow> Some (TrimSpace v) | None \<Rightarrow> map_of acc k)"
proof (induction es acc rule: clone_entries.induct)
  case (2 k' v rest acc)
  have f: "find P (xs @ [y]) = (case find P xs of None \<Rightarrow> if P y then Some y else None | Some z \<Rightarrow> Some z)"
    for P and xs :: "(bytes \<times> bytes) list" and y
    by (induction xs) auto
  from 2 show ?case
    by (auto simp: f update_conv Let_def split: option.splits)
qed simp

subsection \<open>Endpoints\<close>

definition endpoint_ok :: "Endpoint \<Rightarrow> bool" where
  "endpoint_ok e \<longleftrightarrow> ep_Protocol e \<noteq> [] \<and> ep_Name e \<noteq> [] \<and> ep_Host e \<noteq> [] \<and>
     trimmed (ep_Name e) \<and> trimmed (ep_Protocol e) \<and> trimmed (ep_Host e) \<and> trimmed (ep_Path e) \<and>
     1 \<le> ep_Port e \<and> ep_Port e \<le> 65535 \<and> 1 \<le> ep_Weight e"

definition endpoints_ok :: "Endpoint list \<Rightarrow> bool" where
  "endpoints_ok es \<longleftrightarrow> list_all endpoint_ok es \<and> distinct (map ep_Name es)"

lemma normalize_endpoint_ok:
  "normalize_endpoint e (seen, es) = Inr (seen', es') \<Longrightarrow> endpoints_ok es \<Longrightarrow> seen = set (map ep_Name es) \<Longrightarrow>
     endpoints_ok es' \<and> seen' = set (map ep_Name es') \<and> length es' = Suc (length es)"
  by (auto simp: normalize_endpoint_def Let_def endpoints_ok_def endpoint_ok_def
      DefaultEndpointWeight_def split: if_splits)

lemma normalize_endpoints_ok:
  assumes "fold_result normalize_endpoint xs (seen, es) = Inr (seen', es')"
    "endpoints_ok es" "seen = set (map ep_Name es)"
  shows "endpoints_ok es' \<and> length es' = length es + length xs"
  using assms
proof (induction xs arbitrary: seen es)
  case (Cons x xs)
  then obtain seen1 es1 where 1: "normalize_endpoint x (seen, es) = Inr (seen1, es1)"
    and "fold_result normalize_endpoint xs (seen1, es1) = Inr (seen', es')"
    by auto
  with Cons.IH normalize_endpoint_ok [OF 1 Cons.prems(2,3)] show ?case by simp
qed simp

lemma normalize_endpoint_id:
  "endpoint_ok e \<Longrightarrow> ep_Name e \<notin> seen \<Longrightarrow>
     normalize_endpoint e (seen, es) = Inr (insert (ep_Name e) seen, es @ [e])"
  by (auto simp: normalize_endpoint_def endpoint_ok_def trimmed_iff Let_def)

lemma normalize_endpoints_id:
  "endpoints_ok (es @ xs) \<Longrightarrow> seen = set (map ep_Name es) \<Longrightarrow>
     fold_result normalize_endpoint xs (seen, es) = Inr (seen \<union> set (map ep_Name xs), es @ xs)"
proof (induction xs arbitrary: seen es)
  case (Cons x xs)
  have "normalize_endpoint x (seen, es) = Inr (insert (ep_Name x) seen, es @ [x])"
    using Cons.prems by (intro normalize_endpoint_id) (auto simp: endpoints_ok_def)
  moreover have "fold_result normalize_endpoint xs (insert (ep_Name x) seen, es @ [x]) =
      Inr (insert (ep_Name x) seen \<union> set (map ep_Name xs), (es @ [x]) @ xs)"
    using Cons.prems by (intro Cons.IH) auto
  ultimately show ?case by simp
qed simp

subsection \<open>Keys\<close>

lemma ParseKey_iff:
  "ParseKey k = Some (n, s, i) \<longleftrightarrow>
     k = Key n s i \<and> CHR ''/'' \<notin> set n \<and> CHR ''/'' \<notin> set s \<and> CHR ''/'' \<notin> set i \<and>
     TrimSpace n \<noteq> [] \<and> TrimSpace s \<noteq> [] \<and> TrimSpace i \<noteq> []" (is "?l \<longleftrightarrow> ?r")
proof
  assume ?l
  then obtain t where k: "k = RootPrefix @ t"
    and sp: "Split t (CHR ''/'') = [n, s, i]"
    and ne: "TrimSpace n \<noteq> []" "TrimSpace s \<noteq> []" "TrimSpace i \<noteq> []"
    by (auto simp: ParseKey_def HasPrefix_iff split: if_splits list.splits)
  have "t = Join [n, s, i] ''/''" using Join_Split [of t "CHR ''/''"] sp by simp
  moreover have "CHR ''/'' \<notin> set p" if "p \<in> {n, s, i}" for p
    using Split_parts_no_sep [of p t "CHR ''/''"] that sp by auto
  ultimately show ?r using k ne by (simp add: Key_def)
next
  assume r: ?r
  then have "Split (n @ CHR ''/'' # s @ CHR ''/'' # i) (CHR ''/'') = [n, s, i]"
    by (simp add: Split_append_sep Split_no_sep)
  with r show ?l by (simp add: ParseKey_def Key_def)
qed

subsection \<open>Service identities\<close>

lemma dot_not_blank: "p \<in> set space_seqs \<Longrightarrow> CHR ''.'' \<notin> set p"
  by (auto simp: space_seqs_def)

lemma trimmed_dot:
  assumes "trimmed x" "trimmed y" "x \<noteq> []" "y \<noteq> []"
  shows "trimmed (x @ CHR ''.'' # y)"
  unfolding trimmed_def
proof (intro ballI conjI notI)
  fix p assume p: "p \<in> set space_seqs"
  note d = dot_not_blank [OF p]
  have x: "\<not> HasPrefix x p" and y: "\<not> HasSuffix y p"
    using assms p by (auto simp: trimmed_def)
  show False if "HasPrefix (x @ CHR ''.'' # y) p"
    using that x d by (auto simp: HasPrefix_iff append_eq_append_conv2 Cons_eq_append_conv)
  show False if "HasSuffix (x @ CHR ''.'' # y) p"
    using that y d by (auto simp: HasSuffix_iff append_eq_append_conv2 append_eq_Cons_conv Cons_eq_append_conv)
qed

lemma length_Split: "length (Split s c) = Suc (count_list s c)"
  by (induction s) (auto split: list.splits)

definition identity_ok :: "ServiceIdentity \<Rightarrow> bool" where
  "identity_ok i \<longleftrightarrow> si_service i \<noteq> [] \<and> trimmed (si_service i) \<and>
     (list_all (\<lambda>d. d = []) (si_dims i) \<and> \<not> snd (snd (snd (snd (snd (ParseServiceName (si_service i)))))) \<or>
      list_all (\<lambda>d. d \<noteq> [] \<and> trimmed d) (si_dims i) \<and> si_service i = si_canonical i)"

lemma trim_identity_trimmed [simp]:
  "trimmed (si_service (trim_identity i))" "list_all trimmed (si_dims (trim_identity i))"
  by (simp_all add: trim_identity_def si_dims_def)

lemma ParseServiceName_cases:
  obtains (fail) "ParseServiceName s = ([], [], [], [], [], False)"
  | (ok) a b c d e where "ParseServiceName s = (a, b, c, d, e, True)"
      "Split (TrimSpace s) (CHR ''.'') = [a, b, c, d, e]"
      "list_all (\<lambda>p. TrimSpace p \<noteq> []) [a, b, c, d, e]"
proof (cases "ParseServiceName s = ([], [], [], [], [], False)")
  case True
  then show ?thesis by (rule fail)
next
  case False
  then obtain a b c d e where sp: "Split (TrimSpace s) (CHR ''.'') = [a, b, c, d, e]"
    and "ParseServiceName s = (if list_ex (\<lambda>part. TrimSpace part = []) [a, b, c, d, e]
       then ([], [], [], [], [], False) else (a, b, c, d, e, True))"
    unfolding ParseServiceName_def Let_def by (simp split: if_splits list.splits)
  with False show ?thesis by (intro ok [OF _ sp]) (auto split: if_splits)
qed

lemma canonical_eq_dims:
  assumes "si_service i = si_canonical i" "trimmed (si_service i)"
    "Split (si_service i) (CHR ''.'') = [a, b, c, d, e]"
  shows "map TrimSpace (si_dims i) = [a, b, c, d, e]"
proof -
  have j: "si_service i = Join (map TrimSpace (si_dims i)) ''.''"
    using assms(1) by (simp add: si_canonical_def ComposeServiceName_def si_dims_def)
  have "count_list (si_service i) (CHR ''.'') = 4"
    using length_Split [of "si_service i" "CHR ''.''"] assms(3) by simp
  then have "\<forall>x \<in> set (map TrimSpace (si_dims i)). CHR ''.'' \<notin> set x"
    unfolding j by (simp add: si_dims_def count_list_0_iff)
  then have "Split (Join (map TrimSpace (si_dims i)) ''.'') (CHR ''.'') = map TrimSpace (si_dims i)"
    by (intro Split_Join) (auto simp: si_dims_def)
  with j assms(3) show ?thesis by simp
qed

lemma filled_dims_trimmed:
  assumes "i = fill_identity t" "list_all trimmed (si_dims t)" "trimmed (si_service t)"
    "si_service i = si_canonical i"
  shows "list_all trimmed (si_dims i)"
proof (cases rule: ParseServiceName_cases [of "si_service t"])
  case fail
  then show ?thesis using assms(1,2) by (simp add: fill_identity_def si_dims_def or_else_def)
next
  case (ok a b c d e)
  have s: "si_service i = si_service t"
    using assms(1) ok(1) by (simp add: fill_identity_def)
  have m: "map TrimSpace (si_dims i) = [a, b, c, d, e]"
    using ok(2) assms(3) s by (intro canonical_eq_dims assms(4)) (simp_all add: trimmed_iff)
  have "si_dims i = map2 or_else (si_dims t) [a, b, c, d, e]"
    using assms(1) ok(1) by (simp add: fill_identity_def si_dims_def)
  with m assms(2) show ?thesis
    by (auto simp: si_dims_def or_else_def trimmed_iff split: if_splits)
qed

lemma canonical_trimmed:
  assumes "list_all (\<lambda>d. d \<noteq> [] \<and> trimmed d) (si_dims i)"
  shows "trimmed (si_canonical i) \<and> si_canonical i \<noteq> []"
  using assms
  by (auto simp: si_canonical_def ComposeServiceName_def si_dims_def TrimSpace_trimmed intro!: trimmed_dot)

lemma NormalizeStructuredServiceIdentity_ok:
  assumes "NormalizeStructuredServiceIdentity i0 = Inr i"
  shows "identity_ok i"
proof -
  let ?t = "trim_identity i0"
  define f where "f = (if si_service ?t \<noteq> [] then fill_identity ?t else ?t)"
  have tr: "list_all trimmed (si_dims ?t)" "trimmed (si_service ?t)" by simp_all
  have fs: "si_service f = si_service ?t"
    by (simp add: f_def fill_identity_def split: prod.splits)
  show ?thesis
  proof (cases "hasAnyServiceDimension (si_dims f)")
    case False
    then have s: "si_service f \<noteq> []" and i: "i = f"
      using assms by (auto simp: NormalizeStructuredServiceIdentity_def Let_def f_def split: if_splits)
    have ff: "f = fill_identity ?t" using s fs by (simp add: f_def)
    have "list_all (\<lambda>d. d = []) (si_dims f) \<and> \<not> snd (snd (snd (snd (snd (ParseServiceName (si_service ?t))))))"
    proof (cases rule: ParseServiceName_cases [of "si_service ?t"])
      case fail
      then show ?thesis using False tr ff
        by (auto simp: fill_identity_def si_dims_def or_else_def hasAnyServiceDimension_def trimmed_iff)
    next
      case (ok a b c d e)
      then show ?thesis using False ff tr
        by (auto simp: fill_identity_def si_dims_def or_else_def hasAnyServiceDimension_def trimmed_iff
            split: if_splits)
    qed
    with s i tr fs show ?thesis by (simp add: identity_ok_def)
  next
    case True
    then have all: "hasAllServiceDimensions (si_dims f)"
      using assms by (auto simp: NormalizeStructuredServiceIdentity_def Let_def f_def split: if_splits)
    show ?thesis
    proof (cases "si_service f = []")
      case s: True
      then have i: "i = f\<lparr>si_service := si_canonical f\<rparr>" and ft: "f = ?t"
        using True all assms fs
        by (auto simp: NormalizeStructuredServiceIdentity_def Let_def f_def split: if_splits)
      have "list_all (\<lambda>d. d \<noteq> [] \<and> trimmed d) (si_dims f)"
        using all tr ft by (auto simp: hasAllServiceDimensions_def list_all_iff trimmed_iff)
      with i canonical_trimmed [OF this] show ?thesis
        by (simp add: identity_ok_def si_dims_def si_canonical_def)
    next
      case s: False
      then have i: "i = f" and c: "si_service f = si_canonical f"
        using True all assms
        by (auto simp: NormalizeStructuredServiceIdentity_def Let_def f_def split: if_splits)
      have "f = fill_identity ?t" using s fs by (simp add: f_def)
      from filled_dims_trimmed [OF this tr c]
      have "list_all (\<lambda>d. d \<noteq> [] \<and> trimmed d) (si_dims f)"
        using all by (auto simp: hasAllServiceDimensions_def list_all_iff)
      with i c s tr fs show ?thesis by (simp add: identity_ok_def)
    qed
  qed
qed

lemma NormalizeStructuredServiceIdentity_id:
  assumes "identity_ok i"
  shows "NormalizeStructuredServiceIdentity i = Inr i"
proof -
  have t: "trim_identity i = i"
    using assms by (auto simp: identity_ok_def trim_identity_def si_dims_def trimmed_iff)
  have f: "fill_identity i = i"
  proof (cases "list_all (\<lambda>d. d \<noteq> []) (si_dims i)")
    case True
    then show ?thesis by (auto simp: fill_identity_def si_dims_def or_else_def split: prod.splits)
  next
    case False
    then have "list_all (\<lambda>d. d = []) (si_dims i)"
      "\<not> snd (snd (snd (snd (snd (ParseServiceName (si_service i))))))"
      using assms by (auto simp: identity_ok_def list_all_iff)
    then show ?thesis
      by (cases rule: ParseServiceName_cases [of "si_service i"])
        (auto simp: fill_identity_def si_dims_def or_else_def)
  qed
  show ?thesis
  proof (cases "list_all (\<lambda>d. d = []) (si_dims i)")
    case True
    then have "\<not> hasAnyServiceDimension (si_dims i)"
      by (auto simp: hasAnyServiceDimension_def list_all_iff list_ex_iff)
    with assms show ?thesis
      by (simp add: NormalizeStructuredServiceIdentity_def t f identity_ok_def)
  next
    case False
    with assms have d: "list_all (\<lambda>d. d \<noteq> [] \<and> trimmed d) (si_dims i)"
      and s: "si_service i = si_canonical i" "si_service i \<noteq> []"
      by (auto simp: identity_ok_def)
    from d have "hasAnyServiceDimension (si_dims i)" "hasAllServiceDimensions (si_dims i)"
      by (simp_all add: hasAnyServiceDimension_def hasAllServiceDimensions_def si_dims_def trimmed_iff)
    with s show ?thesis by (simp add: NormalizeStructuredServiceIdentity_def t f)
  qed
qed

subsection \<open>Queries\<close>

lemma normalize_values_prefix: "\<exists>zs. normalize_values vs acc = acc @ zs"
  by (induction vs acc rule: normalize_values.induct) (auto simp: Let_def)

lemma normalizeStringSlice_hd:
  "TrimSpace v \<noteq> [] \<Longrightarrow> \<exists>zs. normalizeStringSlice (v # vs) = TrimSpace v # zs"
  using normalize_values_prefix [of vs "[TrimSpace v]"] by (simp add: normalizeStringSlice_def Let_def)

text \<open>The meaning of a service filter.\<close>

definition service_matches :: "Query \<Rightarrow> bytes \<Rightarrow> bool" where
  "service_matches q s \<longleftrightarrow>
     (q_Service q = [] \<or> s = q_Service q) \<and> (q_Services q = [] \<or> s \<in> set (q_Services q)) \<and>
     (q_ServicePrefixes q = [] \<or> (\<exists>p \<in> set (q_ServicePrefixes q). \<exists>t. s = p @ t))"

lemma MatchServiceQuery_iff: "MatchServiceQuery s q \<longleftrightarrow> service_matches q (TrimSpace s)"
proof -
  have "(s = p \<or> HasPrefix s (p @ ''.'') \<or> HasPrefix s p) \<longleftrightarrow> (\<exists>t. s = p @ t)" for s p
    by (auto simp: HasPrefix_iff)
  then show ?thesis
    by (auto simp: MatchServiceQuery_def service_matches_def Let_def list_ex_iff)
qed

lemma FilterEndpoints_empty_iff:
  "expected \<noteq> [] \<Longrightarrow> FilterEndpoints es expected = [] \<longleftrightarrow>
     \<not> (\<exists>e \<in> set es. ep_Name e = expected \<or> ep_Protocol e = expected)"
  by (auto simp: FilterEndpoints_def filter_empty_conv)

lemma ParseQuery_parts:
  assumes "ParseQuery ul values = Inr q"
  obtains q0 limit sel where
    "normalizeQueryServiceIdentity values (base_query values) = Inr q0"
    "parseLimit (url_get values ''limit'') = Inr limit"
    "ParseLabelSelectorFilters ul (url_all values ''selector'') (url_all values ''label'') = Inr sel"
    "q = q0\<lparr>q_Limit := limit, q_Selector := sel\<rparr>"
    "TrimSpace (url_get values ''namespace'') \<noteq> []"
  using assms
  by (cases "ParseLabelSelectorFilters ul (url_all values ''selector'') (url_all values ''label'')")
    (auto simp: ParseQuery_def split: if_splits)

lemma normalizeQueryServiceIdentity_keeps:
  "normalizeQueryServiceIdentity values q = Inr q' \<Longrightarrow>
     q_Namespace q' = q_Namespace q \<and> q_Zone q' = q_Zone q \<and> q_Endpoint q' = q_Endpoint q \<and>
     (q_Service q \<noteq> [] \<longrightarrow> q_Service q' = q_Service q)"
  by (auto simp: normalizeQueryServiceIdentity_def query_identity_def fill_identity_def Let_def
      split: if_splits prod.splits)

subsection \<open>Properties\<close>

text \<open>The normal form of a register input.\<close>

definition register_ok :: "RegisterInput \<Rightarrow> bool" where
  "register_ok r \<longleftrightarrow> identity_ok (ri_identity r) \<and>
     trimmed (ri_Namespace r) \<and> trimmed (ri_InstanceID r) \<and> trimmed (ri_Zone r) \<and>
     clean_map (ri_Labels r) \<and> clean_map (ri_Metadata r) \<and>
     ri_Endpoints r \<noteq> [] \<and> endpoints_ok (ri_Endpoints r) \<and> 0 < ri_LeaseTTLSeconds r"

lemma NormalizeRegisterInput_ok:
  assumes "NormalizeRegisterInput r = Inr r'"
  shows "register_ok r' \<and> length (ri_Endpoints r') = length (ri_Endpoints r)"
proof -
  from assms obtain i seen es where i: "NormalizeStructuredServiceIdentity (ri_identity r) = Inr i"
    and es: "fold_result normalize_endpoint (ri_Endpoints r) ({}, []) = Inr (seen, es)"
    and ne: "ri_Endpoints r \<noteq> []" and ttl: "\<not> ri_LeaseTTLSeconds r < 0"
    and r': "ri_identity r' = i" "ri_Endpoints r' = es" "ri_Labels r' = CloneStringMap (ri_Labels r)"
      "ri_Metadata r' = CloneStringMap (ri_Metadata r)" "ri_Namespace r' = TrimSpace (ri_Namespace r)"
      "ri_InstanceID r' = TrimSpace (ri_InstanceID r)" "ri_Zone r' = TrimSpace (ri_Zone r)"
      "ri_LeaseTTLSeconds r' = EffectiveLeaseTTLSeconds (ri_LeaseTTLSeconds r)"
    by (auto simp: NormalizeRegisterInput_def ri_identity_def split: if_splits)
  have "endpoints_ok es \<and> length es = length (ri_Endpoints r)"
    using normalize_endpoints_ok [OF es] by (simp add: endpoints_ok_def)
  moreover have "es \<noteq> []" using calculation ne by auto
  ultimately show ?thesis
    using NormalizeStructuredServiceIdentity_ok [OF i] r'
    by (simp add: register_ok_def EffectiveLeaseTTLSeconds_def DefaultLeaseTTLSeconds_def)
qed

lemma NormalizeRegisterInput_id:
  assumes "register_ok r"
  shows "NormalizeRegisterInput r = Inr r"
proof -
  have i: "NormalizeStructuredServiceIdentity (ri_identity r) = Inr (ri_identity r)"
    using assms by (intro NormalizeStructuredServiceIdentity_id) (simp add: register_ok_def)
  have e: "fold_result normalize_endpoint (ri_Endpoints r) ({}, []) =
      Inr (set (map ep_Name (ri_Endpoints r)), ri_Endpoints r)"
    using normalize_endpoints_id [of "[]" "ri_Endpoints r" "{}"] assms by (simp add: register_ok_def)
  have "TrimSpace (ri_Namespace r) = ri_Namespace r" "TrimSpace (ri_InstanceID r) = ri_InstanceID r"
    "TrimSpace (ri_Zone r) = ri_Zone r" "EffectiveLeaseTTLSeconds (ri_LeaseTTLSeconds r) = ri_LeaseTTLSeconds r"
    "CloneStringMap (ri_Labels r) = ri_Labels r" "CloneStringMap (ri_Metadata r) = ri_Metadata r"
    "\<not> ri_LeaseTTLSeconds r < 0" "ri_Endpoints r \<noteq> []"
    using assms by (auto simp: register_ok_def trimmed_iff EffectiveLeaseTTLSeconds_def CloneStringMap_id)
  then show ?thesis
    by (simp add: NormalizeRegisterInput_def i e) (simp add: ri_identity_def)
qed

text \<open>C29. Normal form of register inputs. An accepted input has a canonical service identity, trimmed
  fields, at least one endpoint, as many endpoints as were given, pairwise distinct endpoint names,
  ports in 1 to 65535, positive weights and a positive lease; and normalising it again changes
  nothing, so the normal form is a fixed point.\<close>

theorem register_normal_form:
  assumes "NormalizeRegisterInput r = Inr r'"
  shows "register_ok r' \<and> length (ri_Endpoints r') = length (ri_Endpoints r) \<and>
     NormalizeRegisterInput r' = Inr r'"
  using NormalizeRegisterInput_ok [OF assms] NormalizeRegisterInput_id by blast

definition sample_endpoint :: Endpoint where
  "sample_endpoint = \<lparr>ep_Name = [], ep_Protocol = ''http'', ep_Host = '' h '', ep_Port = 80,
     ep_Path = [], ep_Weight = 0\<rparr>"

definition sample_input :: "bytes \<Rightarrow> bytes \<Rightarrow> int \<Rightarrow> RegisterInput" where
  "sample_input ns svc ttl =
     \<lparr>ri_Namespace = ns, ri_Service = svc, ri_Organization = [], ri_BusinessDomain = [],
      ri_CapabilityDomain = [], ri_Application = [], ri_Role = [], ri_InstanceID = ''i1'',
      ri_Zone = [], ri_Labels = [], ri_Metadata = [], ri_Endpoints = [sample_endpoint],
      ri_LeaseTTLSeconds = ttl\<rparr>"

definition sample_normal :: "bytes \<Rightarrow> bytes \<Rightarrow> int \<Rightarrow> RegisterInput" where
  "sample_normal ns svc ttl = (sample_input ns svc ttl)\<lparr>ri_Endpoints :=
     [sample_endpoint\<lparr>ep_Name := ''http'', ep_Host := ''h'', ep_Weight := 100\<rparr>]\<rparr>"

lemma TrimSpace_samples:
  "TrimSpace ''http'' = ''http''" "TrimSpace '' h '' = ''h''" "TrimSpace ''i1'' = ''i1''"
  by code_simp+

text \<open>A service name without structure and a positive lease are kept as they are.\<close>

lemma sample_normalizes:
  assumes "trimmed ns" "trimmed svc" "svc \<noteq> []" "CHR ''.'' \<notin> set svc" "0 < ttl"
  shows "NormalizeRegisterInput (sample_input ns svc ttl) = Inr (sample_normal ns svc ttl)"
proof -
  have "ParseServiceName svc = ([], [], [], [], [], False)"
    using assms by (simp add: ParseServiceName_def TrimSpace_trimmed Split_no_sep)
  then have "identity_ok (ri_identity (sample_input ns svc ttl))"
    using assms by (simp add: identity_ok_def ri_identity_def sample_input_def si_dims_def)
  from NormalizeStructuredServiceIdentity_id [OF this] show ?thesis
    using assms
    by (simp add: NormalizeRegisterInput_def sample_normal_def sample_input_def sample_endpoint_def
        normalize_endpoint_def ri_identity_def TrimSpace_trimmed TrimSpace_samples Let_def
        CloneStringMap_def DefaultEndpointWeight_def EffectiveLeaseTTLSeconds_def)
qed

theorem register_normal_form_witness:
  "register_ok (sample_normal ''prod'' ''orders'' 15)"
proof -
  have "trimmed ''prod''" "trimmed ''orders''" by code_simp+
  then have "NormalizeRegisterInput (sample_input ''prod'' ''orders'' 15) = Inr (sample_normal ''prod'' ''orders'' 15)"
    by (intro sample_normalizes) simp_all
  from register_normal_form [OF this] show ?thesis by simp
qed

text \<open>Key layout. The parser of instance keys accepts exactly the keys built by \<open>Key\<close> from three
  non-blank parts without a slash, and returns those parts; so on such parts parsing inverts
  building, and two of their keys are equal only if all parts are.\<close>

theorem key_roundtrip:
  "ParseKey k = Some (n, s, i) \<longleftrightarrow>
     k = Key n s i \<and> list_all (\<lambda>p. CHR ''/'' \<notin> set p \<and> TrimSpace p \<noteq> []) [n, s, i]"
  by (auto simp: ParseKey_iff)

text \<open>Keys are ambiguous for parts with a slash, which registration accepts: two accepted
  register inputs with different namespaces and services are stored under the same key, which the
  key parser (and so the watch path that rests on it) rejects.\<close>

theorem slash_keys_collide:
  "\<exists>r1 r2. NormalizeRegisterInput r1 = Inr r1 \<and> NormalizeRegisterInput r2 = Inr r2 \<and>
     ri_Namespace r1 \<noteq> ri_Namespace r2 \<and> ri_Service r1 \<noteq> ri_Service r2 \<and>
     Key (ri_Namespace r1) (ri_Service r1) (ri_InstanceID r1) =
       Key (ri_Namespace r2) (ri_Service r2) (ri_InstanceID r2) \<and>
     ParseKey (Key (ri_Namespace r1) (ri_Service r1) (ri_InstanceID r1)) = None"
proof -
  let ?r1 = "sample_normal ''a/b'' ''c'' 15" and ?r2 = "sample_normal ''a'' ''b/c'' 15"
  have "trimmed ''a/b''" "trimmed ''c''" "trimmed ''a''" "trimmed ''b/c''" by code_simp+
  then have "NormalizeRegisterInput (sample_input ''a/b'' ''c'' 15) = Inr ?r1"
    "NormalizeRegisterInput (sample_input ''a'' ''b/c'' 15) = Inr ?r2"
    by (simp_all add: sample_normalizes)
  then have "NormalizeRegisterInput ?r1 = Inr ?r1" "NormalizeRegisterInput ?r2 = Inr ?r2"
    using NormalizeRegisterInput_ok NormalizeRegisterInput_id by blast+
  moreover have "Key ''a/b'' ''c'' ''i1'' = Key ''a'' ''b/c'' ''i1''" by (simp add: Key_def)
  moreover have "ParseKey (Key ''a/b'' ''c'' ''i1'') = None" by code_simp
  ultimately show ?thesis
    by (intro exI [of _ ?r1] exI [of _ ?r2]) (simp add: sample_normal_def sample_input_def)
qed

text \<open>C33. Leases. A value made from an accepted input at time \<open>now0\<close> is alive exactly up to
  \<open>now0\<close> plus its lease, as long as that sum fits in an \<open>int64\<close>; once the sum exceeds the range (a
  lease registration accepts), the value is expired at the moment it is registered.\<close>

theorem lease_rule:
  assumes "NormalizeRegisterInput r = Inr r'" "0 < now0" "is_i64 now0" "is_i64 (ri_LeaseTTLSeconds r')"
  shows "if now0 + ri_LeaseTTLSeconds r' < 2 ^ 63
     then \<forall>now. now0 \<le> now \<longrightarrow> IsAlive (NewValue r' now0) now = (now \<le> now0 + ri_LeaseTTLSeconds r')
     else \<not> IsAlive (NewValue r' now0) now0"
proof -
  let ?d = "now0 + ri_LeaseTTLSeconds r'"
  have ttl: "0 < ri_LeaseTTLSeconds r'"
    using NormalizeRegisterInput_ok [OF assms(1)] by (simp add: register_ok_def)
  have alive: "IsAlive (NewValue r' now0) now = (now \<le> wrap_i64 ?d)" if "0 < now" for now
    using that ttl assms(2) by (simp add: IsAlive_def NewValue_def EffectiveLeaseTTLSeconds_def)
  show ?thesis
  proof (cases "?d < 2 ^ 63")
    case True
    then have "wrap_i64 ?d = ?d" using ttl assms(2) by (intro wrap_i64_id) (simp add: is_i64_def)
    with True alive assms(2) show ?thesis by simp
  next
    case False
    then have "wrap_i64 ?d = ?d - 2 ^ 64"
      using assms(3,4) by (intro wrap_i64_over) (auto simp: is_i64_def)
    moreover have "?d - 2 ^ 64 < 0" using assms(3,4) by (simp add: is_i64_def)
    ultimately show ?thesis using False alive [OF assms(2)] assms(2) by simp
  qed
qed

theorem lease_rule_witness:
  "IsAlive (NewValue (sample_normal ''prod'' ''orders'' 15) 1000) 1015 \<and>
   \<not> IsAlive (NewValue (sample_normal ''prod'' ''orders'' (2 ^ 63 - 1)) 1000) 1000"
proof -
  have t: "trimmed ''prod''" "trimmed ''orders''" by code_simp+
  then have n: "0 < ttl \<Longrightarrow> NormalizeRegisterInput (sample_input ''prod'' ''orders'' ttl) =
      Inr (sample_normal ''prod'' ''orders'' ttl)" for ttl
    by (simp add: sample_normalizes)
  have l: "ri_LeaseTTLSeconds (sample_normal ''prod'' ''orders'' ttl) = ttl" for ttl
    by (simp add: sample_normal_def sample_input_def)
  show ?thesis
    using lease_rule [OF n, of 15 1000] lease_rule [OF n, of "2 ^ 63 - 1" 1000]
    by (simp add: is_i64_def l)
qed

text \<open>What an accepted query promises of a value it selects.\<close>

definition query_selects :: "Query \<Rightarrow> Value \<Rightarrow> bool" where
  "query_selects q v \<longleftrightarrow> v_Namespace v = q_Namespace q \<and> service_matches q (TrimSpace (v_Service v)) \<and>
     (q_Zone q = [] \<or> v_Zone v = q_Zone q) \<and>
     (\<forall>r \<in> set (q_Selector q). requirement_holds (map_of (v_Labels v)) r) \<and>
     (q_Endpoint q = [] \<or>
        (\<exists>e \<in> set (v_Endpoints v). ep_Name e = q_Endpoint q \<or> ep_Protocol e = q_Endpoint q))"

lemma ParseQuery_namespace:
  assumes "ParseQuery ul values = Inr q"
  shows "q_Namespace q = TrimSpace (url_get values ''namespace'') \<and> q_Namespace q \<noteq> []"
proof (rule ParseQuery_parts [OF assms])
  fix q0 limit sel
  assume "normalizeQueryServiceIdentity values (base_query values) = Inr q0"
    "q = q0\<lparr>q_Limit := limit, q_Selector := sel\<rparr>" "TrimSpace (url_get values ''namespace'') \<noteq> []"
  with normalizeQueryServiceIdentity_keeps show ?thesis
    by (force simp: base_query_def Let_def)
qed

lemma ParseQuery_selector:
  assumes "ParseQuery ul values = Inr q"
  shows "list_all requirement_ok (q_Selector q)"
  using assms by (auto elim!: ParseQuery_parts dest: ParseLabelSelectorFilters_requirements)

lemma MatchQuery_parsed:
  assumes "ParseQuery ul values = Inr q"
  shows "MatchQuery v q = Some (query_selects q v) \<and> 0 \<le> q_Limit q"
proof -
  have "MatchesLabelSelector (v_Labels v) (q_Selector q) =
      Some (\<forall>r \<in> set (q_Selector q). requirement_holds (map_of (v_Labels v)) r)"
    using ParseQuery_selector [OF assms] by (simp add: MatchesLabelSelector_ok list_all_iff)
  then have "MatchQuery v q = Some (query_selects q v)"
    using ParseQuery_namespace [OF assms]
    by (cases "q_Endpoint q = []"; cases "\<forall>r \<in> set (q_Selector q). requirement_holds (map_of (v_Labels v)) r")
      (simp_all add: MatchQuery_def query_selects_def MatchServiceQuery_iff FilterEndpoints_empty_iff)
  moreover have "0 \<le> q_Limit q"
    using assms by (auto elim!: ParseQuery_parts simp: parseLimit_def split: if_splits option.splits)
  ultimately show ?thesis ..
qed



text \<open>Repeated \<open>service\<close> parameters do not widen a query. The parser collects all of them, but
  keeps the first as the single service too, and matching demands both; so whatever other services
  are listed, a matching service is the first one.\<close>

theorem repeated_service_first_only:
  assumes "ParseQuery ul values = Inr q" "url_all values ''service'' = s1 # s2 # ss" "TrimSpace s1 \<noteq> []"
    "MatchServiceQuery service q"
  shows "TrimSpace service = TrimSpace s1"
proof (rule ParseQuery_parts [OF assms(1)])
  fix q0 limit sel
  assume n: "normalizeQueryServiceIdentity values (base_query values) = Inr q0"
    and q: "q = q0\<lparr>q_Limit := limit, q_Selector := sel\<rparr>"
  have "q_Service (base_query values) = TrimSpace s1"
    using normalizeStringSlice_hd [OF assms(3), of "s2 # ss"] assms(2)
    by (auto simp: base_query_def Let_def url_get_def split: list.splits)
  with normalizeQueryServiceIdentity_keeps [OF n] assms(3) q
  have "q_Service q = TrimSpace s1" by simp
  with assms(3,4) show ?thesis by (simp add: MatchServiceQuery_iff service_matches_def)
qed

theorem repeated_service_first_only_witness:
  "\<exists>q. ParseQuery id [(''namespace'', [''prod'']), (''service'', [''a'', ''b''])] = Inr q \<and>
     ''b'' \<in> set (q_Services q) \<and> \<not> MatchServiceQuery ''b'' q"
proof -
  let ?v = "[(''namespace'', [''prod'']), (''service'', [''a'', ''b''])]"
  have "(case ParseQuery id ?v of Inr q \<Rightarrow> ''b'' \<in> set (q_Services q) | Inl _ \<Rightarrow> False)" by code_simp
  then obtain q where q: "ParseQuery id ?v = Inr q" "''b'' \<in> set (q_Services q)"
    by (auto split: sum.splits)
  have t: "TrimSpace ''a'' = ''a''" "TrimSpace ''b'' = ''b''" by code_simp+
  have u: "url_all ?v ''service'' = ''a'' # ''b'' # []" by (simp add: url_all_def)
  from repeated_service_first_only [OF q(1) u, of "''b''"] q t show ?thesis by auto
qed

text \<open>A hierarchy filter is a plain string prefix. Filtering by an organisation alone accepts
  every service whose name starts with the organisation's characters, whatever follows, not only the
  services of that organisation.\<close>

theorem organization_filter_is_string_prefix:
  assumes "ParseQuery ul [(''namespace'', [ns]), (''organization'', [org])] = Inr q"
    "trimmed org" "org \<noteq> []" "trimmed service"
  shows "MatchServiceQuery service q \<longleftrightarrow> (\<exists>rest. service = org @ rest)"
proof (rule ParseQuery_parts [OF assms(1)])
  let ?v = "[(''namespace'', [ns]), (''organization'', [org])]"
  fix q0 limit sel
  assume n: "normalizeQueryServiceIdentity ?v (base_query ?v) = Inr q0"
    and q: "q = q0\<lparr>q_Limit := limit, q_Selector := sel\<rparr>"
  have "query_identity ?v (base_query ?v) =
      \<lparr>si_service = [], si_organization = org, si_businessDomain = [], si_capabilityDomain = [],
       si_application = [], si_role = []\<rparr>"
    using assms(2) by (simp add: query_identity_def base_query_def url_get_def url_all_def
        normalizeStringSlice_def TrimSpace_trimmed Let_def)
  with n assms(2,3) have "q_Service q0 = [] \<and> q_Services q0 = [] \<and> q_ServicePrefixes q0 = [org]"
    by (auto simp: normalizeQueryServiceIdentity_def si_dims_def hasAnyServiceDimension_def
        hasGapInServiceDimensions_def hasAllServiceDimensions_def serviceHierarchyDimensions_def
        TrimSpace_trimmed base_query_def url_get_def url_all_def normalizeStringSlice_def
        appendUniqueString_def Let_def)
  with q assms(4) show ?thesis
    by (simp add: MatchServiceQuery_iff service_matches_def TrimSpace_trimmed)
qed

theorem organization_filter_is_string_prefix_witness:
  "\<exists>q. ParseQuery id [(''namespace'', [''prod'']), (''organization'', [''acme''])] = Inr q \<and>
     MatchServiceQuery ''acme2.trade.order.center.api'' q"
proof -
  let ?v = "[(''namespace'', [''prod'']), (''organization'', [''acme''])]"
  have "(case ParseQuery id ?v of Inr q \<Rightarrow> True | Inl _ \<Rightarrow> False)" by code_simp
  then obtain q where q: "ParseQuery id ?v = Inr q" by (auto split: sum.splits)
  have t: "trimmed ''acme''" "trimmed ''acme2.trade.order.center.api''" by code_simp+
  from organization_filter_is_string_prefix [OF q t(1) _ t(2)] q show ?thesis by simp
qed

end
