(* ===== verification/Go_Encoding.thy ===== *)
theory Go_Encoding
  imports Go_Strings
begin

text \<open>
  The byte encodings of Go's standard library that the program uses: big-endian integers
  (\<open>encoding/binary\<close>) and standard base64 (\<open>encoding/base64\<close>, through which \<open>encoding/json\<close> writes
  every \<open>[]byte\<close>).
\<close>

subsection \<open>Big-endian integers\<close>

lemma of_char_256: "(of_char c :: nat) \<le> 255"
  using nat_of_char_less_256 [of c] by linarith

fun be_bytes :: "nat \<Rightarrow> nat \<Rightarrow> bytes" where
  "be_bytes 0 n = []"
| "be_bytes (Suc k) n = char_of (n div 256 ^ k mod 256) # be_bytes k n"

definition be_value :: "bytes \<Rightarrow> nat" where
  "be_value s = foldl (\<lambda>n c. 256 * n + of_char c) 0 s"

lemma length_be_bytes [simp]: "length (be_bytes k n) = k"
  by (induction k) auto

lemma be_value_foldl: "foldl (\<lambda>n c. 256 * n + of_char c) m s = m * 256 ^ length s + be_value s"
  unfolding be_value_def
proof (induction s arbitrary: m)
  case (Cons c s)
  from Cons.IH [of "256 * m + of_char c"] Cons.IH [of "of_char c"]
  show ?case by (simp add: algebra_simps)
qed simp

lemma be_value_Cons: "be_value (c # s) = of_char c * 256 ^ length s + be_value s"
  using be_value_foldl [of "of_char c" s] by (simp add: be_value_def)

lemma be_value_Nil [simp]: "be_value [] = 0"
  by (simp add: be_value_def)

lemma mod_Suc_power: "(n::nat) mod 256 ^ Suc k = (n div 256 ^ k mod 256) * 256 ^ k + n mod 256 ^ k"
  by (metis mod_mult2_eq mult.commute power_Suc2)

lemma be_value_be_bytes: "be_value (be_bytes k n) = n mod 256 ^ k"
  by (induction k) (simp_all add: be_value_Cons mod_Suc_power del: power_Suc)

lemma be_value_bound: "be_value s < 256 ^ length s"
proof (induction s)
  case (Cons c s)
  have "be_value (c # s) < (of_char c + 1) * 256 ^ length s"
    using Cons.IH by (simp add: be_value_Cons)
  also have "\<dots> \<le> 256 * 256 ^ length s"
    by (intro mult_le_mono1) (use of_char_256 [of c] in linarith)
  finally show ?case by simp
qed simp

text \<open>\<open>binary.BigEndian.PutUint64\<close> and \<open>Uint64\<close>; the latter panics on fewer than 8 bytes.\<close>

definition PutUint64 :: "u64 \<Rightarrow> bytes" where
  "PutUint64 w = be_bytes 8 (unat w)"

definition Uint64 :: "bytes \<Rightarrow> u64 option" where
  "Uint64 s = (if length s < 8 then None else Some (word_of_nat (be_value (take 8 s))))"

lemma Uint64_PutUint64 [simp]: "Uint64 (PutUint64 w @ rest) = Some w"
proof -
  have "unat w < 256 ^ 8" using unsigned_less [of w, where ?'a = nat] by simp
  then show ?thesis by (simp add: Uint64_def PutUint64_def be_value_be_bytes)
qed

lemma length_PutUint64 [simp]: "length (PutUint64 w) = 8"
  by (simp add: PutUint64_def)

subsection \<open>Base64\<close>

definition base64_alphabet :: bytes where
  "base64_alphabet = ''ABCDEFGHIJKLMNOPQRSTUVWXYZabcdefghijklmnopqrstuvwxyz0123456789+/''"

definition b64_char :: "nat \<Rightarrow> char" where
  "b64_char d = base64_alphabet ! d"

text \<open>The value of an alphabet character, \<open>None\<close> for any other.\<close>

definition b64_digit :: "char \<Rightarrow> nat option" where
  "b64_digit c =
     (let i = first_index (\<lambda>d. d = c) base64_alphabet in
      if i < length base64_alphabet then Some i else None)"

fun EncodeToString :: "bytes \<Rightarrow> bytes" where
  "EncodeToString [] = []"
| "EncodeToString [a] =
     (let n = of_char a * 16 in [b64_char (n div 64), b64_char (n mod 64), CHR ''='', CHR ''=''])"
| "EncodeToString [a, b] =
     (let n = (of_char a * 256 + of_char b) * 4 in
      [b64_char (n div 4096), b64_char (n div 64 mod 64), b64_char (n mod 64), CHR ''=''])"
| "EncodeToString (a # b # c # s) =
     (let n = of_char a * 65536 + of_char b * 256 + of_char c in
      b64_char (n div 262144) # b64_char (n div 4096 mod 64) # b64_char (n div 64 mod 64)
        # b64_char (n mod 64) # EncodeToString s)"

text \<open>
  One group of four. Go's decoder is not strict: it does not look at the bits that padding leaves
  over.
\<close>

fun decode_quads :: "bytes \<Rightarrow> bytes option" where
  "decode_quads [] = Some []"
| "decode_quads (w # x # y # z # s) =
     (case (b64_digit w, b64_digit x) of
        (Some i, Some j) \<Rightarrow>
          (if y = CHR ''='' then
             (if z = CHR ''='' \<and> s = [] then Some [char_of ((i * 64 + j) div 16)] else None)
           else case b64_digit y of
             None \<Rightarrow> None
           | Some k \<Rightarrow>
             (if z = CHR ''='' then
                (if s = [] then
                   Some [char_of ((i * 4096 + j * 64 + k) div 1024), char_of ((i * 4096 + j * 64 + k) div 4 mod 256)]
                 else None)
              else case b64_digit z of
                None \<Rightarrow> None
              | Some l \<Rightarrow>
                (let n = i * 262144 + j * 4096 + k * 64 + l in
                 map_option (\<lambda>r. char_of (n div 65536) # char_of (n div 256 mod 256) # char_of (n mod 256) # r)
                   (decode_quads s))))
      | _ \<Rightarrow> None)"
| "decode_quads _ = None"

text \<open>\<open>base64.StdEncoding.Decode\<close>, which skips carriage returns and line feeds.\<close>

definition DecodeString :: "bytes \<Rightarrow> bytes option" where
  "DecodeString s = decode_quads (filter (\<lambda>c. c \<noteq> CHR 0x0A \<and> c \<noteq> CHR 0x0D) s)"

lemma first_index_nth:
  "distinct xs \<Longrightarrow> i < length xs \<Longrightarrow> first_index (\<lambda>d. d = xs ! i) xs = i"
proof (induction xs arbitrary: i)
  case (Cons x xs)
  then show ?case by (cases i) (auto simp: in_set_conv_nth)
qed simp

lemma base64_alphabet_facts:
  "length base64_alphabet = 64" "distinct base64_alphabet"
  "CHR ''='' \<notin> set base64_alphabet" "CHR 0x0A \<notin> set base64_alphabet" "CHR 0x0D \<notin> set base64_alphabet"
  by (simp_all add: base64_alphabet_def)

lemma b64_digit_char: "d < 64 \<Longrightarrow> b64_digit (b64_char d) = Some d"
  by (simp add: b64_digit_def b64_char_def first_index_nth base64_alphabet_facts)

lemma b64_char_in: "d < 64 \<Longrightarrow> b64_char d \<in> set base64_alphabet"
  by (simp add: b64_char_def base64_alphabet_facts)

lemma b64_char_neq [simp]:
  assumes "d < 64"
  shows "b64_char d \<noteq> CHR ''=''" "b64_char d \<noteq> CHR 0x0A" "b64_char d \<noteq> CHR 0x0D"
  using b64_char_in [OF assms] base64_alphabet_facts by metis+

lemma EncodeToString_chars: "set (EncodeToString s) \<subseteq> insert (CHR ''='') (set base64_alphabet)"
proof (induction s rule: EncodeToString.induct)
  case (2 a)
  have "of_char a * 16 div 64 < (64::nat)" using of_char_256 [of a] by linarith
  then show ?case by (simp add: Let_def b64_char_in)
next
  case (3 a b)
  have "(of_char a * 256 + of_char b) * 4 div 4096 < (64::nat)"
    using of_char_256 [of a] of_char_256 [of b] 
    by (intro less_mult_imp_div_less) (simp add: distrib_right)
  then show ?case by (simp add: Let_def b64_char_in)
next
  case (4 a b c s)
  have "(of_char a * 65536 + of_char b * 256 + of_char c) div 262144 < (64::nat)"
    using of_char_256 [of a] of_char_256 [of b] of_char_256 [of c] by linarith
  with 4 show ?case by (simp add: Let_def b64_char_in)
qed simp

lemma split64:
  fixes n :: nat
  shows "n div 64 * 64 + n mod 64 = n" "n div 4096 * 4096 + n div 64 mod 64 * 64 + n mod 64 = n"
    "n div 262144 * 262144 + n div 4096 mod 64 * 4096 + n div 64 mod 64 * 64 + n mod 64 = n"
proof -
  show a: "n div 64 * 64 + n mod 64 = n" by simp
  have b: "n div 4096 * 64 + n div 64 mod 64 = n div 64"
    using div_mult_mod_eq [of "n div 64" 64] by (simp add: div_mult2_eq [symmetric])
  have c: "n div 262144 * 64 + n div 4096 mod 64 = n div 4096"
    using div_mult_mod_eq [of "n div 4096" 64] by (simp add: div_mult2_eq [symmetric])
  show d: "n div 4096 * 4096 + n div 64 mod 64 * 64 + n mod 64 = n" using a b by linarith
  show "n div 262144 * 262144 + n div 4096 mod 64 * 4096 + n div 64 mod 64 * 64 + n mod 64 = n"
    using c d by linarith
qed

lemma split_bytes3:
  fixes a b c :: nat
  assumes "b \<le> 255" "c \<le> 255"
  shows "(a * 65536 + b * 256 + c) div 65536 = a" "(a * 65536 + b * 256 + c) div 256 mod 256 = b"
    "(a * 65536 + b * 256 + c) mod 256 = c"
proof -
  have n: "a * 65536 + b * 256 + c = c + (b + a * 256) * 256" by simp
  have d: "(a * 65536 + b * 256 + c) div 256 = b + a * 256"
    unfolding n using assms by (subst div_mult_self1) simp_all
  show "(a * 65536 + b * 256 + c) mod 256 = c"
    unfolding n using assms by (subst mod_mult_self1) simp
  show "(a * 65536 + b * 256 + c) div 256 mod 256 = b"
    unfolding d using assms by (subst mod_mult_self1) simp
  show "(a * 65536 + b * 256 + c) div 65536 = a"
    using assms by simp
qed

lemma decode_quads_1:
  "n < 4096 \<Longrightarrow> decode_quads [b64_char (n div 64), b64_char (n mod 64), CHR ''='', CHR ''=''] =
     Some [char_of (n div 16)]"
  by (simp add: b64_digit_char split64 less_mult_imp_div_less)

lemma decode_quads_2:
  "n < 262144 \<Longrightarrow>
     decode_quads [b64_char (n div 4096), b64_char (n div 64 mod 64), b64_char (n mod 64), CHR ''=''] =
     Some [char_of (n div 1024), char_of (n div 4 mod 256)]"
  by (simp add: b64_digit_char split64 less_mult_imp_div_less)

lemma decode_quads_3:
  "n < 16777216 \<Longrightarrow>
     decode_quads (b64_char (n div 262144) # b64_char (n div 4096 mod 64) # b64_char (n div 64 mod 64)
        # b64_char (n mod 64) # s) =
     map_option (\<lambda>r. char_of (n div 65536) # char_of (n div 256 mod 256) # char_of (n mod 256) # r)
       (decode_quads s)"
  by (simp add: b64_digit_char split64 less_mult_imp_div_less Let_def)

lemma decode_quads_EncodeToString: "decode_quads (EncodeToString s) = Some s"
proof (induction s rule: EncodeToString.induct)
  case (2 a)
  have "of_char a * 16 < (4096::nat)" using of_char_256 [of a] by linarith
  from decode_quads_1 [OF this] show ?case by (simp add: Let_def)
next
  case (3 a b)
  let ?n = "(of_char a * 256 + of_char b) * 4 :: nat"
  have "?n < 262144" using of_char_256 [of a] of_char_256 [of b] by (simp add: distrib_right)
  moreover have "?n div 1024 = of_char a" "?n div 4 mod 256 = of_char b"
    using of_char_256 [of b] by (simp_all add: div_mult2_eq)
  ultimately show ?case using decode_quads_2 [of ?n] by (simp only: EncodeToString.simps Let_def char_of_char)
next
  case (4 a b c s)
  let ?n = "of_char a * 65536 + of_char b * 256 + of_char c :: nat"
  have "?n < 16777216"
    using of_char_256 [of a] of_char_256 [of b] of_char_256 [of c] by linarith
  moreover have "?n div 65536 = of_char a" "?n div 256 mod 256 = of_char b" "?n mod 256 = of_char c"
    by (rule split_bytes3; rule of_char_256)+
  ultimately show ?case
    using decode_quads_3 [of ?n] 4 by (simp only: EncodeToString.simps Let_def char_of_char option.map)
qed simp

lemma DecodeString_EncodeToString [simp]: "DecodeString (EncodeToString s) = Some s"
proof -
  have "filter (\<lambda>c. c \<noteq> CHR 0x0A \<and> c \<noteq> CHR 0x0D) (EncodeToString s) = EncodeToString s"
    using EncodeToString_chars [of s] base64_alphabet_facts by (intro filter_True) auto
  then show ?thesis by (simp add: DecodeString_def decode_quads_EncodeToString)
qed

end
