(* ===== verification/Go_Json_Text.thy ===== *)
theory Go_Json_Text
  imports Go_Encoding
begin

text \<open>
  Go's \<open>encoding/json\<close>, as far as the program uses it: the text of a value (compact, with HTML
  escaping, as \<open>Marshal\<close> and \<open>Encoder.Encode\<close> write it), the parser behind \<open>Unmarshal\<close> and
  \<open>Decoder.Decode\<close>, and the round trip between the two.

  A parsed text is a \<open>json\<close> tree; a number keeps its literal. The parser is given fuel, and
  \<open>parse_value_enough\<close> shows that the length of the text is always enough. Go's limit of 10000 nested
  arrays or objects is not modelled.
\<close>

subsection \<open>Strings\<close>

definition hex_digit :: "nat \<Rightarrow> char" where
  "hex_digit d = (if d < 10 then char_of (48 + d) else char_of (87 + d))"

definition hex_value :: "char \<Rightarrow> nat option" where
  "hex_value c =
     (let b = of_char c :: nat in
      if 48 \<le> b \<and> b \<le> 57 then Some (b - 48)
      else if 97 \<le> b \<and> b \<le> 102 then Some (b - 87)
      else if 65 \<le> b \<and> b \<le> 70 then Some (b - 55)
      else None)"

text \<open>One byte below 0x80, as \<open>appendString\<close> writes it.\<close>

definition escape_ascii :: "char \<Rightarrow> bytes" where
  "escape_ascii c =
     (let b = of_char c :: nat in
      if c = CHR 0x22 \<or> c = CHR 0x5C then [CHR 0x5C, c]
      else if b = 8 then [CHR 0x5C, CHR ''b'']
      else if b = 12 then [CHR 0x5C, CHR ''f'']
      else if b = 10 then [CHR 0x5C, CHR ''n'']
      else if b = 13 then [CHR 0x5C, CHR ''r'']
      else if b = 9 then [CHR 0x5C, CHR ''t'']
      else if b < 0x20 \<or> c \<in> set ''<>&'' then
        [CHR 0x5C, CHR ''u'', CHR ''0'', CHR ''0'', hex_digit (b div 16), hex_digit (b mod 16)]
      else [c])"

text \<open>A malformed byte is written as the escape of U+FFFD; U+2028 and U+2029 are escaped.\<close>

fun enc_runes :: "bytes \<Rightarrow> bytes" where
  "enc_runes [] = []"
| "enc_runes (c # s) =
     (if (of_char c :: nat) < 0x80 then escape_ascii c @ enc_runes s
      else case DecodeRune (c # s) of (r, w) \<Rightarrow>
        if r = rune_error \<and> w = 1 then CHR 0x5C # ''ufffd'' @ enc_runes s
        else if r = 0x2028 \<or> r = 0x2029 then
          CHR 0x5C # ''u202'' @ hex_digit (r mod 16) # enc_runes (drop (w - 1) s)
        else take w (c # s) @ enc_runes (drop (w - 1) s))"

definition enc_string :: "bytes \<Rightarrow> bytes" where
  "enc_string s = CHR 0x22 # enc_runes s @ [CHR 0x22]"

definition getu4 :: "bytes \<Rightarrow> nat option" where
  "getu4 s =
     (case s of
        a # b # c # d # _ \<Rightarrow>
          (case (hex_value a, hex_value b, hex_value c, hex_value d) of
             (Some i, Some j, Some k, Some l) \<Rightarrow> Some (i * 4096 + j * 256 + k * 16 + l)
           | _ \<Rightarrow> None)
      | _ \<Rightarrow> None)"

definition simple_escape :: "char \<Rightarrow> char option" where
  "simple_escape e =
     (if e = CHR 0x22 \<or> e = CHR 0x5C \<or> e = CHR ''/'' then Some e
      else if e = CHR ''b'' then Some (CHR 0x08)
      else if e = CHR ''f'' then Some (CHR 0x0C)
      else if e = CHR ''n'' then Some (CHR 0x0A)
      else if e = CHR ''r'' then Some (CHR 0x0D)
      else if e = CHR ''t'' then Some (CHR 0x09)
      else None)"

text \<open>
  The code point after a \<open>u\<close> escape and the number of further bytes it takes beyond its own four
  digits: a valid surrogate pair is joined, a lone surrogate is U+FFFD.
\<close>

definition unescape_u :: "nat \<Rightarrow> bytes \<Rightarrow> nat \<times> nat" where
  "unescape_u rr rest =
     (if 0xD800 \<le> rr \<and> rr \<le> 0xDFFF then
        (case (if take 2 rest = [CHR 0x5C, CHR ''u''] then getu4 (drop 2 rest) else None) of
           Some rr1 \<Rightarrow>
             if rr < 0xDC00 \<and> 0xDC00 \<le> rr1 \<and> rr1 \<le> 0xDFFF
             then ((rr - 0xD800) * 1024 + (rr1 - 0xDC00) + 0x10000, 6)
             else (rune_error, 0)
         | None \<Rightarrow> (rune_error, 0))
      else (rr, 0))"

definition prepend :: "bytes \<Rightarrow> (bytes \<times> bytes) option \<Rightarrow> (bytes \<times> bytes) option" where
  "prepend b r = map_option (\<lambda>(d, rest). (b @ d, rest)) r"

lemma prepend_simps [simp]: "prepend b None = None" "prepend b (Some (d, rest)) = Some (b @ d, rest)"
  by (simp_all add: prepend_def)

text \<open>The rest of a string literal after its opening quote, and the text after its closing quote.\<close>

fun dec_string :: "bytes \<Rightarrow> (bytes \<times> bytes) option" where
  "dec_string [] = None"
| "dec_string (c # s) =
     (if c = CHR 0x22 then Some ([], s)
      else if c = CHR 0x5C then
        (case s of
           [] \<Rightarrow> None
         | e # t \<Rightarrow>
             if e = CHR ''u'' then
               (case getu4 t of
                  None \<Rightarrow> None
                | Some rr \<Rightarrow>
                    (case unescape_u rr (drop 4 t) of
                       (r, more) \<Rightarrow> prepend (EncodeRune r) (dec_string (drop (4 + more) t))))
             else (case simple_escape e of None \<Rightarrow> None | Some b \<Rightarrow> prepend [b] (dec_string t)))
      else if (of_char c :: nat) < 0x20 then None
      else if (of_char c :: nat) < 0x80 then prepend [c] (dec_string s)
      else case DecodeRune (c # s) of (r, w) \<Rightarrow>
        if r = rune_error \<and> w = 1 then prepend (EncodeRune rune_error) (dec_string s)
        else prepend (take w (c # s)) (dec_string (drop (w - 1) s)))"

fun valid_utf8 :: "bytes \<Rightarrow> bool" where
  "valid_utf8 [] = True"
| "valid_utf8 (c # s) =
     (case DecodeRune (c # s) of
        (r, w) \<Rightarrow> \<not> (r = rune_error \<and> w = 1) \<and> valid_utf8 (drop (w - 1) s))"

declare enc_runes.simps(2) [simp del] dec_string.simps(2) [simp del] valid_utf8.simps(2) [simp del]

lemma hex_value_digit: "d < 16 \<Longrightarrow> hex_value (hex_digit d) = Some d"
  by (auto simp: hex_digit_def hex_value_def Let_def)

lemma DecodeRune_width:
  assumes "DecodeRune (c # s) = (r, w)"
  shows "1 \<le> w" "w \<le> length (c # s)"
  using assms by (auto simp: Let_def split: if_splits list.splits)

text \<open>A well-formed sequence is decided by its own bytes and written back unchanged.\<close>

lemma DecodeRune_take:
  assumes "DecodeRune (c # s) = (r, w)" "\<not> (r = rune_error \<and> w = 1)"
  shows "DecodeRune (take w (c # s) @ t) = (r, w)"
  using assms by (auto simp: Let_def split: if_splits list.splits)

lemma radix64:
  fixes a b c d :: nat
  assumes "b < 64" "c < 64" "d < 64"
  shows "(a * 64 + b) div 64 = a" "(a * 64 + b) mod 64 = b"
    "(a * 4096 + b * 64 + c) div 4096 = a" "(a * 4096 + b * 64 + c) div 64 mod 64 = b"
    "(a * 4096 + b * 64 + c) mod 64 = c"
    "(a * 262144 + b * 4096 + c * 64 + d) div 262144 = a"
    "(a * 262144 + b * 4096 + c * 64 + d) div 4096 mod 64 = b"
    "(a * 262144 + b * 4096 + c * 64 + d) div 64 mod 64 = c"
    "(a * 262144 + b * 4096 + c * 64 + d) mod 64 = d"
proof -
  have two: "(x * 64 + y) div 64 = x \<and> (x * 64 + y) mod 64 = y" if "y < 64" for x y :: nat
    using that by simp
  show "(a * 64 + b) div 64 = a" "(a * 64 + b) mod 64 = b" using two assms by auto
  have n3: "a * 4096 + b * 64 + c = (a * 64 + b) * 64 + c" by simp
  have d3: "(a * 4096 + b * 64 + c) div 64 = a * 64 + b" unfolding n3 using two assms by blast
  show "(a * 4096 + b * 64 + c) mod 64 = c" unfolding n3 using two assms by blast
  show "(a * 4096 + b * 64 + c) div 64 mod 64 = b" unfolding d3 using two assms by blast
  show "(a * 4096 + b * 64 + c) div 4096 = a" using assms by simp
  have n4: "a * 262144 + b * 4096 + c * 64 + d = (a * 4096 + b * 64 + c) * 64 + d" by simp
  have d4: "(a * 262144 + b * 4096 + c * 64 + d) div 64 = a * 4096 + b * 64 + c"
    unfolding n4 using two assms by blast
  show "(a * 262144 + b * 4096 + c * 64 + d) mod 64 = d" unfolding n4 using two assms by blast
  show "(a * 262144 + b * 4096 + c * 64 + d) div 64 mod 64 = c"
    unfolding d4 n3 using two assms by blast
  have "(a * 262144 + b * 4096 + c * 64 + d) div 4096 = (a * 262144 + b * 4096 + c * 64 + d) div 64 div 64"
    by (simp add: div_mult2_eq [symmetric])
  then have e4: "(a * 262144 + b * 4096 + c * 64 + d) div 4096 = a * 64 + b"
    by (simp only: d4 d3)
  show "(a * 262144 + b * 4096 + c * 64 + d) div 4096 mod 64 = b"
    unfolding e4 using two assms by blast
  have "(a * 262144 + b * 4096 + c * 64 + d) div 262144 = (a * 262144 + b * 4096 + c * 64 + d) div 4096 div 64"
    by (simp add: div_mult2_eq [symmetric])
  then show "(a * 262144 + b * 4096 + c * 64 + d) div 262144 = a"
    unfolding e4 using two assms by simp
qed

lemma EncodeRune_2:
  assumes "0xC2 \<le> (of_char c0 :: nat)" "(of_char c0 :: nat) \<le> 0xDF" "cont_byte c1"
  shows "EncodeRune ((of_char c0 - 0xC0) * 64 + (of_char c1 - 0x80)) = [c0, c1]"
proof -
  define a where "a = (of_char c0 - 0xC0 :: nat)"
  define b where "b = (of_char c1 - 0x80 :: nat)"
  have b: "b < 64" "2 \<le> a" "a < 32" using assms by (auto simp: a_def b_def cont_byte_def)
  have c: "char_of (0xC0 + a) = c0" "char_of (0x80 + b) = c1"
    using assms by (auto simp: a_def b_def cont_byte_def)
  have "a * 64 + b < 0x800" "0x80 \<le> a * 64 + b" using b by linarith+
  then have "EncodeRune (a * 64 + b) = [char_of (0xC0 + a), char_of (0x80 + b)]"
    using b by (simp add: EncodeRune_def Let_def)
  then show ?thesis by (simp only: c flip: a_def b_def)
qed

lemma EncodeRune_plane0:
  "0x800 \<le> r \<Longrightarrow> r < 0x10000 \<Longrightarrow> \<not> (0xD800 \<le> r \<and> r \<le> 0xDFFF) \<Longrightarrow>
     EncodeRune r = [char_of (0xE0 + r div 4096), char_of (0x80 + r div 64 mod 64), char_of (0x80 + r mod 64)]"
  by (auto simp: EncodeRune_def Let_def)

lemma EncodeRune_3:
  assumes "0xE0 \<le> (of_char c0 :: nat)" "(of_char c0 :: nat) \<le> 0xEF"
    "second_ok (of_char c0) (of_char c1)" "cont_byte c2"
  shows "EncodeRune ((of_char c0 - 0xE0) * 4096 + (of_char c1 - 0x80) * 64 + (of_char c2 - 0x80)) = [c0, c1, c2]"
proof -
  define a where "a = (of_char c0 - 0xE0 :: nat)"
  define b where "b = (of_char c1 - 0x80 :: nat)"
  define d where "d = (of_char c2 - 0x80 :: nat)"
  have b: "b < 64" "d < 64" "a < 16" "a = 0 \<longrightarrow> 32 \<le> b" "a = 13 \<longrightarrow> b < 32"
    using assms by (auto simp: a_def b_def d_def cont_byte_def second_ok_def split: if_splits)
  have c: "char_of (0xE0 + a) = c0" "char_of (0x80 + b) = c1" "char_of (0x80 + d) = c2"
    using assms by (auto simp: a_def b_def d_def cont_byte_def second_ok_def split: if_splits)
  have lo: "0x800 \<le> a * 4096 + b * 64 + d" using b by (cases "a = 0") linarith+
  have hi: "a * 4096 + b * 64 + d < 0x10000" using b by linarith
  have sur: "\<not> (0xD800 \<le> a * 4096 + b * 64 + d \<and> a * 4096 + b * 64 + d \<le> 0xDFFF)"
  proof
    assume x: "0xD800 \<le> a * 4096 + b * 64 + d \<and> a * 4096 + b * 64 + d \<le> 0xDFFF"
    then have "a = 13" using b(1,2) by linarith
    with x b show False by linarith
  qed
  have "EncodeRune (a * 4096 + b * 64 + d) = [char_of (0xE0 + a), char_of (0x80 + b), char_of (0x80 + d)]"
    using EncodeRune_plane0 [OF lo hi sur] by (simp only: radix64(3-5) [OF b(1,2) b(2)])
  then show ?thesis by (simp only: c flip: a_def b_def d_def)
qed

lemma EncodeRune_4:
  assumes "0xF0 \<le> (of_char c0 :: nat)" "(of_char c0 :: nat) \<le> 0xF4"
    "second_ok (of_char c0) (of_char c1)" "cont_byte c2" "cont_byte c3"
  shows "EncodeRune ((of_char c0 - 0xF0) * 262144 + (of_char c1 - 0x80) * 4096 + (of_char c2 - 0x80) * 64
      + (of_char c3 - 0x80)) = [c0, c1, c2, c3]"
proof -
  define a where "a = (of_char c0 - 0xF0 :: nat)"
  define b where "b = (of_char c1 - 0x80 :: nat)"
  define d where "d = (of_char c2 - 0x80 :: nat)"
  define e where "e = (of_char c3 - 0x80 :: nat)"
  have b: "b < 64" "d < 64" "e < 64" "a \<le> 4" "a = 0 \<longrightarrow> 16 \<le> b" "a = 4 \<longrightarrow> b < 16"
    using assms by (auto simp: a_def b_def d_def e_def cont_byte_def second_ok_def split: if_splits)
  have c: "char_of (0xF0 + a) = c0" "char_of (0x80 + b) = c1" "char_of (0x80 + d) = c2" "char_of (0x80 + e) = c3"
    using assms by (auto simp: a_def b_def d_def e_def cont_byte_def second_ok_def split: if_splits)
  have lo: "0x10000 \<le> a * 262144 + b * 4096 + d * 64 + e" using b by (cases "a = 0") linarith+
  have hi: "a * 262144 + b * 4096 + d * 64 + e \<le> 0x10FFFF" using b by (cases "a = 4") linarith+
  have "EncodeRune (a * 262144 + b * 4096 + d * 64 + e) =
      [char_of (0xF0 + a), char_of (0x80 + b), char_of (0x80 + d), char_of (0x80 + e)]"
    using lo hi radix64(6-9) [OF b(1-3), of a] unfolding EncodeRune_def Let_def by simp
  then show ?thesis by (simp only: c flip: a_def b_def d_def e_def)
qed

lemma EncodeRune_DecodeRune:
  assumes "DecodeRune (c # s) = (r, w)" "\<not> (r = rune_error \<and> w = 1)"
  shows "EncodeRune r = take w (c # s)"
  using assms EncodeRune_2 EncodeRune_3 EncodeRune_4
  by (auto simp: Let_def EncodeRune_def [of "of_char c"] split: if_splits list.splits)

declare DecodeRune.simps(2) [simp del]

lemma hex_digit_literals: "hex_digit 0 = CHR ''0''" "hex_digit 2 = CHR ''2''"
  by code_simp+

lemma control_chars:
  "char_of (8::nat) = CHR 0x08" "char_of (12::nat) = CHR 0x0C" "char_of (10::nat) = CHR 0x0A"
  "char_of (13::nat) = CHR 0x0D" "char_of (9::nat) = CHR 0x09"
  by code_simp+

lemma unescape_u_plain: "\<not> (0xD800 \<le> rr \<and> rr \<le> 0xDFFF) \<Longrightarrow> unescape_u rr rest = (rr, 0)"
  by (auto simp: unescape_u_def)

lemma dec_string_u4:
  assumes "i < 16" "j < 16" "k < 16" "l < 16" "i * 4096 + j * 256 + k * 16 + l = rr"
    "\<not> (0xD800 \<le> rr \<and> rr \<le> 0xDFFF)"
  shows "dec_string (CHR 0x5C # CHR ''u'' # hex_digit i # hex_digit j # hex_digit k # hex_digit l # rest) =
    prepend (EncodeRune rr) (dec_string rest)"
  using assms by (simp add: dec_string.simps(2) getu4_def hex_value_digit unescape_u_plain)

lemma dec_string_simple:
  "simple_escape e = Some b \<Longrightarrow> dec_string (CHR 0x5C # e # t) = prepend [b] (dec_string t)"
  by (cases "e = CHR ''u''") (simp_all add: dec_string.simps(2) simple_escape_def)

lemma simple_escapes:
  "simple_escape (CHR ''b'') = Some (CHR 0x08)" "simple_escape (CHR ''f'') = Some (CHR 0x0C)"
  "simple_escape (CHR ''n'') = Some (CHR 0x0A)" "simple_escape (CHR ''r'') = Some (CHR 0x0D)"
  "simple_escape (CHR ''t'') = Some (CHR 0x09)"
  by (simp_all add: simple_escape_def)

lemma escape_controls:
  "escape_ascii (CHR 0x08) = [CHR 0x5C, CHR ''b'']" "escape_ascii (CHR 0x0C) = [CHR 0x5C, CHR ''f'']"
  "escape_ascii (CHR 0x0A) = [CHR 0x5C, CHR ''n'']" "escape_ascii (CHR 0x0D) = [CHR 0x5C, CHR ''r'']"
  "escape_ascii (CHR 0x09) = [CHR 0x5C, CHR ''t'']"
  by code_simp+

lemma dec_string_escape_ascii:
  assumes "(of_char c :: nat) < 0x80"
  shows "dec_string (escape_ascii c @ rest) = prepend [c] (dec_string rest)"
proof -
  let ?b = "of_char c :: nat"
  consider (q) "c = CHR 0x22 \<or> c = CHR 0x5C" | (s) "?b \<in> {8, 12, 10, 13, 9}"
    | (u) "c \<noteq> CHR 0x22" "c \<noteq> CHR 0x5C" "?b \<notin> {8, 12, 10, 13, 9}" "?b < 0x20 \<or> c \<in> set ''<>&''"
    | (p) "c \<noteq> CHR 0x22" "c \<noteq> CHR 0x5C" "?b \<notin> {8, 12, 10, 13, 9}" "\<not> (?b < 0x20 \<or> c \<in> set ''<>&'')"
    by blast
  then show ?thesis
  proof cases
    case q
    then show ?thesis
      by (auto simp: escape_ascii_def Let_def dec_string.simps(2) simple_escape_def)
  next
    case s
    then have "char_of ?b \<in> char_of ` {8::nat, 12, 10, 13, 9}" by (rule imageI)
    then have "c \<in> {CHR 0x08, CHR 0x0C, CHR 0x0A, CHR 0x0D, CHR 0x09}"
      by (simp only: char_of_char image_insert image_empty control_chars)
    then show ?thesis
      by (elim insertE emptyE; simp only: escape_controls append_Cons append_Nil dec_string_simple simple_escapes)
  next
    case u
    then have e: "escape_ascii c =
        [CHR 0x5C, CHR ''u'', hex_digit 0, hex_digit 0, hex_digit (?b div 16), hex_digit (?b mod 16)]"
      by (auto simp: escape_ascii_def Let_def hex_digit_literals)
    have "EncodeRune ?b = [c]" using assms by (simp add: EncodeRune_def Let_def)
    with dec_string_u4 [of 0 0 "?b div 16" "?b mod 16" ?b rest] assms
    show ?thesis by (simp add: e less_mult_imp_div_less)
  next
    case p
    then have "escape_ascii c = [c]" by (simp add: escape_ascii_def Let_def)
    with p assms show ?thesis by (simp add: dec_string.simps(2))
  qed
qed

lemma DecodeRune_ascii: "(of_char c :: nat) < 0x80 \<Longrightarrow> DecodeRune (c # s) = (of_char c, 1)"
  by (simp add: DecodeRune.simps(2))

lemma dec_string_rune:
  assumes "DecodeRune (c # s) = (r, w)" "\<not> (r = rune_error \<and> w = 1)" "\<not> (of_char c :: nat) < 0x80"
  shows "dec_string (take w (c # s) @ rest) = prepend (take w (c # s)) (dec_string rest)"
proof -
  have w: "1 \<le> w" "w \<le> length (c # s)" using DecodeRune_width [OF assms(1)] by auto
  then obtain t where t: "take w (c # s) = c # t" "length t = w - 1"
    by (cases w) auto
  have d: "DecodeRune (c # t @ rest) = (r, w)"
    using DecodeRune_take [OF assms(1,2), of rest] t by simp
  have "c \<noteq> CHR 0x22" "c \<noteq> CHR 0x5C" using assms(3) by auto
  then have "dec_string (c # t @ rest) = prepend (take w (c # t @ rest)) (dec_string (drop (w - 1) (t @ rest)))"
    using assms(2,3) by (auto simp: dec_string.simps(2) d)
  with t w show ?thesis by (cases w) simp_all
qed

lemma dec_string_line_separator:
  "r = 0x2028 \<or> r = 0x2029 \<Longrightarrow>
     dec_string (CHR 0x5C # ''u202'' @ hex_digit (r mod 16) # rest) = prepend (EncodeRune r) (dec_string rest)"
  using dec_string_u4 [of 2 0 2 "r mod 16" r rest] by (auto simp: hex_digit_literals)

text \<open>What a string becomes by being written and read: a malformed byte turns into U+FFFD.\<close>

fun sanitize :: "bytes \<Rightarrow> bytes" where
  "sanitize [] = []"
| "sanitize (c # s) =
     (case DecodeRune (c # s) of (r, w) \<Rightarrow>
        if r = rune_error \<and> w = 1 then EncodeRune rune_error @ sanitize s
        else take w (c # s) @ sanitize (drop (w - 1) s))"

declare sanitize.simps(2) [simp del]

lemma dec_string_replacement:
  "dec_string (CHR 0x5C # ''ufffd'' @ rest) = prepend (EncodeRune rune_error) (dec_string rest)"
proof -
  have "hex_digit 15 = CHR ''f''" "hex_digit 13 = CHR ''d''" by code_simp+
  with dec_string_u4 [of 15 15 15 13 rune_error rest] show ?thesis by (simp add: rune_error_def)
qed

lemma dec_string_enc_runes:
  "dec_string (enc_runes s @ CHR 0x22 # rest) = Some (sanitize s, rest)"
proof (induction s rule: sanitize.induct)
  case 1
  then show ?case by (simp add: dec_string.simps(2))
next
  case (2 c s)
  obtain r w where rw: "DecodeRune (c # s) = (r, w)" by fastforce
  show ?case
  proof (cases "r = rune_error \<and> w = 1")
    case bad: True
    then have "\<not> (of_char c :: nat) < 0x80" using rw by (auto simp: DecodeRune_ascii rune_error_def)
    with 2(1) [OF rw [symmetric] bad] bad rw show ?thesis
      using dec_string_replacement [of "enc_runes s @ CHR 0x22 # rest"]
      by (simp add: enc_runes.simps(2) sanitize.simps(2))
  next
    case ok: False
    have IH: "dec_string (enc_runes (drop (w - 1) s) @ CHR 0x22 # rest) = Some (sanitize (drop (w - 1) s), rest)"
      using 2(2) [OF rw [symmetric] ok] .
    have san: "sanitize (c # s) = take w (c # s) @ sanitize (drop (w - 1) s)"
      using rw ok by (auto simp: sanitize.simps(2))
    consider (ascii) "(of_char c :: nat) < 0x80" | (sep) "\<not> (of_char c :: nat) < 0x80" "r = 0x2028 \<or> r = 0x2029"
      | (rune) "\<not> (of_char c :: nat) < 0x80" "\<not> (r = 0x2028 \<or> r = 0x2029)" by blast
    then show ?thesis
    proof cases
      case ascii
      with rw have "w = 1" by (simp add: DecodeRune_ascii)
      with IH ascii san show ?thesis
        by (simp add: enc_runes.simps(2) dec_string_escape_ascii)
    next
      case sep
      then have "dec_string (enc_runes (c # s) @ CHR 0x22 # rest) =
          prepend (EncodeRune r) (Some (sanitize (drop (w - 1) s), rest))"
        using rw IH dec_string_line_separator [OF sep(2)]
        by (auto simp: enc_runes.simps(2) rune_error_def)
      with EncodeRune_DecodeRune [OF rw ok] san show ?thesis by simp
    next
      case rune
      then show ?thesis
        using rw ok IH dec_string_rune [OF rw ok] san by (auto simp: enc_runes.simps(2))
    qed
  qed
qed

lemma sanitize_valid: "valid_utf8 s \<Longrightarrow> sanitize s = s"
proof (induction s rule: valid_utf8.induct)
  case (2 c s)
  obtain r w where rw: "DecodeRune (c # s) = (r, w)" by fastforce
  with 2(2) have ok: "\<not> (r = rune_error \<and> w = 1)" "valid_utf8 (drop (w - 1) s)"
    by (auto simp: valid_utf8.simps(2))
  have "take w (c # s) @ drop (w - 1) s = c # s"
    using DecodeRune_width [OF rw] by (cases w) auto
  with 2(1) [OF rw [symmetric] ok(2)] rw ok(1) show ?case by (auto simp: sanitize.simps(2))
qed simp

text \<open>Whatever code point is written, reading it back gives a well-formed sequence.\<close>

lemma DecodeRune_EncodeRune:
  "\<exists>r' w. DecodeRune (EncodeRune r @ t) = (r', w) \<and> w = length (EncodeRune r) \<and> \<not> (r' = rune_error \<and> w = 1)"
proof -
  define q where "q = (if 0xD800 \<le> r \<and> r \<le> 0xDFFF \<or> 0x10FFFF < r then rune_error else r)"
  have q: "q \<le> 0x10FFFF" "\<not> (0xD800 \<le> q \<and> q \<le> 0xDFFF)" by (auto simp: q_def rune_error_def)
  have e: "EncodeRune r = (if q < 0x80 then [char_of q]
      else if q < 0x800 then [char_of (0xC0 + q div 64), char_of (0x80 + q mod 64)]
      else if q < 0x10000 then
        [char_of (0xE0 + q div 4096), char_of (0x80 + q div 64 mod 64), char_of (0x80 + q mod 64)]
      else
        [char_of (0xF0 + q div 262144), char_of (0x80 + q div 4096 mod 64),
         char_of (0x80 + q div 64 mod 64), char_of (0x80 + q mod 64)])"
    by (simp add: EncodeRune_def q_def Let_def)
  consider "q < 0x80" | "0x80 \<le> q" "q < 0x800" | "0x800 \<le> q" "q < 0x10000" | "0x10000 \<le> q" by linarith
  then show ?thesis
  proof cases
    case 1
    then show ?thesis unfolding e by (simp add: DecodeRune.simps(2) rune_error_def Let_def)
  next
    case 2
    have "2 \<le> q div 64" "q div 64 < 32" "q mod 64 < 64" using 2 by (auto simp: less_mult_imp_div_less)
    then show ?thesis using 2 unfolding e
      by (simp add: DecodeRune.simps(2) Let_def cont_byte_def)
  next
    case 3
    have b: "q div 4096 < 16" "q mod 64 < 64" "q div 64 mod 64 < 64"
      using 3 by (auto simp: less_mult_imp_div_less)
    have n: "q = q div 4096 * 4096 + q div 64 mod 64 * 64 + q mod 64" by (rule split64(2) [symmetric])
    have lo: "q div 4096 = 0 \<Longrightarrow> 32 \<le> q div 64 mod 64" using n b 3 by linarith
    have hi: "q div 4096 = 13 \<Longrightarrow> q div 64 mod 64 < 32" using n b q(2) by linarith
    show ?thesis using 3 b lo hi unfolding e
      by (auto simp: DecodeRune.simps(2) Let_def cont_byte_def second_ok_def)
  next
    case 4
    have b: "q div 262144 \<le> 4" "q mod 64 < 64" "q div 64 mod 64 < 64" "q div 4096 mod 64 < 64"
      using q(1) by auto
    have n: "q = q div 262144 * 262144 + q div 4096 mod 64 * 4096 + q div 64 mod 64 * 64 + q mod 64"
      by (rule split64(3) [symmetric])
    have lo: "q div 262144 = 0 \<Longrightarrow> 16 \<le> q div 4096 mod 64" using n b 4 by linarith
    have hi: "q div 262144 = 4 \<Longrightarrow> q div 4096 mod 64 < 16" using n b q(1) by linarith
    show ?thesis using 4 b lo hi unfolding e
      by (auto simp: DecodeRune.simps(2) Let_def cont_byte_def second_ok_def)
  qed
qed

lemma EncodeRune_nonempty: "EncodeRune r \<noteq> []"
  by (simp add: EncodeRune_def Let_def)

lemma valid_utf8_EncodeRune: "valid_utf8 (EncodeRune r @ t) \<longleftrightarrow> valid_utf8 t"
proof -
  obtain c u where c: "EncodeRune r = c # u" using EncodeRune_nonempty by (cases "EncodeRune r") auto
  with DecodeRune_EncodeRune [of r t] obtain r' w where
    "DecodeRune (c # u @ t) = (r', w)" "w = Suc (length u)" "\<not> (r' = rune_error \<and> w = 1)" by auto
  then show ?thesis by (auto simp: c valid_utf8.simps(2))
qed

lemma valid_utf8_rune:
  assumes "DecodeRune (c # s) = (r, w)" "\<not> (r = rune_error \<and> w = 1)"
  shows "valid_utf8 (take w (c # s) @ t) \<longleftrightarrow> valid_utf8 t"
  using EncodeRune_DecodeRune [OF assms] valid_utf8_EncodeRune [of r t] by simp

lemma valid_utf8_sanitize: "valid_utf8 (sanitize s)"
proof (induction s rule: sanitize.induct)
  case (2 c s)
  obtain r w where rw: "DecodeRune (c # s) = (r, w)" by fastforce
  show ?case
  proof (cases "r = rune_error \<and> w = 1")
    case True
    with 2(1) [OF rw [symmetric] True] rw show ?thesis
      by (simp add: sanitize.simps(2) valid_utf8_EncodeRune)
  next
    case False
    with 2(2) [OF rw [symmetric] False] rw valid_utf8_rune [OF rw False] show ?thesis
      by (auto simp: sanitize.simps(2))
  qed
qed simp

lemma valid_utf8_ascii: "is_ascii s \<Longrightarrow> valid_utf8 s"
  by (induction s) (simp_all add: valid_utf8.simps(2) DecodeRune_ascii rune_error_def)

lemma sanitize_ascii: "is_ascii s \<Longrightarrow> sanitize s = s"
  by (simp add: sanitize_valid valid_utf8_ascii)

subsection \<open>Values\<close>

datatype json =
    JNull
  | JBool bool
  | JNum bytes
  | JStr bytes
  | JArr "json list"
  | JObj "(bytes \<times> json) list"

fun enc_json :: "json \<Rightarrow> bytes"
  and enc_elems :: "json list \<Rightarrow> bytes"
  and enc_members :: "(bytes \<times> json) list \<Rightarrow> bytes" where
  "enc_json JNull = ''null''"
| "enc_json (JBool b) = (if b then ''true'' else ''false'')"
| "enc_json (JNum s) = s"
| "enc_json (JStr s) = enc_string s"
| "enc_json (JArr xs) = CHR ''['' # enc_elems xs @ '']''"
| "enc_json (JObj ms) = CHR ''{'' # enc_members ms @ ''}''"
| "enc_elems [] = []"
| "enc_elems (x # xs) = enc_json x @ (if xs = [] then [] else CHR '','' # enc_elems xs)"
| "enc_members [] = []"
| "enc_members ((k, v) # ms) =
     enc_string k @ CHR '':'' # enc_json v @ (if ms = [] then [] else CHR '','' # enc_members ms)"

definition is_ws :: "char \<Rightarrow> bool" where
  "is_ws c \<longleftrightarrow> c = CHR '' '' \<or> c = CHR 0x09 \<or> c = CHR 0x0A \<or> c = CHR 0x0D"

definition skip_ws :: "bytes \<Rightarrow> bytes" where
  "skip_ws s = dropWhile is_ws s"

text \<open>The text after the given byte, blanks before it skipped.\<close>

definition expect :: "char \<Rightarrow> bytes \<Rightarrow> bytes option" where
  "expect c s = (case skip_ws s of [] \<Rightarrow> None | d # t \<Rightarrow> if d = c then Some t else None)"

text \<open>Number literals.\<close>

definition digits1 :: "bytes \<Rightarrow> (bytes \<times> bytes) option" where
  "digits1 s = (if takeWhile is_digit s = [] then None else Some (takeWhile is_digit s, dropWhile is_digit s))"

definition int_part :: "bytes \<Rightarrow> (bytes \<times> bytes) option" where
  "int_part s = (if take 1 s = ''0'' then Some (''0'', drop 1 s) else digits1 s)"

definition frac_part :: "bytes \<Rightarrow> (bytes \<times> bytes) option" where
  "frac_part s = (if take 1 s = ''.'' then prepend ''.'' (digits1 (drop 1 s)) else Some ([], s))"

definition exp_part :: "bytes \<Rightarrow> (bytes \<times> bytes) option" where
  "exp_part s =
     (if take 1 s = ''e'' \<or> take 1 s = ''E'' then
        (let t = drop 1 s in
         if take 1 t = ''+'' \<or> take 1 t = ''-'' then prepend (take 2 s) (digits1 (drop 1 t))
         else prepend (take 1 s) (digits1 t))
      else Some ([], s))"

definition bind_text :: "(bytes \<times> bytes) option \<Rightarrow> (bytes \<Rightarrow> (bytes \<times> bytes) option) \<Rightarrow> (bytes \<times> bytes) option" where
  "bind_text r f = (case r of None \<Rightarrow> None | Some (d, rest) \<Rightarrow> prepend d (f rest))"

definition parse_number :: "bytes \<Rightarrow> (bytes \<times> bytes) option" where
  "parse_number s =
     bind_text (if take 1 s = ''-'' then Some (''-'', drop 1 s) else Some ([], s)) (\<lambda>s1.
     bind_text (int_part s1) (\<lambda>s2. bind_text (frac_part s2) exp_part))"

definition literal :: "bytes \<Rightarrow> json \<Rightarrow> bytes \<Rightarrow> (json \<times> bytes) option" where
  "literal word v s = (if HasPrefix s word then Some (v, drop (length word) s) else None)"

fun parse_value :: "nat \<Rightarrow> bytes \<Rightarrow> (json \<times> bytes) option"
  and parse_elems :: "nat \<Rightarrow> bytes \<Rightarrow> (json list \<times> bytes) option"
  and parse_members :: "nat \<Rightarrow> bytes \<Rightarrow> ((bytes \<times> json) list \<times> bytes) option" where
  "parse_value 0 s = None"
| "parse_value (Suc n) s =
     (case skip_ws s of
        [] \<Rightarrow> None
      | c # t \<Rightarrow>
          if c = CHR ''{'' then
            (case expect (CHR ''}'') t of
               Some r \<Rightarrow> Some (JObj [], r)
             | None \<Rightarrow> map_option (\<lambda>(ms, r). (JObj ms, r)) (parse_members n t))
          else if c = CHR ''['' then
            (case expect (CHR '']'') t of
               Some r \<Rightarrow> Some (JArr [], r)
             | None \<Rightarrow> map_option (\<lambda>(xs, r). (JArr xs, r)) (parse_elems n t))
          else if c = CHR 0x22 then map_option (\<lambda>(d, r). (JStr d, r)) (dec_string t)
          else if c = CHR ''t'' then literal ''true'' (JBool True) (c # t)
          else if c = CHR ''f'' then literal ''false'' (JBool False) (c # t)
          else if c = CHR ''n'' then literal ''null'' JNull (c # t)
          else map_option (\<lambda>(d, r). (JNum d, r)) (parse_number (c # t)))"
| "parse_elems 0 s = None"
| "parse_elems (Suc n) s =
     (case parse_value n s of
        None \<Rightarrow> None
      | Some (v, r) \<Rightarrow>
          (case expect (CHR '','') r of
             Some r' \<Rightarrow> map_option (\<lambda>(vs, r''). (v # vs, r'')) (parse_elems n r')
           | None \<Rightarrow> (case expect (CHR '']'') r of Some r' \<Rightarrow> Some ([v], r') | None \<Rightarrow> None)))"
| "parse_members 0 s = None"
| "parse_members (Suc n) s =
     (case expect (CHR 0x22) s of
        None \<Rightarrow> None
      | Some t \<Rightarrow>
          (case dec_string t of
             None \<Rightarrow> None
           | Some (k, r) \<Rightarrow>
               (case expect (CHR '':'') r of
                  None \<Rightarrow> None
                | Some r1 \<Rightarrow>
                    (case parse_value n r1 of
                       None \<Rightarrow> None
                     | Some (v, r2) \<Rightarrow>
                         (case expect (CHR '','') r2 of
                            Some r3 \<Rightarrow> map_option (\<lambda>(ms, r'). ((k, v) # ms, r')) (parse_members n r3)
                          | None \<Rightarrow> (case expect (CHR ''}'') r2 of Some r3 \<Rightarrow> Some ([(k, v)], r3) | None \<Rightarrow> None))))))"

text \<open>\<open>Unmarshal\<close> wants the whole text to be one value; \<open>Decoder.Decode\<close> reads the first value.\<close>

definition parse_json :: "bytes \<Rightarrow> json option" where
  "parse_json s =
     (case parse_value (Suc (length s)) s of
        None \<Rightarrow> None
      | Some (v, r) \<Rightarrow> if skip_ws r = [] then Some v else None)"

definition parse_first :: "bytes \<Rightarrow> json option" where
  "parse_first s = map_option fst (parse_value (Suc (length s)) s)"

subsection \<open>The fuel is enough\<close>

lemma length_skip_ws: "length (skip_ws s) \<le> length s"
  by (simp add: skip_ws_def length_dropWhile_le)

lemma expect_shorter: "expect c s = Some t \<Longrightarrow> length t < length s"
  using length_skip_ws [of s] by (auto simp: expect_def split: list.splits if_splits)

lemma prepend_Some: "prepend b r = Some (d, rest) \<Longrightarrow> \<exists>d'. r = Some (d', rest) \<and> d = b @ d'"
  by (auto simp: prepend_def)

lemma valid_utf8_ascii_Cons: "(of_char c :: nat) < 0x80 \<Longrightarrow> valid_utf8 (c # t) \<longleftrightarrow> valid_utf8 t"
  by (simp add: valid_utf8.simps(2) DecodeRune_ascii rune_error_def)

lemma simple_escape_ascii: "simple_escape e = Some b \<Longrightarrow> (of_char b :: nat) < 0x80"
  by (auto simp: simple_escape_def split: if_splits)

text \<open>Reading a string goes on at a later place, having read a well-formed piece.\<close>

definition later :: "bytes \<Rightarrow> bytes \<Rightarrow> bytes \<Rightarrow> bool" where
  "later s d r \<longleftrightarrow> (\<exists>k d' b. dec_string (drop k s) = Some (d', r) \<and> d = b @ d' \<and> (valid_utf8 d' \<longrightarrow> valid_utf8 d))"

lemma laterI:
  "prepend b (dec_string (drop k s)) = Some (d, r) \<Longrightarrow> (\<And>t. valid_utf8 (b @ t) \<longleftrightarrow> valid_utf8 t) \<Longrightarrow> later s d r"
  unfolding later_def by (auto dest!: prepend_Some intro!: exI [of _ k])

lemma later_Cons: "later t d r \<Longrightarrow> later (e # t) d r"
  unfolding later_def by (metis drop_Suc_Cons)

lemma dec_string_tail:
  assumes "dec_string (c # s) = Some (d, r)"
  shows "(d = [] \<and> r = s) \<or> later s d r"
proof -
  obtain ru w where rw: "DecodeRune (c # s) = (ru, w)" by fastforce
  consider "c = CHR 0x22" | (esc) "c = CHR 0x5C" | (raw) "c \<noteq> CHR 0x22" "c \<noteq> CHR 0x5C" by blast
  then show ?thesis
  proof cases
    case esc
    with assms obtain e t where s: "s = e # t" by (cases s) (auto simp: dec_string.simps(2))
    have "later t d r"
    proof (cases "e = CHR ''u''")
      case True
      with esc s assms obtain ru' k where "prepend (EncodeRune ru') (dec_string (drop k t)) = Some (d, r)"
        by (auto simp: dec_string.simps(2) split: option.splits prod.splits)
      then show ?thesis by (rule laterI) (simp add: valid_utf8_EncodeRune)
    next
      case False
      with esc s assms obtain b where b: "simple_escape e = Some b" "prepend [b] (dec_string (drop 0 t)) = Some (d, r)"
        by (auto simp: dec_string.simps(2) split: option.splits)
      from b(2) show ?thesis
        by (rule laterI) (simp add: valid_utf8_ascii_Cons [OF simple_escape_ascii [OF b(1)]])
    qed
    then show ?thesis using s later_Cons by blast
  next
    case raw
    consider (a) "(of_char c :: nat) < 0x80" | (e) "\<not> (of_char c :: nat) < 0x80" "ru = rune_error \<and> w = 1"
      | (m) "\<not> (of_char c :: nat) < 0x80" "\<not> (ru = rune_error \<and> w = 1)" by blast
    then have "later s d r"
    proof cases
      case a
      with raw assms have "prepend [c] (dec_string (drop 0 s)) = Some (d, r)"
        by (auto simp: dec_string.simps(2) split: if_splits)
      then show ?thesis by (rule laterI) (simp add: valid_utf8_ascii_Cons a)
    next
      case e
      with raw rw assms have "prepend (EncodeRune rune_error) (dec_string (drop 0 s)) = Some (d, r)"
        by (auto simp: dec_string.simps(2) split: if_splits)
      then show ?thesis by (rule laterI) (simp add: valid_utf8_EncodeRune)
    next
      case m
      with raw rw assms have "prepend (take w (c # s)) (dec_string (drop (w - 1) s)) = Some (d, r)"
        by (auto simp: dec_string.simps(2) split: if_splits)
      then show ?thesis by (rule laterI) (rule valid_utf8_rune [OF rw m(2)])
    qed
    then show ?thesis ..
  qed (use assms in \<open>auto simp: dec_string.simps(2)\<close>)
qed

lemma dec_string_ok: "dec_string s = Some (d, r) \<Longrightarrow> length r < length s \<and> valid_utf8 d"
proof (induction "length s" arbitrary: s d rule: less_induct)
  case less
  then obtain c t where s: "s = c # t" by (cases s) auto
  show ?case
  proof (cases "d = [] \<and> r = t")
    case False
    then obtain k d' b where "dec_string (drop k t) = Some (d', r)" "valid_utf8 d' \<longrightarrow> valid_utf8 d"
      using dec_string_tail less(2) s unfolding later_def by blast
    with less(1) [of "drop k t" d'] s show ?thesis by (simp, linarith)
  qed (simp add: s)
qed

lemma dec_string_shorter: "dec_string s = Some (d, r) \<Longrightarrow> length r < length s"
  by (simp add: dec_string_ok)

lemma bind_text_Some:
  "bind_text x f = Some (d, r) \<Longrightarrow> \<exists>d1 r1 d2. x = Some (d1, r1) \<and> f r1 = Some (d2, r)"
  by (auto simp: bind_text_def split: option.splits dest!: prepend_Some)

lemma digits1_shorter: "digits1 s = Some (d, r) \<Longrightarrow> length r < length s"
proof -
  assume "digits1 s = Some (d, r)"
  then have "takeWhile is_digit s \<noteq> []" "r = dropWhile is_digit s"
    by (auto simp: digits1_def split: if_splits)
  moreover have "length s = length (takeWhile is_digit s) + length (dropWhile is_digit s)"
    by (metis length_append takeWhile_dropWhile_id)
  ultimately show ?thesis by simp
qed

lemma parse_number_shorter: "parse_number s = Some (d, r) \<Longrightarrow> length r < length s"
proof -
  assume "parse_number s = Some (d, r)"
  moreover define s1 where "s1 = (if take 1 s = ''-'' then drop 1 s else s)"
  ultimately obtain d2 s2 d3 s3 d4 where 2: "int_part s1 = Some (d2, s2)"
    and 3: "frac_part s2 = Some (d3, s3)" and 4: "exp_part s3 = Some (d4, r)"
    unfolding parse_number_def
    by (cases "take 1 s = ''-''") (fastforce dest!: bind_text_Some)+
  have 1: "length s1 \<le> length s" by (simp add: s1_def)
  have "length s2 < length s1"
    using 2 by (cases s1) (auto simp: int_part_def split: if_splits dest: digits1_shorter)
  moreover have "length s3 \<le> length s2"
    using 3 by (auto simp: frac_part_def split: if_splits dest!: prepend_Some digits1_shorter)
  moreover have "length r \<le> length s3"
    using 4 by (auto simp: exp_part_def Let_def split: if_splits dest!: prepend_Some digits1_shorter)
  ultimately show ?thesis using 1 by linarith
qed

lemma literal_shorter: "literal word v s = Some (x, r) \<Longrightarrow> word \<noteq> [] \<Longrightarrow> length r < length s"
  by (auto simp: literal_def HasPrefix_iff split: if_splits)

definition enough :: "(nat \<Rightarrow> bytes \<Rightarrow> ('a \<times> bytes) option) \<Rightarrow> nat \<Rightarrow> bool" where
  "enough p n \<longleftrightarrow> (\<forall>s v r. p n s = Some (v, r) \<longrightarrow>
     length r < length s \<and> (\<forall>m. length s - length r \<le> m \<longrightarrow> p m s = Some (v, r)))"

lemma enoughD:
  assumes "enough p n" "p n s = Some (v, r)"
  shows "length r < length s" "length s - length r \<le> m \<Longrightarrow> p m s = Some (v, r)"
  using assms unfolding enough_def by blast+

lemma enough_elems:
  assumes "enough parse_value n" "enough parse_elems n"
  shows "enough parse_elems (Suc n)"
  unfolding enough_def
proof (intro allI impI)
  fix s vs r assume p: "parse_elems (Suc n) s = Some (vs, r)"
  then obtain v r1 where v: "parse_value n s = Some (v, r1)" by (auto split: option.splits)
  note lv = enoughD [OF assms(1) v]
  show "length r < length s \<and> (\<forall>m. length s - length r \<le> m \<longrightarrow> parse_elems m s = Some (vs, r))"
  proof (cases "expect (CHR '','') r1")
    case None
    with p v obtain r2 where e: "expect (CHR '']'') r1 = Some r2" "vs = [v]" "r = r2"
      by (auto split: option.splits)
    have l: "length r < length r1" using expect_shorter [OF e(1)] e by simp
    show ?thesis
    proof (intro conjI allI impI)
      show "length r < length s" using l lv(1) by simp
      fix m assume "length s - length r \<le> m"
      with l lv(1) obtain m' where "m = Suc m'" "length s - length r1 \<le> m'" by (cases m) auto
      with lv(2) None e show "parse_elems m s = Some (vs, r)" by simp
    qed
  next
    case (Some r2)
    with p v obtain vs' where e: "parse_elems n r2 = Some (vs', r)" "vs = v # vs'" by auto
    note le = enoughD [OF assms(2) e(1)]
    have l: "length r2 < length r1" using expect_shorter [OF Some] .
    show ?thesis
    proof (intro conjI allI impI)
      show "length r < length s" using l lv(1) le(1) by simp
      fix m assume "length s - length r \<le> m"
      with l lv(1) le(1) obtain m' where "m = Suc m'" "length s - length r1 \<le> m'" "length r2 - length r \<le> m'"
        by (cases m) auto
      with lv(2) le(2) Some e show "parse_elems m s = Some (vs, r)" by simp
    qed
  qed
qed

lemma enough_members:
  assumes "enough parse_value n" "enough parse_members n"
  shows "enough parse_members (Suc n)"
  unfolding enough_def
proof (intro allI impI)
  fix s vs r assume p: "parse_members (Suc n) s = Some (vs, r)"
  then obtain t k r0 r00 v r1 where k: "expect (CHR 0x22) s = Some t" "dec_string t = Some (k, r0)"
    "expect (CHR '':'') r0 = Some r00" and v: "parse_value n r00 = Some (v, r1)"
    by (auto split: option.splits)
  note lv = enoughD [OF assms(1) v]
  have lk: "length r00 < length s"
    using k by (auto dest!: expect_shorter dec_string_shorter)
  show "length r < length s \<and> (\<forall>m. length s - length r \<le> m \<longrightarrow> parse_members m s = Some (vs, r))"
  proof (cases "expect (CHR '','') r1")
    case None
    with p k v obtain r2 where e: "expect (CHR ''}'') r1 = Some r2" "vs = [(k, v)]" "r = r2"
      by (auto split: option.splits)
    have l: "length r < length r1" using expect_shorter [OF e(1)] e by simp
    show ?thesis
    proof (intro conjI allI impI)
      show "length r < length s" using l lv(1) lk by simp
      fix m assume "length s - length r \<le> m"
      with l lv(1) lk obtain m' where "m = Suc m'" "length r00 - length r1 \<le> m'" by (cases m) auto
      with lv(2) None k e show "parse_members m s = Some (vs, r)" by simp
    qed
  next
    case (Some r2)
    with p k v obtain vs' where e: "parse_members n r2 = Some (vs', r)" "vs = (k, v) # vs'" by auto
    note le = enoughD [OF assms(2) e(1)]
    have l: "length r2 < length r1" using expect_shorter [OF Some] .
    show ?thesis
    proof (intro conjI allI impI)
      show "length r < length s" using l lv(1) le(1) lk by simp
      fix m assume "length s - length r \<le> m"
      with l lv(1) le(1) lk obtain m' where "m = Suc m'" "length r00 - length r1 \<le> m'" "length r2 - length r \<le> m'"
        by (cases m) auto
      with lv(2) le(2) Some k e show "parse_members m s = Some (vs, r)" by simp
    qed
  qed
qed

lemma enough_value:
  assumes "enough parse_elems n" "enough parse_members n"
  shows "enough parse_value (Suc n)"
  unfolding enough_def
proof (intro allI impI)
  fix s v r assume p: "parse_value (Suc n) s = Some (v, r)"
  then obtain c t where ct: "skip_ws s = c # t" by (auto split: list.splits)
  have t: "length t < length s" using length_skip_ws [of s] ct by simp
  show "length r < length s \<and> (\<forall>m. length s - length r \<le> m \<longrightarrow> parse_value m s = Some (v, r))"
  proof (intro conjI allI impI)
    have r: "length r < length s"
      using p ct t length_skip_ws [of s] assms
      by (auto split: if_splits option.splits
          dest!: expect_shorter dec_string_shorter parse_number_shorter literal_shorter
          enoughD(1) [OF assms(1)] enoughD(1) [OF assms(2)])
    then show "length r < length s" .
    fix m assume "length s - length r \<le> m"
    with r obtain m' where m: "m = Suc m'" "length s - length r \<le> Suc m'" by (cases m) auto
    have "length t - length r \<le> m'" using m(2) t by linarith
    then have e: "parse_elems n t = Some (xs, r) \<Longrightarrow> parse_elems m' t = Some (xs, r)" for xs
      using enoughD(2) [OF assms(1)] by blast
    have b: "parse_members n t = Some (ms, r) \<Longrightarrow> parse_members m' t = Some (ms, r)" for ms
      using enoughD(2) [OF assms(2)] \<open>length t - length r \<le> m'\<close> by blast
    show "parse_value m s = Some (v, r)"
      using p ct m e b by (auto split: if_splits option.splits)
  qed
qed

lemma parse_enough: "enough parse_value n \<and> enough parse_elems n \<and> enough parse_members n"
proof (induction n)
  case 0
  show ?case by (simp add: enough_def)
next
  case (Suc n)
  then show ?case using enough_value enough_elems enough_members by blast
qed

text \<open>The length of a text is enough fuel to parse any value at its beginning.\<close>

lemma parse_value_enough:
  "parse_value n s = Some (v, r) \<Longrightarrow> length s \<le> m \<Longrightarrow> parse_value m s = Some (v, r)"
  using enoughD(2) [of parse_value n s v r m] parse_enough [of n] by auto

subsection \<open>Round trip\<close>

text \<open>A decimal integer literal as \<open>strconv.AppendInt\<close> and \<open>AppendUint\<close> write it.\<close>

definition int_literal :: "bytes \<Rightarrow> bool" where
  "int_literal s \<longleftrightarrow>
     (let b = (if take 1 s = ''-'' then drop 1 s else s) in
      b \<noteq> [] \<and> list_all is_digit b \<and> (hd b = CHR ''0'' \<longrightarrow> length b = 1))"

text \<open>Every number is an integer literal.\<close>

fun wf_json :: "json \<Rightarrow> bool"
  and wf_elems :: "json list \<Rightarrow> bool"
  and wf_members :: "(bytes \<times> json) list \<Rightarrow> bool" where
  "wf_json JNull = True"
| "wf_json (JBool b) = True"
| "wf_json (JNum s) = int_literal s"
| "wf_json (JStr s) = True"
| "wf_json (JArr xs) = wf_elems xs"
| "wf_json (JObj ms) = wf_members ms"
| "wf_elems [] = True"
| "wf_elems (x # xs) = (wf_json x \<and> wf_elems xs)"
| "wf_members [] = True"
| "wf_members ((k, v) # ms) = (wf_json v \<and> wf_members ms)"

text \<open>The tree with all its strings sanitised: what reading the text gives back.\<close>

fun clean_json :: "json \<Rightarrow> json"
  and clean_elems :: "json list \<Rightarrow> json list"
  and clean_members :: "(bytes \<times> json) list \<Rightarrow> (bytes \<times> json) list" where
  "clean_json JNull = JNull"
| "clean_json (JBool b) = JBool b"
| "clean_json (JNum s) = JNum s"
| "clean_json (JStr s) = JStr (sanitize s)"
| "clean_json (JArr xs) = JArr (clean_elems xs)"
| "clean_json (JObj ms) = JObj (clean_members ms)"
| "clean_elems [] = []"
| "clean_elems (x # xs) = clean_json x # clean_elems xs"
| "clean_members [] = []"
| "clean_members ((k, v) # ms) = (sanitize k, clean_json v) # clean_members ms"

text \<open>What may follow a number without continuing it.\<close>

definition stops :: "bytes \<Rightarrow> bool" where
  "stops r \<longleftrightarrow> r = [] \<or> \<not> is_digit (hd r) \<and> hd r \<notin> set ''.eE''"

lemma digits1_stops: "list_all is_digit d \<Longrightarrow> d \<noteq> [] \<Longrightarrow> stops r \<Longrightarrow> digits1 (d @ r) = Some (d, r)"
proof -
  assume d: "list_all is_digit d" "d \<noteq> []" "stops r"
  have "takeWhile is_digit r = []" "dropWhile is_digit r = r"
    using d(3) by (cases r; auto simp: stops_def)+
  then have "takeWhile is_digit (d @ r) = d" "dropWhile is_digit (d @ r) = r"
    using d(1) by (simp_all add: list_all_iff)
  with d(2) show ?thesis by (simp add: digits1_def)
qed

lemma parse_number_literal:
  assumes "int_literal s" "stops r"
  shows "parse_number (s @ r) = Some (s, r)"
proof -
  define b where "b = (if take 1 s = ''-'' then drop 1 s else s)"
  have b: "b \<noteq> []" "list_all is_digit b" "hd b = CHR ''0'' \<longrightarrow> length b = 1"
    using assms(1) by (auto simp: int_literal_def b_def Let_def split: if_splits)
  have s: "s = (if take 1 s = ''-'' then ''-'' else []) @ b"
    by (cases s) (auto simp: b_def)
  have i: "int_part (b @ r) = Some (b, r)"
    using b digits1_stops [OF b(2,1) assms(2)] by (cases b) (auto simp: int_part_def)
  have f: "frac_part r = Some ([], r)" "exp_part r = Some ([], r)"
    using assms(2) by (cases r; auto simp: frac_part_def exp_part_def stops_def)+
  have m: "take 1 (b @ r) \<noteq> ''-''" using b by (cases b) (auto simp: is_digit_def)
  show ?thesis
  proof (cases "take 1 s = ''-''")
    case True
    then have "s @ r = CHR ''-'' # b @ r" by (subst s) simp
    moreover have "s = CHR ''-'' # b" using True by (subst s) simp
    ultimately show ?thesis by (simp add: parse_number_def bind_text_def i f)
  next
    case False
    then have "s = b" by (simp add: b_def)
    with m show ?thesis by (simp add: parse_number_def bind_text_def i f)
  qed
qed

lemma expect_hit: "\<not> is_ws c \<Longrightarrow> expect c (c # t) = Some t"
  by (simp add: expect_def skip_ws_def)

lemma expect_miss: "\<not> is_ws d \<Longrightarrow> d \<noteq> c \<Longrightarrow> expect c (d # t) = None"
  by (simp add: expect_def skip_ws_def)

lemma ws_facts [simp]:
  "\<not> is_ws (CHR ''{'')" "\<not> is_ws (CHR ''}'')" "\<not> is_ws (CHR ''['')" "\<not> is_ws (CHR '']'')"
  "\<not> is_ws (CHR '','')" "\<not> is_ws (CHR '':'')" "\<not> is_ws (CHR 0x22)" "\<not> is_ws (CHR ''t'')"
  "\<not> is_ws (CHR ''f'')" "\<not> is_ws (CHR ''n'')"
  by (simp_all add: is_ws_def)

lemma stops_facts [simp]: "stops []" "stops (CHR '','' # t)" "stops (CHR '']'' # t)" "stops (CHR ''}'' # t)"
  by (simp_all add: stops_def is_digit_def)

lemma skip_ws_Cons [simp]: "\<not> is_ws c \<Longrightarrow> skip_ws (c # t) = c # t"
  by (simp add: skip_ws_def)

lemma int_literal_head:
  assumes "int_literal s"
  obtains c t where "s = c # t" "is_digit c \<or> c = CHR ''-''"
  using assms by (cases s) (auto simp: int_literal_def Let_def split: if_splits)

lemma number_head: "is_digit c \<or> c = CHR ''-'' \<Longrightarrow>
    \<not> is_ws c \<and> c \<noteq> CHR ''{'' \<and> c \<noteq> CHR ''['' \<and> c \<noteq> CHR 0x22 \<and> c \<noteq> CHR ''t'' \<and> c \<noteq> CHR ''f'' \<and> c \<noteq> CHR ''n''
      \<and> c \<noteq> CHR '']''"
  by (auto simp: is_digit_def is_ws_def)

lemma enc_json_head:
  assumes "wf_json v"
  shows "\<exists>c t. enc_json v = c # t \<and> \<not> is_ws c \<and> c \<noteq> CHR '']''"
proof (cases v)
  case (JNum s)
  then obtain c t where "s = c # t" "is_digit c \<or> c = CHR ''-''"
    using assms by (auto elim: int_literal_head)
  then show ?thesis using number_head JNum by auto
qed (simp_all add: enc_string_def)

lemma parse_later: "parse_value n s = Some (v, r) \<Longrightarrow> \<exists>n0. \<forall>m \<ge> n0. parse_value m s = Some (v, r)"
  using parse_value_enough by blast

lemma parse_elems_later: "parse_elems n s = Some (v, r) \<Longrightarrow> \<exists>n0. \<forall>m \<ge> n0. parse_elems m s = Some (v, r)"
  using enoughD(2) [of parse_elems n s v r] parse_enough [of n] by blast

lemma parse_members_later:
  "parse_members n s = Some (v, r) \<Longrightarrow> \<exists>n0. \<forall>m \<ge> n0. parse_members m s = Some (v, r)"
  using enoughD(2) [of parse_members n s v r] parse_enough [of n] by blast

lemma common_fuel:
  "\<exists>n0. \<forall>m \<ge> n0. P m \<Longrightarrow> \<exists>n1. \<forall>m \<ge> n1. Q m \<Longrightarrow> \<exists>m::nat. P m \<and> Q m"
  by (metis nle_le)

lemma parse_value_enc_json:
  "wf_json v \<Longrightarrow> stops r \<Longrightarrow> \<exists>n. parse_value n (enc_json v @ r) = Some (clean_json v, r)"
  "wf_elems vs \<Longrightarrow> vs \<noteq> [] \<Longrightarrow> \<exists>n. parse_elems n (enc_elems vs @ CHR '']'' # r) = Some (clean_elems vs, r)"
  "wf_members ms \<Longrightarrow> ms \<noteq> [] \<Longrightarrow> \<exists>n. parse_members n (enc_members ms @ CHR ''}'' # r) = Some (clean_members ms, r)"
proof (induction v and vs and ms arbitrary: r and r and r rule: enc_json_enc_elems_enc_members.induct)
  case 1
  show ?case by (rule exI [of _ 1]) (simp add: literal_def HasPrefix_def)
next
  case (2 b)
  show ?case by (rule exI [of _ 1]) (simp add: literal_def HasPrefix_def)
next
  case (3 s)
  then obtain c t where s: "s = c # t" "is_digit c \<or> c = CHR ''-''" by (auto elim: int_literal_head)
  have "parse_number (c # t @ r) = Some (s, r)" using parse_number_literal [of s r] 3 s by simp
  with s number_head [OF s(2)] show ?case by (intro exI [of _ 1]) simp
next
  case (4 s)
  then show ?case
    by (intro exI [of _ 1]) (simp add: enc_string_def dec_string_enc_runes)
next
  case (5 xs)
  show ?case
  proof (cases xs)
    case Nil
    then show ?thesis by (intro exI [of _ 1]) (simp add: expect_hit)
  next
    case (Cons x xs')
    with 5 have x: "wf_json x" by simp
    then obtain c t where c: "enc_json x = c # t" "\<not> is_ws c" "c \<noteq> CHR '']''" using enc_json_head by blast
    obtain n where "parse_elems n (enc_elems xs @ CHR '']'' # r) = Some (clean_elems xs, r)"
      using 5 Cons by auto
    with c Cons show ?thesis by (intro exI [of _ "Suc n"]) (simp add: expect_miss)
  qed
next
  case (6 ms)
  show ?case
  proof (cases ms)
    case Nil
    then show ?thesis by (intro exI [of _ 1]) (simp add: expect_hit)
  next
    case (Cons m ms')
    obtain n where "parse_members n (enc_members ms @ CHR ''}'' # r) = Some (clean_members ms, r)"
      using 6 Cons by auto
    with Cons show ?thesis
      by (cases m) (intro exI [of _ "Suc n"], simp add: expect_miss enc_string_def)
  qed
next
  case 7
  then show ?case by simp
next
  case (8 x xs)
  show ?case
  proof (cases xs)
    case Nil
    obtain n where "parse_value n (enc_json x @ CHR '']'' # r) = Some (clean_json x, CHR '']'' # r)"
      using 8(1) [of "CHR '']'' # r"] 8(3) by auto
    with Nil show ?thesis by (intro exI [of _ "Suc n"]) (simp add: expect_hit expect_miss)
  next
    case (Cons y ys)
    let ?rest = "enc_elems xs @ CHR '']'' # r"
    obtain n where 1: "parse_value n (enc_json x @ CHR '','' # ?rest) = Some (clean_json x, CHR '','' # ?rest)"
      using 8(1) [of "CHR '','' # ?rest"] 8(3) by auto
    obtain m where 2: "parse_elems m ?rest = Some (clean_elems xs, r)" using 8 Cons by auto
    obtain k where "parse_value k (enc_json x @ CHR '','' # ?rest) = Some (clean_json x, CHR '','' # ?rest)"
      "parse_elems k ?rest = Some (clean_elems xs, r)"
      using common_fuel [OF parse_later [OF 1] parse_elems_later [OF 2]] by blast
    with Cons show ?thesis by (intro exI [of _ "Suc k"]) (simp add: expect_hit)
  qed
next
  case 9
  then show ?case by simp
next
  case (10 k v ms)
  have key: "dec_string (enc_runes k @ CHR 0x22 # t) = Some (sanitize k, t)" for t
    by (rule dec_string_enc_runes)
  show ?case
  proof (cases ms)
    case Nil
    obtain n where "parse_value n (enc_json v @ CHR ''}'' # r) = Some (clean_json v, CHR ''}'' # r)"
      using 10(1) [of "CHR ''}'' # r"] 10(3) by auto
    with Nil key show ?thesis
      by (intro exI [of _ "Suc n"]) (simp add: expect_hit expect_miss enc_string_def)
  next
    case (Cons y ys)
    let ?rest = "enc_members ms @ CHR ''}'' # r"
    obtain n where 1: "parse_value n (enc_json v @ CHR '','' # ?rest) = Some (clean_json v, CHR '','' # ?rest)"
      using 10(1) [of "CHR '','' # ?rest"] 10(3) by auto
    obtain m where 2: "parse_members m ?rest = Some (clean_members ms, r)" using 10 Cons by auto
    obtain i where "parse_value i (enc_json v @ CHR '','' # ?rest) = Some (clean_json v, CHR '','' # ?rest)"
      "parse_members i ?rest = Some (clean_members ms, r)"
      using common_fuel [OF parse_later [OF 1] parse_members_later [OF 2]] by blast
    with Cons key show ?thesis
      by (intro exI [of _ "Suc i"]) (simp add: expect_hit enc_string_def)
  qed
qed

lemma parse_json_enc_json:
  assumes "wf_json v"
  shows "parse_json (enc_json v) = Some (clean_json v)" "parse_json (enc_json v @ [CHR 0x0A]) = Some (clean_json v)"
    "parse_first (enc_json v @ [CHR 0x0A]) = Some (clean_json v)"
proof -
  have nl: "stops [CHR 0x0A]" "skip_ws [CHR 0x0A] = []"
    by (simp_all add: stops_def is_digit_def skip_ws_def is_ws_def)
  have p: "parse_value (Suc (length (enc_json v @ r))) (enc_json v @ r) = Some (clean_json v, r)" if "stops r" for r
    using parse_value_enc_json(1) [OF assms that] parse_value_enough le_SucI by blast
  show "parse_json (enc_json v) = Some (clean_json v)"
    using p [of "[]"] by (simp add: parse_json_def skip_ws_def)
  show "parse_json (enc_json v @ [CHR 0x0A]) = Some (clean_json v)"
    using p [OF nl(1)] by (simp add: parse_json_def nl)
  show "parse_first (enc_json v @ [CHR 0x0A]) = Some (clean_json v)"
    using p [OF nl(1)] by (simp add: parse_first_def)
qed

text \<open>The strings of a parsed tree are well-formed UTF-8.\<close>

lemma parse_clean:
  "(\<forall>s v r. parse_value n s = Some (v, r) \<longrightarrow> clean_json v = v) \<and>
   (\<forall>s vs r. parse_elems n s = Some (vs, r) \<longrightarrow> clean_elems vs = vs) \<and>
   (\<forall>s ms r. parse_members n s = Some (ms, r) \<longrightarrow> clean_members ms = ms)"
proof (induction n)
  case (Suc n)
  then have v: "parse_value n s = Some (v, r) \<Longrightarrow> clean_json v = v"
    and e: "parse_elems n s = Some (vs, r) \<Longrightarrow> clean_elems vs = vs"
    and m: "parse_members n s = Some (ms, r) \<Longrightarrow> clean_members ms = ms" for s v r vs ms
    by blast+
  have str: "dec_string s = Some (d, r) \<Longrightarrow> sanitize d = d" for s d r
    using dec_string_ok sanitize_valid by blast
  show ?case
  proof (intro conjI allI impI)
    fix s v r assume "parse_value (Suc n) s = Some (v, r)"
    then show "clean_json v = v"
      by (auto simp: literal_def split: list.splits if_splits option.splits)
        (blast intro: e m str)+
  next
    fix s vs r assume "parse_elems (Suc n) s = Some (vs, r)"
    then show "clean_elems vs = vs"
      by (auto split: option.splits) (blast intro: e v)+
  next
    fix s ms r assume "parse_members (Suc n) s = Some (ms, r)"
    then show "clean_members ms = ms"
      by (auto split: option.splits) (blast intro: m v str)+
  qed
qed simp

lemma parse_json_clean: "parse_json s = Some v \<Longrightarrow> clean_json v = v"
  unfolding parse_json_def using conjunct1 [OF parse_clean [of "Suc (length s)"]]
  by (simp del: parse_value.simps split: option.splits if_splits prod.splits) blast

end
