(* ===== verification/Go_Json.thy ===== *)
theory Go_Json
  imports Go_Json_Text "HOL-Library.AList"
begin

text \<open>
  The typed side of \<open>encoding/json\<close>: how scalars, byte slices, slices, maps and structs are written
  as trees and read from them, and \<open>Marshal\<close>, \<open>Unmarshal\<close>, \<open>Encoder.Encode\<close> and \<open>Decoder.Decode\<close>.
\<close>

subsection \<open>Moving values into Go variables\<close>

text \<open>
  A decoder of type \<open>json \<Rightarrow> 'a \<Rightarrow> 'a option\<close> takes the present contents of the variable; \<open>None\<close> is
  an error. A null leaves scalars and structs alone and clears slices and maps.
\<close>

definition FormatInt :: "int \<Rightarrow> bytes" where
  "FormatInt i = (if i < 0 then CHR ''-'' # FormatUint (nat (- i)) else FormatUint (nat i))"

definition jint :: "int \<Rightarrow> json" where
  "jint i = JNum (FormatInt i)"

definition juint :: "u64 \<Rightarrow> json" where
  "juint w = JNum (FormatUint (unat w))"

text \<open>A nil \<open>[]byte\<close> is written as null.\<close>

definition jbytes :: "bytes \<Rightarrow> json" where
  "jbytes b = (if b = [] then JNull else JStr (EncodeToString b))"

fun into_string :: "json \<Rightarrow> bytes \<Rightarrow> bytes option" where
  "into_string (JStr s) x = Some s"
| "into_string JNull x = Some x"
| "into_string _ x = None"

fun into_u64 :: "json \<Rightarrow> u64 \<Rightarrow> u64 option" where
  "into_u64 (JNum s) x = map_option word_of_nat (ParseUint s)"
| "into_u64 JNull x = Some x"
| "into_u64 _ x = None"

fun into_i64 :: "json \<Rightarrow> int \<Rightarrow> int option" where
  "into_i64 (JNum s) x = Atoi s"
| "into_i64 JNull x = Some x"
| "into_i64 _ x = None"

fun into_i32 :: "json \<Rightarrow> int \<Rightarrow> int option" where
  "into_i32 (JNum s) x =
     (case Atoi s of None \<Rightarrow> None | Some i \<Rightarrow> if - (2 ^ 31) \<le> i \<and> i < 2 ^ 31 then Some i else None)"
| "into_i32 JNull x = Some x"
| "into_i32 _ x = None"

fun byte_of_json :: "json \<Rightarrow> char option" where
  "byte_of_json (JNum s) =
     (case ParseUint s of None \<Rightarrow> None | Some n \<Rightarrow> if n < 256 then Some (char_of n) else None)"
| "byte_of_json JNull = Some (char_of (0::nat))"
| "byte_of_json _ = None"

fun into_bytes :: "json \<Rightarrow> bytes \<Rightarrow> bytes option" where
  "into_bytes (JStr s) x = DecodeString s"
| "into_bytes JNull x = Some []"
| "into_bytes (JArr xs) x = those (map byte_of_json xs)"
| "into_bytes _ x = None"

fun into_slice :: "(json \<Rightarrow> 'a \<Rightarrow> 'a option) \<Rightarrow> 'a \<Rightarrow> json \<Rightarrow> 'a list \<Rightarrow> 'a list option" where
  "into_slice into zero (JArr xs) x = those (map (\<lambda>j. into j zero) xs)"
| "into_slice into zero JNull x = Some []"
| "into_slice into zero _ x = None"

fun put_members ::
  "(json \<Rightarrow> 'a \<Rightarrow> 'a option) \<Rightarrow> 'a \<Rightarrow> (bytes \<times> json) list \<Rightarrow> (bytes, 'a) gomap \<Rightarrow> (bytes, 'a) gomap option"
where
  "put_members into zero [] m = Some m"
| "put_members into zero ((k, j) # ms) m =
     (case into j zero of None \<Rightarrow> None | Some v \<Rightarrow> put_members into zero ms (AList.update k v m))"

text \<open>A map keeps the entries it already has.\<close>

fun into_map ::
  "(json \<Rightarrow> 'a \<Rightarrow> 'a option) \<Rightarrow> 'a \<Rightarrow> json \<Rightarrow> (bytes, 'a) gomap \<Rightarrow> (bytes, 'a) gomap option" where
  "into_map into zero (JObj ms) m = put_members into zero ms m"
| "into_map into zero JNull m = Some []"
| "into_map into zero _ m = None"

text \<open>
  The case folding of field names: ASCII letters, the Kelvin sign and the long s. Any other
  non-ASCII character matches no field name of the program.
\<close>

fun fold_name :: "bytes \<Rightarrow> bytes" where
  "fold_name [] = []"
| "fold_name (c # s) =
     (if take 3 (c # s) = [CHR 0xE2, CHR 0x84, CHR 0xAA] then CHR ''K'' # fold_name (drop 2 s)
      else if take 2 (c # s) = [CHR 0xC5, CHR 0xBF] then CHR ''S'' # fold_name (drop 1 s)
      else
        (let b = of_char c :: nat in
         (if 97 \<le> b \<and> b \<le> 122 then char_of (b - 32) else c) # fold_name s))"

definition field_for :: "(bytes \<times> 'f) list \<Rightarrow> bytes \<Rightarrow> 'f option" where
  "field_for fields k =
     (case map_of fields k of
        Some f \<Rightarrow> Some f
      | None \<Rightarrow> map_option snd (find (\<lambda>(n, f). fold_name n = fold_name k) fields))"

fun put_fields ::
  "(bytes \<times> (json \<Rightarrow> 'a \<Rightarrow> 'a option)) list \<Rightarrow> (bytes \<times> json) list \<Rightarrow> 'a \<Rightarrow> 'a option" where
  "put_fields fields [] x = Some x"
| "put_fields fields ((k, j) # ms) x =
     (case field_for fields k of
        None \<Rightarrow> put_fields fields ms x
      | Some put \<Rightarrow> (case put j x of None \<Rightarrow> None | Some x' \<Rightarrow> put_fields fields ms x'))"

fun into_struct :: "(bytes \<times> (json \<Rightarrow> 'a \<Rightarrow> 'a option)) list \<Rightarrow> json \<Rightarrow> 'a \<Rightarrow> 'a option" where
  "into_struct fields (JObj ms) x = put_fields fields ms x"
| "into_struct fields JNull x = Some x"
| "into_struct fields _ x = None"

text \<open>A field of a struct: its name, its decoder, how to read it and how to write it.\<close>

definition field ::
  "bytes \<Rightarrow> (json \<Rightarrow> 'v \<Rightarrow> 'v option) \<Rightarrow> ('a \<Rightarrow> 'v) \<Rightarrow> ('v \<Rightarrow> 'a \<Rightarrow> 'a) \<Rightarrow> bytes \<times> (json \<Rightarrow> 'a \<Rightarrow> 'a option)" where
  "field name into get upd = (name, \<lambda>j x. map_option (\<lambda>v. upd v x) (into j (get x)))"

text \<open>A member written only when the field is not empty.\<close>

definition omitempty :: "bytes \<Rightarrow> bool \<Rightarrow> json \<Rightarrow> (bytes \<times> json) list" where
  "omitempty name isempty j = (if isempty then [] else [(name, j)])"

definition Unmarshal :: "(json \<Rightarrow> 'a \<Rightarrow> 'a option) \<Rightarrow> bytes \<Rightarrow> 'a \<Rightarrow> 'a option" where
  "Unmarshal into data x = (case parse_json data of None \<Rightarrow> None | Some j \<Rightarrow> into j x)"

definition Marshal :: "('a \<Rightarrow> json) \<Rightarrow> 'a \<Rightarrow> bytes" where
  "Marshal to x = enc_json (to x)"

definition Encode :: "('a \<Rightarrow> json) \<Rightarrow> 'a \<Rightarrow> bytes" where
  "Encode to x = enc_json (to x) @ [CHR 0x0A]"

definition Decode :: "(json \<Rightarrow> 'a \<Rightarrow> 'a option) \<Rightarrow> bytes \<Rightarrow> 'a \<Rightarrow> 'a option" where
  "Decode into data x = (case parse_first data of None \<Rightarrow> None | Some j \<Rightarrow> into j x)"

lemma Unmarshal_Marshal: "wf_json (to x) \<Longrightarrow> Unmarshal into (Marshal to x) y = into (clean_json (to x)) y"
  by (simp add: Unmarshal_def Marshal_def parse_json_enc_json)

lemma Unmarshal_Encode: "wf_json (to x) \<Longrightarrow> Unmarshal into (Encode to x) y = into (clean_json (to x)) y"
  by (simp add: Unmarshal_def Encode_def parse_json_enc_json)

lemma Decode_Encode: "wf_json (to x) \<Longrightarrow> Decode into (Encode to x) y = into (clean_json (to x)) y"
  by (simp add: Decode_def Encode_def parse_json_enc_json)

lemma field_for_hit: "map_of fields k = Some f \<Longrightarrow> field_for fields k = Some f"
  by (simp add: field_for_def)

lemma FormatUint_no_zero: "n \<noteq> 0 \<Longrightarrow> hd (FormatUint n) \<noteq> CHR ''0''"
proof (induction n rule: FormatUint.induct)
  case (1 n)
  show ?case
  proof (cases "n < 10")
    case True
    have "digit_char n \<noteq> digit_char 0" using True 1(2) by (simp add: digit_char_inject)
    moreover have "digit_char 0 = CHR ''0''" by code_simp
    ultimately show ?thesis using True by (subst FormatUint.simps) simp
  next
    case False
    then have "hd (FormatUint n) = hd (FormatUint (n div 10))"
      by (subst FormatUint.simps) simp
    with 1(1) [OF False] False show ?thesis by simp
  qed
qed

lemma digits_not_minus: "list_all is_digit s \<Longrightarrow> take 1 s \<noteq> ''-''"
  by (cases s) (auto simp: is_digit_def)

lemma FormatUint_literal: "int_literal (FormatUint n)"
proof -
  have "hd (FormatUint n) = CHR ''0'' \<Longrightarrow> length (FormatUint n) = 1"
    using FormatUint_no_zero [of n] by (cases "n = 0") (auto simp: FormatUint.simps [of 0])
  then show ?thesis
    using digits_not_minus [OF FormatUint_digits [of n]] FormatUint_digits [of n]
    by (simp add: int_literal_def)
qed

lemma FormatInt_literal: "int_literal (FormatInt i)"
proof (cases "i < 0")
  case True
  have "int_literal (FormatUint (nat (- i)))" by (rule FormatUint_literal)
  then show ?thesis
    using True digits_not_minus [OF FormatUint_digits [of "nat (- i)"]]
    by (simp add: FormatInt_def int_literal_def)
qed (simp add: FormatInt_def FormatUint_literal)

lemma wf_jnum [simp]: "wf_json (jint i)" "wf_json (juint w)"
  by (simp_all add: jint_def juint_def FormatInt_literal FormatUint_literal)

lemma into_u64_juint [simp]: "into_u64 (juint w) x = Some w"
  using unsigned_less [of w, where ?'a = nat] by (simp add: juint_def ParseUint_FormatUint)

lemma Atoi_FormatInt: "is_i64 i \<Longrightarrow> Atoi (FormatInt i) = Some i"
proof -
  assume i: "is_i64 i"
  have t: "take 1 (FormatUint n) \<noteq> ''-''" "take 1 (FormatUint n) \<noteq> ''+''" for n
    using FormatUint_digits [of n] by (cases "FormatUint n"; auto simp: is_digit_def)+
  show ?thesis
    using i t FormatUint_digits by (simp add: Atoi_def FormatInt_def digits_value_FormatUint Let_def)
qed

lemma into_i64_jint [simp]: "is_i64 i \<Longrightarrow> into_i64 (jint i) x = Some i"
  by (simp add: jint_def Atoi_FormatInt)

lemma into_i32_jint [simp]: "- (2 ^ 31) \<le> i \<Longrightarrow> i < 2 ^ 31 \<Longrightarrow> into_i32 (jint i) x = Some i"
  by (simp add: jint_def Atoi_FormatInt is_i64_def)

lemma base64_ascii: "is_ascii (EncodeToString b)"
proof -
  have "list_all (\<lambda>c. (of_char c :: nat) < 0x80) (CHR ''='' # base64_alphabet)"
    by (simp add: base64_alphabet_def)
  then show ?thesis
    using EncodeToString_chars [of b] by (auto simp: is_ascii_def list_all_iff)
qed

lemma jbytes_facts [simp]:
  "wf_json (jbytes b)" "clean_json (jbytes b) = jbytes b" "into_bytes (jbytes b) x = Some b"
  by (simp_all add: jbytes_def sanitize_ascii base64_ascii)

lemma clean_jnum [simp]: "clean_json (jint i) = jint i" "clean_json (juint w) = juint w"
  by (simp_all add: jint_def juint_def)

lemma clean_elems_map [simp]: "clean_elems xs = map clean_json xs"
  by (induction xs) auto

lemma clean_members_append [simp]: "clean_members (xs @ ys) = clean_members xs @ clean_members ys"
  by (induction xs) auto

lemma those_map_Some: "(\<And>x. x \<in> set xs \<Longrightarrow> f x = Some (g x)) \<Longrightarrow> those (map f xs) = Some (map g xs)"
  by (induction xs) auto

lemma wf_elems_iff: "wf_elems xs \<longleftrightarrow> (\<forall>x \<in> set xs. wf_json x)"
  by (induction xs) auto

lemma wf_members_append [simp]: "wf_members (xs @ ys) \<longleftrightarrow> wf_members xs \<and> wf_members ys"
  by (induction xs) auto

lemma put_fields_append:
  "put_fields fields (xs @ ys) x =
     (case put_fields fields xs x of None \<Rightarrow> None | Some x' \<Rightarrow> put_fields fields ys x')"
  by (induction xs arbitrary: x) (auto split: option.splits)

lemma into_slice_map:
  "(\<And>x. x \<in> set xs \<Longrightarrow> into (to x) zero = Some x) \<Longrightarrow> into_slice into zero (JArr (map to xs)) ys = Some xs"
proof -
  assume "\<And>x. x \<in> set xs \<Longrightarrow> into (to x) zero = Some x"
  then have "those (map ((\<lambda>j. into j zero) \<circ> to) xs) = Some (map id xs)"
    by (intro those_map_Some) simp
  then show ?thesis by simp
qed

end
