(* ===== verification/Storage.thy ===== *)
theory Storage
  imports Go_Json
begin

text \<open>
  The state machine (\<open>internal/storage\<close>): commands, the in-memory implementation
  (\<open>state_machine.go\<close>) and the Pebble implementation (\<open>pebble.go\<close>).

  Pebble is third-party code. Its handle is a value of the type variable \<open>'db\<close>, and the operations
  the store calls are the fields of the record \<open>pebble\<close>, any of which may report an error. What the
  store relies on is the predicate \<open>pebble_ok\<close>: a committed batch changes the contents as its
  operations say and in their order, a lookup returns the contents, an iterator visits the keys within
  its bounds in increasing order. The field \<open>pb_view\<close> names the contents for that purpose and is called by
  no operation of the model. Nothing is assumed of the contents after a failed commit.
\<close>

subsection \<open>Commands\<close>

type_synonym Operation = bytes

definition OperationPut :: Operation where
  "OperationPut = ''put''"

definition OperationDelete :: Operation where
  "OperationDelete = ''delete''"

definition OperationDeletePrefix :: Operation where
  "OperationDeletePrefix = ''delete_prefix''"

lemma Operations_distinct [simp]:
  "OperationPut \<noteq> OperationDelete" "OperationPut \<noteq> OperationDeletePrefix"
  "OperationDelete \<noteq> OperationPut" "OperationDelete \<noteq> OperationDeletePrefix"
  "OperationDeletePrefix \<noteq> OperationPut" "OperationDeletePrefix \<noteq> OperationDelete"
  by (simp_all add: OperationPut_def OperationDelete_def OperationDeletePrefix_def)

record Command =
  cmd_Operation :: Operation
  cmd_Key :: bytes
  cmd_Value :: bytes
  cmd_Prefix :: bytes

record KV =
  kv_Key :: bytes
  kv_Value :: bytes

record MemberAddress =
  ma_NodeID :: u64
  ma_HTTPAddr :: bytes
  ma_GRPCAddr :: bytes
  ma_AdminAddr :: bytes

text \<open>\<open>Result.Modified\<close> is an \<open>int\<close>.\<close>

record Result =
  res_Modified :: int

subsection \<open>JSON of commands, members and snapshots\<close>

definition command_to_json :: "Command \<Rightarrow> json" where
  "command_to_json c =
     JObj ([(''operation'', JStr (cmd_Operation c))]
       @ omitempty ''key'' (cmd_Key c = []) (jbytes (cmd_Key c))
       @ omitempty ''value'' (cmd_Value c = []) (jbytes (cmd_Value c))
       @ omitempty ''prefix'' (cmd_Prefix c = []) (jbytes (cmd_Prefix c)))"

definition command_fields :: "(bytes \<times> (json \<Rightarrow> Command \<Rightarrow> Command option)) list" where
  "command_fields =
     [field ''operation'' into_string cmd_Operation (\<lambda>v c. c\<lparr>cmd_Operation := v\<rparr>),
      field ''key'' into_bytes cmd_Key (\<lambda>v c. c\<lparr>cmd_Key := v\<rparr>),
      field ''value'' into_bytes cmd_Value (\<lambda>v c. c\<lparr>cmd_Value := v\<rparr>),
      field ''prefix'' into_bytes cmd_Prefix (\<lambda>v c. c\<lparr>cmd_Prefix := v\<rparr>)]"

definition zero_command :: Command where
  "zero_command = \<lparr>cmd_Operation = [], cmd_Key = [], cmd_Value = [], cmd_Prefix = []\<rparr>"

definition kv_to_json :: "KV \<Rightarrow> json" where
  "kv_to_json i = JObj [(''key'', jbytes (kv_Key i)), (''value'', jbytes (kv_Value i))]"

definition kv_fields :: "(bytes \<times> (json \<Rightarrow> KV \<Rightarrow> KV option)) list" where
  "kv_fields =
     [field ''key'' into_bytes kv_Key (\<lambda>v c. c\<lparr>kv_Key := v\<rparr>),
      field ''value'' into_bytes kv_Value (\<lambda>v c. c\<lparr>kv_Value := v\<rparr>)]"

definition member_to_json :: "MemberAddress \<Rightarrow> json" where
  "member_to_json m =
     JObj ([(''nodeId'', juint (ma_NodeID m))]
       @ omitempty ''httpAddr'' (ma_HTTPAddr m = []) (JStr (ma_HTTPAddr m))
       @ omitempty ''grpcAddr'' (ma_GRPCAddr m = []) (JStr (ma_GRPCAddr m))
       @ omitempty ''adminAddr'' (ma_AdminAddr m = []) (JStr (ma_AdminAddr m)))"

definition member_fields :: "(bytes \<times> (json \<Rightarrow> MemberAddress \<Rightarrow> MemberAddress option)) list" where
  "member_fields =
     [field ''nodeId'' into_u64 ma_NodeID (\<lambda>v c. c\<lparr>ma_NodeID := v\<rparr>),
      field ''httpAddr'' into_string ma_HTTPAddr (\<lambda>v c. c\<lparr>ma_HTTPAddr := v\<rparr>),
      field ''grpcAddr'' into_string ma_GRPCAddr (\<lambda>v c. c\<lparr>ma_GRPCAddr := v\<rparr>),
      field ''adminAddr'' into_string ma_AdminAddr (\<lambda>v c. c\<lparr>ma_AdminAddr := v\<rparr>)]"

definition zero_kv :: KV where
  "zero_kv = \<lparr>kv_Key = [], kv_Value = []\<rparr>"

definition zero_member :: MemberAddress where
  "zero_member = \<lparr>ma_NodeID = 0, ma_HTTPAddr = [], ma_GRPCAddr = [], ma_AdminAddr = []\<rparr>"

record snapshotPayload =
  sp_Data :: "KV list"
  sp_Members :: "MemberAddress list"

definition payload_to_json :: "snapshotPayload \<Rightarrow> json" where
  "payload_to_json p =
     JObj ([(''data'', JArr (map kv_to_json (sp_Data p)))]
       @ omitempty ''members'' (sp_Members p = []) (JArr (map member_to_json (sp_Members p))))"

definition payload_fields :: "(bytes \<times> (json \<Rightarrow> snapshotPayload \<Rightarrow> snapshotPayload option)) list" where
  "payload_fields =
     [field ''data'' (into_slice (into_struct kv_fields) zero_kv) sp_Data (\<lambda>v c. c\<lparr>sp_Data := v\<rparr>),
      field ''members'' (into_slice (into_struct member_fields) zero_member) sp_Members
        (\<lambda>v c. c\<lparr>sp_Members := v\<rparr>)]"

definition zero_payload :: snapshotPayload where
  "zero_payload = \<lparr>sp_Data = [], sp_Members = []\<rparr>"

definition decodeSnapshotPayload :: "bytes \<Rightarrow> snapshotPayload option" where
  "decodeSnapshotPayload data =
     (case Unmarshal (into_struct payload_fields) data zero_payload of
        Some payload \<Rightarrow> Some payload
      | None \<Rightarrow> map_option (\<lambda>items. \<lparr>sp_Data = items, sp_Members = []\<rparr>)
          (Unmarshal (into_slice (into_struct kv_fields) zero_kv) data []))"

definition mustJSON :: "MemberAddress \<Rightarrow> bytes" where
  "mustJSON m = Marshal member_to_json m"

subsection \<open>The in-memory state machine\<close>

text \<open>
  The map is an association list in the order of a \<open>range\<close> loop. The map value of an absent key is a nil slice.
\<close>

record MemoryStateMachine =
  ms_data :: "(bytes, bytes) gomap"
  ms_appliedIndex :: u64

definition NewMemoryStateMachine :: MemoryStateMachine where
  "NewMemoryStateMachine = \<lparr>ms_data = [], ms_appliedIndex = 0\<rparr>"

text \<open>\<open>hasPrefix\<close> of this package.\<close>

fun hasPrefix :: "bytes \<Rightarrow> bytes \<Rightarrow> bool" where
  "hasPrefix key [] = True"
| "hasPrefix [] (p # ps) = False"
| "hasPrefix (k # ks) (p # ps) = (k = p \<and> hasPrefix ks ps)"

definition ms_Apply :: "MemoryStateMachine \<Rightarrow> Command \<Rightarrow> MemoryStateMachine \<times> Result" where
  "ms_Apply m cmd =
     (let d = ms_data m;
          hit = (\<lambda>(key, _). cmd_Prefix cmd = [] \<or> hasPrefix key (cmd_Prefix cmd));
          (d', modified) =
            (if cmd_Operation cmd = OperationPut then
               (AList.update (cmd_Key cmd) (cmd_Value cmd) d, 1)
             else if cmd_Operation cmd = OperationDelete then
               (case map_of d (cmd_Key cmd) of
                  Some _ \<Rightarrow> (AList.delete (cmd_Key cmd) d, 1)
                | None \<Rightarrow> (d, 0))
             else if cmd_Operation cmd = OperationDeletePrefix then
               (filter (\<lambda>e. \<not> hit e) d, int (length (filter hit d)))
             else (d, 0))
      in (m\<lparr>ms_data := d', ms_appliedIndex := ms_appliedIndex m + 1\<rparr>, \<lparr>res_Modified = modified\<rparr>))"

definition ms_Get :: "MemoryStateMachine \<Rightarrow> bytes \<Rightarrow> bytes" where
  "ms_Get m key = (case map_of (ms_data m) key of None \<Rightarrow> [] | Some v \<Rightarrow> v)"

text \<open>The loop over the sorted keys; \<open>items\<close> are the records found so far.\<close>

fun ms_scan_loop ::
  "(bytes, bytes) gomap \<Rightarrow> bytes \<Rightarrow> bytes \<Rightarrow> int \<Rightarrow> bytes list \<Rightarrow> KV list \<Rightarrow> KV list" where
  "ms_scan_loop d start end limit [] items = items"
| "ms_scan_loop d start end limit (key # keys) items =
     (if start \<noteq> [] \<and> key < start then ms_scan_loop d start end limit keys items
      else if end \<noteq> [] \<and> key \<ge> end then ms_scan_loop d start end limit keys items
      else
        let items' = items @ [\<lparr>kv_Key = key, kv_Value = (case map_of d key of None \<Rightarrow> [] | Some v \<Rightarrow> v)\<rparr>] in
        if limit > 0 \<and> int (length items') \<ge> limit then items'
        else ms_scan_loop d start end limit keys items')"

definition ms_Scan :: "MemoryStateMachine \<Rightarrow> bytes \<Rightarrow> bytes \<Rightarrow> int \<Rightarrow> KV list" where
  "ms_Scan m start end limit = ms_scan_loop (ms_data m) start end limit (sort (map fst (ms_data m))) []"

text \<open>\<open>json\<close> writes the entries of a map in the order of their keys.\<close>

definition data_to_json :: "(bytes, bytes) gomap \<Rightarrow> json" where
  "data_to_json d = JObj (map (\<lambda>(k, v). (k, jbytes v)) (sort_key fst d))"

definition ms_Snapshot :: "MemoryStateMachine \<Rightarrow> bytes" where
  "ms_Snapshot m = Encode data_to_json (ms_data m)"

text \<open>
  The decoder writes into the present map. \<open>None\<close> is its error, after which Go may have stored some of
  the entries; the model does not say which.
\<close>

definition ms_Restore :: "MemoryStateMachine \<Rightarrow> bytes \<Rightarrow> MemoryStateMachine option" where
  "ms_Restore m r = map_option (\<lambda>d. m\<lparr>ms_data := d\<rparr>) (Decode (into_map into_bytes []) r (ms_data m))"

definition ms_AppliedIndex :: "MemoryStateMachine \<Rightarrow> u64" where
  "ms_AppliedIndex m = ms_appliedIndex m"

subsection \<open>Pebble\<close>

datatype pebble_error = PebbleError bytes

datatype batch_op = BSet bytes bytes | BDelete bytes | BDeleteRange bytes bytes

text \<open>
  \<open>pb_get\<close> is \<open>DB.Get\<close> (\<open>Inr None\<close> is \<open>ErrNotFound\<close>), \<open>pb_commit\<close> is \<open>Batch.Commit\<close> of the operations
  collected in a batch (\<open>DB.Set\<close> and \<open>DB.Delete\<close> commit a batch of one; collecting operations in memory does
  not fail), \<open>pb_iter\<close> is \<open>DB.NewIter\<close> with its bounds (an empty bound is no bound): the records its loop
  visits and the error the iterator has at the end.
\<close>

record 'db pebble =
  pb_open :: "bytes \<Rightarrow> pebble_error + 'db"
  pb_close :: "'db \<Rightarrow> pebble_error option"
  pb_get :: "'db \<Rightarrow> bytes \<Rightarrow> pebble_error + bytes option"
  pb_commit :: "'db \<Rightarrow> batch_op list \<Rightarrow> 'db \<times> pebble_error option"
  pb_iter :: "'db \<Rightarrow> bytes \<Rightarrow> bytes \<Rightarrow> pebble_error + ((bytes \<times> bytes) list \<times> pebble_error option)"
  pb_view :: "'db \<Rightarrow> (bytes \<rightharpoonup> bytes)"

fun apply_op :: "batch_op \<Rightarrow> (bytes \<rightharpoonup> bytes) \<Rightarrow> (bytes \<rightharpoonup> bytes)" where
  "apply_op (BSet k v) m = m(k \<mapsto> v)"
| "apply_op (BDelete k) m = m(k := None)"
| "apply_op (BDeleteRange a b) m = (\<lambda>k. if a \<le> k \<and> k < b then None else m k)"

definition apply_ops :: "batch_op list \<Rightarrow> (bytes \<rightharpoonup> bytes) \<Rightarrow> (bytes \<rightharpoonup> bytes)" where
  "apply_ops ops m = fold apply_op ops m"

definition within :: "bytes \<Rightarrow> bytes \<Rightarrow> bytes \<Rightarrow> bool" where
  "within start end k \<longleftrightarrow> start \<le> k \<and> (end = [] \<or> k < end)"

text \<open>The behaviour of Pebble the store relies on.\<close>

definition pebble_ok :: "'db pebble \<Rightarrow> bool" where
  "pebble_ok p \<longleftrightarrow>
     (\<forall>db. finite (dom (pb_view p db))) \<and>
     (\<forall>db k v. pb_get p db k = Inr v \<longrightarrow> v = pb_view p db k) \<and>
     (\<forall>db ops db'. pb_commit p db ops = (db', None) \<longrightarrow> pb_view p db' = apply_ops ops (pb_view p db)) \<and>
     (\<forall>db a b kvs. pb_iter p db a b = Inr (kvs, None) \<longrightarrow>
        sorted_wrt (<) (map fst kvs) \<and> map_of kvs = pb_view p db |` Collect (within a b)) \<and>
     (\<forall>db a b kvs e. pb_iter p db a b = Inr (kvs, Some e) \<longrightarrow>
        (\<exists>more. sorted_wrt (<) (map fst (kvs @ more)) \<and> map_of (kvs @ more) = pb_view p db |` Collect (within a b)))"

datatype storage_error =
    ErrStoreNotOpen
  | ErrMkdir
  | ErrPebble pebble_error
  | ErrJSON
  | ErrMemberNodeID

record 'db PebbleStore =
  ps_path :: bytes
  ps_db :: "'db option"
  ps_pebble :: "'db pebble"

definition metaAppliedIndexKey :: bytes where
  "metaAppliedIndexKey = ''__meta__/applied_index''"

definition metaAppliedTermKey :: bytes where
  "metaAppliedTermKey = ''__meta__/applied_term''"

definition metaMembersPrefix :: bytes where
  "metaMembersPrefix = ''__meta__/members/''"

definition isMetaKey :: "bytes \<Rightarrow> bool" where
  "isMetaKey key \<longleftrightarrow> length key \<ge> length ''__meta__/'' \<and> take (length ''__meta__/'') key = ''__meta__/''"

definition encodeUint64 :: "u64 \<Rightarrow> bytes" where
  "encodeUint64 value = PutUint64 value"

definition decodeUint64 :: "bytes \<Rightarrow> u64" where
  "decodeUint64 data = (case Uint64 data of None \<Rightarrow> 0 | Some w \<Rightarrow> w)"

definition memberAddressKey :: "u64 \<Rightarrow> bytes" where
  "memberAddressKey nodeID = metaMembersPrefix @ FormatUint (unat nodeID)"

definition memberPrefixEnd :: bytes where
  "memberPrefixEnd = metaMembersPrefix @ [CHR 0xFF]"

text \<open>\<open>defaultPath\<close> is the temporary directory and time stamp the constructor falls back to.\<close>

definition NewPebbleStore :: "'db pebble \<Rightarrow> bytes \<Rightarrow> bytes \<Rightarrow> 'db PebbleStore" where
  "NewPebbleStore p path defaultPath =
     \<lparr>ps_path = (if path = [] then defaultPath else path), ps_db = None, ps_pebble = p\<rparr>"

text \<open>\<open>mkdirOK\<close> is whether \<open>os.MkdirAll\<close> succeeds.\<close>

definition ps_Open :: "'db PebbleStore \<Rightarrow> bool \<Rightarrow> 'db PebbleStore \<times> storage_error option" where
  "ps_Open s mkdirOK =
     (case ps_db s of
        Some _ \<Rightarrow> (s, None)
      | None \<Rightarrow>
          if \<not> mkdirOK then (s, Some ErrMkdir)
          else case pb_open (ps_pebble s) (ps_path s) of
            Inl e \<Rightarrow> (s, Some (ErrPebble e))
          | Inr db \<Rightarrow> (s\<lparr>ps_db := Some db\<rparr>, None))"

definition ps_Close :: "'db PebbleStore \<Rightarrow> 'db PebbleStore \<times> storage_error option" where
  "ps_Close s =
     (case ps_db s of
        None \<Rightarrow> (s, None)
      | Some db \<Rightarrow> (s\<lparr>ps_db := None\<rparr>, map_option ErrPebble (pb_close (ps_pebble s) db)))"

definition getDB :: "'db PebbleStore \<Rightarrow> storage_error + 'db" where
  "getDB s = (case ps_db s of None \<Rightarrow> Inl ErrStoreNotOpen | Some db \<Rightarrow> Inr db)"

text \<open>Commit a batch: the handle changes in place.\<close>

definition commit :: "'db PebbleStore \<Rightarrow> 'db \<Rightarrow> batch_op list \<Rightarrow> 'db PebbleStore \<times> storage_error option" where
  "commit s db ops =
     (case pb_commit (ps_pebble s) db ops of
        (db', e) \<Rightarrow> (s\<lparr>ps_db := Some db'\<rparr>, map_option ErrPebble e))"

definition command_batch :: "Command \<Rightarrow> batch_op list option" where
  "command_batch cmd =
     (if cmd_Operation cmd = OperationPut then Some [BSet (cmd_Key cmd) (cmd_Value cmd)]
      else if cmd_Operation cmd = OperationDelete then Some [BDelete (cmd_Key cmd)]
      else if cmd_Operation cmd = OperationDeletePrefix then
        Some [BDeleteRange (cmd_Prefix cmd) (cmd_Prefix cmd @ [CHR 0xFF])]
      else None)"

definition ps_Apply :: "'db PebbleStore \<Rightarrow> Command \<Rightarrow> 'db PebbleStore \<times> (storage_error + Result)" where
  "ps_Apply s cmd =
     (case getDB s of
        Inl e \<Rightarrow> (s, Inl e)
      | Inr db \<Rightarrow>
          (case command_batch cmd of
             None \<Rightarrow> (s, Inr \<lparr>res_Modified = 0\<rparr>)
           | Some ops \<Rightarrow>
               (case commit s db ops of
                  (s', Some e) \<Rightarrow> (s', Inl e)
                | (s', None) \<Rightarrow> (s', Inr \<lparr>res_Modified = 1\<rparr>))))"

definition ps_Get :: "'db PebbleStore \<Rightarrow> bytes \<Rightarrow> storage_error + bytes" where
  "ps_Get s key =
     and_then (getDB s) (\<lambda>db.
       case pb_get (ps_pebble s) db key of
         Inl e \<Rightarrow> Inl (ErrPebble e)
       | Inr None \<Rightarrow> Inr []
       | Inr (Some value) \<Rightarrow> Inr value)"

text \<open>The iterator loop of \<open>Scan\<close>: the records kept, and whether the loop ran to the end.\<close>

fun ps_scan_loop :: "int \<Rightarrow> (bytes \<times> bytes) list \<Rightarrow> KV list \<Rightarrow> KV list \<times> bool" where
  "ps_scan_loop limit [] items = (items, True)"
| "ps_scan_loop limit ((key, v) # rest) items =
     (if isMetaKey key then ps_scan_loop limit rest items
      else
        let items' = items @ [\<lparr>kv_Key = key, kv_Value = v\<rparr>] in
        if limit > 0 \<and> int (length items') \<ge> limit then (items', False)
        else ps_scan_loop limit rest items')"

text \<open>The iterator's error at the end counts only if the loop got there.\<close>

definition ps_Scan :: "'db PebbleStore \<Rightarrow> bytes \<Rightarrow> bytes \<Rightarrow> int \<Rightarrow> storage_error + KV list" where
  "ps_Scan s start end limit =
     and_then (getDB s) (\<lambda>db.
       case pb_iter (ps_pebble s) db start end of
         Inl e \<Rightarrow> Inl (ErrPebble e)
       | Inr (kvs, err) \<Rightarrow>
           (case ps_scan_loop limit kvs [] of
              (items, finished) \<Rightarrow>
                (case err of
                   Some e \<Rightarrow> if finished then Inl (ErrPebble e) else Inr items
                 | None \<Rightarrow> Inr items)))"

text \<open>\<open>json.Unmarshal\<close> of every member record, stopping at the first error.\<close>

definition decode_member :: "bytes \<Rightarrow> MemberAddress option" where
  "decode_member v = Unmarshal (into_struct member_fields) v zero_member"

definition ps_ListMemberAddresses :: "'db PebbleStore \<Rightarrow> storage_error + MemberAddress list" where
  "ps_ListMemberAddresses s =
     and_then (getDB s) (\<lambda>db.
       case pb_iter (ps_pebble s) db metaMembersPrefix memberPrefixEnd of
         Inl e \<Rightarrow> Inl (ErrPebble e)
       | Inr (kvs, err) \<Rightarrow>
           (case those (map (decode_member \<circ> snd) kvs) of
              None \<Rightarrow> Inl ErrJSON
            | Some items \<Rightarrow>
                (case err of Some e \<Rightarrow> Inl (ErrPebble e) | None \<Rightarrow> Inr (sort_key ma_NodeID items))))"

definition ps_Snapshot :: "'db PebbleStore \<Rightarrow> storage_error + bytes" where
  "ps_Snapshot s =
     and_then (ps_Scan s [] [] 0) (\<lambda>items.
     and_then (ps_ListMemberAddresses s) (\<lambda>members.
       Inr (Encode payload_to_json
         \<lparr>sp_Data = sort_key kv_Key items, sp_Members = sort_key ma_NodeID members\<rparr>)))"

text \<open>The batch that \<open>Restore\<close> collects from the records it finds and the payload.\<close>

definition restore_batch ::
  "(bytes \<times> bytes) list \<Rightarrow> (bytes \<times> bytes) list \<Rightarrow> snapshotPayload \<Rightarrow> batch_op list" where
  "restore_batch kvs memberKvs payload =
     map (BDelete \<circ> fst) (filter (\<lambda>(k, v). \<not> isMetaKey k) kvs)
     @ map (BDelete \<circ> fst) memberKvs
     @ map (\<lambda>item. BSet (kv_Key item) (kv_Value item)) (sp_Data payload)
     @ map (\<lambda>m. BSet (memberAddressKey (ma_NodeID m)) (mustJSON m)) (sp_Members payload)"

definition ps_Restore :: "'db PebbleStore \<Rightarrow> bytes \<Rightarrow> 'db PebbleStore \<times> storage_error option" where
  "ps_Restore s raw =
     (case getDB s of
        Inl e \<Rightarrow> (s, Some e)
      | Inr db \<Rightarrow>
          (case decodeSnapshotPayload raw of
             None \<Rightarrow> (s, Some ErrJSON)
           | Some payload \<Rightarrow>
               (case pb_iter (ps_pebble s) db [] [] of
                  Inl e \<Rightarrow> (s, Some (ErrPebble e))
                | Inr (kvs, Some e) \<Rightarrow> (s, Some (ErrPebble e))
                | Inr (kvs, None) \<Rightarrow>
                    (case pb_iter (ps_pebble s) db metaMembersPrefix memberPrefixEnd of
                       Inl e \<Rightarrow> (s, Some (ErrPebble e))
                     | Inr (memberKvs, Some e) \<Rightarrow> (s, Some (ErrPebble e))
                     | Inr (memberKvs, None) \<Rightarrow> commit s db (restore_batch kvs memberKvs payload)))))"

text \<open>A big-endian counter under a metadata key, absent means 0.\<close>

definition get_counter :: "'db PebbleStore \<Rightarrow> bytes \<Rightarrow> storage_error + u64" where
  "get_counter s key =
     and_then (getDB s) (\<lambda>db.
       case pb_get (ps_pebble s) db key of
         Inl e \<Rightarrow> Inl (ErrPebble e)
       | Inr None \<Rightarrow> Inr 0
       | Inr (Some value) \<Rightarrow> Inr (decodeUint64 value))"

definition set_counter :: "'db PebbleStore \<Rightarrow> bytes \<Rightarrow> u64 \<Rightarrow> 'db PebbleStore \<times> storage_error option" where
  "set_counter s key w =
     (case getDB s of Inl e \<Rightarrow> (s, Some e) | Inr db \<Rightarrow> commit s db [BSet key (encodeUint64 w)])"

definition ps_AppliedIndex :: "'db PebbleStore \<Rightarrow> storage_error + u64" where
  "ps_AppliedIndex s = get_counter s metaAppliedIndexKey"

definition ps_SetAppliedIndex :: "'db PebbleStore \<Rightarrow> u64 \<Rightarrow> 'db PebbleStore \<times> storage_error option" where
  "ps_SetAppliedIndex s index = set_counter s metaAppliedIndexKey index"

definition ps_AppliedTerm :: "'db PebbleStore \<Rightarrow> storage_error + u64" where
  "ps_AppliedTerm s = get_counter s metaAppliedTermKey"

definition ps_SetAppliedTerm :: "'db PebbleStore \<Rightarrow> u64 \<Rightarrow> 'db PebbleStore \<times> storage_error option" where
  "ps_SetAppliedTerm s term = set_counter s metaAppliedTermKey term"

definition ps_SetMemberAddress ::
  "'db PebbleStore \<Rightarrow> u64 \<Rightarrow> bytes \<Rightarrow> bytes \<Rightarrow> bytes \<Rightarrow> 'db PebbleStore \<times> storage_error option" where
  "ps_SetMemberAddress s nodeID httpAddr grpcAddr adminAddr =
     (case getDB s of
        Inl e \<Rightarrow> (s, Some e)
      | Inr db \<Rightarrow>
          if nodeID = 0 then (s, Some ErrMemberNodeID)
          else commit s db [BSet (memberAddressKey nodeID)
            (mustJSON \<lparr>ma_NodeID = nodeID, ma_HTTPAddr = httpAddr, ma_GRPCAddr = grpcAddr, ma_AdminAddr = adminAddr\<rparr>)])"

definition ps_DeleteMemberAddress :: "'db PebbleStore \<Rightarrow> u64 \<Rightarrow> 'db PebbleStore \<times> storage_error option" where
  "ps_DeleteMemberAddress s nodeID =
     (case getDB s of
        Inl e \<Rightarrow> (s, Some e)
      | Inr db \<Rightarrow>
          if nodeID = 0 then (s, Some ErrMemberNodeID)
          else commit s db [BDelete (memberAddressKey nodeID)])"

end
