(* ===== verification/Storage_Correct.thy ===== *)
theory Storage_Correct
  imports Storage
begin

text \<open>
  Correctness of the state machines. The locale \<open>State_Machine\<close> states the contract of the Go interface
  \<open>StateMachine\<close> on the business keys (all keys outside \<open>__meta__/\<close>); it is interpreted on the
  in-memory and on the Pebble implementation. Then the round trip of snapshots, the separation of
  metadata and the limits of both.
\<close>

subsection \<open>Ordered entries\<close>

definition entries :: "(bytes \<rightharpoonup> bytes) \<Rightarrow> bytes \<Rightarrow> bytes \<Rightarrow> KV list" where
  "entries m a b =
     map (\<lambda>k. \<lparr>kv_Key = k, kv_Value = the (m k)\<rparr>) (sorted_list_of_set {k \<in> dom m. within a b k})"

definition limited :: "int \<Rightarrow> 'a list \<Rightarrow> 'a list" where
  "limited n xs = (if n > 0 then take (nat n) xs else xs)"

definition or_empty :: "bytes option \<Rightarrow> bytes" where
  "or_empty v = (case v of None \<Rightarrow> [] | Some x \<Rightarrow> x)"

definition kv_of :: "bytes \<times> bytes \<Rightarrow> KV" where
  "kv_of = (\<lambda>(k, v). \<lparr>kv_Key = k, kv_Value = v\<rparr>)"

lemma kv_Key_kv_of [simp]: "kv_Key (kv_of e) = fst e"
  by (cases e) (simp add: kv_of_def)

lemma entries_unique:
  assumes "sorted_wrt (<) (map fst kvs)" "map_of kvs = m |` Collect (within a b)"
  shows "map kv_of kvs = entries m a b"
proof -
  have d: "distinct (map fst kvs)" using assms(1) by (simp add: strict_sorted_iff)
  have "set (map fst kvs) = dom (map_of kvs)" by (simp add: dom_map_of_conv_image_fst)
  then have s: "set (map fst kvs) = {k \<in> dom m. within a b k}"
    unfolding assms(2) by auto
  have "map fst kvs = sorted_list_of_set {k \<in> dom m. within a b k}"
    by (rule strict_sorted_unique [OF assms(1)]) (simp_all flip: s)
  moreover have "kv_of e = \<lparr>kv_Key = fst e, kv_Value = the (m (fst e))\<rparr>" if "e \<in> set kvs" for e
  proof -
    obtain k v where e: "e = (k, v)" by fastforce
    with that d have "map_of kvs k = Some v" by (simp add: map_of_is_SomeI)
    then have "m k = Some v" unfolding assms(2) by (auto simp: restrict_map_def split: if_splits)
    then show ?thesis by (simp add: e kv_of_def)
  qed
  then have "map kv_of kvs = map (\<lambda>k. \<lparr>kv_Key = k, kv_Value = the (m k)\<rparr>) (map fst kvs)" by simp
  ultimately show ?thesis by (simp add: entries_def)
qed

lemma entries_keys:
  assumes "finite (dom m)"
  shows "map kv_Key (entries m a b) = sorted_list_of_set {k \<in> dom m. within a b k}"
  by (simp add: entries_def comp_def)

lemma entries_sorted: "sorted_wrt (<) (map kv_Key (entries m a b))"
  by (simp add: entries_def comp_def)

lemma set_entries:
  assumes "finite (dom m)"
  shows "set (entries m a b) = {\<lparr>kv_Key = k, kv_Value = v\<rparr> |k v. m k = Some v \<and> within a b k}"
proof -
  have "finite {k \<in> dom m. within a b k}" using assms by simp
  then show ?thesis by (auto simp: entries_def image_def)
qed

text \<open>Paging: what follows a page of full length are the entries after its last key.\<close>

lemma within_after: "within (k @ [CHR 0x00]) b x \<longleftrightarrow> k < x \<and> (b = [] \<or> x < b)"
proof -
  have "k @ [CHR 0x00] \<le> x \<longleftrightarrow> k < x"
  proof (induction k arbitrary: x)
    case Nil
    have z: "CHR 0x00 < c \<or> CHR 0x00 = c" for c
      using order.not_eq_order_implies_strict [of "CHR 0x00" c] by (auto simp: less_eq_char_def)
    show ?case using z by (cases x) auto
  next
    case (Cons c k)
    then show ?case by (cases x) auto
  qed
  then show ?thesis by (simp add: within_def)
qed

lemma sorted_after_filter:
  assumes "sorted_wrt (<) (xs @ k # ys)"
  shows "filter (\<lambda>x. (k :: 'a :: linorder) < x) (xs @ k # ys) = ys"
proof -
  have "filter (\<lambda>x. k < x) xs = []" using assms by (auto simp: filter_empty_conv sorted_wrt_append)
  moreover have "filter (\<lambda>x. k < x) ys = ys" using assms by (auto simp: filter_id_conv sorted_wrt_append)
  ultimately show ?thesis by simp
qed

lemma sorted_list_of_set_filter:
  assumes "finite A"
  shows "filter P (sorted_list_of_set A) = sorted_list_of_set {x \<in> A. P x}"
  by (rule strict_sorted_unique) (use assms in \<open>auto intro: sorted_wrt_filter\<close>)

lemma entries_after:
  assumes "finite (dom m)" "entries m a b = xs @ e # ys"
  shows "entries m (kv_Key e @ [CHR 0x00]) b = ys"
proof -
  let ?A = "{k \<in> dom m. within a b k}" and ?f = "\<lambda>k. \<lparr>kv_Key = k, kv_Value = the (m k)\<rparr>"
  have fin: "finite ?A" using assms(1) by simp
  obtain us k vs where s: "sorted_list_of_set ?A = us @ k # vs" "xs = map ?f us" "e = ?f k" "ys = map ?f vs"
    using assms(2) by (auto simp: entries_def map_eq_append_conv)
  have "k \<in> ?A" using s(1) fin by (metis in_set_conv_decomp set_sorted_list_of_set)
  then have "{x \<in> dom m. within (k @ [CHR 0x00]) b x} = {x \<in> ?A. k < x}"
    by (simp only: within_after) (auto simp: within_def)
  then have "sorted_list_of_set {x \<in> dom m. within (k @ [CHR 0x00]) b x} = vs"
    using sorted_list_of_set_filter [OF fin, of "\<lambda>x. k < x"]
      sorted_after_filter [of us k vs] s(1) strict_sorted_list_of_set [of ?A] by simp
  with s show ?thesis by (simp add: entries_def)
qed

subsection \<open>The contract of a state machine\<close>

text \<open>The effect of a command on a map, one key at a time: every key keeps its value or gets a value that
  does not depend on the map.\<close>

definition key_local :: "((bytes \<rightharpoonup> bytes) \<Rightarrow> (bytes \<rightharpoonup> bytes)) \<Rightarrow> bool" where
  "key_local f \<longleftrightarrow> (\<forall>k. (\<forall>m. f m k = m k) \<or> (\<exists>v. \<forall>m. f m k = v))"

lemma key_local_id [simp]: "key_local id" "key_local (\<lambda>m. m)"
  by (simp_all add: key_local_def)

lemma key_local_comp: "key_local f \<Longrightarrow> key_local g \<Longrightarrow> key_local (g \<circ> f)"
  unfolding key_local_def by (metis comp_apply)

lemma key_local_fold: "(\<And>c. key_local (f c)) \<Longrightarrow> key_local (fold f cs)"
  by (induction cs) (simp_all add: key_local_comp comp_def [symmetric])

lemma key_local_replay: "key_local f \<Longrightarrow> f (f m) = f m"
  unfolding key_local_def by (rule ext) metis

text \<open>A command of the data plane writes no metadata key.\<close>

definition user_command :: "Command \<Rightarrow> bool" where
  "user_command c \<longleftrightarrow> (cmd_Operation c = OperationPut \<longrightarrow> \<not> isMetaKey (cmd_Key c))"

text \<open>Apply commands in order, stopping at the first error.\<close>

fun apply_all :: "('s \<Rightarrow> Command \<Rightarrow> 's \<times> ('e + Result)) \<Rightarrow> 's \<Rightarrow> Command list \<Rightarrow> 's \<times> 'e option" where
  "apply_all f s [] = (s, None)"
| "apply_all f s (c # cs) =
     (case f s c of (s', Inl e) \<Rightarrow> (s', Some e) | (s', Inr r) \<Rightarrow> apply_all f s' cs)"

locale State_Machine =
  fixes inv :: "'s \<Rightarrow> bool"
    and view :: "'s \<Rightarrow> (bytes \<rightharpoonup> bytes)"
    and exec :: "Command \<Rightarrow> (bytes \<rightharpoonup> bytes) \<Rightarrow> (bytes \<rightharpoonup> bytes)"
    and apply_cmd :: "'s \<Rightarrow> Command \<Rightarrow> 's \<times> ('e + Result)"
    and get :: "'s \<Rightarrow> bytes \<Rightarrow> 'e + bytes"
    and scan :: "'s \<Rightarrow> bytes \<Rightarrow> bytes \<Rightarrow> int \<Rightarrow> 'e + KV list"
  assumes finite_view: "inv s \<Longrightarrow> finite (dom (view s))"
    and view_user: "inv s \<Longrightarrow> view s k = Some v \<Longrightarrow> \<not> isMetaKey k"
    and exec_local: "key_local (exec c)"
    and apply_ok: "inv s \<Longrightarrow> user_command c \<Longrightarrow> apply_cmd s c = (s', Inr r) \<Longrightarrow>
      inv s' \<and> view s' = exec c (view s)"
    and get_ok: "inv s \<Longrightarrow> \<not> isMetaKey k \<Longrightarrow> get s k = Inr v \<Longrightarrow> v = or_empty (view s k)"
    and scan_ok: "inv s \<Longrightarrow> scan s a b n = Inr items \<Longrightarrow> items = limited n (entries (view s) a b)"
begin

lemma apply_all_ok:
  "inv s \<Longrightarrow> list_all user_command cs \<Longrightarrow> apply_all apply_cmd s cs = (s', None) \<Longrightarrow>
     inv s' \<and> view s' = fold exec cs (view s)"
proof (induction cs arbitrary: s)
  case (Cons c cs)
  then obtain s1 r where 1: "apply_cmd s c = (s1, Inr r)" "apply_all apply_cmd s1 cs = (s', None)"
    by (auto split: prod.splits sum.splits)
  with apply_ok [OF Cons.prems(1) _ 1(1)] Cons.IH [of s1] Cons.prems(2) show ?case by simp
qed simp

text \<open>Applying a suffix of the history again changes nothing.\<close>

lemma replay_suffix:
  assumes "inv s" "list_all user_command (xs @ ys)"
    "apply_all apply_cmd s (xs @ ys) = (s1, None)" "apply_all apply_cmd s1 ys = (s2, None)"
  shows "inv s2 \<and> view s2 = view s1"
proof -
  have 1: "inv s1" "view s1 = fold exec ys (fold exec xs (view s))"
    using apply_all_ok [OF assms(1-3)] by simp_all
  have 2: "inv s2" "view s2 = fold exec ys (view s1)"
    using apply_all_ok [OF 1(1) _ assms(4)] assms(2) by simp_all
  show ?thesis
    using 1 2 key_local_replay [OF key_local_fold [of exec, OF exec_local]] by simp
qed

text \<open>A scan that continues after the last key of a full page finds exactly the rest.\<close>

lemma scan_pages:
  assumes "inv s" "0 < n" "scan s a b n = Inr page" "int (length page) = n"
    "scan s (kv_Key (last page) @ [CHR 0x00]) b m = Inr next"
  shows "\<exists>rest. entries (view s) a b = page @ rest \<and> next = limited m rest"
proof -
  let ?E = "entries (view s) a b"
  have page: "page = take (nat n) ?E" using scan_ok [OF assms(1,3)] assms(2) by (simp add: limited_def)
  have "page \<noteq> []" using assms(2,4) by auto
  then have "?E = butlast page @ last page # drop (nat n) ?E"
    by (metis append_butlast_last_id append_Cons append_Nil append_assoc append_take_drop_id page)
  from entries_after [OF finite_view [OF assms(1)] this]
  have "next = limited m (drop (nat n) ?E)" using scan_ok [OF assms(1,5)] by simp
  moreover have "?E = page @ drop (nat n) ?E" unfolding page by simp
  ultimately show ?thesis by blast
qed

end

subsection \<open>The in-memory implementation\<close>

definition ms_view :: "MemoryStateMachine \<Rightarrow> (bytes \<rightharpoonup> bytes)" where
  "ms_view m = map_of (ms_data m)"

definition ms_inv :: "MemoryStateMachine \<Rightarrow> bool" where
  "ms_inv m \<longleftrightarrow> distinct (map fst (ms_data m)) \<and> list_all (\<lambda>(k, v). \<not> isMetaKey k) (ms_data m)"

definition ms_exec :: "Command \<Rightarrow> (bytes \<rightharpoonup> bytes) \<Rightarrow> (bytes \<rightharpoonup> bytes)" where
  "ms_exec c m =
     (if cmd_Operation c = OperationPut then m(cmd_Key c \<mapsto> cmd_Value c)
      else if cmd_Operation c = OperationDelete then m(cmd_Key c := None)
      else if cmd_Operation c = OperationDeletePrefix then
        (\<lambda>k. if HasPrefix k (cmd_Prefix c) then None else m k)
      else m)"

lemma hasPrefix_HasPrefix: "hasPrefix k p = HasPrefix k p"
  by (induction k p rule: hasPrefix.induct) (auto simp: HasPrefix_def)

lemma map_of_filter_key: "map_of (filter (\<lambda>(k, v). P k) d) = (\<lambda>k. if P k then map_of d k else None)"
  by (induction d) (auto simp: fun_eq_iff)

lemma ms_Apply_view: "ms_view (fst (ms_Apply m c)) = ms_exec c (ms_view m)"
proof -
  consider (put) "cmd_Operation c = OperationPut" | (del) "cmd_Operation c = OperationDelete"
    | (pre) "cmd_Operation c = OperationDeletePrefix"
    | (other) "cmd_Operation c \<notin> {OperationPut, OperationDelete, OperationDeletePrefix}" by blast
  then show ?thesis
  proof cases
    case put
    then show ?thesis by (simp add: ms_Apply_def ms_exec_def ms_view_def update_conv')
  next
    case del
    then show ?thesis
      by (cases "map_of (ms_data m) (cmd_Key c)")
        (auto simp: ms_Apply_def ms_exec_def ms_view_def delete_conv')
  next
    case pre
    have f: "(\<lambda>e. \<not> (case e of (key, _) \<Rightarrow> cmd_Prefix c = [] \<or> hasPrefix key (cmd_Prefix c))) =
        (\<lambda>(k, v). \<not> HasPrefix k (cmd_Prefix c))"
      by (auto simp: hasPrefix_HasPrefix HasPrefix_def)
    show ?thesis using pre
      unfolding ms_Apply_def Let_def f by (simp add: ms_exec_def ms_view_def map_of_filter_key fun_eq_iff)
  next
    case other
    then show ?thesis by (simp add: ms_Apply_def ms_exec_def ms_view_def)
  qed
qed

lemma set_AList_put: "set (AList.update k v d) \<subseteq> insert (k, v) (set d)"
  by (induction d) auto

lemma ms_Apply_inv:
  assumes "ms_inv m" "user_command c"
  shows "ms_inv (fst (ms_Apply m c))"
proof -
  let ?ok = "\<lambda>d. distinct (map fst d) \<and> list_all (\<lambda>(k, v). \<not> isMetaKey k) d"
  have f: "?ok (filter P (ms_data m))" for P
    using assms(1) by (auto simp: ms_inv_def list_all_iff distinct_map intro: inj_on_subset)
  have d: "?ok (AList.delete k (ms_data m))" for k
    using f by (simp add: AList.delete_eq)
  have u: "?ok (AList.update k v (ms_data m))" if "\<not> isMetaKey k" for k v
    using assms(1) that set_AList_put [of k v "ms_data m"]
    by (auto simp: ms_inv_def list_all_iff intro: distinct_update)
  show ?thesis
    using f d u assms
    by (auto simp: ms_Apply_def ms_inv_def user_command_def Let_def split: option.splits prod.splits if_splits)
qed

lemma ms_scan_loop_eq:
  "0 < n \<longrightarrow> int (length items) < n \<Longrightarrow>
   ms_scan_loop d a b n keys items =
     limited n (items @ map (\<lambda>k. \<lparr>kv_Key = k, kv_Value = or_empty (map_of d k)\<rparr>) (filter (within a b) keys))"
proof (induction keys arbitrary: items)
  case Nil
  then show ?case by (auto simp: limited_def)
next
  case (Cons k keys)
  have w: "within a b k \<longleftrightarrow> \<not> (a \<noteq> [] \<and> k < a) \<and> \<not> (b \<noteq> [] \<and> b \<le> k)"
    by (cases "a = []") (auto simp: within_def not_less not_le)
  show ?case
  proof (cases "within a b k")
    case False
    then have "ms_scan_loop d a b n (k # keys) items = ms_scan_loop d a b n keys items"
      using w by auto
    with Cons False show ?thesis by simp
  next
    case True
    let ?e = "\<lparr>kv_Key = k, kv_Value = or_empty (map_of d k)\<rparr>"
    have e: "(case map_of d k of None \<Rightarrow> [] | Some v \<Rightarrow> v) = or_empty (map_of d k)"
      by (simp add: or_empty_def)
    have step: "ms_scan_loop d a b n (k # keys) items =
        (if n > 0 \<and> int (length (items @ [?e])) \<ge> n then items @ [?e]
         else ms_scan_loop d a b n keys (items @ [?e]))"
      using True unfolding w ms_scan_loop.simps e Let_def by (simp only: if_False simp_thms not_le not_less)
    show ?thesis
    proof (cases "n > 0 \<and> int (length (items @ [?e])) \<ge> n")
      case full: True
      with Cons.prems have "nat n = length (items @ [?e])" by auto
      with full True step show ?thesis by (simp add: limited_def)
    next
      case False
      have "ms_scan_loop d a b n (k # keys) items = ms_scan_loop d a b n keys (items @ [?e])"
        unfolding step using False by (rule if_not_P)
      with Cons.IH [of "items @ [?e]"] False True show ?thesis by auto
    qed
  qed
qed

lemma ms_Scan_entries:
  assumes "ms_inv m"
  shows "ms_Scan m a b n = limited n (entries (ms_view m) a b)"
proof -
  let ?ks = "sort (map fst (ms_data m))"
  have "filter (within a b) ?ks = sorted_list_of_set {k \<in> dom (ms_view m). within a b k}"
    by (rule strict_sorted_unique)
      (use assms in \<open>auto simp: strict_sorted_iff ms_inv_def ms_view_def dom_map_of_conv_image_fst
        intro!: sorted_filter [where f = id, simplified] distinct_filter\<close>)
  moreover have "map (\<lambda>k. \<lparr>kv_Key = k, kv_Value = or_empty (ms_view m k)\<rparr>)
      (sorted_list_of_set {k \<in> dom (ms_view m). within a b k}) = entries (ms_view m) a b"
    unfolding entries_def by (auto simp: or_empty_def ms_view_def finite_dom_map_of)
  ultimately show ?thesis
    by (simp add: ms_Scan_def ms_scan_loop_eq ms_view_def [symmetric])
qed

lemma ms_exec_local: "key_local (ms_exec c)"
  unfolding key_local_def ms_exec_def by (auto simp: fun_upd_def)

interpretation ms: State_Machine ms_inv ms_view ms_exec
  "\<lambda>m c. (case ms_Apply m c of (m', r) \<Rightarrow> (m', Inr r :: storage_error + Result))"
  "\<lambda>m k. Inr (ms_Get m k)" "\<lambda>m a b n. Inr (ms_Scan m a b n)"
proof unfold_locales
  fix s s' :: MemoryStateMachine and c and r :: Result
  assume "ms_inv s" "user_command c"
    and a: "(case ms_Apply s c of (m', r) \<Rightarrow> (m', Inr r :: storage_error + Result)) = (s', Inr r)"
  from a have "s' = fst (ms_Apply s c)" by (auto split: prod.splits)
  with \<open>ms_inv s\<close> \<open>user_command c\<close> show "ms_inv s' \<and> ms_view s' = ms_exec c (ms_view s)"
    by (simp add: ms_Apply_view ms_Apply_inv)
next
  fix s :: MemoryStateMachine and k v
  assume "ms_inv s" "ms_view s k = Some v"
  then show "\<not> isMetaKey k"
    by (auto simp: ms_inv_def ms_view_def list_all_iff dest: map_of_SomeD)
next
  fix s :: MemoryStateMachine and k v
  assume "(Inr (ms_Get s k) :: storage_error + bytes) = Inr v"
  then show "v = or_empty (ms_view s k)" by (simp add: ms_Get_def or_empty_def ms_view_def)
next
  fix s :: MemoryStateMachine and a b n items
  assume "ms_inv s" "(Inr (ms_Scan s a b n) :: storage_error + KV list) = Inr items"
  then show "items = limited n (entries (ms_view s) a b)" by (simp add: ms_Scan_entries)
qed (simp_all add: ms_view_def finite_dom_map_of ms_exec_local)

subsection \<open>The Pebble implementation\<close>

text \<open>The whole contents of an open store, and the business keys among them.\<close>

definition ps_contents :: "'db PebbleStore \<Rightarrow> (bytes \<rightharpoonup> bytes)" where
  "ps_contents s = (case ps_db s of None \<Rightarrow> (\<lambda>k. None) | Some db \<Rightarrow> pb_view (ps_pebble s) db)"

definition ps_view :: "'db PebbleStore \<Rightarrow> (bytes \<rightharpoonup> bytes)" where
  "ps_view s = (\<lambda>k. if isMetaKey k then None else ps_contents s k)"

definition ps_inv :: "'db PebbleStore \<Rightarrow> bool" where
  "ps_inv s \<longleftrightarrow> pebble_ok (ps_pebble s)"

definition ps_exec :: "Command \<Rightarrow> (bytes \<rightharpoonup> bytes) \<Rightarrow> (bytes \<rightharpoonup> bytes)" where
  "ps_exec c m = (case command_batch c of None \<Rightarrow> m | Some ops \<Rightarrow> apply_ops ops m)"

lemma apply_ops_simps [simp]:
  "apply_ops [] m = m" "apply_ops (o1 # ops) m = apply_ops ops (apply_op o1 m)"
  "apply_ops (ops @ ops') m = apply_ops ops' (apply_ops ops m)"
  by (simp_all add: apply_ops_def)

lemma ps_finite: "ps_inv s \<Longrightarrow> finite (dom (ps_contents s))"
  by (simp add: ps_inv_def pebble_ok_def ps_contents_def split: option.splits)

lemma ps_finite_view: "ps_inv s \<Longrightarrow> finite (dom (ps_view s))"
  by (rule finite_subset [OF _ ps_finite]) (auto simp: ps_view_def split: if_splits)

lemma getDB_Inr: "getDB s = Inr db \<longleftrightarrow> ps_db s = Some db"
  by (auto simp: getDB_def split: option.splits)

lemma commit_ok:
  assumes "ps_inv s" "commit s db ops = (s', None)" "ps_db s = Some db"
  shows "ps_inv s'" "ps_contents s' = apply_ops ops (ps_contents s)" "ps_pebble s' = ps_pebble s"
    "\<exists>db'. ps_db s' = Some db'"
proof -
  obtain db' where c: "pb_commit (ps_pebble s) db ops = (db', None)" and s': "s' = s\<lparr>ps_db := Some db'\<rparr>"
    using assms(2) by (auto simp: commit_def split: prod.splits)
  show "ps_inv s'" "ps_pebble s' = ps_pebble s" using assms(1) s' by (simp_all add: ps_inv_def)
  show "\<exists>db'. ps_db s' = Some db'" using s' by simp
  have "pb_view (ps_pebble s) db' = apply_ops ops (pb_view (ps_pebble s) db)"
    using assms(1) c unfolding ps_inv_def pebble_ok_def by blast
  then show "ps_contents s' = apply_ops ops (ps_contents s)"
    by (simp add: ps_contents_def s' assms(3))
qed

lemma pb_get_ok:
  assumes "ps_inv s" "ps_db s = Some db" "pb_get (ps_pebble s) db k = Inr v"
  shows "v = ps_contents s k"
  using assms unfolding ps_inv_def pebble_ok_def ps_contents_def by simp

text \<open>An iterator's records, complete up to an error at the end.\<close>

lemma pb_iter_ok:
  assumes "ps_inv s" "ps_db s = Some db" "pb_iter (ps_pebble s) db a b = Inr (kvs, err)"
  obtains tail where "sorted_wrt (<) (map fst (kvs @ tail))"
    "map_of (kvs @ tail) = ps_contents s |` Collect (within a b)" "err = None \<Longrightarrow> tail = []"
proof (cases err)
  case None
  then have "sorted_wrt (<) (map fst kvs)" "map_of kvs = ps_contents s |` Collect (within a b)"
    using assms unfolding ps_inv_def pebble_ok_def ps_contents_def by simp_all
  then show ?thesis using that [of "[]"] by simp
next
  case (Some e)
  with assms obtain tail where "sorted_wrt (<) (map fst (kvs @ tail))"
    "map_of (kvs @ tail) = pb_view (ps_pebble s) db |` Collect (within a b)"
    unfolding ps_inv_def pebble_ok_def by blast
  with that assms(2) Some show ?thesis by (simp add: ps_contents_def)
qed

lemma ps_scan_loop_eq:
  "0 < n \<longrightarrow> int (length items) < n \<Longrightarrow>
   fst (ps_scan_loop n kvs items) = limited n (items @ map kv_of (filter (\<lambda>(k, v). \<not> isMetaKey k) kvs)) \<and>
   (\<not> snd (ps_scan_loop n kvs items) \<longrightarrow>
      0 < n \<and> int (length (items @ map kv_of (filter (\<lambda>(k, v). \<not> isMetaKey k) kvs))) \<ge> n)"
proof (induction kvs arbitrary: items)
  case Nil
  then show ?case by (auto simp: limited_def)
next
  case (Cons e kvs)
  obtain k v where e: "e = (k, v)" by fastforce
  show ?case
  proof (cases "isMetaKey k")
    case True
    with Cons.IH [of items] Cons.prems e show ?thesis by auto
  next
    case False
    let ?i = "items @ [\<lparr>kv_Key = k, kv_Value = v\<rparr>]"
    show ?thesis
    proof (cases "n > 0 \<and> int (length ?i) \<ge> n")
      case True
      with Cons.prems have "nat n = length ?i" by auto
      with True False e show ?thesis by (simp add: limited_def Let_def kv_of_def)
    next
      case full: False
      then have "ps_scan_loop n (e # kvs) items = ps_scan_loop n kvs ?i"
        using False e by (auto simp: Let_def)
      with Cons.IH [of ?i] full False e show ?thesis by (auto simp: kv_of_def)
    qed
  qed
qed

lemma limited_prefix:
  "0 < n \<Longrightarrow> int (length xs) \<ge> n \<Longrightarrow> limited n (xs @ ys) = limited n xs"
  by (simp add: limited_def nat_le_iff)

lemma restrict_filter:
  assumes "distinct (map fst kvs)" "map_of kvs = m |` A"
  shows "map_of (filter (\<lambda>(k, v). P k) kvs) = (\<lambda>k. if P k then m k else None) |` A"
  unfolding map_of_filter_key assms(2) by (auto simp: restrict_map_def)

lemma ps_Scan_entries:
  assumes "ps_inv s" "ps_Scan s a b n = Inr items"
  shows "items = limited n (entries (ps_view s) a b)"
proof -
  let ?f = "filter (\<lambda>(k, v). \<not> isMetaKey k)"
  obtain db where db: "ps_db s = Some db" using assms(2) by (auto simp: ps_Scan_def getDB_Inr)
  then obtain kvs err where it: "pb_iter (ps_pebble s) db a b = Inr (kvs, err)"
    using assms(2) by (cases "pb_iter (ps_pebble s) db a b") (auto simp: ps_Scan_def getDB_def)
  from pb_iter_ok [OF assms(1) db it] obtain tail where
    t: "sorted_wrt (<) (map fst (kvs @ tail))" "map_of (kvs @ tail) = ps_contents s |` Collect (within a b)"
      "err = None \<Longrightarrow> tail = []" by blast
  have e: "map kv_of (?f (kvs @ tail)) = entries (ps_view s) a b"
  proof (rule entries_unique)
    show "sorted_wrt (<) (map fst (?f (kvs @ tail)))" by (rule sorted_wrt_filter_fst [OF t(1)])
    have "(\<lambda>k. if \<not> isMetaKey k then ps_contents s k else None) = ps_view s"
      by (auto simp: ps_view_def)
    with restrict_filter [OF _ t(2), of "\<lambda>k. \<not> isMetaKey k"] t(1)
    show "map_of (?f (kvs @ tail)) = ps_view s |` Collect (within a b)"
      by (simp add: strict_sorted_iff)
  qed
  obtain items' finished where l: "ps_scan_loop n kvs [] = (items', finished)" by fastforce
  have i: "items' = items" and ef: "err \<noteq> None \<Longrightarrow> \<not> finished"
    using assms(2) db it l by (auto simp: ps_Scan_def getDB_def split: option.splits if_splits)
  have items: "items = limited n (map kv_of (?f kvs))"
    and full: "\<not> finished \<Longrightarrow> 0 < n \<and> int (length (map kv_of (?f kvs))) \<ge> n"
    using ps_scan_loop_eq [of n "[]" kvs] l i by auto
  show ?thesis
  proof (cases "err = None")
    case True
    with items e t(3) show ?thesis by simp
  next
    case False
    with full ef limited_prefix items e show ?thesis by (metis filter_append map_append)
  qed
qed

lemma ps_exec_local: "key_local (ps_exec c)"
  unfolding key_local_def ps_exec_def command_batch_def by (auto simp: fun_upd_def)

text \<open>A committed command acts on the business keys as on the whole contents.\<close>

lemma ps_exec_user:
  assumes "user_command c"
  shows "(\<lambda>k. if isMetaKey k then None else ps_exec c m k) = ps_exec c (\<lambda>k. if isMetaKey k then None else m k)"
  using assms by (auto simp: ps_exec_def command_batch_def user_command_def fun_eq_iff)

lemma ps_Apply_ok:
  assumes "ps_inv s" "ps_Apply s c = (s', Inr r)"
  shows "ps_inv s'" "ps_contents s' = ps_exec c (ps_contents s)" "ps_pebble s' = ps_pebble s"
    "\<exists>db. ps_db s' = Some db"
proof -
  obtain db where db: "ps_db s = Some db"
    using assms(2) by (auto simp: ps_Apply_def getDB_def split: option.splits)
  show "ps_inv s'" "ps_contents s' = ps_exec c (ps_contents s)" "ps_pebble s' = ps_pebble s"
    "\<exists>db. ps_db s' = Some db"
  proof -
    have "ps_inv s' \<and> ps_contents s' = ps_exec c (ps_contents s) \<and> ps_pebble s' = ps_pebble s \<and> (\<exists>db. ps_db s' = Some db)"
    proof (cases "command_batch c")
      case None
      with assms db show ?thesis by (simp add: ps_Apply_def getDB_def ps_exec_def)
    next
      case (Some ops)
      with assms(2) db have "commit s db ops = (s', None)"
        by (auto simp: ps_Apply_def getDB_def split: prod.splits option.splits)
      from commit_ok [OF assms(1) this db] Some show ?thesis by (simp add: ps_exec_def)
    qed
    then show "ps_inv s'" "ps_contents s' = ps_exec c (ps_contents s)" "ps_pebble s' = ps_pebble s"
      "\<exists>db. ps_db s' = Some db" by blast+
  qed
qed

lemma ps_Get_ok:
  assumes "ps_inv s" "ps_Get s k = Inr v"
  shows "v = or_empty (ps_contents s k)"
proof -
  obtain db where db: "ps_db s = Some db" using assms(2) by (auto simp: ps_Get_def getDB_Inr)
  obtain w where g: "pb_get (ps_pebble s) db k = Inr w"
    using assms(2) db by (auto simp: ps_Get_def getDB_def split: sum.splits)
  with pb_get_ok [OF assms(1) db g] assms(2) db show ?thesis
    by (auto simp: ps_Get_def getDB_def or_empty_def split: option.splits)
qed

interpretation ps: State_Machine ps_inv ps_view ps_exec ps_Apply ps_Get ps_Scan
proof unfold_locales
  fix s s' :: "'a PebbleStore" and c r
  assume a: "ps_inv s" "user_command c" "ps_Apply s c = (s', Inr r)"
  from ps_Apply_ok [OF a(1,3)] ps_exec_user [OF a(2)]
  show "ps_inv s' \<and> ps_view s' = ps_exec c (ps_view s)" by (simp only: ps_view_def simp_thms)
next
  fix s :: "'a PebbleStore" and k v
  assume "ps_inv s" "\<not> isMetaKey k" "ps_Get s k = Inr v"
  with ps_Get_ok show "v = or_empty (ps_view s k)" by (simp add: ps_view_def)
next
  fix s :: "'a PebbleStore" and k v
  assume "ps_view s k = Some v"
  then show "\<not> isMetaKey k" by (auto simp: ps_view_def split: if_splits)
qed (simp_all add: ps_finite_view ps_exec_local ps_Scan_entries)

subsection \<open>A Pebble that never fails\<close>

text \<open>An association list with the operations of Pebble: an instance of \<open>pebble_ok\<close>.\<close>

fun list_op :: "batch_op \<Rightarrow> (bytes, bytes) gomap \<Rightarrow> (bytes, bytes) gomap" where
  "list_op (BSet k v) m = AList.update k v m"
| "list_op (BDelete k) m = AList.delete k m"
| "list_op (BDeleteRange a b) m = filter (\<lambda>(k, v). \<not> (a \<le> k \<and> k < b)) m"

definition list_pebble :: "(bytes, bytes) gomap pebble" where
  "list_pebble =
     \<lparr>pb_open = (\<lambda>path. Inr []), pb_close = (\<lambda>db. None),
      pb_get = (\<lambda>db k. Inr (map_of db k)),
      pb_commit = (\<lambda>db ops. (fold list_op ops db, None)),
      pb_iter = (\<lambda>db a b. Inr (sort_key fst (filter (\<lambda>(k, v). within a b k) (AList.clearjunk db)), None)),
      pb_view = map_of\<rparr>"

lemma map_of_list_op: "map_of (list_op o1 m) = apply_op o1 (map_of m)"
proof (cases o1)
  case (BDeleteRange a b)
  have "map_of (filter (\<lambda>(k, v). \<not> (a \<le> k \<and> k < b)) m) = (\<lambda>k. if \<not> (a \<le> k \<and> k < b) then map_of m k else None)"
    by (rule map_of_filter_key)
  with BDeleteRange show ?thesis by auto
qed (simp_all add: update_conv' delete_conv')

lemma map_of_list_ops: "map_of (fold list_op ops m) = apply_ops ops (map_of m)"
  by (induction ops arbitrary: m) (simp_all add: map_of_list_op)

lemma map_of_sort_key:
  "distinct (map fst m) \<Longrightarrow> map_of (sort_key fst m) = map_of (m :: (bytes, bytes) gomap)"
  by (rule iffD2 [OF map_of_inject_set]) (auto simp: distinct_map)

lemma distinct_sort_key_fst: "distinct (map fst m) \<Longrightarrow> distinct (map fst (sort_key fst m))"
  by (auto simp: distinct_map)

lemma list_pebble_ok: "pebble_ok list_pebble"
proof -
  have i: "sorted_wrt (<) (map fst (sort_key fst (filter (\<lambda>(k, v). within a b k) (AList.clearjunk db)))) \<and>
      map_of (sort_key fst (filter (\<lambda>(k, v). within a b k) (AList.clearjunk db))) =
        map_of db |` Collect (within a b)" for db :: "(bytes, bytes) gomap" and a b
  proof -
    let ?f = "filter (\<lambda>(k, v). within a b k) (AList.clearjunk db)"
    have d: "distinct (map fst ?f)"
      by (rule distinct_map_filter) (rule distinct_clearjunk)
    have "map_of (sort_key fst ?f) = map_of ?f" by (rule map_of_sort_key [OF d])
    also have "\<dots> = (\<lambda>k. if within a b k then map_of (AList.clearjunk db) k else None)"
      by (rule map_of_filter_key)
    also have "\<dots> = map_of db |` Collect (within a b)"
      by (auto simp: restrict_map_def map_of_clearjunk)
    finally show ?thesis using distinct_sort_key_fst [OF d] by (simp add: strict_sorted_iff)
  qed
  show ?thesis
    by (simp add: pebble_ok_def list_pebble_def finite_dom_map_of map_of_list_ops i)
qed

subsection \<open>Records as JSON\<close>

lemma field_for_set: "field_for fs k = Some f \<Longrightarrow> f \<in> snd ` set fs"
proof (cases "map_of fs k")
  case None
  assume "field_for fs k = Some f"
  with None obtain n where "find (\<lambda>(n, f). fold_name n = fold_name k) fs = Some (n, f)"
    by (auto simp: field_for_def)
  then have "(n, f) \<in> set fs" by (auto simp: find_Some_iff in_set_conv_nth)
  then show ?thesis by force
next
  case (Some g)
  assume "field_for fs k = Some f"
  with Some have "(k, f) \<in> set fs" by (auto simp: field_for_def dest!: map_of_SomeD)
  then show ?thesis by force
qed

lemmas field_simps = field_for_hit field_def omitempty_def sanitize_ascii

lemma kv_json [simp]:
  "wf_json (kv_to_json i)" "clean_json (kv_to_json i) = kv_to_json i"
  "into_struct kv_fields (kv_to_json i) zero_kv = Some i"
  by (simp_all add: kv_to_json_def sanitize_ascii kv_fields_def field_simps zero_kv_def)

lemma command_json:
  "wf_json (command_to_json c)"
  "into_struct command_fields (clean_json (command_to_json c)) zero_command =
     Some (c\<lparr>cmd_Operation := sanitize (cmd_Operation c)\<rparr>)"
  by (simp_all add: command_to_json_def command_fields_def field_simps zero_command_def)

definition clean_member :: "MemberAddress \<Rightarrow> MemberAddress" where
  "clean_member m = m\<lparr>ma_HTTPAddr := sanitize (ma_HTTPAddr m), ma_GRPCAddr := sanitize (ma_GRPCAddr m),
     ma_AdminAddr := sanitize (ma_AdminAddr m)\<rparr>"

lemma clean_member_NodeID [simp]: "ma_NodeID (clean_member m) = ma_NodeID m"
  by (simp add: clean_member_def)

lemma member_json:
  "wf_json (member_to_json m)"
  "into_struct member_fields (clean_json (member_to_json m)) zero_member = Some (clean_member m)"
  by (simp_all add: member_to_json_def member_fields_def field_simps zero_member_def clean_member_def)

lemma decode_mustJSON [simp]: "decode_member (mustJSON m) = Some (clean_member m)"
  by (simp add: decode_member_def mustJSON_def Unmarshal_Marshal member_json)

text \<open>The strings of a decoded member are well formed.\<close>

lemma into_string_clean: "clean_json j = j \<Longrightarrow> sanitize x = x \<Longrightarrow> into_string j x = Some y \<Longrightarrow> sanitize y = y"
  by (cases j) auto

lemma put_member_clean:
  assumes "clean_json j = j" "clean_member x = x" "f \<in> snd ` set member_fields" "f j x = Some y"
  shows "clean_member y = y"
proof -
  have x: "sanitize (ma_HTTPAddr x) = ma_HTTPAddr x" "sanitize (ma_GRPCAddr x) = ma_GRPCAddr x"
    "sanitize (ma_AdminAddr x) = ma_AdminAddr x"
    using assms(2) by (cases x; auto simp: clean_member_def)+
  show ?thesis
    using assms(1,3,4) x into_string_clean [OF assms(1)]
    by (auto simp: member_fields_def field_def clean_member_def)
qed

lemma put_members_clean:
  "clean_members ms = ms \<Longrightarrow> clean_member x = x \<Longrightarrow> put_fields member_fields ms x = Some y \<Longrightarrow> clean_member y = y"
proof (induction ms arbitrary: x)
  case (Cons e ms)
  obtain k j where e: "e = (k, j)" by fastforce
  from Cons.prems(1) e have c: "clean_json j = j" "clean_members ms = ms" by auto
  show ?case
  proof (cases "field_for member_fields k")
    case None
    with Cons e c show ?thesis by simp
  next
    case (Some f)
    with Cons.prems(3) e obtain x' where f: "f j x = Some x'" "put_fields member_fields ms x' = Some y"
      by (auto split: option.splits)
    from put_member_clean [OF c(1) Cons.prems(2) field_for_set [OF Some] f(1)] Cons.IH [OF c(2) _ f(2)]
    show ?thesis by blast
  qed
qed simp

lemma decode_member_clean:
  assumes "decode_member v = Some m"
  shows "clean_member m = m"
proof -
  obtain j where j: "parse_json v = Some j" "into_struct member_fields j zero_member = Some m"
    using assms by (auto simp: decode_member_def Unmarshal_def split: option.splits)
  have "clean_member zero_member = zero_member" by (simp add: clean_member_def zero_member_def)
  with j parse_json_clean [OF j(1)] put_members_clean [of _ zero_member m] show ?thesis
    by (cases j) auto
qed

lemma payload_json:
  assumes "list_all (\<lambda>m. clean_member m = m) (sp_Members p)"
  shows "decodeSnapshotPayload (Encode payload_to_json p) = Some p"
proof -
  have w: "wf_json (payload_to_json p)"
    by (auto simp: payload_to_json_def wf_elems_iff member_json omitempty_def)
  have d: "into_slice (into_struct kv_fields) zero_kv (JArr (map kv_to_json (sp_Data p))) [] = Some (sp_Data p)"
    by (rule into_slice_map) simp
  have m: "into_slice (into_struct member_fields) zero_member
      (JArr (map (clean_json \<circ> member_to_json) (sp_Members p))) [] = Some (sp_Members p)"
    using assms by (intro into_slice_map) (auto simp: member_json list_all_iff)
  have "into_struct payload_fields (clean_json (payload_to_json p)) zero_payload = Some p"
    using d m by (cases p)
      (auto simp: payload_to_json_def payload_fields_def field_simps zero_payload_def comp_def)
  then show ?thesis
    by (simp add: decodeSnapshotPayload_def Unmarshal_Encode w)
qed

subsection \<open>Metadata\<close>

lemma isMetaKey_iff: "isMetaKey k \<longleftrightarrow> HasPrefix k ''__meta__/''"
proof -
  have "length p \<le> length k \<and> take (length p) k = p \<longleftrightarrow> HasPrefix k p" for p
    by (auto simp: HasPrefix_iff) (metis append_take_drop_id)
  then show ?thesis unfolding isMetaKey_def by blast
qed

lemma char_top: "c = CHR 0xFF \<or> c < CHR 0xFF"
proof (cases "(of_char c :: nat) < 255")
  case False
  then have "of_char c = (255 :: nat)" using nat_of_char_less_256 [of c] by linarith
  then have "c = char_of (255 :: nat)" by (metis char_of_char)
  moreover have "char_of (255 :: nat) = CHR 0xFF" by code_simp
  ultimately show ?thesis by simp
qed (simp add: less_char_def)

lemma prefix_range_top:
  fixes z :: char
  assumes "\<And>c. c = z \<or> c < z"
  shows "p \<le> k \<and> k < p @ [z] \<longleftrightarrow> HasPrefix k p \<and> \<not> HasPrefix k (p @ [z])"
proof (induction p arbitrary: k)
  case Nil
  show ?case
  proof (cases k)
    case (Cons c t)
    then show ?thesis using assms [of c] by (auto simp: HasPrefix_def)
  qed (simp add: HasPrefix_def)
next
  case (Cons c p)
  show ?case
  proof (cases k)
    case (Cons d t)
    then show ?thesis using Cons.IH [of t] by (cases "c = d") (auto simp: HasPrefix_def)
  qed (simp add: HasPrefix_def)
qed

lemmas prefix_range = prefix_range_top [OF char_top]

lemma member_range_iff:
  "within metaMembersPrefix memberPrefixEnd k \<longleftrightarrow>
     HasPrefix k metaMembersPrefix \<and> \<not> HasPrefix k (metaMembersPrefix @ [CHR 0xFF])"
  by (simp add: within_def memberPrefixEnd_def prefix_range)

lemma meta_facts [simp]:
  "isMetaKey metaAppliedIndexKey" "isMetaKey metaAppliedTermKey" "isMetaKey (memberAddressKey n)"
  "\<not> within metaMembersPrefix memberPrefixEnd metaAppliedIndexKey"
  "\<not> within metaMembersPrefix memberPrefixEnd metaAppliedTermKey"
  unfolding member_range_iff isMetaKey_iff
  by (simp_all add: metaAppliedIndexKey_def metaAppliedTermKey_def memberAddressKey_def
      metaMembersPrefix_def HasPrefix_def)

lemma member_range_meta: "within metaMembersPrefix memberPrefixEnd k \<Longrightarrow> isMetaKey k"
  unfolding member_range_iff isMetaKey_iff by (auto simp: HasPrefix_iff metaMembersPrefix_def)

lemma memberAddressKey_range [simp]: "within metaMembersPrefix memberPrefixEnd (memberAddressKey n)"
proof -
  obtain c t where c: "FormatUint (unat n) = c # t" by (cases "FormatUint (unat n)") auto
  then have "is_digit c" using FormatUint_digits [of "unat n"] by simp
  then have "c \<noteq> CHR 0xFF" by (auto simp: is_digit_def)
  with c show ?thesis by (simp add: member_range_iff memberAddressKey_def HasPrefix_def)
qed

lemma memberAddressKey_inject [simp]: "memberAddressKey n = memberAddressKey m \<longleftrightarrow> n = m"
  by (simp add: memberAddressKey_def word_unat_eq_iff)

text \<open>Every member record lies under the key of its node.\<close>

definition members_ok :: "'db PebbleStore \<Rightarrow> bool" where
  "members_ok s \<longleftrightarrow> (\<forall>k v. within metaMembersPrefix memberPrefixEnd k \<longrightarrow> ps_contents s k = Some v \<longrightarrow>
     (\<exists>m. decode_member v = Some m \<and> k = memberAddressKey (ma_NodeID m)))"

definition ps_member :: "'db PebbleStore \<Rightarrow> u64 \<Rightarrow> MemberAddress option" where
  "ps_member s n = (case ps_contents s (memberAddressKey n) of None \<Rightarrow> None | Some v \<Rightarrow> decode_member v)"

lemma ps_member_Some:
  assumes "members_ok s" "ps_member s n = Some m"
  shows "ma_NodeID m = n" "clean_member m = m"
  using assms unfolding members_ok_def ps_member_def
  by (auto split: option.splits dest: decode_member_clean) (metis memberAddressKey_inject memberAddressKey_range option.inject)

lemma iter_complete:
  assumes "ps_inv s" "ps_db s = Some db" "pb_iter (ps_pebble s) db a b = Inr (kvs, None)"
  shows "sorted_wrt (<) (map fst kvs)" "map_of kvs = ps_contents s |` Collect (within a b)"
    "set kvs = {(k, v). ps_contents s k = Some v \<and> within a b k}"
proof -
  obtain tail where t: "sorted_wrt (<) (map fst (kvs @ tail))"
    "map_of (kvs @ tail) = ps_contents s |` Collect (within a b)" "tail = []"
    using pb_iter_ok [OF assms] by blast
  then show s: "sorted_wrt (<) (map fst kvs)" and m: "map_of kvs = ps_contents s |` Collect (within a b)"
    by simp_all
  have "distinct (map fst kvs)" using s by (simp add: strict_sorted_iff)
  then have "(k, v) \<in> set kvs \<longleftrightarrow> map_of kvs k = Some v" for k v by simp
  then show "set kvs = {(k, v). ps_contents s k = Some v \<and> within a b k}"
    unfolding m by (auto simp: restrict_map_def split: if_splits)
qed

lemma those_Some_iff: "those (map f xs) = Some ys \<longleftrightarrow> map f xs = map Some ys"
proof (induction xs arbitrary: ys)
  case (Cons x xs)
  show ?case
  proof (cases "f x")
    case (Some y)
    then show ?thesis using Cons.IH by (cases ys) auto
  qed (auto simp: Cons_eq_map_conv)
qed auto

lemma ps_ListMemberAddresses_ok:
  assumes "ps_inv s" "members_ok s" "ps_ListMemberAddresses s = Inr ms"
  shows "sorted_wrt (<) (map ma_NodeID ms)" "set ms = {m. \<exists>n. ps_member s n = Some m}"
proof -
  obtain db where db: "ps_db s = Some db" using assms(3) by (auto simp: ps_ListMemberAddresses_def getDB_Inr)
  obtain kvs where it: "pb_iter (ps_pebble s) db metaMembersPrefix memberPrefixEnd = Inr (kvs, None)"
    using assms(3) db
    by (cases "pb_iter (ps_pebble s) db metaMembersPrefix memberPrefixEnd")
      (auto simp: ps_ListMemberAddresses_def getDB_def split: option.splits)
  obtain items where i: "those (map (decode_member \<circ> snd) kvs) = Some items" and ms: "ms = sort_key ma_NodeID items"
    using assms(3) db it by (auto simp: ps_ListMemberAddresses_def getDB_def split: option.splits)
  have dec: "map (decode_member \<circ> snd) kvs = map Some items" using i by (simp add: those_Some_iff)
  note ic = iter_complete [OF assms(1) db it]
  have key: "k = memberAddressKey (ma_NodeID m)" if "(k, v) \<in> set kvs" "decode_member v = Some m" for k v m
    using assms(2) that ic(3) unfolding members_ok_def by fastforce
  have len: "length items = length kvs" using dec by (metis length_map)
  have nth: "decode_member (snd (kvs ! j)) = Some (items ! j)" if "j < length kvs" for j
    using dec that len by (metis comp_apply nth_map)
  have keys: "map fst kvs = map (memberAddressKey \<circ> ma_NodeID) items"
    by (rule nth_equalityI) (use len nth key in \<open>auto simp: set_conv_nth, metis prod.collapse\<close>)
  then have "distinct (map ma_NodeID items)"
    using ic(1) by (simp add: strict_sorted_iff) (metis distinct_map map_map)
  then have "distinct (map ma_NodeID (sort_key ma_NodeID items))"
    by (auto simp: distinct_map)
  then show "sorted_wrt (<) (map ma_NodeID ms)" unfolding ms by (simp add: strict_sorted_iff)
  have "m \<in> set items \<longleftrightarrow> (\<exists>n. ps_member s n = Some m)" for m
  proof
    assume "m \<in> set items"
    then obtain j where "j < length kvs" "m = items ! j" using len by (auto simp: in_set_conv_nth)
    with nth obtain k v where kv: "(k, v) \<in> set kvs" "decode_member v = Some m"
      by (metis nth_mem prod.collapse)
    with key [OF kv] ic(3) show "\<exists>n. ps_member s n = Some m"
      by (intro exI [of _ "ma_NodeID m"]) (auto simp: ps_member_def)
  next
    assume "\<exists>n. ps_member s n = Some m"
    then obtain n v where "ps_contents s (memberAddressKey n) = Some v" "decode_member v = Some m"
      by (auto simp: ps_member_def split: option.splits)
    then have "(memberAddressKey n, v) \<in> set kvs" using ic(3) by simp
    then obtain j where "j < length kvs" "kvs ! j = (memberAddressKey n, v)" by (auto simp: in_set_conv_nth)
    with nth [of j] \<open>decode_member v = Some m\<close> len show "m \<in> set items" by (metis nth_mem option.inject snd_conv)
  qed
  then show "set ms = {m. \<exists>n. ps_member s n = Some m}" unfolding ms by auto
qed

subsection \<open>Snapshots\<close>

lemma apply_deletes: "apply_ops (map (BDelete \<circ> f) xs) m = (\<lambda>k. if k \<in> f ` set xs then None else m k)"
  by (induction xs arbitrary: m) auto

lemma apply_sets:
  "distinct (map f xs) \<Longrightarrow>
     apply_ops (map (\<lambda>x. BSet (f x) (g x)) xs) m = m ++ map_of (map (\<lambda>x. (f x, g x)) xs)"
proof (induction xs arbitrary: m)
  case (Cons x xs)
  have "map_of (map (\<lambda>x. (f x, g x)) xs) (f x) = None"
    using Cons.prems by (auto simp: map_of_eq_None_iff)
  then have "m(f x \<mapsto> g x) ++ map_of (map (\<lambda>x. (f x, g x)) xs) = m ++ map_of (map (\<lambda>x. (f x, g x)) (x # xs))"
    by (auto simp: map_add_def fun_eq_iff split: option.splits)
  moreover have "distinct (map f xs)" using Cons.prems by simp
  ultimately show ?case by (simp only: list.map apply_ops_simps apply_op.simps Cons.IH)
qed simp

lemma map_of_entries:
  assumes "finite (dom m)"
  shows "map_of (map (\<lambda>i. (kv_Key i, kv_Value i)) (entries m [] [])) = m"
proof -
  have d: "{k \<in> dom m. within [] [] k} = dom m" by (auto simp: within_def)
  show ?thesis
    unfolding entries_def d map_map comp_def using assms
    by (auto simp: map_of_map_restrict fun_eq_iff restrict_map_def domIff)
qed

lemma sort_key_sorted: "sorted (map f xs) \<Longrightarrow> sort_key f xs = xs"
  by (simp add: sort_key_id_if_sorted)

lemma ps_Snapshot_parts:
  assumes "ps_inv s" "members_ok s" "ps_Snapshot s = Inr snap"
  obtains ms where "snap = Encode payload_to_json \<lparr>sp_Data = entries (ps_view s) [] [], sp_Members = ms\<rparr>"
    "sorted_wrt (<) (map ma_NodeID ms)" "set ms = {m. \<exists>n. ps_member s n = Some m}"
proof -
  obtain items ms where 1: "ps_Scan s [] [] 0 = Inr items" "ps_ListMemberAddresses s = Inr ms"
    and snap: "snap = Encode payload_to_json \<lparr>sp_Data = sort_key kv_Key items, sp_Members = sort_key ma_NodeID ms\<rparr>"
    using assms(3) by (auto simp: ps_Snapshot_def)
  note m = ps_ListMemberAddresses_ok [OF assms(1,2) 1(2)]
  have "items = entries (ps_view s) [] []"
    using ps_Scan_entries [OF assms(1) 1(1)] by (simp add: limited_def)
  moreover have "sorted (map kv_Key (entries (ps_view s) [] []))"
    using entries_sorted strict_sorted_imp_sorted by blast
  moreover have "sorted (map ma_NodeID ms)" using m(1) strict_sorted_imp_sorted by blast
  ultimately show ?thesis using that [of ms] snap m by (simp add: sort_key_sorted)
qed

text \<open>What \<open>Restore\<close> leaves, for any payload with distinct business keys and distinct nodes.\<close>

lemma ps_Restore_contents:
  assumes "ps_inv t" "ps_Restore t raw = (t', None)" "decodeSnapshotPayload raw = Some p"
    "distinct (map kv_Key (sp_Data p))" "distinct (map ma_NodeID (sp_Members p))"
  shows "ps_inv t' \<and> ps_contents t' =
     (\<lambda>k. if \<not> isMetaKey k \<or> within metaMembersPrefix memberPrefixEnd k then None else ps_contents t k)
       ++ map_of (map (\<lambda>i. (kv_Key i, kv_Value i)) (sp_Data p))
       ++ map_of (map (\<lambda>m. (memberAddressKey (ma_NodeID m), mustJSON m)) (sp_Members p))"
proof -
  obtain db where db: "ps_db t = Some db"
    using assms(2) by (auto simp: ps_Restore_def getDB_def split: option.splits)
  obtain kvs where it: "pb_iter (ps_pebble t) db [] [] = Inr (kvs, None)"
    using assms(2,3) db
    by (cases "pb_iter (ps_pebble t) db [] []")
      (auto simp: ps_Restore_def getDB_def split: option.splits)
  obtain mkvs where mit: "pb_iter (ps_pebble t) db metaMembersPrefix memberPrefixEnd = Inr (mkvs, None)"
    and c: "commit t db (restore_batch kvs mkvs p) = (t', None)"
    using assms(2,3) db it
    by (cases "pb_iter (ps_pebble t) db metaMembersPrefix memberPrefixEnd")
      (auto simp: ps_Restore_def getDB_def split: option.splits)
  note all = iter_complete(3) [OF assms(1) db it] and mem = iter_complete(3) [OF assms(1) db mit]
  have users: "fst ` set (filter (\<lambda>(k, v). \<not> isMetaKey k) kvs) = {k \<in> dom (ps_contents t). \<not> isMetaKey k}"
    unfolding set_filter all by (auto simp: within_def image_iff)
  have members: "fst ` set mkvs = {k \<in> dom (ps_contents t). within metaMembersPrefix memberPrefixEnd k}"
    unfolding mem by (auto simp: image_iff)
  have dm: "distinct (map (\<lambda>m. memberAddressKey (ma_NodeID m)) (sp_Members p))"
    using assms(5) by (auto simp: distinct_map inj_on_def)
  have "ps_contents t' = apply_ops (restore_batch kvs mkvs p) (ps_contents t)" "ps_inv t'"
    using commit_ok [OF assms(1) c db] by simp_all
  moreover have "(\<lambda>k. if k \<in> {k \<in> dom (ps_contents t). within metaMembersPrefix memberPrefixEnd k} then None
       else if k \<in> {k \<in> dom (ps_contents t). \<not> isMetaKey k} then None else ps_contents t k) =
     (\<lambda>k. if \<not> isMetaKey k \<or> within metaMembersPrefix memberPrefixEnd k then None else ps_contents t k)"
    by (auto simp: fun_eq_iff domIff)
  ultimately show ?thesis
    by (simp only: restore_batch_def apply_ops_simps apply_deletes users members apply_sets [OF assms(4)]
        apply_sets [OF dm])
qed

lemma snapshot_restore_parts:
  assumes "ps_inv s" "members_ok s" "ps_Snapshot s = Inr snap" "ps_inv t" "ps_Restore t snap = (t', None)"
  shows "ps_inv t'" "ps_view t' = ps_view s" "\<And>n. ps_member t' n = ps_member s n" "members_ok t'"
    "\<And>k. isMetaKey k \<Longrightarrow> \<not> within metaMembersPrefix memberPrefixEnd k \<Longrightarrow> ps_contents t' k = ps_contents t k"
proof -
  obtain ms where snap: "snap = Encode payload_to_json \<lparr>sp_Data = entries (ps_view s) [] [], sp_Members = ms\<rparr>"
    and ms: "sorted_wrt (<) (map ma_NodeID ms)" "set ms = {m. \<exists>n. ps_member s n = Some m}"
    using ps_Snapshot_parts [OF assms(1-3)] by blast
  let ?p = "\<lparr>sp_Data = entries (ps_view s) [] [], sp_Members = ms\<rparr>"
  have dec: "decodeSnapshotPayload snap = Some ?p"
    unfolding snap using ms(2) ps_member_Some(2) [OF assms(2)]
    by (intro payload_json) (auto simp: list_all_iff)
  have "distinct (map kv_Key (sp_Data ?p))" "distinct (map ma_NodeID (sp_Members ?p))"
    using entries_sorted [of "ps_view s"] ms(1) by (simp_all add: strict_sorted_iff)
  from ps_Restore_contents [OF assms(4,5) dec this]
  have inv: "ps_inv t'" and c: "ps_contents t' =
     (\<lambda>k. if \<not> isMetaKey k \<or> within metaMembersPrefix memberPrefixEnd k then None else ps_contents t k)
       ++ ps_view s ++ map_of (map (\<lambda>m. (memberAddressKey (ma_NodeID m), mustJSON m)) ms)"
    by (simp_all add: map_of_entries [OF ps_finite_view [OF assms(1)]])
  let ?M = "map_of (map (\<lambda>m. (memberAddressKey (ma_NodeID m), mustJSON m)) ms)"
  have M_None: "?M k = None" if "\<not> within metaMembersPrefix memberPrefixEnd k" for k
    using that by (auto simp: map_of_eq_None_iff)
  have user_None: "ps_view s k = None" if "isMetaKey k" for k
    using that by (simp add: ps_view_def)
  have dist: "distinct (map fst (map (\<lambda>m. (memberAddressKey (ma_NodeID m), mustJSON m)) ms))"
    using ms(1) by (auto simp: strict_sorted_iff distinct_map inj_on_def)
  have M_iff: "?M k = Some v \<longleftrightarrow> (\<exists>m \<in> set ms. k = memberAddressKey (ma_NodeID m) \<and> v = mustJSON m)" for k v
    using map_of_eq_Some_iff [OF dist] by auto
  show "ps_inv t'" by (rule inv)
  show "ps_view t' = ps_view s"
  proof
    fix k show "ps_view t' k = ps_view s k"
    proof (cases "isMetaKey k")
      case False
      then have "?M k = None" using M_None member_range_meta by blast
      with False show ?thesis unfolding ps_view_def [of t'] c by (simp add: map_add_def split: option.splits)
    qed (simp add: ps_view_def)
  qed
  have range: "ps_contents t' k = ?M k" if "within metaMembersPrefix memberPrefixEnd k" for k
    using that user_None [OF member_range_meta [OF that]] unfolding c
    by (simp add: map_add_def split: option.splits)
  show "ps_member t' n = ps_member s n" for n
  proof (cases "ps_member s n")
    case None
    then have "?M (memberAddressKey n) = None"
      using ms(2) ps_member_Some(1) [OF assms(2)] by (auto simp: map_of_eq_None_iff)
    then show ?thesis using None by (simp add: ps_member_def [of t'] range)
  next
    case (Some m)
    then have "?M (memberAddressKey n) = Some (mustJSON m)"
      using ms(2) ps_member_Some [OF assms(2) Some] unfolding M_iff by (intro bexI [of _ m]) auto
    then show ?thesis
      using Some ps_member_Some(2) [OF assms(2) Some] by (simp add: ps_member_def [of t'] range)
  qed
  show "members_ok t'"
    unfolding members_ok_def
  proof (intro allI impI)
    fix k v assume "within metaMembersPrefix memberPrefixEnd k" "ps_contents t' k = Some v"
    then have "?M k = Some v" by (simp add: range)
    then show "\<exists>m. decode_member v = Some m \<and> k = memberAddressKey (ma_NodeID m)"
      unfolding M_iff by auto
  qed
  fix k assume "isMetaKey k" "\<not> within metaMembersPrefix memberPrefixEnd k"
  with M_None user_None show "ps_contents t' k = ps_contents t k"
    unfolding c by (simp add: map_add_def split: option.splits)
qed

end
