(* ===== verification/Storage_Props.thy ===== *)
theory Storage_Props
  imports Storage_Correct
begin

text \<open>
  The properties of the two state machines, over the lemmas of \<open>Storage_Correct\<close> and the facts of the
  interpretations \<open>ms\<close> (in memory) and \<open>ps\<close> (Pebble). Their witnesses run the Pebble store on \<open>list_pebble\<close>.
\<close>

definition put_cmd :: "bytes \<Rightarrow> bytes \<Rightarrow> Command" where
  "put_cmd k v = \<lparr>cmd_Operation = OperationPut, cmd_Key = k, cmd_Value = v, cmd_Prefix = []\<rparr>"

definition delete_cmd :: "bytes \<Rightarrow> Command" where
  "delete_cmd k = \<lparr>cmd_Operation = OperationDelete, cmd_Key = k, cmd_Value = [], cmd_Prefix = []\<rparr>"

definition delete_prefix_cmd :: "bytes \<Rightarrow> Command" where
  "delete_prefix_cmd p = \<lparr>cmd_Operation = OperationDeletePrefix, cmd_Key = [], cmd_Value = [], cmd_Prefix = p\<rparr>"

definition list_store :: "(bytes, bytes) gomap \<Rightarrow> (bytes, bytes) gomap PebbleStore" where
  "list_store db = \<lparr>ps_path = ''data'', ps_db = Some db, ps_pebble = list_pebble\<rparr>"

lemma list_store_inv [simp]: "ps_inv (list_store db)"
  by (simp add: ps_inv_def list_store_def list_pebble_ok)

lemma list_store_contents [simp]: "ps_contents (list_store db) = map_of db"
  by (simp add: ps_contents_def list_store_def list_pebble_def)

lemma list_store_members [simp]: "list_all (\<lambda>(k, v). \<not> isMetaKey k) db \<Longrightarrow> members_ok (list_store db)"
  by (auto simp: members_ok_def list_all_iff dest!: map_of_SomeD dest: member_range_meta)

lemma list_store_Apply [simp]:
  "ps_Apply (list_store db) c =
     (case command_batch c of
        None \<Rightarrow> (list_store db, Inr \<lparr>res_Modified = 0\<rparr>)
      | Some ops \<Rightarrow> (list_store (fold list_op ops db), Inr \<lparr>res_Modified = 1\<rparr>))"
  by (simp add: ps_Apply_def getDB_def commit_def list_store_def list_pebble_def split: option.splits)



text \<open>Replay after a crash is harmless. The applied index is written after the command it counts, so a
  node that stops in between applies a suffix of its history a second time; doing so leaves the business
  contents as they were.\<close>

theorem replay_after_crash:
  assumes "ps_inv s" "list_all user_command (done @ again)"
    "apply_all ps_Apply s (done @ again) = (s1, None)" "apply_all ps_Apply s1 again = (s2, None)"
  shows "ps_view s2 = ps_view s1"
  using ps.replay_suffix [OF assms] by simp

theorem replay_after_crash_witness:
  "ps_view (list_store [(''b'', ''2''), (''a'', ''1'')]) = ps_view (list_store [(''a'', ''1''), (''b'', ''2'')])"
proof -
  let ?xs = "[put_cmd ''c'' ''3'', delete_cmd ''c'']"
    and ?ys = "[delete_cmd ''a'', put_cmd ''a'' ''1'', put_cmd ''b'' ''2'']"
  have u: "list_all user_command (?xs @ ?ys)"
    by (simp add: user_command_def put_cmd_def delete_cmd_def isMetaKey_def)
  have 1: "apply_all ps_Apply (list_store []) (?xs @ ?ys) = (list_store [(''a'', ''1''), (''b'', ''2'')], None)"
    by (simp add: put_cmd_def delete_cmd_def command_batch_def)
  have 2: "apply_all ps_Apply (list_store [(''a'', ''1''), (''b'', ''2'')]) ?ys =
      (list_store [(''b'', ''2''), (''a'', ''1'')], None)"
    by (simp add: put_cmd_def delete_cmd_def command_batch_def)
  from replay_after_crash [OF list_store_inv u 1 2] show ?thesis .
qed

text \<open>C18. Snapshot and restore. Restoring a snapshot of one store into any other store makes the business
  contents and the member addresses of the second equal to those of the first, whatever it held before, and
  leaves its other metadata (applied index and term) untouched.\<close>

theorem snapshot_restore_roundtrip:
  assumes "ps_inv s" "members_ok s" "ps_Snapshot s = Inr snap" "ps_inv t" "ps_Restore t snap = (t', None)"
  shows "ps_view t' = ps_view s \<and> (\<forall>n. ps_member t' n = ps_member s n) \<and> members_ok t' \<and>
     (\<forall>k. isMetaKey k \<and> \<not> within metaMembersPrefix memberPrefixEnd k \<longrightarrow> ps_contents t' k = ps_contents t k)"
  using snapshot_restore_parts [OF assms] by blast

lemma list_store_iter:
  "pb_iter list_pebble db a b = Inr (sort_key fst (filter (\<lambda>(k, v). within a b k) (AList.clearjunk db)), None)"
  by (simp add: list_pebble_def)

theorem snapshot_restore_roundtrip_witness:
  "\<exists>snap t'. ps_Snapshot (list_store [(''k'', ''v'')]) = Inr snap \<and>
     ps_Restore (list_store [(''old'', ''x''), (metaAppliedIndexKey, encodeUint64 7)]) snap = (t', None) \<and>
     ps_view t' = ps_view (list_store [(''k'', ''v'')]) \<and>
     ps_contents t' metaAppliedIndexKey = Some (encodeUint64 7)"
proof -
  let ?s = "list_store [(''k'', ''v'')]" and ?t = "list_store [(''old'', ''x''), (metaAppliedIndexKey, encodeUint64 7)]"
  have m: "members_ok ?s" by (rule list_store_members) (simp add: isMetaKey_def)
  have "\<not> within metaMembersPrefix memberPrefixEnd ''k''"
    using member_range_meta [of "''k''"] by (auto simp: isMetaKey_def)
  then have "\<exists>ms. ps_ListMemberAddresses ?s = Inr ms"
    by (simp add: ps_ListMemberAddresses_def getDB_def list_store_def list_store_iter)
  moreover have "\<exists>items. ps_Scan ?s [] [] 0 = Inr items"
    by (simp add: ps_Scan_def getDB_def list_store_def list_store_iter split: prod.splits)
  ultimately obtain snap where snap: "ps_Snapshot ?s = Inr snap" by (auto simp: ps_Snapshot_def)
  obtain ms where "snap = Encode payload_to_json \<lparr>sp_Data = entries (ps_view ?s) [] [], sp_Members = ms\<rparr>"
    "set ms = {m. \<exists>n. ps_member ?s n = Some m}"
    using ps_Snapshot_parts [OF list_store_inv m snap] by blast
  moreover from this have "list_all (\<lambda>m. clean_member m = m) ms"
    using ps_member_Some(2) [OF m] by (auto simp: list_all_iff)
  ultimately have "decodeSnapshotPayload snap \<noteq> None" by (simp add: payload_json)
  then obtain t' where r: "ps_Restore ?t snap = (t', None)"
    by (auto simp: ps_Restore_def getDB_def list_store_def list_store_iter commit_def list_pebble_def)
  have "ps_contents ?t metaAppliedIndexKey = Some (encodeUint64 7)"
    by (simp add: metaAppliedIndexKey_def)
  with snapshot_restore_roundtrip [OF list_store_inv m snap list_store_inv r] snap r
  show ?thesis by (intro exI [of _ snap] exI [of _ t']) simp
qed

text \<open>Both machines have the same effect on keys without the byte 0xFF, which no UTF-8 text contains.\<close>

definition plain_map :: "(bytes \<rightharpoonup> bytes) \<Rightarrow> bool" where
  "plain_map m \<longleftrightarrow> (\<forall>k \<in> dom m. CHR 0xFF \<notin> set k)"

definition plain_command :: "Command \<Rightarrow> bool" where
  "plain_command c \<longleftrightarrow> user_command c \<and> (cmd_Operation c = OperationPut \<longrightarrow> CHR 0xFF \<notin> set (cmd_Key c))"

lemma exec_agree:
  assumes "plain_map m"
  shows "ms_exec c m = ps_exec c m"
proof -
  have "(if HasPrefix k p then None else m k) = (if p \<le> k \<and> k < p @ [CHR 0xFF] then None else m k)" for k p
  proof (cases "HasPrefix k (p @ [CHR 0xFF])")
    case True
    then have "CHR 0xFF \<in> set k" by (auto simp: HasPrefix_iff)
    with assms have "m k = None" unfolding plain_map_def by blast
    then show ?thesis by simp
  next
    case False
    then show ?thesis using prefix_range [of p k] by simp
  qed
  then show ?thesis
    unfolding ms_exec_def ps_exec_def command_batch_def by auto
qed

lemma exec_plain: "plain_map m \<Longrightarrow> plain_command c \<Longrightarrow> plain_map (ps_exec c m)"
  by (auto simp: plain_map_def plain_command_def ps_exec_def command_batch_def split: if_splits)

lemma fold_exec_agree:
  "plain_map m \<Longrightarrow> list_all plain_command cs \<Longrightarrow> fold ms_exec cs m = fold ps_exec cs m"
  by (induction cs arbitrary: m) (simp_all add: exec_agree exec_plain)

text \<open>The two state machines agree. Started on the same business contents and fed the same data-plane
  commands, with no byte 0xFF in the keys written, the in-memory machine and the Pebble store answer every
  scan alike.\<close>

theorem memory_pebble_agree:
  assumes "ms_inv m" "ps_inv s" "ms_view m = ps_view s" "plain_map (ps_view s)" "list_all plain_command cs"
    "apply_all (\<lambda>m c. case ms_Apply m c of (m', r) \<Rightarrow> (m', Inr r :: storage_error + Result)) m cs = (m', None)"
    "apply_all ps_Apply s cs = (s', None)" "ps_Scan s' a b n = Inr items"
  shows "ms_Scan m' a b n = items"
proof -
  have u: "list_all user_command cs" using assms(5) by (auto simp: plain_command_def list_all_iff)
  have m': "ms_inv m'" "ms_view m' = fold ms_exec cs (ms_view m)"
    using ms.apply_all_ok [OF assms(1) u assms(6)] by simp_all
  have s': "ps_inv s'" "ps_view s' = fold ps_exec cs (ps_view s)"
    using ps.apply_all_ok [OF assms(2) u assms(7)] by simp_all
  have "ms_view m' = ps_view s'"
    using m' s' assms(3) fold_exec_agree [OF assms(4,5)] by simp
  then show ?thesis using ms_Scan_entries [OF m'(1)] ps.scan_ok [OF s'(1) assms(8)] by simp
qed

theorem memory_pebble_agree_witness:
  "ms_Scan \<lparr>ms_data = [(''/b'', ''2'')], ms_appliedIndex = 3\<rparr> ''/'' [] 5 = [\<lparr>kv_Key = ''/b'', kv_Value = ''2''\<rparr>]"
proof -
  let ?cs = "[put_cmd ''a'' ''1'', put_cmd ''/b'' ''2'', delete_prefix_cmd ''a'']"
  let ?m = "\<lparr>ms_data = [(''/b'', ''2'')], ms_appliedIndex = 3\<rparr>"
  have c: "list_all plain_command ?cs"
    by (simp add: plain_command_def user_command_def put_cmd_def delete_prefix_cmd_def isMetaKey_def)
  have i: "ms_inv NewMemoryStateMachine" "ms_view NewMemoryStateMachine = ps_view (list_store [])"
    "plain_map (ps_view (list_store []))"
    by (auto simp: ms_inv_def NewMemoryStateMachine_def ms_view_def ps_view_def plain_map_def
        split: if_splits)
  have m: "apply_all (\<lambda>m c. case ms_Apply m c of (m', r) \<Rightarrow> (m', Inr r :: storage_error + Result))
      NewMemoryStateMachine ?cs = (?m, None)"
    by (simp add: put_cmd_def delete_prefix_cmd_def ms_Apply_def NewMemoryStateMachine_def Let_def)
  have p: "apply_all ps_Apply (list_store []) ?cs = (list_store [(''/b'', ''2'')], None)"
    by (simp add: put_cmd_def delete_prefix_cmd_def command_batch_def)
  have "ps_Scan (list_store [(''/b'', ''2'')]) ''/'' [] 5 = Inr [\<lparr>kv_Key = ''/b'', kv_Value = ''2''\<rparr>]"
    by (simp add: ps_Scan_def getDB_def list_store_def list_store_iter within_def isMetaKey_def Let_def)
  from memory_pebble_agree [OF i(1) list_store_inv i(2,3) c m p this] show ?thesis .
qed

text \<open>A command that touches no metadata key.\<close>

definition safe_command :: "Command \<Rightarrow> bool" where
  "safe_command c \<longleftrightarrow>
     (cmd_Operation c = OperationPut \<or> cmd_Operation c = OperationDelete \<longrightarrow> \<not> isMetaKey (cmd_Key c)) \<and>
     (cmd_Operation c = OperationDeletePrefix \<longrightarrow>
        \<not> HasPrefix (cmd_Prefix c) ''__meta__/'' \<and> \<not> HasPrefix ''__meta__/'' (cmd_Prefix c))"

lemma prefixes_comparable: "HasPrefix k p \<Longrightarrow> HasPrefix k q \<Longrightarrow> HasPrefix p q \<or> HasPrefix q p"
  by (auto simp: HasPrefix_iff append_eq_append_conv2)

lemma safe_exec_meta: "safe_command c \<Longrightarrow> isMetaKey k \<Longrightarrow> ps_exec c m k = m k"
proof -
  assume c: "safe_command c" and k: "isMetaKey k"
  have "\<not> (p \<le> k \<and> k < p @ [CHR 0xFF])" if "\<not> HasPrefix p ''__meta__/''" "\<not> HasPrefix ''__meta__/'' p" for p
    using prefixes_comparable [of k p "''__meta__/''"] k that unfolding prefix_range isMetaKey_iff by blast
  with c k show ?thesis
    by (auto simp: safe_command_def ps_exec_def command_batch_def split: if_splits)
qed

lemma safe_apply_all_meta:
  "ps_inv s \<Longrightarrow> list_all safe_command cs \<Longrightarrow> apply_all ps_Apply s cs = (s', None) \<Longrightarrow> isMetaKey k \<Longrightarrow>
     ps_inv s' \<and> ps_contents s' k = ps_contents s k"
proof (induction cs arbitrary: s)
  case (Cons c cs)
  then obtain s1 r where 1: "ps_Apply s c = (s1, Inr r)" "apply_all ps_Apply s1 cs = (s', None)"
    by (auto split: prod.splits sum.splits)
  note a = ps_Apply_ok [OF Cons.prems(1) 1(1)]
  from Cons.IH [OF a(1) _ 1(2) Cons.prems(4)] Cons.prems(2,4) a(2) safe_exec_meta
  show ?case by simp
qed simp

lemma get_counter_ok:
  assumes "ps_inv s" "get_counter s key = Inr w"
  shows "w = (case ps_contents s key of None \<Rightarrow> 0 | Some v \<Rightarrow> decodeUint64 v)"
proof -
  obtain db where db: "ps_db s = Some db" using assms(2) by (auto simp: get_counter_def getDB_Inr)
  obtain v where g: "pb_get (ps_pebble s) db key = Inr v"
    using assms(2) db by (auto simp: get_counter_def getDB_def split: sum.splits)
  with pb_get_ok [OF assms(1) db g] assms(2) db show ?thesis
    by (auto simp: get_counter_def getDB_def split: option.splits)
qed

lemma decode_encodeUint64 [simp]: "decodeUint64 (encodeUint64 w) = w"
  using Uint64_PutUint64 [of w "[]"] by (simp add: decodeUint64_def encodeUint64_def del: Uint64_PutUint64)

lemma set_counter_ok:
  assumes "ps_inv s" "set_counter s key w = (s', None)"
  shows "ps_inv s' \<and> ps_contents s' = (ps_contents s)(key \<mapsto> encodeUint64 w)"
proof -
  obtain db where db: "ps_db s = Some db"
    using assms(2) by (auto simp: set_counter_def getDB_def split: option.splits)
  with assms(2) have "commit s db [BSet key (encodeUint64 w)] = (s', None)"
    by (simp add: set_counter_def getDB_def)
  from commit_ok [OF assms(1) this db] show ?thesis by simp
qed

lemma meta_update_view: "isMetaKey k \<Longrightarrow> ps_contents s' = (ps_contents s)(k := x) \<Longrightarrow> ps_view s' = ps_view s"
  by (auto simp: ps_view_def fun_eq_iff)

text \<open>The applied index survives the data plane. After it has been written, commands that name no
  metadata key (and no prefix that overlaps \<open>__meta__/\<close>) change neither it nor the applied term, and
  writing it changes no business key.\<close>

theorem applied_index_kept:
  assumes "ps_inv s" "ps_SetAppliedIndex s i = (s1, None)" "list_all safe_command cs"
    "apply_all ps_Apply s1 cs = (s2, None)"
  shows "ps_view s1 = ps_view s \<and> (\<forall>j. ps_AppliedIndex s2 = Inr j \<longrightarrow> j = i) \<and>
     (\<forall>t t'. ps_AppliedTerm s = Inr t \<longrightarrow> ps_AppliedTerm s2 = Inr t' \<longrightarrow> t' = t)"
proof -
  have s1: "ps_inv s1" "ps_contents s1 = (ps_contents s)(metaAppliedIndexKey \<mapsto> encodeUint64 i)"
    using set_counter_ok [OF assms(1)] assms(2) by (simp_all add: ps_SetAppliedIndex_def)
  have ne: "metaAppliedTermKey \<noteq> metaAppliedIndexKey" by (simp add: metaAppliedTermKey_def metaAppliedIndexKey_def)
  have s2: "ps_inv s2" "ps_contents s2 metaAppliedIndexKey = Some (encodeUint64 i)"
    "ps_contents s2 metaAppliedTermKey = ps_contents s metaAppliedTermKey"
    using safe_apply_all_meta [OF s1(1) assms(3,4), of metaAppliedIndexKey]
      safe_apply_all_meta [OF s1(1) assms(3,4), of metaAppliedTermKey] s1(2) ne by simp_all
  have "ps_view s1 = ps_view s" by (rule meta_update_view [OF _ s1(2)]) simp
  moreover have "j = i" if "ps_AppliedIndex s2 = Inr j" for j
    using get_counter_ok [OF s2(1), of metaAppliedIndexKey j] that s2(2) by (simp add: ps_AppliedIndex_def)
  moreover have "t' = t" if "ps_AppliedTerm s = Inr t" "ps_AppliedTerm s2 = Inr t'" for t t'
    using get_counter_ok [OF s2(1), of metaAppliedTermKey t'] get_counter_ok [OF assms(1), of metaAppliedTermKey t]
      that s2(3) by (simp add: ps_AppliedTerm_def)
  ultimately show ?thesis by blast
qed

theorem applied_index_kept_witness:
  "ps_AppliedIndex (list_store [(metaAppliedIndexKey, encodeUint64 7), (''a'', ''1'')]) = Inr 7"
proof -
  let ?s1 = "list_store [(metaAppliedIndexKey, encodeUint64 7)]"
  let ?s2 = "list_store [(metaAppliedIndexKey, encodeUint64 7), (''a'', ''1'')]"
  have 1: "ps_SetAppliedIndex (list_store []) 7 = (?s1, None)"
    by (simp add: ps_SetAppliedIndex_def set_counter_def getDB_def commit_def list_store_def list_pebble_def)
  have 2: "list_all safe_command [put_cmd ''a'' ''1'', delete_prefix_cmd ''b'']"
    by (simp add: safe_command_def put_cmd_def delete_prefix_cmd_def isMetaKey_def HasPrefix_def)
  have 3: "apply_all ps_Apply ?s1 [put_cmd ''a'' ''1'', delete_prefix_cmd ''b''] = (?s2, None)"
    by (simp add: put_cmd_def delete_prefix_cmd_def command_batch_def metaAppliedIndexKey_def)
  have "\<exists>j. ps_AppliedIndex ?s2 = Inr j"
    by (simp add: ps_AppliedIndex_def get_counter_def getDB_def list_store_def list_pebble_def)
  with applied_index_kept [OF list_store_inv 1 2 3] show ?thesis by auto
qed

text \<open>A delete-prefix command whose prefix covers \<open>__meta__/\<close> (the empty prefix among them) erases
  the store's own metadata: the applied index reads 0 and no member address is left.\<close>

theorem delete_prefix_erases_metadata:
  assumes "ps_inv s" "HasPrefix ''__meta__/'' p" "ps_Apply s (delete_prefix_cmd p) = (s', Inr r)"
  shows "(\<forall>i. ps_AppliedIndex s' = Inr i \<longrightarrow> i = 0) \<and> (\<forall>n. ps_member s' n = None)"
proof -
  have s': "ps_inv s'" "ps_contents s' = ps_exec (delete_prefix_cmd p) (ps_contents s)"
    using ps_Apply_ok [OF assms(1,3)] by simp_all
  have gone: "ps_contents s' (''__meta__/'' @ c # t) = None" if "c \<noteq> CHR 0xFF" for c t
  proof -
    have "HasPrefix (''__meta__/'' @ c # t) p \<and> \<not> HasPrefix (''__meta__/'' @ c # t) (p @ [CHR 0xFF])"
      using assms(2) that by (auto simp: HasPrefix_iff append_eq_append_conv2 append_eq_Cons_conv Cons_eq_append_conv)
    then show ?thesis
      using prefix_range [of p "''__meta__/'' @ c # t"] unfolding s'(2)
      by (simp add: ps_exec_def command_batch_def delete_prefix_cmd_def)
  qed
  have "ps_contents s' metaAppliedIndexKey = None"
    using gone [of "CHR ''a''" "''pplied_index''"] by (simp add: metaAppliedIndexKey_def)
  moreover have "ps_contents s' (memberAddressKey n) = None" for n
    using gone [of "CHR ''m''" "''embers/'' @ FormatUint (unat n)"] by (simp add: memberAddressKey_def metaMembersPrefix_def)
  ultimately show ?thesis
    using get_counter_ok [OF s'(1), of metaAppliedIndexKey] by (auto simp: ps_AppliedIndex_def ps_member_def)
qed

theorem delete_prefix_erases_metadata_witness:
  "ps_AppliedIndex (list_store []) = Inr 0 \<and>
   ps_Apply (list_store [(metaAppliedIndexKey, encodeUint64 7)]) (delete_prefix_cmd []) =
     (list_store [], Inr \<lparr>res_Modified = 1\<rparr>)"
proof -
  have p: "HasPrefix ''__meta__/'' []" by (simp add: HasPrefix_def)
  have a: "ps_Apply (list_store [(metaAppliedIndexKey, encodeUint64 7)]) (delete_prefix_cmd []) =
      (list_store [], Inr \<lparr>res_Modified = 1\<rparr>)"
    by (simp add: delete_prefix_cmd_def command_batch_def metaAppliedIndexKey_def)
  have "\<exists>j. ps_AppliedIndex (list_store []) = Inr j"
    by (simp add: ps_AppliedIndex_def get_counter_def getDB_def list_store_def list_pebble_def)
  with delete_prefix_erases_metadata [OF list_store_inv p a] a show ?thesis by auto
qed

text \<open>Delete-prefix differs between the machines. The Pebble store deletes the range from the prefix
  to the prefix followed by 0xFF, so a key that continues the prefix with the byte 0xFF survives; the
  in-memory machine deletes it.\<close>

theorem delete_prefix_gap:
  assumes "ps_inv s" "ps_Apply s (delete_prefix_cmd p) = (s', Inr r)"
  shows "ps_contents s' (p @ CHR 0xFF # t) = ps_contents s (p @ CHR 0xFF # t) \<and>
     ms_view (fst (ms_Apply m (delete_prefix_cmd p))) (p @ CHR 0xFF # t) = None"
proof -
  have "\<not> (p \<le> p @ CHR 0xFF # t \<and> p @ CHR 0xFF # t < p @ [CHR 0xFF])"
    unfolding prefix_range by (simp add: HasPrefix_iff)
  then show ?thesis
    using ps_Apply_ok(2) [OF assms] ms_Apply_view [of m "delete_prefix_cmd p"]
    by (simp add: ps_exec_def ms_exec_def command_batch_def delete_prefix_cmd_def) blast
qed

theorem delete_prefix_gap_witness:
  "ps_contents (list_store [(''a'' @ [CHR 0xFF], ''x'')]) (''a'' @ CHR 0xFF # []) = Some ''x'' \<and>
   ps_Apply (list_store [(''a1'', ''y''), (''a'' @ [CHR 0xFF], ''x'')]) (delete_prefix_cmd ''a'') =
     (list_store [(''a'' @ [CHR 0xFF], ''x'')], Inr \<lparr>res_Modified = 1\<rparr>)"
proof -
  have a: "ps_Apply (list_store [(''a1'', ''y''), (''a'' @ [CHR 0xFF], ''x'')]) (delete_prefix_cmd ''a'') =
      (list_store [(''a'' @ [CHR 0xFF], ''x'')], Inr \<lparr>res_Modified = 1\<rparr>)"
    by (simp add: delete_prefix_cmd_def command_batch_def less_char_def)
  show ?thesis
    using delete_prefix_gap [OF list_store_inv a, of "[]"] a by simp
qed

text \<open>Member records.\<close>

lemma ps_SetMemberAddress_ok:
  assumes "ps_inv s" "members_ok s" "ps_SetMemberAddress s n h g a = (s', None)"
  shows "ps_inv s' \<and> members_ok s' \<and> ps_view s' = ps_view s \<and>
    ps_member s' = (ps_member s)(n \<mapsto> clean_member \<lparr>ma_NodeID = n, ma_HTTPAddr = h, ma_GRPCAddr = g, ma_AdminAddr = a\<rparr>)"
proof -
  let ?m = "\<lparr>ma_NodeID = n, ma_HTTPAddr = h, ma_GRPCAddr = g, ma_AdminAddr = a\<rparr>"
  obtain db where db: "ps_db s = Some db"
    using assms(3) by (auto simp: ps_SetMemberAddress_def getDB_def split: option.splits)
  with assms(3) have "commit s db [BSet (memberAddressKey n) (mustJSON ?m)] = (s', None)"
    by (simp add: ps_SetMemberAddress_def getDB_def split: if_splits)
  from commit_ok [OF assms(1) this db]
  have i: "ps_inv s'" and c: "ps_contents s' = (ps_contents s)(memberAddressKey n \<mapsto> mustJSON ?m)" by simp_all
  have "members_ok s'"
    using assms(2) unfolding members_ok_def c by (auto simp: fun_upd_apply split: if_splits)
  moreover have "ps_view s' = ps_view s" by (rule meta_update_view [OF _ c]) simp
  ultimately show ?thesis using i c by (auto simp: ps_member_def fun_eq_iff)
qed

lemma ps_DeleteMemberAddress_ok:
  assumes "ps_inv s" "members_ok s" "ps_DeleteMemberAddress s n = (s', None)"
  shows "ps_inv s' \<and> members_ok s' \<and> ps_view s' = ps_view s \<and> ps_member s' = (ps_member s)(n := None)"
proof -
  obtain db where db: "ps_db s = Some db"
    using assms(3) by (auto simp: ps_DeleteMemberAddress_def getDB_def split: option.splits)
  with assms(3) have "commit s db [BDelete (memberAddressKey n)] = (s', None)"
    by (simp add: ps_DeleteMemberAddress_def getDB_def split: if_splits)
  from commit_ok [OF assms(1) this db]
  have i: "ps_inv s'" and c: "ps_contents s' = (ps_contents s)(memberAddressKey n := None)" by simp_all
  have "members_ok s'"
    using assms(2) unfolding members_ok_def c by (auto simp: fun_upd_apply split: if_splits)
  moreover have "ps_view s' = ps_view s" by (rule meta_update_view [OF _ c]) simp
  ultimately show ?thesis using i c by (auto simp: ps_member_def fun_eq_iff)
qed

text \<open>The member directory. Writing a member's addresses and deleting another member's changes exactly
  those two entries of the directory and no business key, and a listing that succeeds afterwards is sorted
  by node, has one entry per node and holds exactly the directory.\<close>

theorem member_directory:
  assumes "ps_inv s" "members_ok s" "ps_SetMemberAddress s n h g a = (s1, None)"
    "ps_DeleteMemberAddress s1 d = (s2, None)" "ps_ListMemberAddresses s2 = Inr ms"
  shows "ps_view s2 = ps_view s \<and> sorted_wrt (<) (map ma_NodeID ms) \<and>
     (\<forall>m. m \<in> set ms \<longleftrightarrow> (\<exists>k. ((ps_member s)(n \<mapsto> clean_member
        \<lparr>ma_NodeID = n, ma_HTTPAddr = h, ma_GRPCAddr = g, ma_AdminAddr = a\<rparr>, d := None)) k = Some m))"
proof -
  note 1 = ps_SetMemberAddress_ok [OF assms(1-3)]
  note 2 = ps_DeleteMemberAddress_ok [OF _ _ assms(4)]
  show ?thesis using 1 2 ps_ListMemberAddresses_ok [OF _ _ assms(5)] by simp
qed

theorem member_directory_witness:
  "\<exists>s1 s2 ms. ps_SetMemberAddress (list_store []) 2 ''h'' ''g'' ''a'' = (s1, None) \<and>
     ps_DeleteMemberAddress s1 3 = (s2, None) \<and> ps_ListMemberAddresses s2 = Inr ms \<and>
     (\<exists>m \<in> set ms. ma_NodeID m = 2)"
proof -
  let ?m = "\<lparr>ma_NodeID = 2, ma_HTTPAddr = ''h'', ma_GRPCAddr = ''g'', ma_AdminAddr = ''a''\<rparr>"
  let ?s = "list_store [(memberAddressKey 2, mustJSON ?m)]"
  have 1: "ps_SetMemberAddress (list_store []) 2 ''h'' ''g'' ''a'' = (?s, None)"
    by (simp add: ps_SetMemberAddress_def getDB_def commit_def list_store_def list_pebble_def)
  have 2: "ps_DeleteMemberAddress ?s 3 = (?s, None)"
    by (simp add: ps_DeleteMemberAddress_def getDB_def commit_def list_store_def list_pebble_def AList.delete_eq)
  have "\<exists>ms. ps_ListMemberAddresses ?s = Inr ms"
    by (simp add: ps_ListMemberAddresses_def getDB_def list_store_def list_store_iter)
  then obtain ms where ms: "ps_ListMemberAddresses ?s = Inr ms" by blast
  have "members_ok (list_store [])" by (rule list_store_members) simp
  from member_directory [OF list_store_inv this 1 2 ms]
  have "clean_member ?m \<in> set ms" by (auto intro!: exI [of _ 2])
  then have "\<exists>m \<in> set ms. ma_NodeID m = 2" by force
  with 1 2 ms show ?thesis by blast
qed

lemma put_members_bytes:
  "distinct (map fst d) \<Longrightarrow>
     \<exists>m'. put_members into_bytes [] (map (\<lambda>(k, v). (k, jbytes v)) d) m = Some m' \<and> map_of m' = map_of m ++ map_of d"
proof (induction d arbitrary: m)
  case (Cons e d)
  obtain k v where e: "e = (k, v)" by fastforce
  from Cons.prems e have "map_of d k = None" by (simp add: map_of_eq_None_iff)
  then have "(map_of m)(k \<mapsto> v) ++ map_of d = map_of m ++ map_of (e # d)"
    by (auto simp: e map_add_def fun_eq_iff split: option.splits)
  moreover obtain m' where "put_members into_bytes [] (map (\<lambda>(k, v). (k, jbytes v)) d) (AList.update k v m) = Some m'"
    "map_of m' = map_of (AList.update k v m) ++ map_of d"
    using Cons by auto
  ultimately have "map_of m' = map_of m ++ map_of (e # d)" by (simp only: update_conv')
  moreover have "put_members into_bytes [] (map (\<lambda>(k, v). (k, jbytes v)) (e # d)) m = Some m'"
    using \<open>put_members into_bytes [] _ (AList.update k v m) = Some m'\<close> by (simp add: e)
  ultimately show ?case by blast
qed simp

lemma wf_data: "wf_members (map (\<lambda>(k, v). (k, jbytes v)) d)"
  by (induction d) auto

lemma clean_data:
  "list_all (\<lambda>(k, v). valid_utf8 k) d \<Longrightarrow>
     clean_members (map (\<lambda>(k, v). (k, jbytes v)) d) = map (\<lambda>(k, v). (k, jbytes v)) d"
  by (induction d) (auto simp: sanitize_valid)

text \<open>Restoring the in-memory machine merges. Decoding a snapshot with UTF-8 keys into a machine that
  already holds data overwrites the keys of the snapshot and keeps all others, where the Pebble store
  replaces its contents.\<close>

theorem memory_restore_merges:
  assumes "distinct (map fst (ms_data m1))" "list_all (\<lambda>(k, v). valid_utf8 k) (ms_data m1)"
  shows "\<exists>m'. ms_Restore m2 (ms_Snapshot m1) = Some m' \<and> ms_view m' = ms_view m2 ++ ms_view m1"
proof -
  let ?d = "sort_key fst (ms_data m1)"
  have "distinct (map fst ?d)" by (rule distinct_sort_key_fst [OF assms(1)])
  from put_members_bytes [OF this, of "ms_data m2"] obtain d' where
    d': "put_members into_bytes [] (map (\<lambda>(k, v). (k, jbytes v)) ?d) (ms_data m2) = Some d'"
      "map_of d' = map_of (ms_data m2) ++ map_of ?d" by blast
  have w: "wf_json (data_to_json (ms_data m1))" by (simp add: data_to_json_def wf_data)
  have "list_all (\<lambda>(k, v). valid_utf8 k) ?d" using assms(2) by (simp add: list_all_iff)
  then have "Decode (into_map into_bytes []) (ms_Snapshot m1) (ms_data m2) = Some d'"
    using d'(1) 
    by (simp add: ms_Snapshot_def Decode_Encode [where to = data_to_json, OF w]) (simp add: data_to_json_def clean_data)
  with d'(2) show ?thesis
    by (simp add: ms_Restore_def ms_view_def map_of_sort_key [OF assms(1)])
qed

theorem memory_restore_merges_witness:
  "\<exists>m'. ms_Restore \<lparr>ms_data = [(''stale'', ''x'')], ms_appliedIndex = 1\<rparr>
      (ms_Snapshot \<lparr>ms_data = [(''k'', ''v'')], ms_appliedIndex = 1\<rparr>) = Some m' \<and> ms_view m' ''stale'' = Some ''x''"
proof -
  let ?m1 = "\<lparr>ms_data = [(''k'', ''v'')], ms_appliedIndex = 1\<rparr>"
  let ?m2 = "\<lparr>ms_data = [(''stale'', ''x'')], ms_appliedIndex = 1\<rparr>"
  have "distinct (map fst (ms_data ?m1))" "list_all (\<lambda>(k, v). valid_utf8 k) (ms_data ?m1)"
    by (simp_all add: valid_utf8_ascii)
  from memory_restore_merges [OF this, of ?m2] obtain m' where
    "ms_Restore ?m2 (ms_Snapshot ?m1) = Some m'" "ms_view m' = ms_view ?m2 ++ ms_view ?m1" by blast
  then show ?thesis by (intro exI [of _ m']) (simp add: ms_view_def map_add_def)
qed

end
