(* ===== verification/Wal.thy ===== *)
theory Wal
  imports Go_Encoding "HOL-Library.AList"
begin

text \<open>
  The Raft log (\<open>internal/wal\<close>): the in-memory implementation (\<open>memory.go\<close>) and the segmented file
  implementation (\<open>wal.go\<close>, \<open>segment.go\<close>).

  The disk is a map from paths to contents together with the outcomes of the system calls to come:
  every call that can fail takes the next outcome, \<open>IoFail n\<close> meaning that it fails after \<open>n\<close> bytes of
  the data it was to write have reached the file; an empty list means no more failures. A crash is a failure after
  which nothing else runs.

  Entries and hard states are \<open>raftpb\<close> messages and their protobuf encoding is third-party code: the
  codec is a field of the model, and what is needed of it is the predicate \<open>codec_ok\<close>.
\<close>

subsection \<open>Entries and codecs\<close>

record Entry =
  e_Term :: u64
  e_Index :: u64
  e_Type :: int
  e_Data :: bytes

record HardState =
  hs_Term :: u64
  hs_Vote :: u64
  hs_Commit :: u64

definition zero_HardState :: HardState where
  "zero_HardState = \<lparr>hs_Term = 0, hs_Vote = 0, hs_Commit = 0\<rparr>"

text \<open>The interface \<open>Codec\<close>; \<open>None\<close> is an error.\<close>

record Codec =
  cd_EncodeState :: "HardState \<Rightarrow> bytes option"
  cd_DecodeState :: "bytes \<Rightarrow> HardState option"
  cd_EncodeEntry :: "Entry \<Rightarrow> bytes option"
  cd_DecodeEntry :: "bytes \<Rightarrow> Entry option"

text \<open>What is relied on: whatever encodes decodes to itself, and a record's length fits in 32 bits.\<close>

definition codec_ok :: "Codec \<Rightarrow> bool" where
  "codec_ok c \<longleftrightarrow>
     (\<forall>s b. cd_EncodeState c s = Some b \<longrightarrow> cd_DecodeState c b = Some s) \<and>
     (\<forall>e b. cd_EncodeEntry c e = Some b \<longrightarrow> cd_DecodeEntry c b = Some e \<and> length b < 2 ^ 32)"

subsection \<open>The disk\<close>

datatype io = IoOk | IoFail nat

record disk =
  dk_files :: "(bytes, bytes) gomap"
  dk_outcomes :: "io list"

datatype wal_error =
    ErrWALNotOpen
  | ErrIO
  | ErrNotExist
  | ErrCodec
  | ErrShortRecord
  | ErrGap u64 u64
  | ErrBoundary bytes u64

definition next_io :: "disk \<Rightarrow> io \<times> disk" where
  "next_io d = (case dk_outcomes d of [] \<Rightarrow> (IoOk, d) | i # is \<Rightarrow> (i, d\<lparr>dk_outcomes := is\<rparr>))"

definition set_file :: "bytes \<Rightarrow> bytes \<Rightarrow> disk \<Rightarrow> disk" where
  "set_file path data d = d\<lparr>dk_files := AList.update path data (dk_files d)\<rparr>"

definition drop_file :: "bytes \<Rightarrow> disk \<Rightarrow> disk" where
  "drop_file path d = d\<lparr>dk_files := AList.delete path (dk_files d)\<rparr>"

text \<open>\<open>os.Remove\<close> where the error of a missing file is ignored.\<close>

definition os_Remove :: "bytes \<Rightarrow> disk \<Rightarrow> disk \<times> wal_error option" where
  "os_Remove path d0 =
     (case next_io d0 of
        (IoFail _, d) \<Rightarrow> (d, Some ErrIO)
      | (IoOk, d) \<Rightarrow> (drop_file path d, None))"

definition os_WriteFile :: "bytes \<Rightarrow> bytes \<Rightarrow> disk \<Rightarrow> disk \<times> wal_error option" where
  "os_WriteFile path data d0 =
     (case next_io d0 of
        (IoFail n, d) \<Rightarrow> (set_file path (take n data) d, Some ErrIO)
      | (IoOk, d) \<Rightarrow> (set_file path data d, None))"

definition os_Rename :: "bytes \<Rightarrow> bytes \<Rightarrow> disk \<Rightarrow> disk \<times> wal_error option" where
  "os_Rename from to d0 =
     (case next_io d0 of
        (IoFail _, d) \<Rightarrow> (d, Some ErrIO)
      | (IoOk, d) \<Rightarrow>
          (case map_of (dk_files d) from of
             None \<Rightarrow> (d, Some ErrNotExist)
           | Some data \<Rightarrow> (set_file to data (drop_file from d), None)))"

text \<open>\<open>filepath.Join\<close> of a clean, non-empty directory and a file name.\<close>

definition join_path :: "bytes \<Rightarrow> bytes \<Rightarrow> bytes" where
  "join_path dir name = dir @ CHR ''/'' # name"

text \<open>
  \<open>filepath.Glob(dir/*.wal)\<close> followed by \<open>sort.Strings\<close>, for a directory name without pattern
  characters: the paths directly under the directory that end in \<open>.wal\<close>.
\<close>

definition wal_path :: "bytes \<Rightarrow> bytes \<Rightarrow> bool" where
  "wal_path dir path \<longleftrightarrow>
     HasPrefix path (dir @ ''/'') \<and> CHR ''/'' \<notin> set (drop (length dir + 1) path) \<and>
     HasSuffix (drop (length dir + 1) path) ''.wal''"

definition glob_wal :: "bytes \<Rightarrow> disk \<Rightarrow> bytes list" where
  "glob_wal dir d = sort (remdups (filter (wal_path dir) (map fst (dk_files d))))"

subsection \<open>Merging\<close>

definition isEmptyHardState :: "HardState \<Rightarrow> bool" where
  "isEmptyHardState s \<longleftrightarrow> hs_Term s = 0 \<and> hs_Vote s = 0 \<and> hs_Commit s = 0"

text \<open>\<open>sort.Search\<close> finds the first position where the condition holds, on a log sorted by index.\<close>

definition mergeEntries :: "Entry list \<Rightarrow> Entry list \<Rightarrow> Entry list" where
  "mergeEntries existing incoming =
     (case incoming of
        [] \<Rightarrow> existing
      | e # _ \<Rightarrow>
          if existing = [] then incoming
          else
            let pos = first_index (\<lambda>r. e_Index r \<ge> e_Index e) existing in
            take pos existing @ incoming)"

definition cloneEntries :: "Entry list \<Rightarrow> Entry list" where
  "cloneEntries es = es"

subsection \<open>MemoryWAL\<close>

record MemoryWAL =
  mw_state :: HardState
  mw_entries :: "Entry list"
  mw_opened :: bool

definition NewMemoryWAL :: MemoryWAL where
  "NewMemoryWAL = \<lparr>mw_state = zero_HardState, mw_entries = [], mw_opened = False\<rparr>"

definition mw_Open :: "MemoryWAL \<Rightarrow> MemoryWAL" where
  "mw_Open w = w\<lparr>mw_opened := True\<rparr>"

definition mw_Append :: "MemoryWAL \<Rightarrow> HardState \<Rightarrow> Entry list \<Rightarrow> MemoryWAL" where
  "mw_Append w state es = w\<lparr>mw_state := state, mw_entries := mergeEntries (mw_entries w) es\<rparr>"

definition mw_Load :: "MemoryWAL \<Rightarrow> HardState \<times> Entry list" where
  "mw_Load w = (mw_state w, mw_entries w)"

definition mw_TruncatePrefix :: "MemoryWAL \<Rightarrow> u64 \<Rightarrow> MemoryWAL" where
  "mw_TruncatePrefix w index = w\<lparr>mw_entries := filter (\<lambda>e. e_Index e \<ge> index) (mw_entries w)\<rparr>"

definition mw_Sync :: "MemoryWAL \<Rightarrow> MemoryWAL" where
  "mw_Sync w = w"

definition mw_Close :: "MemoryWAL \<Rightarrow> MemoryWAL" where
  "mw_Close w = w\<lparr>mw_opened := False\<rparr>"

subsection \<open>FileWAL\<close>

record Segment =
  sg_ID :: u64
  sg_FirstIndex :: u64
  sg_LastIndex :: u64
  sg_Path :: bytes

record FileWAL =
  fw_dir :: bytes
  fw_codec :: Codec
  fw_maxSegmentSize :: int
  fw_state :: HardState
  fw_entries :: "Entry list"
  fw_segments :: "Segment list"
  fw_opened :: bool

definition defaultMaxSegmentSize :: int where
  "defaultMaxSegmentSize = 64 * 1024 * 1024"

definition stateFileName :: bytes where
  "stateFileName = ''hardstate.bin''"

definition NewFileWAL :: "bytes \<Rightarrow> Codec \<Rightarrow> FileWAL" where
  "NewFileWAL dir codec =
     \<lparr>fw_dir = dir, fw_codec = codec, fw_maxSegmentSize = defaultMaxSegmentSize, fw_state = zero_HardState,
      fw_entries = [], fw_segments = [], fw_opened = False\<rparr>"

definition state_path :: "FileWAL \<Rightarrow> bytes" where
  "state_path w = join_path (fw_dir w) stateFileName"

definition segment_path :: "bytes \<Rightarrow> u64 \<Rightarrow> bytes" where
  "segment_path dir sid = join_path dir (Format020 (unat sid) @ ''.wal'')"

text \<open>\<open>filepath.Base\<close>, and \<open>Sscanf\<close> with \<open>%d.wal\<close>: the number its digits begin with, 0 on an error.\<close>

definition path_base :: "bytes \<Rightarrow> bytes" where
  "path_base path = rev (takeWhile (\<lambda>c. c \<noteq> CHR ''/'') (rev path))"

definition parseSegmentID :: "bytes \<Rightarrow> u64" where
  "parseSegmentID path =
     (case ParseUint (takeWhile is_digit (path_base path)) of None \<Rightarrow> 0 | Some n \<Rightarrow> word_of_nat n)"

definition nextSegmentID :: "Segment list \<Rightarrow> u64" where
  "nextSegmentID segments = (if segments = [] then 1 else sg_ID (last segments) + 1)"

text \<open>One record: a 32-bit big-endian length and the payload. The conversion to \<open>uint32\<close> wraps.\<close>

definition frame :: "bytes \<Rightarrow> bytes" where
  "frame record = be_bytes 4 (length record) @ record"

definition appendRecord :: "bytes \<Rightarrow> bytes \<Rightarrow> disk \<Rightarrow> disk \<times> wal_error option" where
  "appendRecord path record d0 =
     (case next_io d0 of
        (io, d) \<Rightarrow>
          (case map_of (dk_files d) path of
             None \<Rightarrow> (d, Some ErrNotExist)
           | Some old \<Rightarrow>
               (case io of
                  IoFail n \<Rightarrow> (set_file path (old @ take n (frame record)) d, Some ErrIO)
                | IoOk \<Rightarrow> (set_file path (old @ frame record) d, None))))"

definition fileSize :: "bytes \<Rightarrow> disk \<Rightarrow> wal_error + int" where
  "fileSize path d =
     (case map_of (dk_files d) path of None \<Rightarrow> Inl ErrNotExist | Some data \<Rightarrow> Inr (int (length data)))"

definition createSegment :: "FileWAL \<Rightarrow> u64 \<Rightarrow> u64 \<Rightarrow> disk \<Rightarrow> disk \<times> (wal_error + Segment)" where
  "createSegment w sid firstIndex d0 =
     (case next_io d0 of
        (IoFail _, d) \<Rightarrow> (d, Inl ErrIO)
      | (IoOk, d) \<Rightarrow>
          (set_file (segment_path (fw_dir w) sid) [] d,
           Inr \<lparr>sg_ID = sid, sg_FirstIndex = firstIndex, sg_LastIndex = firstIndex - 1,
                sg_Path = segment_path (fw_dir w) sid\<rparr>))"

text \<open>All entries of one segment file. Fewer than four bytes left end the file quietly; a record that is
  cut short is an error.\<close>

function read_records :: "Codec \<Rightarrow> bytes \<Rightarrow> wal_error + Entry list" where
  "read_records codec s =
     (if length s < 4 then Inr []
      else
        let n = be_value (take 4 s); rest = drop 4 s in
        if length rest < n then Inl ErrShortRecord
        else case cd_DecodeEntry codec (take n rest) of
          None \<Rightarrow> Inl ErrCodec
        | Some e \<Rightarrow> and_then (read_records codec (drop n rest)) (\<lambda>es. Inr (e # es)))"
  by pat_completeness auto
termination by (relation "measure (\<lambda>(codec, s). length s)") auto

declare read_records.simps [simp del]

definition readSegment :: "bytes \<Rightarrow> Codec \<Rightarrow> disk \<Rightarrow> wal_error + Entry list" where
  "readSegment path codec d =
     (case map_of (dk_files d) path of None \<Rightarrow> Inl ErrNotExist | Some data \<Rightarrow> read_records codec data)"

definition loadState :: "FileWAL \<Rightarrow> disk \<Rightarrow> wal_error + HardState" where
  "loadState w d =
     (case map_of (dk_files d) (state_path w) of
        None \<Rightarrow> Inr zero_HardState
      | Some data \<Rightarrow> (case cd_DecodeState (fw_codec w) data of None \<Rightarrow> Inl ErrCodec | Some s \<Rightarrow> Inr s))"

fun load_loop :: "Codec \<Rightarrow> disk \<Rightarrow> bytes list \<Rightarrow> wal_error + (Entry list \<times> Segment list)" where
  "load_loop codec d [] = Inr ([], [])"
| "load_loop codec d (path # paths) =
     and_then (readSegment path codec d) (\<lambda>fileEntries.
     and_then (load_loop codec d paths) (\<lambda>(entries, segments).
       if fileEntries = [] then Inr (entries, segments)
       else Inr (fileEntries @ entries,
         \<lparr>sg_ID = parseSegmentID path, sg_FirstIndex = e_Index (hd fileEntries),
          sg_LastIndex = e_Index (last fileEntries), sg_Path = path\<rparr> # segments)))"

definition loadEntries :: "FileWAL \<Rightarrow> disk \<Rightarrow> wal_error + (Entry list \<times> Segment list)" where
  "loadEntries w d = load_loop (fw_codec w) d (glob_wal (fw_dir w) d)"

definition persistState :: "FileWAL \<Rightarrow> disk \<Rightarrow> disk \<times> wal_error option" where
  "persistState w d =
     (case cd_EncodeState (fw_codec w) (fw_state w) of
        None \<Rightarrow> (d, Some ErrCodec)
      | Some data \<Rightarrow>
          (case os_WriteFile (state_path w @ ''.tmp'') data d of
             (d1, Some e) \<Rightarrow> (d1, Some e)
           | (d1, None) \<Rightarrow> os_Rename (state_path w @ ''.tmp'') (state_path w) d1))"

text \<open>\<open>os.MkdirAll\<close> takes the next outcome.\<close>

definition fw_Open :: "FileWAL \<Rightarrow> disk \<Rightarrow> (FileWAL \<times> disk) \<times> wal_error option" where
  "fw_Open w d0 =
     (if fw_opened w then ((w, d0), None)
      else case next_io d0 of
        (IoFail _, d) \<Rightarrow> ((w, d), Some ErrIO)
      | (IoOk, d) \<Rightarrow>
          (case loadState w d of
             Inl e \<Rightarrow> ((w, d), Some e)
           | Inr state \<Rightarrow>
               (case loadEntries w d of
                  Inl e \<Rightarrow> ((w, d), Some e)
                | Inr (entries, segments) \<Rightarrow>
                    ((w\<lparr>fw_state := state, fw_entries := entries, fw_segments := segments, fw_opened := True\<rparr>, d),
                     None))))"

text \<open>
  The loop of \<open>appendEntriesIncremental\<close>: the segments so far, the next segment number, and whether
  \<open>lastSegment\<close> is set (it then is the last of the segments).
\<close>

definition roll_segment ::
  "FileWAL \<Rightarrow> Segment list \<Rightarrow> u64 \<Rightarrow> u64 \<Rightarrow> disk \<Rightarrow> disk \<times> (wal_error + Segment list \<times> u64)" where
  "roll_segment w segments nextID firstIndex d =
     (case createSegment w nextID firstIndex d of
        (d1, Inl e) \<Rightarrow> (d1, Inl e)
      | (d1, Inr segment) \<Rightarrow> (d1, Inr (segments @ [segment], nextID + 1)))"

definition note_entry :: "Segment \<Rightarrow> Entry \<Rightarrow> Segment" where
  "note_entry segment e =
     (let s = (if sg_FirstIndex segment = 0 then segment\<lparr>sg_FirstIndex := e_Index e\<rparr> else segment) in
      s\<lparr>sg_LastIndex := e_Index e\<rparr>)"

fun append_loop ::
  "FileWAL \<Rightarrow> Entry list \<Rightarrow> Segment list \<Rightarrow> u64 \<Rightarrow> bool \<Rightarrow> disk \<Rightarrow> disk \<times> (wal_error + Segment list)" where
  "append_loop w [] segments nextID haveLast d = (d, Inr segments)"
| "append_loop w (entry # entries) segments nextID haveLast d =
     (case cd_EncodeEntry (fw_codec w) entry of
        None \<Rightarrow> (d, Inl ErrCodec)
      | Some record \<Rightarrow>
          (case (if haveLast then (d, Inr (segments, nextID))
                 else roll_segment w segments nextID (e_Index entry) d) of
             (d1, Inl e) \<Rightarrow> (d1, Inl e)
           | (d1, Inr (segments1, nextID1)) \<Rightarrow>
               (case fileSize (sg_Path (last segments1)) d1 of
                  Inl e \<Rightarrow> (d1, Inl e)
                | Inr currentSize \<Rightarrow>
                    (case (if currentSize > 0 \<and> currentSize + (4 + int (length record)) > fw_maxSegmentSize w
                           then roll_segment w segments1 nextID1 (e_Index entry) d1
                           else (d1, Inr (segments1, nextID1))) of
                       (d2, Inl e) \<Rightarrow> (d2, Inl e)
                     | (d2, Inr (segments2, nextID2)) \<Rightarrow>
                         (case appendRecord (sg_Path (last segments2)) record d2 of
                            (d3, Some e) \<Rightarrow> (d3, Inl e)
                          | (d3, None) \<Rightarrow>
                              append_loop w entries (butlast segments2 @ [note_entry (last segments2) entry])
                                nextID2 True d3)))))"

definition appendEntriesIncremental ::
  "FileWAL \<Rightarrow> Entry list \<Rightarrow> u64 \<Rightarrow> bool \<Rightarrow> disk \<Rightarrow> (FileWAL \<times> disk) \<times> wal_error option" where
  "appendEntriesIncremental w entries startSegmentID appendToLast d =
     (if entries = [] then ((w, d), None)
      else
        let haveLast = (appendToLast \<and> fw_segments w \<noteq> [] \<and> startSegmentID = nextSegmentID (fw_segments w)) in
        case append_loop w entries (fw_segments w) startSegmentID haveLast d of
          (d1, Inl e) \<Rightarrow> ((w, d1), Some e)
        | (d1, Inr segments) \<Rightarrow> ((w\<lparr>fw_segments := segments\<rparr>, d1), None))"

text \<open>Remove segment files, stopping at the first error.\<close>

fun remove_all :: "bytes list \<Rightarrow> disk \<Rightarrow> disk \<times> wal_error option" where
  "remove_all [] d = (d, None)"
| "remove_all (path # paths) d =
     (case os_Remove path d of (d1, Some e) \<Rightarrow> (d1, Some e) | (d1, None) \<Rightarrow> remove_all paths d1)"

definition rewriteTail :: "FileWAL \<Rightarrow> u64 \<Rightarrow> Entry list \<Rightarrow> disk \<Rightarrow> (FileWAL \<times> disk) \<times> wal_error option" where
  "rewriteTail w overlapIndex mergedEntries d =
     (if fw_segments w = [] then
        (case appendEntriesIncremental (w\<lparr>fw_entries := [], fw_segments := []\<rparr>) mergedEntries 1 False d of
           ((w1, d1), Some e) \<Rightarrow> ((w1, d1), Some e)
         | ((w1, d1), None) \<Rightarrow> ((w1\<lparr>fw_entries := cloneEntries mergedEntries\<rparr>, d1), None))
      else
        let segmentIdx = first_index (\<lambda>s. sg_LastIndex s \<ge> overlapIndex) (fw_segments w) in
        if segmentIdx \<ge> length (fw_segments w) then
          (case appendEntriesIncremental w mergedEntries (nextSegmentID (fw_segments w)) True d of
             ((w1, d1), Some e) \<Rightarrow> ((w1, d1), Some e)
           | ((w1, d1), None) \<Rightarrow> ((w1\<lparr>fw_entries := cloneEntries mergedEntries\<rparr>, d1), None))
        else
          let rewriteFrom = sg_FirstIndex (fw_segments w ! segmentIdx);
              startSegmentID = sg_ID (fw_segments w ! segmentIdx) in
          (case remove_all (map sg_Path (drop segmentIdx (fw_segments w))) d of
             (d1, Some e) \<Rightarrow> ((w, d1), Some e)
           | (d1, None) \<Rightarrow>
               let w1 = w\<lparr>fw_segments := take segmentIdx (fw_segments w),
                          fw_entries := filter (\<lambda>e. e_Index e < rewriteFrom) (fw_entries w)\<rparr>;
                   rewriteEntries = filter (\<lambda>e. e_Index e \<ge> rewriteFrom) mergedEntries in
               (case appendEntriesIncremental w1 rewriteEntries startSegmentID False d1 of
                  ((w2, d2), Some e) \<Rightarrow> ((w2, d2), Some e)
                | ((w2, d2), None) \<Rightarrow> ((w2\<lparr>fw_entries := fw_entries w2 @ cloneEntries rewriteEntries\<rparr>, d2), None))))"

definition fw_Append ::
  "FileWAL \<Rightarrow> HardState \<Rightarrow> Entry list \<Rightarrow> disk \<Rightarrow> (FileWAL \<times> disk) \<times> wal_error option" where
  "fw_Append w0 state entries d0 =
     (if \<not> fw_opened w0 then ((w0, d0), Some ErrWALNotOpen)
      else
        let w = (if isEmptyHardState state then w0 else w0\<lparr>fw_state := state\<rparr>) in
        case persistState w d0 of
          (d, Some e) \<Rightarrow> ((w, d), Some e)
        | (d, None) \<Rightarrow>
            (case entries of
               [] \<Rightarrow> ((w, d), None)
             | entry # _ \<Rightarrow>
                 if fw_entries w = [] \<or> e_Index entry = e_Index (last (fw_entries w)) + 1 then
                   (case appendEntriesIncremental w entries (nextSegmentID (fw_segments w)) True d of
                      ((w1, d1), Some e) \<Rightarrow> ((w1, d1), Some e)
                    | ((w1, d1), None) \<Rightarrow> ((w1\<lparr>fw_entries := fw_entries w1 @ cloneEntries entries\<rparr>, d1), None))
                 else if e_Index entry > e_Index (last (fw_entries w)) + 1 then
                   ((w, d), Some (ErrGap (e_Index entry) (e_Index (last (fw_entries w)))))
                 else rewriteTail w (e_Index entry) (mergeEntries (fw_entries w) entries) d))"

definition fw_Load :: "FileWAL \<Rightarrow> wal_error + HardState \<times> Entry list" where
  "fw_Load w = (if fw_opened w then Inr (fw_state w, fw_entries w) else Inl ErrWALNotOpen)"

text \<open>Write the records to a temporary file and rename it over the segment.\<close>

fun frames :: "Codec \<Rightarrow> Entry list \<Rightarrow> bytes option" where
  "frames codec [] = Some []"
| "frames codec (e # es) =
     (case cd_EncodeEntry codec e of
        None \<Rightarrow> None
      | Some record \<Rightarrow> map_option (\<lambda>rest. frame record @ rest) (frames codec es))"

text \<open>What has been written when an entry does not encode.\<close>

fun frames_before :: "Codec \<Rightarrow> Entry list \<Rightarrow> bytes" where
  "frames_before codec [] = []"
| "frames_before codec (e # es) =
     (case cd_EncodeEntry codec e of None \<Rightarrow> [] | Some record \<Rightarrow> frame record @ frames_before codec es)"

definition rewriteSegmentFile :: "bytes \<Rightarrow> Entry list \<Rightarrow> Codec \<Rightarrow> disk \<Rightarrow> disk \<times> wal_error option" where
  "rewriteSegmentFile path entries codec d =
     (case frames codec entries of
        None \<Rightarrow> (set_file (path @ ''.tmp'') (frames_before codec entries) d, Some ErrCodec)
      | Some data \<Rightarrow>
          (case os_WriteFile (path @ ''.tmp'') data d of
             (d1, Some e) \<Rightarrow> (d1, Some e)
           | (d1, None) \<Rightarrow> os_Rename (path @ ''.tmp'') path d1))"

definition fw_persist :: "FileWAL \<Rightarrow> disk \<Rightarrow> (FileWAL \<times> disk) \<times> wal_error option" where
  "fw_persist w d = (case persistState w d of (d1, e) \<Rightarrow> ((w, d1), e))"

text \<open>The branch of \<open>TruncatePrefix\<close> that drops every segment.\<close>

definition truncate_everything :: "FileWAL \<Rightarrow> disk \<Rightarrow> (FileWAL \<times> disk) \<times> wal_error option" where
  "truncate_everything w d =
     (case remove_all (map sg_Path (fw_segments w)) d of
        (d1, Some e) \<Rightarrow> ((w, d1), Some e)
      | (d1, None) \<Rightarrow> fw_persist (w\<lparr>fw_entries := [], fw_segments := []\<rparr>) d1)"

definition fw_TruncatePrefix :: "FileWAL \<Rightarrow> u64 \<Rightarrow> disk \<Rightarrow> (FileWAL \<times> disk) \<times> wal_error option" where
  "fw_TruncatePrefix w index d =
     (if \<not> fw_opened w then ((w, d), Some ErrWALNotOpen)
      else if fw_entries w = [] then fw_persist w d
      else if index \<le> e_Index (hd (fw_entries w)) then fw_persist w d
      else
        let filtered = filter (\<lambda>e. e_Index e \<ge> index) (fw_entries w) in
        if filtered = [] then truncate_everything w d
        else
          let boundaryIdx = first_index (\<lambda>s. sg_LastIndex s \<ge> index) (fw_segments w) in
          if boundaryIdx \<ge> length (fw_segments w) then truncate_everything w d
          else
            (case remove_all (map sg_Path (take boundaryIdx (fw_segments w))) d of
               (d1, Some e) \<Rightarrow> ((w, d1), Some e)
             | (d1, None) \<Rightarrow>
                 let newSegments = drop boundaryIdx (fw_segments w);
                     boundary = hd newSegments in
                 if sg_FirstIndex boundary < index then
                   let boundaryEntries =
                         takeWhile (\<lambda>e. \<not> e_Index e > sg_LastIndex boundary)
                           (filter (\<lambda>e. \<not> e_Index e < index) filtered) in
                   if boundaryEntries = [] then ((w, d1), Some (ErrBoundary (sg_Path boundary) index))
                   else
                     (case rewriteSegmentFile (sg_Path boundary) boundaryEntries (fw_codec w) d1 of
                        (d2, Some e) \<Rightarrow> ((w, d2), Some e)
                      | (d2, None) \<Rightarrow>
                          let b = boundary\<lparr>sg_FirstIndex := e_Index (hd boundaryEntries),
                                          sg_LastIndex := e_Index (last boundaryEntries)\<rparr> in
                          fw_persist (w\<lparr>fw_entries := filtered, fw_segments := b # tl newSegments\<rparr>) d2)
                 else fw_persist (w\<lparr>fw_entries := filtered, fw_segments := newSegments\<rparr>) d1))"

definition fw_Sync :: "FileWAL \<Rightarrow> disk \<Rightarrow> (FileWAL \<times> disk) \<times> wal_error option" where
  "fw_Sync w d = (if fw_opened w then fw_persist w d else ((w, d), Some ErrWALNotOpen))"

definition fw_Close :: "FileWAL \<Rightarrow> FileWAL" where
  "fw_Close w = w\<lparr>fw_opened := False\<rparr>"

text \<open>\<open>rewriteAllSegments\<close>, which no other operation calls.\<close>

definition rewriteAllSegments :: "FileWAL \<Rightarrow> disk \<Rightarrow> (FileWAL \<times> disk) \<times> wal_error option" where
  "rewriteAllSegments w d =
     (case remove_all (glob_wal (fw_dir w) d) d of
        (d1, Some e) \<Rightarrow> ((w, d1), Some e)
      | (d1, None) \<Rightarrow>
          (let w1 = w\<lparr>fw_segments := []\<rparr> in
           if fw_entries w = [] then ((w1, d1), None)
           else appendEntriesIncremental w1 (cloneEntries (fw_entries w)) 1 False d1))"

end
