(* ===== verification/Wal_Correct.thy ===== *)
theory Wal_Correct
  imports Wal
begin

text \<open>
  Correctness of the log: the segment files always hold exactly the entries of the memory image
  (\<open>log_on_disk\<close>), every operation keeps that and acts on the entries as on a plain list, and opening the
  directory again gives the image back.
\<close>

subsection \<open>Consecutive entries\<close>

abbreviation ix :: "Entry \<Rightarrow> nat" where
  "ix e \<equiv> unat (e_Index e)"

definition consec :: "Entry list \<Rightarrow> bool" where
  "consec es \<longleftrightarrow> (\<exists>n > 0. map (\<lambda>e. ix e) es = [n..<n + length es])"

lemma consec_Nil [simp]: "consec []"
  by (auto simp: consec_def)

lemma consec_nth:
  "consec es \<longleftrightarrow> (es = [] \<or> 0 < ix (hd es) \<and> (\<forall>i < length es. ix (es ! i) = ix (hd es) + i))"
proof (cases "es = []")
  case False
  then have h: "hd es = es ! 0" by (rule hd_conv_nth)
  show ?thesis
  proof
    assume "consec es"
    then obtain n where n: "n > 0" "map (\<lambda>e. ix e) es = [n..<n + length es]" by (auto simp: consec_def)
    have e: "ix (es ! i) = n + i" if "i < length es" for i
      using arg_cong [OF n(2), of "\<lambda>l. l ! i"] that by simp
    show "es = [] \<or> 0 < ix (hd es) \<and> (\<forall>i < length es. ix (es ! i) = ix (hd es) + i)"
      using e False n(1) by (simp add: h)
  next
    assume a: "es = [] \<or> 0 < ix (hd es) \<and> (\<forall>i < length es. ix (es ! i) = ix (hd es) + i)"
    then have "map (\<lambda>e. ix e) es = [ix (hd es)..<ix (hd es) + length es]"
      using False by (intro nth_equalityI) auto
    with a False show "consec es" unfolding consec_def by blast
  qed
qed simp

lemma consec_last: "consec es \<Longrightarrow> es \<noteq> [] \<Longrightarrow> ix (last es) = ix (hd es) + (length es - 1)"
  by (simp add: consec_nth last_conv_nth)

lemma consec_append:
  "consec (xs @ ys) \<longleftrightarrow> consec xs \<and> consec ys \<and> (xs \<noteq> [] \<longrightarrow> ys \<noteq> [] \<longrightarrow> ix (hd ys) = Suc (ix (last xs)))"
  (is "?l \<longleftrightarrow> ?r")
proof (cases "xs = [] \<or> ys = []")
  case False
  then have ne: "xs \<noteq> []" "ys \<noteq> []" by auto
  show ?thesis
  proof
    assume ?l
    then have 0: "0 < ix (hd xs)" and n: "\<And>i. i < length xs + length ys \<Longrightarrow> ix ((xs @ ys) ! i) = ix (hd xs) + i"
      using ne by (auto simp: consec_nth)
    have x: "ix (xs ! i) = ix (hd xs) + i" if "i < length xs" for i
      using n [of i] that by (simp add: nth_append)
    have y: "ix (ys ! i) = ix (hd xs) + length xs + i" if "i < length ys" for i
      using n [of "length xs + i"] that by (simp add: nth_append)
    have hy: "ix (hd ys) = ix (hd xs) + length xs" using y [of 0] ne by (simp add: hd_conv_nth)
    show ?r using 0 x y hy ne by (auto simp: consec_nth last_conv_nth x)
  next
    assume r: ?r
    then have 0: "0 < ix (hd xs)" and x: "\<And>i. i < length xs \<Longrightarrow> ix (xs ! i) = ix (hd xs) + i"
      and y: "\<And>i. i < length ys \<Longrightarrow> ix (ys ! i) = ix (hd ys) + i"
      using ne by (auto simp: consec_nth)
    have "ix (hd ys) = ix (hd xs) + length xs"
      using r ne consec_last [of xs] by (cases "length xs") auto
    then have "ix ((xs @ ys) ! i) = ix (hd xs) + i" if "i < length (xs @ ys)" for i
      using that x y by (auto simp: nth_append)
    with 0 ne show ?l by (simp add: consec_nth)
  qed
qed auto

lemma consec_pos: "consec es \<Longrightarrow> e \<in> set es \<Longrightarrow> 0 < ix e"
  by (auto simp: consec_nth in_set_conv_nth)

lemma consec_sorted: "consec es \<Longrightarrow> sorted_wrt (<) (map e_Index es)"
  by (auto simp: consec_nth sorted_wrt_iff_nth_less word_less_nat_alt)

lemma sorted_filter_split:
  "sorted_wrt (<) (map f xs) \<Longrightarrow> filter (\<lambda>x. f x < (b :: 'a :: linorder)) xs @ filter (\<lambda>x. f x \<ge> b) xs = xs"
proof (induction xs)
  case (Cons x xs)
  show ?case
  proof (cases "f x < b")
    case True
    then show ?thesis using Cons by (simp add: not_le [symmetric])
  next
    case False
    then have "\<forall>y \<in> set xs. \<not> f y < b" using Cons.prems by auto
    then have "filter (\<lambda>x. f x < b) xs = []" "filter (\<lambda>x. f x \<ge> b) xs = xs"
      by (auto simp: filter_empty_conv filter_id_conv)
    with False show ?thesis by simp
  qed
qed simp

lemma sorted_takeWhile_filter:
  "sorted_wrt (<) (map f xs) \<Longrightarrow> takeWhile (\<lambda>x. \<not> f x \<ge> (b :: 'a :: linorder)) xs = filter (\<lambda>x. f x < b) xs"
proof (induction xs)
  case (Cons x xs)
  show ?case
  proof (cases "f x < b")
    case False
    then have "\<forall>y \<in> set xs. \<not> f y < b" using Cons.prems by auto
    with False show ?thesis by (simp add: filter_empty_conv not_less)
  qed (use Cons in simp)
qed simp

text \<open>A log and the incoming entries after merging.\<close>

definition merged :: "Entry list \<Rightarrow> Entry list \<Rightarrow> Entry list" where
  "merged es inc = (if inc = [] then es else filter (\<lambda>e. e_Index e < e_Index (hd inc)) es @ inc)"

lemma mergeEntries_merged: "consec es \<Longrightarrow> mergeEntries es inc = merged es inc"
  using consec_sorted [of es]
  by (cases inc) (auto simp: mergeEntries_def merged_def Let_def take_first_index sorted_takeWhile_filter)

subsection \<open>Files\<close>

abbreviation contents :: "disk \<Rightarrow> bytes \<Rightarrow> bytes option" where
  "contents d p \<equiv> map_of (dk_files d) p"

lemma next_io_files: "next_io d = (i, d1) \<Longrightarrow> dk_files d1 = dk_files d"
  by (auto simp: next_io_def split: list.splits)

lemma contents_set_file [simp]: "contents (set_file p b d) q = (if q = p then Some b else contents d q)"
  by (simp add: set_file_def update_conv')

lemma contents_drop_file [simp]: "contents (drop_file p d) q = (if q = p then None else contents d q)"
  by (simp add: drop_file_def delete_conv')

lemma os_Remove_ok: "os_Remove p d = (d', None) \<Longrightarrow> contents d' q = (if q = p then None else contents d q)"
  by (auto simp: os_Remove_def split: prod.splits io.splits dest: next_io_files)

lemma remove_all_ok: "remove_all ps d = (d', None) \<Longrightarrow> contents d' q = (if q \<in> set ps then None else contents d q)"
proof (induction ps arbitrary: d)
  case (Cons p ps)
  then obtain d1 where "os_Remove p d = (d1, None)" "remove_all ps d1 = (d', None)"
    by (auto split: prod.splits option.splits)
  with Cons.IH os_Remove_ok show ?case by auto
qed simp

lemma os_WriteFile_ok: "os_WriteFile p b d = (d', None) \<Longrightarrow> contents d' q = (if q = p then Some b else contents d q)"
  by (auto simp: os_WriteFile_def split: prod.splits io.splits dest: next_io_files)

lemma os_Rename_ok:
  assumes "os_Rename p p' d = (d', None)" "p \<noteq> p'"
  shows "contents d' q = (if q = p' then contents d p else if q = p then None else contents d q)"
  using assms by (auto simp: os_Rename_def split: prod.splits io.splits option.splits dest: next_io_files)

lemma write_rename_ok:
  assumes "os_WriteFile (p @ ''.tmp'') b d = (d1, None)" "os_Rename (p @ ''.tmp'') p d1 = (d', None)"
  shows "contents d' q = (if q = p then Some b else if q = p @ ''.tmp'' then None else contents d q)"
  using os_WriteFile_ok [OF assms(1)] os_Rename_ok [OF assms(2)] by auto

lemma appendRecord_ok:
  assumes "appendRecord p r d = (d', None)"
  obtains old where "contents d p = Some old"
    "\<And>q. contents d' q = (if q = p then Some (old @ frame r) else contents d q)"
  using assms that
  by (auto simp: appendRecord_def split: prod.splits io.splits option.splits dest: next_io_files)

lemma createSegment_ok:
  assumes "createSegment w i f d = (d', Inr seg)"
  shows "seg = \<lparr>sg_ID = i, sg_FirstIndex = f, sg_LastIndex = f - 1, sg_Path = segment_path (fw_dir w) i\<rparr>"
    "contents d' q = (if q = segment_path (fw_dir w) i then Some [] else contents d q)"
  using assms by (auto simp: createSegment_def split: prod.splits io.splits dest: next_io_files)

subsection \<open>Records\<close>

lemma length_frame: "length (frame r) = 4 + length r"
  by (simp add: frame_def)

lemma be_value_frame: "length r < 2 ^ 32 \<Longrightarrow> be_value (take 4 (frame r @ s)) = length r"
  by (simp add: frame_def be_value_be_bytes)

lemma read_records_frame:
  assumes "codec_ok c" "cd_EncodeEntry c e = Some r"
  shows "read_records c (frame r @ s) = and_then (read_records c s) (\<lambda>es. Inr (e # es))"
proof -
  have r: "length r < 2 ^ 32" "cd_DecodeEntry c r = Some e" using assms by (auto simp: codec_ok_def)
  show ?thesis
    using be_value_frame [OF r(1), of s] r
    by (subst read_records.simps) (simp add: Let_def frame_def)
qed

lemma read_records_frames:
  "codec_ok c \<Longrightarrow> frames c es = Some b \<Longrightarrow> read_records c (b @ s) = and_then (read_records c s) (\<lambda>es'. Inr (es @ es'))"
proof (induction es arbitrary: b)
  case Nil
  then show ?case by (cases "read_records c s") auto
next
  case (Cons e es)
  then obtain r b' where r: "cd_EncodeEntry c e = Some r" "frames c es = Some b'" "b = frame r @ b'"
    by (auto split: option.splits)
  with Cons read_records_frame [OF Cons.prems(1) r(1)] show ?case
    by (cases "read_records c s") auto
qed

lemma read_records_Nil [simp]: "read_records c [] = Inr []"
  by (subst read_records.simps) simp

lemma read_frames: "codec_ok c \<Longrightarrow> frames c es = Some b \<Longrightarrow> read_records c b = Inr es"
  using read_records_frames [of c es b "[]"] by simp

lemma frames_append:
  "frames c (xs @ ys) = (case frames c xs of None \<Rightarrow> None | Some b \<Rightarrow> map_option (\<lambda>b'. b @ b') (frames c ys))"
  by (cases "frames c ys"; induction xs) (auto split: option.splits)

subsection \<open>Segment paths\<close>

lemma unat_small: "unat (w :: u64) < 10 ^ 20"
  using unsigned_less [of w, where ?'a = nat] by simp

lemma segment_path_inject [simp]: "segment_path dir i = segment_path dir j \<longleftrightarrow> i = j"
  by (simp add: segment_path_def join_path_def Format020_inject [OF unat_small unat_small] word_unat_eq_iff)

lemma segment_path_less: "segment_path dir i < segment_path dir j \<longleftrightarrow> i < j"
proof -
  have "length (Format020 (unat i)) = length (Format020 (unat j))"
    by (simp add: Format020_fixed [OF unat_small])
  moreover have "length a = length b \<Longrightarrow> a @ t < b @ t \<longleftrightarrow> a < b" for a b t :: bytes
    by (induction a b rule: list_induct2) auto
  moreover have "d @ a < d @ b \<longleftrightarrow> a < b" for d a b :: bytes
    by (induction d) auto
  ultimately show ?thesis
    by (simp add: segment_path_def join_path_def Format020_less [OF unat_small unat_small] word_less_nat_alt)
qed

lemma Format020_digits: "list_all is_digit (Format020 n)"
proof -
  have "is_digit (digit_char 0)" by (simp add: is_digit_digit_char)
  then show ?thesis
    using FormatUint_digits [of n] by (auto simp: Format020_def Let_def list_all_iff)
qed

lemma digits_value_replicate_zero: "digits_value (replicate k (digit_char 0) @ s) = digits_value s"
proof -
  have "foldl (\<lambda>n c. 10 * n + (of_char c - 48)) 0 (replicate k (digit_char 0)) = (0::nat)"
    by (induction k) (simp_all add: of_char_digit_char)
  then show ?thesis by (simp add: digits_value_def)
qed

lemma no_slash_Format020: "CHR ''/'' \<notin> set (Format020 n)"
  using Format020_digits [of n] by (auto simp: list_all_iff is_digit_def)

lemma path_base_join: "CHR ''/'' \<notin> set name \<Longrightarrow> path_base (join_path dir name) = name"
proof -
  assume n: "CHR ''/'' \<notin> set name"
  have "takeWhile (\<lambda>c. c \<noteq> CHR ''/'') (rev name @ CHR ''/'' # rev dir) = rev name"
    using n by (subst takeWhile_append2) auto
  then show ?thesis by (simp add: path_base_def join_path_def)
qed

lemma parseSegmentID_path [simp]: "parseSegmentID (segment_path dir i) = i"
proof -
  have "path_base (segment_path dir i) = Format020 (unat i) @ ''.wal''"
    unfolding segment_path_def by (rule path_base_join) (use no_slash_Format020 in auto)
  moreover have "takeWhile is_digit (Format020 (unat i) @ ''.wal'') = Format020 (unat i)"
    using Format020_digits [of "unat i"] by (simp add: list_all_iff is_digit_def [of "CHR ''.''"])
  moreover have "digits_value (Format020 (unat i)) = unat i"
    by (simp add: Format020_def Let_def digits_value_replicate_zero digits_value_FormatUint)
  moreover have "Format020 (unat i) \<noteq> []" by (simp add: Format020_def Let_def)
  ultimately show ?thesis
    using Format020_digits [of "unat i"] unsigned_less [of i, where ?'a = nat]
    by (simp add: parseSegmentID_def ParseUint_def)
qed

lemma wal_path_segment [simp]: "wal_path dir (segment_path dir i)"
  using no_slash_Format020 [of "unat i"]
  by (simp add: wal_path_def segment_path_def join_path_def HasPrefix_iff HasSuffix_iff)

lemma not_wal_path [simp]:
  "\<not> wal_path dir (join_path dir stateFileName)" "\<not> wal_path dir (join_path dir stateFileName @ ''.tmp'')"
  "\<not> wal_path dir (segment_path dir i @ ''.tmp'')"
  by (simp_all add: wal_path_def join_path_def segment_path_def stateFileName_def HasSuffix_def)

subsection \<open>The log on disk\<close>

text \<open>A segment holds entries: its bounds are theirs, its file is their encoding, and the file is not larger
  than the limit unless it holds a single record.\<close>

definition seg_holds :: "Codec \<Rightarrow> int \<Rightarrow> disk \<Rightarrow> Segment \<Rightarrow> Entry list \<Rightarrow> bool" where
  "seg_holds c mx d seg es \<longleftrightarrow>
     es \<noteq> [] \<and> sg_FirstIndex seg = e_Index (hd es) \<and> sg_LastIndex seg = e_Index (last es) \<and>
     (\<exists>b. frames c es = Some b \<and> contents d (sg_Path seg) = Some b \<and> (int (length b) \<le> mx \<or> length es = 1))"

definition segs_ok :: "bytes \<Rightarrow> disk \<Rightarrow> Segment list \<Rightarrow> bool" where
  "segs_ok dir d segs \<longleftrightarrow> sorted_wrt (<) (map sg_ID segs) \<and>
     (\<forall>s \<in> set segs. sg_Path s = segment_path dir (sg_ID s)) \<and>
     (\<forall>p. wal_path dir p \<longrightarrow> contents d p \<noteq> None \<longrightarrow> p \<in> sg_Path ` set segs)"

definition log_on_disk :: "FileWAL \<Rightarrow> disk \<Rightarrow> Segment list \<Rightarrow> Entry list list \<Rightarrow> bool" where
  "log_on_disk w d segs ess \<longleftrightarrow>
     segs_ok (fw_dir w) d segs \<and> list_all2 (seg_holds (fw_codec w) (fw_maxSegmentSize w) d) segs ess"

lemma seg_holds_other:
  "seg_holds c mx d seg es \<Longrightarrow> contents d' (sg_Path seg) = contents d (sg_Path seg) \<Longrightarrow> seg_holds c mx d' seg es"
  by (auto simp: seg_holds_def)

lemma segs_path_inj:
  "segs_ok dir d segs \<Longrightarrow> s \<in> set segs \<Longrightarrow> t \<in> set segs \<Longrightarrow> sg_Path s = sg_Path t \<longleftrightarrow> sg_ID s = sg_ID t"
  by (simp add: segs_ok_def)

lemma list_all2_snoc [simp]: "list_all2 P (xs @ [x]) (ys @ [y]) \<longleftrightarrow> list_all2 P xs ys \<and> P x y"
proof
  assume a: "list_all2 P (xs @ [x]) (ys @ [y])"
  then have "length xs = length ys" using list_all2_lengthD by fastforce
  with a show "list_all2 P xs ys \<and> P x y" by (simp add: list_all2_append)
qed (auto simp: list_all2_appendI)

text \<open>Appending a record to the last segment.\<close>

lemma log_extend:
  assumes "log_on_disk w d (segs @ [seg]) (ess @ [es])" "consec (es @ [e])"
    "cd_EncodeEntry (fw_codec w) e = Some r" "appendRecord (sg_Path seg) r d = (d', None)"
    "\<And>old. contents d (sg_Path seg) = Some old \<Longrightarrow> int (length old) + (4 + int (length r)) \<le> fw_maxSegmentSize w"
  shows "log_on_disk w d' (segs @ [note_entry seg e]) (ess @ [es @ [e]])"
proof -
  obtain old where old: "contents d (sg_Path seg) = Some old"
    and d': "\<And>q. contents d' q = (if q = sg_Path seg then Some (old @ frame r) else contents d q)"
    using assms(4) by (rule appendRecord_ok) blast
  have ok: "segs_ok (fw_dir w) d (segs @ [seg])"
    and all: "list_all2 (seg_holds (fw_codec w) (fw_maxSegmentSize w) d) segs ess"
    and h: "seg_holds (fw_codec w) (fw_maxSegmentSize w) d seg es"
    using assms(1) by (auto simp: log_on_disk_def)
  have es: "es \<noteq> []" "sg_FirstIndex seg = e_Index (hd es)" "frames (fw_codec w) es = Some old"
    using h old by (auto simp: seg_holds_def)
  then have "sg_FirstIndex seg \<noteq> 0"
    using assms(2) consec_pos [of "es @ [e]" "hd es"] by auto
  then have n: "note_entry seg e = seg\<lparr>sg_LastIndex := e_Index e\<rparr>" by (simp add: note_entry_def)
  have "frames (fw_codec w) (es @ [e]) = Some (old @ frame r)"
    using es(3) assms(3) by (simp add: frames_append)
  then have "seg_holds (fw_codec w) (fw_maxSegmentSize w) d' (note_entry seg e) (es @ [e])"
    using es n d' assms(5) [OF old] by (simp add: seg_holds_def length_frame)
  moreover have "list_all2 (seg_holds (fw_codec w) (fw_maxSegmentSize w) d') segs ess"
  proof (rule list.rel_mono_strong [OF all])
    fix s es' assume "s \<in> set segs" "es' \<in> set ess" "seg_holds (fw_codec w) (fw_maxSegmentSize w) d s es'"
    moreover from this(1) have "sg_Path s \<noteq> sg_Path seg"
      using ok by (auto simp: segs_ok_def sorted_wrt_append)
    ultimately show "seg_holds (fw_codec w) (fw_maxSegmentSize w) d' s es'"
      using d' by (simp add: seg_holds_def)
  qed
  moreover have "segs_ok (fw_dir w) d' (segs @ [note_entry seg e])"
    using ok old d' by (auto simp: segs_ok_def n split: if_splits)
  ultimately show ?thesis by (simp add: log_on_disk_def)
qed

text \<open>Opening a new segment for a record.\<close>

lemma log_new_segment:
  assumes "log_on_disk w d segs ess" "consec [e]" "\<forall>s \<in> set segs. sg_ID s < i"
    "cd_EncodeEntry (fw_codec w) e = Some r" "createSegment w i (e_Index e) d = (d1, Inr seg)"
    "appendRecord (sg_Path seg) r d1 = (d', None)"
  shows "log_on_disk w d' (segs @ [note_entry seg e]) (ess @ [[e]])"
proof -
  let ?p = "segment_path (fw_dir w) i"
  have seg: "seg = \<lparr>sg_ID = i, sg_FirstIndex = e_Index e, sg_LastIndex = e_Index e - 1, sg_Path = ?p\<rparr>"
    and d1: "\<And>q. contents d1 q = (if q = ?p then Some [] else contents d q)"
    using createSegment_ok [OF assms(5)] by blast+
  have d': "contents d' q = (if q = ?p then Some (frame r) else contents d q)" for q
    using appendRecord_ok [OF assms(6)] d1 seg by (metis (no_types, lifting) append_Nil option.inject Segment.select_convs(4))
  have "e_Index e \<noteq> 0" using consec_pos [OF assms(2), of e] by auto
  then have n: "note_entry seg e = \<lparr>sg_ID = i, sg_FirstIndex = e_Index e, sg_LastIndex = e_Index e, sg_Path = ?p\<rparr>"
    by (simp add: note_entry_def seg)
  have ok: "segs_ok (fw_dir w) d segs"
    and all: "list_all2 (seg_holds (fw_codec w) (fw_maxSegmentSize w) d) segs ess"
    using assms(1) by (auto simp: log_on_disk_def)
  have "seg_holds (fw_codec w) (fw_maxSegmentSize w) d' (note_entry seg e) [e]"
    using assms(4) d' by (simp add: seg_holds_def n)
  moreover have "list_all2 (seg_holds (fw_codec w) (fw_maxSegmentSize w) d') segs ess"
  proof (rule list.rel_mono_strong [OF all])
    fix s es' assume "s \<in> set segs" "es' \<in> set ess" "seg_holds (fw_codec w) (fw_maxSegmentSize w) d s es'"
    moreover from this(1) have "sg_Path s \<noteq> ?p"
      using ok assms(3) by (auto simp: segs_ok_def)
    ultimately show "seg_holds (fw_codec w) (fw_maxSegmentSize w) d' s es'"
      using d' by (simp add: seg_holds_def)
  qed
  moreover have "segs_ok (fw_dir w) d' (segs @ [note_entry seg e])"
    using ok assms(3) d' by (auto simp: segs_ok_def n sorted_wrt_append split: if_splits)
  ultimately show ?thesis by (simp add: log_on_disk_def)
qed

subsection \<open>The append loop\<close>

definition others_kept :: "FileWAL \<Rightarrow> disk \<Rightarrow> disk \<Rightarrow> bool" where
  "others_kept w d d' \<longleftrightarrow> (\<forall>p. \<not> wal_path (fw_dir w) p \<longrightarrow> contents d' p = contents d p)"

lemma others_kept_trans: "others_kept w d d1 \<Longrightarrow> others_kept w d1 d2 \<Longrightarrow> others_kept w d d2"
  by (simp add: others_kept_def)

lemma frames_nonempty: "frames c es = Some b \<Longrightarrow> es \<noteq> [] \<Longrightarrow> b \<noteq> []"
proof (cases es)
  case (Cons e es')
  assume "frames c es = Some b"
  then obtain r b' where "b = frame r @ b'" using Cons by (auto split: option.splits)
  then show "b \<noteq> []" using length_frame [of r] by auto
qed simp

text \<open>A record that starts a new segment.\<close>

lemma step_new:
  assumes "log_on_disk w d segs ess" "consec [e]" "\<forall>s \<in> set segs. sg_ID s < i" "unat i + 1 < 2 ^ 64"
    "cd_EncodeEntry (fw_codec w) e = Some r" "roll_segment w segs i (e_Index e) d = (d1, Inr (segs1, i1))"
    "appendRecord (sg_Path (last segs1)) r d1 = (d2, None)"
  shows "log_on_disk w d2 (butlast segs1 @ [note_entry (last segs1) e]) (ess @ [[e]]) \<and> others_kept w d d2 \<and>
    (\<forall>s \<in> set (butlast segs1 @ [note_entry (last segs1) e]). sg_ID s < i1) \<and> unat i1 = unat i + 1"
proof -
  obtain seg where c: "createSegment w i (e_Index e) d = (d1, Inr seg)" and s1: "segs1 = segs @ [seg]" "i1 = i + 1"
    using assms(6) by (auto simp: roll_segment_def split: prod.splits sum.splits)
  have seg: "sg_ID seg = i" "sg_Path seg = segment_path (fw_dir w) i" using createSegment_ok(1) [OF c] by simp_all
  have i1: "unat i1 = unat i + 1"
    using assms(4) s1(2) by (simp add: unat_word_ariths)
  have "contents d2 p = contents d p" if "\<not> wal_path (fw_dir w) p" for p
  proof -
    have "p \<noteq> segment_path (fw_dir w) i" using that by auto
    then show ?thesis
      using appendRecord_ok [OF assms(7)] createSegment_ok(2) [OF c] s1 seg by (metis last_snoc)
  qed
  moreover have "sg_ID s < i1" if "s \<in> set segs" for s
    using that assms(3) i1 by (auto simp: word_less_nat_alt)
  moreover have "sg_ID (note_entry seg e) < i1"
    using i1 seg by (simp add: note_entry_def Let_def word_less_nat_alt)
  ultimately show ?thesis
    using log_new_segment [OF assms(1-3,5) c] assms(7) s1 i1 by (auto simp: others_kept_def)
qed

text \<open>One iteration.\<close>

lemma append_step:
  assumes loop: "append_loop w (e # es) segs i have d = (d', Inr segs')"
    and log: "log_on_disk w d segs ess" and con: "consec (concat ess @ e # es)"
    and hav: "have \<longrightarrow> segs \<noteq> []" and ids: "\<forall>s \<in> set segs. sg_ID s < i" and room: "unat i + 1 < 2 ^ 64"
  obtains d1 segs1 i1 ess1 where "append_loop w es segs1 i1 True d1 = (d', Inr segs')" "log_on_disk w d1 segs1 ess1"
    "concat ess1 = concat ess @ [e]" "segs1 \<noteq> []" "\<forall>s \<in> set segs1. sg_ID s < i1" "unat i1 \<le> unat i + 1"
    "others_kept w d d1"
proof -
  obtain r where r: "cd_EncodeEntry (fw_codec w) e = Some r" using loop by (auto split: option.splits)
  have ce: "consec [e]" using con by (auto simp: consec_append [of "concat ess"] consec_append [of "[e]" es, simplified])
  show ?thesis
  proof (cases "have")
    case False
    obtain d1 segs1 i1 where roll: "roll_segment w segs i (e_Index e) d = (d1, Inr (segs1, i1))"
      using loop r False by (auto split: prod.splits sum.splits)
    then obtain seg where c: "createSegment w i (e_Index e) d = (d1, Inr seg)" and s1: "segs1 = segs @ [seg]"
      by (auto simp: roll_segment_def split: prod.splits sum.splits)
    have size: "fileSize (sg_Path (last segs1)) d1 = Inr 0"
      using createSegment_ok [OF c] s1 by (simp add: fileSize_def)
    obtain d2 where a: "appendRecord (sg_Path (last segs1)) r d1 = (d2, None)"
      and l: "append_loop w es (butlast segs1 @ [note_entry (last segs1) e]) i1 True d2 = (d', Inr segs')"
      using loop r False roll size by (auto split: prod.splits option.splits)
    from step_new [OF log ce ids room r roll a] l show ?thesis
      by (intro that [of "butlast segs1 @ [note_entry (last segs1) e]" i1 d2 "ess @ [[e]]"]) auto
  next
    case True
    then obtain s0 seg where segs: "segs = s0 @ [seg]" using hav by (cases segs rule: rev_cases) auto
    then obtain e0 es0 where ess: "ess = e0 @ [es0]"
      using log by (cases ess rule: rev_cases) (auto simp: log_on_disk_def dest: list_all2_lengthD)
    have h: "seg_holds (fw_codec w) (fw_maxSegmentSize w) d seg es0" using log segs ess by (simp add: log_on_disk_def)
    then obtain old where old: "contents d (sg_Path seg) = Some old" "old \<noteq> []"
      by (auto simp: seg_holds_def dest: frames_nonempty)
    let ?over = "int (length old) + (4 + int (length r)) > fw_maxSegmentSize w"
    show ?thesis
    proof (cases ?over)
      case over: True
      obtain d1 segs1 i1 d2 where roll: "roll_segment w segs i (e_Index e) d = (d1, Inr (segs1, i1))"
        and a: "appendRecord (sg_Path (last segs1)) r d1 = (d2, None)"
        and l: "append_loop w es (butlast segs1 @ [note_entry (last segs1) e]) i1 True d2 = (d', Inr segs')"
        using loop r True over old segs by (auto simp: fileSize_def split: prod.splits sum.splits option.splits)
      from step_new [OF log ce ids room r roll a] l show ?thesis
        by (intro that [of "butlast segs1 @ [note_entry (last segs1) e]" i1 d2 "ess @ [[e]]"]) auto
    next
      case fits: False
      obtain d2 where a: "appendRecord (sg_Path seg) r d = (d2, None)"
        and l: "append_loop w es (s0 @ [note_entry seg e]) i True d2 = (d', Inr segs')"
        using loop r True fits old segs by (auto simp: fileSize_def split: prod.splits option.splits)
      have "es0 \<noteq> []" using h by (simp add: seg_holds_def)
      have "consec (es0 @ [e])"
      proof -
        have "consec (concat e0 @ (es0 @ [e]) @ es)" using con ess by simp
        then show ?thesis unfolding consec_append [of "concat e0"] consec_append [of "es0 @ [e]"] by blast
      qed
      then have n: "log_on_disk w d2 (s0 @ [note_entry seg e]) (e0 @ [es0 @ [e]])"
        using log_extend [of w d s0 seg e0 es0 e r d2] log segs ess r a fits old by simp
      have "others_kept w d d2"
        unfolding others_kept_def
      proof (intro allI impI)
        fix p assume "\<not> wal_path (fw_dir w) p"
        moreover have "sg_Path seg = segment_path (fw_dir w) (sg_ID seg)"
          using log segs by (simp add: log_on_disk_def segs_ok_def)
        ultimately have "p \<noteq> sg_Path seg" by auto
        then show "contents d2 p = contents d p" using appendRecord_ok [OF a] by metis
      qed
      moreover have "\<forall>s \<in> set (s0 @ [note_entry seg e]). sg_ID s < i"
        using ids segs by (auto simp: note_entry_def Let_def)
      ultimately show ?thesis using l n ess by (intro that [OF l n]) auto
    qed
  qed
qed

lemma append_loop_ok:
  assumes "append_loop w es segs i have d = (d', Inr segs')" "log_on_disk w d segs ess"
    "consec (concat ess @ es)" "have \<longrightarrow> segs \<noteq> []" "\<forall>s \<in> set segs. sg_ID s < i" "unat i + length es < 2 ^ 64"
  shows "\<exists>ess'. log_on_disk w d' segs' ess' \<and> concat ess' = concat ess @ es \<and> others_kept w d d'"
  using assms
proof (induction es arbitrary: segs i "have" d ess)
  case Nil
  then show ?case by (auto simp: others_kept_def)
next
  case (Cons e es)
  have room: "unat i + 1 < 2 ^ 64" using Cons.prems(6) by simp
  obtain d1 segs1 i1 ess1 where 1: "append_loop w es segs1 i1 True d1 = (d', Inr segs')"
    "log_on_disk w d1 segs1 ess1" "concat ess1 = concat ess @ [e]" "segs1 \<noteq> []" "\<forall>s \<in> set segs1. sg_ID s < i1"
    "unat i1 \<le> unat i + 1" "others_kept w d d1"
    using append_step [OF Cons.prems(1-5) room] by metis
  have "\<exists>ess'. log_on_disk w d' segs' ess' \<and> concat ess' = concat ess1 @ es \<and> others_kept w d1 d'"
    by (rule Cons.IH [OF 1(1,2)]) (use 1 Cons.prems in auto)
  with 1(3,7) show ?case using others_kept_trans by fastforce
qed

lemma appendEntriesIncremental_ok:
  assumes "appendEntriesIncremental w es i toLast d = ((w', d'), None)" "log_on_disk w d (fw_segments w) ess"
    "consec (concat ess @ es)" "\<forall>s \<in> set (fw_segments w). sg_ID s < i" "unat i + length es < 2 ^ 64"
  shows "\<exists>ess'. log_on_disk w d' (fw_segments w') ess' \<and> concat ess' = concat ess @ es \<and> others_kept w d d' \<and>
    w' = w\<lparr>fw_segments := fw_segments w'\<rparr>"
proof (cases "es = []")
  case True
  then have "w' = w" "d' = d" using assms(1) by (simp_all add: appendEntriesIncremental_def)
  with True assms(2) show ?thesis by (auto simp: others_kept_def)
next
  case False
  then obtain h segs where "append_loop w es (fw_segments w) i h d = (d', Inr segs)" "w' = w\<lparr>fw_segments := segs\<rparr>"
    "h \<longrightarrow> fw_segments w \<noteq> []"
    using assms(1) by (auto simp: appendEntriesIncremental_def Let_def split: prod.splits sum.splits)
  with append_loop_ok [OF _ assms(2,3) _ assms(4,5), of h d' segs] show ?thesis by auto
qed

subsection \<open>Splitting the log at an index\<close>

lemma consec_le_last: "consec es \<Longrightarrow> e \<in> set es \<Longrightarrow> e_Index e \<le> e_Index (last es)"
proof -
  assume c: "consec es" "e \<in> set es"
  then obtain i where i: "i < length es" "e = es ! i" by (auto simp: in_set_conv_nth)
  moreover have "es \<noteq> []" using c(2) by auto
  ultimately have "ix e \<le> ix (last es)" using c consec_last [OF c(1)] by (auto simp: consec_nth)
  then show ?thesis by (simp add: word_le_nat_alt)
qed

lemma consec_ge_first: "consec es \<Longrightarrow> e \<in> set es \<Longrightarrow> e_Index (hd es) \<le> e_Index e"
  by (auto simp: consec_nth in_set_conv_nth word_le_nat_alt)

lemma consec_concat: "consec (concat ess) \<Longrightarrow> es \<in> set ess \<Longrightarrow> consec es"
  by (induction ess) (auto simp: consec_append)

lemma seg_holds_bounds:
  "seg_holds c mx d s es \<Longrightarrow> es \<noteq> [] \<and> sg_FirstIndex s = e_Index (hd es) \<and> sg_LastIndex s = e_Index (last es)"
  by (simp add: seg_holds_def)

lemma log_split:
  assumes log: "log_on_disk w d segs ess" and con: "consec (concat ess)" and ne: "concat ess \<noteq> []"
    and k: "k \<le> e_Index (last (concat ess))"
  obtains A s B eA es eB where "segs = A @ s # B" "ess = eA @ es # eB" "length A = length eA"
    "first_index (\<lambda>s. sg_LastIndex s \<ge> k) segs = length A"
    "seg_holds (fw_codec w) (fw_maxSegmentSize w) d s es" "\<forall>e \<in> set (concat eA). e_Index e < k" "k \<le> e_Index (last es)"
proof -
  have all: "list_all2 (seg_holds (fw_codec w) (fw_maxSegmentSize w) d) segs ess" using log by (simp add: log_on_disk_def)
  then have len: "length segs = length ess" by (rule list_all2_lengthD)
  have holds: "seg_holds (fw_codec w) (fw_maxSegmentSize w) d (segs ! i) (ess ! i)" if "i < length segs" for i
    using list_all2_nthD [OF all that] .
  have "ess \<noteq> []" using ne by auto
  then obtain e0 en where en: "ess = e0 @ [en]" by (cases ess rule: rev_cases) auto
  have "seg_holds (fw_codec w) (fw_maxSegmentSize w) d (last segs) en"
    using holds [of "length segs - 1"] len en by (cases segs rule: rev_cases) (auto simp: nth_append)
  then have "sg_LastIndex (last segs) \<ge> k" "last segs \<in> set segs"
    using k en len by (auto simp: seg_holds_def intro!: last_in_set)
  then obtain A s B where seg: "segs = A @ s # B" "k \<le> sg_LastIndex s" "\<forall>a \<in> set A. \<not> k \<le> sg_LastIndex a"
    using split_list_first_prop [of segs "\<lambda>s. k \<le> sg_LastIndex s"] by blast
  define eA es eB where "eA = take (length A) ess" and "es = ess ! length A" and "eB = drop (Suc (length A)) ess"
  have ess: "ess = eA @ es # eB" unfolding eA_def es_def eB_def
    by (rule id_take_nth_drop) (use seg len in simp)
  have "length A = length eA" using len seg by (simp add: eA_def)
  moreover have hs: "seg_holds (fw_codec w) (fw_maxSegmentSize w) d s es" using holds [of "length A"] seg by (simp add: es_def nth_append)
  moreover have "e_Index e < k" if ex: "e \<in> set x" "x \<in> set eA" for e x
  proof -
    obtain i where i: "i < length A" "x = ess ! i" using ex(2) by (auto simp: eA_def in_set_conv_nth)
    then have "sg_LastIndex (A ! i) = e_Index (last x)"
      using holds [of i] seg by (auto simp: nth_append seg_holds_def)
    moreover have "consec x" by (rule consec_concat [OF con]) (use ex(2) ess in auto)
    ultimately show ?thesis
      using consec_le_last [OF _ ex(1)] seg(3) nth_mem [OF i(1)] by fastforce
  qed
  moreover have "first_index (\<lambda>s. sg_LastIndex s \<ge> k) segs = length A"
    using seg by (simp add: first_index_append_hit)
  moreover have "k \<le> e_Index (last es)" using hs seg(2) by (simp add: seg_holds_def)
  ultimately show ?thesis using that [OF seg(1) ess] by auto
qed

text \<open>Removing the files of the segments that are dropped.\<close>

lemma log_remove:
  assumes "log_on_disk w d (A @ B) (eA @ eB)" "length A = length eA" "remove_all (map sg_Path gone) d = (d', None)"
  shows "gone = B \<Longrightarrow> log_on_disk w d' A eA" "gone = A \<Longrightarrow> log_on_disk w d' B eB"
    "set gone \<subseteq> set (A @ B) \<Longrightarrow> others_kept w d d'"
proof -
  have d': "contents d' q = (if q \<in> sg_Path ` set gone then None else contents d q)" for q
    using remove_all_ok [OF assms(3), of q] by simp
  have ok: "segs_ok (fw_dir w) d (A @ B)"
    and allA: "list_all2 (seg_holds (fw_codec w) (fw_maxSegmentSize w) d) A eA"
    and allB: "list_all2 (seg_holds (fw_codec w) (fw_maxSegmentSize w) d) B eB"
    using assms(1,2) by (auto simp: log_on_disk_def list_all2_append)
  have dif: "sg_Path a \<noteq> sg_Path b" if "a \<in> set A" "b \<in> set B" for a b
  proof -
    have "sg_ID a < sg_ID b" using ok that by (auto simp: segs_ok_def sorted_wrt_append)
    then show ?thesis using ok that segs_path_inj [OF ok, of a b] by auto
  qed
  show "log_on_disk w d' A eA" if g: "gone = B"
  proof -
    have "list_all2 (seg_holds (fw_codec w) (fw_maxSegmentSize w) d') A eA"
      by (rule list.rel_mono_strong [OF allA]) (use d' dif g in \<open>auto simp: seg_holds_def\<close>)
    moreover have "segs_ok (fw_dir w) d' A"
      using ok d' g by (auto simp: segs_ok_def sorted_wrt_append split: if_splits)
    ultimately show ?thesis by (simp add: log_on_disk_def)
  qed
  show "log_on_disk w d' B eB" if g: "gone = A"
  proof -
    have "contents d' (sg_Path b) = contents d (sg_Path b)" if "b \<in> set B" for b
      using d' [of "sg_Path b"] dif [OF _ that] g by force
    then have "list_all2 (seg_holds (fw_codec w) (fw_maxSegmentSize w) d') B eB"
      by (intro list.rel_mono_strong [OF allB]) (auto simp: seg_holds_def)
    moreover have "segs_ok (fw_dir w) d' B"
      using ok d' g by (auto simp: segs_ok_def sorted_wrt_append split: if_splits)
    ultimately show ?thesis by (simp add: log_on_disk_def)
  qed
  show "others_kept w d d'" if sub: "set gone \<subseteq> set (A @ B)"
    unfolding others_kept_def
  proof (intro allI impI)
    fix p assume p: "\<not> wal_path (fw_dir w) p"
    have "p \<notin> sg_Path ` set gone"
    proof
      assume "p \<in> sg_Path ` set gone"
      then obtain s where "s \<in> set (A @ B)" "p = sg_Path s" using sub by auto
      then have "p = segment_path (fw_dir w) (sg_ID s)" using ok by (auto simp: segs_ok_def)
      with p show False by simp
    qed
    then show "contents d' p = contents d p" by (simp add: d')
  qed
qed

subsection \<open>The invariant of an open log\<close>

definition state_saved :: "FileWAL \<Rightarrow> disk \<Rightarrow> bool" where
  "state_saved w d \<longleftrightarrow>
     contents d (state_path w) = None \<and> fw_state w = zero_HardState \<or>
     (\<exists>b. contents d (state_path w) = Some b \<and> cd_EncodeState (fw_codec w) (fw_state w) = Some b)"

definition fw_inv :: "FileWAL \<Rightarrow> disk \<Rightarrow> bool" where
  "fw_inv w d \<longleftrightarrow> fw_opened w \<and> codec_ok (fw_codec w) \<and> state_saved w d \<and> consec (fw_entries w) \<and>
     (\<exists>ess. log_on_disk w d (fw_segments w) ess \<and> concat ess = fw_entries w)"

text \<open>Segment numbers left for so many more entries.\<close>

definition fw_room :: "FileWAL \<Rightarrow> nat \<Rightarrow> bool" where
  "fw_room w n \<longleftrightarrow>
     (if fw_segments w = [] then 0 else unat (sg_ID (last (fw_segments w)))) + length (fw_entries w) + n + 1 < 2 ^ 64"

lemma log_on_disk_update [simp]:
  "log_on_disk (w\<lparr>fw_segments := a\<rparr>) = log_on_disk w" "log_on_disk (w\<lparr>fw_entries := b\<rparr>) = log_on_disk w"
  "log_on_disk (w\<lparr>fw_state := c\<rparr>) = log_on_disk w" "log_on_disk (w\<lparr>fw_opened := o'\<rparr>) = log_on_disk w"
  by (intro ext; simp add: log_on_disk_def)+

lemma others_kept_update [simp]:
  "others_kept (w\<lparr>fw_segments := a\<rparr>) = others_kept w" "others_kept (w\<lparr>fw_entries := b\<rparr>) = others_kept w"
  "others_kept (w\<lparr>fw_state := c\<rparr>) = others_kept w"
  by (intro ext; simp add: others_kept_def)+

lemma state_saved_update [simp]:
  "state_saved (w\<lparr>fw_segments := a\<rparr>) = state_saved w" "state_saved (w\<lparr>fw_entries := b\<rparr>) = state_saved w"
  by (intro ext; simp add: state_saved_def state_path_def)+

lemma others_kept_saved: "others_kept w d d' \<Longrightarrow> state_saved w d' \<longleftrightarrow> state_saved w d"
  by (simp add: state_saved_def others_kept_def state_path_def)

lemma log_same:
  assumes same: "\<And>p. wal_path (fw_dir w) p \<Longrightarrow> contents d' p = contents d p" and log: "log_on_disk w d segs ess"
  shows "log_on_disk w d' segs ess"
proof -
  have ok: "segs_ok (fw_dir w) d segs" using log by (simp add: log_on_disk_def)
  have "list_all2 (seg_holds (fw_codec w) (fw_maxSegmentSize w) d) segs ess" using log by (simp add: log_on_disk_def)
  then have "list_all2 (seg_holds (fw_codec w) (fw_maxSegmentSize w) d') segs ess"
  proof (rule list.rel_mono_strong)
    fix s es assume "s \<in> set segs" "seg_holds (fw_codec w) (fw_maxSegmentSize w) d s es"
    moreover from this(1) have "contents d' (sg_Path s) = contents d (sg_Path s)"
      using ok same [of "sg_Path s"] by (simp add: segs_ok_def)
    ultimately show "seg_holds (fw_codec w) (fw_maxSegmentSize w) d' s es" by (simp add: seg_holds_def)
  qed
  moreover have "segs_ok (fw_dir w) d' segs" using ok same unfolding segs_ok_def by metis
  ultimately show ?thesis by (simp add: log_on_disk_def)
qed

lemma persistState_ok:
  assumes "persistState w d = (d', None)"
  shows "state_saved w d'" "log_on_disk w d segs ess \<Longrightarrow> log_on_disk w d' segs ess"
proof -
  obtain b d1 where b: "cd_EncodeState (fw_codec w) (fw_state w) = Some b"
    and io: "os_WriteFile (state_path w @ ''.tmp'') b d = (d1, None)" "os_Rename (state_path w @ ''.tmp'') (state_path w) d1 = (d', None)"
    using assms by (auto simp: persistState_def split: option.splits prod.splits)
  note d' = write_rename_ok [OF io]
  show "state_saved w d'" using b d' by (simp add: state_saved_def)
  have "contents d' p = contents d p" if "wal_path (fw_dir w) p" for p
    using that d' [of p] not_wal_path(1,2) [of "fw_dir w"] by (auto simp: state_path_def)
  then show "log_on_disk w d segs ess \<Longrightarrow> log_on_disk w d' segs ess" by (rule log_same)
qed

lemma segs_last_id:
  assumes "segs_ok dir d segs" "segs \<noteq> []" "s \<in> set segs"
  shows "sg_ID s \<le> sg_ID (last segs)"
proof -
  obtain A z where A: "segs = A @ [z]" using assms(2) by (cases segs rule: rev_cases) auto
  then show ?thesis using assms(1,3) by (auto simp: segs_ok_def sorted_wrt_append less_imp_le)
qed

text \<open>The number of the next segment is new.\<close>

lemma nextSegmentID_new:
  assumes "segs_ok (fw_dir w) d (fw_segments w)" "fw_room w n"
  shows "\<forall>s \<in> set (fw_segments w). sg_ID s < nextSegmentID (fw_segments w)"
    "unat (nextSegmentID (fw_segments w)) + n < 2 ^ 64"
proof -
  show "unat (nextSegmentID (fw_segments w)) + n < 2 ^ 64"
    using assms(2) by (auto simp: nextSegmentID_def fw_room_def unat_word_ariths split: if_splits)
  show "\<forall>s \<in> set (fw_segments w). sg_ID s < nextSegmentID (fw_segments w)"
  proof
    fix s assume s: "s \<in> set (fw_segments w)"
    then have ne: "fw_segments w \<noteq> []" by auto
    then have "unat (nextSegmentID (fw_segments w)) = unat (sg_ID (last (fw_segments w))) + 1"
      using assms(2) by (simp add: nextSegmentID_def fw_room_def unat_word_ariths)
    moreover have "unat (sg_ID s) \<le> unat (sg_ID (last (fw_segments w)))"
      using segs_last_id [OF assms(1) ne s] by (simp add: word_le_nat_alt)
    ultimately show "sg_ID s < nextSegmentID (fw_segments w)" by (simp add: word_less_nat_alt)
  qed
qed

subsection \<open>Rewriting the tail\<close>

lemma consec_merged:
  assumes "consec es" "consec inc" "inc \<noteq> []" "es \<noteq> []" "e_Index (hd es) \<le> e_Index (hd inc)"
    "ix (hd inc) \<le> Suc (ix (last es))"
  shows "consec (merged es inc)"
proof -
  let ?k = "e_Index (hd inc)"
  let ?a = "filter (\<lambda>e. e_Index e < ?k) es" and ?b = "filter (\<lambda>e. e_Index e \<ge> ?k) es"
  have split: "?a @ ?b = es" using sorted_filter_split [OF consec_sorted [OF assms(1)]] .
  then have con: "consec (?a @ ?b)" using assms(1) by simp
  have "ix (hd inc) = Suc (ix (last ?a))" if ne: "?a \<noteq> []"
  proof (cases "?b = []")
    case True
    then have "last ?a = last es" using split by simp
    moreover have "e_Index (last ?a) < ?k" using last_in_set [OF ne] by simp
    ultimately show ?thesis using assms(6) by (simp add: word_less_nat_alt)
  next
    case False
    then have "ix (hd ?b) = Suc (ix (last ?a))" using con ne by (simp add: consec_append)
    moreover have "e_Index (last ?a) < ?k" "e_Index (hd ?b) \<ge> ?k"
      using last_in_set [OF ne] hd_in_set [OF False] by simp_all
    ultimately show ?thesis by (simp add: word_less_nat_alt word_le_nat_alt)
  qed
  then show ?thesis using con assms(2,3) by (simp add: merged_def consec_append)
qed


lemma filter_boundary:
  assumes "\<forall>x \<in> set xs. f x < (b :: 'a :: linorder)" "\<forall>y \<in> set ys. b \<le> f y"
  shows "filter (\<lambda>x. f x < b) (xs @ ys) = xs" "filter (\<lambda>x. f x \<ge> b) (xs @ ys) = ys"
proof -
  have "filter (\<lambda>x. f x < b) xs = xs" "filter (\<lambda>x. f x < b) ys = []" "filter (\<lambda>x. f x \<ge> b) xs = []"
    "filter (\<lambda>x. f x \<ge> b) ys = ys"
    using assms by (auto simp: filter_id_conv filter_empty_conv not_le not_less)
  then show "filter (\<lambda>x. f x < b) (xs @ ys) = xs" "filter (\<lambda>x. f x \<ge> b) (xs @ ys) = ys" by simp_all
qed

text \<open>Where the segment of the first overwritten entry begins, the old log and the merged log are cut.\<close>

lemma rewrite_cut:
  assumes con: "consec (X @ Y)" and "Y \<noteq> []" "inc \<noteq> []" "consec inc" "\<forall>e \<in> set X. e_Index e < e_Index (hd inc)"
    "e_Index (hd (X @ Y)) \<le> e_Index (hd inc)"
  defines "rf \<equiv> e_Index (hd Y)"
  shows "filter (\<lambda>e. e_Index e < rf) (X @ Y) = X"
    "X @ filter (\<lambda>e. e_Index e \<ge> rf) (merged (X @ Y) inc) = merged (X @ Y) inc" "rf \<le> e_Index (hd inc)"
proof -
  let ?k = "e_Index (hd inc)"
  have cY: "consec Y" using con by (simp add: consec_append)
  have X: "\<forall>x \<in> set X. e_Index x < rf"
  proof
    fix x assume x: "x \<in> set X"
    have "e_Index x \<le> e_Index (last X)" using con x by (intro consec_le_last) (auto simp: consec_append)
    moreover have "ix (hd Y) = Suc (ix (last X))" using con x assms(2) by (auto simp: consec_append)
    ultimately show "e_Index x < rf" by (simp add: rf_def word_less_nat_alt word_le_nat_alt)
  qed
  have Y: "\<forall>y \<in> set Y. rf \<le> e_Index y" using consec_ge_first [OF cY] by (simp add: rf_def)
  show "filter (\<lambda>e. e_Index e < rf) (X @ Y) = X" using X Y by (rule filter_boundary)
  show rf: "rf \<le> ?k"
  proof (cases "X = []")
    case True
    then show ?thesis using assms(6) by (simp add: rf_def)
  next
    case False
    then have "e_Index (last X) < ?k" "ix (hd Y) = Suc (ix (last X))"
      using assms(2,5) con by (auto simp: consec_append)
    then show ?thesis by (simp add: rf_def word_less_nat_alt word_le_nat_alt)
  qed
  have "filter (\<lambda>e. e_Index e < ?k) X = X" using assms(5) by (simp add: filter_id_conv)
  then have m: "merged (X @ Y) inc = X @ (filter (\<lambda>e. e_Index e < ?k) Y @ inc)"
    using assms(3) by (simp add: merged_def)
  have "\<forall>y \<in> set (filter (\<lambda>e. e_Index e < ?k) Y @ inc). rf \<le> e_Index y"
    using Y rf consec_ge_first [OF assms(4)] by fastforce
  then show "X @ filter (\<lambda>e. e_Index e \<ge> rf) (merged (X @ Y) inc) = merged (X @ Y) inc"
    unfolding m using filter_boundary(2) [OF X] by metis
qed

lemma length_merged: "length (filter P (merged es inc)) \<le> length es + length inc"
  by (rule order_trans [OF length_filter_le]) (auto simp: merged_def intro: order_trans [OF length_filter_le])

text \<open>The segment that \<open>rewriteTail\<close> starts from.\<close>

lemma rewrite_site:
  assumes log: "log_on_disk w d (fw_segments w) ess" "concat ess = fw_entries w" "consec (fw_entries w)"
    and inc: "inc \<noteq> []" "consec inc" and ne: "fw_entries w \<noteq> []"
    and lo: "e_Index (hd (fw_entries w)) \<le> e_Index (hd inc)"
    and hi: "e_Index (hd inc) \<le> e_Index (last (fw_entries w))"
  obtains A s B eA eY where "fw_segments w = A @ s # B" "ess = eA @ eY" "length A = length eA"
    "first_index (\<lambda>s. sg_LastIndex s \<ge> e_Index (hd inc)) (fw_segments w) = length A"
    "filter (\<lambda>e. e_Index e < sg_FirstIndex s) (fw_entries w) = concat eA"
    "concat eA @ filter (\<lambda>e. e_Index e \<ge> sg_FirstIndex s) (merged (fw_entries w) inc) = merged (fw_entries w) inc"
    "sg_FirstIndex s \<le> e_Index (hd inc)"
proof -
  let ?k = "e_Index (hd inc)"
  have "consec (concat ess)" "concat ess \<noteq> []" "?k \<le> e_Index (last (concat ess))"
    using log(2,3) ne hi by simp_all
  then obtain A s B eA es eB where seg: "fw_segments w = A @ s # B" and ess: "ess = eA @ es # eB" and len: "length A = length eA"
    and fi: "first_index (\<lambda>s. sg_LastIndex s \<ge> ?k) (fw_segments w) = length A"
    and hs: "seg_holds (fw_codec w) (fw_maxSegmentSize w) d s es" and eA: "\<forall>e \<in> set (concat eA). e_Index e < ?k"
    using log_split [OF log(1)] by metis
  have es: "es @ concat eB \<noteq> []" "sg_FirstIndex s = e_Index (hd (es @ concat eB))"
    using seg_holds_bounds [OF hs] by simp_all
  have ent: "fw_entries w = concat eA @ es @ concat eB" using log(2) ess by simp
  show ?thesis
    using that [OF seg ess len fi] rewrite_cut [OF log(3) [unfolded ent] es(1) inc eA lo [unfolded ent], folded ent] es(2) by simp
qed

lemma rewriteTail_ok:
  assumes log: "log_on_disk w d (fw_segments w) ess" "concat ess = fw_entries w" "consec (fw_entries w)"
    and inc: "inc \<noteq> []" "consec inc" and ne: "fw_entries w \<noteq> []"
    and lo: "e_Index (hd (fw_entries w)) \<le> e_Index (hd inc)"
    and hi: "e_Index (hd inc) \<le> e_Index (last (fw_entries w))"
    and room: "fw_room w (length inc)"
    and run: "rewriteTail w (e_Index (hd inc)) (merged (fw_entries w) inc) d = ((w', d'), None)"
  shows "\<exists>ess'. log_on_disk w d' (fw_segments w') ess' \<and> concat ess' = merged (fw_entries w) inc \<and> others_kept w d d' \<and>
    w' = w\<lparr>fw_segments := fw_segments w', fw_entries := merged (fw_entries w) inc\<rparr>"
proof -
  let ?k = "e_Index (hd inc)" and ?m = "merged (fw_entries w) inc"
  obtain A s B eA eY where seg: "fw_segments w = A @ s # B" and ess: "ess = eA @ eY" and len: "length A = length eA"
    and fi: "first_index (\<lambda>s. sg_LastIndex s \<ge> ?k) (fw_segments w) = length A"
    and cut: "filter (\<lambda>e. e_Index e < sg_FirstIndex s) (fw_entries w) = concat eA"
      "concat eA @ filter (\<lambda>e. e_Index e \<ge> sg_FirstIndex s) ?m = ?m"
    by (rule rewrite_site [OF log inc ne lo hi])
  let ?re = "filter (\<lambda>e. e_Index e \<ge> sg_FirstIndex s) ?m"
  let ?w1 = "w\<lparr>fw_segments := A, fw_entries := concat eA\<rparr>"
  obtain d1 w2 where rm: "remove_all (map sg_Path (s # B)) d = (d1, None)"
    and app: "appendEntriesIncremental ?w1 ?re (sg_ID s) False d1 = ((w2, d'), None)"
    and w': "w' = w2\<lparr>fw_entries := fw_entries w2 @ ?re\<rparr>"
    using run fi seg cut(1)
    by (auto simp: rewriteTail_def Let_def cloneEntries_def split: prod.splits option.splits)
  have d1: "log_on_disk w d1 A eA" "others_kept w d d1"
    using log_remove [OF log(1) [unfolded seg ess] len rm] by auto
  have ok: "segs_ok (fw_dir w) d (fw_segments w)" using log(1) by (simp add: log_on_disk_def)
  have "\<exists>ess'. log_on_disk ?w1 d' (fw_segments w2) ess' \<and> concat ess' = concat eA @ ?re \<and> others_kept ?w1 d1 d' \<and>
      w2 = ?w1\<lparr>fw_segments := fw_segments w2\<rparr>"
  proof (rule appendEntriesIncremental_ok [OF app])
    show "log_on_disk ?w1 d1 (fw_segments ?w1) eA" using d1 by simp
    show "consec (concat eA @ ?re)"
      unfolding cut(2) using lo hi by (intro consec_merged [OF log(3) inc(2,1) ne]) (auto simp: word_le_nat_alt)
    show "\<forall>a \<in> set (fw_segments ?w1). sg_ID a < sg_ID s"
      using ok seg by (auto simp: segs_ok_def sorted_wrt_append)
    have "sg_ID s \<le> sg_ID (last (fw_segments w))" using segs_last_id [OF ok] seg by simp
    moreover have "length ?re \<le> length (fw_entries w) + length inc" by (rule length_merged)
    ultimately show "unat (sg_ID s) + length ?re < 2 ^ 64"
      using room seg by (simp add: fw_room_def word_le_nat_alt)
  qed
  then obtain ess' segs2 where n: "log_on_disk w d' segs2 ess'" "concat ess' = ?m" "others_kept w d1 d'"
      and w2: "w2 = w\<lparr>fw_segments := A, fw_entries := concat eA\<rparr>\<lparr>fw_segments := segs2\<rparr>"
    unfolding log_on_disk_update others_kept_update cut(2) by blast
  have "w' = w\<lparr>fw_segments := segs2, fw_entries := ?m\<rparr>"
    using w' cut(2) w2 by simp
  with n show ?thesis using others_kept_trans [OF d1(2)] by auto
qed

subsection \<open>Append\<close>

lemma fw_invI:
  assumes "fw_opened w" "codec_ok (fw_codec w)" "state_saved w d" "consec (fw_entries w)"
    "log_on_disk w d (fw_segments w) ess" "concat ess = fw_entries w"
  shows "fw_inv w d"
  using assms by (auto simp: fw_inv_def)

lemma word_not_beyond:
  fixes i j :: u64
  assumes "\<not> i > j + 1" "i \<noteq> j + 1" "0 < unat i"
  shows "i \<le> j"
proof (cases "unat j + 1 < 2 ^ 64")
  case True
  then have "unat (j + 1) = unat j + 1" by (simp add: unat_word_ariths)
  then show ?thesis using assms by (simp add: word_le_nat_alt word_less_nat_alt word_unat_eq_iff)
next
  case False
  moreover have "unat i < 2 ^ 64" "unat j < 2 ^ 64"
    using unsigned_less [of i, where ?'a = nat] unsigned_less [of j, where ?'a = nat] by simp_all
  ultimately show ?thesis by (simp add: word_le_nat_alt)
qed

lemma merged_beyond:
  assumes "consec es" "consec inc" "inc \<noteq> []" "es = [] \<or> e_Index (hd inc) = e_Index (last es) + 1"
  shows "consec (es @ inc)" "merged es inc = es @ inc"
proof -
  have s: "ix (hd inc) = Suc (ix (last es))" if "es \<noteq> []"
    using assms(4) that consec_pos [OF assms(2) hd_in_set [OF assms(3)]]
    unsigned_less [of "e_Index (last es)", where ?'a = nat]
    by (auto simp: unat_word_ariths mod_Suc split: if_splits)
  then show "consec (es @ inc)" using assms(1,2) by (auto simp: consec_append)
  have "filter (\<lambda>e. e_Index e < e_Index (hd inc)) es = es"
  proof (subst filter_id_conv, intro ballI)
    fix x assume x: "x \<in> set es"
    then have "es \<noteq> []" by auto
    with s consec_le_last [OF assms(1) x] show "e_Index x < e_Index (hd inc)"
      by (simp add: word_less_nat_alt word_le_nat_alt)
  qed
  then show "merged es inc = es @ inc" using assms(3) by (simp add: merged_def)
qed

lemma append_end_ok:
  assumes inv: "fw_inv w d" and con: "consec inc" and room: "fw_room w (length inc)"
    and inc: "inc \<noteq> []" "fw_entries w = [] \<or> e_Index (hd inc) = e_Index (last (fw_entries w)) + 1"
    and run: "appendEntriesIncremental w inc (nextSegmentID (fw_segments w)) True d = ((w', d'), None)"
  shows "fw_inv (w'\<lparr>fw_entries := fw_entries w' @ inc\<rparr>) d' \<and> fw_entries w' @ inc = merged (fw_entries w) inc \<and>
    fw_state w' = fw_state w"
proof -
  obtain ess where log: "log_on_disk w d (fw_segments w) ess" and ess: "concat ess = fw_entries w"
    and cw: "consec (fw_entries w)"
    using inv by (auto simp: fw_inv_def)
  have ok: "segs_ok (fw_dir w) d (fw_segments w)" using log by (simp add: log_on_disk_def)
  note m = merged_beyond [OF cw con inc]
  obtain ess' segs where n: "log_on_disk w d' segs ess'" "concat ess' = fw_entries w @ inc" "others_kept w d d'"
    and w': "w' = w\<lparr>fw_segments := segs\<rparr>"
    using appendEntriesIncremental_ok [OF run log] nextSegmentID_new [OF ok room] m(1) ess by auto
  have "fw_inv (w'\<lparr>fw_entries := fw_entries w' @ inc\<rparr>) d'"
    by (rule fw_invI [of _ _ ess']) (use w' inv n m(1) others_kept_saved [OF n(3)] in \<open>auto simp: fw_inv_def\<close>)
  then show ?thesis using m(2) w' by simp
qed

lemma append_rewrite_ok:
  assumes inv: "fw_inv w d" and con: "consec inc" and room: "fw_room w (length inc)"
    and inc: "inc \<noteq> []" "fw_entries w \<noteq> []" "e_Index (hd (fw_entries w)) \<le> e_Index (hd inc)"
      "e_Index (hd inc) \<le> e_Index (last (fw_entries w))"
    and run: "rewriteTail w (e_Index (hd inc)) (mergeEntries (fw_entries w) inc) d = ((w', d'), None)"
  shows "fw_inv w' d' \<and> fw_entries w' = merged (fw_entries w) inc \<and> fw_state w' = fw_state w"
proof -
  obtain ess where log: "log_on_disk w d (fw_segments w) ess" and ess: "concat ess = fw_entries w"
    and cw: "consec (fw_entries w)"
    using inv by (auto simp: fw_inv_def)
  obtain ess' segs where n: "log_on_disk w d' segs ess'" "concat ess' = merged (fw_entries w) inc" "others_kept w d d'"
    and w': "w' = w\<lparr>fw_segments := segs, fw_entries := merged (fw_entries w) inc\<rparr>"
    using rewriteTail_ok [OF log ess cw inc(1) con inc(2-4) room] run mergeEntries_merged [OF cw] by auto
  have "consec (merged (fw_entries w) inc)"
    by (rule consec_merged [OF cw con inc(1-3)]) (use inc(4) in \<open>simp add: word_le_nat_alt\<close>)
  then have "fw_inv w' d'"
    by (intro fw_invI [of _ _ ess']) (use w' inv n others_kept_saved [OF n(3)] in \<open>auto simp: fw_inv_def\<close>)
  then show ?thesis using w' by simp
qed

lemma persist_inv:
  assumes "fw_inv w d" "persistState (w\<lparr>fw_state := st\<rparr>) d = (d', None)"
  shows "fw_inv (w\<lparr>fw_state := st\<rparr>) d'"
  using assms persistState_ok [OF assms(2)] by (auto simp: fw_inv_def)

lemma fw_Append_ok:
  assumes inv: "fw_inv w d" and con: "consec inc" and room: "fw_room w (length inc)"
    and lo: "inc \<noteq> [] \<Longrightarrow> fw_entries w \<noteq> [] \<Longrightarrow> e_Index (hd (fw_entries w)) \<le> e_Index (hd inc)"
    and run: "fw_Append w st inc d = ((w', d'), None)"
  shows "fw_inv w' d' \<and> fw_entries w' = merged (fw_entries w) inc \<and>
    fw_state w' = (if isEmptyHardState st then fw_state w else st)"
proof -
  define v where "v = w\<lparr>fw_state := if isEmptyHardState st then fw_state w else st\<rparr>"
  have v: "fw_entries v = fw_entries w" "fw_segments v = fw_segments w"
    "fw_state v = (if isEmptyHardState st then fw_state w else st)" "fw_room v n = fw_room w n" for n
    by (auto simp: v_def fw_room_def)
  have "(if isEmptyHardState st then w else w\<lparr>fw_state := st\<rparr>) = v" by (simp add: v_def)
  with run inv obtain d1 where p: "persistState v d = (d1, None)" and run1: "(case inc of
       [] \<Rightarrow> ((v, d1), None)
     | entry # _ \<Rightarrow>
         if fw_entries v = [] \<or> e_Index entry = e_Index (last (fw_entries v)) + 1 then
           (case appendEntriesIncremental v inc (nextSegmentID (fw_segments v)) True d1 of
              ((w1, d1), Some e) \<Rightarrow> ((w1, d1), Some e)
            | ((w1, d1), None) \<Rightarrow> ((w1\<lparr>fw_entries := fw_entries w1 @ cloneEntries inc\<rparr>, d1), None))
         else if e_Index entry > e_Index (last (fw_entries v)) + 1 then
           ((v, d1), Some (ErrGap (e_Index entry) (e_Index (last (fw_entries v)))))
         else rewriteTail v (e_Index entry) (mergeEntries (fw_entries v) inc) d1) = ((w', d'), None)"
    by (auto simp: fw_Append_def Let_def fw_inv_def split: prod.splits option.splits)
  have invv: "fw_inv v d1" using persist_inv inv p unfolding v_def by blast
  show ?thesis
  proof (cases inc)
    case Nil
    then show ?thesis using run1 invv v by (auto simp: merged_def)
  next
    case (Cons e es)
    then have ne: "inc \<noteq> []" and hd: "hd inc = e" by auto
    show ?thesis
    proof (cases "fw_entries v = [] \<or> e_Index e = e_Index (last (fw_entries v)) + 1")
      case True
      then obtain w2 where a: "appendEntriesIncremental v inc (nextSegmentID (fw_segments v)) True d1 = ((w2, d'), None)"
        and w': "w' = w2\<lparr>fw_entries := fw_entries w2 @ inc\<rparr>"
        using run1 Cons by (auto simp: cloneEntries_def split: prod.splits option.splits)
      show ?thesis using append_end_ok [OF invv con _ ne _ a] room True v hd w' by auto
    next
      case False
      then have 1: "\<not> e_Index e > e_Index (last (fw_entries v)) + 1"
        and r: "rewriteTail v (e_Index (hd inc)) (mergeEntries (fw_entries v) inc) d1 = ((w', d'), None)"
        using run1 Cons by (auto split: if_splits)
      have "e_Index (hd inc) \<le> e_Index (last (fw_entries v))"
        unfolding hd by (rule word_not_beyond [OF 1]) (use False consec_pos [OF con] Cons in auto)
      then show ?thesis using append_rewrite_ok [OF invv con _ ne _ _ _ r] room lo [OF ne] False v by auto
    qed
  qed
qed

subsection \<open>TruncatePrefix\<close>

lemma fw_persist_ok: "fw_persist w d = ((w', d'), e) \<longleftrightarrow> w' = w \<and> persistState w d = (d', e)"
  by (auto simp: fw_persist_def split: prod.splits)

lemma persist_same: "fw_inv w d \<Longrightarrow> fw_persist w d = ((w', d'), None) \<Longrightarrow> w' = w \<and> fw_inv w d'"
  using persist_inv [of w d "fw_state w" d'] by (simp add: fw_persist_ok)

lemma truncate_everything_ok:
  assumes "fw_inv w d" "truncate_everything w d = ((w', d'), None)"
  shows "fw_inv w' d' \<and> fw_entries w' = [] \<and> fw_state w' = fw_state w"
proof -
  let ?v = "w\<lparr>fw_entries := [], fw_segments := []\<rparr>"
  obtain d1 where r: "remove_all (map sg_Path (fw_segments w)) d = (d1, None)" and p: "fw_persist ?v d1 = ((w', d'), None)"
    using assms(2) by (auto simp: truncate_everything_def split: prod.splits option.splits)
  obtain ess where "log_on_disk w d ([] @ fw_segments w) ([] @ ess)" using assms(1) by (auto simp: fw_inv_def)
  from log_remove [OF this _ r] have "log_on_disk w d1 [] []" "others_kept w d d1" by simp_all
  then have "fw_inv ?v d1"
    using assms(1) others_kept_saved [of w d d1] by (intro fw_invI [of _ _ "[]"]) (auto simp: fw_inv_def)
  from persist_same [OF this p] show ?thesis by auto
qed

lemma rewriteSegmentFile_ok:
  assumes "rewriteSegmentFile p es c d = (d', None)"
  obtains b where "frames c es = Some b"
    "\<And>q. contents d' q = (if q = p then Some b else if q = p @ ''.tmp'' then None else contents d q)"
proof -
  obtain b d1 where "frames c es = Some b" and io: "os_WriteFile (p @ ''.tmp'') b d = (d1, None)"
    "os_Rename (p @ ''.tmp'') p d1 = (d', None)"
    using assms by (auto simp: rewriteSegmentFile_def split: option.splits prod.splits)
  with write_rename_ok [OF io] that show ?thesis by blast
qed

lemma state_path_neq: "state_path w \<noteq> segment_path (fw_dir w) i" "state_path w \<noteq> segment_path (fw_dir w) i @ ''.tmp''"
  using not_wal_path(1) [of "fw_dir w"] wal_path_segment [of "fw_dir w" i] no_slash_Format020
  by (auto simp: state_path_def segment_path_def join_path_def stateFileName_def Format020_def Let_def)

text \<open>The boundary segment is rewritten with the entries that stay.\<close>

lemma log_trim:
  assumes log: "log_on_disk w d (s # B) (es # eB)" and es: "es = xs @ ys" "ys \<noteq> []"
    and run: "rewriteSegmentFile (sg_Path s) ys (fw_codec w) d = (d', None)"
  shows "log_on_disk w d' (s\<lparr>sg_FirstIndex := e_Index (hd ys), sg_LastIndex := e_Index (last ys)\<rparr> # B) (ys # eB)"
    "contents d' (state_path w) = contents d (state_path w)"
proof -
  obtain b where b: "frames (fw_codec w) ys = Some b"
    and d': "\<And>q. contents d' q = (if q = sg_Path s then Some b else if q = sg_Path s @ ''.tmp'' then None else contents d q)"
    using rewriteSegmentFile_ok [OF run] by blast
  have ok: "segs_ok (fw_dir w) d (s # B)" and hs: "seg_holds (fw_codec w) (fw_maxSegmentSize w) d s es"
    and all: "list_all2 (seg_holds (fw_codec w) (fw_maxSegmentSize w) d) B eB"
    using log by (auto simp: log_on_disk_def)
  have ps: "sg_Path s = segment_path (fw_dir w) (sg_ID s)" using ok by (simp add: segs_ok_def)
  then have tmp: "\<not> wal_path (fw_dir w) (sg_Path s @ ''.tmp'')" by simp
  have pB: "sg_Path t \<noteq> sg_Path s" "sg_Path t \<noteq> sg_Path s @ ''.tmp''" if "t \<in> set B" for t
  proof -
    have "sg_Path t = segment_path (fw_dir w) (sg_ID t)" using ok that by (simp add: segs_ok_def)
    moreover from this have "wal_path (fw_dir w) (sg_Path t)" by simp
    ultimately show "sg_Path t \<noteq> sg_Path s" "sg_Path t \<noteq> sg_Path s @ ''.tmp''"
      using ok that ps tmp by (auto simp: segs_ok_def simp del: wal_path_segment)
  qed
  obtain b0 where b0: "frames (fw_codec w) es = Some b0" "int (length b0) \<le> fw_maxSegmentSize w \<or> length es = 1"
    using hs by (auto simp: seg_holds_def)
  then have "length b \<le> length b0" using b es(1) by (auto simp: frames_append split: option.splits)
  then have "int (length b) \<le> fw_maxSegmentSize w \<or> length ys = 1"
    using b0(2) es by (cases xs) auto
  then have "seg_holds (fw_codec w) (fw_maxSegmentSize w) d'
      (s\<lparr>sg_FirstIndex := e_Index (hd ys), sg_LastIndex := e_Index (last ys)\<rparr>) ys"
    using b d' es(2) by (simp add: seg_holds_def)
  moreover have "list_all2 (seg_holds (fw_codec w) (fw_maxSegmentSize w) d') B eB"
    by (rule list.rel_mono_strong [OF all]) (use d' pB in \<open>simp add: seg_holds_def\<close>)
  moreover have "segs_ok (fw_dir w) d' (s\<lparr>sg_FirstIndex := e_Index (hd ys), sg_LastIndex := e_Index (last ys)\<rparr> # B)"
    using ok d' by (auto simp: segs_ok_def split: if_splits)
  ultimately show "log_on_disk w d' (s\<lparr>sg_FirstIndex := e_Index (hd ys), sg_LastIndex := e_Index (last ys)\<rparr> # B) (ys # eB)"
    by (simp add: log_on_disk_def)
  show "contents d' (state_path w) = contents d (state_path w)"
    using state_path_neq [of w "sg_ID s"] by (simp add: d' ps)
qed


lemma filter_concat_cut:
  assumes con: "consec (concat (eA @ es # eB))" and "es \<noteq> []" "\<forall>e \<in> set (concat eA). e_Index e < k" "k \<le> e_Index (last es)"
  shows "filter (\<lambda>e. e_Index e \<ge> k) (concat (eA @ es # eB)) = filter (\<lambda>e. e_Index e \<ge> k) es @ concat eB"
    "takeWhile (\<lambda>e. \<not> e_Index e > e_Index (last es)) (filter (\<lambda>e. e_Index e \<ge> k) es @ concat eB) =
       filter (\<lambda>e. e_Index e \<ge> k) es"
    "filter (\<lambda>e. e_Index e \<ge> k) es \<noteq> []"
proof -
  have ces: "consec es" using con by (simp add: consec_append)
  have eB: "e_Index (last es) < e_Index e" if e: "e \<in> set (concat eB)" for e
  proof -
    have "concat eB \<noteq> []" using e by (metis empty_iff empty_set)
    then have c: "consec (concat eB)" and "ix (hd (concat eB)) = Suc (ix (last es))"
      using con assms(2) by (auto simp: consec_append [of "concat eA"] consec_append [of es])
    then show ?thesis using consec_ge_first [OF c e] by (simp add: word_less_nat_alt word_le_nat_alt)
  qed
  have "filter (\<lambda>e. e_Index e \<ge> k) (concat eA) = []" using assms(3) by (metis filter_False leD)
  moreover have "filter (\<lambda>e. e_Index e \<ge> k) (concat eB) = concat eB"
    unfolding filter_id_conv using eB assms(4) by (meson less_imp_le order_trans)
  ultimately show "filter (\<lambda>e. e_Index e \<ge> k) (concat (eA @ es # eB)) = filter (\<lambda>e. e_Index e \<ge> k) es @ concat eB"
    by simp
  have "takeWhile (\<lambda>e. \<not> e_Index e > e_Index (last es)) (filter (\<lambda>e. e_Index e \<ge> k) es @ concat eB) =
      filter (\<lambda>e. e_Index e \<ge> k) es @ takeWhile (\<lambda>e. \<not> e_Index e > e_Index (last es)) (concat eB)"
    by (rule takeWhile_append2) (use consec_le_last [OF ces] in \<open>auto simp: not_less\<close>)
  moreover have "takeWhile (\<lambda>e. \<not> e_Index e > e_Index (last es)) (concat eB) = []"
    unfolding takeWhile_eq_Nil_iff using eB hd_in_set by blast
  ultimately show "takeWhile (\<lambda>e. \<not> e_Index e > e_Index (last es)) (filter (\<lambda>e. e_Index e \<ge> k) es @ concat eB) =
       filter (\<lambda>e. e_Index e \<ge> k) es" by simp
  have "last es \<in> set (filter (\<lambda>e. e_Index e \<ge> k) es)" using assms(2,4) by simp
  then show "filter (\<lambda>e. e_Index e \<ge> k) es \<noteq> []" by force
qed


text \<open>What \<open>TruncatePrefix\<close> does when it keeps some entries.\<close>

lemma truncate_eq:
  assumes op: "fw_opened w" and ne: "fw_entries w \<noteq> []" and k: "k > e_Index (hd (fw_entries w))"
    and f: "filter (\<lambda>e. e_Index e \<ge> k) (fw_entries w) = f" "f \<noteq> []"
    and fi: "first_index (\<lambda>s. sg_LastIndex s \<ge> k) (fw_segments w) = length A" and segs: "fw_segments w = A @ s # B"
    and bd: "takeWhile (\<lambda>e. \<not> e_Index e > sg_LastIndex s) f = bd" "bd \<noteq> []"
  shows "fw_TruncatePrefix w k d =
    (case remove_all (map sg_Path A) d of
       (d1, Some e) \<Rightarrow> ((w, d1), Some e)
     | (d1, None) \<Rightarrow>
         if sg_FirstIndex s < k then
           (case rewriteSegmentFile (sg_Path s) bd (fw_codec w) d1 of
              (d2, Some e) \<Rightarrow> ((w, d2), Some e)
            | (d2, None) \<Rightarrow> fw_persist (w\<lparr>fw_entries := f, fw_segments :=
                s\<lparr>sg_FirstIndex := e_Index (hd bd), sg_LastIndex := e_Index (last bd)\<rparr> # B\<rparr>) d2)
         else fw_persist (w\<lparr>fw_entries := f, fw_segments := s # B\<rparr>) d1)"
proof -
  have idem: "filter (\<lambda>e. \<not> e_Index e < k) f = f" using f(1) by (auto simp: not_less)
  have t: "takeWhile (\<lambda>e. \<not> sg_LastIndex s < e_Index e) f = bd" using bd by simp
  have nk: "\<not> k \<le> e_Index (hd (fw_entries w))" using k by auto
  note facts = op ne nk f(1) fi [unfolded segs] segs idem t
  show ?thesis
    unfolding fw_TruncatePrefix_def Let_def by (auto simp add: facts f(2) bd(2) split: prod.split option.split)
qed

lemma truncate_segments_ok:
  assumes inv: "fw_inv w d" and log: "log_on_disk w d (A @ s # B) (eA @ es # eB)" "length A = length eA"
    and ent: "concat (eA @ es # eB) = fw_entries w" and segs: "fw_segments w = A @ s # B"
    and es: "\<forall>e \<in> set (concat eA). e_Index e < k" "k \<le> e_Index (last es)"
    and fi: "first_index (\<lambda>s. sg_LastIndex s \<ge> k) (fw_segments w) = length A"
    and k: "k > e_Index (hd (fw_entries w))" and run: "fw_TruncatePrefix w k d = ((w', d'), None)"
  shows "fw_inv w' d' \<and> fw_entries w' = filter (\<lambda>e. e_Index e \<ge> k) (fw_entries w) \<and> fw_state w' = fw_state w"
proof -
  let ?f = "filter (\<lambda>e. e_Index e \<ge> k) (fw_entries w)" and ?b = "filter (\<lambda>e. e_Index e \<ge> k) es"
  have con: "consec (fw_entries w)" and op: "fw_opened w" using inv by (auto simp: fw_inv_def)
  have ces: "consec es" using con ent by (metis consec_append concat_append concat.simps(2))
  have hs: "es \<noteq> []" "sg_FirstIndex s = e_Index (hd es)" "sg_LastIndex s = e_Index (last es)"
    using log by (auto simp: log_on_disk_def list_all2_append seg_holds_def)
  note cut = filter_concat_cut [OF con [folded ent] hs(1) es, unfolded ent]
  have f: "?f \<noteq> []" "fw_entries w \<noteq> []" using cut(1,3) by auto
  have cf: "consec ?f"
    using con sorted_filter_split [OF consec_sorted [OF con], of k] by (metis consec_append)
  have bd: "takeWhile (\<lambda>e. \<not> e_Index e > sg_LastIndex s) ?f = ?b" using cut(1,2) hs(3) by simp
  note run' = run [unfolded truncate_eq [OF op f(2) k refl f(1) fi segs bd cut(3)]]
  then obtain d1 where r: "remove_all (map sg_Path A) d = (d1, None)" by (auto split: prod.splits option.splits)
  note l1 = log_remove [OF log r]
  show ?thesis
  proof (cases "sg_FirstIndex s < k")
    case True
    then obtain d2 where rw: "rewriteSegmentFile (sg_Path s) ?b (fw_codec w) d1 = (d2, None)"
      and p: "fw_persist (w\<lparr>fw_entries := ?f,
        fw_segments := s\<lparr>sg_FirstIndex := e_Index (hd ?b), sg_LastIndex := e_Index (last ?b)\<rparr> # B\<rparr>) d2 = ((w', d'), None)"
      using run' r by (auto split: prod.splits option.splits)
    note l2 = log_trim [OF l1(2) sorted_filter_split [OF consec_sorted [OF ces], of k, symmetric] cut(3) rw]
    have "fw_inv (w\<lparr>fw_entries := ?f,
        fw_segments := s\<lparr>sg_FirstIndex := e_Index (hd ?b), sg_LastIndex := e_Index (last ?b)\<rparr> # B\<rparr>) d2"
      using inv cut(1) cf l2 others_kept_saved [OF l1(3)]
      by (intro fw_invI [of _ _ "?b # eB"]) (auto simp: fw_inv_def state_saved_def state_path_def)
    from persist_same [OF this p] show ?thesis by auto
  next
    case False
    then have p: "fw_persist (w\<lparr>fw_entries := ?f, fw_segments := s # B\<rparr>) d1 = ((w', d'), None)"
      using run' r by simp
    have "?b = es"
      unfolding filter_id_conv using False hs(2) consec_ge_first [OF ces] by (metis not_less order_trans)
    then have "fw_inv (w\<lparr>fw_entries := ?f, fw_segments := s # B\<rparr>) d1"
      using inv cut(1) cf l1(2) others_kept_saved [OF l1(3)]
      by (intro fw_invI [of _ _ "es # eB"]) (auto simp: fw_inv_def)
    from persist_same [OF this p] show ?thesis by auto
  qed
qed

lemma fw_TruncatePrefix_ok:
  assumes inv: "fw_inv w d" and run: "fw_TruncatePrefix w k d = ((w', d'), None)"
  shows "fw_inv w' d' \<and> fw_entries w' = filter (\<lambda>e. e_Index e \<ge> k) (fw_entries w) \<and> fw_state w' = fw_state w"
proof -
  obtain ess where log: "log_on_disk w d (fw_segments w) ess" and ess: "concat ess = fw_entries w"
    and con: "consec (fw_entries w)" and op: "fw_opened w"
    using inv by (auto simp: fw_inv_def)
  let ?f = "filter (\<lambda>e. e_Index e \<ge> k) (fw_entries w)"
  consider "fw_entries w = [] \<or> k \<le> e_Index (hd (fw_entries w))"
    | "fw_entries w \<noteq> []" "\<not> k \<le> e_Index (hd (fw_entries w))" "?f = []"
    | "fw_entries w \<noteq> []" "\<not> k \<le> e_Index (hd (fw_entries w))" "?f \<noteq> []" by blast
  then show ?thesis
  proof cases
    case 1
    then have "?f = fw_entries w"
      unfolding filter_id_conv using consec_ge_first [OF con] by (auto intro: order_trans)
    moreover have "fw_persist w d = ((w', d'), None)" using run op 1 by (auto simp: fw_TruncatePrefix_def split: if_splits)
    ultimately show ?thesis using persist_same [OF inv] by auto
  next
    case 2
    then have "truncate_everything w d = ((w', d'), None)" using run op by (simp add: fw_TruncatePrefix_def Let_def)
    from truncate_everything_ok [OF inv this] show ?thesis using 2(3) by simp
  next
    case 3
    then obtain e where "e \<in> set (fw_entries w)" "k \<le> e_Index e" by (auto simp: filter_empty_conv)
    then have "k \<le> e_Index (last (concat ess))" using consec_le_last [OF con] ess by fastforce
    moreover have "consec (concat ess)" "concat ess \<noteq> []" using con ess 3(1) by simp_all
    ultimately obtain A s B eA es eB where "fw_segments w = A @ s # B" "ess = eA @ es # eB" "length A = length eA"
      "first_index (\<lambda>s. sg_LastIndex s \<ge> k) (fw_segments w) = length A" "\<forall>e \<in> set (concat eA). e_Index e < k"
      "k \<le> e_Index (last es)"
      using log_split [OF log] by metis
    then show ?thesis
      using truncate_segments_ok [OF inv _ _ _ _ _ _ _ _ run] log ess 3(2) by (metis not_le)
  qed
qed

subsection \<open>Opening\<close>

lemma glob_wal_segments:
  assumes "log_on_disk w d segs ess"
  shows "glob_wal (fw_dir w) d = map sg_Path segs"
proof (rule sorted_distinct_set_unique)
  have ok: "segs_ok (fw_dir w) d segs" and all: "list_all2 (seg_holds (fw_codec w) (fw_maxSegmentSize w) d) segs ess"
    using assms by (auto simp: log_on_disk_def)
  have path: "sg_Path s = segment_path (fw_dir w) (sg_ID s)" if "s \<in> set segs" for s
    using ok that by (simp add: segs_ok_def)
  have ids: "sorted_wrt (\<lambda>s t. sg_ID s < sg_ID t) segs" using ok by (simp add: segs_ok_def sorted_wrt_map)
  have "sorted_wrt (<) (map sg_Path segs)"
    unfolding sorted_wrt_map by (rule sorted_wrt_mono_rel [OF _ ids]) (simp add: path segment_path_less)
  then show "sorted (map sg_Path segs)" "distinct (map sg_Path segs)"
    by (auto simp: strict_sorted_iff)
  show "sorted (glob_wal (fw_dir w) d)" "distinct (glob_wal (fw_dir w) d)" by (simp_all add: glob_wal_def)
  have "p \<in> set (glob_wal (fw_dir w) d) \<longleftrightarrow> wal_path (fw_dir w) p \<and> contents d p \<noteq> None" for p
    by (auto simp: glob_wal_def map_of_eq_None_iff)
  moreover have "contents d (sg_Path s) \<noteq> None" if "s \<in> set segs" for s
    using list_all2_nthD [OF all] that by (auto simp: in_set_conv_nth seg_holds_def)
  ultimately show "set (glob_wal (fw_dir w) d) = set (map sg_Path segs)"
    using ok path by (auto simp: segs_ok_def)
qed

lemma load_segments:
  assumes "codec_ok c" "list_all2 (seg_holds c mx d) segs ess" "\<forall>s \<in> set segs. parseSegmentID (sg_Path s) = sg_ID s"
  shows "load_loop c d (map sg_Path segs) = Inr (concat ess, segs)"
  using assms(2,3)
proof (induction segs ess rule: list_all2_induct)
  case (Cons s segs es ess)
  then have "readSegment (sg_Path s) c d = Inr es"
    using assms(1) by (auto simp: seg_holds_def readSegment_def read_frames)
  with Cons show ?case by (auto simp: seg_holds_def)
qed simp

lemma fw_Open_ok:
  assumes inv: "fw_inv w d" and w0: "fw_dir w0 = fw_dir w" "fw_codec w0 = fw_codec w" "\<not> fw_opened w0"
    and io: "next_io d = (IoOk, d1)"
  shows "fw_Open w0 d = ((w0\<lparr>fw_state := fw_state w, fw_entries := fw_entries w, fw_segments := fw_segments w,
    fw_opened := True\<rparr>, d1), None)"
proof -
  obtain ess where log: "log_on_disk w d (fw_segments w) ess" and ess: "concat ess = fw_entries w"
    and c: "codec_ok (fw_codec w)" and st: "state_saved w d"
    using inv by (auto simp: fw_inv_def)
  have f: "dk_files d1 = dk_files d" using next_io_files [OF io] .
  have "loadState w0 d1 = Inr (fw_state w)"
    using st c w0 f by (auto simp: loadState_def state_saved_def state_path_def codec_ok_def)
  moreover have "glob_wal (fw_dir w) d1 = map sg_Path (fw_segments w)"
    using glob_wal_segments [OF log] f by (simp add: glob_wal_def)
  moreover have "load_loop (fw_codec w) d (map sg_Path (fw_segments w)) = Inr (fw_entries w, fw_segments w)"
    using load_segments [OF c, of "fw_maxSegmentSize w" d "fw_segments w" ess] log ess
    by (simp add: log_on_disk_def segs_ok_def)
  moreover have "load_loop k d1 ps = load_loop k d ps" for k ps
    using f by (induction ps) (simp_all add: readSegment_def)
  ultimately show ?thesis using w0 io by (simp add: fw_Open_def loadEntries_def)
qed

text \<open>A directory without a state file and without segments is an empty log.\<close>

lemma fw_Open_fresh:
  assumes "codec_ok (fw_codec w)" "\<not> fw_opened w" "next_io d = (IoOk, d1)" "contents d (state_path w) = None"
    "\<forall>p. wal_path (fw_dir w) p \<longrightarrow> contents d p = None"
  shows "fw_Open w d = ((w\<lparr>fw_state := zero_HardState, fw_entries := [], fw_segments := [], fw_opened := True\<rparr>, d1), None)"
    "fw_inv (w\<lparr>fw_state := zero_HardState, fw_entries := [], fw_segments := [], fw_opened := True\<rparr>) d1"
proof -
  have f: "dk_files d1 = dk_files d" using next_io_files [OF assms(3)] .
  let ?v = "w\<lparr>fw_state := zero_HardState, fw_entries := [], fw_segments := [], fw_opened := True\<rparr>"
  have inv: "fw_inv ?v d'" if "dk_files d' = dk_files d" for d'
    using assms(1,4,5) that by (intro fw_invI [of _ _ "[]"])
      (auto simp: state_saved_def state_path_def log_on_disk_def segs_ok_def)
  from inv [OF f] show "fw_inv ?v d1" .
  show "fw_Open w d = ((?v, d1), None)"
    using fw_Open_ok [OF inv [OF refl] _ _ assms(2,3)] by simp
qed

subsection \<open>Without I/O errors every operation succeeds\<close>

lemma next_io_clean: "dk_outcomes d = [] \<Longrightarrow> next_io d = (IoOk, d)"
  by (simp add: next_io_def)

lemma clean_files [simp]: "dk_outcomes (set_file p b d) = dk_outcomes d" "dk_outcomes (drop_file p d) = dk_outcomes d"
  by (simp_all add: set_file_def drop_file_def)

lemma remove_all_clean: "dk_outcomes d = [] \<Longrightarrow> \<exists>d'. remove_all ps d = (d', None) \<and> dk_outcomes d' = []"
  by (induction ps arbitrary: d) (auto simp: os_Remove_def next_io_clean)

lemma persistState_clean:
  assumes "dk_outcomes d = []" "cd_EncodeState (fw_codec w) (fw_state w) \<noteq> None"
  shows "\<exists>d'. persistState w d = (d', None) \<and> dk_outcomes d' = []"
  using assms by (auto simp: persistState_def os_WriteFile_def os_Rename_def next_io_clean)

lemma append_loop_clean:
  assumes "dk_outcomes d = []" "\<forall>e \<in> set es. cd_EncodeEntry (fw_codec w) e \<noteq> None"
    "have \<longrightarrow> segs \<noteq> [] \<and> contents d (sg_Path (last segs)) \<noteq> None"
  shows "\<exists>d' segs'. append_loop w es segs i have d = (d', Inr segs') \<and> dk_outcomes d' = []"
  using assms
proof (induction es arbitrary: segs i "have" d)
  case (Cons e es)
  obtain r where r: "cd_EncodeEntry (fw_codec w) e = Some r" using Cons.prems(2) by auto
  have roll: "roll_segment w s j f d0 = (set_file (segment_path (fw_dir w) j) [] d0,
      Inr (s @ [\<lparr>sg_ID = j, sg_FirstIndex = f, sg_LastIndex = f - 1, sg_Path = segment_path (fw_dir w) j\<rparr>], j + 1))"
    if "dk_outcomes d0 = []" for s j f d0
    using that by (simp add: roll_segment_def createSegment_def next_io_clean)
  have last: "sg_Path (note_entry s e) = sg_Path s" for s by (simp add: note_entry_def Let_def)
  have IH: "\<exists>d'. (\<exists>segs'. append_loop w es (s @ [note_entry z e]) j True d0 = (d', Inr segs')) \<and> dk_outcomes d' = []"
    if "dk_outcomes d0 = []" "contents d0 (sg_Path z) \<noteq> None" for s z j d0
    using Cons.IH [of d0 True "s @ [note_entry z e]" j] Cons.prems(2) that last by auto
  show ?case
    using Cons.prems r by (auto simp: roll fileSize_def appendRecord_def next_io_clean intro!: IH)
qed simp

lemma frames_encodes: "frames c es = Some b \<Longrightarrow> e \<in> set es \<Longrightarrow> cd_EncodeEntry c e \<noteq> None"
  by (induction es arbitrary: b) (auto split: option.splits)

lemma log_encodes:
  assumes "log_on_disk w d segs ess" "e \<in> set (concat ess)"
  shows "cd_EncodeEntry (fw_codec w) e \<noteq> None"
proof -
  obtain es where es: "es \<in> set ess" "e \<in> set es" using assms(2) by auto
  then obtain i where "i < length ess" "es = ess ! i" by (auto simp: in_set_conv_nth)
  moreover from this have "seg_holds (fw_codec w) (fw_maxSegmentSize w) d (segs ! i) (ess ! i)"
    using assms(1) by (auto simp: log_on_disk_def list_all2_conv_all_nth)
  ultimately show ?thesis using es(2) frames_encodes by (auto simp: seg_holds_def)
qed

lemma append_incr_clean:
  assumes "dk_outcomes d = []" "\<forall>e \<in> set es. cd_EncodeEntry (fw_codec w) e \<noteq> None"
    "toLast \<longrightarrow> fw_segments w = [] \<or> contents d (sg_Path (last (fw_segments w))) \<noteq> None"
  shows "\<exists>w' d'. appendEntriesIncremental w es i toLast d = ((w', d'), None) \<and> dk_outcomes d' = []"
  using append_loop_clean [OF assms(1,2), of "toLast \<and> fw_segments w \<noteq> [] \<and> i = nextSegmentID (fw_segments w)"
      "fw_segments w" i] assms(1,3)
  by (auto simp: appendEntriesIncremental_def Let_def)

lemma log_last_file:
  "log_on_disk w d segs ess \<Longrightarrow> segs \<noteq> [] \<Longrightarrow> contents d (sg_Path (last segs)) \<noteq> None"
  by (cases segs rule: rev_cases; cases ess rule: rev_cases)
    (auto simp: log_on_disk_def seg_holds_def dest: list_all2_lengthD)

lemma merge_subset: "set (mergeEntries es inc) \<subseteq> set es \<union> set inc"
  by (auto simp: mergeEntries_def Let_def split: list.splits if_splits dest: in_set_takeD)

lemma rewriteTail_clean:
  assumes log: "log_on_disk w d (fw_segments w) ess" and out: "dk_outcomes d = []"
    and enc: "\<forall>e \<in> set m. cd_EncodeEntry (fw_codec w) e \<noteq> None"
  shows "\<exists>w' d'. rewriteTail w k m d = ((w', d'), None) \<and> dk_outcomes d' = []"
proof -
  let ?i = "first_index (\<lambda>s. sg_LastIndex s \<ge> k) (fw_segments w)"
  consider "fw_segments w = []" | "fw_segments w \<noteq> []" "?i \<ge> length (fw_segments w)"
    | "fw_segments w \<noteq> []" "\<not> ?i \<ge> length (fw_segments w)" by blast
  then show ?thesis
  proof cases
    case 1
    obtain w' d' where "appendEntriesIncremental (w\<lparr>fw_entries := [], fw_segments := []\<rparr>) m 1 False d = ((w', d'), None)"
      "dk_outcomes d' = []"
      using append_incr_clean [of d m "w\<lparr>fw_entries := [], fw_segments := []\<rparr>" False 1] out enc by auto
    with 1 show ?thesis by (simp add: rewriteTail_def)
  next
    case 2
    obtain w' d' where "appendEntriesIncremental w m (nextSegmentID (fw_segments w)) True d = ((w', d'), None)"
      "dk_outcomes d' = []"
      using append_incr_clean [of d m w True "nextSegmentID (fw_segments w)"] out enc log_last_file [OF log] by auto
    with 2 show ?thesis by (simp add: rewriteTail_def Let_def)
  next
    case 3
    obtain d1 where d1: "remove_all (map sg_Path (drop ?i (fw_segments w))) d = (d1, None)" "dk_outcomes d1 = []"
      using remove_all_clean [OF out] by blast
    let ?rf = "sg_FirstIndex (fw_segments w ! ?i)"
    let ?w1 = "w\<lparr>fw_segments := take ?i (fw_segments w), fw_entries := filter (\<lambda>e. e_Index e < ?rf) (fw_entries w)\<rparr>"
    obtain w' d' where "appendEntriesIncremental ?w1 (filter (\<lambda>e. e_Index e \<ge> ?rf) m)
        (sg_ID (fw_segments w ! ?i)) False d1 = ((w', d'), None)" "dk_outcomes d' = []"
      using append_incr_clean [OF d1(2), of "filter (\<lambda>e. e_Index e \<ge> ?rf) m" ?w1 False "sg_ID (fw_segments w ! ?i)"] enc
      by auto
    with 3 d1 show ?thesis by (simp add: rewriteTail_def Let_def)
  qed
qed

text \<open>With no failure to come and an encodable state and entries, \<open>Append\<close> reports nothing but a gap.\<close>

lemma fw_Append_clean:
  assumes inv: "fw_inv w d" and out: "dk_outcomes d = []"
    and enc: "\<forall>e \<in> set inc. cd_EncodeEntry (fw_codec w) e \<noteq> None"
      "cd_EncodeState (fw_codec w) (if isEmptyHardState st then fw_state w else st) \<noteq> None"
    and near: "inc = [] \<or> fw_entries w = [] \<or> \<not> e_Index (hd inc) > e_Index (last (fw_entries w)) + 1"
  shows "\<exists>w' d'. fw_Append w st inc d = ((w', d'), None) \<and> dk_outcomes d' = []"
proof -
  define v where "v = (if isEmptyHardState st then w else w\<lparr>fw_state := st\<rparr>)"
  obtain ess where log: "log_on_disk w d (fw_segments w) ess" and ess: "concat ess = fw_entries w" and op: "fw_opened w"
    using inv by (auto simp: fw_inv_def)
  have v: "fw_codec v = fw_codec w" "fw_entries v = fw_entries w" "fw_segments v = fw_segments w"
    "log_on_disk v = log_on_disk w"
    "fw_state v = (if isEmptyHardState st then fw_state w else st)" by (simp_all add: v_def)
  obtain d1 where p: "persistState v d = (d1, None)" "dk_outcomes d1 = []"
    using persistState_clean [of d v] out enc(2) by (auto simp only: v)
  have l1: "log_on_disk v d1 (fw_segments v) ess" using persistState_ok(2) [OF p(1)] log by (simp only: v)
  show ?thesis
  proof (cases inc)
    case Nil
    then show ?thesis using p op unfolding fw_Append_def Let_def v_def [symmetric] by simp
  next
    case (Cons e es)
    have "\<forall>e \<in> set inc. cd_EncodeEntry (fw_codec v) e \<noteq> None" using enc(1) by (simp only: v(1))
    moreover have "fw_segments v = [] \<or> contents d1 (sg_Path (last (fw_segments v))) \<noteq> None"
      using log_last_file [OF l1] by blast
    ultimately have a: "\<exists>w' d'. appendEntriesIncremental v inc (nextSegmentID (fw_segments v)) True d1 = ((w', d'), None) \<and>
        dk_outcomes d' = []"
      using append_incr_clean [OF p(2)] by blast
    have "\<forall>x \<in> set (mergeEntries (fw_entries w) inc). cd_EncodeEntry (fw_codec w) x \<noteq> None"
    proof
      fix x assume "x \<in> set (mergeEntries (fw_entries w) inc)"
      then consider "x \<in> set (concat ess)" | "x \<in> set inc" using merge_subset ess by fastforce
      then show "cd_EncodeEntry (fw_codec w) x \<noteq> None"
        by cases (use log_encodes [OF log] enc(1) in auto)
    qed
    then have t: "\<exists>w' d'. rewriteTail v (e_Index e) (mergeEntries (fw_entries w) inc) d1 = ((w', d'), None) \<and>
        dk_outcomes d' = []"
      using rewriteTail_clean [OF l1 p(2)] by (simp only: v)
    show ?thesis using a t op p(1) near Cons unfolding fw_Append_def Let_def v_def [symmetric] by (auto simp: v)
  qed
qed

end
