(* ===== verification/Wal_Crash.thy ===== *)
theory Wal_Crash
  imports Wal_Correct
begin

text \<open>
  What is on the disk when an operation of the log fails on the way, at any system call and after any number of
  bytes: the hard state and a rewritten segment change atomically, and a truncation that is interrupted has
  removed nothing but entries it was asked to remove.
\<close>


subsection \<open>Whatever fails\<close>

lemma os_Remove_any: "os_Remove p d = (d', r) \<Longrightarrow> r \<noteq> None \<Longrightarrow> dk_files d' = dk_files d"
  by (auto simp: os_Remove_def split: prod.splits io.splits dest: next_io_files)

text \<open>Removing segments from the front: some of them are gone, all of them when no error is reported.\<close>

lemma remove_prefix_any:
  assumes "log_on_disk w d (A @ B) (eA @ eB)" "length A = length eA" "remove_all (map sg_Path A) d = (d', r)"
  shows "\<exists>A2 eA1 eA2. eA = eA1 @ eA2 \<and> log_on_disk w d' (A2 @ B) (eA2 @ eB) \<and> others_kept w d d' \<and> (r = None \<longrightarrow> A2 = [] \<and> eA2 = [])"
  using assms
proof (induction A arbitrary: d eA)
  case Nil
  then show ?case by (auto simp: others_kept_def)
next
  case (Cons a A)
  then obtain ea eA' where eA: "eA = ea # eA'" by (cases eA) auto
  obtain d1 r1 where rm: "os_Remove (sg_Path a) d = (d1, r1)" by force
  show ?case
  proof (cases r1)
    case (Some x)
    then have "d' = d1" "r = Some x" using Cons.prems(3) rm by auto
    moreover have f: "dk_files d1 = dk_files d" using os_Remove_any [OF rm] Some by simp
    ultimately show ?thesis
      using log_same [of w d' d, OF _ Cons.prems(1)] by (intro exI [of _ "a # A"] exI [of _ "[]"] exI [of _ eA])
        (auto simp: others_kept_def)
  next
    case None
    have r1: "remove_all (map sg_Path [a]) d = (d1, None)" using rm None by simp
    have l: "log_on_disk w d ([a] @ (A @ B)) ([ea] @ (eA' @ eB))" using Cons.prems(1) eA by simp
    have l1: "log_on_disk w d1 (A @ B) (eA' @ eB)" "others_kept w d d1"
      using log_remove [OF l _ r1] by simp_all
    have "remove_all (map sg_Path A) d1 = (d', r)" using Cons.prems(3) rm None by simp
    with Cons.IH [OF l1(1)] Cons.prems(2) eA obtain A2 e1 e2 where "eA' = e1 @ e2" "log_on_disk w d' (A2 @ B) (e2 @ eB)"
      "others_kept w d1 d'" "r = None \<longrightarrow> A2 = [] \<and> e2 = []" by auto
    then show ?thesis using eA others_kept_trans [OF l1(2)]
      by (intro exI [of _ A2] exI [of _ "ea # e1"] exI [of _ e2]) auto
  qed
qed

lemma write_rename_any:
  assumes "os_WriteFile (p @ ''.tmp'') b d = (d1, None)" "os_Rename (p @ ''.tmp'') p d1 = (d', Some e)"
    "q \<noteq> p @ ''.tmp''"
  shows "contents d' q = contents d q"
  using assms
  by (auto simp: os_WriteFile_def os_Rename_def split: prod.splits io.splits option.splits dest!: next_io_files)

lemma os_WriteFile_any: "os_WriteFile p b d = (d', r) \<Longrightarrow> q \<noteq> p \<Longrightarrow> contents d' q = contents d q"
  by (auto simp: os_WriteFile_def split: prod.splits io.splits dest!: next_io_files)

text \<open>The state file and a rewritten segment change in one step, by the rename.\<close>

lemma persistState_any:
  assumes "persistState w d = (d', Some e)" "q \<noteq> state_path w @ ''.tmp''"
  shows "contents d' q = contents d q"
  using assms write_rename_any [of "state_path w"] os_WriteFile_any [of "state_path w @ ''.tmp''"]
  by (auto simp: persistState_def split: option.splits prod.splits)

lemma rewriteSegmentFile_any:
  assumes "rewriteSegmentFile p es c d = (d', Some e)" "q \<noteq> p @ ''.tmp''"
  shows "contents d' q = contents d q"
  using assms write_rename_any [of p] os_WriteFile_any [of "p @ ''.tmp''"]
  by (auto simp: rewriteSegmentFile_def split: option.splits prod.splits)

lemma fw_inv_same:
  assumes "fw_inv w d" "contents d' (state_path w) = contents d (state_path w)"
    "\<And>p. wal_path (fw_dir w) p \<Longrightarrow> contents d' p = contents d p"
  shows "fw_inv w d'"
  using assms log_same [of w d' d] by (auto simp: fw_inv_def state_saved_def)

lemma fw_persist_any:
  assumes "fw_inv w d" "fw_persist w d = ((w', d'), r)"
  shows "fw_inv w d'"
proof (cases r)
  case None
  then show ?thesis using persist_same [OF assms(1)] assms(2) by simp
next
  case (Some e)
  then have p: "persistState w d = (d', Some e)" using assms(2) by (simp add: fw_persist_ok)
  have "q \<noteq> state_path w @ ''.tmp''" if "wal_path (fw_dir w) q" for q
    using that not_wal_path(2) [of "fw_dir w"] by (auto simp: state_path_def)
  then show ?thesis
    using persistState_any [OF p] by (intro fw_inv_same [OF assms(1)]) auto
qed

definition holds_suffix :: "FileWAL \<Rightarrow> u64 \<Rightarrow> disk \<Rightarrow> bool" where
  "holds_suffix w k d \<longleftrightarrow> (\<exists>gone es segs. fw_inv (w\<lparr>fw_entries := es, fw_segments := segs\<rparr>) d \<and>
     fw_entries w = gone @ es \<and> (\<forall>e \<in> set gone. e_Index e < k))"

lemma holds_suffixI:
  assumes "fw_inv w d0" "log_on_disk w d segs ess" "fw_entries w = gone @ concat ess"
    "contents d (state_path w) = contents d0 (state_path w)" "\<forall>e \<in> set gone. e_Index e < k"
  shows "holds_suffix w k d"
  unfolding holds_suffix_def using assms
  by (intro exI [of _ gone] exI [of _ "concat ess"] exI [of _ segs])
    (auto simp: fw_inv_def state_saved_def state_path_def consec_append)

lemma holds_suffix_persist:
  assumes "fw_inv (w\<lparr>fw_entries := es, fw_segments := segs\<rparr>) d" "fw_entries w = gone @ es" "\<forall>e \<in> set gone. e_Index e < k"
    "fw_persist (w\<lparr>fw_entries := es, fw_segments := segs\<rparr>) d = ((w', d'), r)"
  shows "holds_suffix w k d'"
  unfolding holds_suffix_def using assms(2,3) fw_persist_any [OF assms(1,4)] by blast

lemma truncate_everything_any:
  assumes inv: "fw_inv w d" and small: "\<forall>e \<in> set (fw_entries w). e_Index e < k"
    and run: "truncate_everything w d = ((w', d'), r)"
  shows "holds_suffix w k d'"
proof -
  obtain ess where log: "log_on_disk w d (fw_segments w) ess" and ess: "concat ess = fw_entries w"
    using inv by (auto simp: fw_inv_def)
  have len: "length (fw_segments w) = length ess" using log by (auto simp: log_on_disk_def dest: list_all2_lengthD)
  obtain d1 r1 where rm: "remove_all (map sg_Path (fw_segments w)) d = (d1, r1)" by force
  obtain A2 e1 e2 where n: "ess = e1 @ e2" "log_on_disk w d1 A2 e2" "others_kept w d d1" "r1 = None \<longrightarrow> A2 = [] \<and> e2 = []"
    using remove_prefix_any [of w d "fw_segments w" "[]" ess "[]", OF _ len rm] log by auto
  have s1: "contents d1 (state_path w) = contents d (state_path w)" using n(3) by (simp add: others_kept_def state_path_def)
  show ?thesis
  proof (cases r1)
    case (Some x)
    then have "d' = d1" using run rm by (simp add: truncate_everything_def)
    moreover have "fw_entries w = concat e1 @ concat e2" using ess n(1) by simp
    moreover from this have "\<forall>e \<in> set (concat e1). e_Index e < k" using small by (metis Un_iff set_append)
    ultimately show ?thesis using holds_suffixI [OF inv n(2) _ s1] by blast
  next
    case None
    then have p: "fw_persist (w\<lparr>fw_entries := [], fw_segments := []\<rparr>) d1 = ((w', d'), r)"
      using run rm by (simp add: truncate_everything_def)
    have "fw_inv (w\<lparr>fw_entries := [], fw_segments := []\<rparr>) d1"
      using inv n None s1 by (intro fw_invI [of _ _ "[]"]) (auto simp: fw_inv_def state_saved_def state_path_def)
    from holds_suffix_persist [OF this, of "fw_entries w" k] small p show ?thesis by simp
  qed
qed


lemma truncate_segments_any:
  assumes inv: "fw_inv w d" and log: "log_on_disk w d (A @ s # B) (eA @ es # eB)" "length A = length eA"
    and ent: "concat (eA @ es # eB) = fw_entries w" and segs: "fw_segments w = A @ s # B"
    and es: "\<forall>e \<in> set (concat eA). e_Index e < k" "k \<le> e_Index (last es)"
    and fi: "first_index (\<lambda>s. sg_LastIndex s \<ge> k) (fw_segments w) = length A"
    and k: "k > e_Index (hd (fw_entries w))" and run: "fw_TruncatePrefix w k d = ((w', d'), r)"
  shows "holds_suffix w k d'"
proof -
  let ?f = "filter (\<lambda>e. e_Index e \<ge> k) (fw_entries w)" and ?b = "filter (\<lambda>e. e_Index e \<ge> k) es"
  have con: "consec (fw_entries w)" and op: "fw_opened w" using inv by (auto simp: fw_inv_def)
  have ces: "consec es" using con ent by (metis consec_append concat_append concat.simps(2))
  have hs: "es \<noteq> []" "sg_FirstIndex s = e_Index (hd es)" "sg_LastIndex s = e_Index (last es)"
    using log by (auto simp: log_on_disk_def list_all2_append seg_holds_def)
  note cut = filter_concat_cut [OF con [folded ent] hs(1) es, unfolded ent]
  have f: "?f \<noteq> []" and ne: "fw_entries w \<noteq> []" using cut(1,3) by auto
  have bd: "takeWhile (\<lambda>e. \<not> e_Index e > sg_LastIndex s) ?f = ?b" using cut(1,2) hs(3) by simp
  obtain d1 r1 where rm: "remove_all (map sg_Path A) d = (d1, r1)" by force
  obtain A2 e1 e2 where n: "eA = e1 @ e2" "log_on_disk w d1 (A2 @ s # B) (e2 @ es # eB)" "others_kept w d d1"
    "r1 = None \<longrightarrow> A2 = [] \<and> e2 = []"
    using remove_prefix_any [OF log rm] by blast
  have s1: "contents d1 (state_path w) = contents d (state_path w)" using n(3) by (simp add: others_kept_def state_path_def)
  have part: "holds_suffix w k d2" if "log_on_disk w d2 (A2 @ s # B) (e2 @ es # eB)"
      "contents d2 (state_path w) = contents d1 (state_path w)" for d2
    using holds_suffixI [OF inv that(1), of "concat e1" k] that(2) s1 ent n(1) es(1) by auto
  have tmp: "q \<noteq> sg_Path s @ ''.tmp''" if "wal_path (fw_dir w) q \<or> q = state_path w" for q
  proof -
    have "sg_Path s = segment_path (fw_dir w) (sg_ID s)" using log(1) by (simp add: log_on_disk_def segs_ok_def)
    then show ?thesis using that state_path_neq(2) not_wal_path(3) by metis
  qed
  note run' = run [unfolded truncate_eq [OF op ne k refl f fi segs bd cut(3)]]
  show ?thesis
  proof (cases r1)
    case (Some y)
    then show ?thesis using part [OF n(2)] run' rm by simp
  next
    case None
    have l1: "log_on_disk w d1 (s # B) (es # eB)" using n(2,4) None by simp
    have gone: "fw_entries w = filter (\<lambda>e. e_Index e < k) (fw_entries w) @ ?f"
      using sorted_filter_split [OF consec_sorted [OF con], of k] by simp
    have persist: "holds_suffix w k d'" if "log_on_disk w d2 ss (?b # eB)" "contents d2 (state_path w) = contents d1 (state_path w)"
      "fw_persist (w\<lparr>fw_entries := ?f, fw_segments := ss\<rparr>) d2 = ((w', d'), r)" for d2 ss
    proof (rule holds_suffix_persist [OF _ gone _ that(3)])
      have "consec ?f" using con gone by (metis consec_append)
      then show "fw_inv (w\<lparr>fw_entries := ?f, fw_segments := ss\<rparr>) d2"
        using inv that(1,2) s1 cut(1)
        by (intro fw_invI [of _ _ "?b # eB"]) (auto simp: fw_inv_def state_saved_def state_path_def)
    qed simp
    show ?thesis
    proof (cases "sg_FirstIndex s < k")
      case True
      obtain d2 r2 where rw: "rewriteSegmentFile (sg_Path s) ?b (fw_codec w) d1 = (d2, r2)" by force
      show ?thesis
      proof (cases r2)
        case (Some y)
        note same = rewriteSegmentFile_any [OF rw [unfolded Some]]
        have "log_on_disk w d2 (A2 @ s # B) (e2 @ es # eB)" using same tmp by (intro log_same [OF _ n(2)]) auto
        then show ?thesis using part [of d2] same tmp run' rm None True rw Some by auto
      next
        case r2: None
        note l2 = log_trim [OF l1 sorted_filter_split [OF consec_sorted [OF ces], of k, symmetric] cut(3) rw [unfolded r2]]
        show ?thesis using persist [OF l2] run' rm None True rw r2 by auto
      qed
    next
      case False
      then have "?b = es"
        unfolding filter_id_conv using hs(2) consec_ge_first [OF ces] by (metis not_less order_trans)
      then show ?thesis using persist [of d1 "s # B"] l1 run' rm None False by auto
    qed
  qed
qed

text \<open>However \<open>TruncatePrefix\<close> ends, the disk holds the log but for some of the entries before the index.\<close>

lemma fw_TruncatePrefix_any:
  assumes inv: "fw_inv w d" and run: "fw_TruncatePrefix w k d = ((w', d'), r)"
  shows "holds_suffix w k d'"
proof -
  obtain ess where log: "log_on_disk w d (fw_segments w) ess" and ess: "concat ess = fw_entries w"
    and con: "consec (fw_entries w)" and op: "fw_opened w"
    using inv by (auto simp: fw_inv_def)
  let ?f = "filter (\<lambda>e. e_Index e \<ge> k) (fw_entries w)"
  consider "fw_entries w = [] \<or> k \<le> e_Index (hd (fw_entries w))"
    | "fw_entries w \<noteq> []" "\<not> k \<le> e_Index (hd (fw_entries w))" "?f = []"
    | "fw_entries w \<noteq> []" "\<not> k \<le> e_Index (hd (fw_entries w))" "?f \<noteq> []" by blast
  then show ?thesis
  proof cases
    case 1
    then have "fw_persist (w\<lparr>fw_entries := fw_entries w, fw_segments := fw_segments w\<rparr>) d = ((w', d'), r)"
      using run op by (auto simp: fw_TruncatePrefix_def split: if_splits)
    from holds_suffix_persist [OF _ _ _ this, of "[]"] inv show ?thesis by simp
  next
    case 2
    then have "truncate_everything w d = ((w', d'), r)" using run op by (simp add: fw_TruncatePrefix_def Let_def)
    from truncate_everything_any [OF inv _ this] 2(3) show ?thesis by (auto simp: filter_empty_conv not_le)
  next
    case 3
    then obtain e where "e \<in> set (fw_entries w)" "k \<le> e_Index e" by (auto simp: filter_empty_conv)
    then have "k \<le> e_Index (last (concat ess))" using consec_le_last [OF con] ess by fastforce
    moreover have "consec (concat ess)" "concat ess \<noteq> []" using con ess 3(1) by simp_all
    ultimately obtain A s B eA es eB where "fw_segments w = A @ s # B" "ess = eA @ es # eB" "length A = length eA"
      "first_index (\<lambda>s. sg_LastIndex s \<ge> k) (fw_segments w) = length A" "\<forall>e \<in> set (concat eA). e_Index e < k"
      "k \<le> e_Index (last es)"
      using log_split [OF log] by metis
    then show ?thesis
      using truncate_segments_any [OF inv _ _ _ _ _ _ _ _ run] log ess 3(2) by (metis not_le)
  qed
qed

end
