(* ===== verification/Wal_Props.thy ===== *)
theory Wal_Props
  imports Wal_Crash
begin

text \<open>
  The contract of the interface \<open>WAL\<close> as the locale \<open>Write_Ahead_Log\<close>, interpreted on the in-memory log (\<open>mw\<close>)
  and on the log on disk (\<open>fl\<close>), and the properties of both. The contract covers appends that carry a hard state
  and start within the log or right after it, which are the appends the Raft node makes.
\<close>


subsection \<open>The contract of a log\<close>

datatype wal_op = WAppend HardState "Entry list" | WTruncate u64

text \<open>The contract acts on a state and a list of entries.\<close>

definition fits :: "Entry list \<Rightarrow> Entry list \<Rightarrow> bool" where
  "fits es inc \<longleftrightarrow> consec inc \<and>
     (inc \<noteq> [] \<longrightarrow> es \<noteq> [] \<longrightarrow> e_Index (hd es) \<le> e_Index (hd inc) \<and> ix (hd inc) \<le> Suc (ix (last es)))"

fun spec_op :: "wal_op \<Rightarrow> HardState \<times> Entry list \<Rightarrow> HardState \<times> Entry list" where
  "spec_op (WAppend st inc) (_, es) = (st, merged es inc)"
| "spec_op (WTruncate k) (st, es) = (st, filter (\<lambda>e. e_Index e \<ge> k) es)"

fun op_fits :: "wal_op \<Rightarrow> Entry list \<Rightarrow> bool" where
  "op_fits (WAppend st inc) es \<longleftrightarrow> \<not> isEmptyHardState st \<and> fits es inc"
| "op_fits (WTruncate k) es \<longleftrightarrow> True"

fun run_ops :: "(wal_op \<Rightarrow> 's \<Rightarrow> 's option) \<Rightarrow> wal_op list \<Rightarrow> 's \<Rightarrow> 's option" where
  "run_ops f [] s = Some s"
| "run_ops f (p # ps) s = Option.bind (f p s) (run_ops f ps)"

text \<open>Every operation of a run fits the log it meets, and finds room in the state it runs in.\<close>

fun ops_fit :: "wal_op list \<Rightarrow> HardState \<times> Entry list \<Rightarrow> bool" where
  "ops_fit [] s \<longleftrightarrow> True"
| "ops_fit (p # ps) s \<longleftrightarrow> op_fits p (snd s) \<and> ops_fit ps (spec_op p s)"

fun run_room :: "(wal_op \<Rightarrow> 's \<Rightarrow> 's option) \<Rightarrow> ('s \<Rightarrow> wal_op \<Rightarrow> bool) \<Rightarrow> wal_op list \<Rightarrow> 's \<Rightarrow> bool" where
  "run_room f room [] s \<longleftrightarrow> True"
| "run_room f room (p # ps) s \<longleftrightarrow> room s p \<and> (case f p s of None \<Rightarrow> True | Some s' \<Rightarrow> run_room f room ps s')"

lemma run_room_True [simp]: "run_room f (\<lambda>_ _. True) ps s"
  by (induction ps arbitrary: s) (auto split: option.split)

locale Write_Ahead_Log =
  fixes inv :: "'s \<Rightarrow> bool"
    and load :: "'s \<Rightarrow> HardState \<times> Entry list"
    and exec :: "wal_op \<Rightarrow> 's \<Rightarrow> 's option"
    and room :: "'s \<Rightarrow> wal_op \<Rightarrow> bool"
  assumes load_consec: "inv s \<Longrightarrow> consec (snd (load s))"
    and exec_ok: "inv s \<Longrightarrow> op_fits p (snd (load s)) \<Longrightarrow> room s p \<Longrightarrow> exec p s = Some s' \<Longrightarrow>
      inv s' \<and> load s' = spec_op p (load s)"
begin

lemma run_ok:
  "inv s \<Longrightarrow> ops_fit ps (load s) \<Longrightarrow> run_room exec room ps s \<Longrightarrow> run_ops exec ps s = Some s' \<Longrightarrow>
     inv s' \<and> load s' = fold spec_op ps (load s)"
proof (induction ps arbitrary: s)
  case (Cons p ps)
  then obtain s1 where s1: "exec p s = Some s1" "run_ops exec ps s1 = Some s'" by (auto simp: bind_eq_Some_conv)
  have "op_fits p (snd (load s))" "ops_fit ps (spec_op p (load s))" "room s p" and fits: "run_room exec room ps s1"
    using Cons.prems(2,3) s1(1) by simp_all
  then have 1: "inv s1 \<and> load s1 = spec_op p (load s)" using exec_ok [OF Cons.prems(1) _ _ s1(1)] by blast
  with Cons.IH [of s1] fits \<open>ops_fit ps (spec_op p (load s))\<close> s1(2) show ?case by simp
qed simp

end

text \<open>The in-memory log.\<close>

fun mw_exec :: "wal_op \<Rightarrow> MemoryWAL \<Rightarrow> MemoryWAL option" where
  "mw_exec (WAppend st es) w = Some (mw_Append w st es)"
| "mw_exec (WTruncate k) w = Some (mw_TruncatePrefix w k)"

lemma consec_filter_ge: "consec es \<Longrightarrow> consec (filter (\<lambda>e. e_Index e \<ge> k) es)"
  using sorted_filter_split [OF consec_sorted, of es k] by (metis consec_append)

lemma consec_merged_fits: "consec es \<Longrightarrow> fits es inc \<Longrightarrow> consec (merged es inc)"
proof (cases "inc = [] \<or> es = []")
  case False
  then show "consec es \<Longrightarrow> fits es inc \<Longrightarrow> consec (merged es inc)"
    unfolding fits_def by (intro consec_merged) auto
qed (auto simp: fits_def merged_def)

interpretation mw: Write_Ahead_Log "\<lambda>w. consec (mw_entries w)" mw_Load mw_exec "\<lambda>_ _. True"
proof unfold_locales
  fix w w' :: MemoryWAL and p
  assume "consec (mw_entries w)" "op_fits p (snd (mw_Load w))" "mw_exec p w = Some w'"
  then show "consec (mw_entries w') \<and> mw_Load w' = spec_op p (mw_Load w)"
    by (cases p) (auto simp: mw_Load_def mw_Append_def mw_TruncatePrefix_def mergeEntries_merged consec_filter_ge
      consec_merged_fits)
qed (simp add: mw_Load_def)

text \<open>The log on disk.\<close>

definition success :: "'s \<times> wal_error option \<Rightarrow> 's option" where
  "success r = (if snd r = None then Some (fst r) else None)"

fun fw_exec :: "wal_op \<Rightarrow> FileWAL \<times> disk \<Rightarrow> (FileWAL \<times> disk) option" where
  "fw_exec (WAppend st es) (w, d) = success (fw_Append w st es d)"
| "fw_exec (WTruncate k) (w, d) = success (fw_TruncatePrefix w k d)"

fun room_for :: "FileWAL \<times> disk \<Rightarrow> wal_op \<Rightarrow> bool" where
  "room_for (w, d) (WAppend st es) \<longleftrightarrow> fw_room w (length es)"
| "room_for (w, d) (WTruncate k) \<longleftrightarrow> True"

definition wal_image :: "FileWAL \<times> disk \<Rightarrow> HardState \<times> Entry list" where
  "wal_image s = (fw_state (fst s), fw_entries (fst s))"

interpretation fl: Write_Ahead_Log "\<lambda>(w, d). fw_inv w d" wal_image fw_exec room_for
proof unfold_locales
  fix s s' :: "FileWAL \<times> disk" and p
  assume a: "(\<lambda>(w, d). fw_inv w d) s" "op_fits p (snd (wal_image s))" "room_for s p" "fw_exec p s = Some s'"
  obtain w d w' d' where s: "s = (w, d)" "s' = (w', d')" by force
  show "(\<lambda>(w, d). fw_inv w d) s' \<and> wal_image s' = spec_op p (wal_image s)"
  proof (cases p)
    case (WAppend st es)
    then have "fw_Append w st es d = ((w', d'), None)" using a(4) s by (auto simp: success_def prod_eq_iff split: if_splits)
    then show ?thesis
      using fw_Append_ok [of w d es st w' d'] a WAppend s by (auto simp: wal_image_def fits_def)
  next
    case (WTruncate k)
    then have "fw_TruncatePrefix w k d = ((w', d'), None)" using a(4) s by (auto simp: success_def prod_eq_iff split: if_splits)
    then show ?thesis using fw_TruncatePrefix_ok [of w d k w' d'] a WTruncate s by (auto simp: wal_image_def)
  qed
qed (auto simp: wal_image_def fw_inv_def)


subsection \<open>A codec and a log for the examples\<close>

text \<open>An instance of the codec: fixed-width numbers and the data after them.\<close>

definition fixed_codec :: Codec where
  "fixed_codec =
     \<lparr>cd_EncodeState = \<lambda>s. Some (PutUint64 (hs_Term s) @ PutUint64 (hs_Vote s) @ PutUint64 (hs_Commit s)),
      cd_DecodeState = \<lambda>b. (case (Uint64 b, Uint64 (drop 8 b), Uint64 (drop 16 b)) of
        (Some t, Some v, Some c) \<Rightarrow> Some \<lparr>hs_Term = t, hs_Vote = v, hs_Commit = c\<rparr> | _ \<Rightarrow> None),
      cd_EncodeEntry = \<lambda>e. (if e_Type e = 0 \<and> length (e_Data e) < 2 ^ 31
        then Some (PutUint64 (e_Term e) @ PutUint64 (e_Index e) @ e_Data e) else None),
      cd_DecodeEntry = \<lambda>b. (case (Uint64 b, Uint64 (drop 8 b)) of
        (Some t, Some i) \<Rightarrow> Some \<lparr>e_Term = t, e_Index = i, e_Type = 0, e_Data = drop 16 b\<rparr> | _ \<Rightarrow> None)\<rparr>"

lemma fixed_codec_ok: "codec_ok fixed_codec"
  using Uint64_PutUint64 [of _ "[]"] by (auto simp: codec_ok_def fixed_codec_def split: if_splits)

lemma fixed_codec_encodes: "cd_EncodeState fixed_codec s \<noteq> None"
  by (simp add: fixed_codec_def)

definition sample_entry :: "u64 \<Rightarrow> u64 \<Rightarrow> Entry" where
  "sample_entry t i = \<lparr>e_Term = t, e_Index = i, e_Type = 0, e_Data = ''x''\<rparr>"

definition sample_state :: HardState where
  "sample_state = \<lparr>hs_Term = 1, hs_Vote = 1, hs_Commit = 0\<rparr>"

text \<open>An empty directory, opened.\<close>

definition sample_disk :: disk where
  "sample_disk = \<lparr>dk_files = [], dk_outcomes = []\<rparr>"

definition sample_wal :: FileWAL where
  "sample_wal = (NewFileWAL ''wal'' fixed_codec)\<lparr>fw_opened := True\<rparr>"

lemma sample_wal_inv: "fw_inv sample_wal sample_disk"
  using fw_Open_fresh [of "NewFileWAL ''wal'' fixed_codec" sample_disk sample_disk]
  by (simp add: fixed_codec_ok sample_wal_def NewFileWAL_def sample_disk_def next_io_def)

lemma sample_wal_fields [simp]:
  "fw_entries sample_wal = []" "fw_segments sample_wal = []" "fw_state sample_wal = zero_HardState"
  "fw_codec sample_wal = fixed_codec" "fw_opened sample_wal" "fw_dir sample_wal = ''wal''"
  by (simp_all add: sample_wal_def NewFileWAL_def)

lemma sample_consec: "consec [sample_entry t 1]" "consec [sample_entry t 1, sample_entry t' 2]"
  by (simp_all add: consec_nth sample_entry_def less_Suc_eq)

subsection \<open>Properties\<close>

lemma sample_codec:
  "dk_outcomes sample_disk = []" "cd_EncodeEntry fixed_codec (sample_entry t i) \<noteq> None"
  "cd_EncodeState fixed_codec sample_state \<noteq> None" "\<not> isEmptyHardState sample_state"
  by (simp_all add: sample_disk_def fixed_codec_def sample_entry_def isEmptyHardState_def sample_state_def)

lemma sample_append:
  obtains w' d' where "fw_Append sample_wal sample_state [sample_entry 1 1] sample_disk = ((w', d'), None)"
    "dk_outcomes d' = []"
proof -
  have "\<exists>w' d'. fw_Append sample_wal sample_state [sample_entry 1 1] sample_disk = ((w', d'), None) \<and> dk_outcomes d' = []"
    by (rule fw_Append_clean [OF sample_wal_inv])
      (simp_all add: sample_disk_def fixed_codec_def sample_entry_def)
  then show ?thesis using that by blast
qed

definition sample_ops :: "wal_op list" where
  "sample_ops = [WAppend sample_state [sample_entry 1 1]]"

lemma sample_ops_fit: "ops_fit sample_ops (fw_state sample_wal, fw_entries sample_wal)"
  by (simp add: sample_ops_def fits_def sample_consec isEmptyHardState_def sample_state_def)

lemma sample_ops_room: "run_room fw_exec room_for sample_ops (sample_wal, sample_disk)"
  by (simp add: sample_ops_def fw_room_def split: option.split)

lemma sample_ops_run:
  obtains w' d' where "run_ops fw_exec sample_ops (sample_wal, sample_disk) = Some (w', d')" "dk_outcomes d' = []"
proof -
  obtain w' d' where "fw_Append sample_wal sample_state [sample_entry 1 1] sample_disk = ((w', d'), None)" "dk_outcomes d' = []"
    by (rule sample_append)
  with that show ?thesis by (simp add: sample_ops_def success_def)
qed

lemma spec_sample_ops: "fold spec_op sample_ops (st, []) = (sample_state, [sample_entry 1 1])"
  by (simp add: sample_ops_def merged_def)



text \<open>The two implementations of the interface agree: a run that succeeds on the log on disk succeeds on an
  in-memory log with the same contents, and \<open>Load\<close> then returns the same state and entries of both.\<close>

theorem memory_file_logs_agree:
  assumes "fw_inv w d" "ops_fit ops (fw_state w, fw_entries w)" "run_room fw_exec room_for ops (w, d)"
    "run_ops fw_exec ops (w, d) = Some (w', d')" "mw_Load m = (fw_state w, fw_entries w)"
  shows "\<exists>m'. run_ops mw_exec ops m = Some m' \<and> fw_Load w' = Inr (mw_Load m')"
proof -
  have ex: "\<exists>m'. run_ops mw_exec ops m = Some m'" for m
  proof (induction ops arbitrary: m)
    case (Cons p ps)
    then show ?case by (cases p) auto
  qed simp
  then obtain m' where m': "run_ops mw_exec ops m = Some m'" by blast
  have "consec (mw_entries m)" using assms(1,5) by (auto simp: mw_Load_def fw_inv_def)
  with mw.run_ok [of m ops m'] m' assms(2,5) have "mw_Load m' = fold spec_op ops (fw_state w, fw_entries w)" by simp
  moreover from fl.run_ok [OF _ _ assms(3,4)] assms(1,2)
  have "fw_inv w' d'" "wal_image (w', d') = fold spec_op ops (wal_image (w, d))" by (auto simp: wal_image_def)
  ultimately show ?thesis using m' by (simp add: fw_Load_def wal_image_def fw_inv_def)
qed

theorem memory_file_logs_agree_witness:
  "\<exists>w' d' m'. run_ops fw_exec sample_ops (sample_wal, sample_disk) = Some (w', d') \<and>
     run_ops mw_exec sample_ops NewMemoryWAL = Some m' \<and> fw_Load w' = Inr (mw_Load m')"
proof -
  obtain w' d' where r: "run_ops fw_exec sample_ops (sample_wal, sample_disk) = Some (w', d')"
    by (rule sample_ops_run)
  from memory_file_logs_agree [OF sample_wal_inv sample_ops_fit sample_ops_room r, of NewMemoryWAL] r show ?thesis
    by (auto simp: NewMemoryWAL_def mw_Load_def)
qed

text \<open>C34. Without I/O errors an append gets through: when the codec encodes the state and the entries, no
  system call fails, the entries do not leave a gap and the last index is not the largest number, \<open>Append\<close> returns success and the log is the merged one.\<close>

theorem append_gets_through:
  assumes "fw_inv w d" "dk_outcomes d = []" "fits (fw_entries w) inc"
    "fw_entries w = [] \<or> ix (last (fw_entries w)) + 1 < 2 ^ 64" "fw_room w (length inc)"
    "\<forall>e \<in> set inc. cd_EncodeEntry (fw_codec w) e \<noteq> None" "\<not> isEmptyHardState st"
    "cd_EncodeState (fw_codec w) st \<noteq> None"
  shows "\<exists>w' d'. fw_Append w st inc d = ((w', d'), None) \<and> fw_inv w' d' \<and> fw_Load w' = Inr (st, merged (fw_entries w) inc)"
proof -
  have near: "inc = [] \<or> fw_entries w = [] \<or> \<not> e_Index (hd inc) > e_Index (last (fw_entries w)) + 1"
  proof (rule ccontr)
    assume a: "\<not> ?thesis"
    then have "ix (hd inc) \<le> Suc (ix (last (fw_entries w)))" "e_Index (last (fw_entries w)) + 1 < e_Index (hd inc)"
      "e_Index (hd (fw_entries w)) \<le> e_Index (hd inc)" using assms(3) by (auto simp: fits_def)
    moreover have "unat (e_Index (last (fw_entries w)) + 1) = Suc (ix (last (fw_entries w)))"
      using a assms(4) by (auto simp: unat_word_ariths)
    ultimately show False by (simp add: word_less_nat_alt)
  qed
  obtain w' d' where run: "fw_Append w st inc d = ((w', d'), None)"
    using fw_Append_clean [OF assms(1,2,6) _ near, of st] assms(7,8) by auto
  then have "fw_inv w' d' \<and> fw_entries w' = merged (fw_entries w) inc \<and> fw_state w' = st"
    using fw_Append_ok [OF assms(1) _ assms(5) _ run] assms(3,7) by (auto simp: fits_def)
  then show ?thesis using run by (auto simp: fw_Load_def fw_inv_def)
qed


theorem append_gets_through_witness:
  "\<exists>w' d'. fw_Append sample_wal sample_state [sample_entry 1 1] sample_disk = ((w', d'), None) \<and>
     fw_Load w' = Inr (sample_state, [sample_entry 1 1])"
  using append_gets_through [OF sample_wal_inv, of "[sample_entry 1 1]" sample_state] sample_codec
  by (auto simp: fits_def sample_consec fw_room_def merged_def)

text \<open>C17. A truncation can be interrupted anywhere. Whichever system call of \<open>TruncatePrefix\<close> fails, after any
  number of bytes, the next start opens the directory without an error, with the same hard state, and
  finds the log but for entries before the index: no entry from the index on is lost.\<close>

theorem truncation_is_crash_safe:
  assumes "fw_inv w d" "fw_TruncatePrefix w k d = ((w', d'), r)" "next_io d' = (IoOk, d1)"
  shows "\<exists>gone es w1. fw_Open (NewFileWAL (fw_dir w) (fw_codec w)) d' = ((w1, d1), None) \<and>
     fw_Load w1 = Inr (fw_state w, es) \<and> fw_entries w = gone @ es \<and> (\<forall>e \<in> set gone. e_Index e < k)"
proof -
  obtain gone es segs where inv: "fw_inv (w\<lparr>fw_entries := es, fw_segments := segs\<rparr>) d'" and
    "fw_entries w = gone @ es" "\<forall>e \<in> set gone. e_Index e < k"
    using fw_TruncatePrefix_any [OF assms(1,2)] unfolding holds_suffix_def by blast
  then show ?thesis
    using fw_Open_ok [OF inv, of "NewFileWAL (fw_dir w) (fw_codec w)", OF _ _ _ assms(3)]
    by (intro exI [of _ gone] exI [of _ es] exI) (auto simp: NewFileWAL_def fw_Load_def)
qed

theorem truncation_is_crash_safe_witness:
  "\<exists>w d w' d' d1. fw_entries w = [sample_entry 1 1] \<and> fw_TruncatePrefix w 5 (d\<lparr>dk_outcomes := [IoFail 0]\<rparr>) = ((w', d'), Some ErrIO) \<and>
     (\<exists>gone es w1. fw_Open (NewFileWAL (fw_dir w) (fw_codec w)) d' = ((w1, d1), None) \<and>
        fw_Load w1 = Inr (fw_state w, es) \<and> fw_entries w = gone @ es)"
proof -
  obtain w d where run: "fw_Append sample_wal sample_state [sample_entry 1 1] sample_disk = ((w, d), None)"
    by (rule sample_append)
  have inv: "fw_inv w d" and es: "fw_entries w = [sample_entry 1 1]"
    using fw_Append_ok [OF sample_wal_inv _ _ _ run] by (auto simp: sample_consec fw_room_def merged_def)
  let ?d = "d\<lparr>dk_outcomes := [IoFail 0]\<rparr>"
  have inv1: "fw_inv w ?d" by (rule fw_inv_same [OF inv]) simp_all
  have "fw_segments w \<noteq> []" using inv es by (auto simp: fw_inv_def log_on_disk_def)
  then have "truncate_everything w ?d = ((w, d\<lparr>dk_outcomes := []\<rparr>), Some ErrIO)"
    by (cases "fw_segments w") (simp_all add: truncate_everything_def os_Remove_def next_io_def)
  moreover have "fw_opened w" using inv by (simp add: fw_inv_def)
  ultimately have run1: "fw_TruncatePrefix w 5 ?d = ((w, d\<lparr>dk_outcomes := []\<rparr>), Some ErrIO)"
    using es by (simp add: fw_TruncatePrefix_def Let_def sample_entry_def word_le_nat_alt)
  have "next_io (d\<lparr>dk_outcomes := []\<rparr>) = (IoOk, d\<lparr>dk_outcomes := []\<rparr>)" by (simp add: next_io_def)
  from truncation_is_crash_safe [OF inv1 run1 this] es run1 show ?thesis by blast
qed

lemma append_incr_codec: "appendEntriesIncremental w es i b d = ((w', d'), r) \<Longrightarrow> fw_codec w' = fw_codec w"
  by (auto simp: appendEntriesIncremental_def Let_def split: prod.splits sum.splits if_splits)

lemma rewriteTail_codec: "rewriteTail w k es d = ((w', d'), r) \<Longrightarrow> fw_codec w' = fw_codec w"
  by (auto simp: rewriteTail_def Let_def split: prod.splits option.splits if_splits dest!: append_incr_codec)

lemma append_keeps_codec: "fw_Append w st es d = ((w', d'), r) \<Longrightarrow> fw_codec w' = fw_codec w"
  by (auto simp: fw_Append_def Let_def split: prod.splits option.splits if_splits list.splits
      dest!: append_incr_codec rewriteTail_codec)

lemma sample_two:
  obtains w d where "fw_inv w d" "fw_entries w = [sample_entry 1 1, sample_entry 1 2]" "fw_codec w = fixed_codec"
proof -
  let ?es = "[sample_entry 1 1, sample_entry 1 2]"
  obtain w d where run: "fw_Append sample_wal sample_state ?es sample_disk = ((w, d), None)"
    using fw_Append_clean [OF sample_wal_inv, of ?es sample_state] sample_codec by auto
  have "fw_inv w d" "fw_entries w = ?es"
    using fw_Append_ok [OF sample_wal_inv _ _ _ run] by (auto simp: sample_consec fw_room_def merged_def)
  moreover have "fw_codec w = fixed_codec" using append_keeps_codec [OF run] by simp
  ultimately show ?thesis using that by blast
qed

lemma persistState_outcomes:
  assumes "dk_outcomes d = IoOk # IoOk # os" "cd_EncodeState (fw_codec w) (fw_state w) \<noteq> None"
  shows "\<exists>d'. persistState w d = (d', None) \<and> dk_outcomes d' = os"
  using assms by (auto simp: persistState_def os_WriteFile_def os_Rename_def next_io_def set_file_def drop_file_def update_conv')

lemma remove_all_outcomes:
  "dk_outcomes d = replicate (length ps) IoOk @ os \<Longrightarrow> \<exists>d'. remove_all ps d = (d', None) \<and> dk_outcomes d' = os"
  by (induction ps arbitrary: d) (auto simp: os_Remove_def next_io_def)

lemma append_incr_refused:
  assumes "dk_outcomes d = IoFail n # os" "cd_EncodeEntry (fw_codec w) e \<noteq> None"
  shows "\<exists>d'. appendEntriesIncremental w (e # es) i False d = ((w, d'), Some ErrIO) \<and> dk_files d' = dk_files d \<and> dk_outcomes d' = os"
  using assms
  by (auto simp: appendEntriesIncremental_def roll_segment_def createSegment_def next_io_def)

text \<open>C39. An overwrite is not crash safe. When incoming entries overwrite a suffix of the log, \<open>Append\<close>
  removes the segment that holds the first of them, and every later segment, before it writes their
  replacement. If the creation of the new segment file fails (or the process dies at that point), the directory opens without
  an error and has lost all entries of the removed segments, including those before the first
  overwritten index, although they were written and acknowledged earlier.\<close>

theorem interrupted_overwrite_loses_entries:
  assumes inv: "fw_inv w d" and inc: "inc \<noteq> []" "consec inc" "fw_entries w \<noteq> []"
      "e_Index (hd (fw_entries w)) \<le> e_Index (hd inc)" "ix (hd inc) \<le> ix (last (fw_entries w))"
      "ix (last (fw_entries w)) + 1 < 2 ^ 64"
    and enc: "\<forall>e \<in> set inc. cd_EncodeEntry (fw_codec w) e \<noteq> None" "cd_EncodeState (fw_codec w) st \<noteq> None"
      "\<not> isEmptyHardState st"
  shows "let i = first_index (\<lambda>s. sg_LastIndex s \<ge> e_Index (hd inc)) (fw_segments w);
      fails = replicate (2 + (length (fw_segments w) - i)) IoOk @ [IoFail n];
      ((w', d'), err) = fw_Append w st inc (d\<lparr>dk_outcomes := fails\<rparr>);
      ((w1, _), err1) = fw_Open (NewFileWAL (fw_dir w) (fw_codec w)) d' in
    err = Some ErrIO \<and> err1 = None \<and>
    fw_Load w1 = Inr (st, filter (\<lambda>e. e_Index e < sg_FirstIndex (fw_segments w ! i)) (fw_entries w))"
proof -
  let ?k = "e_Index (hd inc)" and ?v = "w\<lparr>fw_state := st\<rparr>"
  obtain ess where log: "log_on_disk w d (fw_segments w) ess" and ess: "concat ess = fw_entries w"
    and con: "consec (fw_entries w)" and op: "fw_opened w"
    using inv by (auto simp: fw_inv_def)
  have hi: "?k \<le> e_Index (last (fw_entries w))" using inc(5) by (simp add: word_le_nat_alt)
  obtain A s B eA eY where seg: "fw_segments w = A @ s # B" and eq: "ess = eA @ eY" and len: "length A = length eA"
    and fi: "first_index (\<lambda>s. sg_LastIndex s \<ge> ?k) (fw_segments w) = length A"
    and cut: "filter (\<lambda>e. e_Index e < sg_FirstIndex s) (fw_entries w) = concat eA"
      "concat eA @ filter (\<lambda>e. e_Index e \<ge> sg_FirstIndex s) (merged (fw_entries w) inc) = merged (fw_entries w) inc"
      "sg_FirstIndex s \<le> ?k"
    by (rule rewrite_site [OF log ess con inc(1,2,3,4) hi])
  let ?d = "d\<lparr>dk_outcomes := replicate (2 + (length (fw_segments w) - length A)) IoOk @ [IoFail n]\<rparr>"
  obtain d1 where p: "persistState ?v ?d = (d1, None)" and o1: "dk_outcomes d1 = replicate (length (s # B)) IoOk @ [IoFail n]"
    using persistState_outcomes [of ?d "replicate (length (s # B)) IoOk @ [IoFail n]" ?v] enc(2) seg by auto
  have l1: "log_on_disk w d1 (A @ s # B) (eA @ eY)" "state_saved ?v d1"
    using persistState_ok [OF p] log_same [of w ?d d, OF _ log] seg eq by simp_all
  obtain d2 where rm: "remove_all (map sg_Path (s # B)) d1 = (d2, None)" and o2: "dk_outcomes d2 = [IoFail n]"
    using remove_all_outcomes [of d1 "map sg_Path (s # B)"] o1 by auto
  have l2: "log_on_disk w d2 A eA" "others_kept w d1 d2" using log_remove [OF l1(1) len rm] by auto
  let ?re = "filter (\<lambda>e. e_Index e \<ge> sg_FirstIndex s) (merged (fw_entries w) inc)"
  have "hd inc \<in> set ?re" using cut(3) inc(1) by (simp add: merged_def)
  moreover have "cd_EncodeEntry (fw_codec w) e \<noteq> None" if "e \<in> set ?re" for e
    using that enc(1) log_encodes [OF log, unfolded ess, of e] by (auto simp: merged_def split: if_splits)
  ultimately obtain e re where re: "?re = e # re" "cd_EncodeEntry (fw_codec w) e \<noteq> None" by (cases ?re) auto
  let ?v1 = "?v\<lparr>fw_segments := A, fw_entries := concat eA\<rparr>"
  obtain d3 where ap: "appendEntriesIncremental ?v1 ?re (sg_ID s) False d2 = ((?v1, d3), Some ErrIO)"
    and d3: "dk_files d3 = dk_files d2" "dk_outcomes d3 = []"
    using append_incr_refused [OF o2, of ?v1 e re "sg_ID s"] re by auto
  have rt: "rewriteTail ?v ?k (merged (fw_entries w) inc) d1 = ((?v1, d3), Some ErrIO)"
    using seg fi rm ap cut(1) by (simp add: rewriteTail_def Let_def)
  have run: "fw_Append w st inc ?d = ((?v1, d3), Some ErrIO)"
  proof -
    have "unat (e_Index (last (fw_entries w)) + 1) = ix (last (fw_entries w)) + 1" using inc(6) by (simp add: unat_word_ariths)
    then have "\<not> ?k > e_Index (last (fw_entries w)) + 1" "?k \<noteq> e_Index (last (fw_entries w)) + 1"
      using inc(5) by (auto simp: word_less_nat_alt word_unat_eq_iff)
    then show ?thesis
      using rt p op enc(3) inc(1,3) mergeEntries_merged [OF con, of inc] by (cases inc) (auto simp: fw_Append_def)
  qed
  have "consec (concat eA)" using con ess eq by (metis consec_append concat_append)
  then have inv3: "fw_inv ?v1 d3"
    using inv l1(2) l2 d3(1) log_same [of w d3 d2, OF _ l2(1)]
    by (intro fw_invI [of _ _ eA]) (auto simp: fw_inv_def state_saved_def state_path_def others_kept_def)
  from fw_Open_ok [OF inv3, of "NewFileWAL (fw_dir w) (fw_codec w)", OF _ _ _ next_io_clean [OF d3(2)]]
  show ?thesis
    unfolding fi Let_def run using seg cut(1) by (simp add: NewFileWAL_def fw_Load_def)
qed

theorem interrupted_overwrite_loses_entries_witness:
  "\<exists>w d. fw_entries w = [sample_entry 1 1, sample_entry 1 2] \<and>
    (let i = first_index (\<lambda>s. sg_LastIndex s \<ge> e_Index (hd [sample_entry 2 2])) (fw_segments w);
      fails = replicate (2 + (length (fw_segments w) - i)) IoOk @ [IoFail 0];
      ((w', d'), err) = fw_Append w sample_state [sample_entry 2 2] (d\<lparr>dk_outcomes := fails\<rparr>);
      ((w1, _), err1) = fw_Open (NewFileWAL (fw_dir w) (fw_codec w)) d' in
    err = Some ErrIO \<and> err1 = None \<and>
    fw_Load w1 = Inr (sample_state, filter (\<lambda>e. e_Index e < sg_FirstIndex (fw_segments w ! i)) (fw_entries w)))"
proof -
  obtain w d where w: "fw_inv w d" "fw_entries w = [sample_entry 1 1, sample_entry 1 2]" "fw_codec w = fixed_codec"
    by (rule sample_two)
  have c: "consec [sample_entry 2 2]" by (simp add: consec_nth sample_entry_def)
  have "fw_entries w \<noteq> []" "e_Index (hd (fw_entries w)) \<le> e_Index (hd [sample_entry 2 2])"
    "ix (hd [sample_entry 2 2]) \<le> ix (last (fw_entries w))" "ix (last (fw_entries w)) + 1 < 2 ^ 64"
    using w(2) by (simp_all add: sample_entry_def word_le_nat_alt)
  note facts = this
  have enc: "\<forall>e \<in> set [sample_entry 2 2]. cd_EncodeEntry (fw_codec w) e \<noteq> None" "cd_EncodeState (fw_codec w) sample_state \<noteq> None"
    using sample_codec(2,3) w(3) by simp_all
  show ?thesis
    using w(2) interrupted_overwrite_loses_entries [OF w(1) list.distinct(2) c facts enc sample_codec(4), of 0] by blast
qed

text \<open>What an interrupted record leaves. A segment file that holds some records and to which one more was being
  written when the write stopped after \<open>n\<close> bytes reads back as the old records when not even the length got written,
  as all of them when the whole record did, and not at all in between: the read fails, and with it
  the opening of the log.\<close>

theorem torn_record:
  assumes "codec_ok c" "frames c es = Some b" "contents d p = Some b" "cd_EncodeEntry c e = Some r"
  shows "readSegment p c (fst (appendRecord p r (d\<lparr>dk_outcomes := [IoFail n]\<rparr>))) =
     (if n < 4 then Inr es else if n < 4 + length r then Inl ErrShortRecord else Inr (es @ [e]))"
proof -
  have len: "length r < 2 ^ 32" using assms(1,4) by (auto simp: codec_ok_def)
  have "readSegment p c (fst (appendRecord p r (d\<lparr>dk_outcomes := [IoFail n]\<rparr>))) =
      and_then (read_records c (take n (frame r))) (\<lambda>es'. Inr (es @ es'))"
    using assms(3) by (simp add: readSegment_def appendRecord_def next_io_def read_records_frames [OF assms(1,2)])
  moreover have "read_records c (take n (frame r)) = Inr []" if "n < 4"
    using that by (subst read_records.simps) (simp add: length_frame)
  moreover have "read_records c (take n (frame r)) = Inl ErrShortRecord" if "4 \<le> n" "n < 4 + length r"
  proof -
    have "take 4 (take n (frame r)) = take 4 (frame r @ [])" using that by (simp add: min_def)
    then have "be_value (take 4 (take n (frame r))) = length r" using be_value_frame [OF len, of "[]"] by (simp only:)
    moreover have "n - 4 < length r" using that by linarith
    ultimately show ?thesis using that by (subst read_records.simps) (simp add: length_frame Let_def)
  qed
  moreover have "read_records c (take n (frame r)) = Inr [e]" if "4 + length r \<le> n"
    using that read_records_frame [OF assms(1,4), of "[]"] by (simp add: length_frame)
  ultimately show ?thesis by simp
qed

theorem torn_record_witness:
  "\<exists>d r. cd_EncodeEntry fixed_codec (sample_entry 1 1) = Some r \<and>
     readSegment ''p'' fixed_codec (fst (appendRecord ''p'' r (d\<lparr>dk_outcomes := [IoFail 4]\<rparr>))) = Inl ErrShortRecord"
proof -
  obtain r where r: "cd_EncodeEntry fixed_codec (sample_entry 1 1) = Some r" "r \<noteq> []"
    by (simp add: fixed_codec_def sample_entry_def)
  let ?d = "\<lparr>dk_files = [(''p'', [])], dk_outcomes = []\<rparr>"
  have "contents ?d ''p'' = Some []" "frames fixed_codec [] = Some []" by simp_all
  from torn_record [OF fixed_codec_ok this(2,1) r(1), of 4] r show ?thesis
    by (intro exI [of _ ?d] exI [of _ r]) simp
qed

text \<open>The hard state changes atomically. Whatever fails while it is being written, the state file then holds
  the old state or, when success is reported, the new one, and no segment file changes.\<close>

theorem hard_state_atomic:
  assumes "persistState w d = (d', r)"
  shows "contents d' (state_path w) = (if r = None then cd_EncodeState (fw_codec w) (fw_state w) else contents d (state_path w)) \<and>
     (\<forall>p. wal_path (fw_dir w) p \<longrightarrow> contents d' p = contents d p)"
proof (cases r)
  case None
  then obtain b d1 where "cd_EncodeState (fw_codec w) (fw_state w) = Some b"
    and io: "os_WriteFile (state_path w @ ''.tmp'') b d = (d1, None)" "os_Rename (state_path w @ ''.tmp'') (state_path w) d1 = (d', None)"
    using assms by (auto simp: persistState_def split: option.splits prod.splits)
  then show ?thesis using None write_rename_ok [OF io] not_wal_path(1,2) [of "fw_dir w"] by (auto simp: state_path_def)
next
  case (Some e)
  then show ?thesis using persistState_any [OF assms [unfolded Some]] not_wal_path(2) [of "fw_dir w"]
    by (metis append_self_conv list.discI option.distinct(1) state_path_def)
qed

theorem hard_state_atomic_witness:
  "\<exists>d'. persistState sample_wal (sample_disk\<lparr>dk_outcomes := [IoFail 3]\<rparr>) = (d', Some ErrIO) \<and> contents d' (state_path sample_wal) = None"
proof -
  let ?d = "sample_disk\<lparr>dk_outcomes := [IoFail 3]\<rparr>"
  obtain d' where p: "persistState sample_wal ?d = (d', Some ErrIO)"
    by (simp add: persistState_def os_WriteFile_def next_io_def fixed_codec_def)
  from hard_state_atomic [OF p] p show ?thesis by (simp add: sample_disk_def)
qed

text \<open>Segment files stay within the limit: a segment of an open log is never larger than the maximum segment size, except
  when it holds a single record that alone exceeds it.\<close>

theorem segment_files_bounded:
  assumes "fw_inv w d" "s \<in> set (fw_segments w)"
  shows "\<exists>b. contents d (sg_Path s) = Some b \<and>
     (int (length b) \<le> fw_maxSegmentSize w \<or> (\<exists>e. frames (fw_codec w) [e] = Some b))"
proof -
  obtain ess where "list_all2 (seg_holds (fw_codec w) (fw_maxSegmentSize w) d) (fw_segments w) ess"
    using assms(1) by (auto simp: fw_inv_def log_on_disk_def)
  then obtain es where "seg_holds (fw_codec w) (fw_maxSegmentSize w) d s es"
    using assms(2) by (auto simp: in_set_conv_nth list_all2_conv_all_nth)
  then show ?thesis by (auto simp: seg_holds_def length_Suc_conv)
qed

theorem segment_files_bounded_witness:
  "\<exists>(w :: FileWAL) d s b. fw_entries w = [sample_entry 1 1, sample_entry 1 2] \<and> s \<in> set (fw_segments w) \<and> contents d (sg_Path s) = Some b \<and>
     (int (length b) \<le> fw_maxSegmentSize w \<or> (\<exists>e. frames (fw_codec w) [e] = Some b))"
proof -
  obtain w d where w: "fw_inv w d" "fw_entries w = [sample_entry 1 1, sample_entry 1 2]" "fw_codec w = fixed_codec"
    by (rule sample_two)
  then obtain s where s: "s \<in> set (fw_segments w)" by (cases "fw_segments w") (auto simp: fw_inv_def log_on_disk_def)
  from segment_files_bounded [OF w(1) s] obtain b where "contents d (sg_Path s) = Some b"
    "int (length b) \<le> fw_maxSegmentSize w \<or> (\<exists>e. frames (fw_codec w) [e] = Some b)" by blast
  with w(2) s show ?thesis by blast
qed

end
