(* ===== verification/Registry_Watch.thy ===== *)
theory Registry_Watch
  imports Registry_Model "HOL-Library.AList"
begin

text \<open>
  Watching the registry (\<open>internal/registry/watch.go\<close>): subscriptions with replay, publication and the
  closing of slow or cancelled watchers.

  A Go channel is an address into a list of channels; sending on a closed channel and closing a closed
  channel panic. \<open>Publish\<close> holds the lock while it records the event and copies the watchers, sends without
  it, and takes it again to drop the slow watchers; the three parts are separate definitions, which the step
  relation \<open>hub_step\<close> interleaves with subscriptions, cancellations and receives.
\<close>

subsection \<open>Events and channels\<close>

datatype WatchEventType = WatchEventUpsert | WatchEventDelete

record WatchEvent =
  we_Revision :: u64
  we_Type :: WatchEventType
  we_Namespace :: bytes
  we_Service :: bytes
  we_InstanceID :: bytes
  we_Value :: "Value option"

record chan =
  ch_cap :: nat
  ch_buf :: "WatchEvent list"
  ch_closed :: bool

datatype hub_panic = SendOnClosed | CloseOfClosed

definition close_chan :: "chan list \<Rightarrow> nat \<Rightarrow> hub_panic + chan list" where
  "close_chan cs c = (if ch_closed (cs ! c) then Inl CloseOfClosed else Inr (cs[c := (cs ! c)\<lparr>ch_closed := True\<rparr>]))"

text \<open>A \<open>select\<close> with a send and a default case: whether the event was sent.\<close>

definition try_send :: "chan list \<Rightarrow> nat \<Rightarrow> WatchEvent \<Rightarrow> hub_panic + chan list \<times> bool" where
  "try_send cs c event =
     (if ch_closed (cs ! c) then Inl SendOnClosed
      else if length (ch_buf (cs ! c)) < ch_cap (cs ! c)
      then Inr (cs[c := (cs ! c)\<lparr>ch_buf := ch_buf (cs ! c) @ [event]\<rparr>], True)
      else Inr (cs, False))"

subsection \<open>The hub\<close>

record WatchHub =
  wh_nextID :: u64
  wh_watchers :: "(u64, nat) gomap"
  wh_history :: "WatchEvent list"

definition NewWatchHub :: WatchHub where
  "NewWatchHub = \<lparr>wh_nextID = 0, wh_watchers = [], wh_history = []\<rparr>"

definition appendHistoryLocked :: "WatchHub \<Rightarrow> WatchEvent \<Rightarrow> WatchHub" where
  "appendHistoryLocked h event =
     (let history = wh_history h @ [event] in
      h\<lparr>wh_history := if length history > 2048 then drop (length history - 2048) history else history\<rparr>)"

definition replaySinceLocked :: "WatchHub \<Rightarrow> u64 \<Rightarrow> WatchEvent list \<times> bool" where
  "replaySinceLocked h since =
     (if since = 0 \<or> wh_history h = [] then ([], False)
      else
        let oldest = we_Revision (hd (wh_history h)); latest = we_Revision (last (wh_history h)) in
        if since > latest then ([], True)
        else if since + 1 < oldest then ([], False)
        else (filter (\<lambda>event. we_Revision event > since) (wh_history h), True))"

definition SubscribeSince ::
  "WatchHub \<Rightarrow> chan list \<Rightarrow> int \<Rightarrow> u64 \<Rightarrow> (WatchHub \<times> chan list) \<times> u64 \<times> nat \<times> WatchEvent list \<times> bool" where
  "SubscribeSince h cs buffer0 since =
     (let buffer = (if buffer0 \<le> 0 then 64 else buffer0);
          sid = wh_nextID h + 1;
          c = length cs;
          h1 = h\<lparr>wh_nextID := sid, wh_watchers := AList.update sid c (wh_watchers h)\<rparr>;
          (replay, exact) = replaySinceLocked h1 since in
      ((h1, cs @ [\<lparr>ch_cap = nat buffer, ch_buf = [], ch_closed = False\<rparr>]), sid, c, replay, exact))"

definition Subscribe :: "WatchHub \<Rightarrow> chan list \<Rightarrow> int \<Rightarrow> (WatchHub \<times> chan list) \<times> u64 \<times> nat" where
  "Subscribe h cs buffer = (case SubscribeSince h cs buffer 0 of (s, sid, c, _, _) \<Rightarrow> (s, sid, c))"

text \<open>
  The function returned by \<open>SubscribeSince\<close>, which is also the closing of one slow watcher. Its \<open>sync.Once\<close> makes a
  second call do nothing, as does the missing entry.
\<close>

definition unsubscribe :: "WatchHub \<Rightarrow> chan list \<Rightarrow> u64 \<Rightarrow> hub_panic + WatchHub \<times> chan list" where
  "unsubscribe h cs sid =
     (case map_of (wh_watchers h) sid of
        None \<Rightarrow> Inr (h, cs)
      | Some c \<Rightarrow>
          and_then (close_chan cs c) (\<lambda>cs'. Inr (h\<lparr>wh_watchers := AList.delete sid (wh_watchers h)\<rparr>, cs')))"

text \<open>The first locked part of \<open>Publish\<close>: record the event, copy the watchers.\<close>

definition publish_record :: "WatchHub \<Rightarrow> WatchEvent \<Rightarrow> WatchHub \<times> (u64, nat) gomap" where
  "publish_record h event = (appendHistoryLocked h event, wh_watchers h)"

text \<open>One iteration of the sending loop, which runs without the lock: the slow watchers so far.\<close>

definition publish_send ::
  "chan list \<Rightarrow> WatchEvent \<Rightarrow> u64 \<times> nat \<Rightarrow> u64 list \<Rightarrow> hub_panic + chan list \<times> u64 list" where
  "publish_send cs event target slow =
     and_then (try_send cs (snd target) event) (\<lambda>(cs', sent). Inr (cs', if sent then slow else slow @ [fst target]))"

text \<open>The second locked part: close the slow watchers that are still there.\<close>

fun publish_drop :: "WatchHub \<Rightarrow> chan list \<Rightarrow> u64 list \<Rightarrow> hub_panic + WatchHub \<times> chan list" where
  "publish_drop h cs [] = Inr (h, cs)"
| "publish_drop h cs (sid # slow) = and_then (unsubscribe h cs sid) (\<lambda>(h', cs'). publish_drop h' cs' slow)"

text \<open>\<open>Publish\<close> without interference: the list is the order in which the map is visited.\<close>

fun publish_loop ::
  "chan list \<Rightarrow> WatchEvent \<Rightarrow> (u64, nat) gomap \<Rightarrow> u64 list \<Rightarrow> hub_panic + chan list \<times> u64 list" where
  "publish_loop cs event [] slow = Inr (cs, slow)"
| "publish_loop cs event (target # rest) slow =
     and_then (publish_send cs event target slow) (\<lambda>(cs', slow'). publish_loop cs' event rest slow')"

definition Publish :: "WatchHub \<Rightarrow> chan list \<Rightarrow> WatchEvent \<Rightarrow> hub_panic + WatchHub \<times> chan list" where
  "Publish h cs event =
     (case publish_record h event of (h1, watchers) \<Rightarrow>
        and_then (publish_loop cs event watchers []) (\<lambda>(cs1, slow). publish_drop h1 cs1 slow))"

subsection \<open>Interleaving\<close>

text \<open>
  The world: the hub and its channels, the publisher (at most one, the goroutine that consumes committed
  entries) with the event, the watchers still to be served and the slow ones, and a panic. The remaining fields record what
  happened: the published events, and for each channel the events received, the number of events
  published before the subscription, and the subscription's since, replay and exactness.
\<close>

record hub_world =
  hw_hub :: WatchHub
  hw_chans :: "chan list"
  hw_pub :: "(WatchEvent \<times> (u64, nat) gomap \<times> u64 list) option"
  hw_panic :: "hub_panic option"
  hw_published :: "WatchEvent list"
  hw_received :: "WatchEvent list list"
  hw_start :: "nat list"
  hw_subs :: "(u64 \<times> WatchEvent list \<times> bool) list"

definition hub_init :: hub_world where
  "hub_init = \<lparr>hw_hub = NewWatchHub, hw_chans = [], hw_pub = None, hw_panic = None, hw_published = [],
     hw_received = [], hw_start = [], hw_subs = []\<rparr>"

text \<open>
  Revisions are indices of committed entries and one entry gives at most one event, so they increase. Fewer than
  \<open>2^64\<close> channels are ever made.
\<close>

inductive hub_step :: "hub_world \<Rightarrow> hub_world \<Rightarrow> bool" where
  sub: "\<lbrakk>hw_panic s = None; length (hw_chans s) + 1 < 2 ^ 64;
     SubscribeSince (hw_hub s) (hw_chans s) buffer since = ((h, cs), sid, c, replay, exact)\<rbrakk> \<Longrightarrow>
   hub_step s (s\<lparr>hw_hub := h, hw_chans := cs, hw_received := hw_received s @ [[]],
     hw_start := hw_start s @ [length (hw_published s)], hw_subs := hw_subs s @ [(since, replay, exact)]\<rparr>)"
| unsub: "\<lbrakk>hw_panic s = None; unsubscribe (hw_hub s) (hw_chans s) sid = Inr (h, cs)\<rbrakk> \<Longrightarrow>
   hub_step s (s\<lparr>hw_hub := h, hw_chans := cs\<rparr>)"
| unsub_panic: "\<lbrakk>hw_panic s = None; unsubscribe (hw_hub s) (hw_chans s) sid = Inl p\<rbrakk> \<Longrightarrow>
   hub_step s (s\<lparr>hw_panic := Some p\<rparr>)"
| recv: "\<lbrakk>hw_panic s = None; c < length (hw_chans s); ch_buf (hw_chans s ! c) = event # rest\<rbrakk> \<Longrightarrow>
   hub_step s (s\<lparr>hw_chans := (hw_chans s)[c := (hw_chans s ! c)\<lparr>ch_buf := rest\<rparr>],
     hw_received := (hw_received s)[c := hw_received s ! c @ [event]]\<rparr>)"
| publish: "\<lbrakk>hw_panic s = None; hw_pub s = None;
     hw_published s = [] \<or> we_Revision (last (hw_published s)) < we_Revision event;
     publish_record (hw_hub s) event = (h, watchers)\<rbrakk> \<Longrightarrow>
   hub_step s (s\<lparr>hw_hub := h, hw_pub := Some (event, watchers, []), hw_published := hw_published s @ [event]\<rparr>)"
| send: "\<lbrakk>hw_panic s = None; hw_pub s = Some (event, before @ target # after, slow);
     publish_send (hw_chans s) event target slow = Inr (cs, slow')\<rbrakk> \<Longrightarrow>
   hub_step s (s\<lparr>hw_chans := cs, hw_pub := Some (event, before @ after, slow')\<rparr>)"
| send_panic: "\<lbrakk>hw_panic s = None; hw_pub s = Some (event, before @ target # after, slow);
     publish_send (hw_chans s) event target slow = Inl p\<rbrakk> \<Longrightarrow>
   hub_step s (s\<lparr>hw_panic := Some p\<rparr>)"
| finish: "\<lbrakk>hw_panic s = None; hw_pub s = Some (event, [], slow);
     publish_drop (hw_hub s) (hw_chans s) slow = Inr (h, cs)\<rbrakk> \<Longrightarrow>
   hub_step s (s\<lparr>hw_hub := h, hw_chans := cs, hw_pub := None\<rparr>)"
| finish_panic: "\<lbrakk>hw_panic s = None; hw_pub s = Some (event, [], slow);
     publish_drop (hw_hub s) (hw_chans s) slow = Inl p\<rbrakk> \<Longrightarrow>
   hub_step s (s\<lparr>hw_panic := Some p\<rparr>)"

inductive hub_reachable :: "hub_world \<Rightarrow> bool" where
  hub_init: "hub_reachable hub_init"
| hub_next: "hub_reachable s \<Longrightarrow> hub_step s s' \<Longrightarrow> hub_reachable s'"

end
