(* ===== verification/Watch_Correct.thy ===== *)
theory Watch_Correct
  imports Registry_Watch
begin

text \<open>
  Correctness of the watch hub: the replay, the invariant of the interleaved world (by rule induction over \<open>hub_reachable\<close>),
  the exactly-once property it gives, and the one panic that is reachable.
\<close>


subsection \<open>Replay\<close>

abbreviation revs :: "WatchEvent list \<Rightarrow> u64 list" where
  "revs es \<equiv> map we_Revision es"

text \<open>The history is the end of what was published.\<close>

definition history_of :: "WatchEvent list \<Rightarrow> WatchEvent list" where
  "history_of es = drop (length es - 2048) es"

lemma history_append:
  "wh_history h = history_of es \<Longrightarrow> wh_history (appendHistoryLocked h e) = history_of (es @ [e])"
proof -
  assume "wh_history h = history_of es"
  moreover have "Suc (length es - 2048) = length es - 2047" if "2047 < length es - (length es - 2048)" using that by linarith
  ultimately show ?thesis by (auto simp: appendHistoryLocked_def history_of_def Let_def)
qed

text \<open>An exact replay has every event after the given revision, also those that have left the history.\<close>

lemma replay_complete:
  assumes h: "wh_history h = history_of es" and sorted: "sorted_wrt (<) (revs es)"
    and run: "replaySinceLocked h since = (replay, True)"
  shows "replay = filter (\<lambda>e. we_Revision e > since) es"
proof -
  let ?old = "take (length es - 2048) es" and ?new = "history_of es"
  have es: "es = ?old @ ?new" by (simp add: history_of_def)
  have ne: "?new \<noteq> []" using run h by (auto simp: replaySinceLocked_def split: if_splits)
  have low: "we_Revision e < we_Revision x" if "e \<in> set ?old" "x \<in> set ?new" for e x
  proof -
    have "sorted_wrt (<) (revs (?old @ ?new))" using sorted es by simp
    with that show ?thesis by (auto simp: sorted_wrt_append)
  qed
  have snew: "sorted_wrt (<) (revs ?new)" using sorted es by (metis map_append sorted_wrt_append)
  consider "since > we_Revision (last ?new)" "replay = []"
    | "\<not> since > we_Revision (last ?new)" "\<not> since + 1 < we_Revision (hd ?new)" "replay = filter (\<lambda>e. we_Revision e > since) ?new"
    using run h by (auto simp: replaySinceLocked_def Let_def split: if_splits)
  then show ?thesis
  proof cases
    case 1
    have "we_Revision e \<le> since" if e: "e \<in> set es" for e
    proof -
      have "we_Revision e \<le> we_Revision (last ?new)"
      proof (cases "e \<in> set ?new")
        case True
        obtain xs z where z: "?new = xs @ [z]" using ne by (cases ?new rule: rev_cases) auto
        have "sorted_wrt (<) (revs (xs @ [z]))" using snew by (simp only: z)
        with True show ?thesis unfolding z by (auto simp: sorted_wrt_append less_imp_le)
      next
        case False
        then have "e \<in> set ?old" using e es by (metis Un_iff set_append)
        with low last_in_set [OF ne] show ?thesis by (meson less_imp_le)
      qed
      with 1 show ?thesis by simp
    qed
    then have "filter (\<lambda>e. we_Revision e > since) es = []" by (auto simp: filter_empty_conv not_less)
    with 1 show ?thesis by simp
  next
    case 2
    have "we_Revision e \<le> since" if "e \<in> set ?old" for e
    proof -
      have "we_Revision e < we_Revision (hd ?new)" using low that hd_in_set [OF ne] by blast
      moreover have "we_Revision (hd ?new) \<le> since + 1" using 2(2) by simp
      ultimately have lt: "we_Revision e < since + 1" by (rule less_le_trans)
      show ?thesis
      proof (rule ccontr)
        assume "\<not> ?thesis"
        then have "since < we_Revision e" by simp
        moreover from this have "unat since + 1 < 2 ^ 64"
          using unsigned_less [of "we_Revision e", where ?'a = nat] by (simp add: word_less_nat_alt)
        ultimately show False using lt by (simp add: word_less_nat_alt unat_word_ariths)
      qed
    qed
    then have "filter (\<lambda>e. we_Revision e > since) ?old = []" by (auto simp: filter_empty_conv not_less)
    then have "filter (\<lambda>e. we_Revision e > since) (?old @ ?new) = replay" using 2(3) by simp
    then show ?thesis using es by simp
  qed
qed

subsection \<open>Closing\<close>

definition watchers_ok :: "WatchHub \<Rightarrow> chan list \<Rightarrow> bool" where
  "watchers_ok h cs \<longleftrightarrow> distinct (map fst (wh_watchers h)) \<and> unat (wh_nextID h) = length cs \<and>
     (\<forall>sid c. map_of (wh_watchers h) sid = Some c \<longleftrightarrow>
        c < length cs \<and> \<not> ch_closed (cs ! c) \<and> sid = of_nat (Suc c))"

lemma sid_inject: "watchers_ok h cs \<Longrightarrow> c < length cs \<Longrightarrow> c' < length cs \<Longrightarrow>
    (of_nat (Suc c) = (of_nat (Suc c') :: u64)) \<longleftrightarrow> c = c'"
proof -
  assume "watchers_ok h cs" "c < length cs" "c' < length cs"
  moreover have "unat (wh_nextID h) < 2 ^ 64" using unsigned_less [of "wh_nextID h", where ?'a = nat] by simp
  ultimately have "Suc c < 2 ^ 64" "Suc c' < 2 ^ 64" by (auto simp: watchers_ok_def)
  then have "unat (of_nat (Suc c) :: u64) = Suc c" "unat (of_nat (Suc c') :: u64) = Suc c'"
    by (simp_all add: unat_of_nat del: of_nat_Suc)
  then show ?thesis by (metis Suc_inject)
qed

lemma unsubscribe_ok:
  assumes ok: "watchers_ok h cs"
  obtains h' cs' where "unsubscribe h cs sid = Inr (h', cs')" "watchers_ok h' cs'" "length cs' = length cs"
    "wh_history h' = wh_history h" "\<And>c. c < length cs \<Longrightarrow> ch_buf (cs' ! c) = ch_buf (cs ! c)"
    "\<And>c. c < length cs \<Longrightarrow> ch_closed (cs' ! c) \<longleftrightarrow> ch_closed (cs ! c) \<or> sid = of_nat (Suc c)"
proof (cases "map_of (wh_watchers h) sid")
  case None
  then have "ch_closed (cs ! c)" if "c < length cs" "sid = of_nat (Suc c)" for c
    using ok that unfolding watchers_ok_def by (metis option.distinct(1))
  with None show ?thesis using ok by (intro that [of h cs]) (auto simp: unsubscribe_def)
next
  case (Some c)
  then have c: "c < length cs" "\<not> ch_closed (cs ! c)" "sid = of_nat (Suc c)"
    using ok by (auto simp: watchers_ok_def simp del: of_nat_Suc)
  let ?h = "h\<lparr>wh_watchers := AList.delete sid (wh_watchers h)\<rparr>" and ?cs = "cs[c := (cs ! c)\<lparr>ch_closed := True\<rparr>]"
  have eq: "(of_nat (Suc c) = (of_nat (Suc c') :: u64)) \<longleftrightarrow> c = c'" if "c' < length cs" for c'
    using sid_inject [OF ok c(1) that] .
  have "map_of (wh_watchers ?h) sid' = Some c' \<longleftrightarrow> c' < length ?cs \<and> \<not> ch_closed (?cs ! c') \<and> sid' = of_nat (Suc c')" for sid' c'
    using ok eq c by (auto simp: delete_conv' watchers_ok_def nth_list_update simp del: of_nat_Suc)
  then have "watchers_ok ?h ?cs"
    using ok by (simp add: watchers_ok_def distinct_delete del: of_nat_Suc)
  moreover have "unsubscribe h cs sid = Inr (?h, ?cs)"
    using Some c(2) by (simp add: unsubscribe_def close_chan_def)
  ultimately show ?thesis
    using c eq by (intro that [of ?h ?cs]) (auto simp: nth_list_update simp del: of_nat_Suc)
qed

lemma publish_drop_ok:
  assumes "watchers_ok h cs"
  obtains h' cs' where "publish_drop h cs slow = Inr (h', cs')" "watchers_ok h' cs'" "length cs' = length cs"
    "wh_history h' = wh_history h" "\<And>c. c < length cs \<Longrightarrow> ch_buf (cs' ! c) = ch_buf (cs ! c)"
    "\<And>c. c < length cs \<Longrightarrow> ch_closed (cs' ! c) \<longleftrightarrow> ch_closed (cs ! c) \<or> of_nat (Suc c) \<in> set slow"
  using assms
proof (induction slow arbitrary: h cs thesis)
  case Nil
  then show ?case by simp
next
  case (Cons sid slow)
  obtain h1 cs1 where 1: "unsubscribe h cs sid = Inr (h1, cs1)" "watchers_ok h1 cs1" "length cs1 = length cs"
    "wh_history h1 = wh_history h" "\<And>c. c < length cs \<Longrightarrow> ch_buf (cs1 ! c) = ch_buf (cs ! c)"
    "\<And>c. c < length cs \<Longrightarrow> ch_closed (cs1 ! c) \<longleftrightarrow> ch_closed (cs ! c) \<or> sid = of_nat (Suc c)"
    by (rule unsubscribe_ok [OF Cons.prems(2), of sid]) blast
  obtain h2 cs2 where 2: "publish_drop h1 cs1 slow = Inr (h2, cs2)" "watchers_ok h2 cs2" "length cs2 = length cs1"
    "wh_history h2 = wh_history h1" "\<And>c. c < length cs1 \<Longrightarrow> ch_buf (cs2 ! c) = ch_buf (cs1 ! c)"
    "\<And>c. c < length cs1 \<Longrightarrow> ch_closed (cs2 ! c) \<longleftrightarrow> ch_closed (cs1 ! c) \<or> of_nat (Suc c) \<in> set slow"
    by (rule Cons.IH [OF _ 1(2)]) blast
  show ?case
    by (rule Cons.prems(1) [of h2 cs2]) (use 1 2 in \<open>auto simp del: of_nat_Suc\<close>)
qed


subsection \<open>The invariant\<close>

text \<open>What a channel has delivered or holds, and what the publisher still has for it.\<close>

definition stream :: "hub_world \<Rightarrow> nat \<Rightarrow> WatchEvent list" where
  "stream s c = hw_received s ! c @ ch_buf (hw_chans s ! c)"

definition waiting :: "hub_world \<Rightarrow> nat \<Rightarrow> WatchEvent list" where
  "waiting s c = (case hw_pub s of None \<Rightarrow> []
     | Some (e, rest, slow) \<Rightarrow> if c \<in> snd ` set rest \<or> of_nat (Suc c) \<in> set slow then [e] else [])"

definition pub_ok :: "hub_world \<Rightarrow> bool" where
  "pub_ok s \<longleftrightarrow> (case hw_pub s of None \<Rightarrow> True | Some (e, rest, slow) \<Rightarrow>
     distinct (map fst rest @ slow) \<and>
     (\<forall>(sid, c) \<in> set rest. sid = of_nat (Suc c) \<and> c < length (hw_chans s)) \<and>
     (\<forall>sid \<in> set slow. \<exists>c < length (hw_chans s). sid = of_nat (Suc c)))"

definition chan_ok :: "hub_world \<Rightarrow> nat \<Rightarrow> bool" where
  "chan_ok s c \<longleftrightarrow> hw_start s ! c \<le> length (hw_published s) \<and>
     (if ch_closed (hw_chans s ! c) then prefix (stream s c) (drop (hw_start s ! c) (hw_published s))
      else stream s c @ waiting s c = drop (hw_start s ! c) (hw_published s))"

definition sub_ok :: "hub_world \<Rightarrow> nat \<Rightarrow> bool" where
  "sub_ok s c \<longleftrightarrow> (case hw_subs s ! c of (since, replay, exact) \<Rightarrow>
     exact \<longrightarrow> replay = filter (\<lambda>e. we_Revision e > since) (take (hw_start s ! c) (hw_published s)))"

definition hub_inv :: "hub_world \<Rightarrow> bool" where
  "hub_inv s \<longleftrightarrow> watchers_ok (hw_hub s) (hw_chans s) \<and> wh_history (hw_hub s) = history_of (hw_published s) \<and>
     sorted_wrt (<) (revs (hw_published s)) \<and> length (hw_received s) = length (hw_chans s) \<and>
     length (hw_start s) = length (hw_chans s) \<and> length (hw_subs s) = length (hw_chans s) \<and>
     pub_ok s \<and> (\<forall>c < length (hw_chans s). chan_ok s c \<and> sub_ok s c)"

lemma hub_invI:
  assumes "watchers_ok (hw_hub s) (hw_chans s)" "wh_history (hw_hub s) = history_of (hw_published s)"
    "sorted_wrt (<) (revs (hw_published s))" "length (hw_received s) = length (hw_chans s)"
    "length (hw_start s) = length (hw_chans s)" "length (hw_subs s) = length (hw_chans s)" "pub_ok s"
    "\<And>c. c < length (hw_chans s) \<Longrightarrow> chan_ok s c" "\<And>c. c < length (hw_chans s) \<Longrightarrow> sub_ok s c"
  shows "hub_inv s"
  using assms by (simp add: hub_inv_def)

lemma hub_inv_init: "hub_inv hub_init"
  by (simp add: hub_inv_def hub_init_def watchers_ok_def NewWatchHub_def history_of_def pub_ok_def)

lemma chan_prefix: "chan_ok s c \<Longrightarrow> prefix (stream s c) (drop (hw_start s ! c) (hw_published s))"
  unfolding chan_ok_def by (metis prefixI)

text \<open>Closing channels keeps the rest.\<close>

lemma close_keeps:
  assumes inv: "hub_inv s" and ok: "watchers_ok h cs" and len: "length cs = length (hw_chans s)"
    and hist: "wh_history h = wh_history (hw_hub s)"
    and buf: "\<And>c. c < length (hw_chans s) \<Longrightarrow> ch_buf (cs ! c) = ch_buf (hw_chans s ! c)"
    and cl: "\<And>c. c < length (hw_chans s) \<Longrightarrow> ch_closed (cs ! c) \<longleftrightarrow> ch_closed (hw_chans s ! c) \<or> gone c"
    and pub: "p = hw_pub s \<or> p = None \<and> (\<forall>c < length (hw_chans s). \<not> gone c \<longrightarrow> waiting s c = [])"
  shows "hub_inv (s\<lparr>hw_hub := h, hw_chans := cs, hw_pub := p\<rparr>)"
proof (rule hub_invI)
  let ?s = "s\<lparr>hw_hub := h, hw_chans := cs, hw_pub := p\<rparr>"
  fix c assume "c < length (hw_chans ?s)"
  then have c: "c < length (hw_chans s)" using len by simp
  have st: "stream ?s c = stream s c" using buf [OF c] by (simp add: stream_def)
  have w: "waiting ?s c = waiting s c" if "\<not> gone c" using pub c that by (auto simp: waiting_def)
  have "chan_ok s c" using inv c by (simp add: hub_inv_def)
  then show "chan_ok ?s c" using st w cl [OF c] chan_prefix [of s c] by (auto simp: chan_ok_def split: if_splits)
  show "sub_ok ?s c" using inv c by (simp add: hub_inv_def sub_ok_def)
next
  show "pub_ok (s\<lparr>hw_hub := h, hw_chans := cs, hw_pub := p\<rparr>)"
    using inv pub len by (auto simp: hub_inv_def pub_ok_def split: option.splits)
qed (use inv ok hist len in \<open>simp_all add: hub_inv_def\<close>)

lemma step_unsub:
  assumes "hub_inv s" "unsubscribe (hw_hub s) (hw_chans s) sid = Inr (h, cs)"
  shows "hub_inv (s\<lparr>hw_hub := h, hw_chans := cs\<rparr>)"
proof -
  have "watchers_ok (hw_hub s) (hw_chans s)" using assms(1) by (simp add: hub_inv_def)
  from unsubscribe_ok [OF this, of sid] assms(2)
  have "watchers_ok h cs" "length cs = length (hw_chans s)" "wh_history h = wh_history (hw_hub s)"
    "\<And>c. c < length (hw_chans s) \<Longrightarrow> ch_buf (cs ! c) = ch_buf (hw_chans s ! c)"
    "\<And>c. c < length (hw_chans s) \<Longrightarrow> ch_closed (cs ! c) \<longleftrightarrow> ch_closed (hw_chans s ! c) \<or> sid = of_nat (Suc c)"
    by (metis Inr_inject Pair_inject)+
  from close_keeps [OF assms(1) this, of "hw_pub s"] show ?thesis by simp
qed

lemma step_finish:
  assumes inv: "hub_inv s" and pub: "hw_pub s = Some (e, [], slow)"
    and run: "publish_drop (hw_hub s) (hw_chans s) slow = Inr (h, cs)"
  shows "hub_inv (s\<lparr>hw_hub := h, hw_chans := cs, hw_pub := None\<rparr>)"
proof -
  have ok: "watchers_ok (hw_hub s) (hw_chans s)" using inv by (simp add: hub_inv_def)
  from publish_drop_ok [OF ok, of slow] run
  have "watchers_ok h cs" "length cs = length (hw_chans s)" "wh_history h = wh_history (hw_hub s)"
    "\<And>c. c < length (hw_chans s) \<Longrightarrow> ch_buf (cs ! c) = ch_buf (hw_chans s ! c)"
    "\<And>c. c < length (hw_chans s) \<Longrightarrow> ch_closed (cs ! c) \<longleftrightarrow> ch_closed (hw_chans s ! c) \<or> of_nat (Suc c) \<in> set slow"
    by (metis Inr_inject Pair_inject)+
  from close_keeps [OF inv this, of None] pub show ?thesis by (simp add: waiting_def del: of_nat_Suc)
qed


lemma waiting_publish:
  assumes "watchers_ok h cs" "c < length cs"
  shows "c \<in> snd ` set (wh_watchers h) \<longleftrightarrow> \<not> ch_closed (cs ! c)"
proof -
  have "c \<in> snd ` set (wh_watchers h) \<longleftrightarrow> (\<exists>sid. map_of (wh_watchers h) sid = Some c)"
    using assms(1) by (force simp: watchers_ok_def)
  also have "\<dots> \<longleftrightarrow> \<not> ch_closed (cs ! c)" using assms by (simp add: watchers_ok_def)
  finally show ?thesis .
qed

lemma step_publish:
  assumes inv: "hub_inv s" and pub: "hw_pub s = None"
    and rev: "hw_published s = [] \<or> we_Revision (last (hw_published s)) < we_Revision e"
    and run: "publish_record (hw_hub s) e = (h, watchers)"
  shows "hub_inv (s\<lparr>hw_hub := h, hw_pub := Some (e, watchers, []), hw_published := hw_published s @ [e]\<rparr>)"
proof (rule hub_invI)
  let ?s = "s\<lparr>hw_hub := h, hw_pub := Some (e, watchers, []), hw_published := hw_published s @ [e]\<rparr>"
  have ok: "watchers_ok (hw_hub s) (hw_chans s)" using inv by (simp add: hub_inv_def)
  have h: "h = appendHistoryLocked (hw_hub s) e" "watchers = wh_watchers (hw_hub s)"
    using run by (auto simp: publish_record_def)
  have same: "wh_watchers h = wh_watchers (hw_hub s)" "wh_nextID h = wh_nextID (hw_hub s)"
    by (simp_all add: h appendHistoryLocked_def Let_def)
  show "watchers_ok (hw_hub ?s) (hw_chans ?s)" using ok same by (simp add: watchers_ok_def)
  show "wh_history (hw_hub ?s) = history_of (hw_published ?s)"
    using inv by (simp add: h hub_inv_def history_append)
  show "sorted_wrt (<) (revs (hw_published ?s))"
  proof (cases "hw_published s" rule: rev_cases)
    case (snoc xs x)
    then show ?thesis using inv rev by (fastforce simp: hub_inv_def sorted_wrt_append)
  qed simp
  have mem: "map_of watchers sid = Some c" if "(sid, c) \<in> set watchers" for sid c
    using ok that h by (simp add: watchers_ok_def)
  show "pub_ok ?s" using ok mem h by (auto simp: pub_ok_def watchers_ok_def simp del: of_nat_Suc)
  fix c assume "c < length (hw_chans ?s)"
  then have c: "c < length (hw_chans s)" by simp
  have old: "chan_ok s c" "sub_ok s c" using inv c by (simp_all add: hub_inv_def)
  have w: "waiting s c = []" using pub by (simp add: waiting_def)
  have w': "waiting ?s c = (if ch_closed (hw_chans s ! c) then [] else [e])"
    using waiting_publish [OF ok c] h by (simp add: waiting_def)
  show "chan_ok ?s c" using old(1) w w' chan_prefix [OF old(1)]
    by (auto simp: chan_ok_def stream_def split: if_splits)
  show "sub_ok ?s c" using old by (auto simp: sub_ok_def chan_ok_def split: prod.splits)
qed (use inv in \<open>simp_all add: hub_inv_def\<close>)

lemma step_recv:
  assumes inv: "hub_inv s" and c: "c < length (hw_chans s)" "ch_buf (hw_chans s ! c) = e # rest"
  shows "hub_inv (s\<lparr>hw_chans := (hw_chans s)[c := (hw_chans s ! c)\<lparr>ch_buf := rest\<rparr>],
     hw_received := (hw_received s)[c := hw_received s ! c @ [e]]\<rparr>)"
proof (rule hub_invI)
  let ?s = "s\<lparr>hw_chans := (hw_chans s)[c := (hw_chans s ! c)\<lparr>ch_buf := rest\<rparr>],
     hw_received := (hw_received s)[c := hw_received s ! c @ [e]]\<rparr>"
  have cl: "ch_closed (hw_chans ?s ! c') = ch_closed (hw_chans s ! c')" for c'
    by (cases "c' = c") (use c in \<open>auto simp: nth_list_update\<close>)
  have "watchers_ok (hw_hub s) (hw_chans s)" using inv by (simp add: hub_inv_def)
  then show "watchers_ok (hw_hub ?s) (hw_chans ?s)" using cl by (simp add: watchers_ok_def del: of_nat_Suc)
  show "pub_ok ?s" using inv by (auto simp: hub_inv_def pub_ok_def split: option.splits)
  fix c' assume "c' < length (hw_chans ?s)"
  then have c': "c' < length (hw_chans s)" by simp
  have "stream ?s c' = stream s c'" "waiting ?s c' = waiting s c'"
    using inv c c' by (auto simp: stream_def waiting_def nth_list_update hub_inv_def)
  then show "chan_ok ?s c'" using inv c' cl by (simp add: hub_inv_def chan_ok_def)
  show "sub_ok ?s c'" using inv c' by (simp add: hub_inv_def sub_ok_def)
qed (use inv in \<open>simp_all add: hub_inv_def\<close>)


lemma pub_ok_longer:
  assumes "pub_ok s" "hw_pub s' = hw_pub s" "length (hw_chans s) \<le> length (hw_chans s')"
  shows "pub_ok s'"
proof (cases "hw_pub s")
  case None
  then show ?thesis using assms(2) by (simp add: pub_ok_def)
next
  case (Some p)
  obtain e rest slow where p: "p = (e, rest, slow)" by (cases p)
  have "c < length (hw_chans s) \<Longrightarrow> c < length (hw_chans s')" for c using assms(3) by simp
  then show ?thesis
    using assms(1) unfolding pub_ok_def assms(2) Some p option.case prod.case by fast
qed

lemma step_sub:
  assumes inv: "hub_inv s" and room: "length (hw_chans s) + 1 < 2 ^ 64"
    and run: "SubscribeSince (hw_hub s) (hw_chans s) buffer since = ((h, cs), sid, c0, replay, exact)"
  shows "hub_inv (s\<lparr>hw_hub := h, hw_chans := cs, hw_received := hw_received s @ [[]],
     hw_start := hw_start s @ [length (hw_published s)], hw_subs := hw_subs s @ [(since, replay, exact)]\<rparr>)"
proof (rule hub_invI)
  let ?s = "s\<lparr>hw_hub := h, hw_chans := cs, hw_received := hw_received s @ [[]],
     hw_start := hw_start s @ [length (hw_published s)], hw_subs := hw_subs s @ [(since, replay, exact)]\<rparr>"
  let ?n = "length (hw_chans s)"
  obtain ch where cs: "cs = hw_chans s @ [ch]" "ch_buf ch = []" "\<not> ch_closed ch" and sid: "sid = wh_nextID (hw_hub s) + 1"
    and h: "h = (hw_hub s)\<lparr>wh_nextID := sid, wh_watchers := AList.update sid ?n (wh_watchers (hw_hub s))\<rparr>"
    and rep: "replaySinceLocked h since = (replay, exact)"
    using run by (auto simp: SubscribeSince_def Let_def split: prod.splits)
  have ok: "watchers_ok (hw_hub s) (hw_chans s)" using inv by (simp add: hub_inv_def)
  then have next_id: "wh_nextID (hw_hub s) = of_nat ?n" using room by (simp add: watchers_ok_def word_unat_eq_iff unat_of_nat)
  have sid': "sid = of_nat (Suc ?n)" using sid next_id by simp
  have uid: "unat sid = Suc ?n" using room unfolding sid' by (simp add: unat_of_nat del: of_nat_Suc)
  have neq: "sid \<noteq> of_nat (Suc c)" if "c < ?n" for c
  proof -
    have "unat (of_nat (Suc c) :: u64) = Suc c" using that room by (simp add: unat_of_nat del: of_nat_Suc)
    then show ?thesis using uid that by (metis Suc_inject less_irrefl)
  qed
  have "map_of (AList.update sid ?n (wh_watchers (hw_hub s))) i = Some c \<longleftrightarrow>
      c < Suc ?n \<and> \<not> ch_closed (cs ! c) \<and> i = of_nat (Suc c)" for i c
    using ok neq cs sid' by (auto simp: update_conv' watchers_ok_def nth_append less_Suc_eq simp del: of_nat_Suc)
  then show "watchers_ok (hw_hub ?s) (hw_chans ?s)"
    using ok cs uid by (simp add: h watchers_ok_def distinct_update del: of_nat_Suc)
  have pub: "pub_ok s" using inv by (simp add: hub_inv_def)
  then show "pub_ok ?s" by (rule pub_ok_longer) (simp_all add: cs(1))
  show hist: "wh_history (hw_hub ?s) = history_of (hw_published ?s)" using inv by (simp add: hub_inv_def h)
  have "waiting s ?n = []"
  proof -
    have "of_nat (Suc ?n) \<noteq> (of_nat (Suc c) :: u64)" if "c < ?n" for c using neq [OF that] sid' by simp
    with pub show ?thesis by (fastforce simp: waiting_def pub_ok_def split: option.splits simp del: of_nat_Suc)
  qed
  moreover have wt: "waiting ?s c = waiting s c" for c by (simp add: waiting_def)
  ultimately have new: "waiting ?s ?n = []" "stream ?s ?n = []" using inv cs by (simp_all add: stream_def hub_inv_def nth_append)
  fix c assume "c < length (hw_chans ?s)"
  then consider "c = ?n" | "c < ?n" using cs by fastforce
  then show "chan_ok ?s c"
  proof cases
    case 1
    then show ?thesis using new inv cs by (simp add: chan_ok_def hub_inv_def nth_append)
  next
    case 2
    then have "stream ?s c = stream s c" using inv cs by (simp add: stream_def hub_inv_def nth_append)
    then show ?thesis using 2 inv cs wt by (simp add: chan_ok_def hub_inv_def nth_append)
  qed
  show "sub_ok ?s c"
  proof (cases "c = ?n")
    case True
    have "sorted_wrt (<) (revs (hw_published s))" using inv by (simp add: hub_inv_def)
    then show ?thesis using replay_complete [of h "hw_published s" since replay] hist rep True inv
      by (auto simp: sub_ok_def hub_inv_def nth_append)
  next
    case False
    then have "c < ?n" using \<open>c < length (hw_chans ?s)\<close> cs by simp
    then show ?thesis using inv by (simp add: sub_ok_def hub_inv_def nth_append)
  qed
qed (use inv run in \<open>auto simp: hub_inv_def SubscribeSince_def Let_def split: prod.splits\<close>)

lemma step_send:
  assumes inv: "hub_inv s" and pub: "hw_pub s = Some (e, before @ target # after, slow)"
    and run: "publish_send (hw_chans s) e target slow = Inr (cs, slow')"
  shows "hub_inv (s\<lparr>hw_chans := cs, hw_pub := Some (e, before @ after, slow')\<rparr>)"
proof (rule hub_invI)
  let ?s = "s\<lparr>hw_chans := cs, hw_pub := Some (e, before @ after, slow')\<rparr>"
  obtain sid t where t: "target = (sid, t)" by force
  have ok: "watchers_ok (hw_hub s) (hw_chans s)" using inv by (simp add: hub_inv_def)
  have p: "distinct (map fst (before @ target # after) @ slow)" "sid = of_nat (Suc t)" "t < length (hw_chans s)"
    "\<forall>(i, c) \<in> set (before @ after). i = of_nat (Suc c) \<and> c < length (hw_chans s)"
    "\<forall>i \<in> set slow. \<exists>c < length (hw_chans s). i = of_nat (Suc c)"
    using inv pub t by (auto simp: hub_inv_def pub_ok_def simp del: of_nat_Suc)
  let ?sent = "length (ch_buf (hw_chans s ! t)) < ch_cap (hw_chans s ! t)"
  have open_t: "\<not> ch_closed (hw_chans s ! t)" using run t by (auto simp: publish_send_def try_send_def split: if_splits)
  have res: "cs = (if ?sent then (hw_chans s)[t := (hw_chans s ! t)\<lparr>ch_buf := ch_buf (hw_chans s ! t) @ [e]\<rparr>] else hw_chans s)"
    "slow' = (if ?sent then slow else slow @ [sid])"
    using run t open_t by (auto simp: publish_send_def try_send_def split: if_splits)
  have len: "length cs = length (hw_chans s)" by (simp add: res)
  have cl: "ch_closed (cs ! c) = ch_closed (hw_chans s ! c)" for c
    by (cases "c = t") (use p(3) in \<open>auto simp: res nth_list_update\<close>)
  show "watchers_ok (hw_hub ?s) (hw_chans ?s)" using ok cl len by (simp add: watchers_ok_def del: of_nat_Suc)
  show "pub_ok ?s" using p t len res(2) by (auto simp: pub_ok_def simp del: of_nat_Suc)
  fix c assume "c < length (hw_chans ?s)"
  then have c: "c < length (hw_chans s)" using len by simp
  have inj: "(of_nat (Suc c) = (of_nat (Suc t) :: u64)) \<longleftrightarrow> c = t" using sid_inject [OF ok c p(3)] .
  have "t \<notin> snd ` set (before @ after)"
  proof
    assume "t \<in> snd ` set (before @ after)"
    then obtain i where "(i, t) \<in> set (before @ after)" by force
    moreover from this have "i = sid" using p(2,4) by auto
    ultimately have "sid \<in> fst ` set (before @ after)" by force
    then show False using p(1) t by auto
  qed
  moreover have "sid \<notin> set slow" using p(1) t by auto
  ultimately have not_t: "t \<notin> snd ` set (before @ after)" "sid \<notin> set slow" .
  have "stream ?s c @ waiting ?s c = stream s c @ waiting s c"
  proof (cases "c = t")
    case True
    then show ?thesis
      using not_t t p(2,3) pub res by (auto simp: stream_def waiting_def simp del: of_nat_Suc)
  next
    case False
    then have "waiting ?s c = waiting s c" using pub t p(2) inj res(2) by (auto simp: waiting_def simp del: of_nat_Suc)
    then show ?thesis using False res(1) by (auto simp: stream_def)
  qed
  moreover have "stream ?s c = stream s c" if "ch_closed (cs ! c)"
  proof -
    have "c \<noteq> t" using that open_t cl by auto
    then show ?thesis using res(1) by (auto simp: stream_def)
  qed
  ultimately show "chan_ok ?s c" using inv c cl by (auto simp: hub_inv_def chan_ok_def)
  show "sub_ok ?s c" using inv c by (simp add: hub_inv_def sub_ok_def)
qed (use inv run in \<open>auto simp: hub_inv_def publish_send_def try_send_def split: if_splits\<close>)


inductive_cases hub_stepE: "hub_step s s'"

lemma hub_step_panic: "hub_step s s' \<Longrightarrow> hw_panic s = None"
  by (cases rule: hub_step.cases) auto

text \<open>The invariant holds as long as nothing has panicked, and the only panic there is comes from a send.\<close>

lemma hub_step_inv:
  assumes inv: "hub_inv s" and step: "hub_step s s'"
  shows "if hw_panic s' = None then hub_inv s' else hw_panic s' = Some SendOnClosed"
proof -
  have ok: "watchers_ok (hw_hub s) (hw_chans s)" using inv by (simp add: hub_inv_def)
  show ?thesis
    using step
  proof cases
    case sub
    then show ?thesis using step_sub [OF inv] by simp
  next
    case unsub
    then show ?thesis using step_unsub [OF inv] by simp
  next
    case (unsub_panic sid p)
    obtain h cs where "unsubscribe (hw_hub s) (hw_chans s) sid = Inr (h, cs)" by (rule unsubscribe_ok [OF ok, of sid])
    with unsub_panic show ?thesis by simp
  next
    case recv
    then show ?thesis using step_recv [OF inv] by simp
  next
    case publish
    then show ?thesis using step_publish [OF inv] by simp
  next
    case send
    then show ?thesis using step_send [OF inv] by simp
  next
    case send_panic
    then show ?thesis by (auto simp: publish_send_def try_send_def split: if_splits)
  next
    case finish
    then show ?thesis using step_finish [OF inv] by simp
  next
    case (finish_panic e slow p)
    obtain h cs where "publish_drop (hw_hub s) (hw_chans s) slow = Inr (h, cs)" by (rule publish_drop_ok [OF ok, of slow])
    with finish_panic show ?thesis by simp
  qed
qed

lemma reachable_inv:
  "hub_reachable s \<Longrightarrow> if hw_panic s = None then hub_inv s else hw_panic s = Some SendOnClosed"
proof (induction rule: hub_reachable.induct)
  case hub_init
  then show ?case using hub_inv_init by (simp add: hub_init_def)
next
  case (hub_next s s')
  then show ?case using hub_step_inv hub_step_panic by simp
qed

text \<open>C14. A watcher sees every event exactly once. However subscriptions, cancellations, receives and the parts of
  \<open>Publish\<close> interleave, a subscription that is told its replay is exact gets, as replay followed by what its channel
  has delivered, holds or is about to be sent, the events published before it that are newer than the revision it asked for and
  then all events published since, in order and without repetition. A channel that has been closed
  has delivered and holds a beginning of that sequence.\<close>

theorem watch_exactly_once:
  assumes "hub_reachable s" "hw_panic s = None" "c < length (hw_chans s)" "hw_subs s ! c = (since, replay, True)"
  shows "let before = take (hw_start s ! c) (hw_published s); after = drop (hw_start s ! c) (hw_published s);
      all = filter (\<lambda>e. we_Revision e > since) before @ after in
    distinct all \<and>
    (if ch_closed (hw_chans s ! c) then prefix (replay @ stream s c) all
     else replay @ stream s c @ waiting s c = all)"
proof -
  have inv: "hub_inv s" using reachable_inv [OF assms(1)] assms(2) by simp
  then have "replay = filter (\<lambda>e. we_Revision e > since) (take (hw_start s ! c) (hw_published s))"
    and ch: "chan_ok s c"
    using assms(3,4) by (auto simp: hub_inv_def sub_ok_def)
  moreover have "distinct (hw_published s)"
  proof -
    have "distinct (revs (hw_published s))" using inv by (simp add: hub_inv_def strict_sorted_iff)
    then show ?thesis by (simp add: distinct_map)
  qed
  then have "distinct (filter (\<lambda>e. we_Revision e > since) (take (hw_start s ! c) (hw_published s)) @
      drop (hw_start s ! c) (hw_published s))"
    using set_take_disj_set_drop_if_distinct [of "hw_published s" "hw_start s ! c"] by auto
  ultimately show ?thesis by (simp add: Let_def chan_ok_def)
qed


subsection \<open>Runs for the examples\<close>

definition sample_event :: "u64 \<Rightarrow> WatchEvent" where
  "sample_event r = \<lparr>we_Revision = r, we_Type = WatchEventDelete, we_Namespace = ''prod'', we_Service = ''order'',
     we_InstanceID = ''i1'', we_Value = None\<rparr>"

text \<open>Adding a watcher to a world that has no publisher, and publishing in it.\<close>

lemma reach_sub:
  assumes "hub_reachable s" "hw_panic s = None" "length (hw_chans s) + 1 < 2 ^ 64"
    "SubscribeSince (hw_hub s) (hw_chans s) buffer since = ((h, cs), sid, c, replay, exact)"
  shows "hub_reachable (s\<lparr>hw_hub := h, hw_chans := cs, hw_received := hw_received s @ [[]],
     hw_start := hw_start s @ [length (hw_published s)], hw_subs := hw_subs s @ [(since, replay, exact)]\<rparr>)"
  by (rule hub_next [OF assms(1) sub [OF assms(2-4)]])

lemma reach_loop:
  assumes "hub_reachable s" "hw_panic s = None" "hw_pub s = Some (e, rest, slow)" "set rest \<subseteq> set (wh_watchers (hw_hub s))"
  shows "\<exists>cs slow'. publish_loop (hw_chans s) e rest slow = Inr (cs, slow') \<and>
     hub_reachable (s\<lparr>hw_chans := cs, hw_pub := Some (e, [], slow')\<rparr>)"
  using assms
proof (induction rest arbitrary: s slow)
  case Nil
  have "s\<lparr>hw_chans := hw_chans s, hw_pub := Some (e, [], slow)\<rparr> = s" using Nil.prems(3) by (cases s) simp
  then show ?case using Nil.prems(1) by (intro exI [of _ "hw_chans s"] exI [of _ slow]) (simp only: publish_loop.simps simp_thms)
next
  case (Cons t rest)
  have "watchers_ok (hw_hub s) (hw_chans s)" using reachable_inv [OF Cons.prems(1)] Cons.prems(2) by (simp add: hub_inv_def)
  moreover obtain sid c where t: "t = (sid, c)" by force
  ultimately have "\<not> ch_closed (hw_chans s ! c)" using Cons.prems(4) by (auto simp: watchers_ok_def)
  then have "\<exists>cs slow1. publish_send (hw_chans s) e t slow = Inr (cs, slow1)"
    using t by (auto simp add: publish_send_def try_send_def)
  then obtain cs slow1 where send: "publish_send (hw_chans s) e t slow = Inr (cs, slow1)" by blast
  let ?s = "s\<lparr>hw_chans := cs, hw_pub := Some (e, rest, slow1)\<rparr>"
  have "hub_reachable ?s"
    using hub_next [OF Cons.prems(1) hub_step.send [where before = "[]"]] Cons.prems(2,3) send by simp
  from Cons.IH [OF this] Cons.prems(2,4) send show ?case by simp
qed

lemma publish_alone:
  assumes "hub_reachable s" "hw_panic s = None" "hw_pub s = None"
    "hw_published s = [] \<or> we_Revision (last (hw_published s)) < we_Revision e"
  shows "\<exists>h cs. Publish (hw_hub s) (hw_chans s) e = Inr (h, cs) \<and>
     hub_reachable (s\<lparr>hw_hub := h, hw_chans := cs, hw_published := hw_published s @ [e]\<rparr>)"
proof -
  let ?w = "wh_watchers (hw_hub s)" and ?h = "appendHistoryLocked (hw_hub s) e"
  let ?s = "s\<lparr>hw_hub := ?h, hw_pub := Some (e, ?w, []), hw_published := hw_published s @ [e]\<rparr>"
  have r1: "hub_reachable ?s"
    by (rule hub_next [OF assms(1) publish [OF assms(2-4)]]) (simp add: publish_record_def)
  have "set ?w \<subseteq> set (wh_watchers (hw_hub ?s))" by (simp add: appendHistoryLocked_def Let_def)
  then obtain cs slow where loop: "publish_loop (hw_chans s) e ?w [] = Inr (cs, slow)"
    and r2: "hub_reachable (?s\<lparr>hw_chans := cs, hw_pub := Some (e, [], slow)\<rparr>)"
    using reach_loop [OF r1, of e ?w "[]"] assms(2) by auto
  have "watchers_ok ?h cs" using reachable_inv [OF r2] assms(2) by (simp add: hub_inv_def)
  then obtain h cs' where drop: "publish_drop ?h cs slow = Inr (h, cs')" by (rule publish_drop_ok)
  have "hub_reachable (?s\<lparr>hw_chans := cs, hw_pub := Some (e, [], slow)\<rparr>\<lparr>hw_hub := h, hw_chans := cs', hw_pub := None\<rparr>)"
    by (rule hub_next [OF r2 finish]) (use assms(2) drop in simp_all)
  moreover have "?s\<lparr>hw_chans := cs, hw_pub := Some (e, [], slow)\<rparr>\<lparr>hw_hub := h, hw_chans := cs', hw_pub := None\<rparr> =
      s\<lparr>hw_hub := h, hw_chans := cs', hw_published := hw_published s @ [e]\<rparr>"
    using assms(3) by (cases s) simp
  ultimately have "hub_reachable (s\<lparr>hw_hub := h, hw_chans := cs', hw_published := hw_published s @ [e]\<rparr>)" by metis
  moreover have "Publish (hw_hub s) (hw_chans s) e = Inr (h, cs')"
    using loop drop by (simp add: Publish_def publish_record_def)
  ultimately show ?thesis by blast
qed

text \<open>\<open>Publish\<close> alone never panics: from any reachable world in which nobody else runs meanwhile, it
  returns, for every order in which the watchers are visited, and the world it leaves is one that the steps of the hub reach.\<close>

theorem publish_alone_returns:
  assumes "hub_reachable s" "hw_panic s = None" "hw_pub s = None"
    "hw_published s = [] \<or> we_Revision (last (hw_published s)) < we_Revision e"
  shows "\<exists>h cs. Publish (hw_hub s) (hw_chans s) e = Inr (h, cs) \<and>
     hub_reachable (s\<lparr>hw_hub := h, hw_chans := cs, hw_published := hw_published s @ [e]\<rparr>)"
  by (rule publish_alone [OF assms])

theorem publish_alone_returns_witness:
  "\<exists>h cs. Publish NewWatchHub [] (sample_event 1) = Inr (h, cs) \<and>
     hub_reachable (hub_init\<lparr>hw_hub := h, hw_chans := cs, hw_published := [sample_event 1]\<rparr>)"
  using publish_alone_returns [OF hub_init, of "sample_event 1"] by (simp add: hub_init_def)

definition one_event :: hub_world where
  "one_event = hub_init\<lparr>hw_hub := NewWatchHub\<lparr>wh_history := [sample_event 1]\<rparr>, hw_published := [sample_event 1]\<rparr>"

lemma reach_one_event: "hub_reachable one_event"
  using publish_alone [OF hub_init, of "sample_event 1"]
  by (simp add: Publish_def publish_record_def appendHistoryLocked_def NewWatchHub_def one_event_def hub_init_def)

theorem watch_exactly_once_witness:
  "\<exists>s. hub_reachable s \<and> hw_subs s ! 0 = (1, [], True) \<and> stream s 0 @ waiting s 0 = []"
proof -
  obtain h cs sid c where run: "SubscribeSince (hw_hub one_event) (hw_chans one_event) 0 1 = ((h, cs), sid, c, [], True)"
    and cs: "length cs = 1" "\<not> ch_closed (cs ! 0)"
    by (simp add: SubscribeSince_def replaySinceLocked_def one_event_def hub_init_def NewWatchHub_def sample_event_def
        Let_def word_less_nat_alt)
  let ?s = "one_event\<lparr>hw_hub := h, hw_chans := cs, hw_received := hw_received one_event @ [[]],
     hw_start := hw_start one_event @ [length (hw_published one_event)], hw_subs := hw_subs one_event @ [(1, [], True)]\<rparr>"
  have e: "hw_panic one_event = None" "hw_chans one_event = []" "hw_subs one_event = []" "hw_start one_event = []"
    "hw_published one_event = [sample_event 1]"
    by (simp_all add: one_event_def hub_init_def)
  have r: "hub_reachable ?s" by (rule reach_sub [OF reach_one_event _ _ run]) (simp_all add: e)
  have s: "hw_subs ?s ! 0 = (1, [], True)" using e by simp
  from watch_exactly_once [OF r _ _ s] e cs have "stream ?s 0 @ waiting ?s 0 = []"
    by (simp add: sample_event_def Let_def)
  with r s show ?thesis by blast
qed

text \<open>C38. The only panic of the hub. No channel is ever closed twice, but a send on a closed channel is
  reachable: \<open>Publish\<close> copies the watchers under the lock and sends without it, so a watcher that is cancelled in between
  makes the publishing goroutine panic.\<close>

theorem hub_panics: "{p. \<exists>s. hub_reachable s \<and> hw_panic s = Some p} = {SendOnClosed}"
proof
  show "{p. \<exists>s. hub_reachable s \<and> hw_panic s = Some p} \<subseteq> {SendOnClosed}"
    using reachable_inv by fastforce
  let ?e = "sample_event 1"
  let ?c = "\<lparr>ch_cap = 64, ch_buf = [], ch_closed = False\<rparr>"
  have r0: "hub_reachable hub_init" by (rule hub_init)
  have "SubscribeSince (hw_hub hub_init) (hw_chans hub_init) 0 0 =
      ((NewWatchHub\<lparr>wh_nextID := 1, wh_watchers := [(1, 0)]\<rparr>, [?c]), 1, 0, [], False)"
    by (simp add: SubscribeSince_def replaySinceLocked_def hub_init_def NewWatchHub_def Let_def)
  from reach_sub [OF r0 _ _ this]
  have r1: "hub_reachable (hub_init\<lparr>hw_hub := NewWatchHub\<lparr>wh_nextID := 1, wh_watchers := [(1, 0)]\<rparr>, hw_chans := [?c],
      hw_received := [[]], hw_start := [0], hw_subs := [(0, [], False)]\<rparr>)" (is "hub_reachable ?s1")
    by (simp add: hub_init_def)
  have r2: "hub_reachable (?s1\<lparr>hw_hub := \<lparr>wh_nextID = 1, wh_watchers = [(1, 0)], wh_history = [?e]\<rparr>,
      hw_pub := Some (?e, [(1, 0)], []), hw_published := [?e]\<rparr>)" (is "hub_reachable ?s2")
    using hub_next [OF r1 publish [of ?s1 ?e]] by (simp add: hub_init_def publish_record_def appendHistoryLocked_def NewWatchHub_def)
  have r3: "hub_reachable (?s2\<lparr>hw_hub := \<lparr>wh_nextID = 1, wh_watchers = [], wh_history = [?e]\<rparr>,
      hw_chans := [?c\<lparr>ch_closed := True\<rparr>]\<rparr>)" (is "hub_reachable ?s3")
    using hub_next [OF r2 unsub [of ?s2 1]] by (simp add: hub_init_def unsubscribe_def close_chan_def)
  have "hub_reachable (?s3\<lparr>hw_panic := Some SendOnClosed\<rparr>)"
    by (rule hub_next [OF r3 send_panic [where before = "[]" and after = "[]" and target = "(1, 0)"]])
      (simp_all add: hub_init_def publish_send_def try_send_def)
  then show "{SendOnClosed} \<subseteq> {p. \<exists>s. hub_reachable s \<and> hw_panic s = Some p}" by force
qed

end
