(* ===== verification/Registry_Json.thy ===== *)
theory Registry_Json
  imports Registry_Correct Storage_Correct
begin

text \<open>
  The JSON form of endpoints and registry values, given by the struct tags of \<open>internal/registry/model.go\<close>: what
  a registration stores under its key and what cleanup, watch and queries read back.
\<close>

subsection \<open>Endpoints and values as JSON\<close>

definition endpoint_to_json :: "Endpoint \<Rightarrow> json" where
  "endpoint_to_json e = JObj
     ([(''name'', JStr (ep_Name e)), (''protocol'', JStr (ep_Protocol e)), (''host'', JStr (ep_Host e)),
       (''port'', jint (ep_Port e))]
      @ omitempty ''path'' (ep_Path e = []) (JStr (ep_Path e))
      @ omitempty ''weight'' (ep_Weight e = 0) (jint (ep_Weight e)))"

definition endpoint_fields :: "(bytes \<times> (json \<Rightarrow> Endpoint \<Rightarrow> Endpoint option)) list" where
  "endpoint_fields =
     [field ''name'' into_string ep_Name (\<lambda>v x. x\<lparr>ep_Name := v\<rparr>),
      field ''protocol'' into_string ep_Protocol (\<lambda>v x. x\<lparr>ep_Protocol := v\<rparr>),
      field ''host'' into_string ep_Host (\<lambda>v x. x\<lparr>ep_Host := v\<rparr>),
      field ''port'' into_i32 ep_Port (\<lambda>v x. x\<lparr>ep_Port := v\<rparr>),
      field ''path'' into_string ep_Path (\<lambda>v x. x\<lparr>ep_Path := v\<rparr>),
      field ''weight'' into_i32 ep_Weight (\<lambda>v x. x\<lparr>ep_Weight := v\<rparr>)]"

definition zero_endpoint :: Endpoint where
  "zero_endpoint = \<lparr>ep_Name = [], ep_Protocol = [], ep_Host = [], ep_Port = 0, ep_Path = [], ep_Weight = 0\<rparr>"

text \<open>A nil slice of endpoints is written as null; maps are written in the order of their keys.\<close>

definition endpoints_to_json :: "Endpoint list \<Rightarrow> json" where
  "endpoints_to_json es = (if es = [] then JNull else JArr (map endpoint_to_json es))"

definition string_map_to_json :: "(bytes, bytes) gomap \<Rightarrow> json" where
  "string_map_to_json m = JObj (map (\<lambda>(k, v). (k, JStr v)) (sort_key fst m))"

definition value_to_json :: "Value \<Rightarrow> json" where
  "value_to_json v = JObj
     ([(''namespace'', JStr (v_Namespace v)), (''service'', JStr (v_Service v))]
      @ omitempty ''organization'' (v_Organization v = []) (JStr (v_Organization v))
      @ omitempty ''businessDomain'' (v_BusinessDomain v = []) (JStr (v_BusinessDomain v))
      @ omitempty ''capabilityDomain'' (v_CapabilityDomain v = []) (JStr (v_CapabilityDomain v))
      @ omitempty ''application'' (v_Application v = []) (JStr (v_Application v))
      @ omitempty ''role'' (v_Role v = []) (JStr (v_Role v))
      @ [(''instanceId'', JStr (v_InstanceID v))]
      @ omitempty ''zone'' (v_Zone v = []) (JStr (v_Zone v))
      @ omitempty ''labels'' (v_Labels v = []) (string_map_to_json (v_Labels v))
      @ omitempty ''metadata'' (v_Metadata v = []) (string_map_to_json (v_Metadata v))
      @ [(''endpoints'', endpoints_to_json (v_Endpoints v)), (''leaseTtlSeconds'', jint (v_LeaseTTLSeconds v)),
         (''registeredAtUnix'', jint (v_RegisteredAtUnix v)), (''lastHeartbeatUnix'', jint (v_LastHeartbeatUnix v))])"

definition value_fields :: "(bytes \<times> (json \<Rightarrow> Value \<Rightarrow> Value option)) list" where
  "value_fields =
     [field ''namespace'' into_string v_Namespace (\<lambda>v x. x\<lparr>v_Namespace := v\<rparr>),
      field ''service'' into_string v_Service (\<lambda>v x. x\<lparr>v_Service := v\<rparr>),
      field ''organization'' into_string v_Organization (\<lambda>v x. x\<lparr>v_Organization := v\<rparr>),
      field ''businessDomain'' into_string v_BusinessDomain (\<lambda>v x. x\<lparr>v_BusinessDomain := v\<rparr>),
      field ''capabilityDomain'' into_string v_CapabilityDomain (\<lambda>v x. x\<lparr>v_CapabilityDomain := v\<rparr>),
      field ''application'' into_string v_Application (\<lambda>v x. x\<lparr>v_Application := v\<rparr>),
      field ''role'' into_string v_Role (\<lambda>v x. x\<lparr>v_Role := v\<rparr>),
      field ''instanceId'' into_string v_InstanceID (\<lambda>v x. x\<lparr>v_InstanceID := v\<rparr>),
      field ''zone'' into_string v_Zone (\<lambda>v x. x\<lparr>v_Zone := v\<rparr>),
      field ''labels'' (into_map into_string []) v_Labels (\<lambda>v x. x\<lparr>v_Labels := v\<rparr>),
      field ''metadata'' (into_map into_string []) v_Metadata (\<lambda>v x. x\<lparr>v_Metadata := v\<rparr>),
      field ''endpoints'' (into_slice (into_struct endpoint_fields) zero_endpoint) v_Endpoints
        (\<lambda>v x. x\<lparr>v_Endpoints := v\<rparr>),
      field ''leaseTtlSeconds'' into_i64 v_LeaseTTLSeconds (\<lambda>v x. x\<lparr>v_LeaseTTLSeconds := v\<rparr>),
      field ''registeredAtUnix'' into_i64 v_RegisteredAtUnix (\<lambda>v x. x\<lparr>v_RegisteredAtUnix := v\<rparr>),
      field ''lastHeartbeatUnix'' into_i64 v_LastHeartbeatUnix (\<lambda>v x. x\<lparr>v_LastHeartbeatUnix := v\<rparr>)]"

definition zero_value :: Value where
  "zero_value = \<lparr>v_Namespace = [], v_Service = [], v_Organization = [], v_BusinessDomain = [],
     v_CapabilityDomain = [], v_Application = [], v_Role = [], v_InstanceID = [], v_Zone = [], v_Labels = [],
     v_Metadata = [], v_Endpoints = [], v_LeaseTTLSeconds = 0, v_RegisteredAtUnix = 0, v_LastHeartbeatUnix = 0\<rparr>"

definition marshal_value :: "Value \<Rightarrow> bytes" where
  "marshal_value v = Marshal value_to_json v"

definition unmarshal_value :: "bytes \<Rightarrow> Value option" where
  "unmarshal_value data = Unmarshal (into_struct value_fields) data zero_value"

subsection \<open>Round trip\<close>

definition i32 :: "int \<Rightarrow> bool" where
  "i32 i \<longleftrightarrow> - (2 ^ 31) \<le> i \<and> i < 2 ^ 31"

definition clean_endpoint :: "Endpoint \<Rightarrow> Endpoint" where
  "clean_endpoint e = e\<lparr>ep_Name := sanitize (ep_Name e), ep_Protocol := sanitize (ep_Protocol e),
     ep_Host := sanitize (ep_Host e), ep_Path := sanitize (ep_Path e)\<rparr>"

lemma sanitize_Nil [simp]: "sanitize [] = []"
  by (simp add: sanitize_ascii is_ascii_def)

lemma endpoint_json:
  "wf_json (endpoint_to_json e)"
  "i32 (ep_Port e) \<Longrightarrow> i32 (ep_Weight e) \<Longrightarrow>
     into_struct endpoint_fields (clean_json (endpoint_to_json e)) zero_endpoint = Some (clean_endpoint e)"
  by (simp_all add: endpoint_to_json_def endpoint_fields_def field_simps zero_endpoint_def clean_endpoint_def i32_def)

definition utf8 :: "bytes \<Rightarrow> bool" where
  "utf8 s \<longleftrightarrow> sanitize s = s"

definition utf8_map :: "(bytes, bytes) gomap \<Rightarrow> bool" where
  "utf8_map m \<longleftrightarrow> list_all (\<lambda>(k, v). utf8 k \<and> utf8 v) m"

definition utf8_endpoint :: "Endpoint \<Rightarrow> bool" where
  "utf8_endpoint e \<longleftrightarrow> list_all utf8 [ep_Name e, ep_Protocol e, ep_Host e, ep_Path e]"

definition utf8_value :: "Value \<Rightarrow> bool" where
  "utf8_value v \<longleftrightarrow>
     list_all utf8 [v_Namespace v, v_Service v, v_Organization v, v_BusinessDomain v, v_CapabilityDomain v,
       v_Application v, v_Role v, v_InstanceID v, v_Zone v] \<and>
     utf8_map (v_Labels v) \<and> utf8_map (v_Metadata v) \<and> list_all utf8_endpoint (v_Endpoints v)"

text \<open>The values that Go's types allow: \<open>int32\<close> ports and weights, \<open>int64\<close> times, maps without repeated keys.\<close>

definition typed_value :: "Value \<Rightarrow> bool" where
  "typed_value v \<longleftrightarrow>
     list_all is_i64 [v_LeaseTTLSeconds v, v_RegisteredAtUnix v, v_LastHeartbeatUnix v] \<and>
     list_all (\<lambda>e. i32 (ep_Port e) \<and> i32 (ep_Weight e)) (v_Endpoints v) \<and>
     distinct (map fst (v_Labels v)) \<and> distinct (map fst (v_Metadata v))"

definition sort_maps :: "Value \<Rightarrow> Value" where
  "sort_maps v = v\<lparr>v_Labels := sort_key fst (v_Labels v), v_Metadata := sort_key fst (v_Metadata v)\<rparr>"

lemma clean_strings:
  "utf8_map m \<Longrightarrow> clean_members (map (\<lambda>(k, v). (k, JStr v)) m) = map (\<lambda>(k, v). (k, JStr v)) m"
  by (induction m) (auto simp: utf8_map_def utf8_def)

lemma utf8_map_sort: "utf8_map m \<Longrightarrow> utf8_map (sort_key fst m)"
  by (simp add: utf8_map_def list_all_iff)

lemma put_strings:
  "distinct (map fst (acc @ m)) \<Longrightarrow> put_members into_string [] (map (\<lambda>(k, v). (k, JStr v)) m) acc = Some (acc @ m)"
  by (induction m arbitrary: acc) (auto simp: AList_update_fresh)

lemma string_map_json:
  assumes "utf8_map m" "distinct (map fst m)"
  shows "into_map into_string [] (clean_json (string_map_to_json m)) [] = Some (sort_key fst m)"
  using assms put_strings [of "[]" "sort_key fst m"]
  by (simp add: string_map_to_json_def clean_strings utf8_map_sort distinct_sort_key_fst)

lemma wf_string_map [simp]: "wf_json (string_map_to_json m)"
proof -
  have "wf_members (map (\<lambda>(k, v). (k, JStr v)) l)" for l :: "(bytes, bytes) gomap" by (induction l) auto
  then show ?thesis by (simp add: string_map_to_json_def)
qed

lemma endpoints_json:
  "wf_json (endpoints_to_json es)"
  "list_all utf8_endpoint es \<Longrightarrow> list_all (\<lambda>e. i32 (ep_Port e) \<and> i32 (ep_Weight e)) es \<Longrightarrow>
     into_slice (into_struct endpoint_fields) zero_endpoint (clean_json (endpoints_to_json es)) [] = Some es"
proof -
  show "wf_json (endpoints_to_json es)"
    by (auto simp: endpoints_to_json_def wf_elems_iff endpoint_json)
  assume u: "list_all utf8_endpoint es" and i: "list_all (\<lambda>e. i32 (ep_Port e) \<and> i32 (ep_Weight e)) es"
  have "into_struct endpoint_fields (clean_json (endpoint_to_json e)) zero_endpoint = Some e" if "e \<in> set es" for e
    using that u i by (simp add: list_all_iff endpoint_json clean_endpoint_def utf8_endpoint_def utf8_def)
  from into_slice_map [of es "into_struct endpoint_fields" "clean_json \<circ> endpoint_to_json" zero_endpoint "[]"] this
  show "into_slice (into_struct endpoint_fields) zero_endpoint (clean_json (endpoints_to_json es)) [] = Some es"
    by (simp add: endpoints_to_json_def)
qed

lemma wf_value: "wf_json (value_to_json v)"
  by (simp add: value_to_json_def omitempty_def endpoints_json)

text \<open>Reading back a member that is omitted when empty gives the field, whether it was written or not.\<close>

lemma clean_omitempty: "is_ascii n \<Longrightarrow> clean_members (omitempty n e j) = omitempty n e (clean_json j)"
  by (simp add: omitempty_def sanitize_ascii)

lemma put_omitted:
  assumes "map_of fs n = Some (\<lambda>j x. map_option (\<lambda>v. upd v x) (into j (get x)))"
    "into j (get x) = Some y" "e \<Longrightarrow> upd y x = x"
  shows "put_fields fs (omitempty n e j @ ms) x = put_fields fs ms (upd y x)"
  using assms by (simp add: omitempty_def field_for_hit)

lemma put_omitted_string:
  "map_of fs n = Some (\<lambda>j x. map_option (\<lambda>v. upd v x) (into_string j (get x))) \<Longrightarrow> upd [] x = x \<Longrightarrow>
     put_fields fs (omitempty n (s = []) (JStr s) @ ms) x = put_fields fs ms (upd s x)"
  by (rule put_omitted [where into = into_string]) auto

lemma put_omitted_map:
  assumes "map_of fs n = Some (\<lambda>j x. map_option (\<lambda>v. upd v x) (into_map into_string [] j (get x)))"
    "upd [] x = x" "get x = []" "utf8_map m" "distinct (map fst m)"
  shows "put_fields fs (omitempty n (m = []) (clean_json (string_map_to_json m)) @ ms) x =
     put_fields fs ms (upd (sort_key fst m) x)"
  by (rule put_omitted [where into = "into_map into_string []", OF assms(1)]) (use assms(2-) in \<open>auto simp: string_map_json\<close>)

lemma put_next:
  "map_of fs n = Some put \<Longrightarrow> put_fields fs ((n, j) # ms) x =
     (case put j x of None \<Rightarrow> None | Some x' \<Rightarrow> put_fields fs ms x')"
  by (simp add: field_for_hit)

lemma value_json:
  assumes "utf8_value v" "typed_value v"
  shows "into_struct value_fields (clean_json (value_to_json v)) zero_value = Some (sort_maps v)"
  using assms
  by (simp add: value_to_json_def value_fields_def zero_value_def field_def sanitize_ascii utf8_value_def typed_value_def
    sort_maps_def endpoints_json utf8_def clean_omitempty put_omitted_string put_omitted_map put_next
    del: put_fields.simps(2))

lemma unmarshal_marshal_value:
  "utf8_value v \<Longrightarrow> typed_value v \<Longrightarrow> unmarshal_value (marshal_value v) = Some (sort_maps v)"
  by (simp add: unmarshal_value_def marshal_value_def Unmarshal_Marshal wf_value value_json)

lemma MatchesLabelSelector_map_of:
  assumes "map_of l = map_of l'"
  shows "MatchesLabelSelector l s = MatchesLabelSelector l' s"
proof -
  have "matchesLabelRequirement l r = matchesLabelRequirement l' r" for r
    by (simp only: matchesLabelRequirement_def assms)
  then show ?thesis by (induction s) (simp_all split: option.split bool.split)
qed

lemma sort_maps_query:
  assumes "typed_value v"
  shows "MatchQuery (sort_maps v) q = MatchQuery v q" "IsAlive (sort_maps v) t = IsAlive v t"
proof -
  have "MatchesLabelSelector (sort_key fst (v_Labels v)) s = MatchesLabelSelector (v_Labels v) s" for s
    using assms by (intro MatchesLabelSelector_map_of map_of_sort_key) (simp add: typed_value_def)
  then show "MatchQuery (sort_maps v) q = MatchQuery v q"
    by (simp add: MatchQuery_def sort_maps_def)
qed (simp add: IsAlive_def sort_maps_def)

lemma CloneEndpoints_id [simp]: "CloneEndpoints es = es"
  by (induction es) (simp_all add: CloneEndpoints_def clone_endpoint_def)

lemma NewValue_typed:
  assumes "register_ok r" "is_i64 (ri_LeaseTTLSeconds r)" "is_i64 now" "list_all (\<lambda>e. i32 (ep_Weight e)) (ri_Endpoints r)"
  shows "typed_value (NewValue r now)"
proof -
  have "list_all (\<lambda>e. i32 (ep_Port e)) (ri_Endpoints r)"
    using assms(1) by (auto simp: register_ok_def endpoints_ok_def endpoint_ok_def list_all_iff i32_def)
  then show ?thesis
    using assms CloneStringMap_clean [of "ri_Labels r"] CloneStringMap_clean [of "ri_Metadata r"]
    by (auto simp: typed_value_def NewValue_def clean_map_def register_ok_def EffectiveLeaseTTLSeconds_def list_all_iff)
qed

text \<open>C32. What is registered is what is read. The value stored for an accepted registration, encoded as JSON and
  decoded again, is the same value with its label and metadata maps listed by key, provided its strings are
  valid UTF-8; it matches the same queries and lives equally long. The ranges are those of the Go types.\<close>

theorem stored_value_roundtrip:
  assumes "NormalizeRegisterInput r = Inr r'" "is_i64 (ri_LeaseTTLSeconds r')" "is_i64 now"
    "list_all (\<lambda>e. i32 (ep_Weight e)) (ri_Endpoints r')" "utf8_value (NewValue r' now)"
  shows "\<exists>v. unmarshal_value (marshal_value (NewValue r' now)) = Some v \<and> v = sort_maps (NewValue r' now) \<and>
     (\<forall>q. MatchQuery v q = MatchQuery (NewValue r' now) q) \<and> (\<forall>t. IsAlive v t = IsAlive (NewValue r' now) t)"
proof -
  have "typed_value (NewValue r' now)"
    using NormalizeRegisterInput_ok [OF assms(1)] assms(2-4) by (blast intro: NewValue_typed)
  then show ?thesis by (simp add: unmarshal_marshal_value assms(5) sort_maps_query)
qed

theorem stored_value_roundtrip_witness:
  "\<exists>v. unmarshal_value (marshal_value (NewValue (sample_normal ''prod'' ''orders'' 15) 100)) = Some v \<and>
     IsAlive v 115 \<and> \<not> IsAlive v 116"
proof -
  let ?r = "sample_normal ''prod'' ''orders'' 15"
  have n: "NormalizeRegisterInput (sample_input ''prod'' ''orders'' 15) = Inr ?r"
    by (rule sample_normalizes) (code_simp, code_simp, simp_all)
  have u: "utf8_value (NewValue ?r 100)"
    by (simp add: utf8_value_def NewValue_def sample_normal_def sample_input_def sample_endpoint_def utf8_def utf8_map_def
        utf8_endpoint_def CloneStringMap_def sanitize_ascii is_ascii_def)
  have "IsAlive (NewValue ?r 100) 115 \<and> \<not> IsAlive (NewValue ?r 100) 116" by code_simp
  with stored_value_roundtrip [OF n _ _ _ u] show ?thesis
    by (auto simp: sample_normal_def sample_input_def sample_endpoint_def is_i64_def i32_def)
qed

end
