(* ===== verification/Registry_Replication.thy ===== *)
theory Registry_Replication
  imports Registry_Json
begin

text \<open>
  The directory replicated from other regions (\<open>internal/registry/replication.go\<close>): its keys and their
  parsers, the replicated values and the checkpoints, with their JSON forms.
\<close>

subsection \<open>Data\<close>

definition ReplicationRootPrefix :: bytes where
  "ReplicationRootPrefix = ''/replication/''"

definition ReplicationRegistryPrefix :: bytes where
  "ReplicationRegistryPrefix = ''/replication/regions/''"

definition ReplicationCheckpointPrefix :: bytes where
  "ReplicationCheckpointPrefix = ''/replication/checkpoints/''"

definition replicationRegistryMarker :: bytes where
  "replicationRegistryMarker = ''/registry/''"

record ReplicatedValue =
  rv_Namespace :: bytes
  rv_Service :: bytes
  rv_Organization :: bytes
  rv_BusinessDomain :: bytes
  rv_CapabilityDomain :: bytes
  rv_Application :: bytes
  rv_Role :: bytes
  rv_InstanceID :: bytes
  rv_Zone :: bytes
  rv_Labels :: "(bytes, bytes) gomap"
  rv_Metadata :: "(bytes, bytes) gomap"
  rv_Endpoints :: "Endpoint list"
  rv_LeaseTTLSeconds :: int
  rv_RegisteredAtUnix :: int
  rv_LastHeartbeatUnix :: int
  rv_SourceRegion :: bytes
  rv_SourceClusterID :: bytes
  rv_SourceRevision :: u64
  rv_ReplicatedAtUnix :: int
  rv_Origin :: bytes

record ReplicationCheckpoint =
  rc_SourceRegion :: bytes
  rc_SourceClusterID :: bytes
  rc_Namespace :: bytes
  rc_Service :: bytes
  rc_LastAppliedRevision :: u64
  rc_LastSnapshotRevision :: u64
  rc_UpdatedAtUnix :: int

subsection \<open>Keys\<close>

definition ReplicationServicePrefix :: "bytes \<Rightarrow> bytes \<Rightarrow> bytes \<Rightarrow> bytes \<Rightarrow> bytes" where
  "ReplicationServicePrefix sourceRegion sourceClusterID namespace service =
     ReplicationRegistryPrefix @ TrimSpace sourceRegion @ ''/clusters/'' @ TrimSpace sourceClusterID @ ''/registry/''
     @ TrimSpace namespace @ ''/'' @ TrimSpace service @ ''/''"

definition ReplicatedKey :: "bytes \<Rightarrow> bytes \<Rightarrow> bytes \<Rightarrow> bytes \<Rightarrow> bytes \<Rightarrow> bytes" where
  "ReplicatedKey sourceRegion sourceClusterID namespace service instanceID =
     ReplicationRegistryPrefix @ TrimSpace sourceRegion @ ''/clusters/'' @ TrimSpace sourceClusterID @ ''/registry/''
     @ TrimSpace namespace @ ''/'' @ TrimSpace service @ ''/'' @ TrimSpace instanceID"

definition ReplicationCheckpointKey :: "bytes \<Rightarrow> bytes \<Rightarrow> bytes \<Rightarrow> bytes \<Rightarrow> bytes" where
  "ReplicationCheckpointKey sourceRegion sourceClusterID namespace service =
     ReplicationCheckpointPrefix @ TrimSpace sourceRegion @ ''/'' @ TrimSpace sourceClusterID @ ''/''
     @ TrimSpace namespace @ ''/'' @ TrimSpace service"

definition ParseReplicatedKey :: "bytes \<Rightarrow> (bytes \<times> bytes \<times> bytes \<times> bytes \<times> bytes) option" where
  "ParseReplicatedKey raw =
     (if \<not> HasPrefix raw ReplicationRegistryPrefix then None
      else case SplitN2 (TrimPrefix raw ReplicationRegistryPrefix) replicationRegistryMarker of
        [p0, p1] \<Rightarrow>
          (case Split p0 (CHR ''/'') of
             [s0, s1, s2] \<Rightarrow>
               if s1 \<noteq> ''clusters'' then None
               else (case Split p1 (CHR ''/'') of
                 [t0, t1, t2] \<Rightarrow>
                   (let sourceRegion = TrimSpace s0; sourceClusterID = TrimSpace s2; namespace = TrimSpace t0;
                        service = TrimSpace t1; instanceID = TrimSpace t2 in
                    if sourceRegion = [] \<or> sourceClusterID = [] \<or> namespace = [] \<or> service = [] \<or> instanceID = []
                    then None else Some (sourceRegion, sourceClusterID, namespace, service, instanceID))
               | _ \<Rightarrow> None)
           | _ \<Rightarrow> None)
      | _ \<Rightarrow> None)"

definition ParseReplicationCheckpointKey :: "bytes \<Rightarrow> (bytes \<times> bytes \<times> bytes \<times> bytes) option" where
  "ParseReplicationCheckpointKey raw =
     (if \<not> HasPrefix raw ReplicationCheckpointPrefix then None
      else case Split (TrimPrefix raw ReplicationCheckpointPrefix) (CHR ''/'') of
        [p0, p1, p2, p3] \<Rightarrow>
          (let sourceRegion = TrimSpace p0; sourceClusterID = TrimSpace p1; namespace = TrimSpace p2;
               service = TrimSpace p3 in
           if sourceRegion = [] \<or> sourceClusterID = [] \<or> namespace = [] \<or> service = []
           then None else Some (sourceRegion, sourceClusterID, namespace, service))
      | _ \<Rightarrow> None)"

subsection \<open>Values\<close>

text \<open>The clock is a parameter: it is read when no time is given.\<close>

definition NewReplicatedValue ::
  "int \<Rightarrow> bytes \<Rightarrow> bytes \<Rightarrow> u64 \<Rightarrow> Value \<Rightarrow> int \<Rightarrow> ReplicatedValue" where
  "NewReplicatedValue clock sourceRegion sourceClusterID sourceRevision value now =
     \<lparr>rv_Namespace = v_Namespace value,
      rv_Service = v_Service value,
      rv_Organization = v_Organization value,
      rv_BusinessDomain = v_BusinessDomain value,
      rv_CapabilityDomain = v_CapabilityDomain value,
      rv_Application = v_Application value,
      rv_Role = v_Role value,
      rv_InstanceID = v_InstanceID value,
      rv_Zone = v_Zone value,
      rv_Labels = CloneStringMap (v_Labels value),
      rv_Metadata = CloneStringMap (v_Metadata value),
      rv_Endpoints = CloneEndpoints (v_Endpoints value),
      rv_LeaseTTLSeconds = EffectiveLeaseTTLSeconds (v_LeaseTTLSeconds value),
      rv_RegisteredAtUnix = v_RegisteredAtUnix value,
      rv_LastHeartbeatUnix = v_LastHeartbeatUnix value,
      rv_SourceRegion = TrimSpace sourceRegion,
      rv_SourceClusterID = TrimSpace sourceClusterID,
      rv_SourceRevision = sourceRevision,
      rv_ReplicatedAtUnix = (if now \<le> 0 then clock else now),
      rv_Origin = ''replicated''\<rparr>"

definition ToValue :: "ReplicatedValue \<Rightarrow> Value" where
  "ToValue v =
     \<lparr>v_Namespace = rv_Namespace v,
      v_Service = rv_Service v,
      v_Organization = rv_Organization v,
      v_BusinessDomain = rv_BusinessDomain v,
      v_CapabilityDomain = rv_CapabilityDomain v,
      v_Application = rv_Application v,
      v_Role = rv_Role v,
      v_InstanceID = rv_InstanceID v,
      v_Zone = rv_Zone v,
      v_Labels = CloneStringMap (rv_Labels v),
      v_Metadata = CloneStringMap (rv_Metadata v),
      v_Endpoints = CloneEndpoints (rv_Endpoints v),
      v_LeaseTTLSeconds = EffectiveLeaseTTLSeconds (rv_LeaseTTLSeconds v),
      v_RegisteredAtUnix = rv_RegisteredAtUnix v,
      v_LastHeartbeatUnix = rv_LastHeartbeatUnix v\<rparr>"

subsection \<open>JSON\<close>

definition replicated_to_json :: "ReplicatedValue \<Rightarrow> json" where
  "replicated_to_json v = JObj
     ([(''namespace'', JStr (rv_Namespace v)), (''service'', JStr (rv_Service v))]
      @ omitempty ''organization'' (rv_Organization v = []) (JStr (rv_Organization v))
      @ omitempty ''businessDomain'' (rv_BusinessDomain v = []) (JStr (rv_BusinessDomain v))
      @ omitempty ''capabilityDomain'' (rv_CapabilityDomain v = []) (JStr (rv_CapabilityDomain v))
      @ omitempty ''application'' (rv_Application v = []) (JStr (rv_Application v))
      @ omitempty ''role'' (rv_Role v = []) (JStr (rv_Role v))
      @ [(''instanceId'', JStr (rv_InstanceID v))]
      @ omitempty ''zone'' (rv_Zone v = []) (JStr (rv_Zone v))
      @ omitempty ''labels'' (rv_Labels v = []) (string_map_to_json (rv_Labels v))
      @ omitempty ''metadata'' (rv_Metadata v = []) (string_map_to_json (rv_Metadata v))
      @ [(''endpoints'', endpoints_to_json (rv_Endpoints v)), (''leaseTtlSeconds'', jint (rv_LeaseTTLSeconds v)),
         (''registeredAtUnix'', jint (rv_RegisteredAtUnix v)), (''lastHeartbeatUnix'', jint (rv_LastHeartbeatUnix v)),
         (''sourceRegion'', JStr (rv_SourceRegion v)), (''sourceClusterId'', JStr (rv_SourceClusterID v)),
         (''sourceRevision'', juint (rv_SourceRevision v)), (''replicatedAtUnix'', jint (rv_ReplicatedAtUnix v)),
         (''origin'', JStr (rv_Origin v))])"

definition replicated_fields :: "(bytes \<times> (json \<Rightarrow> ReplicatedValue \<Rightarrow> ReplicatedValue option)) list" where
  "replicated_fields =
     [field ''namespace'' into_string rv_Namespace (\<lambda>v x. x\<lparr>rv_Namespace := v\<rparr>),
      field ''service'' into_string rv_Service (\<lambda>v x. x\<lparr>rv_Service := v\<rparr>),
      field ''organization'' into_string rv_Organization (\<lambda>v x. x\<lparr>rv_Organization := v\<rparr>),
      field ''businessDomain'' into_string rv_BusinessDomain (\<lambda>v x. x\<lparr>rv_BusinessDomain := v\<rparr>),
      field ''capabilityDomain'' into_string rv_CapabilityDomain (\<lambda>v x. x\<lparr>rv_CapabilityDomain := v\<rparr>),
      field ''application'' into_string rv_Application (\<lambda>v x. x\<lparr>rv_Application := v\<rparr>),
      field ''role'' into_string rv_Role (\<lambda>v x. x\<lparr>rv_Role := v\<rparr>),
      field ''instanceId'' into_string rv_InstanceID (\<lambda>v x. x\<lparr>rv_InstanceID := v\<rparr>),
      field ''zone'' into_string rv_Zone (\<lambda>v x. x\<lparr>rv_Zone := v\<rparr>),
      field ''labels'' (into_map into_string []) rv_Labels (\<lambda>v x. x\<lparr>rv_Labels := v\<rparr>),
      field ''metadata'' (into_map into_string []) rv_Metadata (\<lambda>v x. x\<lparr>rv_Metadata := v\<rparr>),
      field ''endpoints'' (into_slice (into_struct endpoint_fields) zero_endpoint) rv_Endpoints
        (\<lambda>v x. x\<lparr>rv_Endpoints := v\<rparr>),
      field ''leaseTtlSeconds'' into_i64 rv_LeaseTTLSeconds (\<lambda>v x. x\<lparr>rv_LeaseTTLSeconds := v\<rparr>),
      field ''registeredAtUnix'' into_i64 rv_RegisteredAtUnix (\<lambda>v x. x\<lparr>rv_RegisteredAtUnix := v\<rparr>),
      field ''lastHeartbeatUnix'' into_i64 rv_LastHeartbeatUnix (\<lambda>v x. x\<lparr>rv_LastHeartbeatUnix := v\<rparr>),
      field ''sourceRegion'' into_string rv_SourceRegion (\<lambda>v x. x\<lparr>rv_SourceRegion := v\<rparr>),
      field ''sourceClusterId'' into_string rv_SourceClusterID (\<lambda>v x. x\<lparr>rv_SourceClusterID := v\<rparr>),
      field ''sourceRevision'' into_u64 rv_SourceRevision (\<lambda>v x. x\<lparr>rv_SourceRevision := v\<rparr>),
      field ''replicatedAtUnix'' into_i64 rv_ReplicatedAtUnix (\<lambda>v x. x\<lparr>rv_ReplicatedAtUnix := v\<rparr>),
      field ''origin'' into_string rv_Origin (\<lambda>v x. x\<lparr>rv_Origin := v\<rparr>)]"

definition zero_replicated :: ReplicatedValue where
  "zero_replicated = \<lparr>rv_Namespace = [], rv_Service = [], rv_Organization = [], rv_BusinessDomain = [],
     rv_CapabilityDomain = [], rv_Application = [], rv_Role = [], rv_InstanceID = [], rv_Zone = [], rv_Labels = [],
     rv_Metadata = [], rv_Endpoints = [], rv_LeaseTTLSeconds = 0, rv_RegisteredAtUnix = 0, rv_LastHeartbeatUnix = 0,
     rv_SourceRegion = [], rv_SourceClusterID = [], rv_SourceRevision = 0, rv_ReplicatedAtUnix = 0, rv_Origin = []\<rparr>"

definition checkpoint_to_json :: "ReplicationCheckpoint \<Rightarrow> json" where
  "checkpoint_to_json c = JObj
     [(''sourceRegion'', JStr (rc_SourceRegion c)), (''sourceClusterId'', JStr (rc_SourceClusterID c)),
      (''namespace'', JStr (rc_Namespace c)), (''service'', JStr (rc_Service c)),
      (''lastAppliedRevision'', juint (rc_LastAppliedRevision c)),
      (''lastSnapshotRevision'', juint (rc_LastSnapshotRevision c)), (''updatedAtUnix'', jint (rc_UpdatedAtUnix c))]"

definition checkpoint_fields :: "(bytes \<times> (json \<Rightarrow> ReplicationCheckpoint \<Rightarrow> ReplicationCheckpoint option)) list" where
  "checkpoint_fields =
     [field ''sourceRegion'' into_string rc_SourceRegion (\<lambda>v x. x\<lparr>rc_SourceRegion := v\<rparr>),
      field ''sourceClusterId'' into_string rc_SourceClusterID (\<lambda>v x. x\<lparr>rc_SourceClusterID := v\<rparr>),
      field ''namespace'' into_string rc_Namespace (\<lambda>v x. x\<lparr>rc_Namespace := v\<rparr>),
      field ''service'' into_string rc_Service (\<lambda>v x. x\<lparr>rc_Service := v\<rparr>),
      field ''lastAppliedRevision'' into_u64 rc_LastAppliedRevision (\<lambda>v x. x\<lparr>rc_LastAppliedRevision := v\<rparr>),
      field ''lastSnapshotRevision'' into_u64 rc_LastSnapshotRevision (\<lambda>v x. x\<lparr>rc_LastSnapshotRevision := v\<rparr>),
      field ''updatedAtUnix'' into_i64 rc_UpdatedAtUnix (\<lambda>v x. x\<lparr>rc_UpdatedAtUnix := v\<rparr>)]"

definition zero_checkpoint :: ReplicationCheckpoint where
  "zero_checkpoint = \<lparr>rc_SourceRegion = [], rc_SourceClusterID = [], rc_Namespace = [], rc_Service = [],
     rc_LastAppliedRevision = 0, rc_LastSnapshotRevision = 0, rc_UpdatedAtUnix = 0\<rparr>"

subsection \<open>Key round trips\<close>

text \<open>A part of a key that the key builders and parsers leave alone.\<close>

definition key_part :: "bytes \<Rightarrow> bool" where
  "key_part p \<longleftrightarrow> trimmed p \<and> p \<noteq> [] \<and> CHR ''/'' \<notin> set p"

lemma Index_before_slash:
  "c \<notin> set u \<Longrightarrow> Index (u @ t) (c # sub) = map_option ((+) (length u)) (Index t (c # sub))"
proof (induction u)
  case Nil
  then show ?case by (simp add: map_option.id [unfolded id_def])
next
  case (Cons x u)
  then have "\<not> HasPrefix (x # u @ t) (c # sub)" by (auto simp: HasPrefix_iff)
  with Cons show ?case by (simp add: Index_Cons option.map_comp comp_def)
qed

lemma marker_prefix:
  assumes "CHR ''/'' \<notin> set c"
  shows "HasPrefix (CHR ''/'' # c @ CHR ''/'' # t) replicationRegistryMarker \<longleftrightarrow> c = ''registry''"
proof
  assume "HasPrefix (CHR ''/'' # c @ CHR ''/'' # t) replicationRegistryMarker"
  then obtain v where "c @ CHR ''/'' # t = ''registry'' @ CHR ''/'' # v"
    by (auto simp: HasPrefix_iff replicationRegistryMarker_def)
  then have "takeWhile (\<lambda>x. x \<noteq> CHR ''/'') (c @ CHR ''/'' # t) =
      takeWhile (\<lambda>x. x \<noteq> CHR ''/'') (''registry'' @ CHR ''/'' # v)" by simp
  moreover have "takeWhile (\<lambda>x. x \<noteq> CHR ''/'') (c @ CHR ''/'' # t) = c"
    using assms by (subst takeWhile_append2) auto
  ultimately show "c = ''registry''" by simp
qed (simp add: HasPrefix_iff replicationRegistryMarker_def)

lemma Index_marker:
  assumes "CHR ''/'' \<notin> set r" "CHR ''/'' \<notin> set c"
  shows "Index (r @ ''/clusters/'' @ c @ ''/registry/'' @ t) replicationRegistryMarker =
     Some (length r + (if c = ''registry'' then 9 else 10 + length c))"
proof -
  let ?m = "replicationRegistryMarker"
  have m: "?m = CHR ''/'' # ''registry/''" by (simp add: replicationRegistryMarker_def)
  have c: "Index (c @ CHR ''/'' # ''registry/'' @ t) ?m = Some (length c)"
    unfolding m by (subst Index_before_slash) (use assms in \<open>simp_all add: Index_Cons HasPrefix_iff\<close>)
  have "Index (CHR ''/'' # c @ CHR ''/'' # ''registry/'' @ t) ?m =
      Some (if c = ''registry'' then 0 else Suc (length c))"
    using c by (simp add: Index_Cons marker_prefix [OF assms(2)])
  then have "Index (''clusters'' @ CHR ''/'' # c @ CHR ''/'' # ''registry/'' @ t) ?m =
      Some (if c = ''registry'' then 8 else 9 + length c)"
    unfolding m by (subst Index_before_slash) simp_all
  then have "Index (CHR ''/'' # ''clusters'' @ CHR ''/'' # c @ CHR ''/'' # ''registry/'' @ t) ?m =
      Some (if c = ''registry'' then 9 else 10 + length c)"
    by (simp add: Index_Cons) (simp add: HasPrefix_iff m)
  then show ?thesis
    unfolding m by (subst Index_before_slash) (use assms in \<open>simp_all\<close>)
qed

lemma Parse_ReplicatedKey:
  assumes "list_all key_part [r, c, n, s, i]"
  shows "ParseReplicatedKey (ReplicatedKey r c n s i) = (if c = ''registry'' then None else Some (r, c, n, s, i))"
proof -
  let ?t = "n @ CHR ''/'' # s @ CHR ''/'' # i"
  have trim: "TrimSpace p = p" and slash: "CHR ''/'' \<notin> set p" if "p \<in> {r, c, n, s, i}" for p
    using that assms by (auto simp: key_part_def TrimSpace_trimmed)
  have k: "ReplicatedKey r c n s i = ReplicationRegistryPrefix @ r @ ''/clusters/'' @ c @ ''/registry/'' @ ?t"
    by (simp add: ReplicatedKey_def trim)
  have sp: "SplitN2 (r @ ''/clusters/'' @ c @ ''/registry/'' @ ?t) replicationRegistryMarker =
      (if c = ''registry'' then [r @ ''/clusters'', ''registry/'' @ ?t] else [r @ ''/clusters/'' @ c, ?t])"
    unfolding SplitN2_def by (subst Index_marker) (simp_all add: slash replicationRegistryMarker_def eval_nat_numeral)
  have "Split (r @ ''/clusters'') (CHR ''/'') = [r, ''clusters'']"
    "Split (r @ ''/clusters/'' @ c) (CHR ''/'') = [r, ''clusters'', c]" "Split ?t (CHR ''/'') = [n, s, i]"
    using slash by (simp_all add: Split_append_sep Split_no_sep)
  then show ?thesis
    using assms unfolding ParseReplicatedKey_def k
    by (simp add: sp [simplified] key_part_def trim)
qed

lemma Parse_ReplicationCheckpointKey:
  assumes "list_all key_part [r, c, n, s]"
  shows "ParseReplicationCheckpointKey (ReplicationCheckpointKey r c n s) = Some (r, c, n, s)"
proof -
  have trim: "TrimSpace p = p" and slash: "CHR ''/'' \<notin> set p" if "p \<in> {r, c, n, s}" for p
    using that assms by (auto simp: key_part_def TrimSpace_trimmed)
  have "Split (r @ CHR ''/'' # c @ CHR ''/'' # n @ CHR ''/'' # s) (CHR ''/'') = [r, c, n, s]"
    using slash by (simp add: Split_append_sep Split_no_sep)
  then show ?thesis
    using assms by (simp add: ParseReplicationCheckpointKey_def ReplicationCheckpointKey_def trim key_part_def)
qed

text \<open>Keys of the replicated directory. For trimmed, non-blank parts without a slash, parsing a replicated key gives
  the parts back, except that a source cluster named \<open>registry\<close> makes the key unparsable; checkpoint keys always
  parse back.\<close>

theorem replicated_key_roundtrip:
  assumes "list_all key_part [r, c, n, s, i]"
  shows "ParseReplicatedKey (ReplicatedKey r c n s i) = (if c = ''registry'' then None else Some (r, c, n, s, i)) \<and>
     ParseReplicationCheckpointKey (ReplicationCheckpointKey r c n s) = Some (r, c, n, s)"
  using Parse_ReplicatedKey [OF assms] Parse_ReplicationCheckpointKey [of r c n s] assms by simp

theorem replicated_key_roundtrip_witness:
  "ParseReplicatedKey (ReplicatedKey ''eu'' ''c1'' ''prod'' ''orders'' ''i1'') = Some (''eu'', ''c1'', ''prod'', ''orders'', ''i1'') \<and>
   ParseReplicatedKey (ReplicatedKey ''eu'' ''registry'' ''prod'' ''orders'' ''i1'') = None"
proof -
  have "list_all key_part [''eu'', ''c1'', ''prod'', ''orders'', ''i1'']"
    "list_all key_part [''eu'', ''registry'', ''prod'', ''orders'', ''i1'']" by code_simp+
  from this [THEN replicated_key_roundtrip] show ?thesis by simp
qed

subsection \<open>Reading replicated values and checkpoints back\<close>

lemma checkpoint_json:
  assumes "list_all utf8 [rc_SourceRegion c, rc_SourceClusterID c, rc_Namespace c, rc_Service c]" "is_i64 (rc_UpdatedAtUnix c)"
  shows "Unmarshal (into_struct checkpoint_fields) (Marshal checkpoint_to_json c) zero_checkpoint = Some c"
proof -
  have "wf_json (checkpoint_to_json c)" by (simp add: checkpoint_to_json_def)
  moreover have "into_struct checkpoint_fields (clean_json (checkpoint_to_json c)) zero_checkpoint = Some c"
    using assms by (simp add: checkpoint_to_json_def checkpoint_fields_def zero_checkpoint_def field_simps utf8_def)
  ultimately show ?thesis by (simp add: Unmarshal_Marshal)
qed

definition sort_replicated :: "ReplicatedValue \<Rightarrow> ReplicatedValue" where
  "sort_replicated v = v\<lparr>rv_Labels := sort_key fst (rv_Labels v), rv_Metadata := sort_key fst (rv_Metadata v)\<rparr>"

definition plain_value :: "ReplicatedValue \<Rightarrow> Value" where
  "plain_value v =
     \<lparr>v_Namespace = rv_Namespace v, v_Service = rv_Service v, v_Organization = rv_Organization v,
      v_BusinessDomain = rv_BusinessDomain v, v_CapabilityDomain = rv_CapabilityDomain v,
      v_Application = rv_Application v, v_Role = rv_Role v, v_InstanceID = rv_InstanceID v, v_Zone = rv_Zone v,
      v_Labels = rv_Labels v, v_Metadata = rv_Metadata v, v_Endpoints = rv_Endpoints v,
      v_LeaseTTLSeconds = rv_LeaseTTLSeconds v, v_RegisteredAtUnix = rv_RegisteredAtUnix v,
      v_LastHeartbeatUnix = rv_LastHeartbeatUnix v\<rparr>"

lemma replicated_json:
  assumes "utf8_value (plain_value v)" "typed_value (plain_value v)" "is_i64 (rv_ReplicatedAtUnix v)"
    "list_all utf8 [rv_SourceRegion v, rv_SourceClusterID v, rv_Origin v]"
  shows "Unmarshal (into_struct replicated_fields) (Marshal replicated_to_json v) zero_replicated = Some (sort_replicated v)"
proof -
  have "wf_json (replicated_to_json v)" by (simp add: replicated_to_json_def omitempty_def endpoints_json)
  moreover have "into_struct replicated_fields (clean_json (replicated_to_json v)) zero_replicated = Some (sort_replicated v)"
    using assms
    by (simp add: replicated_to_json_def replicated_fields_def zero_replicated_def field_def sanitize_ascii utf8_value_def
      typed_value_def plain_value_def sort_replicated_def endpoints_json utf8_def clean_omitempty put_omitted_string
      put_omitted_map put_next del: put_fields.simps(2))
  ultimately show ?thesis by (simp add: Unmarshal_Marshal)
qed

text \<open>The values of the registry: clean maps and a positive lease, as registration makes them.\<close>

definition normal_value :: "Value \<Rightarrow> bool" where
  "normal_value v \<longleftrightarrow> clean_map (v_Labels v) \<and> clean_map (v_Metadata v) \<and> 0 < v_LeaseTTLSeconds v"

lemma NewReplicatedValue_plain:
  "normal_value v \<Longrightarrow> plain_value (NewReplicatedValue clock r c revision v now) = v"
  by (cases v) (simp add: plain_value_def NewReplicatedValue_def normal_value_def CloneStringMap_id
    EffectiveLeaseTTLSeconds_def)

lemma clean_map_sort: "clean_map m \<Longrightarrow> clean_map (sort_key fst m)"
  by (simp add: clean_map_def distinct_sort_key_fst list_all_iff)

lemma ToValue_sorted:
  "normal_value (plain_value v) \<Longrightarrow> ToValue (sort_replicated v) = sort_maps (plain_value v)"
  by (simp add: ToValue_def sort_replicated_def plain_value_def normal_value_def sort_maps_def CloneStringMap_id
    clean_map_sort EffectiveLeaseTTLSeconds_def)

lemma replicated_value_roundtrip:
  assumes "normal_value v" "utf8_value v" "typed_value v" "is_i64 now" "is_i64 clock" "utf8 (TrimSpace r)" "utf8 (TrimSpace c)"
  shows "\<exists>w. Unmarshal (into_struct replicated_fields) (Marshal replicated_to_json (NewReplicatedValue clock r c revision v now))
       zero_replicated = Some w \<and> ToValue w = sort_maps v \<and> rv_SourceRevision w = revision \<and> rv_Origin w = ''replicated''"
proof -
  let ?w = "NewReplicatedValue clock r c revision v now"
  note p = NewReplicatedValue_plain [OF assms(1), of clock r c revision now]
  have "Unmarshal (into_struct replicated_fields) (Marshal replicated_to_json ?w) zero_replicated = Some (sort_replicated ?w)"
  proof (rule replicated_json)
    show "utf8_value (plain_value ?w)" "typed_value (plain_value ?w)" by (simp_all only: p assms)
  qed (use assms in \<open>auto simp: NewReplicatedValue_def utf8_def sanitize_ascii is_ascii_def\<close>)
  moreover have "ToValue (sort_replicated ?w) = sort_maps v" using ToValue_sorted [of ?w] assms(1) p by simp
  ultimately show ?thesis by (simp add: sort_replicated_def NewReplicatedValue_def)
qed

end
