(* ===== verification/Go_Sha256.thy ===== *)
theory Go_Sha256
  imports Go_Encoding
begin

text \<open>
  \<open>crypto/sha256\<close> and \<open>encoding/hex\<close>, as the snapshot store uses them: the digest of what was written, in lower-case
  hexadecimal digits.
\<close>

type_synonym u32 = "32 word"

unbundle bit_operations_syntax

text \<open>The constants in decimal: the fractional parts of the cube roots of the first 64 primes and of the square roots of
  the first eight, times \<open>2^32\<close>.\<close>

definition sha_k :: "u32 list" where
  "sha_k =
     [1116352408, 1899447441, 3049323471, 3921009573, 961987163, 1508970993, 2453635748, 2870763221,
      3624381080, 310598401, 607225278, 1426881987, 1925078388, 2162078206, 2614888103, 3248222580,
      3835390401, 4022224774, 264347078, 604807628, 770255983, 1249150122, 1555081692, 1996064986,
      2554220882, 2821834349, 2952996808, 3210313671, 3336571891, 3584528711, 113926993, 338241895,
      666307205, 773529912, 1294757372, 1396182291, 1695183700, 1986661051, 2177026350, 2456956037,
      2730485921, 2820302411, 3259730800, 3345764771, 3516065817, 3600352804, 4094571909, 275423344,
      430227734, 506948616, 659060556, 883997877, 958139571, 1322822218, 1537002063, 1747873779,
      1955562222, 2024104815, 2227730452, 2361852424, 2428436474, 2756734187, 3204031479, 3329325298]"

definition sha_init :: "u32 list" where
  "sha_init =
     [1779033703, 3144134277, 1013904242, 2773480762, 1359893119, 2600822924, 528734635, 1541459225]"

text \<open>The message schedule: the list is extended at its end until it has 64 words.\<close>

fun sha_schedule :: "nat \<Rightarrow> u32 list \<Rightarrow> u32 list" where
  "sha_schedule 0 w = w"
| "sha_schedule (Suc n) w =
     (let i = length w; a = w ! (i - 15); b = w ! (i - 2);
          s0 = word_rotr 7 a XOR word_rotr 18 a XOR drop_bit 3 a;
          s1 = word_rotr 17 b XOR word_rotr 19 b XOR drop_bit 10 b in
      sha_schedule n (w @ [w ! (i - 16) + s0 + w ! (i - 7) + s1]))"

definition sha_round :: "u32 list \<Rightarrow> u32 \<times> u32 \<Rightarrow> u32 list" where
  "sha_round v kw =
     (case v of
        [a, b, c, d, e, f, g, h] \<Rightarrow>
          (let s1 = word_rotr 6 e XOR word_rotr 11 e XOR word_rotr 25 e;
               ch = (e AND f) XOR (NOT e AND g);
               t1 = h + s1 + ch + fst kw + snd kw;
               s0 = word_rotr 2 a XOR word_rotr 13 a XOR word_rotr 22 a;
               maj = (a AND b) XOR (a AND c) XOR (b AND c) in
           [t1 + s0 + maj, a, b, c, d + t1, e, f, g])
      | _ \<Rightarrow> v)"

definition sha_words :: "bytes \<Rightarrow> u32 list" where
  "sha_words block = map (\<lambda>i. word_of_nat (be_value (take 4 (drop (4 * i) block)))) [0..<16]"

definition sha_block :: "u32 list \<Rightarrow> bytes \<Rightarrow> u32 list" where
  "sha_block h block = map2 (+) h (foldl sha_round h (zip sha_k (sha_schedule 48 (sha_words block))))"

definition sha_pad :: "bytes \<Rightarrow> bytes" where
  "sha_pad m = m @ CHR 0x80 # replicate ((119 - length m mod 64) mod 64) (char_of (0::nat)) @ be_bytes 8 (8 * length m)"

fun sha_blocks :: "nat \<Rightarrow> u32 list \<Rightarrow> bytes \<Rightarrow> u32 list" where
  "sha_blocks 0 h m = h"
| "sha_blocks (Suc n) h m = sha_blocks n (sha_block h (take 64 m)) (drop 64 m)"

definition Sum256 :: "bytes \<Rightarrow> bytes" where
  "Sum256 m = (let p = sha_pad m in concat (map (\<lambda>w. be_bytes 4 (unat w)) (sha_blocks (length p div 64) sha_init p)))"

definition hex_digit :: "nat \<Rightarrow> char" where
  "hex_digit n = ''0123456789abcdef'' ! n"

definition hex_EncodeToString :: "bytes \<Rightarrow> bytes" where
  "hex_EncodeToString b = concat (map (\<lambda>c. [hex_digit (of_char c div 16), hex_digit (of_char c mod 16)]) b)"

lemma hex_digit_ascii: "n < 16 \<Longrightarrow> (of_char (hex_digit n) :: nat) < 128"
proof -
  assume "n < 16"
  then have "hex_digit n \<in> set ''0123456789abcdef''" unfolding hex_digit_def by (intro nth_mem) simp
  then show ?thesis by auto
qed

lemma hex_ascii: "is_ascii (hex_EncodeToString b)"
proof -
  have "(of_char c :: nat) div 16 < 16" for c :: char
    using nat_of_char_less_256 [of c] by (simp add: less_mult_imp_div_less)
  then show ?thesis
    by (auto simp: hex_EncodeToString_def is_ascii_def list_all_iff hex_digit_ascii)
qed

end
