(* ===== verification/Snapshot.thy ===== *)
theory Snapshot
  imports Go_Sha256 Go_Json Wal
begin

text \<open>
  The snapshot stores (\<open>internal/snapshot\<close>): one file for the data and one for the metadata of every snapshot,
  written under temporary names and renamed, and the in-memory store. The disk and the outcomes of its system calls
  are those of the log; every call that can fail takes an outcome, also the ones that only read.

  An exporter is the bytes it writes and whether it then returns without an error of its own; no exporter
  is \<open>None\<close>. A reader that is installed is such an exporter.
\<close>

subsection \<open>Metadata\<close>

record Metadata =
  md_Term :: u64
  md_Index :: u64
  md_ConfState :: bytes
  md_Checksum :: bytes
  md_FileSize :: u64

definition metadata_to_json :: "Metadata \<Rightarrow> json" where
  "metadata_to_json m = JObj
     [(''Term'', juint (md_Term m)), (''Index'', juint (md_Index m)), (''ConfState'', jbytes (md_ConfState m)),
      (''Checksum'', JStr (md_Checksum m)), (''FileSize'', juint (md_FileSize m))]"

definition metadata_fields :: "(bytes \<times> (json \<Rightarrow> Metadata \<Rightarrow> Metadata option)) list" where
  "metadata_fields =
     [field ''Term'' into_u64 md_Term (\<lambda>v x. x\<lparr>md_Term := v\<rparr>),
      field ''Index'' into_u64 md_Index (\<lambda>v x. x\<lparr>md_Index := v\<rparr>),
      field ''ConfState'' into_bytes md_ConfState (\<lambda>v x. x\<lparr>md_ConfState := v\<rparr>),
      field ''Checksum'' into_string md_Checksum (\<lambda>v x. x\<lparr>md_Checksum := v\<rparr>),
      field ''FileSize'' into_u64 md_FileSize (\<lambda>v x. x\<lparr>md_FileSize := v\<rparr>)]"

definition zero_metadata :: Metadata where
  "zero_metadata = \<lparr>md_Term = 0, md_Index = 0, md_ConfState = [], md_Checksum = [], md_FileSize = 0\<rparr>"

datatype snapshot_error = ErrSnapshotNotFound | ErrSnapshotIO | ErrSnapshotNotExist | ErrSnapshotJSON | ErrExporter

type_synonym Exporter = "bytes \<times> bool"

subsection \<open>MemoryStore\<close>

record MemoryStore =
  ss_latest :: Metadata
  ss_data :: bytes

definition NewMemoryStore :: MemoryStore where
  "NewMemoryStore = \<lparr>ss_latest = zero_metadata, ss_data = []\<rparr>"

definition exported :: "Exporter option \<Rightarrow> snapshot_error + bytes" where
  "exported exporter = (case exporter of None \<Rightarrow> Inr [] | Some (data, ok) \<Rightarrow> if ok then Inr data else Inl ErrExporter)"

definition ss_Create :: "MemoryStore \<Rightarrow> Metadata \<Rightarrow> Exporter option \<Rightarrow> MemoryStore \<times> (snapshot_error + Metadata)" where
  "ss_Create s meta exporter =
     (case exported exporter of
        Inl e \<Rightarrow> (s, Inl e)
      | Inr data \<Rightarrow>
          (let meta' = meta\<lparr>md_FileSize := word_of_nat (length data)\<rparr> in
           (s\<lparr>ss_latest := meta', ss_data := data\<rparr>, Inr meta')))"

definition ss_OpenLatest :: "MemoryStore \<Rightarrow> Metadata \<times> bytes" where
  "ss_OpenLatest s = (ss_latest s, ss_data s)"

definition ss_Install :: "MemoryStore \<Rightarrow> Metadata \<Rightarrow> Exporter \<Rightarrow> MemoryStore \<times> snapshot_error option" where
  "ss_Install s meta reader =
     (case exported (Some reader) of
        Inl e \<Rightarrow> (s, Some e)
      | Inr data \<Rightarrow> (s\<lparr>ss_latest := meta\<lparr>md_FileSize := word_of_nat (length data)\<rparr>, ss_data := data\<rparr>, None))"

definition ss_Cleanup :: "MemoryStore \<Rightarrow> int \<Rightarrow> MemoryStore" where
  "ss_Cleanup s keep = s"

subsection \<open>FileStore\<close>

record FileStore =
  fs_dir :: bytes
  fs_keep :: int

definition defaultKeepSnapshots :: int where
  "defaultKeepSnapshots = 2"

definition NewFileStore :: "bytes \<Rightarrow> FileStore" where
  "NewFileStore dir = \<lparr>fs_dir = dir, fs_keep = defaultKeepSnapshots\<rparr>"

definition snapshot_name :: "Metadata \<Rightarrow> bytes" where
  "snapshot_name m = ''snapshot-'' @ Format020 (unat (md_Term m)) @ ''-'' @ Format020 (unat (md_Index m))"

definition snapshotPath :: "FileStore \<Rightarrow> Metadata \<Rightarrow> bytes" where
  "snapshotPath s m = join_path (fs_dir s) (snapshot_name m @ ''.snap'')"

definition metadataPath :: "FileStore \<Rightarrow> Metadata \<Rightarrow> bytes" where
  "metadataPath s m = join_path (fs_dir s) (snapshot_name m @ ''.meta'')"

text \<open>A system call that changes no file: making a directory that exists, syncing, closing, reading.\<close>

definition os_call :: "disk \<Rightarrow> disk \<times> bool" where
  "os_call d = (case next_io d of (IoFail _, d') \<Rightarrow> (d', False) | (IoOk, d') \<Rightarrow> (d', True))"

definition os_ReadFile :: "bytes \<Rightarrow> disk \<Rightarrow> disk \<times> (snapshot_error + bytes)" where
  "os_ReadFile path d =
     (case os_call d of
        (d', False) \<Rightarrow> (d', Inl ErrSnapshotIO)
      | (d', True) \<Rightarrow>
          (d', case map_of (dk_files d') path of None \<Rightarrow> Inl ErrSnapshotNotExist | Some data \<Rightarrow> Inr data))"

definition meta_path :: "bytes \<Rightarrow> bytes \<Rightarrow> bool" where
  "meta_path dir path \<longleftrightarrow>
     HasPrefix path (dir @ ''/'') \<and> CHR ''/'' \<notin> set (drop (length dir + 1) path) \<and>
     HasSuffix (drop (length dir + 1) path) ''.meta''"

definition glob_meta :: "bytes \<Rightarrow> disk \<Rightarrow> bytes list" where
  "glob_meta dir d = sort (remdups (filter (meta_path dir) (map fst (dk_files d))))"

fun read_metas :: "bytes list \<Rightarrow> disk \<Rightarrow> disk \<times> (snapshot_error + Metadata list)" where
  "read_metas [] d = (d, Inr [])"
| "read_metas (path # paths) d =
     (case os_ReadFile path d of
        (d1, Inl e) \<Rightarrow> (d1, Inl e)
      | (d1, Inr data) \<Rightarrow>
          (case Unmarshal (into_struct metadata_fields) data zero_metadata of
             None \<Rightarrow> (d1, Inl ErrSnapshotJSON)
           | Some meta \<Rightarrow>
               (case read_metas paths d1 of
                  (d2, Inl e) \<Rightarrow> (d2, Inl e)
                | (d2, Inr metas) \<Rightarrow> (d2, Inr (meta # metas)))))"

text \<open>
  The newest first, by index and then by term. Two metadata files with the same index and term have the same path, so
  \<open>sort.Slice\<close> has no ties to break.
\<close>

definition sort_metas :: "Metadata list \<Rightarrow> Metadata list" where
  "sort_metas ms = rev (sort_key md_Index (sort_key md_Term ms))"

definition listMetadata :: "FileStore \<Rightarrow> disk \<Rightarrow> disk \<times> (snapshot_error + Metadata list)" where
  "listMetadata s d =
     (case os_call d of
        (d1, False) \<Rightarrow> (d1, Inl ErrSnapshotIO)
      | (d1, True) \<Rightarrow>
          (case read_metas (glob_meta (fs_dir s) d1) d1 of
             (d2, Inl e) \<Rightarrow> (d2, Inl e)
           | (d2, Inr metas) \<Rightarrow> (d2, Inr (sort_metas metas))))"

definition latestMetadata :: "FileStore \<Rightarrow> disk \<Rightarrow> disk \<times> (snapshot_error + Metadata)" where
  "latestMetadata s d =
     (case listMetadata s d of
        (d1, Inl e) \<Rightarrow> (d1, Inl e)
      | (d1, Inr metas) \<Rightarrow> (d1, if metas = [] then Inl ErrSnapshotNotFound else Inr (hd metas)))"

text \<open>The reader that is returned is the contents of the file.\<close>

definition OpenLatest :: "FileStore \<Rightarrow> disk \<Rightarrow> disk \<times> (snapshot_error + Metadata \<times> bytes)" where
  "OpenLatest s d =
     (case latestMetadata s d of
        (d1, Inl e) \<Rightarrow> (d1, Inl e)
      | (d1, Inr meta) \<Rightarrow>
          (case os_ReadFile (snapshotPath s meta) d1 of
             (d2, Inl e) \<Rightarrow> (d2, Inl e)
           | (d2, Inr data) \<Rightarrow> (d2, Inr (meta, data))))"

definition persistMetadata :: "FileStore \<Rightarrow> Metadata \<Rightarrow> disk \<Rightarrow> disk \<times> wal_error option" where
  "persistMetadata s meta d =
     (case os_WriteFile (metadataPath s meta @ ''.tmp'') (Marshal metadata_to_json meta) d of
        (d1, Some e) \<Rightarrow> (d1, Some e)
      | (d1, None) \<Rightarrow> os_Rename (metadataPath s meta @ ''.tmp'') (metadataPath s meta) d1)"

text \<open>The errors of the two removals are ignored.\<close>

fun remove_snapshots :: "FileStore \<Rightarrow> Metadata list \<Rightarrow> disk \<Rightarrow> disk" where
  "remove_snapshots s [] d = d"
| "remove_snapshots s (meta # metas) d =
     remove_snapshots s metas (fst (os_Remove (metadataPath s meta) (fst (os_Remove (snapshotPath s meta) d))))"

definition Cleanup :: "FileStore \<Rightarrow> int \<Rightarrow> disk \<Rightarrow> disk \<times> snapshot_error option" where
  "Cleanup s keep0 d =
     (let keep = (if keep0 \<le> 0 then fs_keep s else keep0) in
      case listMetadata s d of
        (d1, Inl e) \<Rightarrow> (d1, if e = ErrSnapshotNotExist then None else Some e)
      | (d1, Inr metas) \<Rightarrow>
          if int (length metas) \<le> keep then (d1, None)
          else (remove_snapshots s (drop (nat keep) metas) d1, None))"

text \<open>
  Opening the temporary file truncates it; then the exporter writes to the file and to the hash. When the write
  fails, some of its bytes are in the file.
\<close>

definition write_snapshot :: "bytes \<Rightarrow> Exporter option \<Rightarrow> disk \<Rightarrow> disk \<times> (snapshot_error + bytes)" where
  "write_snapshot tmpPath exporter d0 =
     (case os_call d0 of
        (d1, False) \<Rightarrow> (d1, Inl ErrSnapshotIO)
      | (d1, True) \<Rightarrow>
          (let d2 = set_file tmpPath [] d1 in
           case exporter of
             None \<Rightarrow> (d2, Inr [])
           | Some (data, ok) \<Rightarrow>
               (case os_WriteFile tmpPath data d2 of
                  (d3, Some e) \<Rightarrow> (d3, Inl ErrSnapshotIO)
                | (d3, None) \<Rightarrow> (d3, if ok then Inr data else Inl ErrExporter))))"

text \<open>Syncing, closing and asking for the size of the temporary file.\<close>

definition finish_snapshot :: "bytes \<Rightarrow> disk \<Rightarrow> disk \<times> (snapshot_error + nat)" where
  "finish_snapshot tmpPath d0 =
     (case os_call d0 of
        (d1, False) \<Rightarrow> (d1, Inl ErrSnapshotIO)
      | (d1, True) \<Rightarrow>
          (case os_call d1 of
             (d2, False) \<Rightarrow> (d2, Inl ErrSnapshotIO)
           | (d2, True) \<Rightarrow>
               (case os_ReadFile tmpPath d2 of
                  (d3, Inl e) \<Rightarrow> (d3, Inl e)
                | (d3, Inr contents) \<Rightarrow> (d3, Inr (length contents)))))"

definition tmp_snapshotPath :: "FileStore \<Rightarrow> Metadata \<Rightarrow> bytes" where
  "tmp_snapshotPath s meta = snapshotPath s meta @ ''.tmp''"

definition fs_Create :: "FileStore \<Rightarrow> Metadata \<Rightarrow> Exporter option \<Rightarrow> disk \<Rightarrow> disk \<times> (snapshot_error + Metadata)" where
  "fs_Create s meta exporter d0 =
     (let tmpPath = tmp_snapshotPath s meta in
      case os_call d0 of
        (d1, False) \<Rightarrow> (d1, Inl ErrSnapshotIO)
      | (d1, True) \<Rightarrow>
          (case write_snapshot tmpPath exporter d1 of
             (d2, Inl e) \<Rightarrow> (d2, Inl e)
           | (d2, Inr data) \<Rightarrow>
               (case finish_snapshot tmpPath d2 of
                  (d3, Inl e) \<Rightarrow> (d3, Inl e)
                | (d3, Inr sz) \<Rightarrow>
                    (let meta' = meta\<lparr>md_FileSize := word_of_nat sz,
                                      md_Checksum := hex_EncodeToString (Sum256 data)\<rparr> in
                     case os_Rename tmpPath (snapshotPath s meta') d3 of
                       (d4, Some e) \<Rightarrow> (d4, Inl ErrSnapshotIO)
                     | (d4, None) \<Rightarrow>
                         (case persistMetadata s meta' d4 of
                            (d5, Some e) \<Rightarrow> (d5, Inl ErrSnapshotIO)
                          | (d5, None) \<Rightarrow> (fst (Cleanup s (fs_keep s) d5), Inr meta'))))))"

definition fs_Install :: "FileStore \<Rightarrow> Metadata \<Rightarrow> Exporter \<Rightarrow> disk \<Rightarrow> disk \<times> snapshot_error option" where
  "fs_Install s meta reader d =
     (case fs_Create s meta (Some reader) d of (d', Inl e) \<Rightarrow> (d', Some e) | (d', Inr _) \<Rightarrow> (d', None))"

end
