(* ===== verification/Snapshot_Correct.thy ===== *)
theory Snapshot_Correct
  imports Snapshot Storage_Correct Wal_Correct
begin

text \<open>
  Correctness of the snapshot store on disk: listing and cleaning up, and that creating a snapshot is atomic under
  every pattern of failures.
\<close>

subsection \<open>Paths\<close>

lemma metadata_json:
  assumes "is_ascii (md_Checksum m)"
  shows "Unmarshal (into_struct metadata_fields) (Marshal metadata_to_json m) zero_metadata = Some m"
proof -
  have "wf_json (metadata_to_json m)" by (simp add: metadata_to_json_def)
  moreover have "into_struct metadata_fields (clean_json (metadata_to_json m)) zero_metadata = Some m"
    using assms by (simp add: metadata_to_json_def metadata_fields_def zero_metadata_def field_simps)
  ultimately show ?thesis by (simp add: Unmarshal_Marshal)
qed

lemma length_Format020 [simp]: "length (Format020 (unat (w :: u64))) = 20"
  by (simp add: Format020_fixed [OF unat_small])

lemma snapshot_name_inject:
  "snapshot_name m = snapshot_name n \<longleftrightarrow> md_Term m = md_Term n \<and> md_Index m = md_Index n"
  by (auto simp: snapshot_name_def Format020_inject [OF unat_small unat_small] word_unat_eq_iff)

lemma length_snapshot_name [simp]: "length (snapshot_name m) = 50"
  by (simp add: snapshot_name_def)

lemma path_inject [simp]:
  "metadataPath s m = metadataPath s n \<longleftrightarrow> md_Term m = md_Term n \<and> md_Index m = md_Index n"
  "snapshotPath s m = snapshotPath s n \<longleftrightarrow> md_Term m = md_Term n \<and> md_Index m = md_Index n"
  by (simp_all add: metadataPath_def snapshotPath_def join_path_def snapshot_name_inject)

lemma path_differ [simp]:
  "snapshotPath s m \<noteq> metadataPath s n" "snapshotPath s m @ ''.tmp'' \<noteq> metadataPath s n"
  "metadataPath s m @ ''.tmp'' \<noteq> metadataPath s n" "snapshotPath s m @ ''.tmp'' \<noteq> snapshotPath s n"
  "metadataPath s m @ ''.tmp'' \<noteq> snapshotPath s n"
  "metadataPath s n \<noteq> snapshotPath s m" "metadataPath s n \<noteq> snapshotPath s m @ ''.tmp''"
  "metadataPath s n \<noteq> metadataPath s m @ ''.tmp''" "snapshotPath s n \<noteq> snapshotPath s m @ ''.tmp''"
  "snapshotPath s n \<noteq> metadataPath s m @ ''.tmp''"
  by (auto simp: metadataPath_def snapshotPath_def join_path_def dest: arg_cong [where f = rev])

lemma meta_path_join: "CHR ''/'' \<notin> set n \<Longrightarrow> meta_path dir (join_path dir n) \<longleftrightarrow> HasSuffix n ''.meta''"
  by (simp add: meta_path_def join_path_def HasPrefix_iff)

lemma no_slash_name [simp]: "CHR ''/'' \<notin> set (snapshot_name m)"
  using no_slash_Format020 by (auto simp: snapshot_name_def)

lemma meta_paths [simp]:
  "meta_path (fs_dir s) (metadataPath s m)" "\<not> meta_path (fs_dir s) (snapshotPath s m)"
  "\<not> meta_path (fs_dir s) (snapshotPath s m @ ''.tmp'')" "\<not> meta_path (fs_dir s) (metadataPath s m @ ''.tmp'')"
proof -
  have "meta_path (fs_dir s) (join_path (fs_dir s) (snapshot_name m @ e)) \<longleftrightarrow> HasSuffix (snapshot_name m @ e) ''.meta''"
    if "CHR ''/'' \<notin> set e" for e using that by (intro meta_path_join) simp
  from this [of "''.meta''"] this [of "''.snap''"] this [of "''.snap.tmp''"] this [of "''.meta.tmp''"]
  show "meta_path (fs_dir s) (metadataPath s m)" "\<not> meta_path (fs_dir s) (snapshotPath s m)"
    "\<not> meta_path (fs_dir s) (snapshotPath s m @ ''.tmp'')" "\<not> meta_path (fs_dir s) (metadataPath s m @ ''.tmp'')"
    by (simp_all add: metadataPath_def snapshotPath_def HasSuffix_def join_path_def)
qed

subsection \<open>What is stored\<close>

abbreviation file_at :: "disk \<Rightarrow> bytes \<Rightarrow> bytes option" where
  "file_at d \<equiv> map_of (dk_files d)"

definition before :: "Metadata \<Rightarrow> Metadata \<Rightarrow> bool" where
  "before m n \<longleftrightarrow> md_Index m < md_Index n \<or> md_Index m = md_Index n \<and> md_Term m < md_Term n"

definition stored :: "FileStore \<Rightarrow> disk \<Rightarrow> Metadata \<Rightarrow> bool" where
  "stored s d m \<longleftrightarrow> is_ascii (md_Checksum m) \<and> file_at d (metadataPath s m) = Some (Marshal metadata_to_json m)"

text \<open>Every metadata file is the encoding of the metadata its name is made from.\<close>

definition metas_ok :: "FileStore \<Rightarrow> disk \<Rightarrow> bool" where
  "metas_ok s d \<longleftrightarrow>
     (\<forall>p x. meta_path (fs_dir s) p \<longrightarrow> file_at d p = Some x \<longrightarrow>
        (\<exists>m. p = metadataPath s m \<and> x = Marshal metadata_to_json m \<and> is_ascii (md_Checksum m)))"

text \<open>The data file of a snapshot is there and has the size and the checksum of the metadata.\<close>

definition intact :: "FileStore \<Rightarrow> disk \<Rightarrow> Metadata \<Rightarrow> bytes \<Rightarrow> bool" where
  "intact s d m data \<longleftrightarrow> file_at d (snapshotPath s m) = Some data \<and> md_FileSize m = word_of_nat (length data) \<and>
     md_Checksum m = hex_EncodeToString (Sum256 data)"

text \<open>The newest snapshot of the directory is the given one, and it is intact.\<close>

definition holds_latest :: "FileStore \<Rightarrow> disk \<Rightarrow> (Metadata \<times> bytes) option \<Rightarrow> bool" where
  "holds_latest s d r \<longleftrightarrow> metas_ok s d \<and>
     (case r of
        None \<Rightarrow> \<forall>m. \<not> stored s d m
      | Some (m, data) \<Rightarrow> stored s d m \<and> (\<forall>n. stored s d n \<longrightarrow> n = m \<or> before n m) \<and> intact s d m data)"

lemma marshal_metadata_inject:
  assumes "is_ascii (md_Checksum m)" "is_ascii (md_Checksum n)"
    "Marshal metadata_to_json m = Marshal metadata_to_json n"
  shows "m = n"
proof -
  have "Some m = Some n"
    by (rule trans [OF metadata_json [OF assms(1), symmetric, unfolded assms(3)] metadata_json [OF assms(2)]])
  then show ?thesis by (rule option.inject [THEN iffD1])
qed

lemma stored_unique:
  assumes "stored s d m" "stored s d n" "md_Term m = md_Term n" "md_Index m = md_Index n"
  shows "m = n"
proof -
  have "metadataPath s m = metadataPath s n" using assms(3,4) by simp
  then have "Marshal metadata_to_json m = Marshal metadata_to_json n"
    using assms(1,2) unfolding stored_def by (metis option.inject)
  with assms(1,2) show ?thesis unfolding stored_def by (blast intro: marshal_metadata_inject)
qed

lemma metas_okD:
  "metas_ok s d \<Longrightarrow> meta_path (fs_dir s) p \<Longrightarrow> file_at d p = Some x \<Longrightarrow>
     \<exists>m. p = metadataPath s m \<and> x = Marshal metadata_to_json m \<and> is_ascii (md_Checksum m)"
  unfolding metas_ok_def by blast

text \<open>Files that are not about the newest snapshot may change, and old metadata may vanish.\<close>

lemma holds_latest_frame:
  assumes h: "holds_latest s d r"
    and metas: "\<And>p. meta_path (fs_dir s) p \<Longrightarrow> file_at d' p = file_at d p \<or> file_at d' p = None"
    and kept: "\<And>m data. r = Some (m, data) \<Longrightarrow> file_at d' (metadataPath s m) = file_at d (metadataPath s m) \<and>
       file_at d' (snapshotPath s m) = file_at d (snapshotPath s m)"
  shows "holds_latest s d' r"
proof -
  have "metas_ok s d'"
    using h metas unfolding holds_latest_def metas_ok_def by (metis option.distinct(1))
  moreover have st: "stored s d m" if "stored s d' m" for m
    using that metas [of "metadataPath s m"] by (auto simp: stored_def)
  moreover have "stored s d' m \<and> intact s d' m data" if "r = Some (m, data)" for m data
    using kept [OF that] h that by (auto simp: holds_latest_def stored_def intact_def)
  ultimately show ?thesis using h by (cases r) (auto simp: holds_latest_def)
qed

lemma holds_latest_other:
  assumes "holds_latest s d r" "\<And>p. p \<notin> P \<Longrightarrow> file_at d' p = file_at d p"
    "\<And>p. p \<in> P \<Longrightarrow> \<not> meta_path (fs_dir s) p" "\<And>m data. r = Some (m, data) \<Longrightarrow> snapshotPath s m \<notin> P"
  shows "holds_latest s d' r"
proof (rule holds_latest_frame [OF assms(1)])
  show "file_at d' p = file_at d p \<or> file_at d' p = None" if "meta_path (fs_dir s) p" for p
    using assms(2,3) that by blast
  show "file_at d' (metadataPath s m) = file_at d (metadataPath s m) \<and>
      file_at d' (snapshotPath s m) = file_at d (snapshotPath s m)" if "r = Some (m, data)" for m data
    using assms(2) [of "metadataPath s m"] assms(2) [of "snapshotPath s m"] assms(3) [of "metadataPath s m"]
      assms(4) [OF that] meta_paths(1) by blast
qed

text \<open>The newer of a new snapshot and the present one.\<close>

definition newest :: "Metadata \<Rightarrow> bytes \<Rightarrow> (Metadata \<times> bytes) option \<Rightarrow> (Metadata \<times> bytes) option" where
  "newest n data r = (case r of None \<Rightarrow> Some (n, data) | Some (m, _) \<Rightarrow> if before m n then Some (n, data) else r)"

lemma before_linear: "before m n \<or> before n m \<or> md_Term m = md_Term n \<and> md_Index m = md_Index n"
  by (auto simp: before_def)

lemma before_trans: "before m n \<Longrightarrow> before n k \<Longrightarrow> before m k"
  by (auto simp: before_def)

lemma holds_latest_add:
  assumes h: "holds_latest s d r" and new: "file_at d (metadataPath s n) = None"
    and off: "\<And>p. p \<notin> P \<Longrightarrow> p \<noteq> metadataPath s n \<Longrightarrow> file_at d' p = file_at d p"
    and P: "\<And>p. p \<in> P \<Longrightarrow> \<not> meta_path (fs_dir s) p" "\<And>m data. r = Some (m, data) \<Longrightarrow> snapshotPath s m \<notin> P"
    and n: "stored s d' n" "intact s d' n data"
  shows "holds_latest s d' (newest n data r)"
proof -
  have ok: "metas_ok s d'"
    unfolding metas_ok_def
  proof (intro allI impI)
    fix p x assume p: "meta_path (fs_dir s) p" "file_at d' p = Some x"
    show "\<exists>m. p = metadataPath s m \<and> x = Marshal metadata_to_json m \<and> is_ascii (md_Checksum m)"
    proof (cases "p = metadataPath s n")
      case True
      with p n(1) show ?thesis by (auto simp: stored_def)
    next
      case False
      then have "file_at d p = Some x" using off P(1) p by metis
      with h p show ?thesis by (auto simp: holds_latest_def metas_ok_def)
    qed
  qed
  have st: "stored s d' m \<longleftrightarrow> m = n \<or> stored s d m" for m
  proof (cases "metadataPath s m = metadataPath s n")
    case True
    then have "\<not> stored s d m" using new unfolding stored_def by (metis option.distinct(1))
    moreover have "stored s d' m \<Longrightarrow> m = n" using True n(1) stored_unique by auto
    ultimately show ?thesis using n(1) by blast
  next
    case False
    then have "file_at d' (metadataPath s m) = file_at d (metadataPath s m)" using off P(1) meta_paths(1) by blast
    with False show ?thesis by (auto simp: stored_def)
  qed
  show ?thesis
  proof (cases r)
    case None
    with h ok st n show ?thesis by (simp add: holds_latest_def newest_def)
  next
    case (Some a)
    obtain m old where r: "r = Some (m, old)" using Some by (cases a) auto
    have m: "stored s d m" "intact s d m old" "\<And>k. stored s d k \<Longrightarrow> k = m \<or> before k m"
      using h r by (auto simp: holds_latest_def)
    have "file_at d' (snapshotPath s m) = file_at d (snapshotPath s m)" using off P(2) [OF r] path_differ(1) by blast
    then have "intact s d' m old" using m(2) by (simp add: intact_def)
    moreover have "metadataPath s m \<noteq> metadataPath s n" using m(1) new unfolding stored_def by (metis option.distinct(1))
    then have "\<not> before m n \<Longrightarrow> before n m" using before_linear [of m n] by auto
    ultimately show ?thesis
      using ok st n m r before_trans [of _ m n] by (auto simp: holds_latest_def newest_def)
  qed
qed

subsection \<open>System calls\<close>

lemma file_at_set [simp]: "file_at (set_file p x d) q = (if q = p then Some x else file_at d q)"
  by (simp add: set_file_def update_conv)

lemma file_at_drop [simp]: "file_at (drop_file p d) q = (if q = p then None else file_at d q)"
  by (simp add: drop_file_def delete_conv)

lemma file_at_outcomes [simp]: "file_at (d\<lparr>dk_outcomes := os\<rparr>) = file_at d"
  by simp

lemma next_io_facts: "next_io d = (i, d') \<Longrightarrow> dk_files d' = dk_files d \<and> (dk_outcomes d = [] \<longrightarrow> i = IoOk \<and> d' = d)"
  by (auto simp: next_io_def split: list.splits)

lemma os_call_files: "os_call d = (d', b) \<Longrightarrow> file_at d' = file_at d \<and> (dk_outcomes d = [] \<longrightarrow> b \<and> d' = d)"
  using next_io_facts by (fastforce simp: os_call_def split: prod.splits io.splits)

lemma os_ReadFile_files:
  "os_ReadFile p d = (d', r) \<Longrightarrow> file_at d' = file_at d \<and> (\<forall>x. r = Inr x \<longrightarrow> file_at d p = Some x) \<and>
     (dk_outcomes d = [] \<longrightarrow> d' = d \<and> r = (case file_at d p of None \<Rightarrow> Inl ErrSnapshotNotExist | Some x \<Rightarrow> Inr x))"
  by (auto simp: os_ReadFile_def dest!: os_call_files split: prod.splits bool.splits option.splits)

lemma os_WriteFile_files:
  "os_WriteFile p x d = (d', e) \<Longrightarrow> (\<forall>q. q \<noteq> p \<longrightarrow> file_at d' q = file_at d q) \<and> (e = None \<longrightarrow> file_at d' p = Some x) \<and>
     (dk_outcomes d = [] \<longrightarrow> e = None \<and> dk_outcomes d' = [])"
  by (auto simp: os_WriteFile_def set_file_def update_conv dest!: next_io_facts split: prod.splits io.splits)

lemma os_Rename_files:
  "os_Rename p q d = (d', e) \<Longrightarrow> p \<noteq> q \<Longrightarrow> (\<forall>x. x \<noteq> p \<longrightarrow> x \<noteq> q \<longrightarrow> file_at d' x = file_at d x) \<and>
     (e \<noteq> None \<longrightarrow> file_at d' = file_at d) \<and> (e = None \<longrightarrow> file_at d' q = file_at d p) \<and>
     (dk_outcomes d = [] \<longrightarrow> file_at d p \<noteq> None \<longrightarrow> e = None \<and> dk_outcomes d' = [])"
  by (auto simp: os_Rename_def set_file_def drop_file_def update_conv delete_conv dest!: next_io_facts
      split: prod.splits io.splits option.splits)

lemma os_Remove_files:
  "os_Remove p d = (d', e) \<Longrightarrow> (\<forall>q. q \<noteq> p \<longrightarrow> file_at d' q = file_at d q) \<and> (file_at d' p = file_at d p \<or> file_at d' p = None) \<and>
     (dk_outcomes d = [] \<longrightarrow> dk_outcomes d' = [] \<and> file_at d' p = None)"
  by (auto simp: os_Remove_def drop_file_def delete_conv dest!: next_io_facts split: prod.splits io.splits)

subsection \<open>Listing\<close>

lemma read_metas_files:
  "read_metas ps d = (d', r) \<Longrightarrow> file_at d' = file_at d \<and> (dk_outcomes d = [] \<longrightarrow> d' = d)"
  by (induction ps d arbitrary: d' r rule: read_metas.induct)
    (fastforce dest!: os_ReadFile_files split: prod.splits sum.splits option.splits)+

lemma read_metas_ok:
  assumes "read_metas ps d = (d', Inr ms)" "\<And>p. p \<in> set ps \<Longrightarrow> meta_path (fs_dir s) p" "metas_ok s d"
  shows "map (metadataPath s) ms = ps \<and> (\<forall>m \<in> set ms. stored s d m)"
  using assms
proof (induction ps arbitrary: d d' ms)
  case (Cons p ps)
  obtain d1 x where 1: "os_ReadFile p d = (d1, Inr x)"
    using Cons.prems(1) by (auto split: prod.splits sum.splits)
  have f: "file_at d1 = file_at d" "file_at d p = Some x" using os_ReadFile_files [OF 1] by auto
  obtain m where m: "p = metadataPath s m" "x = Marshal metadata_to_json m" "is_ascii (md_Checksum m)"
    using metas_okD [OF Cons.prems(3) Cons.prems(2) f(2)] by auto
  have u: "Unmarshal (into_struct metadata_fields) x zero_metadata = Some m"
    unfolding m(2) by (rule metadata_json [OF m(3)])
  obtain d2 ms' where 2: "read_metas ps d1 = (d2, Inr ms')" "ms = m # ms'"
    using Cons.prems(1) 1 u by (auto split: prod.splits sum.splits)
  have "metas_ok s d1" using Cons.prems(3) f(1) by (simp add: metas_ok_def)
  from Cons.IH [OF 2(1) Cons.prems(2) [OF list.set_intros(2)] this] have "map (metadataPath s) ms' = ps \<and> (\<forall>m \<in> set ms'. stored s d1 m)" by auto
  with 2 m f show ?case by (simp add: stored_def)
qed simp

lemma read_metas_total:
  "dk_outcomes d = [] \<Longrightarrow> metas_ok s d \<Longrightarrow> (\<And>p. p \<in> set ps \<Longrightarrow> meta_path (fs_dir s) p \<and> file_at d p \<noteq> None) \<Longrightarrow>
     \<exists>ms. read_metas ps d = (d, Inr ms)"
proof (induction ps)
  case (Cons p ps)
  then obtain x where x: "file_at d p = Some x" by fastforce
  obtain m where m: "x = Marshal metadata_to_json m" "is_ascii (md_Checksum m)"
    using metas_okD [OF Cons.prems(2) _ x] Cons.prems(3) [of p] by auto
  have u: "Unmarshal (into_struct metadata_fields) x zero_metadata = Some m"
    unfolding m(1) by (rule metadata_json [OF m(2)])
  have "os_ReadFile p d = (d, Inr x)"
    by (simp add: os_ReadFile_def os_call_def next_io_def Cons.prems(1) x)
  moreover obtain ms where "read_metas ps d = (d, Inr ms)"
    using Cons.IH [OF Cons.prems(1,2)] Cons.prems(3) by (meson list.set_intros(2))
  ultimately show ?case using u by simp
qed simp

lemma set_glob_meta: "set (glob_meta dir d) = {p. meta_path dir p \<and> file_at d p \<noteq> None}"
  by (auto simp: glob_meta_def map_of_eq_None_iff)

lemma distinct_glob_meta: "distinct (glob_meta dir d)"
  by (simp add: glob_meta_def)

lemma sorted_last_max: "sorted xs \<Longrightarrow> x \<in> set xs \<Longrightarrow> x \<le> last xs"
  by (induction xs) auto

lemma last_sort_keys:
  fixes f g :: "'a \<Rightarrow> 'b::linorder"
  assumes "x \<in> set xs"
  defines "l \<equiv> sort_key f (sort_key g xs)"
  shows "f x < f (last l) \<or> f x = f (last l) \<and> g x \<le> g (last l)"
proof -
  have x: "x \<in> set l" using assms by simp
  then have ne: "l \<noteq> []" by auto
  have "f x \<le> last (map f l)" using x by (intro sorted_last_max) (simp_all add: l_def)
  then have le: "f x \<le> f (last l)" using ne by (simp add: last_map)
  show ?thesis
  proof (cases "f x = f (last l)")
    case True
    let ?P = "\<lambda>y. f y = f (last l)"
    have "filter ?P l = filter ?P (sort_key g xs)" unfolding l_def by (rule sort_key_stable)
    then have "sorted (map g (filter ?P l))" using sorted_filter [of g "sort_key g xs" ?P] by simp
    moreover have x': "x \<in> set (filter ?P l)" using x True by simp
    ultimately have "g x \<le> last (map g (filter ?P l))" by (intro sorted_last_max) auto
    also have "\<dots> = g (last (filter ?P l))" using x' by (intro last_map) (auto simp: filter_empty_conv)
    also have "last (filter ?P l) = last l"
      using ne by (cases l rule: rev_cases) simp_all
    finally show ?thesis using True by simp
  qed (use le in simp)
qed

text \<open>What a listing returns: the stored metadata, each once, the newest first.\<close>

lemma listMetadata_files:
  "listMetadata s d = (d', r) \<Longrightarrow> file_at d' = file_at d \<and> (dk_outcomes d = [] \<longrightarrow> d' = d)"
  by (auto simp: listMetadata_def dest!: os_call_files read_metas_files split: prod.splits bool.splits sum.splits)

lemma listMetadata_ok:
  assumes l: "listMetadata s d = (d', Inr ms)" and ok: "metas_ok s d"
  shows "distinct ms" "set ms = {m. stored s d m}" "\<forall>m \<in> set ms. m = hd ms \<or> before m (hd ms)"
proof -
  obtain d1 xs where xs: "read_metas (glob_meta (fs_dir s) d1) d1 = (d', Inr xs)" and ms: "ms = sort_metas xs"
    and f: "file_at d1 = file_at d"
    using l by (auto simp: listMetadata_def dest!: os_call_files split: prod.splits bool.splits sum.splits)
  have ok1: "metas_ok s d1" using ok f by (simp add: metas_ok_def)
  have p: "map (metadataPath s) xs = glob_meta (fs_dir s) d1" and st1: "\<And>m. m \<in> set xs \<Longrightarrow> stored s d1 m"
    using read_metas_ok [OF xs _ ok1] set_glob_meta by auto
  have st: "stored s d1 = stored s d" using f by (simp add: stored_def fun_eq_iff)
  have dx: "distinct xs" using p distinct_glob_meta by (metis distinct_map)
  have "m \<in> set xs" if "stored s d m" for m
  proof -
    have "metadataPath s m \<in> set (glob_meta (fs_dir s) d1)" using that f by (simp add: set_glob_meta stored_def)
    then obtain n where n: "n \<in> set xs" "metadataPath s n = metadataPath s m" using p by (metis imageE list.set_map)
    then have "n = m" using that st1 st by (intro stored_unique [of s d]) auto
    with n show ?thesis by simp
  qed
  then have sx: "set xs = {m. stored s d m}" using st1 st by auto
  show "distinct ms" using dx by (simp add: ms sort_metas_def)
  show sm: "set ms = {m. stored s d m}" using sx by (simp add: ms sort_metas_def)
  show "\<forall>m \<in> set ms. m = hd ms \<or> before m (hd ms)"
  proof
    fix m assume m: "m \<in> set ms"
    let ?l = "sort_key md_Index (sort_key md_Term xs)"
    have h: "hd ms = last ?l" by (simp add: ms sort_metas_def hd_rev)
    have "m \<in> set xs" using m sx sm by simp
    from last_sort_keys [OF this, of md_Index md_Term]
    have "before m (hd ms) \<or> md_Term m = md_Term (hd ms) \<and> md_Index m = md_Index (hd ms)"
      by (auto simp: before_def h)
    moreover have "hd ms \<in> set ms" using m by (cases ms) auto
    then have "stored s d m" "stored s d (hd ms)" using m sm by auto
    ultimately show "m = hd ms \<or> before m (hd ms)" using stored_unique [of s d m "hd ms"] by blast
  qed
qed

lemma listMetadata_total:
  assumes "dk_outcomes d = []" "metas_ok s d"
  shows "\<exists>ms. listMetadata s d = (d, Inr ms)"
proof -
  have "os_call d = (d, True)" using assms(1) by (simp add: os_call_def next_io_def)
  moreover obtain xs where "read_metas (glob_meta (fs_dir s) d) d = (d, Inr xs)"
    using read_metas_total [OF assms, of "glob_meta (fs_dir s) d"] set_glob_meta by auto
  ultimately show ?thesis by (simp add: listMetadata_def)
qed

lemma holds_latest_hd:
  assumes h: "holds_latest s d r" and l: "listMetadata s d = (d', Inr ms)"
  shows "case r of None \<Rightarrow> ms = [] | Some (m, data) \<Rightarrow> ms \<noteq> [] \<and> hd ms = m"
proof (cases r)
  case None
  with h listMetadata_ok(2) [OF l] show ?thesis by (auto simp: holds_latest_def)
next
  case (Some a)
  obtain m data where r: "r = Some (m, data)" using Some by (cases a) auto
  have ok: "metas_ok s d" using h by (simp add: holds_latest_def)
  have m: "m \<in> set ms" "\<And>n. n \<in> set ms \<Longrightarrow> n = m \<or> before n m"
    using h listMetadata_ok(2) [OF l ok] r by (auto simp: holds_latest_def)
  then have "m = hd ms \<or> before m (hd ms)" "hd ms = m \<or> before (hd ms) m"
    using listMetadata_ok(3) [OF l ok] by (cases ms; auto)+
  then have "hd ms = m" by (auto simp: before_def)
  with m r show ?thesis by auto
qed

lemma OpenLatest_ok:
  assumes h: "holds_latest s d r" and no: "dk_outcomes d = []"
  shows "OpenLatest s d = (d, case r of None \<Rightarrow> Inl ErrSnapshotNotFound | Some x \<Rightarrow> Inr x)"
proof -
  obtain ms where l: "listMetadata s d = (d, Inr ms)"
    using listMetadata_total [OF no] h by (auto simp: holds_latest_def)
  show ?thesis
  proof (cases r)
    case None
    with holds_latest_hd [OF h l] l show ?thesis by (simp add: OpenLatest_def latestMetadata_def)
  next
    case (Some a)
    obtain m data where r: "r = Some (m, data)" using Some by (cases a) auto
    have "file_at d (snapshotPath s m) = Some data" using h r by (simp add: holds_latest_def intact_def)
    then have "os_ReadFile (snapshotPath s m) d = (d, Inr data)"
      by (simp add: os_ReadFile_def os_call_def next_io_def no)
    with holds_latest_hd [OF h l] l r show ?thesis by (simp add: OpenLatest_def latestMetadata_def)
  qed
qed

subsection \<open>Cleaning up\<close>

lemma holds_latest_remove:
  assumes h: "holds_latest s d r"
    and other: "\<And>m data. r = Some (m, data) \<Longrightarrow> md_Term m \<noteq> md_Term k \<or> md_Index m \<noteq> md_Index k"
  shows "holds_latest s (fst (os_Remove (metadataPath s k) (fst (os_Remove (snapshotPath s k) d)))) r"
proof -
  obtain d1 e1 d2 e2 where 1: "os_Remove (snapshotPath s k) d = (d1, e1)" and 2: "os_Remove (metadataPath s k) d1 = (d2, e2)"
    by (metis surj_pair)
  have "holds_latest s d2 r"
  proof (rule holds_latest_frame [OF h])
    fix p assume p: "meta_path (fs_dir s) p"
    then have "p \<noteq> snapshotPath s k" by auto
    then have "file_at d1 p = file_at d p" using os_Remove_files [OF 1] by blast
    then show "file_at d2 p = file_at d p \<or> file_at d2 p = None"
      using os_Remove_files [OF 2] by (cases "p = metadataPath s k") metis+
  next
    fix m data assume r: "r = Some (m, data)"
    have "metadataPath s m \<noteq> metadataPath s k" "snapshotPath s m \<noteq> snapshotPath s k" using other [OF r] by auto
    then show "file_at d2 (metadataPath s m) = file_at d (metadataPath s m) \<and>
        file_at d2 (snapshotPath s m) = file_at d (snapshotPath s m)"
      using os_Remove_files [OF 1] os_Remove_files [OF 2] path_differ(1,6) by metis
  qed
  with 1 2 show ?thesis by simp
qed

lemma remove_snapshots_latest:
  assumes "holds_latest s d r"
    "\<And>m data k. r = Some (m, data) \<Longrightarrow> k \<in> set ks \<Longrightarrow> md_Term m \<noteq> md_Term k \<or> md_Index m \<noteq> md_Index k"
  shows "holds_latest s (remove_snapshots s ks d) r"
  using assms
proof (induction ks arbitrary: d)
  case (Cons k ks)
  then have "holds_latest s (fst (os_Remove (metadataPath s k) (fst (os_Remove (snapshotPath s k) d)))) r"
    by (intro holds_latest_remove) auto
  then show ?case using Cons by simp
qed simp

text \<open>Cleaning up never touches the newest snapshot, whatever fails.\<close>

lemma Cleanup_latest:
  assumes h: "holds_latest s d r" and keep: "0 < (if keep \<le> 0 then fs_keep s else keep)"
  shows "holds_latest s (fst (Cleanup s keep d)) r"
proof -
  obtain d1 res where l: "listMetadata s d = (d1, res)" by (metis surj_pair)
  have h1: "holds_latest s d1 r"
    using listMetadata_files [OF l] by (intro holds_latest_frame [OF h]) auto
  have ok: "metas_ok s d" using h by (simp add: holds_latest_def)
  show ?thesis
  proof (cases res)
    case (Inl e)
    with l h1 show ?thesis by (simp add: Cleanup_def)
  next
    case (Inr ms)
    let ?k = "nat (if keep \<le> 0 then fs_keep s else keep)"
    have "md_Term m \<noteq> md_Term k \<or> md_Index m \<noteq> md_Index k"
      if r: "r = Some (m, data)" and k: "k \<in> set (drop ?k ms)" for m data k
    proof -
      have l': "listMetadata s d = (d1, Inr ms)" using l Inr by simp
      have m: "ms \<noteq> []" "hd ms = m" using holds_latest_hd [OF h l'] r by auto
      have "hd ms \<notin> set (tl ms)" using m(1) listMetadata_ok(1) [OF l' ok] by (cases ms) auto
      moreover have "set (drop ?k ms) \<subseteq> set (tl ms)"
        using keep set_drop_subset [of "?k - 1" "tl ms"] drop_Suc [of "?k - 1" ms] by simp
      ultimately have "k \<noteq> m" using m k by auto
      moreover have "m \<in> set ms" "k \<in> set ms" using m hd_in_set [of ms] in_set_dropD [OF k] by simp_all
      then have "stored s d m" "stored s d k" using listMetadata_ok(2) [OF l' ok] by simp_all
      ultimately show ?thesis using stored_unique [of s d m k] by blast
    qed
    then have "holds_latest s (remove_snapshots s (drop ?k ms) d1) r"
      by (intro remove_snapshots_latest [OF h1]) auto
    with l Inr h1 show ?thesis by (simp add: Cleanup_def Let_def)
  qed
qed

subsection \<open>Creating\<close>

lemma write_snapshot_files:
  assumes "write_snapshot p (Some (data, ok)) d = (d', r)"
  shows "(\<forall>q. q \<noteq> p \<longrightarrow> file_at d' q = file_at d q) \<and> (\<forall>x. r = Inr x \<longrightarrow> x = data \<and> file_at d' p = Some data) \<and>
     (dk_outcomes d = [] \<longrightarrow> ok \<longrightarrow> r = Inr data \<and> dk_outcomes d' = [])"
proof -
  obtain d1 b where 1: "os_call d = (d1, b)" by (metis surj_pair)
  obtain d3 e where 3: "os_WriteFile p data (set_file p [] d1) = (d3, e)" by (metis surj_pair)
  have o: "dk_outcomes (set_file p [] d1) = dk_outcomes d1" by (simp add: set_file_def)
  show ?thesis
  proof (cases b)
    case True
    then show ?thesis
      using assms 1 3 os_call_files [OF 1] os_WriteFile_files [OF 3] o
      by (cases e) (auto simp: write_snapshot_def Let_def split: if_splits)
  next
    case False
    then show ?thesis using assms 1 os_call_files [OF 1] by (auto simp: write_snapshot_def)
  qed
qed

lemma finish_snapshot_files:
  assumes "finish_snapshot p d = (d', r)"
  shows "file_at d' = file_at d" "\<And>n. r = Inr n \<Longrightarrow> \<exists>x. file_at d p = Some x \<and> n = length x"
    "dk_outcomes d = [] \<Longrightarrow> file_at d p = Some x \<Longrightarrow> r = Inr (length x) \<and> dk_outcomes d' = []"
  using assms
  by (auto simp: finish_snapshot_def dest!: os_call_files os_ReadFile_files split: prod.splits bool.splits sum.splits)

lemma persistMetadata_files:
  assumes "persistMetadata s m d = (d', e)"
  shows "\<forall>q. q \<noteq> metadataPath s m \<longrightarrow> q \<noteq> metadataPath s m @ ''.tmp'' \<longrightarrow> file_at d' q = file_at d q"
    "e \<noteq> None \<Longrightarrow> file_at d' (metadataPath s m) = file_at d (metadataPath s m)"
    "e = None \<Longrightarrow> file_at d' (metadataPath s m) = Some (Marshal metadata_to_json m)"
    "dk_outcomes d = [] \<Longrightarrow> e = None \<and> dk_outcomes d' = []"
proof -
  let ?t = "metadataPath s m @ ''.tmp''"
  obtain d1 e1 where 1: "os_WriteFile ?t (Marshal metadata_to_json m) d = (d1, e1)" by (metis surj_pair)
  obtain d2 e2 where 2: "os_Rename ?t (metadataPath s m) d1 = (d2, e2)" by (metis surj_pair)
  note w = os_WriteFile_files [OF 1] and r = os_Rename_files [OF 2 path_differ(3)]
  have eq: "(d', e) = (if e1 = None then (d2, e2) else (d1, e1))"
    using assms 1 2 by (cases e1) (auto simp: persistMetadata_def)
  show "\<forall>q. q \<noteq> metadataPath s m \<longrightarrow> q \<noteq> ?t \<longrightarrow> file_at d' q = file_at d q"
    using eq w r by (auto split: if_splits)
  show "e \<noteq> None \<Longrightarrow> file_at d' (metadataPath s m) = file_at d (metadataPath s m)"
    using eq w r path_differ(3) [of s m m] by (auto split: if_splits)
  show "e = None \<Longrightarrow> file_at d' (metadataPath s m) = Some (Marshal metadata_to_json m)"
    using eq w r by (auto split: if_splits)
  show "dk_outcomes d = [] \<Longrightarrow> e = None \<and> dk_outcomes d' = []"
    using eq w r by (auto split: if_splits)
qed

definition completed :: "Metadata \<Rightarrow> bytes \<Rightarrow> Metadata" where
  "completed meta data =
     meta\<lparr>md_FileSize := word_of_nat (length data), md_Checksum := hex_EncodeToString (Sum256 data)\<rparr>"

lemma completed_simps [simp]:
  "md_Term (completed meta data) = md_Term meta" "md_Index (completed meta data) = md_Index meta"
  "md_FileSize (completed meta data) = word_of_nat (length data)"
  "md_Checksum (completed meta data) = hex_EncodeToString (Sum256 data)"
  by (simp_all add: completed_def)

text \<open>Up to the renaming of the metadata file only files that no listing and no present snapshot uses change.\<close>

lemma fs_Create_prefix:
  assumes "fs_Create s meta (Some (data, ok)) d = (d', res)"
  defines "P \<equiv> {snapshotPath s meta, snapshotPath s meta @ ''.tmp'', metadataPath s meta @ ''.tmp''}"
  shows "(\<exists>e. res = Inl e) \<and> (\<forall>q. q \<notin> P \<longrightarrow> file_at d' q = file_at d q) \<or>
     (\<exists>d5. res = Inr (completed meta data) \<and> d' = fst (Cleanup s (fs_keep s) d5) \<and>
        (\<forall>q. q \<notin> P \<longrightarrow> q \<noteq> metadataPath s meta \<longrightarrow> file_at d5 q = file_at d q) \<and>
        file_at d5 (metadataPath s meta) = Some (Marshal metadata_to_json (completed meta data)) \<and>
        file_at d5 (snapshotPath s meta) = Some data)"
    "dk_outcomes d = [] \<Longrightarrow> ok \<Longrightarrow> \<exists>m. res = Inr m"
proof -
  let ?t = "snapshotPath s meta @ ''.tmp''" and ?m = "completed meta data"
  have path: "snapshotPath s ?m = snapshotPath s meta" "metadataPath s ?m = metadataPath s meta" by simp_all
  obtain d1 b where 1: "os_call d = (d1, b)" by (metis surj_pair)
  obtain d2 r2 where 2: "write_snapshot ?t (Some (data, ok)) d1 = (d2, r2)" by (metis surj_pair)
  obtain d3 r3 where 3: "finish_snapshot ?t d2 = (d3, r3)" by (metis surj_pair)
  obtain d4 e4 where 4: "os_Rename ?t (snapshotPath s meta) d3 = (d4, e4)" by (metis surj_pair)
  obtain d5 e5 where 5: "persistMetadata s ?m d4 = (d5, e5)" by (metis surj_pair)
  note f1 = os_call_files [OF 1] and f2 = write_snapshot_files [OF 2] and f3 = finish_snapshot_files [OF 3]
    and f4 = os_Rename_files [OF 4 path_differ(4)] and f5 = persistMetadata_files [OF 5, unfolded path]
  have run: "(d', res) =
     (if \<not> b then (d1, Inl ErrSnapshotIO) else
      case r2 of Inl e \<Rightarrow> (d2, Inl e) | Inr x \<Rightarrow>
      (case r3 of Inl e \<Rightarrow> (d3, Inl e) | Inr sz \<Rightarrow>
       if e4 \<noteq> None then (d4, Inl ErrSnapshotIO)
       else if e5 \<noteq> None then (d5, Inl ErrSnapshotIO)
       else (fst (Cleanup s (fs_keep s) d5), Inr ?m)))"
  proof -
    have eq: "meta\<lparr>md_FileSize := word_of_nat sz, md_Checksum := hex_EncodeToString (Sum256 x)\<rparr> = ?m"
      if "r2 = Inr x" "r3 = Inr sz" for x sz
      using that f2 f3(2) [OF that(2)] by (auto simp: completed_def)
    show ?thesis
      using assms(1) 1 2 3 4 5 eq
      by (auto simp: path fs_Create_def tmp_snapshotPath_def Let_def split: sum.splits bool.splits option.splits)
  qed
  have P: "?t \<in> P" "snapshotPath s meta \<in> P" "metadataPath s meta @ ''.tmp'' \<in> P" "metadataPath s meta \<notin> P"
    by (simp_all add: P_def)
  show "(\<exists>e. res = Inl e) \<and> (\<forall>q. q \<notin> P \<longrightarrow> file_at d' q = file_at d q) \<or>
     (\<exists>d5. res = Inr (completed meta data) \<and> d' = fst (Cleanup s (fs_keep s) d5) \<and>
        (\<forall>q. q \<notin> P \<longrightarrow> q \<noteq> metadataPath s meta \<longrightarrow> file_at d5 q = file_at d q) \<and>
        file_at d5 (metadataPath s meta) = Some (Marshal metadata_to_json (completed meta data)) \<and>
        file_at d5 (snapshotPath s meta) = Some data)"
  proof (cases "\<exists>x. r2 = Inr x \<and> (\<exists>sz. r3 = Inr sz) \<and> b \<and> e4 = None \<and> e5 = None")
    case True
    then have d': "res = Inr ?m" "d' = fst (Cleanup s (fs_keep s) d5)" "e4 = None" "e5 = None" "r2 = Inr data"
      using run f2 by auto
    have "file_at d4 (snapshotPath s meta) = Some data" using f2 f3(1) f4 d' by simp
    then have "file_at d5 (snapshotPath s meta) = Some data" using f5(1) by simp
    moreover have "file_at d5 q = file_at d q" if "q \<notin> P" "q \<noteq> metadataPath s meta" for q
      using that P f1 f2 f3(1) f4 f5(1) by metis
    ultimately show ?thesis using d' f5(3) by blast
  next
    case False
    have "\<exists>e. res = Inl e" using run False by (auto split: sum.splits if_splits)
    moreover have "file_at d' q = file_at d q" if "q \<notin> P" for q
    proof -
      have q: "q \<noteq> ?t" "q \<noteq> snapshotPath s meta" "q \<noteq> metadataPath s meta @ ''.tmp''" using that P by metis+
      have a: "file_at d1 q = file_at d q" "file_at d2 q = file_at d q" "file_at d3 q = file_at d q" "file_at d4 q = file_at d q"
        using q f1 f2 f3(1) f4 by metis+
      have "file_at d5 q = file_at d q" if "e5 \<noteq> None"
        using f5(1,2) a(4) q that by (cases "q = metadataPath s meta") metis+
      with a False run show ?thesis by (auto split: sum.splits if_splits)
    qed
    ultimately show ?thesis by blast
  qed
  show "\<exists>m. res = Inr m" if no: "dk_outcomes d = []" and ok
  proof -
    have d1: "b" "d1 = d" using f1 no by blast+
    then have 1: "b" "r2 = Inr data" "dk_outcomes d2 = []" using f2 no \<open>ok\<close> by blast+
    then have t: "file_at d2 ?t = Some data" using f2 by blast
    from f3(3) [OF 1(3) t] have 3: "r3 = Inr (length data)" "dk_outcomes d3 = []" by simp_all
    have "file_at d3 ?t \<noteq> None" using f3(1) t by simp
    with f4 3 have 4: "e4 = None" "dk_outcomes d4 = []" by blast+
    have "e5 = None" using f5(4) [OF 4(2)] by blast
    then show ?thesis using run 1 3 4 by simp
  qed
qed

lemma fs_Create_any:
  assumes run: "fs_Create s meta (Some (data, ok)) d = (d', res)" and h: "holds_latest s d r"
    and new: "file_at d (metadataPath s meta) = None" and keep: "0 < fs_keep s"
  shows "(\<exists>e. res = Inl e) \<and> holds_latest s d' r \<or>
     res = Inr (completed meta data) \<and> holds_latest s d' (newest (completed meta data) data r)"
proof -
  let ?P = "{snapshotPath s meta, snapshotPath s meta @ ''.tmp'', metadataPath s meta @ ''.tmp''}" and ?m = "completed meta data"
  have P: "\<not> meta_path (fs_dir s) p" if "p \<in> ?P" for p using that by auto
  have Pr: "snapshotPath s m \<notin> ?P" if "r = Some (m, x)" for m x
  proof -
    have "stored s d m" using h that by (simp add: holds_latest_def)
    then have "metadataPath s m \<noteq> metadataPath s meta" using new unfolding stored_def by (metis option.distinct(1))
    then show ?thesis by auto
  qed
  have path: "metadataPath s ?m = metadataPath s meta" "snapshotPath s ?m = snapshotPath s meta" by simp_all
  from fs_Create_prefix(1) [OF run] show ?thesis
  proof
    assume a: "(\<exists>e. res = Inl e) \<and> (\<forall>q. q \<notin> ?P \<longrightarrow> file_at d' q = file_at d q)"
    then have "holds_latest s d' r" by (intro holds_latest_other [OF h _ P Pr]) auto
    with a show ?thesis by blast
  next
    assume "\<exists>d5. res = Inr ?m \<and> d' = fst (Cleanup s (fs_keep s) d5) \<and>
        (\<forall>q. q \<notin> ?P \<longrightarrow> q \<noteq> metadataPath s meta \<longrightarrow> file_at d5 q = file_at d q) \<and>
        file_at d5 (metadataPath s meta) = Some (Marshal metadata_to_json ?m) \<and>
        file_at d5 (snapshotPath s meta) = Some data"
    then obtain d5 where 5: "res = Inr ?m" "d' = fst (Cleanup s (fs_keep s) d5)"
      "\<And>q. q \<notin> ?P \<Longrightarrow> q \<noteq> metadataPath s meta \<Longrightarrow> file_at d5 q = file_at d q"
      "file_at d5 (metadataPath s meta) = Some (Marshal metadata_to_json ?m)" "file_at d5 (snapshotPath s meta) = Some data"
      by blast
    have "stored s d5 ?m" unfolding stored_def path using 5(4) hex_ascii by simp
    moreover have "intact s d5 ?m data" unfolding intact_def path using 5(5) by simp
    ultimately have "holds_latest s d5 (newest ?m data r)"
      using 5(3) new by (intro holds_latest_add [OF h _ _ P Pr]) (simp_all only: path)
    then have "holds_latest s d' (newest ?m data r)" unfolding 5(2) by (rule Cleanup_latest) (simp add: keep)
    with 5(1) show ?thesis by blast
  qed
qed

text \<open>C15. Creating a snapshot is atomic, whatever fails. Let the newest snapshot in the directory be intact. Then
  creating another one, with any pattern of failing or interrupted system calls, either returns an error and leaves
  the same newest snapshot, or returns the completed metadata and leaves the newer of the two; what opening the
  latest snapshot then returns is complete and has the size and the checksum of its metadata. Without failures the
  creation succeeds. The index and term must not be those of a snapshot that is already stored.\<close>

theorem snapshot_create_atomic:
  assumes "holds_latest s d r" "file_at d (metadataPath s meta) = None" "0 < fs_keep s"
  shows "\<exists>d' res r'. fs_Create s meta (Some (data, ok)) d = (d', res) \<and> holds_latest s d' r' \<and>
     (case res of Inl e \<Rightarrow> r' = r \<and> (dk_outcomes d \<noteq> [] \<or> \<not> ok)
      | Inr m \<Rightarrow> m = completed meta data \<and> r' = newest m data r) \<and>
     snd (OpenLatest s (d'\<lparr>dk_outcomes := []\<rparr>)) = (case r' of None \<Rightarrow> Inl ErrSnapshotNotFound | Some x \<Rightarrow> Inr x)"
proof -
  obtain d' res where run: "fs_Create s meta (Some (data, ok)) d = (d', res)" by (metis surj_pair)
  have o: "snd (OpenLatest s (d'\<lparr>dk_outcomes := []\<rparr>)) = (case r' of None \<Rightarrow> Inl ErrSnapshotNotFound | Some x \<Rightarrow> Inr x)"
    if "holds_latest s d' r'" for r'
  proof -
    have "holds_latest s (d'\<lparr>dk_outcomes := []\<rparr>) r'" by (rule holds_latest_frame [OF that]) simp_all
    from OpenLatest_ok [OF this] show ?thesis by simp
  qed
  from fs_Create_any [OF run assms] show ?thesis
  proof
    assume a: "(\<exists>e. res = Inl e) \<and> holds_latest s d' r"
    then have "dk_outcomes d \<noteq> [] \<or> \<not> ok" using fs_Create_prefix(2) [OF run] by auto
    with a run o show ?thesis by (intro exI [of _ d'] exI [of _ res] exI [of _ r]) auto
  next
    assume a: "res = Inr (completed meta data) \<and> holds_latest s d' (newest (completed meta data) data r)"
    then show ?thesis using run o
      by (intro exI [of _ d'] exI [of _ res] exI [of _ "newest (completed meta data) data r"]) simp
  qed
qed

theorem snapshot_create_atomic_witness:
  "\<exists>d'. fs_Create (NewFileStore ''s'') (zero_metadata\<lparr>md_Index := 7\<rparr>) (Some (''abc'', True)) \<lparr>dk_files = [], dk_outcomes = []\<rparr> =
       (d', Inr (completed (zero_metadata\<lparr>md_Index := 7\<rparr>) ''abc'')) \<and>
     snd (OpenLatest (NewFileStore ''s'') (d'\<lparr>dk_outcomes := []\<rparr>)) =
       Inr (completed (zero_metadata\<lparr>md_Index := 7\<rparr>) ''abc'', ''abc'')"
proof -
  let ?s = "NewFileStore ''s''" and ?d = "\<lparr>dk_files = [], dk_outcomes = []\<rparr>" and ?m = "zero_metadata\<lparr>md_Index := 7\<rparr>"
  have h: "holds_latest ?s ?d None" by (simp add: holds_latest_def metas_ok_def stored_def)
  have k: "file_at ?d (metadataPath ?s ?m) = None" "0 < fs_keep ?s" by (simp_all add: NewFileStore_def defaultKeepSnapshots_def)
  from snapshot_create_atomic [OF h k, of "''abc''" True] obtain d' res r' where
    "fs_Create ?s ?m (Some (''abc'', True)) ?d = (d', res)"
    "case res of Inl e \<Rightarrow> r' = None \<and> (dk_outcomes ?d \<noteq> [] \<or> \<not> True)
     | Inr m \<Rightarrow> m = completed ?m ''abc'' \<and> r' = newest m ''abc'' None"
    "snd (OpenLatest ?s (d'\<lparr>dk_outcomes := []\<rparr>)) = (case r' of None \<Rightarrow> Inl ErrSnapshotNotFound | Some x \<Rightarrow> Inr x)"
    by blast
  then show ?thesis by (cases res) (simp_all add: newest_def)
qed

end
