(* ===== verification/Transport.thy ===== *)
theory Transport
  imports Snapshot
begin

text \<open>
  Traffic between nodes: the message types and their protobuf forms (\<open>internal/transport/grpc/types.go\<close>), the
  gRPC handlers (\<open>server.go\<close>) and the client's streams (\<open>client.go\<close>), the address book, the forwarding of Raft messages and the
  transfer of snapshots in chunks (\<open>internal/runtime\<close>).

  gRPC itself is not part of the sources: a stream is the list of what its \<open>Recv\<close> returns, and dialling, sending
  and closing are functions of a \<open>network\<close>. The Raft node behind the service is a type parameter with its two operations as
  arguments.
\<close>

subsection \<open>Messages\<close>

record RaftEnvelope =
  re_From :: u64
  re_To :: u64
  re_Payload :: bytes

record RaftMessageBatch =
  rb_Messages :: "RaftEnvelope list"

record SnapshotMetadata =
  sm_Term :: u64
  sm_Index :: u64
  sm_ConfState :: bytes
  sm_Checksum :: bytes
  sm_FileSize :: u64

record SnapshotChunk =
  sc_Metadata :: SnapshotMetadata
  sc_Data :: bytes
  sc_Offset :: u64
  sc_EOF :: bool

definition zero_SnapshotMetadata :: SnapshotMetadata where
  "zero_SnapshotMetadata = \<lparr>sm_Term = 0, sm_Index = 0, sm_ConfState = [], sm_Checksum = [], sm_FileSize = 0\<rparr>"

definition zero_SnapshotChunk :: SnapshotChunk where
  "zero_SnapshotChunk = \<lparr>sc_Metadata = zero_SnapshotMetadata, sc_Data = [], sc_Offset = 0, sc_EOF = False\<rparr>"

text \<open>The generated protobuf messages; a pointer that may be nil is an option.\<close>

record pb_envelope =
  pe_From :: u64
  pe_To :: u64
  pe_Payload :: bytes

record pb_metadata =
  pm_Term :: u64
  pm_Index :: u64
  pm_ConfState :: bytes
  pm_Checksum :: bytes
  pm_FileSize :: u64

record pb_chunk =
  pc_Metadata :: "pb_metadata option"
  pc_Data :: bytes
  pc_Offset :: u64
  pc_Eof :: bool

definition toProtoRaftBatch :: "RaftMessageBatch \<Rightarrow> pb_envelope option list" where
  "toProtoRaftBatch batch =
     map (\<lambda>m. Some \<lparr>pe_From = re_From m, pe_To = re_To m, pe_Payload = re_Payload m\<rparr>) (rb_Messages batch)"

definition fromProtoRaftBatch :: "pb_envelope option list option \<Rightarrow> RaftMessageBatch" where
  "fromProtoRaftBatch batch =
     \<lparr>rb_Messages =
        (case batch of
           None \<Rightarrow> []
         | Some ms \<Rightarrow> map (\<lambda>m. \<lparr>re_From = pe_From m, re_To = pe_To m, re_Payload = pe_Payload m\<rparr>)
             (map the (filter (\<lambda>m. m \<noteq> None) ms)))\<rparr>"

definition toProtoSnapshotMetadata :: "SnapshotMetadata \<Rightarrow> pb_metadata" where
  "toProtoSnapshotMetadata meta =
     \<lparr>pm_Term = sm_Term meta, pm_Index = sm_Index meta, pm_ConfState = sm_ConfState meta,
      pm_Checksum = sm_Checksum meta, pm_FileSize = sm_FileSize meta\<rparr>"

definition fromProtoSnapshotMetadata :: "pb_metadata option \<Rightarrow> SnapshotMetadata" where
  "fromProtoSnapshotMetadata meta =
     (case meta of
        None \<Rightarrow> zero_SnapshotMetadata
      | Some m \<Rightarrow> \<lparr>sm_Term = pm_Term m, sm_Index = pm_Index m, sm_ConfState = pm_ConfState m,
          sm_Checksum = pm_Checksum m, sm_FileSize = pm_FileSize m\<rparr>)"

definition toProtoSnapshotChunk :: "SnapshotChunk \<Rightarrow> pb_chunk" where
  "toProtoSnapshotChunk chunk =
     \<lparr>pc_Metadata = Some (toProtoSnapshotMetadata (sc_Metadata chunk)), pc_Data = sc_Data chunk,
      pc_Offset = sc_Offset chunk, pc_Eof = sc_EOF chunk\<rparr>"

definition fromProtoInstallChunk :: "pb_chunk option \<Rightarrow> SnapshotChunk" where
  "fromProtoInstallChunk chunk =
     (case chunk of
        None \<Rightarrow> zero_SnapshotChunk
      | Some c \<Rightarrow> \<lparr>sc_Metadata = fromProtoSnapshotMetadata (pc_Metadata c), sc_Data = pc_Data c,
          sc_Offset = pc_Offset c, sc_EOF = pc_Eof c\<rparr>)"

definition fromProtoDownloadChunk :: "pb_chunk option \<Rightarrow> SnapshotChunk" where
  "fromProtoDownloadChunk chunk =
     (case chunk of
        None \<Rightarrow> zero_SnapshotChunk
      | Some c \<Rightarrow> \<lparr>sc_Metadata = fromProtoSnapshotMetadata (pc_Metadata c), sc_Data = pc_Data c,
          sc_Offset = pc_Offset c, sc_EOF = pc_Eof c\<rparr>)"

subsection \<open>Splitting and assembling snapshots\<close>

definition DefaultSnapshotChunk :: nat where
  "DefaultSnapshotChunk = 64 * 1024"

text \<open>The loop of \<open>splitSnapshotChunks\<close> from an offset on, for a positive chunk size.\<close>

function split_chunks :: "SnapshotMetadata \<Rightarrow> bytes \<Rightarrow> nat \<Rightarrow> nat \<Rightarrow> SnapshotChunk list" where
  "split_chunks meta data chunkSize offset =
     (if offset < length data \<and> 0 < chunkSize then
        (let end = (if offset + chunkSize > length data then length data else offset + chunkSize) in
         \<lparr>sc_Metadata = meta, sc_Data = take (end - offset) (drop offset data), sc_Offset = word_of_nat offset,
          sc_EOF = (end = length data)\<rparr> # split_chunks meta data chunkSize (offset + chunkSize))
      else [])"
  by pat_completeness auto
termination by (relation "measure (\<lambda>(meta, data, chunkSize, offset). length data - offset)") auto

declare split_chunks.simps [simp del]

definition splitSnapshotChunks :: "SnapshotMetadata \<Rightarrow> bytes \<Rightarrow> int \<Rightarrow> SnapshotChunk list" where
  "splitSnapshotChunks meta data chunkSize0 =
     (let chunkSize = (if chunkSize0 \<le> 0 then DefaultSnapshotChunk else nat chunkSize0) in
      if data = [] then [\<lparr>sc_Metadata = meta, sc_Data = [], sc_Offset = 0, sc_EOF = True\<rparr>]
      else split_chunks meta data chunkSize 0)"

record snapshotInstallSession =
  is_meta :: SnapshotMetadata
  is_buf :: bytes

record 'n InternalTransportService =
  ts_node :: 'n
  ts_install :: "(bytes, snapshotInstallSession) gomap"

datatype 'e transport_error = UnexpectedOffset u64 nat | MessageDecode | NodeError 'e | StreamError
  | SnapshotNotFound u64 u64

definition NewInternalTransportService :: "'n \<Rightarrow> 'n InternalTransportService" where
  "NewInternalTransportService node = \<lparr>ts_node = node, ts_install = []\<rparr>"

definition snapshotKey :: "u64 \<Rightarrow> u64 \<Rightarrow> bytes" where
  "snapshotKey term index = FormatUint (unat term) @ ''-'' @ FormatUint (unat index)"

text \<open>Decoding a Raft message and stepping the node are the arguments.\<close>

fun SendRaftMessages ::
  "(bytes \<Rightarrow> 'm option) \<Rightarrow> ('m \<Rightarrow> 'n \<Rightarrow> 'n \<times> 'e option) \<Rightarrow> RaftEnvelope list \<Rightarrow> 'n InternalTransportService \<Rightarrow>
     'n InternalTransportService \<times> 'e transport_error option" where
  "SendRaftMessages decode step [] s = (s, None)"
| "SendRaftMessages decode step (envelope # rest) s =
     (case decode (re_Payload envelope) of
        None \<Rightarrow> (s, Some MessageDecode)
      | Some message \<Rightarrow>
          (case step message (ts_node s) of
             (n, Some e) \<Rightarrow> (s\<lparr>ts_node := n\<rparr>, Some (NodeError e))
           | (n, None) \<Rightarrow> SendRaftMessages decode step rest (s\<lparr>ts_node := n\<rparr>)))"

text \<open>\<open>install\<close> is \<open>RaftNode.InstallSnapshot\<close>.\<close>

definition InstallSnapshotChunk ::
  "(Metadata \<Rightarrow> bytes \<Rightarrow> 'n \<Rightarrow> 'n \<times> 'e option) \<Rightarrow> SnapshotChunk \<Rightarrow> 'n InternalTransportService \<Rightarrow>
     'n InternalTransportService \<times> 'e transport_error option" where
  "InstallSnapshotChunk install chunk s0 =
     (let key = snapshotKey (sm_Term (sc_Metadata chunk)) (sm_Index (sc_Metadata chunk));
          session = (case map_of (ts_install s0) key of
                       Some session \<Rightarrow> session
                     | None \<Rightarrow> \<lparr>is_meta = sc_Metadata chunk, is_buf = []\<rparr>);
          s = s0\<lparr>ts_install := AList.update key session (ts_install s0)\<rparr> in
      if sc_Offset chunk \<noteq> word_of_nat (length (is_buf session))
      then (s, Some (UnexpectedOffset (sc_Offset chunk) (length (is_buf session))))
      else
        let buf = is_buf session @ sc_Data chunk;
            s1 = s\<lparr>ts_install := AList.update key (session\<lparr>is_buf := buf\<rparr>) (ts_install s)\<rparr> in
        if \<not> sc_EOF chunk then (s1, None)
        else
          let s2 = s1\<lparr>ts_install := AList.delete key (ts_install s1)\<rparr>;
              meta = \<lparr>md_Term = sm_Term (sc_Metadata chunk), md_Index = sm_Index (sc_Metadata chunk),
                      md_ConfState = sm_ConfState (sc_Metadata chunk), md_Checksum = sm_Checksum (sc_Metadata chunk),
                      md_FileSize = sm_FileSize (sc_Metadata chunk)\<rparr> in
          (case install meta buf (ts_node s2) of
             (n, Some e) \<Rightarrow> (s2\<lparr>ts_node := n\<rparr>, Some (NodeError e))
           | (n, None) \<Rightarrow> (s2\<lparr>ts_node := n\<rparr>, None)))"

text \<open>The argument is what \<open>OpenLatest\<close> of the snapshot store returns.\<close>

definition DownloadSnapshot ::
  "'e + Metadata \<times> bytes \<Rightarrow> u64 \<Rightarrow> u64 \<Rightarrow> 'e transport_error + SnapshotChunk list" where
  "DownloadSnapshot latest term index =
     (case latest of
        Inl e \<Rightarrow> Inl (NodeError e)
      | Inr (meta, data) \<Rightarrow>
          if term \<noteq> 0 \<and> index \<noteq> 0 \<and> (md_Term meta \<noteq> term \<or> md_Index meta \<noteq> index)
          then Inl (SnapshotNotFound term index)
          else Inr (splitSnapshotChunks
            \<lparr>sm_Term = md_Term meta, sm_Index = md_Index meta, sm_ConfState = md_ConfState meta,
             sm_Checksum = md_Checksum meta, sm_FileSize = md_FileSize meta\<rparr> data (int DefaultSnapshotChunk)))"

subsection \<open>gRPC handlers and streams\<close>

datatype recv = RecvChunk pb_chunk | RecvEOF | RecvError

text \<open>\<open>Server.Send\<close> without its metrics.\<close>

definition Server_Send ::
  "(bytes \<Rightarrow> 'm option) \<Rightarrow> ('m \<Rightarrow> 'n \<Rightarrow> 'n \<times> 'e option) \<Rightarrow> pb_envelope option list option \<Rightarrow>
     'n InternalTransportService \<Rightarrow> 'n InternalTransportService \<times> 'e transport_error option" where
  "Server_Send decode step batch s = SendRaftMessages decode step (rb_Messages (fromProtoRaftBatch batch)) s"

text \<open>
  \<open>Server.Install\<close>: what the stream delivers, in order; when nothing more comes the connection is gone. The response is
  the term and index.
\<close>

fun Server_Install ::
  "(Metadata \<Rightarrow> bytes \<Rightarrow> 'n \<Rightarrow> 'n \<times> 'e option) \<Rightarrow> recv list \<Rightarrow> 'n InternalTransportService \<Rightarrow>
     'n InternalTransportService \<times> ('e transport_error + u64 \<times> u64)" where
  "Server_Install install [] s = (s, Inl StreamError)"
| "Server_Install install (RecvEOF # rest) s = (s, Inr (0, 0))"
| "Server_Install install (RecvError # rest) s = (s, Inl StreamError)"
| "Server_Install install (RecvChunk chunk # rest) s =
     (case InstallSnapshotChunk install (fromProtoInstallChunk (Some chunk)) s of
        (s', Some e) \<Rightarrow> (s', Inl e)
      | (s', None) \<Rightarrow>
          if pc_Eof chunk then
            (s', Inr (case pc_Metadata chunk of None \<Rightarrow> (0, 0) | Some m \<Rightarrow> (pm_Term m, pm_Index m)))
          else Server_Install install rest s')"

text \<open>\<open>Server.Download\<close>: the messages it sends when sending does not fail.\<close>

definition Server_Download ::
  "'e + Metadata \<times> bytes \<Rightarrow> u64 \<Rightarrow> u64 \<Rightarrow> 'e transport_error + pb_chunk list" where
  "Server_Download latest term index =
     and_then (DownloadSnapshot latest term index) (\<lambda>chunks. Inr (map toProtoSnapshotChunk chunks))"

text \<open>\<open>PeerClient.DownloadSnapshot\<close>: reading the stream up to its end or the last chunk.\<close>

fun Client_Download :: "recv list \<Rightarrow> 'e transport_error + SnapshotChunk list" where
  "Client_Download [] = Inl StreamError"
| "Client_Download (RecvEOF # rest) = Inr []"
| "Client_Download (RecvError # rest) = Inl StreamError"
| "Client_Download (RecvChunk chunk # rest) =
     (if pc_Eof chunk then Inr [fromProtoDownloadChunk (Some chunk)]
      else and_then (Client_Download rest) (\<lambda>chunks. Inr (fromProtoDownloadChunk (Some chunk) # chunks)))"

subsection \<open>Addresses\<close>

record AddressBook =
  ab_httpByID :: "(u64, bytes) gomap"
  ab_grpcByID :: "(u64, bytes) gomap"
  ab_adminByID :: "(u64, bytes) gomap"

definition copy_map :: "(u64, bytes) gomap \<Rightarrow> (u64, bytes) gomap" where
  "copy_map m = foldl (\<lambda>c (k, v). AList.update k v c) [] m"

definition NewAddressBook :: "(u64, bytes) gomap \<Rightarrow> (u64, bytes) gomap \<Rightarrow> (u64, bytes) gomap \<Rightarrow> AddressBook" where
  "NewAddressBook httpAddrs grpcAddrs adminAddrs =
     \<lparr>ab_httpByID = copy_map httpAddrs, ab_grpcByID = copy_map grpcAddrs, ab_adminByID = copy_map adminAddrs\<rparr>"

definition addr_of :: "(u64, bytes) gomap \<Rightarrow> u64 \<Rightarrow> bytes" where
  "addr_of m node = (case map_of m node of None \<Rightarrow> [] | Some a \<Rightarrow> a)"

definition HTTPAddr :: "AddressBook \<Rightarrow> u64 \<Rightarrow> bytes" where
  "HTTPAddr b node = addr_of (ab_httpByID b) node"

definition GRPCAddr :: "AddressBook \<Rightarrow> u64 \<Rightarrow> bytes" where
  "GRPCAddr b node = addr_of (ab_grpcByID b) node"

definition AdminAddr :: "AddressBook \<Rightarrow> u64 \<Rightarrow> bytes" where
  "AdminAddr b node = addr_of (ab_adminByID b) node"

definition put_addr :: "u64 \<Rightarrow> bytes \<Rightarrow> (u64, bytes) gomap \<Rightarrow> (u64, bytes) gomap" where
  "put_addr node addr m = (if addr \<noteq> [] then AList.update node addr m else m)"

definition ab_Set :: "AddressBook \<Rightarrow> u64 \<Rightarrow> bytes \<Rightarrow> bytes \<Rightarrow> bytes \<Rightarrow> AddressBook" where
  "ab_Set b node httpAddr grpcAddr adminAddr =
     b\<lparr>ab_httpByID := put_addr node httpAddr (ab_httpByID b),
       ab_grpcByID := put_addr node grpcAddr (ab_grpcByID b),
       ab_adminByID := put_addr node adminAddr (ab_adminByID b)\<rparr>"

definition ab_Delete :: "AddressBook \<Rightarrow> u64 \<Rightarrow> AddressBook" where
  "ab_Delete b node =
     b\<lparr>ab_httpByID := AList.delete node (ab_httpByID b), ab_grpcByID := AList.delete node (ab_grpcByID b),
       ab_adminByID := AList.delete node (ab_adminByID b)\<rparr>"

definition SnapshotHTTP :: "AddressBook \<Rightarrow> (u64, bytes) gomap" where
  "SnapshotHTTP b = copy_map (ab_httpByID b)"

definition SnapshotGRPC :: "AddressBook \<Rightarrow> (u64, bytes) gomap" where
  "SnapshotGRPC b = copy_map (ab_grpcByID b)"

definition SnapshotAdmin :: "AddressBook \<Rightarrow> (u64, bytes) gomap" where
  "SnapshotAdmin b = copy_map (ab_adminByID b)"

end
