(* ===== verification/Transport_Correct.thy ===== *)
theory Transport_Correct
  imports Transport Wal_Correct
begin

text \<open>
  The transfer of snapshots between nodes: a complete transfer delivers what was sent, an interrupted one blocks the
  snapshot.
\<close>

lemma proto_metadata [simp]: "fromProtoSnapshotMetadata (Some (toProtoSnapshotMetadata m)) = m"
  by (simp add: fromProtoSnapshotMetadata_def toProtoSnapshotMetadata_def)

lemma proto_chunk [simp]:
  "fromProtoInstallChunk (Some (toProtoSnapshotChunk c)) = c" "fromProtoDownloadChunk (Some (toProtoSnapshotChunk c)) = c"
  by (simp_all add: fromProtoInstallChunk_def fromProtoDownloadChunk_def toProtoSnapshotChunk_def)

lemma proto_batch [simp]: "fromProtoRaftBatch (Some (toProtoRaftBatch b)) = b"
  by (cases b) (simp add: fromProtoRaftBatch_def toProtoRaftBatch_def comp_def filter_map map_idI)

subsection \<open>Transferring a snapshot\<close>

definition sent :: "SnapshotChunk list \<Rightarrow> recv list" where
  "sent chunks = map (RecvChunk \<circ> toProtoSnapshotChunk) chunks"

text \<open>What has been received so far of a snapshot.\<close>

definition received :: "'n InternalTransportService \<Rightarrow> SnapshotMetadata \<Rightarrow> bytes" where
  "received s meta =
     (case map_of (ts_install s) (snapshotKey (sm_Term meta) (sm_Index meta)) of None \<Rightarrow> [] | Some x \<Rightarrow> is_buf x)"

definition install_meta :: "SnapshotMetadata \<Rightarrow> Metadata" where
  "install_meta m = \<lparr>md_Term = sm_Term m, md_Index = sm_Index m, md_ConfState = sm_ConfState m,
     md_Checksum = sm_Checksum m, md_FileSize = sm_FileSize m\<rparr>"

definition others_alike :: "SnapshotMetadata \<Rightarrow> 'n InternalTransportService \<Rightarrow> 'n InternalTransportService \<Rightarrow> bool" where
  "others_alike meta s s' \<longleftrightarrow>
     (\<forall>k. k \<noteq> snapshotKey (sm_Term meta) (sm_Index meta) \<longrightarrow> map_of (ts_install s') k = map_of (ts_install s) k)"

lemma chunk_refused:
  assumes "sc_Offset c \<noteq> word_of_nat (length (received s (sc_Metadata c)))"
  shows "\<exists>s'. InstallSnapshotChunk install c s = (s', Some (UnexpectedOffset (sc_Offset c) (length (received s (sc_Metadata c))))) \<and>
     ts_node s' = ts_node s \<and> received s' (sc_Metadata c) = received s (sc_Metadata c)"
  using assms by (auto simp: InstallSnapshotChunk_def received_def Let_def update_conv split: option.splits)

lemma chunk_more:
  assumes "sc_Offset c = word_of_nat (length (received s (sc_Metadata c)))" "\<not> sc_EOF c"
  shows "\<exists>s'. InstallSnapshotChunk install c s = (s', None) \<and> ts_node s' = ts_node s \<and>
     received s' (sc_Metadata c) = received s (sc_Metadata c) @ sc_Data c \<and> others_alike (sc_Metadata c) s s'"
  using assms
  by (auto simp: InstallSnapshotChunk_def received_def others_alike_def Let_def update_conv split: option.splits)

lemma chunk_last:
  assumes "sc_Offset c = word_of_nat (length (received s (sc_Metadata c)))" "sc_EOF c"
    "install (install_meta (sc_Metadata c)) (received s (sc_Metadata c) @ sc_Data c) (ts_node s) = (n, e)"
  shows "\<exists>s'. InstallSnapshotChunk install c s = (s', map_option NodeError e) \<and> ts_node s' = n \<and>
     map_of (ts_install s') (snapshotKey (sm_Term (sc_Metadata c)) (sm_Index (sc_Metadata c))) = None \<and>
     others_alike (sc_Metadata c) s s'"
  using assms
  by (cases e; auto simp: InstallSnapshotChunk_def received_def others_alike_def install_meta_def Let_def update_conv delete_conv
      split: option.splits)

lemma others_alike_trans: "others_alike m s t \<Longrightarrow> others_alike m t u \<Longrightarrow> others_alike m s u"
  by (simp add: others_alike_def)

lemma Server_Install_sent:
  "Server_Install install (sent (c # cs) @ rest) s =
     (case InstallSnapshotChunk install c s of
        (s', Some e) \<Rightarrow> (s', Inl e)
      | (s', None) \<Rightarrow>
          if sc_EOF c then (s', Inr (sm_Term (sc_Metadata c), sm_Index (sc_Metadata c)))
          else Server_Install install (sent cs @ rest) s')"
proof -
  have "pc_Eof (toProtoSnapshotChunk c) = sc_EOF c" "pc_Metadata (toProtoSnapshotChunk c) = Some (toProtoSnapshotMetadata (sc_Metadata c))"
    "pm_Term (toProtoSnapshotMetadata m) = sm_Term m" "pm_Index (toProtoSnapshotMetadata m) = sm_Index m" for m
    by (simp_all add: toProtoSnapshotChunk_def toProtoSnapshotMetadata_def)
  then show ?thesis by (simp add: sent_def split: prod.split option.split)
qed

lemma install_chunks:
  assumes "0 < k" "offset < length data" "received s meta = take offset data"
    "install (install_meta meta) data (ts_node s) = (n, e)"
  shows "\<exists>s'. Server_Install install (sent (split_chunks meta data k offset) @ rest) s =
       (s', case e of None \<Rightarrow> Inr (sm_Term meta, sm_Index meta) | Some x \<Rightarrow> Inl (NodeError x)) \<and> ts_node s' = n \<and>
     map_of (ts_install s') (snapshotKey (sm_Term meta) (sm_Index meta)) = None \<and> others_alike meta s s'"
  using assms
proof (induction meta data k offset arbitrary: s rule: split_chunks.induct)
  case (1 meta data k offset)
  let ?stop = "if offset + k > length data then length data else offset + k"
  let ?c = "\<lparr>sc_Metadata = meta, sc_Data = take (?stop - offset) (drop offset data), sc_Offset = word_of_nat offset,
    sc_EOF = (?stop = length data)\<rparr>"
  have split: "split_chunks meta data k offset = ?c # split_chunks meta data k (offset + k)"
    using 1(2,3) by (subst split_chunks.simps) (simp add: Let_def)
  have off: "sc_Offset ?c = word_of_nat (length (received s (sc_Metadata ?c)))" using 1(3,4) by simp
  have data: "received s meta @ sc_Data ?c = take ?stop data"
    using 1(2-4) take_add [of offset k data] by (auto simp: min_def)
  show ?case
  proof (cases "?stop = length data")
    case True
    with data have "received s (sc_Metadata ?c) @ sc_Data ?c = data" by simp
    with 1(5) have run: "install (install_meta (sc_Metadata ?c)) (received s (sc_Metadata ?c) @ sc_Data ?c) (ts_node s) = (n, e)"
      by simp
    have eof: "sc_EOF ?c" using True by simp
    from chunk_last [of ?c s install, OF off eof run] obtain s' where
      "InstallSnapshotChunk install ?c s = (s', map_option NodeError e)" "ts_node s' = n"
      "map_of (ts_install s') (snapshotKey (sm_Term meta) (sm_Index meta)) = None" "others_alike meta s s'" by auto
    then show ?thesis unfolding split Server_Install_sent using True by (cases e) auto
  next
    case False
    then have "\<not> sc_EOF ?c" by simp
    from chunk_more [of ?c s install, OF off this] obtain s1 where
      s1: "InstallSnapshotChunk install ?c s = (s1, None)" "ts_node s1 = ts_node s"
        "received s1 meta = received s meta @ sc_Data ?c" "others_alike meta s s1" by auto
    have lt: "offset + k < length data" using False by (auto split: if_splits)
    then have r1: "received s1 meta = take (offset + k) data" using s1(3) data by simp
    have "install (install_meta meta) data (ts_node s1) = (n, e)" using 1(5) s1(2) by simp
    from 1(1) [OF _ refl, of s1, OF _ 1(2) lt r1 this] 1(2,3) obtain s' where
      s': "Server_Install install (sent (split_chunks meta data k (offset + k)) @ rest) s1 =
         (s', case e of None \<Rightarrow> Inr (sm_Term meta, sm_Index meta) | Some x \<Rightarrow> Inl (NodeError x))" "ts_node s' = n"
       "map_of (ts_install s') (snapshotKey (sm_Term meta) (sm_Index meta)) = None" "others_alike meta s1 s'" by blast
    show ?thesis
      unfolding split Server_Install_sent using s1(1) s' False others_alike_trans [OF s1(4) s'(4)] by auto
  qed
qed

lemma install_snapshot:
  assumes new: "map_of (ts_install s) (snapshotKey (sm_Term meta) (sm_Index meta)) = None"
    and run: "install (install_meta meta) data (ts_node s) = (n, e)"
  shows "\<exists>s'. Server_Install install (sent (splitSnapshotChunks meta data chunkSize)) s =
       (s', case e of None \<Rightarrow> Inr (sm_Term meta, sm_Index meta) | Some x \<Rightarrow> Inl (NodeError x)) \<and> ts_node s' = n \<and>
     map_of (ts_install s') = map_of (ts_install s)"
proof -
  let ?k = "snapshotKey (sm_Term meta) (sm_Index meta)"
  have "\<exists>s'. Server_Install install (sent (splitSnapshotChunks meta data chunkSize)) s =
       (s', case e of None \<Rightarrow> Inr (sm_Term meta, sm_Index meta) | Some x \<Rightarrow> Inl (NodeError x)) \<and> ts_node s' = n \<and>
     map_of (ts_install s') ?k = None \<and> others_alike meta s s'"
  proof (cases "data = []")
    case True
    let ?c = "\<lparr>sc_Metadata = meta, sc_Data = [], sc_Offset = 0, sc_EOF = True\<rparr>"
    have "install (install_meta (sc_Metadata ?c)) (received s (sc_Metadata ?c) @ sc_Data ?c) (ts_node s) = (n, e)"
      using run new True by (simp add: received_def)
    then obtain s' where "InstallSnapshotChunk install ?c s = (s', map_option NodeError e)" "ts_node s' = n"
      "map_of (ts_install s') ?k = None" "others_alike meta s s'"
      using chunk_last [of ?c s install n e] new by (auto simp: received_def)
    moreover have "splitSnapshotChunks meta data chunkSize = [?c]" using True by (simp add: splitSnapshotChunks_def)
    ultimately show ?thesis using Server_Install_sent [of install ?c "[]" "[]" s] by (cases e) auto
  next
    case False
    let ?size = "if chunkSize \<le> 0 then DefaultSnapshotChunk else nat chunkSize"
    have "splitSnapshotChunks meta data chunkSize = split_chunks meta data ?size 0"
      using False by (simp add: splitSnapshotChunks_def Let_def)
    moreover have "0 < ?size" by (simp add: DefaultSnapshotChunk_def)
    moreover have "received s meta = take 0 data" using new by (simp add: received_def)
    ultimately show ?thesis
      using install_chunks [of ?size 0 data s meta install n e "[]"] run False by simp
  qed
  then obtain s' where s': "Server_Install install (sent (splitSnapshotChunks meta data chunkSize)) s =
       (s', case e of None \<Rightarrow> Inr (sm_Term meta, sm_Index meta) | Some x \<Rightarrow> Inl (NodeError x))" "ts_node s' = n"
     "map_of (ts_install s') ?k = None" "others_alike meta s s'" by blast
  have "map_of (ts_install s') x = map_of (ts_install s) x" for x
    using s'(3,4) new by (cases "x = ?k") (auto simp: others_alike_def)
  then show ?thesis using s'(1,2) by (auto intro: exI [of _ s'] ext)
qed

text \<open>C16. A snapshot sent in chunks arrives whole. Splitting a snapshot of any size with any chunk size, encoding the chunks
  and feeding them to the receiving handler, with no transfer of the same snapshot under way, installs exactly the
  data and metadata that were sent, once; the answer is the snapshot's term and index, or the error of the
  installation, and no partial transfer stays behind.\<close>

theorem snapshot_transfer_roundtrip:
  assumes "map_of (ts_install s) (snapshotKey (sm_Term meta) (sm_Index meta)) = None"
    "install (install_meta meta) data (ts_node s) = (n, e)"
  shows "\<exists>s'. Server_Install install (sent (splitSnapshotChunks meta data chunkSize)) s =
       (s', case e of None \<Rightarrow> Inr (sm_Term meta, sm_Index meta) | Some x \<Rightarrow> Inl (NodeError x)) \<and> ts_node s' = n \<and>
     map_of (ts_install s') = map_of (ts_install s)"
  using assms by (rule install_snapshot)

definition sample_meta :: SnapshotMetadata where
  "sample_meta = zero_SnapshotMetadata\<lparr>sm_Term := 2, sm_Index := 9\<rparr>"

text \<open>A node that collects what is installed.\<close>

definition collect :: "Metadata \<Rightarrow> bytes \<Rightarrow> bytes list \<Rightarrow> bytes list \<times> unit option" where
  "collect m data n = (n @ [data], None)"

theorem snapshot_transfer_roundtrip_witness:
  "\<exists>s'. Server_Install collect (sent (splitSnapshotChunks sample_meta ''abcde'' 2)) (NewInternalTransportService []) =
       (s', Inr (2, 9)) \<and> ts_node s' = [''abcde'']"
  using snapshot_transfer_roundtrip [of "NewInternalTransportService []" sample_meta collect "''abcde''" "[''abcde'']" None 2]
  by (auto simp: NewInternalTransportService_def collect_def sample_meta_def)

subsection \<open>Interrupted transfers\<close>

lemma chunks_offsets:
  "c \<in> set (split_chunks meta data k offset) \<Longrightarrow> sc_Metadata c = meta"
  by (induction meta data k offset rule: split_chunks.induct) (subst (asm) split_chunks.simps, auto simp: Let_def split: if_splits)

lemma partial_chunks:
  assumes "0 < k" "offset < length data" "received s meta = take offset data" "j < length (split_chunks meta data k offset)"
  shows "\<exists>s'. Server_Install install (sent (take j (split_chunks meta data k offset)) @ [RecvError]) s = (s', Inl StreamError) \<and>
     ts_node s' = ts_node s \<and> received s' meta = take (offset + j * k) data \<and> offset + j * k < length data"
  using assms
proof (induction meta data k offset arbitrary: s j rule: split_chunks.induct)
  case (1 meta data k offset)
  let ?stop = "if offset + k > length data then length data else offset + k"
  let ?c = "\<lparr>sc_Metadata = meta, sc_Data = take (?stop - offset) (drop offset data), sc_Offset = word_of_nat offset,
    sc_EOF = (?stop = length data)\<rparr>"
  have split: "split_chunks meta data k offset = ?c # split_chunks meta data k (offset + k)"
    using 1(2,3) by (subst split_chunks.simps) (simp add: Let_def)
  show ?case
  proof (cases j)
    case 0
    then show ?thesis using 1(3,4) by (simp add: sent_def)
  next
    case (Suc i)
    have lt: "offset + k < length data"
    proof (rule ccontr)
      assume "\<not> offset + k < length data"
      then have "split_chunks meta data k (offset + k) = []" by (subst split_chunks.simps) simp
      with split 1(5) Suc show False by simp
    qed
    then have ne: "\<not> sc_EOF ?c" by simp
    have off: "sc_Offset ?c = word_of_nat (length (received s (sc_Metadata ?c)))" using 1(3,4) by simp
    from chunk_more [of ?c s install, OF off ne] obtain s1 where
      s1: "InstallSnapshotChunk install ?c s = (s1, None)" "ts_node s1 = ts_node s"
        "received s1 meta = received s meta @ sc_Data ?c" by auto
    have r1: "received s1 meta = take (offset + k) data"
      using s1(3) 1(3,4) lt take_add [of offset k data] by (auto simp: min_def)
    have "i < length (split_chunks meta data k (offset + k))" using 1(5) split Suc by simp
    from 1(1) [OF _ refl, of s1 i, OF _ 1(2) lt r1 this] 1(2,3) obtain s' where
      "Server_Install install (sent (take i (split_chunks meta data k (offset + k))) @ [RecvError]) s1 = (s', Inl StreamError)"
      "ts_node s' = ts_node s1" "received s' meta = take (offset + k + i * k) data" "offset + k + i * k < length data" by blast
    moreover have "take j (split_chunks meta data k offset) = ?c # take i (split_chunks meta data k (offset + k))"
      using split Suc by simp
    ultimately show ?thesis using s1 ne Suc by (simp only: Server_Install_sent) (auto simp: algebra_simps)
  qed
qed

lemma first_chunk:
  "\<exists>c cs. splitSnapshotChunks meta data chunkSize = c # cs \<and> sc_Metadata c = meta \<and> sc_Offset c = 0"
proof (cases "data = []")
  case False
  let ?size = "if chunkSize \<le> 0 then DefaultSnapshotChunk else nat chunkSize"
  have "splitSnapshotChunks meta data chunkSize = split_chunks meta data ?size 0"
    using False by (simp add: splitSnapshotChunks_def Let_def)
  moreover have "0 < ?size" by (simp add: DefaultSnapshotChunk_def)
  ultimately show ?thesis using False by (subst (asm) split_chunks.simps) (auto simp: Let_def)
qed (simp add: splitSnapshotChunks_def)

lemma blocked:
  assumes "received s meta \<noteq> []" "length (received s meta) < 2 ^ 64"
  shows "\<exists>s'. Server_Install install (sent (splitSnapshotChunks meta data chunkSize)) s =
       (s', Inl (UnexpectedOffset 0 (length (received s meta)))) \<and> ts_node s' = ts_node s \<and> received s' meta = received s meta"
proof -
  obtain c cs where c: "splitSnapshotChunks meta data chunkSize = c # cs" "sc_Metadata c = meta" "sc_Offset c = 0"
    using first_chunk by blast
  have "sc_Offset c \<noteq> word_of_nat (length (received s (sc_Metadata c)))"
    using assms c by (simp add: word_of_nat_eq_0_iff nat_dvd_not_less)
  from chunk_refused [OF this, of install] c show ?thesis
    using Server_Install_sent [of install c cs "[]" s] by auto
qed

text \<open>C40. An interrupted transfer blocks the snapshot for good. When the stream breaks after some but not all of the chunks,
  the receiver keeps what it got, and every later attempt to send the same snapshot, which starts at offset 0 again,
  is refused at its first chunk; the refusal changes nothing, so no number of retries helps.\<close>

theorem interrupted_transfer_blocks:
  assumes "map_of (ts_install s) (snapshotKey (sm_Term meta) (sm_Index meta)) = None" "length data < 2 ^ 64"
    "0 < j" "j < length (splitSnapshotChunks meta data chunkSize)"
  shows "\<exists>s1. Server_Install install (sent (take j (splitSnapshotChunks meta data chunkSize)) @ [RecvError]) s = (s1, Inl StreamError) \<and>
     ts_node s1 = ts_node s \<and> received s1 meta \<noteq> [] \<and>
     (\<forall>s2 data' chunkSize'. received s2 meta = received s1 meta \<longrightarrow>
        (\<exists>s3. Server_Install install (sent (splitSnapshotChunks meta data' chunkSize')) s2 =
             (s3, Inl (UnexpectedOffset 0 (length (received s1 meta)))) \<and>
           ts_node s3 = ts_node s2 \<and> received s3 meta = received s1 meta))"
proof -
  let ?size = "if chunkSize \<le> 0 then DefaultSnapshotChunk else nat chunkSize"
  have ne: "data \<noteq> []" using assms(3,4) by (auto simp: splitSnapshotChunks_def)
  then have sp: "splitSnapshotChunks meta data chunkSize = split_chunks meta data ?size 0"
    by (simp add: splitSnapshotChunks_def Let_def)
  have size: "0 < ?size" by (simp add: DefaultSnapshotChunk_def)
  have "received s meta = take 0 data" using assms(1) by (simp add: received_def)
  from partial_chunks [OF size _ this, of j install] assms(4) ne sp obtain s1 where
    s1: "Server_Install install (sent (take j (splitSnapshotChunks meta data chunkSize)) @ [RecvError]) s = (s1, Inl StreamError)"
      "ts_node s1 = ts_node s" "received s1 meta = take (j * ?size) data" "j * ?size < length data"
    by (auto simp del: mult_Suc)
  then have "received s1 meta \<noteq> []" using assms(3) size ne by simp
  moreover have "length (received s1 meta) < 2 ^ 64" using s1(3) assms(2) by simp
  ultimately show ?thesis using s1(1,2) blocked [of _ meta install] by metis
qed

theorem interrupted_transfer_blocks_witness:
  "\<exists>s1. Server_Install collect (sent (take 1 (splitSnapshotChunks sample_meta ''abcde'' 2)) @ [RecvError])
       (NewInternalTransportService []) = (s1, Inl StreamError) \<and>
     snd (Server_Install collect (sent (splitSnapshotChunks sample_meta ''abcde'' 2)) s1) =
       Inl (UnexpectedOffset 0 (length (received s1 sample_meta)))"
proof -
  have "length (splitSnapshotChunks sample_meta ''abcde'' 2) = 3" by code_simp
  with interrupted_transfer_blocks [of "NewInternalTransportService []" sample_meta "''abcde''" 1 2 collect]
  obtain s1 where "Server_Install collect (sent (take 1 (splitSnapshotChunks sample_meta ''abcde'' 2)) @ [RecvError])
       (NewInternalTransportService []) = (s1, Inl StreamError)"
    "\<forall>s2 data' chunkSize'. received s2 sample_meta = received s1 sample_meta \<longrightarrow>
        (\<exists>s3. Server_Install collect (sent (splitSnapshotChunks sample_meta data' chunkSize')) s2 =
             (s3, Inl (UnexpectedOffset 0 (length (received s1 sample_meta)))) \<and>
           ts_node s3 = ts_node s2 \<and> received s3 sample_meta = received s1 sample_meta)"
    by (auto simp: NewInternalTransportService_def)
  then show ?thesis by (metis snd_conv)
qed

end
