(* ===== verification/Raft_Types.thy ===== *)
theory Raft_Types
  imports Snapshot
begin

text \<open>
  The data that the Raft node exchanges with the rest of the program: its configuration (\<open>raftnode/config.go\<close>), status
  (\<open>node.go\<close>), ready batches (\<open>ready.go\<close>) and membership changes (\<open>confchange.go\<close>), and the parts of the etcd Raft
  library's messages that the program reads.
\<close>

subsection \<open>Messages of the Raft library\<close>

text \<open>\<open>raftpb.Entry\<close> and \<open>raftpb.HardState\<close> are those of the log. Entry types are 0 for normal entries, 1 and 2 for
  membership changes.\<close>

definition EntryNormal :: int where "EntryNormal = 0"

definition EntryConfChange :: int where "EntryConfChange = 1"

definition EntryConfChangeV2 :: int where "EntryConfChangeV2 = 2"

record ConfState =
  cs_Voters :: "u64 list"
  cs_Learners :: "u64 list"
  cs_VotersOutgoing :: "u64 list"
  cs_LearnersNext :: "u64 list"
  cs_AutoLeave :: bool

definition zero_ConfState :: ConfState where
  "zero_ConfState = \<lparr>cs_Voters = [], cs_Learners = [], cs_VotersOutgoing = [], cs_LearnersNext = [], cs_AutoLeave = False\<rparr>"

record raft_snapshot =
  rs_Data :: bytes
  rs_Index :: u64
  rs_Term :: u64
  rs_ConfState :: ConfState

definition IsEmptySnap :: "raft_snapshot \<Rightarrow> bool" where
  "IsEmptySnap s \<longleftrightarrow> rs_Index s = 0"

datatype message_type = MsgSnap | MsgOther bytes

record raft_message =
  rm_Type :: message_type
  rm_To :: u64
  rm_From :: u64
  rm_Snapshot :: raft_snapshot

datatype StateType = StateFollower | StateCandidate | StateLeader | StatePreCandidate

record raft_soft_state =
  ss_Lead :: u64
  ss_RaftState :: StateType

record raft_read_state =
  rd_Index :: u64
  rd_RequestCtx :: bytes

record raft_ready =
  rr_SoftState :: "raft_soft_state option"
  rr_HardState :: HardState
  rr_ReadStates :: "raft_read_state list"
  rr_Entries :: "Entry list"
  rr_Snapshot :: raft_snapshot
  rr_CommittedEntries :: "Entry list"
  rr_Messages :: "raft_message list"
  rr_MustSync :: bool

datatype conf_change_kind = ConfChangeAddNode | ConfChangeRemoveNodeKind | ConfChangeUpdateNode | ConfChangeAddLearnerNode

record conf_change =
  cc_Changes :: "(conf_change_kind \<times> u64) list"
  cc_Context :: bytes

subsection \<open>Roles, status and ready batches\<close>

datatype Role = RoleFollower | RoleCandidate | RoleLeader | RoleLearner

record Status =
  st_NodeID :: u64
  st_ClusterID :: u64
  st_LeaderID :: u64
  st_Role :: Role
  st_AppliedIndex :: u64
  st_CommitIndex :: u64
  st_Started :: bool
  st_Stopped :: bool

record SoftState =
  so_LeaderID :: u64
  so_Role :: Role

record ReadyHardState =
  rh_Term :: u64
  rh_Vote :: u64
  rh_Commit :: u64

record LogEntry =
  le_Index :: u64
  le_Term :: u64
  le_Type :: bytes
  le_Data :: bytes
  le_Raw :: Entry

record OutboundMessage =
  om_To :: u64
  om_From :: u64
  om_Type :: bytes
  om_Payload :: bytes
  om_Raw :: raft_message

record ReadySnapshot =
  rsn_Term :: u64
  rsn_Index :: u64
  rsn_ConfState :: bytes
  rsn_Checksum :: bytes

record Ready =
  ry_SoftState :: SoftState
  ry_HardState :: ReadyHardState
  ry_Entries :: "LogEntry list"
  ry_CommittedEntries :: "LogEntry list"
  ry_Messages :: "OutboundMessage list"
  ry_Snapshot :: "ReadySnapshot option"
  ry_MustSync :: bool

fun toRole :: "StateType \<Rightarrow> Role" where
  "toRole StateLeader = RoleLeader"
| "toRole StateCandidate = RoleCandidate"
| "toRole StateFollower = RoleFollower"
| "toRole StatePreCandidate = RoleCandidate"

subsection \<open>Membership changes\<close>

definition ConfChangeAddLearner :: bytes where "ConfChangeAddLearner = ''add_learner''"

definition ConfChangePromoteLearner :: bytes where "ConfChangePromoteLearner = ''promote_learner''"

definition ConfChangeRemoveNode :: bytes where "ConfChangeRemoveNode = ''remove_node''"

text \<open>The creation time is not read by any code and is left out.\<close>

record ConfChangeRequest =
  cr_Type :: bytes
  cr_NodeID :: u64
  cr_Context :: bytes

definition toConfChange :: "ConfChangeRequest \<Rightarrow> conf_change" where
  "toConfChange change =
     \<lparr>cc_Changes =
        [(if cr_Type change = ConfChangeAddLearner then ConfChangeAddLearnerNode
          else if cr_Type change = ConfChangePromoteLearner then ConfChangeAddNode
          else ConfChangeRemoveNodeKind, cr_NodeID change)],
      cc_Context = cr_Context change\<rparr>"

subsection \<open>Configuration\<close>

text \<open>Durations are nanoseconds.\<close>

record Config =
  cf_NodeID :: u64
  cf_ClusterID :: u64
  cf_DataDir :: bytes
  cf_Peers :: "u64 list"
  cf_TickInterval :: int
  cf_ElectionTick :: int
  cf_HeartbeatTick :: int
  cf_ReadyBufferSize :: int
  cf_LinearizableReadTimeout :: int
  cf_MaxSizePerMsg :: u64
  cf_MaxInflightMsgs :: int
  cf_SnapshotEntries :: u64
  cf_CompactRetainEntries :: u64
  cf_KeepSnapshots :: int
  cf_InitialAppliedIndex :: u64
  cf_InitialLeaderID :: u64

datatype config_error =
    NodeIDZero | ElectionTickTooSmall | TickIntervalNotPositive | ReadyBufferNotPositive | ReadTimeoutNotPositive
  | MaxSizeZero | MaxInflightNotPositive | SnapshotEntriesZero | KeepSnapshotsNotPositive

definition Validate :: "Config \<Rightarrow> config_error option" where
  "Validate c =
     (if cf_NodeID c = 0 then Some NodeIDZero
      else if cf_ElectionTick c \<le> cf_HeartbeatTick c then Some ElectionTickTooSmall
      else if cf_TickInterval c \<le> 0 then Some TickIntervalNotPositive
      else if cf_ReadyBufferSize c \<le> 0 then Some ReadyBufferNotPositive
      else if cf_LinearizableReadTimeout c \<le> 0 then Some ReadTimeoutNotPositive
      else if cf_MaxSizePerMsg c = 0 then Some MaxSizeZero
      else if cf_MaxInflightMsgs c \<le> 0 then Some MaxInflightNotPositive
      else if cf_SnapshotEntries c = 0 then Some SnapshotEntriesZero
      else if cf_KeepSnapshots c \<le> 0 then Some KeepSnapshotsNotPositive
      else None)"

definition WithDefaults :: "Config \<Rightarrow> Config" where
  "WithDefaults c =
     c\<lparr>cf_TickInterval := if cf_TickInterval c \<le> 0 then 100 * 10 ^ 6 else cf_TickInterval c,
       cf_ElectionTick := if cf_ElectionTick c \<le> 0 then 10 else cf_ElectionTick c,
       cf_HeartbeatTick := if cf_HeartbeatTick c \<le> 0 then 1 else cf_HeartbeatTick c,
       cf_ReadyBufferSize := if cf_ReadyBufferSize c \<le> 0 then 16 else cf_ReadyBufferSize c,
       cf_LinearizableReadTimeout :=
         if cf_LinearizableReadTimeout c \<le> 0 then 3 * 10 ^ 9 else cf_LinearizableReadTimeout c,
       cf_MaxSizePerMsg := if cf_MaxSizePerMsg c = 0 then 1024 * 1024 else cf_MaxSizePerMsg c,
       cf_MaxInflightMsgs := if cf_MaxInflightMsgs c \<le> 0 then 256 else cf_MaxInflightMsgs c,
       cf_SnapshotEntries := if cf_SnapshotEntries c = 0 then 64 else cf_SnapshotEntries c,
       cf_CompactRetainEntries := if cf_CompactRetainEntries c = 0 then 16 else cf_CompactRetainEntries c,
       cf_KeepSnapshots := if cf_KeepSnapshots c \<le> 0 then 2 else cf_KeepSnapshots c,
       cf_Peers := if cf_Peers c = [] \<and> cf_NodeID c \<noteq> 0 then [cf_NodeID c] else cf_Peers c\<rparr>"

text \<open>With the defaults filled in only the node id and the two tick counts can be wrong.\<close>

lemma Validate_WithDefaults:
  "Validate (WithDefaults c) =
     (if cf_NodeID c = 0 then Some NodeIDZero
      else if cf_ElectionTick (WithDefaults c) \<le> cf_HeartbeatTick (WithDefaults c) then Some ElectionTickTooSmall else None)"
  by (simp add: Validate_def WithDefaults_def)

lemma WithDefaults_idem: "WithDefaults (WithDefaults c) = WithDefaults c"
  by (simp add: WithDefaults_def)

end
