(* ===== verification/Raft_Node.thy ===== *)
theory Raft_Node
  imports Raft_Types Storage
begin

text \<open>
  The Raft node (\<open>internal/raftnode/node.go\<close> and \<open>service.go\<close>): recovery at start, the handling of a ready batch, the
  application of committed entries, snapshots and log compaction, the installation of received snapshots, read
  barriers and the conversions of what is handed to the rest of the program.

  The etcd Raft library and its protobuf encodings are not part of the sources; they are the fields of
  \<open>raft_library\<close>: the node (\<open>'rn\<close>), its in-memory storage (\<open>'ms\<close>) and the codecs. The log, the snapshot store and
  the state machine are those of the other theories; the log and the snapshots share one disk.
\<close>

subsection \<open>The Raft library\<close>

datatype raft_error = ErrSnapOutOfDate | ErrCompacted | ErrSnapshotTemporarilyUnavailable | ErrRaft

record ('ms, 'rn) raft_library =
  rl_ApplySnapshot :: "raft_snapshot \<Rightarrow> 'ms \<Rightarrow> 'ms \<times> raft_error option"
  rl_Append :: "Entry list \<Rightarrow> 'ms \<Rightarrow> 'ms \<times> raft_error option"
  rl_SetHardState :: "HardState \<Rightarrow> 'ms \<Rightarrow> 'ms"
  rl_Snapshot :: "'ms \<Rightarrow> raft_snapshot \<times> raft_error option"
  rl_CreateSnapshot :: "u64 \<Rightarrow> ConfState \<Rightarrow> bytes \<Rightarrow> 'ms \<Rightarrow> 'ms \<times> (raft_error + raft_snapshot)"
  rl_FirstIndex :: "'ms \<Rightarrow> raft_error + u64"
  rl_Compact :: "u64 \<Rightarrow> 'ms \<Rightarrow> 'ms \<times> raft_error option"
  rl_InitialState :: "'ms \<Rightarrow> raft_error + HardState \<times> ConfState"
  rl_StartNode :: "Config \<Rightarrow> u64 list \<Rightarrow> 'ms \<Rightarrow> 'rn"
  rl_RestartNode :: "Config \<Rightarrow> 'ms \<Rightarrow> 'rn"
  rl_Campaign :: "'rn \<Rightarrow> 'rn \<times> raft_error option"
  rl_ApplyConfChange :: "conf_change \<Rightarrow> 'rn \<Rightarrow> 'rn"
  rl_Advance :: "'rn \<Rightarrow> 'rn"
  rl_ConfState :: "'rn \<Rightarrow> ConfState"
  rl_Propose :: "bytes \<Rightarrow> 'rn \<Rightarrow> 'rn \<times> raft_error option"
  rl_ProposeConfChange :: "conf_change \<Rightarrow> 'rn \<Rightarrow> 'rn \<times> raft_error option"
  rl_TransferLeadership :: "u64 \<Rightarrow> u64 \<Rightarrow> 'rn \<Rightarrow> 'rn"
  rl_Step :: "raft_message \<Rightarrow> 'rn \<Rightarrow> 'rn \<times> raft_error option"
  rl_DecodeConfChange :: "bytes \<Rightarrow> conf_change option"
  rl_DecodeConfChangeV2 :: "bytes \<Rightarrow> conf_change option"
  rl_MarshalConfState :: "ConfState \<Rightarrow> bytes option"
  rl_UnmarshalConfState :: "bytes \<Rightarrow> ConfState option"
  rl_MarshalMessage :: "raft_message \<Rightarrow> bytes"
  rl_EntryTypeName :: "int \<Rightarrow> bytes"
  rl_MessageTypeName :: "message_type \<Rightarrow> bytes"

subsection \<open>The node\<close>

text \<open>
  A channel for one read index: the value it holds and whether it is closed. Waiters are addresses of such channels. The
  ready channel is its buffer.
\<close>

type_synonym index_chan = "u64 option \<times> bool"

record ('db, 'ms, 'rn) RaftNode =
  n_cfg :: Config
  n_status :: Status
  n_raftNode :: "'rn option"
  n_storage :: 'ms
  n_walStore :: FileWAL
  n_snapStore :: FileStore
  n_kvStore :: "'db PebbleStore"
  n_disk :: disk
  n_readyCh :: "Ready list"
  n_waiters :: "(bytes, nat) gomap"
  n_chans :: "index_chan list"
  n_readIndexCounter :: u64
  n_freshNode :: bool
  n_started :: bool
  n_stopped :: bool

datatype node_error =
    ErrNodeClosed | ErrNodeNotStarted | ErrNodeStarted
  | NodeConfig config_error | NodeWAL wal_error | NodeStorage storage_error | NodeSnapshot snapshot_error
  | NodeRaft raft_error | NodeIO | TargetZero | ConfChangeTypeRequired | ConfChangeNodeZero | ContextDone

text \<open>\<open>resolveDataDir\<close>: whether making the directory succeeds, and the temporary directory if one can be made.\<close>

definition resolveDataDir :: "Config \<Rightarrow> bool \<Rightarrow> bytes option \<Rightarrow> node_error + bytes" where
  "resolveDataDir cfg mkdirOK temp =
     (if cf_DataDir cfg \<noteq> [] then (if mkdirOK then Inr (cf_DataDir cfg) else Inl NodeIO)
      else case temp of None \<Rightarrow> Inl NodeIO | Some dir \<Rightarrow> Inr dir)"

definition New ::
  "Config \<Rightarrow> bool \<Rightarrow> bytes option \<Rightarrow> Codec \<Rightarrow> 'db pebble \<Rightarrow> 'ms \<Rightarrow> disk \<Rightarrow> node_error + ('db, 'ms, 'rn) RaftNode" where
  "New cfg0 mkdirOK temp codec pebble storage d =
     (let cfg = WithDefaults cfg0 in
      case Validate cfg of
        Some e \<Rightarrow> Inl (NodeConfig e)
      | None \<Rightarrow> and_then (resolveDataDir cfg mkdirOK temp) (\<lambda>dataDir. Inr
          \<lparr>n_cfg = cfg,
           n_status = \<lparr>st_NodeID = cf_NodeID cfg, st_ClusterID = cf_ClusterID cfg, st_LeaderID = cf_InitialLeaderID cfg,
             st_Role = RoleFollower, st_AppliedIndex = cf_InitialAppliedIndex cfg,
             st_CommitIndex = cf_InitialAppliedIndex cfg, st_Started = False, st_Stopped = False\<rparr>,
           n_raftNode = None, n_storage = storage,
           n_walStore = NewFileWAL (join_path dataDir ''wal'') codec,
           n_snapStore = NewFileStore (join_path dataDir ''snapshot''),
           n_kvStore = NewPebbleStore pebble (join_path dataDir ''pebble'') [],
           n_disk = d, n_readyCh = [], n_waiters = [], n_chans = [], n_readIndexCounter = 0, n_freshNode = True,
           n_started = False, n_stopped = False\<rparr>))"

definition ensureRunning :: "('db, 'ms, 'rn) RaftNode \<Rightarrow> node_error option" where
  "ensureRunning n = (if \<not> n_started n then Some ErrNodeNotStarted else if n_stopped n then Some ErrNodeClosed else None)"

definition node_Status :: "('db, 'ms, 'rn) RaftNode \<Rightarrow> Status" where
  "node_Status n = (n_status n)\<lparr>st_Started := n_started n, st_Stopped := n_stopped n\<rparr>"

definition mustMarshalConfState :: "('ms, 'rn) raft_library \<Rightarrow> ConfState \<Rightarrow> bytes" where
  "mustMarshalConfState rl c = (case rl_MarshalConfState rl c of None \<Rightarrow> [] | Some b \<Rightarrow> b)"

definition unmarshalConfState :: "('ms, 'rn) raft_library \<Rightarrow> bytes \<Rightarrow> ConfState" where
  "unmarshalConfState rl data =
     (if data = [] then zero_ConfState
      else case rl_UnmarshalConfState rl data of None \<Rightarrow> zero_ConfState | Some c \<Rightarrow> c)"

definition currentConfState :: "('ms, 'rn) raft_library \<Rightarrow> ('db, 'ms, 'rn) RaftNode \<Rightarrow> ConfState" where
  "currentConfState rl n =
     (case n_raftNode n of
        Some r \<Rightarrow> rl_ConfState rl r
      | None \<Rightarrow> zero_ConfState\<lparr>cs_Voters := cf_Peers (n_cfg n)\<rparr>)"

subsection \<open>Applying entries\<close>

definition decode_command :: "bytes \<Rightarrow> Command option" where
  "decode_command data = Unmarshal (into_struct command_fields) data zero_command"

text \<open>A normal entry with data: the command it holds, if it decodes. The result of applying it is ignored.\<close>

definition apply_normal :: "Entry \<Rightarrow> 'db PebbleStore \<Rightarrow> 'db PebbleStore" where
  "apply_normal e kv =
     (if e_Type e = EntryNormal \<and> e_Data e \<noteq> [] then
        (case decode_command (e_Data e) of None \<Rightarrow> kv | Some cmd \<Rightarrow> fst (ps_Apply kv cmd))
      else kv)"

definition apply_conf_change ::
  "('ms, 'rn) raft_library \<Rightarrow> Entry \<Rightarrow> ('db, 'ms, 'rn) RaftNode \<Rightarrow> ('db, 'ms, 'rn) RaftNode" where
  "apply_conf_change rl e n =
     (case (if e_Type e = EntryConfChange then rl_DecodeConfChange rl (e_Data e)
            else rl_DecodeConfChangeV2 rl (e_Data e)) of
        None \<Rightarrow> n
      | Some cc \<Rightarrow> n\<lparr>n_raftNode := map_option (rl_ApplyConfChange rl cc) (n_raftNode n)\<rparr>)"

definition apply_entry ::
  "('ms, 'rn) raft_library \<Rightarrow> ('db, 'ms, 'rn) RaftNode \<Rightarrow> Entry \<Rightarrow> ('db, 'ms, 'rn) RaftNode" where
  "apply_entry rl n e =
     (if e_Type e = EntryConfChange \<or> e_Type e = EntryConfChangeV2 then apply_conf_change rl e n
      else n\<lparr>n_kvStore := apply_normal e (n_kvStore n)\<rparr>)"

text \<open>The loop leaves the index and term of the last entry.\<close>

definition applyCommittedEntries ::
  "('ms, 'rn) raft_library \<Rightarrow> Entry list \<Rightarrow> ('db, 'ms, 'rn) RaftNode \<Rightarrow> ('db, 'ms, 'rn) RaftNode" where
  "applyCommittedEntries rl entries n0 =
     (if entries = [] then n0
      else
        let n1 = foldl (apply_entry rl) n0 entries;
            appliedIndex = e_Index (last entries); appliedTerm = e_Term (last entries);
            kv = (if appliedIndex > 0
                  then fst (ps_SetAppliedTerm (fst (ps_SetAppliedIndex (n_kvStore n1) appliedIndex)) appliedTerm)
                  else n_kvStore n1) in
        n1\<lparr>n_kvStore := kv, n_status := (n_status n1)\<lparr>st_AppliedIndex := appliedIndex\<rparr>\<rparr>)"

subsection \<open>Snapshots and compaction\<close>

definition take_snapshot ::
  "('ms, 'rn) raft_library \<Rightarrow> u64 \<Rightarrow> bytes \<Rightarrow> ('db, 'ms, 'rn) RaftNode \<Rightarrow>
     ('db, 'ms, 'rn) RaftNode \<times> (node_error option + unit)" where
  "take_snapshot rl appliedIndex data n =
     (case rl_CreateSnapshot rl appliedIndex (currentConfState rl n) data (n_storage n) of
        (ms, Inl e) \<Rightarrow> (n\<lparr>n_storage := ms\<rparr>, Inl (if e = ErrSnapOutOfDate then None else Some (NodeRaft e)))
      | (ms, Inr snap) \<Rightarrow>
          (case fs_Create (n_snapStore n)
             \<lparr>md_Term = rs_Term snap, md_Index = rs_Index snap, md_ConfState = mustMarshalConfState rl (rs_ConfState snap),
              md_Checksum = [], md_FileSize = word_of_nat (length data)\<rparr> (Some (data, True)) (n_disk n) of
             (d, Inl e) \<Rightarrow> (n\<lparr>n_storage := ms, n_disk := d\<rparr>, Inl (Some (NodeSnapshot e)))
           | (d, Inr _) \<Rightarrow> (n\<lparr>n_storage := ms, n_disk := d\<rparr>, Inr ())))"

definition compact_index :: "Config \<Rightarrow> u64 \<Rightarrow> u64" where
  "compact_index cfg appliedIndex =
     (if cf_CompactRetainEntries cfg > 0 \<and> appliedIndex > cf_CompactRetainEntries cfg
      then appliedIndex - cf_CompactRetainEntries cfg else appliedIndex)"

definition compact_log ::
  "('ms, 'rn) raft_library \<Rightarrow> u64 \<Rightarrow> ('db, 'ms, 'rn) RaftNode \<Rightarrow> ('db, 'ms, 'rn) RaftNode \<times> node_error option" where
  "compact_log rl compactIndex n =
     (case rl_FirstIndex rl (n_storage n) of
        Inl e \<Rightarrow> (n, Some (NodeRaft e))
      | Inr firstIndex \<Rightarrow>
          if compactIndex \<ge> firstIndex then
            (case rl_Compact rl compactIndex (n_storage n) of
               (ms, err) \<Rightarrow>
                 if err \<noteq> None \<and> err \<noteq> Some ErrCompacted then (n\<lparr>n_storage := ms\<rparr>, map_option NodeRaft err)
                 else (case fw_TruncatePrefix (n_walStore n) compactIndex (n_disk n) of
                   ((w, d), e) \<Rightarrow> (n\<lparr>n_storage := ms, n_walStore := w, n_disk := d\<rparr>, map_option NodeWAL e)))
          else (n, None))"

definition maybeTriggerSnapshot ::
  "('ms, 'rn) raft_library \<Rightarrow> ('db, 'ms, 'rn) RaftNode \<Rightarrow> ('db, 'ms, 'rn) RaftNode \<times> node_error option" where
  "maybeTriggerSnapshot rl n =
     (case ps_AppliedIndex (n_kvStore n) of
        Inl e \<Rightarrow> (n, Some (NodeStorage e))
      | Inr appliedIndex \<Rightarrow>
          if appliedIndex = 0 then (n, None)
          else case rl_Snapshot rl (n_storage n) of
            (currentSnapshot, err) \<Rightarrow>
              if err \<noteq> None \<and> err \<noteq> Some ErrSnapshotTemporarilyUnavailable then (n, map_option NodeRaft err)
              else if appliedIndex - rs_Index currentSnapshot < cf_SnapshotEntries (n_cfg n) then (n, None)
              else case ps_Snapshot (n_kvStore n) of
                Inl e \<Rightarrow> (n, Some (NodeStorage e))
              | Inr data \<Rightarrow>
                  (case take_snapshot rl appliedIndex data n of
                     (n1, Inl e) \<Rightarrow> (n1, e)
                   | (n1, Inr _) \<Rightarrow>
                       (case compact_log rl (compact_index (n_cfg n1) appliedIndex) n1 of
                          (n2, Some e) \<Rightarrow> (n2, Some e)
                        | (n2, None) \<Rightarrow>
                            (case Cleanup (n_snapStore n2) (cf_KeepSnapshots (n_cfg n2)) (n_disk n2) of
                               (d, e) \<Rightarrow> (n2\<lparr>n_disk := d\<rparr>, map_option NodeSnapshot e)))))"

subsection \<open>Ready batches\<close>

definition convertEntries :: "('ms, 'rn) raft_library \<Rightarrow> Entry list \<Rightarrow> LogEntry list" where
  "convertEntries rl entries =
     map (\<lambda>e. \<lparr>le_Index = e_Index e, le_Term = e_Term e, le_Type = rl_EntryTypeName rl (e_Type e), le_Data = e_Data e,
       le_Raw = e\<rparr>) entries"

definition convertMessages :: "('ms, 'rn) raft_library \<Rightarrow> raft_message list \<Rightarrow> OutboundMessage list" where
  "convertMessages rl messages =
     map (\<lambda>m. \<lparr>om_To = rm_To m, om_From = rm_From m, om_Type = rl_MessageTypeName rl (rm_Type m),
       om_Payload = rl_MarshalMessage rl m, om_Raw = m\<rparr>) messages"

text \<open>A batch without soft state leaves the zero soft state; the zero role is none of the four and no code reads it.\<close>

definition convertReady :: "('ms, 'rn) raft_library \<Rightarrow> raft_ready \<Rightarrow> Ready" where
  "convertReady rl rd =
     \<lparr>ry_SoftState =
        (case rr_SoftState rd of
           None \<Rightarrow> \<lparr>so_LeaderID = 0, so_Role = RoleFollower\<rparr>
         | Some s \<Rightarrow> \<lparr>so_LeaderID = ss_Lead s, so_Role = toRole (ss_RaftState s)\<rparr>),
      ry_HardState = \<lparr>rh_Term = hs_Term (rr_HardState rd), rh_Vote = hs_Vote (rr_HardState rd),
        rh_Commit = hs_Commit (rr_HardState rd)\<rparr>,
      ry_Entries = convertEntries rl (rr_Entries rd),
      ry_CommittedEntries = convertEntries rl (rr_CommittedEntries rd),
      ry_Messages = convertMessages rl (rr_Messages rd),
      ry_Snapshot =
        (if \<not> IsEmptySnap (rr_Snapshot rd) then
           Some \<lparr>rsn_Term = rs_Term (rr_Snapshot rd), rsn_Index = rs_Index (rr_Snapshot rd),
             rsn_ConfState = mustMarshalConfState rl (rs_ConfState (rr_Snapshot rd)), rsn_Checksum = []\<rparr>
         else None),
      ry_MustSync = rr_MustSync rd\<rparr>"

text \<open>The batch is dropped when the channel is full. (When the node is stopped and the channel has room, either case may be chosen; the
  model takes the stop.)\<close>

definition emitReady :: "Ready \<Rightarrow> ('db, 'ms, 'rn) RaftNode \<Rightarrow> ('db, 'ms, 'rn) RaftNode" where
  "emitReady ready n =
     (if n_stopped n then n
      else if int (length (n_readyCh n)) < cf_ReadyBufferSize (n_cfg n) then n\<lparr>n_readyCh := n_readyCh n @ [ready]\<rparr>
      else n)"

fun handleReadStates :: "raft_read_state list \<Rightarrow> ('db, 'ms, 'rn) RaftNode \<Rightarrow> ('db, 'ms, 'rn) RaftNode" where
  "handleReadStates [] n = n"
| "handleReadStates (state # states) n =
     (case map_of (n_waiters n) (rd_RequestCtx state) of
        None \<Rightarrow> handleReadStates states n
      | Some ch \<Rightarrow> handleReadStates states
          (n\<lparr>n_chans := (n_chans n)[ch := (Some (rd_Index state), True)],
             n_waiters := AList.delete (rd_RequestCtx state) (n_waiters n)\<rparr>))"

definition updateStatus :: "raft_ready \<Rightarrow> Status \<Rightarrow> Status" where
  "updateStatus rd st0 =
     (let st1 = (case rr_SoftState rd of
                   None \<Rightarrow> st0
                 | Some s \<Rightarrow> st0\<lparr>st_LeaderID := ss_Lead s, st_Role := toRole (ss_RaftState s)\<rparr>);
          st2 = (if \<not> isEmptyHardState (rr_HardState rd) then st1\<lparr>st_CommitIndex := hs_Commit (rr_HardState rd)\<rparr> else st1) in
      if rr_CommittedEntries rd \<noteq> [] then st2\<lparr>st_AppliedIndex := e_Index (last (rr_CommittedEntries rd))\<rparr> else st2)"

text \<open>The first part of \<open>handleReady\<close>: a snapshot from the leader. Its errors are ignored.\<close>

definition ready_snapshot ::
  "('ms, 'rn) raft_library \<Rightarrow> raft_snapshot \<Rightarrow> ('db, 'ms, 'rn) RaftNode \<Rightarrow> ('db, 'ms, 'rn) RaftNode" where
  "ready_snapshot rl snap n =
     (if IsEmptySnap snap then n
      else
        let kv = (if rs_Data snap \<noteq> [] then fst (ps_Restore (n_kvStore n) (rs_Data snap)) else n_kvStore n);
            d = fst (fs_Install (n_snapStore n)
                  \<lparr>md_Term = rs_Term snap, md_Index = rs_Index snap,
                   md_ConfState = mustMarshalConfState rl (rs_ConfState snap), md_Checksum = [], md_FileSize = 0\<rparr>
                  (rs_Data snap, True) (n_disk n)) in
        n\<lparr>n_kvStore := kv, n_disk := d, n_storage := fst (rl_ApplySnapshot rl snap (n_storage n))\<rparr>)"

text \<open>The second part: the log on disk and in memory. Its errors are ignored too.\<close>

definition ready_persist ::
  "('ms, 'rn) raft_library \<Rightarrow> HardState \<Rightarrow> Entry list \<Rightarrow> ('db, 'ms, 'rn) RaftNode \<Rightarrow> ('db, 'ms, 'rn) RaftNode" where
  "ready_persist rl hs entries n =
     (let (w, d) = (if \<not> isEmptyHardState hs \<or> entries \<noteq> [] then fst (fw_Append (n_walStore n) hs entries (n_disk n))
                    else (n_walStore n, n_disk n));
          ms1 = (if entries \<noteq> [] then fst (rl_Append rl entries (n_storage n)) else n_storage n);
          ms2 = (if \<not> isEmptyHardState hs then rl_SetHardState rl hs ms1 else ms1) in
      n\<lparr>n_walStore := w, n_disk := d, n_storage := ms2\<rparr>)"

definition handleReady ::
  "('ms, 'rn) raft_library \<Rightarrow> raft_ready \<Rightarrow> ('db, 'ms, 'rn) RaftNode \<Rightarrow> ('db, 'ms, 'rn) RaftNode" where
  "handleReady rl rd n0 =
     (let n1 = ready_snapshot rl (rr_Snapshot rd) n0;
          n2 = ready_persist rl (rr_HardState rd) (rr_Entries rd) n1;
          n3 = handleReadStates (rr_ReadStates rd) n2;
          n4 = applyCommittedEntries rl (rr_CommittedEntries rd) n3;
          n5 = n4\<lparr>n_status := updateStatus rd (n_status n4)\<rparr>;
          n6 = fst (maybeTriggerSnapshot rl n5);
          n7 = emitReady (convertReady rl rd) n6 in
      n7\<lparr>n_raftNode := map_option (rl_Advance rl) (n_raftNode n7)\<rparr>)"

subsection \<open>Recovery\<close>

text \<open>
  The snapshot part of \<open>bootstrapStorage\<close>: its index, 0 when there is none. An error of \<open>OpenLatest\<close> counts as no
  snapshot (the file is opened and read in one step); errors of recording the applied index and term are ignored.
\<close>

definition restore_snapshot ::
  "('ms, 'rn) raft_library \<Rightarrow> ('db, 'ms, 'rn) RaftNode \<Rightarrow> ('db, 'ms, 'rn) RaftNode \<times> (node_error + u64)" where
  "restore_snapshot rl n0 =
     (case OpenLatest (n_snapStore n0) (n_disk n0) of
        (d, Inl _) \<Rightarrow> (n0\<lparr>n_disk := d\<rparr>, Inr 0)
      | (d, Inr (meta, data)) \<Rightarrow>
          (let n = n0\<lparr>n_disk := d\<rparr> in
           if md_Index meta = 0 then (n, Inr 0)
           else case ps_Restore (n_kvStore n) data of
             (kv, Some e) \<Rightarrow> (n\<lparr>n_kvStore := kv\<rparr>, Inl (NodeStorage e))
           | (kv, None) \<Rightarrow>
               (let kv1 = fst (ps_SetAppliedIndex kv (md_Index meta));
                    kv2 = fst (ps_SetAppliedTerm kv1 (md_Term meta)) in
                case rl_ApplySnapshot rl \<lparr>rs_Data = data, rs_Index = md_Index meta, rs_Term = md_Term meta,
                    rs_ConfState = unmarshalConfState rl (md_ConfState meta)\<rparr> (n_storage n) of
                  (ms, err) \<Rightarrow>
                    if err \<noteq> None \<and> err \<noteq> Some ErrSnapOutOfDate
                    then (n\<lparr>n_kvStore := kv2, n_storage := ms\<rparr>, Inl (NodeRaft (the err)))
                    else (n\<lparr>n_kvStore := kv2, n_storage := ms\<rparr>, Inr (md_Index meta)))))"

text \<open>One iteration of the replay loop.\<close>

definition replay_entry :: "u64 \<Rightarrow> u64 \<Rightarrow> 'db PebbleStore \<Rightarrow> Entry \<Rightarrow> 'db PebbleStore" where
  "replay_entry snapshotIndex committed kv e =
     (if e_Index e \<le> snapshotIndex \<or> e_Index e > committed then kv
      else fst (ps_SetAppliedTerm (fst (ps_SetAppliedIndex (apply_normal e kv) (e_Index e))) (e_Term e)))"

definition bootstrapStorage ::
  "('ms, 'rn) raft_library \<Rightarrow> ('db, 'ms, 'rn) RaftNode \<Rightarrow> ('db, 'ms, 'rn) RaftNode \<times> node_error option" where
  "bootstrapStorage rl n0 =
     (case restore_snapshot rl n0 of
        (n1, Inl e) \<Rightarrow> (n1, Some e)
      | (n1, Inr snapshotIndex) \<Rightarrow>
          (case fw_Load (n_walStore n1) of
             Inl e \<Rightarrow> (n1, Some (NodeWAL e))
           | Inr (hardState, entries) \<Rightarrow>
               (let ms1 = (if \<not> isEmptyHardState hardState then rl_SetHardState rl hardState (n_storage n1) else n_storage n1) in
                case (if entries \<noteq> [] then rl_Append rl entries ms1 else (ms1, None)) of
                  (ms2, Some e) \<Rightarrow> (n1\<lparr>n_storage := ms2\<rparr>, Some (NodeRaft e))
                | (ms2, None) \<Rightarrow>
                    (let kv = (if \<not> isEmptyHardState hardState \<and> hs_Commit hardState > snapshotIndex
                               then foldl (replay_entry snapshotIndex (hs_Commit hardState)) (n_kvStore n1) entries
                               else n_kvStore n1) in
                     (n1\<lparr>n_storage := ms2, n_kvStore := kv,
                         n_freshNode := n_freshNode n1 \<and> isEmptyHardState hardState \<and> entries = [] \<and> snapshotIndex = 0,
                         n_status := (n_status n1)\<lparr>st_AppliedIndex := hs_Commit hardState, st_CommitIndex := hs_Commit hardState\<rparr>\<rparr>,
                      None)))))"

text \<open>
  \<open>Start\<close> up to the start of its goroutines, and the campaign of a fresh node. \<open>mkdirOK\<close> is whether the state machine's
  directory can be made.
\<close>

definition Start ::
  "('ms, 'rn) raft_library \<Rightarrow> bool \<Rightarrow> ('db, 'ms, 'rn) RaftNode \<Rightarrow> ('db, 'ms, 'rn) RaftNode \<times> node_error option" where
  "Start rl mkdirOK n0 =
     (if n_started n0 then (n0, Some ErrNodeStarted)
      else
        let n1 = n0\<lparr>n_started := True\<rparr> in
        case fw_Open (n_walStore n1) (n_disk n1) of
          ((w, d), Some e) \<Rightarrow> (n1\<lparr>n_walStore := w, n_disk := d\<rparr>, Some (NodeWAL e))
        | ((w, d), None) \<Rightarrow>
            (let n2 = n1\<lparr>n_walStore := w, n_disk := d\<rparr> in
             case ps_Open (n_kvStore n2) mkdirOK of
               (kv, Some e) \<Rightarrow> (n2\<lparr>n_kvStore := kv\<rparr>, Some (NodeStorage e))
             | (kv, None) \<Rightarrow>
                 (case bootstrapStorage rl (n2\<lparr>n_kvStore := kv\<rparr>) of
                    (n3, Some e) \<Rightarrow> (n3, Some e)
                  | (n3, None) \<Rightarrow>
                      (if n_freshNode n3 then
                         (case rl_Campaign rl (rl_StartNode rl (n_cfg n3) (cf_Peers (n_cfg n3)) (n_storage n3)) of
                            (r, e) \<Rightarrow> (n3\<lparr>n_raftNode := Some r\<rparr>, map_option NodeRaft e))
                       else (n3\<lparr>n_raftNode := Some (rl_RestartNode rl (n_cfg n3) (n_storage n3))\<rparr>, None)))))"

subsection \<open>Installing a received snapshot\<close>

definition InstallSnapshot ::
  "('ms, 'rn) raft_library \<Rightarrow> Metadata \<Rightarrow> bytes \<Rightarrow> ('db, 'ms, 'rn) RaftNode \<Rightarrow> ('db, 'ms, 'rn) RaftNode \<times> node_error option" where
  "InstallSnapshot rl meta data n =
     (case ensureRunning n of
        Some e \<Rightarrow> (n, Some e)
      | None \<Rightarrow>
          (case fs_Install (n_snapStore n) meta (data, True) (n_disk n) of
             (d, Some e) \<Rightarrow> (n\<lparr>n_disk := d\<rparr>, Some (NodeSnapshot e))
           | (d, None) \<Rightarrow>
               (case (if data \<noteq> [] then ps_Restore (n_kvStore n) data else (n_kvStore n, None)) of
                  (kv, Some e) \<Rightarrow> (n\<lparr>n_disk := d, n_kvStore := kv\<rparr>, Some (NodeStorage e))
                | (kv, None) \<Rightarrow>
                    (case rl_ApplySnapshot rl \<lparr>rs_Data = data, rs_Index = md_Index meta, rs_Term = md_Term meta,
                        rs_ConfState = unmarshalConfState rl (md_ConfState meta)\<rparr> (n_storage n) of
                       (ms, err) \<Rightarrow>
                         let n1 = n\<lparr>n_disk := d, n_kvStore := kv, n_storage := ms\<rparr> in
                         if err \<noteq> None \<and> err \<noteq> Some ErrSnapOutOfDate then (n1, map_option NodeRaft err)
                         else case ps_SetAppliedIndex kv (md_Index meta) of
                           (kv1, Some e) \<Rightarrow> (n1\<lparr>n_kvStore := kv1\<rparr>, Some (NodeStorage e))
                         | (kv1, None) \<Rightarrow>
                             (case ps_SetAppliedTerm kv1 (md_Term meta) of
                                (kv2, Some e) \<Rightarrow> (n1\<lparr>n_kvStore := kv2\<rparr>, Some (NodeStorage e))
                              | (kv2, None) \<Rightarrow>
                                  (case fw_TruncatePrefix (n_walStore n1) (md_Index meta) (n_disk n1) of
                                     ((w, d'), Some e) \<Rightarrow> (n1\<lparr>n_kvStore := kv2, n_walStore := w, n_disk := d'\<rparr>, Some (NodeWAL e))
                                   | ((w, d'), None) \<Rightarrow>
                                       (n1\<lparr>n_kvStore := kv2, n_walStore := w, n_disk := d',
                                          n_status := (n_status n1)
                                            \<lparr>st_AppliedIndex := max (st_AppliedIndex (n_status n1)) (md_Index meta),
                                             st_CommitIndex := max (st_CommitIndex (n_status n1)) (md_Index meta)\<rparr>\<rparr>, None)))))))"

subsection \<open>Requests\<close>

text \<open>Requests reach the node after \<open>Start\<close> has returned, when the library's node is there.\<close>

definition with_raft ::
  "('db, 'ms, 'rn) RaftNode \<Rightarrow> ('rn \<Rightarrow> 'rn \<times> raft_error option) \<Rightarrow> ('db, 'ms, 'rn) RaftNode \<times> node_error option" where
  "with_raft n f =
     (case n_raftNode n of
        None \<Rightarrow> (n, Some ErrNodeNotStarted)
      | Some r \<Rightarrow> (case f r of (r', e) \<Rightarrow> (n\<lparr>n_raftNode := Some r'\<rparr>, map_option NodeRaft e)))"

definition Propose ::
  "('ms, 'rn) raft_library \<Rightarrow> bytes \<Rightarrow> ('db, 'ms, 'rn) RaftNode \<Rightarrow> ('db, 'ms, 'rn) RaftNode \<times> node_error option" where
  "Propose rl data n = (case ensureRunning n of Some e \<Rightarrow> (n, Some e) | None \<Rightarrow> with_raft n (rl_Propose rl data))"

definition ProposeCommand ::
  "('ms, 'rn) raft_library \<Rightarrow> Command \<Rightarrow> ('db, 'ms, 'rn) RaftNode \<Rightarrow> ('db, 'ms, 'rn) RaftNode \<times> node_error option" where
  "ProposeCommand rl cmd n = Propose rl (Marshal command_to_json cmd) n"

definition node_Step ::
  "('ms, 'rn) raft_library \<Rightarrow> raft_message \<Rightarrow> ('db, 'ms, 'rn) RaftNode \<Rightarrow> ('db, 'ms, 'rn) RaftNode \<times> node_error option" where
  "node_Step rl message n = (case ensureRunning n of Some e \<Rightarrow> (n, Some e) | None \<Rightarrow> with_raft n (rl_Step rl message))"

definition TransferLeadership ::
  "('ms, 'rn) raft_library \<Rightarrow> u64 \<Rightarrow> ('db, 'ms, 'rn) RaftNode \<Rightarrow> ('db, 'ms, 'rn) RaftNode \<times> node_error option" where
  "TransferLeadership rl target n =
     (case ensureRunning n of
        Some e \<Rightarrow> (n, Some e)
      | None \<Rightarrow>
          if target = 0 then (n, Some TargetZero)
          else with_raft n (\<lambda>r. (rl_TransferLeadership rl (cf_NodeID (n_cfg n)) target r, None)))"

definition ApplyConfChange ::
  "('ms, 'rn) raft_library \<Rightarrow> ConfChangeRequest \<Rightarrow> ('db, 'ms, 'rn) RaftNode \<Rightarrow> ('db, 'ms, 'rn) RaftNode \<times> node_error option" where
  "ApplyConfChange rl change n =
     (case ensureRunning n of
        Some e \<Rightarrow> (n, Some e)
      | None \<Rightarrow>
          if cr_Type change = [] then (n, Some ConfChangeTypeRequired)
          else if cr_NodeID change = 0 then (n, Some ConfChangeNodeZero)
          else with_raft n (rl_ProposeConfChange rl (toConfChange change)))"

text \<open>\<open>Stop\<close> without the wait for the loop, and what the loop closes when it ends.\<close>

definition Stop :: "('db, 'ms, 'rn) RaftNode \<Rightarrow> ('db, 'ms, 'rn) RaftNode \<times> node_error option" where
  "Stop n = (if \<not> n_started n then (n, Some ErrNodeNotStarted) else (n\<lparr>n_stopped := True\<rparr>, None))"

definition closeStores :: "('db, 'ms, 'rn) RaftNode \<Rightarrow> ('db, 'ms, 'rn) RaftNode" where
  "closeStores n =
     n\<lparr>n_kvStore := fst (ps_Close (n_kvStore n)), n_walStore := fw_Close (n_walStore n)\<rparr>"

subsection \<open>Read barriers\<close>

text \<open>
  \<open>ReadIndex\<close> registers a waiter, asks the library, and then waits for the first of three events. The registration returns
  the request context and the waiter's channel.
\<close>

definition readindex_begin ::
  "bytes \<Rightarrow> ('db, 'ms, 'rn) RaftNode \<Rightarrow> ('db, 'ms, 'rn) RaftNode \<times> (node_error + bytes \<times> nat)" where
  "readindex_begin reqCtx n =
     (case ensureRunning n of
        Some e \<Rightarrow> (n, Inl e)
      | None \<Rightarrow>
          (let counter = (if reqCtx = [] then n_readIndexCounter n + 1 else n_readIndexCounter n);
               requestCtx = (if reqCtx = [] then ''read-index-'' @ FormatUint (unat counter) else reqCtx);
               waiter = length (n_chans n) in
           (n\<lparr>n_readIndexCounter := counter, n_chans := n_chans n @ [(None, False)],
              n_waiters := AList.update requestCtx waiter (n_waiters n)\<rparr>, Inr (requestCtx, waiter))))"

definition removeWaiter :: "bytes \<Rightarrow> ('db, 'ms, 'rn) RaftNode \<Rightarrow> ('db, 'ms, 'rn) RaftNode" where
  "removeWaiter reqCtx n =
     (case map_of (n_waiters n) reqCtx of
        None \<Rightarrow> n
      | Some ch \<Rightarrow> n\<lparr>n_chans := (n_chans n)[ch := (fst (n_chans n ! ch), True)], n_waiters := AList.delete reqCtx (n_waiters n)\<rparr>)"

text \<open>The ways to return: the library refuses the request, the context ends, the node stops, or the channel gives a value. A
  closed, empty channel gives 0.\<close>

definition readindex_cancel :: "bytes \<Rightarrow> ('db, 'ms, 'rn) RaftNode \<Rightarrow> ('db, 'ms, 'rn) RaftNode \<times> (node_error + u64)" where
  "readindex_cancel requestCtx n = (removeWaiter requestCtx n, Inl ContextDone)"

definition readindex_stopped :: "bytes \<Rightarrow> ('db, 'ms, 'rn) RaftNode \<Rightarrow> ('db, 'ms, 'rn) RaftNode \<times> (node_error + u64)" where
  "readindex_stopped requestCtx n = (removeWaiter requestCtx n, Inl ErrNodeClosed)"

definition readindex_failed :: "bytes \<Rightarrow> raft_error \<Rightarrow> ('db, 'ms, 'rn) RaftNode \<Rightarrow> ('db, 'ms, 'rn) RaftNode \<times> (node_error + u64)" where
  "readindex_failed requestCtx e n = (removeWaiter requestCtx n, Inl (NodeRaft e))"

definition readindex_result :: "nat \<Rightarrow> ('db, 'ms, 'rn) RaftNode \<Rightarrow> (node_error + u64) option" where
  "readindex_result ch n =
     (case n_chans n ! ch of
        (Some index, _) \<Rightarrow> Some (Inr index)
      | (None, True) \<Rightarrow> Some (Inr 0)
      | (None, False) \<Rightarrow> None)"

text \<open>The polling loop of \<open>LinearizableRead\<close> passes when the applied index has reached the read index.\<close>

definition barrier_passed :: "u64 \<Rightarrow> ('db, 'ms, 'rn) RaftNode \<Rightarrow> bool" where
  "barrier_passed readIndex n \<longleftrightarrow> st_AppliedIndex (node_Status n) \<ge> readIndex"

text \<open>What \<open>Get\<close> and \<open>Scan\<close> do once the barrier has passed.\<close>

definition node_Get :: "bytes \<Rightarrow> ('db, 'ms, 'rn) RaftNode \<Rightarrow> node_error + bytes" where
  "node_Get key n = (case ps_Get (n_kvStore n) key of Inl e \<Rightarrow> Inl (NodeStorage e) | Inr v \<Rightarrow> Inr v)"

definition node_Scan :: "bytes \<Rightarrow> bytes \<Rightarrow> int \<Rightarrow> ('db, 'ms, 'rn) RaftNode \<Rightarrow> node_error + KV list" where
  "node_Scan start end limit n =
     (case ps_Scan (n_kvStore n) start end limit of Inl e \<Rightarrow> Inl (NodeStorage e) | Inr items \<Rightarrow> Inr items)"

subsection \<open>Observations and member addresses\<close>

definition node_HardState :: "('ms, 'rn) raft_library \<Rightarrow> ('db, 'ms, 'rn) RaftNode \<Rightarrow> HardState" where
  "node_HardState rl n = (case rl_InitialState rl (n_storage n) of Inl _ \<Rightarrow> zero_HardState | Inr (hs, _) \<Rightarrow> hs)"

definition node_ConfState :: "('ms, 'rn) raft_library \<Rightarrow> ('db, 'ms, 'rn) RaftNode \<Rightarrow> ConfState" where
  "node_ConfState rl n = (case rl_InitialState rl (n_storage n) of Inl _ \<Rightarrow> zero_ConfState | Inr (_, cs) \<Rightarrow> cs)"

definition node_SetMemberAddress ::
  "u64 \<Rightarrow> bytes \<Rightarrow> bytes \<Rightarrow> bytes \<Rightarrow> ('db, 'ms, 'rn) RaftNode \<Rightarrow> ('db, 'ms, 'rn) RaftNode \<times> storage_error option" where
  "node_SetMemberAddress nodeID httpAddr grpcAddr adminAddr n =
     (case ps_SetMemberAddress (n_kvStore n) nodeID httpAddr grpcAddr adminAddr of (kv, e) \<Rightarrow> (n\<lparr>n_kvStore := kv\<rparr>, e))"

definition node_DeleteMemberAddress ::
  "u64 \<Rightarrow> ('db, 'ms, 'rn) RaftNode \<Rightarrow> ('db, 'ms, 'rn) RaftNode \<times> storage_error option" where
  "node_DeleteMemberAddress nodeID n =
     (case ps_DeleteMemberAddress (n_kvStore n) nodeID of (kv, e) \<Rightarrow> (n\<lparr>n_kvStore := kv\<rparr>, e))"

definition node_ListMemberAddresses :: "('db, 'ms, 'rn) RaftNode \<Rightarrow> storage_error + MemberAddress list" where
  "node_ListMemberAddresses n = ps_ListMemberAddresses (n_kvStore n)"

end
