(* ===== verification/Raft_Correct.thy ===== *)
theory Raft_Correct
  imports Raft_Node Storage_Props Snapshot_Correct Wal_Props
begin

text \<open>
  What the Raft node promises: committed entries take effect in log order however they are cut into batches, and a
  restart from the snapshot, the log and the database on disk leads to the state that the committed entries define.
\<close>

subsection \<open>The state a log defines\<close>

definition entry_command :: "Entry \<Rightarrow> Command option" where
  "entry_command e = (if e_Type e = EntryNormal \<and> e_Data e \<noteq> [] then decode_command (e_Data e) else None)"

definition entry_exec :: "Entry \<Rightarrow> (bytes \<rightharpoonup> bytes) \<Rightarrow> (bytes \<rightharpoonup> bytes)" where
  "entry_exec e m = (case entry_command e of None \<Rightarrow> m | Some c \<Rightarrow> ps_exec c m)"

definition log_exec :: "Entry list \<Rightarrow> (bytes \<rightharpoonup> bytes) \<Rightarrow> (bytes \<rightharpoonup> bytes)" where
  "log_exec es = fold entry_exec es"

definition user_entry :: "Entry \<Rightarrow> bool" where
  "user_entry e \<longleftrightarrow> (case entry_command e of None \<Rightarrow> True | Some c \<Rightarrow> user_command c)"

lemma log_exec_simps [simp]:
  "log_exec [] m = m" "log_exec (e # es) m = log_exec es (entry_exec e m)"
  "log_exec (es @ es') m = log_exec es' (log_exec es m)"
  by (simp_all add: log_exec_def)

lemma entry_exec_local: "key_local (entry_exec e)"
  using ps_exec_local by (cases "entry_command e") (simp_all add: entry_exec_def [abs_def])

lemma log_exec_local: "key_local (log_exec es)"
  unfolding log_exec_def by (rule key_local_fold) (rule entry_exec_local)

text \<open>A log that is run on the state of one of its prefixes leads to its own state; a suffix that is run again changes nothing.\<close>

lemma log_exec_prefix: "log_exec (xs @ ys) (log_exec xs m) = log_exec (xs @ ys) m"
  using key_local_replay [OF log_exec_local, of xs m] by simp

lemma log_exec_suffix: "log_exec ys (log_exec (xs @ ys) m) = log_exec (xs @ ys) m"
  using key_local_replay [OF log_exec_local, of ys] by simp

subsection \<open>A database that works\<close>

definition ps_live :: "'db PebbleStore \<Rightarrow> bool" where
  "ps_live s \<longleftrightarrow> ps_inv s \<and> ps_db s \<noteq> None \<and>
     (\<forall>db ops. snd (pb_commit (ps_pebble s) db ops) = None) \<and>
     (\<forall>db k. \<exists>v. pb_get (ps_pebble s) db k = Inr v) \<and>
     (\<forall>db a b. \<exists>kvs. pb_iter (ps_pebble s) db a b = Inr (kvs, None))"

lemma ps_live_inv: "ps_live s \<Longrightarrow> ps_inv s"
  by (simp add: ps_live_def)

lemma live_commit:
  assumes "ps_live s" "ps_db s = Some db"
  shows "\<exists>s'. commit s db ops = (s', None) \<and> ps_live s' \<and> ps_contents s' = apply_ops ops (ps_contents s)"
proof -
  have "snd (pb_commit (ps_pebble s) db ops) = None" using assms(1) unfolding ps_live_def by blast
  then obtain s' where c: "commit s db ops = (s', None)"
    by (cases "pb_commit (ps_pebble s) db ops") (simp add: commit_def)
  from commit_ok [OF ps_live_inv [OF assms(1)] c assms(2)] assms(1) c show ?thesis
    by (auto simp: ps_live_def)
qed

lemma live_Apply:
  assumes "ps_live s"
  shows "\<exists>s' r. ps_Apply s c = (s', Inr r) \<and> ps_live s' \<and> ps_contents s' = ps_exec c (ps_contents s)"
proof -
  obtain db where db: "ps_db s = Some db" using assms by (auto simp: ps_live_def)
  show ?thesis
  proof (cases "command_batch c")
    case None
    then show ?thesis using assms db by (simp add: ps_Apply_def getDB_def ps_exec_def)
  next
    case (Some ops)
    with live_commit [OF assms db, of ops] db show ?thesis by (auto simp: ps_Apply_def getDB_def ps_exec_def)
  qed
qed

lemma live_set_counter:
  assumes "ps_live s"
  shows "\<exists>s'. set_counter s k x = (s', None) \<and> ps_live s' \<and> ps_contents s' = (ps_contents s)(k \<mapsto> encodeUint64 x)"
proof -
  obtain db where db: "ps_db s = Some db" using assms by (auto simp: ps_live_def)
  with live_commit [OF assms db, of "[BSet k (encodeUint64 x)]"] show ?thesis
    by (auto simp: set_counter_def getDB_def)
qed

lemma live_get_counter:
  assumes "ps_live s" "ps_contents s k = Some (encodeUint64 x)"
  shows "get_counter s k = Inr x"
proof -
  obtain db where db: "ps_db s = Some db" using assms by (auto simp: ps_live_def)
  moreover obtain v where g: "pb_get (ps_pebble s) db k = Inr v" using assms(1) unfolding ps_live_def by blast
  ultimately show ?thesis
    using pb_get_ok [OF ps_live_inv [OF assms(1)] db g] assms(2) by (simp add: get_counter_def getDB_def)
qed

lemma view_meta_update: "isMetaKey k \<Longrightarrow> ps_contents s' = (ps_contents s)(k \<mapsto> v) \<Longrightarrow> ps_view s' = ps_view s"
  by (auto simp: ps_view_def fun_eq_iff)

text \<open>The two counters that follow every applied entry.\<close>

definition mark_applied :: "u64 \<Rightarrow> u64 \<Rightarrow> 'db PebbleStore \<Rightarrow> 'db PebbleStore" where
  "mark_applied i t s = fst (ps_SetAppliedTerm (fst (ps_SetAppliedIndex s i)) t)"

definition applied_at :: "'db PebbleStore \<Rightarrow> u64 \<Rightarrow> u64 \<Rightarrow> bool" where
  "applied_at s i t \<longleftrightarrow> ps_AppliedIndex s = Inr i \<and> ps_AppliedTerm s = Inr t"

lemma live_mark:
  assumes "ps_live s"
  shows "ps_live (mark_applied i t s)" "ps_view (mark_applied i t s) = ps_view s" "applied_at (mark_applied i t s) i t"
    "\<And>k. k \<noteq> metaAppliedIndexKey \<Longrightarrow> k \<noteq> metaAppliedTermKey \<Longrightarrow> ps_contents (mark_applied i t s) k = ps_contents s k"
proof -
  obtain s1 where s1: "ps_SetAppliedIndex s i = (s1, None)" "ps_live s1"
    "ps_contents s1 = (ps_contents s)(metaAppliedIndexKey \<mapsto> encodeUint64 i)"
    using live_set_counter [OF assms] unfolding ps_SetAppliedIndex_def by blast
  obtain s2 where s2: "ps_SetAppliedTerm s1 t = (s2, None)" "ps_live s2"
    "ps_contents s2 = (ps_contents s1)(metaAppliedTermKey \<mapsto> encodeUint64 t)"
    using live_set_counter [OF s1(2)] unfolding ps_SetAppliedTerm_def by blast
  have m: "mark_applied i t s = s2" by (simp add: mark_applied_def s1(1) s2(1))
  have "metaAppliedIndexKey \<noteq> metaAppliedTermKey" by (simp add: metaAppliedIndexKey_def metaAppliedTermKey_def)
  then show "applied_at (mark_applied i t s) i t"
    unfolding m applied_at_def ps_AppliedIndex_def ps_AppliedTerm_def using s1(3) s2(2,3)
    by (simp add: live_get_counter)
  show "ps_live (mark_applied i t s)" unfolding m by (rule s2(2))
  show "ps_view (mark_applied i t s) = ps_view s"
    unfolding m using view_meta_update [OF _ s2(3)] view_meta_update [OF _ s1(3)] by simp
  show "ps_contents (mark_applied i t s) k = ps_contents s k" if "k \<noteq> metaAppliedIndexKey" "k \<noteq> metaAppliedTermKey" for k
    unfolding m using s1(3) s2(3) that by simp
qed

lemma live_apply_normal:
  assumes "ps_live s" "user_entry e"
  shows "ps_live (apply_normal e s) \<and> ps_view (apply_normal e s) = entry_exec e (ps_view s)"
proof (cases "entry_command e")
  case None
  then have "apply_normal e s = s" by (auto simp: apply_normal_def entry_command_def split: option.splits)
  with None assms show ?thesis by (simp add: entry_exec_def)
next
  case (Some c)
  then have a: "apply_normal e s = fst (ps_Apply s c)"
    by (auto simp: apply_normal_def entry_command_def split: if_splits)
  obtain s' r where s': "ps_Apply s c = (s', Inr r)" "ps_live s'" "ps_contents s' = ps_exec c (ps_contents s)"
    using live_Apply [OF assms(1)] by blast
  have "user_command c" using assms(2) Some by (simp add: user_entry_def)
  from ps.apply_ok [OF ps_live_inv [OF assms(1)] this s'(1)] s' a Some show ?thesis by (simp add: entry_exec_def)
qed

subsection \<open>Batches\<close>

lemma apply_entry_kv:
  "n_kvStore (apply_entry rl n e) = apply_normal e (n_kvStore n)"
  by (auto simp: apply_entry_def apply_conf_change_def apply_normal_def EntryConfChange_def EntryConfChangeV2_def
      EntryNormal_def split: option.splits)

lemma foldl_apply_entry_kv:
  "n_kvStore (foldl (apply_entry rl) n es) = foldl (\<lambda>s e. apply_normal e s) (n_kvStore n) es"
  by (induction es arbitrary: n) (simp_all add: apply_entry_kv)

lemma foldl_apply_normal:
  assumes "ps_live s" "list_all user_entry es"
  shows "ps_live (foldl (\<lambda>s e. apply_normal e s) s es) \<and>
    ps_view (foldl (\<lambda>s e. apply_normal e s) s es) = log_exec es (ps_view s)"
  using assms by (induction es arbitrary: s) (use live_apply_normal in auto)

lemma applyCommittedEntries_kv:
  assumes "ps_live (n_kvStore n)" "list_all user_entry es" "n' = applyCommittedEntries rl es n"
  shows "ps_live (n_kvStore n')" "ps_view (n_kvStore n') = log_exec es (ps_view (n_kvStore n))"
    "es \<noteq> [] \<Longrightarrow> 0 < e_Index (last es) \<Longrightarrow> applied_at (n_kvStore n') (e_Index (last es)) (e_Term (last es))"
    "es = [] \<Longrightarrow> n' = n"
proof -
  let ?s = "foldl (\<lambda>s e. apply_normal e s) (n_kvStore n) es"
  have kv: "n_kvStore n' = (if es = [] then n_kvStore n
      else if 0 < e_Index (last es) then mark_applied (e_Index (last es)) (e_Term (last es)) ?s else ?s)"
    unfolding assms(3) by (simp add: applyCommittedEntries_def Let_def foldl_apply_entry_kv mark_applied_def)
  note f = foldl_apply_normal [OF assms(1,2)] and m = live_mark [OF conjunct1 [OF foldl_apply_normal [OF assms(1,2)]]]
  show "ps_live (n_kvStore n')" "ps_view (n_kvStore n') = log_exec es (ps_view (n_kvStore n))"
    unfolding kv using f m(1,2) assms(1) by simp_all
  show "applied_at (n_kvStore n') (e_Index (last es)) (e_Term (last es))" if "es \<noteq> []" "0 < e_Index (last es)"
    unfolding kv using m(3) that by simp
  show "es = [] \<Longrightarrow> n' = n" unfolding assms(3) by (simp add: applyCommittedEntries_def)
qed

text \<open>Only the snapshot part and the committed entries of a batch touch the database.\<close>

lemma handleReadStates_frame [simp]:
  "n_kvStore (handleReadStates sts n) = n_kvStore n" "n_status (handleReadStates sts n) = n_status n"
  "n_walStore (handleReadStates sts n) = n_walStore n" "n_snapStore (handleReadStates sts n) = n_snapStore n"
  "n_disk (handleReadStates sts n) = n_disk n" "n_storage (handleReadStates sts n) = n_storage n"
  "n_cfg (handleReadStates sts n) = n_cfg n"
  by (induction sts arbitrary: n; auto split: option.splits)+

lemma take_snapshot_kv [simp]: "n_kvStore (fst (take_snapshot rl i data n)) = n_kvStore n"
  by (auto simp: take_snapshot_def split: prod.splits sum.splits)

lemma compact_log_kv [simp]: "n_kvStore (fst (compact_log rl i n)) = n_kvStore n"
  by (auto simp: compact_log_def split: prod.splits sum.splits)

lemma maybeTriggerSnapshot_kv [simp]: "n_kvStore (fst (maybeTriggerSnapshot rl n)) = n_kvStore n"
proof -
  have 1: "n_kvStore n1 = n_kvStore n" if "take_snapshot rl i data n = (n1, r)" for i data n1 r
    using take_snapshot_kv [of rl i data n] that by simp
  have 2: "n_kvStore n2 = n_kvStore n1" if "compact_log rl i n1 = (n2, r)" for i n1 n2 r
    using compact_log_kv [of rl i n1] that by simp
  show ?thesis by (auto simp: maybeTriggerSnapshot_def split: prod.splits sum.splits option.splits dest!: 1 2)
qed

lemma emitReady_frame [simp]:
  "n_kvStore (emitReady r n) = n_kvStore n" "n_status (emitReady r n) = n_status n"
  "n_walStore (emitReady r n) = n_walStore n" "n_snapStore (emitReady r n) = n_snapStore n"
  "n_disk (emitReady r n) = n_disk n" "n_storage (emitReady r n) = n_storage n"
  by (simp_all add: emitReady_def)

lemma ready_persist_kv [simp]: "n_kvStore (ready_persist rl hs es n) = n_kvStore n"
  by (simp add: ready_persist_def Let_def split: prod.splits)

lemma handleReady_kv:
  "n_kvStore (handleReady rl rd n) =
     n_kvStore (applyCommittedEntries rl (rr_CommittedEntries rd)
       (handleReadStates (rr_ReadStates rd) (ready_persist rl (rr_HardState rd) (rr_Entries rd) (ready_snapshot rl (rr_Snapshot rd) n))))"
  by (simp add: handleReady_def Let_def)

lemma handleReady_plain:
  assumes "ps_live (n_kvStore n)" "IsEmptySnap (rr_Snapshot rd)" "list_all user_entry (rr_CommittedEntries rd)"
  shows "ps_live (n_kvStore (handleReady rl rd n))"
    "ps_view (n_kvStore (handleReady rl rd n)) = log_exec (rr_CommittedEntries rd) (ps_view (n_kvStore n))"
    "rr_CommittedEntries rd \<noteq> [] \<Longrightarrow> 0 < e_Index (last (rr_CommittedEntries rd)) \<Longrightarrow>
       applied_at (n_kvStore (handleReady rl rd n)) (e_Index (last (rr_CommittedEntries rd))) (e_Term (last (rr_CommittedEntries rd)))"
    "rr_CommittedEntries rd = [] \<Longrightarrow> n_kvStore (handleReady rl rd n) = n_kvStore n"
proof -
  let ?n = "handleReadStates (rr_ReadStates rd) (ready_persist rl (rr_HardState rd) (rr_Entries rd) (ready_snapshot rl (rr_Snapshot rd) n))"
  have "n_kvStore ?n = n_kvStore n" using assms(2) by (simp add: ready_snapshot_def)
  with applyCommittedEntries_kv [of ?n, OF _ assms(3) refl] assms(1)
  show "ps_live (n_kvStore (handleReady rl rd n))"
    "ps_view (n_kvStore (handleReady rl rd n)) = log_exec (rr_CommittedEntries rd) (ps_view (n_kvStore n))"
    "rr_CommittedEntries rd \<noteq> [] \<Longrightarrow> 0 < e_Index (last (rr_CommittedEntries rd)) \<Longrightarrow>
       applied_at (n_kvStore (handleReady rl rd n)) (e_Index (last (rr_CommittedEntries rd))) (e_Term (last (rr_CommittedEntries rd)))"
    "rr_CommittedEntries rd = [] \<Longrightarrow> n_kvStore (handleReady rl rd n) = n_kvStore n"
    unfolding handleReady_kv by simp_all
qed

definition committed :: "raft_ready list \<Rightarrow> Entry list" where
  "committed rds = concat (map rr_CommittedEntries rds)"

definition plain_batch :: "raft_ready \<Rightarrow> bool" where
  "plain_batch rd \<longleftrightarrow> IsEmptySnap (rr_Snapshot rd) \<and> list_all user_entry (rr_CommittedEntries rd) \<and>
     list_all (\<lambda>e. 0 < e_Index e) (rr_CommittedEntries rd)"

definition run_batches :: "('ms, 'rn) raft_library \<Rightarrow> raft_ready list \<Rightarrow> ('db, 'ms, 'rn) RaftNode \<Rightarrow> ('db, 'ms, 'rn) RaftNode" where
  "run_batches rl rds n = foldl (\<lambda>n rd. handleReady rl rd n) n rds"

lemma committed_simps [simp]:
  "committed [] = []" "committed (rd # rds) = rr_CommittedEntries rd @ committed rds"
  by (simp_all add: committed_def)

lemma run_batches_kv:
  assumes "ps_live (n_kvStore n)" "list_all plain_batch rds"
  shows "ps_live (n_kvStore (run_batches rl rds n))"
    "ps_view (n_kvStore (run_batches rl rds n)) = log_exec (committed rds) (ps_view (n_kvStore n))"
    "committed rds \<noteq> [] \<Longrightarrow>
       applied_at (n_kvStore (run_batches rl rds n)) (e_Index (last (committed rds))) (e_Term (last (committed rds)))"
proof -
  have "ps_live (n_kvStore (run_batches rl rds n)) \<and>
    ps_view (n_kvStore (run_batches rl rds n)) = log_exec (committed rds) (ps_view (n_kvStore n)) \<and>
    (if committed rds = [] then n_kvStore (run_batches rl rds n) = n_kvStore n
     else applied_at (n_kvStore (run_batches rl rds n)) (e_Index (last (committed rds))) (e_Term (last (committed rds))))"
    using assms
  proof (induction rds arbitrary: n)
    case (Cons rd rds)
    let ?n = "handleReady rl rd n"
    have rd: "IsEmptySnap (rr_Snapshot rd)" "list_all user_entry (rr_CommittedEntries rd)"
      "list_all (\<lambda>e. 0 < e_Index e) (rr_CommittedEntries rd)" using Cons.prems(2) by (simp_all add: plain_batch_def)
    note h = handleReady_plain [OF Cons.prems(1) rd(1,2), where rl = rl]
    have pos: "0 < e_Index (last (rr_CommittedEntries rd))" if "rr_CommittedEntries rd \<noteq> []"
      using rd(3) that by (auto simp: list_all_iff)
    have r: "run_batches rl (rd # rds) n = run_batches rl rds ?n" by (simp add: run_batches_def)
    from Cons.IH [OF h(1)] Cons.prems(2) h(2-4) pos show ?case
      unfolding r by (cases "committed rds = []"; cases "rr_CommittedEntries rd = []") auto
  qed (simp add: run_batches_def)
  then show "ps_live (n_kvStore (run_batches rl rds n))"
    "ps_view (n_kvStore (run_batches rl rds n)) = log_exec (committed rds) (ps_view (n_kvStore n))"
    "committed rds \<noteq> [] \<Longrightarrow>
       applied_at (n_kvStore (run_batches rl rds n)) (e_Index (last (committed rds))) (e_Term (last (committed rds)))"
    by (auto split: if_splits)
qed

subsection \<open>Recovery\<close>

lemma live_Scan:
  assumes "ps_live s"
  shows "ps_Scan s a b lim = Inr (limited lim (entries (ps_view s) a b))"
proof -
  obtain db where db: "ps_db s = Some db" using assms by (auto simp: ps_live_def)
  moreover obtain kvs where "pb_iter (ps_pebble s) db a b = Inr (kvs, None)" using assms unfolding ps_live_def by blast
  ultimately obtain items where "ps_Scan s a b lim = Inr items"
    by (cases "ps_scan_loop lim kvs []") (auto simp: ps_Scan_def getDB_def)
  with ps_Scan_entries [OF ps_live_inv [OF assms] this] show ?thesis by simp
qed

lemma live_Get:
  assumes "ps_live s" "\<not> isMetaKey k"
  shows "ps_Get s k = Inr (or_empty (ps_view s k))"
proof -
  obtain db where db: "ps_db s = Some db" using assms by (auto simp: ps_live_def)
  moreover obtain v where "pb_get (ps_pebble s) db k = Inr v" using assms unfolding ps_live_def by blast
  ultimately obtain x where x: "ps_Get s k = Inr x" by (cases v) (auto simp: ps_Get_def getDB_def)
  with ps_Get_ok [OF ps_live_inv [OF assms(1)] x] assms(2) show ?thesis by (simp add: ps_view_def)
qed

text \<open>Bytes that hold a snapshot of a state.\<close>

definition snapshot_of :: "bytes \<Rightarrow> (bytes \<rightharpoonup> bytes) \<Rightarrow> bool" where
  "snapshot_of data m \<longleftrightarrow> finite (dom m) \<and> (\<forall>k. isMetaKey k \<longrightarrow> m k = None) \<and>
     (\<exists>ms. data = Encode payload_to_json \<lparr>sp_Data = entries m [] [], sp_Members = ms\<rparr> \<and>
        sorted_wrt (<) (map ma_NodeID ms) \<and> list_all (\<lambda>x. clean_member x = x) ms)"

lemma snapshot_of_Snapshot:
  assumes "ps_inv s" "members_ok s" "ps_Snapshot s = Inr data"
  shows "snapshot_of data (ps_view s)"
proof -
  obtain ms where "data = Encode payload_to_json \<lparr>sp_Data = entries (ps_view s) [] [], sp_Members = ms\<rparr>"
    "sorted_wrt (<) (map ma_NodeID ms)" "set ms = {m. \<exists>n. ps_member s n = Some m}"
    using ps_Snapshot_parts [OF assms] by blast
  with ps_finite_view [OF assms(1)] ps_member_Some(2) [OF assms(2)] show ?thesis
    unfolding snapshot_of_def by (auto simp: ps_view_def list_all_iff intro!: exI [of _ ms])
qed

lemma live_Restore:
  assumes "ps_live t" "snapshot_of data m"
  shows "\<exists>t'. ps_Restore t data = (t', None) \<and> ps_live t' \<and> ps_view t' = m"
proof -
  obtain ms where data: "data = Encode payload_to_json \<lparr>sp_Data = entries m [] [], sp_Members = ms\<rparr>"
    and ms: "sorted_wrt (<) (map ma_NodeID ms)" "list_all (\<lambda>x. clean_member x = x) ms"
    and fin: "finite (dom m)" and user: "\<And>k. isMetaKey k \<Longrightarrow> m k = None"
    using assms(2) unfolding snapshot_of_def by blast
  let ?p = "\<lparr>sp_Data = entries m [] [], sp_Members = ms\<rparr>"
  have dec: "decodeSnapshotPayload data = Some ?p" unfolding data using ms(2) by (intro payload_json) simp
  obtain db where db: "ps_db t = Some db" using assms(1) by (auto simp: ps_live_def)
  obtain kvs mkvs where it: "pb_iter (ps_pebble t) db [] [] = Inr (kvs, None)"
    "pb_iter (ps_pebble t) db metaMembersPrefix memberPrefixEnd = Inr (mkvs, None)"
    using assms(1) unfolding ps_live_def by blast
  from live_commit [OF assms(1) db, of "restore_batch kvs mkvs ?p"] obtain t' where
    t': "commit t db (restore_batch kvs mkvs ?p) = (t', None)" "ps_live t'" by blast
  have run: "ps_Restore t data = (t', None)" using t'(1) db it dec by (simp add: ps_Restore_def getDB_def)
  have "distinct (map kv_Key (sp_Data ?p))" "distinct (map ma_NodeID (sp_Members ?p))"
    using entries_sorted [of m] ms(1) by (simp_all add: strict_sorted_iff)
  from ps_Restore_contents [OF ps_live_inv [OF assms(1)] run dec this]
  have c: "ps_contents t' = (\<lambda>k. if \<not> isMetaKey k \<or> within metaMembersPrefix memberPrefixEnd k then None else ps_contents t k)
       ++ m ++ map_of (map (\<lambda>m. (memberAddressKey (ma_NodeID m), mustJSON m)) ms)"
    by (simp add: map_of_entries [OF fin])
  have "map_of (map (\<lambda>m. (memberAddressKey (ma_NodeID m), mustJSON m)) ms) k = None" if "\<not> isMetaKey k" for k
    using that by (auto simp: map_of_eq_None_iff)
  then have "ps_view t' k = m k" for k
    unfolding ps_view_def c using user by (auto simp: map_add_def split: option.splits)
  with run t'(2) show ?thesis by blast
qed

lemma replay_fold:
  assumes "ps_live s" "list_all user_entry (filter (\<lambda>e. lo < e_Index e \<and> e_Index e \<le> hi) es)"
    "fs = filter (\<lambda>e. lo < e_Index e \<and> e_Index e \<le> hi) es" "s' = foldl (replay_entry lo hi) s es"
  shows "ps_live s' \<and> ps_view s' = log_exec fs (ps_view s) \<and>
    (if fs = [] then s' = s else applied_at s' (e_Index (last fs)) (e_Term (last fs)))"
  using assms
proof (induction es arbitrary: s fs)
  case (Cons e es)
  show ?case
  proof (cases "lo < e_Index e \<and> e_Index e \<le> hi")
    case False
    then have "replay_entry lo hi s e = s" by (auto simp: replay_entry_def not_less)
    with False Cons.prems Cons.IH [OF Cons.prems(1)] show ?thesis by auto
  next
    case True
    then have r: "replay_entry lo hi s e = mark_applied (e_Index e) (e_Term e) (apply_normal e s)"
      by (auto simp: replay_entry_def mark_applied_def)
    have u: "user_entry e" using Cons.prems(2) True by simp
    note a = live_apply_normal [OF Cons.prems(1) u]
    note m = live_mark [OF conjunct1 [OF a], where i = "e_Index e" and t = "e_Term e"]
    have "list_all user_entry (filter (\<lambda>e. lo < e_Index e \<and> e_Index e \<le> hi) es)" using Cons.prems(2) True by simp
    from Cons.IH [OF m(1) this refl] Cons.prems(3,4) True a m(2,3) r show ?thesis by auto
  qed
qed simp

definition snap_index :: "(Metadata \<times> bytes) option \<Rightarrow> u64" where
  "snap_index r = (case r of None \<Rightarrow> 0 | Some (m, _) \<Rightarrow> md_Index m)"

text \<open>
  The directory of a stopped node holds the log \<open>G\<close>: the newest snapshot \<open>r\<close> is the state at its index, and the write-ahead log,
  last seen as \<open>w\<close>, has the committed entries after it.
\<close>

definition log_from_1 :: "Entry list \<Rightarrow> bool" where
  "log_from_1 G \<longleftrightarrow> map ix G = [1..<Suc (length G)] \<and> list_all user_entry G"

definition recoverable :: "FileStore \<Rightarrow> disk \<Rightarrow> FileWAL \<Rightarrow> (Metadata \<times> bytes) option \<Rightarrow> Entry list \<Rightarrow> bool" where
  "recoverable fs d w r G \<longleftrightarrow>
     fw_inv w d \<and> holds_latest fs d r \<and> log_from_1 G \<and>
     length G = unat (max (snap_index r) (hs_Commit (fw_state w))) \<and>
     (case r of None \<Rightarrow> True
      | Some (m, data) \<Rightarrow> 0 < md_Index m \<and> snapshot_of data (log_exec (take (unat (md_Index m)) G) Map.empty)) \<and>
     filter (\<lambda>e. snap_index r < e_Index e \<and> e_Index e \<le> hs_Commit (fw_state w)) (fw_entries w) = drop (unat (snap_index r)) G"

definition library_ok :: "('ms, 'rn) raft_library \<Rightarrow> bool" where
  "library_ok rl \<longleftrightarrow> (\<forall>s ms. snd (rl_ApplySnapshot rl s ms) \<in> {None, Some ErrSnapOutOfDate}) \<and>
     (\<forall>es ms. snd (rl_Append rl es ms) = None)"

lemma log_last:
  assumes "log_from_1 G" "G \<noteq> []"
  shows "ix (last G) = length G"
proof -
  have "last (map ix G) = last [1..<Suc (length G)]" using assms(1) by (simp add: log_from_1_def)
  with assms(2) show ?thesis by (simp add: last_map Suc_le_eq)
qed

lemma restore_snapshot_ok:
  assumes rec: "recoverable (n_snapStore n) (n_disk n) w r G" and live: "ps_live (n_kvStore n)" and lib: "library_ok rl"
    and clean: "dk_outcomes (n_disk n) = []"
  obtains kv ms where "restore_snapshot rl n = (n\<lparr>n_kvStore := kv, n_storage := ms\<rparr>, Inr (snap_index r))" "ps_live kv"
    "r = None \<Longrightarrow> kv = n_kvStore n"
    "\<And>m data. r = Some (m, data) \<Longrightarrow> ps_view kv = log_exec (take (unat (md_Index m)) G) Map.empty \<and> applied_at kv (md_Index m) (md_Term m)"
proof -
  have o: "OpenLatest (n_snapStore n) (n_disk n) = (n_disk n, case r of None \<Rightarrow> Inl ErrSnapshotNotFound | Some x \<Rightarrow> Inr x)"
    using rec clean by (intro OpenLatest_ok) (simp_all add: recoverable_def)
  show ?thesis
  proof (cases r)
    case None
    then have "restore_snapshot rl n = (n\<lparr>n_kvStore := n_kvStore n, n_storage := n_storage n\<rparr>, Inr (snap_index r))"
      using o by (simp add: restore_snapshot_def snap_index_def)
    then show ?thesis using that live None by blast
  next
    case (Some x)
    obtain m data where x: "x = (m, data)" by force
    have m: "0 < md_Index m" and sn: "snapshot_of data (log_exec (take (unat (md_Index m)) G) Map.empty)"
      using rec Some x by (simp_all add: recoverable_def)
    from live_Restore [OF live sn] obtain t where t: "ps_Restore (n_kvStore n) data = (t, None)" "ps_live t"
      "ps_view t = log_exec (take (unat (md_Index m)) G) Map.empty" by blast
    let ?s = "\<lparr>rs_Data = data, rs_Index = md_Index m, rs_Term = md_Term m, rs_ConfState = unmarshalConfState rl (md_ConfState m)\<rparr>"
    obtain ms err where a: "rl_ApplySnapshot rl ?s (n_storage n) = (ms, err)" by force
    then have err: "err = None \<or> err = Some ErrSnapOutOfDate" using lib unfolding library_ok_def by (metis empty_iff insert_iff snd_conv)
    have "restore_snapshot rl n = (n\<lparr>n_kvStore := mark_applied (md_Index m) (md_Term m) t, n_storage := ms\<rparr>, Inr (snap_index r))"
      using o Some x m t(1) a err by (auto simp: restore_snapshot_def Let_def snap_index_def mark_applied_def)
    then show ?thesis
      using that [where kv = "mark_applied (md_Index m) (md_Term m) t" and ms = ms] live_mark(1-3) [OF t(2)] t(3) Some x by auto
  qed
qed

text \<open>
  The state after recovery. The database may still hold the state of any prefix of the log; with a snapshot its contents do not matter.
\<close>

lemma bootstrapStorage_ok:
  assumes rec: "recoverable (n_snapStore n) (n_disk n) w r G" and live: "ps_live (n_kvStore n)" and lib: "library_ok rl"
    and clean: "dk_outcomes (n_disk n) = []"
    and wal: "fw_Load (n_walStore n) = Inr (fw_state w, fw_entries w)"
    and old: "r = None \<Longrightarrow> \<exists>k. ps_view (n_kvStore n) = log_exec (take k G) Map.empty"
  obtains n' where "bootstrapStorage rl n = (n', None)" "ps_live (n_kvStore n')" "ps_view (n_kvStore n') = log_exec G Map.empty"
    "G \<noteq> [] \<Longrightarrow> \<exists>t. applied_at (n_kvStore n') (word_of_nat (length G)) t"
    "n_freshNode n' \<longleftrightarrow> n_freshNode n \<and> r = None \<and> isEmptyHardState (fw_state w) \<and> fw_entries w = []"
    "st_AppliedIndex (n_status n') = hs_Commit (fw_state w)" "n_walStore n' = n_walStore n" "n_disk n' = n_disk n"
proof -
  obtain kv ms where r: "restore_snapshot rl n = (n\<lparr>n_kvStore := kv, n_storage := ms\<rparr>, Inr (snap_index r))" "ps_live kv"
    and none: "r = None \<Longrightarrow> kv = n_kvStore n"
    and some: "\<And>m data. r = Some (m, data) \<Longrightarrow> ps_view kv = log_exec (take (unat (md_Index m)) G) Map.empty \<and> applied_at kv (md_Index m) (md_Term m)"
    by (rule restore_snapshot_ok [OF rec live lib clean]) blast
  let ?st = "fw_state w" and ?es = "fw_entries w" and ?i = "snap_index r"
  let ?kv = "if \<not> isEmptyHardState ?st \<and> hs_Commit ?st > ?i then foldl (replay_entry ?i (hs_Commit ?st)) kv ?es else kv"
  let ?fs = "filter (\<lambda>e. ?i < e_Index e \<and> e_Index e \<le> hs_Commit ?st) ?es"
  have G: "log_from_1 G" "length G = unat (max ?i (hs_Commit ?st))" "?fs = drop (unat ?i) G"
    using rec by (simp_all add: recoverable_def)
  obtain ms2 where ap: "(if ?es \<noteq> [] then rl_Append rl ?es (if \<not> isEmptyHardState ?st then rl_SetHardState rl ?st ms else ms)
      else (if \<not> isEmptyHardState ?st then rl_SetHardState rl ?st ms else ms, None)) = (ms2, None)"
    using lib unfolding library_ok_def by (metis prod.collapse)
  have snap0: "?i = 0 \<longleftrightarrow> r = None" using rec by (auto simp: recoverable_def snap_index_def split: option.splits)
  obtain n' where n': "bootstrapStorage rl n = (n', None)" "n_kvStore n' = ?kv"
    "n_freshNode n' \<longleftrightarrow> n_freshNode n \<and> isEmptyHardState ?st \<and> ?es = [] \<and> ?i = 0"
    "st_AppliedIndex (n_status n') = hs_Commit ?st" "n_walStore n' = n_walStore n" "n_disk n' = n_disk n"
    using r(1) wal ap by (cases "?es = []"; cases "isEmptyHardState ?st") (simp_all add: bootstrapStorage_def Let_def)
  have len: "length ?fs = length G - unat ?i" using G(3) by simp
  have u: "list_all user_entry ?fs" unfolding G(3) using G(1) by (auto simp: log_from_1_def list_all_iff dest: in_set_dropD)
  note f = replay_fold [OF r(2) u refl refl]
  have ne: "\<not> isEmptyHardState ?st" if "?i < hs_Commit ?st" using that by (auto simp: isEmptyHardState_def)
  have kv: "ps_live ?kv \<and> ps_view ?kv = log_exec ?fs (ps_view kv) \<and>
      (if ?fs = [] then ?kv = kv else applied_at ?kv (e_Index (last ?fs)) (e_Term (last ?fs)))"
  proof (cases "?i < hs_Commit ?st")
    case True
    then show ?thesis using f ne by simp
  next
    case False
    then have "?fs = []" using len G(2) by (simp add: max_def)
    with False r(2) show ?thesis by simp
  qed
  have v: "log_exec ?fs (ps_view kv) = log_exec G Map.empty"
  proof (cases r)
    case None
    then obtain k where "ps_view kv = log_exec (take k G) Map.empty" using old none by blast
    moreover have "?fs = G" using G(3) None by (simp add: snap_index_def)
    ultimately show ?thesis using log_exec_prefix [of "take k G" "drop k G" Map.empty] by simp
  next
    case (Some x)
    obtain m data where x: "x = (m, data)" by force
    have "?fs = drop (unat (md_Index m)) G" using G(3) Some x by (simp add: snap_index_def)
    moreover have "log_exec (drop k G) (log_exec (take k G) Map.empty) = log_exec G Map.empty" for k
      by (metis append_take_drop_id log_exec_simps(3))
    ultimately show ?thesis using some [of m data] Some x by simp
  qed
  have ap: "\<exists>t. applied_at ?kv (word_of_nat (length G)) t" if "G \<noteq> []"
  proof (cases "?fs = []")
    case True
    then have l: "length G = unat ?i" using len G(2) by (simp add: max_def word_le_nat_alt split: if_splits)
    then have "?i \<noteq> 0" using that by (auto simp: unat_eq_0)
    then obtain m data where x: "r = Some (m, data)" using snap0 by auto
    then have "word_of_nat (length G) = md_Index m" using l by (simp add: snap_index_def)
    with some [OF x] True kv show ?thesis by auto
  next
    case False
    then have "last ?fs = last G" unfolding G(3) by (simp add: last_drop)
    moreover have "word_of_nat (length G) = e_Index (last G)" by (subst log_last [OF G(1) that, symmetric]) simp
    ultimately show ?thesis using False kv by auto
  qed
  show ?thesis by (rule that [OF n'(1)]) (use n' kv v ap snap0 in auto)
qed

end
