(* ===== verification/Node_Disk.thy ===== *)
theory Node_Disk
  imports Snapshot_Correct Wal_Crash
begin

text \<open>
  The log and the snapshots of a node lie on one disk, in two directories. An operation on one of them changes no file outside of its
  directory, and meets no failure when none is to come.
\<close>

subsection \<open>Changes within a directory\<close>

definition under :: "bytes \<Rightarrow> bytes \<Rightarrow> bool" where
  "under dir p \<longleftrightarrow> HasPrefix p (dir @ ''/'')"

definition within_dir :: "bytes \<Rightarrow> disk \<Rightarrow> disk \<Rightarrow> bool" where
  "within_dir dir d d' \<longleftrightarrow> (\<forall>p. \<not> under dir p \<longrightarrow> contents d' p = contents d p) \<and> (dk_outcomes d = [] \<longrightarrow> dk_outcomes d' = [])"

named_theorems dir_steps

lemma under_join [simp]: "under dir (join_path dir n)" "under dir (join_path dir n @ x)"
  by (simp_all add: under_def join_path_def HasPrefix_iff)

lemma under_paths [simp]:
  "under (fw_dir w) (state_path w)" "under (fw_dir w) (state_path w @ x)" "under dir (segment_path dir i)"
  "under dir (segment_path dir i @ x)"
  "under (fs_dir s) (snapshotPath s m)" "under (fs_dir s) (metadataPath s m)"
  "under (fs_dir s) (metadataPath s m @ x)" "under (fs_dir s) (snapshotPath s m @ x)" "under (fs_dir s) (tmp_snapshotPath s m)"
  by (simp_all add: state_path_def segment_path_def snapshotPath_def metadataPath_def tmp_snapshotPath_def)

lemma within_refl [simp]: "within_dir dir d d"
  by (simp add: within_dir_def)

lemma within_trans: "within_dir dir d d1 \<Longrightarrow> within_dir dir d1 d2 \<Longrightarrow> within_dir dir d d2"
  by (simp add: within_dir_def)

lemma within_set: "under dir p \<Longrightarrow> within_dir dir d (set_file p b d)"
  by (auto simp: within_dir_def)

lemma within_drop: "under dir p \<Longrightarrow> within_dir dir d (drop_file p d)"
  by (auto simp: within_dir_def)

lemma within_io: "next_io d = (i, d') \<Longrightarrow> within_dir dir d d'"
  using next_io_files [of d i d'] by (auto simp: within_dir_def next_io_def split: list.splits)

lemma within_Remove [dir_steps]: "os_Remove p d = (d', e) \<Longrightarrow> under dir p \<Longrightarrow> within_dir dir d d'"
  by (auto simp: os_Remove_def split: prod.splits io.splits intro: within_trans within_io within_drop)

lemma within_WriteFile [dir_steps]: "os_WriteFile p b d = (d', e) \<Longrightarrow> under dir p \<Longrightarrow> within_dir dir d d'"
  by (auto simp: os_WriteFile_def split: prod.splits io.splits intro: within_trans within_io within_set)

lemma within_Rename [dir_steps]:
  "os_Rename p q d = (d', e) \<Longrightarrow> under dir p \<Longrightarrow> under dir q \<Longrightarrow> within_dir dir d d'"
  by (auto simp: os_Rename_def split: prod.splits io.splits option.splits
      intro: within_trans [OF within_io within_trans [OF within_drop within_set]] within_io)

lemma within_call [dir_steps]: "os_call d = (d', b) \<Longrightarrow> within_dir dir d d'"
  by (auto simp: os_call_def split: prod.splits io.splits intro: within_io)

lemma within_ReadFile [dir_steps]: "os_ReadFile p d = (d', r) \<Longrightarrow> within_dir dir d d'"
  by (auto simp: os_ReadFile_def split: prod.splits bool.splits intro: within_call)

subsection \<open>The log\<close>

lemma within_remove_all [dir_steps]:
  "remove_all ps d = (d', e) \<Longrightarrow> list_all (under dir) ps \<Longrightarrow> within_dir dir d d'"
proof (induction ps arbitrary: d)
  case (Cons p ps)
  obtain d1 e1 where r: "os_Remove p d = (d1, e1)" by force
  then have "within_dir dir d d1" using within_Remove Cons.prems(2) by simp
  with Cons r show ?case by (auto split: option.splits intro: within_trans)
qed simp

lemma within_persist [dir_steps]: "persistState w d = (d', e) \<Longrightarrow> within_dir (fw_dir w) d d'"
  by (auto simp: persistState_def split: option.splits prod.splits
      intro: within_trans [OF within_WriteFile within_Rename] within_WriteFile)

lemma within_appendRecord [dir_steps]: "appendRecord p r d = (d', e) \<Longrightarrow> under dir p \<Longrightarrow> within_dir dir d d'"
  by (auto simp: appendRecord_def split: prod.splits io.splits option.splits intro: within_trans [OF within_io within_set] within_io)

lemma within_roll [dir_steps]:
  "roll_segment w segs i f d = (d', r) \<Longrightarrow> within_dir (fw_dir w) d d'"
  by (auto simp: roll_segment_def createSegment_def split: prod.splits io.splits sum.splits
      intro: within_trans [OF within_io within_set] within_io)

definition segs_under :: "bytes \<Rightarrow> Segment list \<Rightarrow> bool" where
  "segs_under dir segs \<longleftrightarrow> (\<forall>s \<in> set segs. under dir (sg_Path s))"

lemma segs_under_simps [simp]:
  "segs_under dir []" "segs_under dir (s # segs) \<longleftrightarrow> under dir (sg_Path s) \<and> segs_under dir segs"
  "segs_under dir (xs @ ys) \<longleftrightarrow> segs_under dir xs \<and> segs_under dir ys"
  by (auto simp: segs_under_def)

lemma segs_under_parts:
  assumes "segs_under dir segs"
  shows "segs_under dir (take k segs)" "segs_under dir (drop k segs)" "segs_under dir (butlast segs)"
    "segs \<noteq> [] \<Longrightarrow> under dir (sg_Path (last segs))" "list_all (under dir) (map sg_Path segs)"
  using assms by (auto simp: segs_under_def list_all_iff dest: in_set_takeD in_set_dropD in_set_butlastD)

lemma roll_segs_under:
  "roll_segment w segs i f d = (d', Inr (segs', j)) \<Longrightarrow> segs_under (fw_dir w) segs \<Longrightarrow>
     segs_under (fw_dir w) segs' \<and> segs' \<noteq> []"
  by (auto simp: roll_segment_def createSegment_def split: prod.splits io.splits sum.splits)

lemma note_entry_path [simp]: "sg_Path (note_entry s e) = sg_Path s"
  by (simp add: note_entry_def Let_def)

lemma within_append_loop [dir_steps]:
  assumes "append_loop w es segs i haveLast d = (d', r)" "segs_under (fw_dir w) segs" "haveLast \<longrightarrow> segs \<noteq> []"
  shows "within_dir (fw_dir w) d d'"
  using assms
proof (induction es arbitrary: segs i haveLast d)
  case (Cons e es)
  show ?case
  proof (cases "cd_EncodeEntry (fw_codec w) e")
    case None
    then show ?thesis using Cons.prems by simp
  next
    case (Some x)
    let ?first = "if haveLast then (d, Inr (segs, i)) else roll_segment w segs i (e_Index e) d"
    obtain d1 r1 where 1: "?first = (d1, r1)" by force
    have w1: "within_dir (fw_dir w) d d1" using 1 within_roll by (auto split: if_splits)
    show ?thesis
    proof (cases r1)
      case (Inl a)
      then show ?thesis using Cons.prems(1) Some 1 w1 by (cases haveLast) auto
    next
      case (Inr p)
      then obtain segs1 i1 where p: "p = (segs1, i1)" by force
      have u1: "segs_under (fw_dir w) segs1" "segs1 \<noteq> []"
        using 1 Inr p Cons.prems(2,3) roll_segs_under [of w segs i "e_Index e" d d1 segs1 i1] by (auto split: if_splits)
      show ?thesis
      proof (cases "fileSize (sg_Path (last segs1)) d1")
        case (Inl a)
        then show ?thesis using Cons.prems(1) Some 1 w1 Inr p by (cases haveLast) auto
      next
        case size: (Inr sz)
        let ?second = "if sz > 0 \<and> sz + (4 + int (length x)) > fw_maxSegmentSize w
                       then roll_segment w segs1 i1 (e_Index e) d1 else (d1, Inr (segs1, i1))"
        obtain d2 r2 where 2: "?second = (d2, r2)" by force
        have w2: "within_dir (fw_dir w) d d2" using 2 within_roll within_trans [OF w1] w1 by (auto split: if_splits)
        show ?thesis
        proof (cases r2)
          case (Inl a)
          then show ?thesis using Cons.prems(1) Some 1 Inr p size 2 w2 by simp
        next
          case r2: (Inr q)
          then obtain segs2 i2 where q: "q = (segs2, i2)" by force
          have u2: "segs_under (fw_dir w) segs2" "segs2 \<noteq> []"
            using 2 r2 q u1 roll_segs_under [of w segs1 i1 "e_Index e" d1 d2 segs2 i2] by (auto split: if_splits)
          obtain d3 e3 where 3: "appendRecord (sg_Path (last segs2)) x d2 = (d3, e3)" by force
          have w3: "within_dir (fw_dir w) d d3"
            using within_trans [OF w2 within_appendRecord [OF 3]] segs_under_parts(4) [OF u2] by blast
          show ?thesis
          proof (cases e3)
            case (Some y)
            then show ?thesis using Cons.prems(1) \<open>cd_EncodeEntry (fw_codec w) e = Some x\<close> 1 Inr p size 2 r2 q 3 w3 by simp
          next
            case None
            then have "append_loop w es (butlast segs2 @ [note_entry (last segs2) e]) i2 True d3 = (d', r)"
              using Cons.prems(1) Some 1 Inr p size 2 r2 q 3 by simp
            from Cons.IH [OF this] have "within_dir (fw_dir w) d3 d'"
              using segs_under_parts(3,4) [OF u2(1)] u2(2) by simp
            with w3 show ?thesis by (rule within_trans)
          qed
        qed
      qed
    qed
  qed
qed simp


lemma within_appendIncremental [dir_steps]:
  assumes "appendEntriesIncremental w es i toLast d = ((w', d'), e)" "segs_under (fw_dir w) (fw_segments w)"
  shows "within_dir (fw_dir w) d d'"
proof (cases "es = []")
  case False
  let ?have = "toLast \<and> fw_segments w \<noteq> [] \<and> i = nextSegmentID (fw_segments w)"
  obtain d1 r where "append_loop w es (fw_segments w) i ?have d = (d1, r)" by force
  with within_append_loop [OF this assms(2)] False assms(1) show ?thesis
    by (auto simp: appendEntriesIncremental_def Let_def split: sum.splits)
qed (use assms in \<open>simp add: appendEntriesIncremental_def\<close>)

lemma within_rewriteTail [dir_steps]:
  assumes run: "rewriteTail w k m d = ((w', d'), e)" and u: "segs_under (fw_dir w) (fw_segments w)"
  shows "within_dir (fw_dir w) d d'"
proof -
  let ?i = "first_index (\<lambda>s. sg_LastIndex s \<ge> k) (fw_segments w)"
  consider "fw_segments w = []" | "fw_segments w \<noteq> []" "?i \<ge> length (fw_segments w)"
    | "fw_segments w \<noteq> []" "\<not> ?i \<ge> length (fw_segments w)" by blast
  then show ?thesis
  proof cases
    case 1
    obtain w1 d1 e1 where "appendEntriesIncremental (w\<lparr>fw_entries := [], fw_segments := []\<rparr>) m 1 False d = ((w1, d1), e1)"
      by (metis surj_pair)
    with within_appendIncremental [OF this] 1 run show ?thesis by (auto simp: rewriteTail_def split: option.splits)
  next
    case 2
    obtain w1 d1 e1 where "appendEntriesIncremental w m (nextSegmentID (fw_segments w)) True d = ((w1, d1), e1)" by (metis surj_pair)
    with within_appendIncremental [OF this u] 2 run show ?thesis by (auto simp: rewriteTail_def Let_def split: option.splits)
  next
    case 3
    obtain d1 e1 where r: "remove_all (map sg_Path (drop ?i (fw_segments w))) d = (d1, e1)" by force
    have w1: "within_dir (fw_dir w) d d1"
      using within_remove_all [OF r] segs_under_parts(5) [OF segs_under_parts(2) [OF u]] by blast
    let ?rf = "sg_FirstIndex (fw_segments w ! ?i)"
    let ?w1 = "w\<lparr>fw_segments := take ?i (fw_segments w), fw_entries := filter (\<lambda>e. e_Index e < ?rf) (fw_entries w)\<rparr>"
    obtain w2 d2 e2 where a: "appendEntriesIncremental ?w1 (filter (\<lambda>e. e_Index e \<ge> ?rf) m)
        (sg_ID (fw_segments w ! ?i)) False d1 = ((w2, d2), e2)" by (metis surj_pair)
    have "within_dir (fw_dir w) d1 d2"
      using within_appendIncremental [OF a] segs_under_parts(1) [OF u] by simp
    with w1 3 r a run show ?thesis
      by (auto simp: rewriteTail_def Let_def split: option.splits intro: within_trans)
  qed
qed

lemma fw_inv_under: "fw_inv w d \<Longrightarrow> segs_under (fw_dir w) (fw_segments w)"
  by (auto simp: fw_inv_def log_on_disk_def segs_ok_def segs_under_def)

lemma within_Append:
  assumes "fw_inv w d" "fw_Append w st es d = ((w', d'), e)"
  shows "within_dir (fw_dir w) d d'"
proof -
  define v where "v = (if isEmptyHardState st then w else w\<lparr>fw_state := st\<rparr>)"
  have v: "fw_dir v = fw_dir w" "segs_under (fw_dir v) (fw_segments v)" "fw_opened v"
    using fw_inv_under [OF assms(1)] assms(1) by (simp_all add: v_def fw_inv_def)
  obtain d1 e1 where p: "persistState v d = (d1, e1)" by force
  note w1 = within_persist [OF p, unfolded v(1)]
  show ?thesis
  proof (cases "e1 = None \<and> es \<noteq> []")
    case False
    then show ?thesis
      using assms p w1 v(3) unfolding fw_Append_def Let_def v_def [symmetric]
      by (cases e1) (auto simp: fw_inv_def)
  next
    case True
    then obtain x xs where es: "es = x # xs" by (cases es) auto
    obtain w2 d2 e2 where a: "appendEntriesIncremental v es (nextSegmentID (fw_segments v)) True d1 = ((w2, d2), e2)"
      by (metis surj_pair)
    obtain w3 d3 e3 where r: "rewriteTail v (e_Index x) (mergeEntries (fw_entries v) es) d1 = ((w3, d3), e3)"
      by (metis surj_pair)
    have "within_dir (fw_dir w) d1 d2" "within_dir (fw_dir w) d1 d3"
      using within_appendIncremental [OF a v(2)] within_rewriteTail [OF r v(2)] v(1) by simp_all
    with w1 have "within_dir (fw_dir w) d d2" "within_dir (fw_dir w) d d3" by (blast intro: within_trans)+
    then show ?thesis
      using True assms p a r w1 es unfolding fw_Append_def Let_def v_def [symmetric]
      by (auto simp: fw_inv_def split: if_splits option.splits)
  qed
qed

lemma within_fw_persist [dir_steps]: "fw_persist w d = ((w', d'), e) \<Longrightarrow> within_dir (fw_dir w) d d'"
  by (auto simp: fw_persist_def split: prod.splits intro: within_persist)

lemma within_truncate_everything [dir_steps]:
  assumes "truncate_everything w d = ((w', d'), e)" "segs_under (fw_dir w) (fw_segments w)"
  shows "within_dir (fw_dir w) d d'"
proof -
  obtain d1 e1 where r: "remove_all (map sg_Path (fw_segments w)) d = (d1, e1)" by force
  have w1: "within_dir (fw_dir w) d d1"
    using within_remove_all [OF r] segs_under_parts(5) [OF assms(2)] by blast
  show ?thesis
    using assms(1) r w1 within_fw_persist [of "w\<lparr>fw_entries := [], fw_segments := []\<rparr>" d1 w' d' e] within_trans [OF w1, of d']
    by (cases e1) (auto simp: truncate_everything_def)
qed

lemma within_rewriteSegmentFile [dir_steps]:
  "rewriteSegmentFile p es c d = (d', e) \<Longrightarrow> under dir p \<Longrightarrow> under dir (p @ ''.tmp'') \<Longrightarrow> within_dir dir d d'"
  by (auto simp: rewriteSegmentFile_def split: option.splits prod.splits
      intro: within_trans [OF within_WriteFile within_Rename] within_WriteFile within_set)

lemma frames_total: "\<forall>x \<in> set es. cd_EncodeEntry c x \<noteq> None \<Longrightarrow> \<exists>b. frames c es = Some b"
  by (induction es) auto

text \<open>A truncation in a clean run: it stays within the directory and succeeds.\<close>

lemma fw_persist_clean:
  assumes "dk_outcomes d = []" "cd_EncodeState (fw_codec w) (fw_state w) \<noteq> None"
  shows "\<exists>d'. fw_persist w d = ((w, d'), None)"
  using persistState_clean [OF assms] by (auto simp: fw_persist_def)

lemma truncate_clean:
  assumes inv: "fw_inv w d" and out: "dk_outcomes d = []" and enc: "cd_EncodeState (fw_codec w) (fw_state w) \<noteq> None"
  shows "\<exists>w' d'. fw_TruncatePrefix w k d = ((w', d'), None) \<and> within_dir (fw_dir w) d d' \<and> fw_dir w' = fw_dir w \<and> fw_codec w' = fw_codec w"
proof -
  obtain ess where log: "log_on_disk w d (fw_segments w) ess" and ess: "concat ess = fw_entries w"
    and con: "consec (fw_entries w)" and op: "fw_opened w"
    using inv by (auto simp: fw_inv_def)
  have u: "segs_under (fw_dir w) (fw_segments w)" by (rule fw_inv_under [OF inv])
  let ?f = "filter (\<lambda>e. e_Index e \<ge> k) (fw_entries w)"
  have per: "\<exists>w' d'. fw_persist v d1 = ((w', d'), None) \<and> within_dir (fw_dir w) d d' \<and> fw_dir w' = fw_dir w \<and> fw_codec w' = fw_codec w"
    if "within_dir (fw_dir w) d d1" "fw_dir v = fw_dir w" "fw_codec v = fw_codec w" "fw_state v = fw_state w" for v d1
  proof -
    note v = that
    have "dk_outcomes d1 = []" using v(1) out by (simp add: within_dir_def)
    then obtain d' where p: "fw_persist v d1 = ((v, d'), None)" using fw_persist_clean [of d1 v] enc v(3,4) by auto
    with within_trans [OF v(1)] within_fw_persist [OF p] v(2,3) show ?thesis by auto
  qed
  consider "fw_entries w = [] \<or> k \<le> e_Index (hd (fw_entries w))"
    | "fw_entries w \<noteq> []" "\<not> k \<le> e_Index (hd (fw_entries w))" "?f = []"
    | "fw_entries w \<noteq> []" "\<not> k \<le> e_Index (hd (fw_entries w))" "?f \<noteq> []" by blast
  then show ?thesis
  proof cases
    case 1
    then have "fw_TruncatePrefix w k d = fw_persist w d" using op by (auto simp: fw_TruncatePrefix_def)
    with per [of d w] show ?thesis by simp
  next
    case 2
    obtain d1 where r: "remove_all (map sg_Path (fw_segments w)) d = (d1, None)" using remove_all_clean [OF out] by blast
    have w1: "within_dir (fw_dir w) d d1" using within_remove_all [OF r] segs_under_parts(5) [OF u] by blast
    have "fw_TruncatePrefix w k d = fw_persist (w\<lparr>fw_entries := [], fw_segments := []\<rparr>) d1"
      using 2 op r by (simp add: fw_TruncatePrefix_def Let_def truncate_everything_def)
    with per [OF w1] show ?thesis by simp
  next
    case 3
    then obtain e where "e \<in> set (fw_entries w)" "k \<le> e_Index e" by (auto simp: filter_empty_conv)
    then have "k \<le> e_Index (last (concat ess))" using consec_le_last [OF con] ess by fastforce
    moreover have "consec (concat ess)" "concat ess \<noteq> []" using con ess 3(1) by simp_all
    ultimately obtain A s B eA es eB where segs: "fw_segments w = A @ s # B" and s: "ess = eA @ es # eB" "length A = length eA"
      and fi: "first_index (\<lambda>s. sg_LastIndex s \<ge> k) (fw_segments w) = length A" and es: "\<forall>e \<in> set (concat eA). e_Index e < k"
      "k \<le> e_Index (last es)"
      using log_split [OF log] by metis
    have hs: "es \<noteq> []" "sg_LastIndex s = e_Index (last es)" "sg_Path s = segment_path (fw_dir w) (sg_ID s)"
      using log segs s by (auto simp: log_on_disk_def list_all2_append seg_holds_def segs_ok_def)
    note cut = filter_concat_cut [OF con [folded ess, unfolded s(1)] hs(1) es, folded s(1), unfolded ess]
    let ?b = "filter (\<lambda>e. e_Index e \<ge> k) es"
    have bd: "takeWhile (\<lambda>e. \<not> e_Index e > sg_LastIndex s) ?f = ?b" using cut(1,2) hs(2) by simp
    have kh: "k > e_Index (hd (fw_entries w))" using 3(2) by simp
    note eq = truncate_eq [OF op 3(1) kh refl 3(3) fi segs bd cut(3)]
    obtain d1 where r: "remove_all (map sg_Path A) d = (d1, None)" "dk_outcomes d1 = []" using remove_all_clean [OF out] by blast
    have w1: "within_dir (fw_dir w) d d1"
      using within_remove_all [OF r(1)] segs_under_parts(5) [of "fw_dir w" A] u segs by simp
    have "\<forall>x \<in> set ?b. cd_EncodeEntry (fw_codec w) x \<noteq> None" using log_encodes [OF log] s by auto
    then obtain data where data: "frames (fw_codec w) ?b = Some data"
      using frames_total by blast
    obtain d2 where rw: "rewriteSegmentFile (sg_Path s) ?b (fw_codec w) d1 = (d2, None)"
      using data r(2) by (auto simp: rewriteSegmentFile_def os_WriteFile_def os_Rename_def next_io_clean)
    have w2: "within_dir (fw_dir w) d d2"
      using within_trans [OF w1 within_rewriteSegmentFile [OF rw]] hs(3) by simp
    show ?thesis
      using per [OF w1] per [OF w2] r(1) rw unfolding eq by (cases "sg_FirstIndex s < k") simp_all
  qed
qed

subsection \<open>The snapshots\<close>

lemma within_read_metas [dir_steps]: "read_metas ps d = (d', r) \<Longrightarrow> within_dir dir d d'"
proof (induction ps arbitrary: d d' r)
  case (Cons p ps)
  obtain d1 r1 where 1: "os_ReadFile p d = (d1, r1)" by force
  obtain d2 r2 where 2: "read_metas ps d1 = (d2, r2)" by force
  have "within_dir dir d d1" "within_dir dir d1 d2" using within_ReadFile [OF 1] Cons.IH [OF 2] .
  with Cons.prems 1 2 show ?case by (auto split: sum.splits option.splits intro: within_trans)
qed simp

lemma within_listMetadata [dir_steps]: "listMetadata s d = (d', r) \<Longrightarrow> within_dir dir d d'"
  by (auto simp: listMetadata_def split: prod.splits bool.splits sum.splits
      intro: within_trans [OF within_call within_read_metas] within_call)

lemma within_remove_snapshots [dir_steps]: "within_dir (fs_dir s) d (remove_snapshots s ms d)"
proof (induction ms arbitrary: d)
  case (Cons m ms)
  obtain d1 e1 where 1: "os_Remove (snapshotPath s m) d = (d1, e1)" by force
  obtain d2 e2 where 2: "os_Remove (metadataPath s m) d1 = (d2, e2)" by force
  have "within_dir (fs_dir s) d d2"
    using within_trans [OF within_Remove [OF 1] within_Remove [OF 2]] by simp
  from within_trans [OF this Cons.IH] 1 2 show ?case by simp
qed simp

lemma within_Cleanup [dir_steps]: "Cleanup s k d = (d', e) \<Longrightarrow> within_dir (fs_dir s) d d'"
  by (auto simp: Cleanup_def Let_def split: prod.splits sum.splits if_splits
      intro: within_listMetadata within_trans [OF within_listMetadata within_remove_snapshots])

lemma within_write_snapshot [dir_steps]:
  assumes "write_snapshot p x d = (d', r)" "under dir p"
  shows "within_dir dir d d'"
proof -
  obtain d1 b where 1: "os_call d = (d1, b)" by force
  have w: "within_dir dir d (set_file p [] d1)" using within_trans [OF within_call [OF 1] within_set [OF assms(2)]] .
  show ?thesis
    using assms 1 w within_call [OF 1] within_trans [OF w within_WriteFile]
    by (auto simp: write_snapshot_def Let_def split: bool.splits option.splits prod.splits)
qed

lemma within_finish [dir_steps]: "finish_snapshot p d = (d', r) \<Longrightarrow> within_dir dir d d'"
  by (auto simp: finish_snapshot_def split: bool.splits prod.splits sum.splits
      intro: within_call within_trans [OF within_call within_call]
        within_trans [OF within_trans [OF within_call within_call] within_ReadFile])

lemma within_persistMetadata [dir_steps]: "persistMetadata s m d = (d', e) \<Longrightarrow> within_dir (fs_dir s) d d'"
  by (auto simp: persistMetadata_def split: option.splits prod.splits
      intro: within_trans [OF within_WriteFile within_Rename] within_WriteFile)

lemma within_Create:
  assumes "fs_Create s m x d = (d', r)"
  shows "within_dir (fs_dir s) d d'"
proof -
  let ?D = "within_dir (fs_dir s)" and ?t = "tmp_snapshotPath s m"
  obtain d1 b where 1: "os_call d = (d1, b)" by force
  obtain d2 r2 where 2: "write_snapshot ?t x d1 = (d2, r2)" by force
  obtain d3 r3 where 3: "finish_snapshot ?t d2 = (d3, r3)" by force
  have w1: "?D d d1" by (rule within_call [OF 1])
  have w2: "?D d d2" using within_trans [OF w1 within_write_snapshot [OF 2]] by simp
  have w3: "?D d d3" by (rule within_trans [OF w2 within_finish [OF 3]])
  show ?thesis
  proof (cases "\<exists>data sz. b \<and> r2 = Inr data \<and> r3 = Inr sz")
    case False
    then show ?thesis using assms 1 2 3 w1 w2 w3 by (auto simp: fs_Create_def Let_def split: bool.splits sum.splits)
  next
    case True
    then obtain data sz where r: "b" "r2 = Inr data" "r3 = Inr sz" by blast
    let ?m = "m\<lparr>md_FileSize := word_of_nat sz, md_Checksum := hex_EncodeToString (Sum256 data)\<rparr>"
    obtain d4 e4 where 4: "os_Rename ?t (snapshotPath s ?m) d3 = (d4, e4)" by force
    obtain d5 e5 where 5: "persistMetadata s ?m d4 = (d5, e5)" by force
    obtain d6 e6 where 6: "Cleanup s (fs_keep s) d5 = (d6, e6)" by force
    have w4: "?D d d4" using within_trans [OF w3 within_Rename [OF 4]] by simp
    have w5: "?D d d5" by (rule within_trans [OF w4 within_persistMetadata [OF 5]])
    have "?D d d6" by (rule within_trans [OF w5 within_Cleanup [OF 6]])
    then show ?thesis using assms 1 2 3 4 5 6 r w4 w5 by (cases e4; cases e5) (simp_all add: fs_Create_def Let_def)
  qed
qed

subsection \<open>Two directories\<close>

definition apart :: "bytes \<Rightarrow> bytes \<Rightarrow> bool" where
  "apart a b \<longleftrightarrow> (\<forall>p. under a p \<longrightarrow> \<not> under b p)"

lemma apart_node_dirs [simp]: "apart (join_path dir ''wal'') (join_path dir ''snapshot'')"
  by (auto simp: apart_def under_def join_path_def HasPrefix_iff)

lemma fw_inv_apart:
  assumes "fw_inv w d" "within_dir b d d'" "apart (fw_dir w) b"
  shows "fw_inv w d'"
proof (rule fw_inv_same [OF assms(1)])
  have k: "contents d' p = contents d p" if "under (fw_dir w) p" for p
    using assms(2,3) that by (auto simp: within_dir_def apart_def)
  show "contents d' (state_path w) = contents d (state_path w)" by (rule k) simp
  show "contents d' p = contents d p" if "wal_path (fw_dir w) p" for p
    using that by (intro k) (simp add: wal_path_def under_def)
qed

lemma holds_latest_apart:
  assumes "holds_latest s d r" "within_dir a d d'" "apart a (fs_dir s)"
  shows "holds_latest s d' r"
proof -
  have k: "file_at d' p = file_at d p" if "under (fs_dir s) p" for p
    using assms(2,3) that by (auto simp: within_dir_def apart_def)
  show ?thesis
  proof (rule holds_latest_frame [OF assms(1)])
    show "file_at d' p = file_at d p \<or> file_at d' p = None" if "meta_path (fs_dir s) p" for p
      using k [of p] that by (simp add: meta_path_def under_def)
    show "file_at d' (metadataPath s m) = file_at d (metadataPath s m) \<and> file_at d' (snapshotPath s m) = file_at d (snapshotPath s m)"
      for m using k [of "metadataPath s m"] k [of "snapshotPath s m"] by simp
  qed
qed

end
