(* ===== verification/Raft_Recovery.thy ===== *)
theory Raft_Recovery
  imports Raft_Correct Node_Disk
begin

text \<open>
  The invariant of a running node: what its directory would recover to is what it has committed.
\<close>

subsection \<open>The log of a node\<close>

text \<open>
  The ghost state is the node's log from index 1 on, with the number of committed and of applied entries. A ready batch of the Raft
  library replaces the log from its first entry on, moves the commit index and delivers the next committed entries.
\<close>

type_synonym log_state = "Entry list \<times> nat \<times> nat"

definition next_log :: "Entry list \<Rightarrow> Entry list \<Rightarrow> Entry list" where
  "next_log F inc = (if inc = [] then F else take (ix (hd inc) - 1) F @ inc)"

definition next_commit :: "HardState \<Rightarrow> nat \<Rightarrow> nat" where
  "next_commit hs c = (if isEmptyHardState hs then c else unat (hs_Commit hs))"

fun spec_ready :: "raft_ready \<Rightarrow> log_state \<Rightarrow> log_state" where
  "spec_ready rd (F, c, a) =
     (next_log F (rr_Entries rd), next_commit (rr_HardState rd) c, a + length (rr_CommittedEntries rd))"

text \<open>What the library promises of a batch without a snapshot.\<close>

fun ready_ok :: "Codec \<Rightarrow> raft_ready \<Rightarrow> log_state \<Rightarrow> bool" where
  "ready_ok codec rd (F, c, a) \<longleftrightarrow>
     (let inc = rr_Entries rd; F' = next_log F inc; c' = next_commit (rr_HardState rd) c; n = length (rr_CommittedEntries rd) in
      IsEmptySnap (rr_Snapshot rd) \<and> consec inc \<and>
      (inc \<noteq> [] \<longrightarrow> c < ix (hd inc) \<and> ix (hd inc) \<le> Suc (length F)) \<and>
      list_all (\<lambda>e. cd_EncodeEntry codec e \<noteq> None) inc \<and> Suc (length F') < 2 ^ 64 \<and>
      c \<le> c' \<and> c' \<le> length F' \<and> list_all user_entry (take c' F') \<and>
      a + n \<le> c' \<and> rr_CommittedEntries rd = take n (drop a F'))"

definition log_indices :: "Entry list \<Rightarrow> bool" where
  "log_indices F \<longleftrightarrow> map ix F = [1..<Suc (length F)]"

lemma log_indices_nth: "log_indices F \<longleftrightarrow> (\<forall>i < length F. ix (F ! i) = Suc i)"
proof -
  have "[1..<Suc (length F)] ! i = Suc i" if "i < length F" for i
    using that by (subst nth_upt) simp_all
  then show ?thesis
    unfolding log_indices_def list_eq_iff_nth_eq by (simp del: upt_Suc)
qed

lemma log_indices_take: "log_indices F \<Longrightarrow> log_indices (take k F)"
  by (simp add: log_indices_nth)

lemma log_indices_drop: "log_indices F \<Longrightarrow> k < length F \<Longrightarrow> ix (hd (drop k F)) = Suc k"
  by (simp add: log_indices_nth hd_drop_conv_nth)

lemma log_indices_last: "log_indices F \<Longrightarrow> F \<noteq> [] \<Longrightarrow> ix (last F) = length F"
  by (simp add: log_indices_nth last_conv_nth)

lemma next_log_indices:
  assumes "log_indices F" "consec inc" "inc \<noteq> [] \<Longrightarrow> 0 < ix (hd inc) \<and> ix (hd inc) \<le> Suc (length F)"
  shows "log_indices (next_log F inc)"
proof (cases "inc = []")
  case False
  then have "ix (inc ! i) = ix (hd inc) + i" if "i < length inc" for i
    using assms(2) that by (simp add: consec_nth)
  with assms(1) assms(3) [OF False] False show ?thesis
    by (auto simp: log_indices_nth next_log_def nth_append min_def)
qed (use assms in \<open>simp add: next_log_def\<close>)

text \<open>Indices select positions.\<close>

lemma filter_log_from:
  assumes "log_indices F"
  shows "filter (\<lambda>e. k \<le> ix e) (drop j F) = drop (max j (k - 1)) F"
  using assms
proof (induction F rule: rev_induct)
  case (snoc x F)
  have F: "log_indices F" "ix x = Suc (length F)"
    using snoc.prems by (auto simp: log_indices_nth nth_append split: if_splits)
  with snoc.IH show ?case by (auto simp: max_def drop_Cons')
qed simp

lemma filter_log_upto:
  assumes "log_indices F"
  shows "filter (\<lambda>e. ix e \<le> k) F = take k F"
  using assms
proof (induction F rule: rev_induct)
  case (snoc x F)
  have F: "log_indices F" "ix x = Suc (length F)"
    using snoc.prems by (auto simp: log_indices_nth nth_append split: if_splits)
  with snoc.IH show ?case by auto
qed simp

lemma merged_log:
  assumes F: "log_indices F" and inc: "inc \<noteq> [] \<Longrightarrow> j < ix (hd inc) \<and> ix (hd inc) \<le> Suc (length F)"
  shows "merged (drop j F) inc = drop j (next_log F inc)"
proof (cases "inc = []")
  case False
  let ?k = "ix (hd inc)"
  have "filter (\<lambda>e. e_Index e < e_Index (hd inc)) (drop j F) = filter (\<lambda>e. j < ix e) (filter (\<lambda>e. ix e \<le> ?k - 1) F)"
  proof -
    have "drop j F = filter (\<lambda>e. Suc j \<le> ix e) F" using filter_log_from [OF F, of "Suc j" 0] by simp
    then show ?thesis using inc [OF False] by (auto simp: word_less_nat_alt intro!: filter_cong)
  qed
  also have "\<dots> = drop j (take (?k - 1) F)"
    using filter_log_from [OF log_indices_take [OF F], of "Suc j" 0] by (simp add: filter_log_upto [OF F] Suc_le_eq)
  finally show ?thesis using inc [OF False] False by (simp add: merged_def next_log_def min_def)
qed (simp add: merged_def next_log_def)


subsection \<open>The invariant\<close>

text \<open>
  What the node relies on of the library's storage: the index of its snapshot (\<open>f\<close>) changes only with \<open>CreateSnapshot\<close>, which
  refuses an index that is not newer.
\<close>

definition storage_ok :: "('ms, 'rn) raft_library \<Rightarrow> ('ms \<Rightarrow> u64) \<Rightarrow> bool" where
  "storage_ok rl f \<longleftrightarrow>
     (\<forall>es ms. f (fst (rl_Append rl es ms)) = f ms) \<and> (\<forall>hs ms. f (rl_SetHardState rl hs ms) = f ms) \<and>
     (\<forall>i ms. f (fst (rl_Compact rl i ms)) = f ms) \<and>
     (\<forall>i cs data ms ms' e. rl_CreateSnapshot rl i cs data ms = (ms', Inl e) \<longrightarrow> f ms' = f ms) \<and>
     (\<forall>i cs data ms ms' s. rl_CreateSnapshot rl i cs data ms = (ms', Inr s) \<longrightarrow> f ms < i \<and> f ms' = i \<and> rs_Index s = i)"

text \<open>The log and the snapshots on disk, in the directory and with the codec of the place \<open>pl\<close>.\<close>

definition disk_ok :: "bytes \<times> Codec \<Rightarrow> FileStore \<Rightarrow> FileWAL \<Rightarrow> disk \<Rightarrow> (Metadata \<times> bytes) option \<Rightarrow> Entry list \<Rightarrow> nat \<Rightarrow> bool" where
  "disk_ok pl fs w d r F c \<longleftrightarrow>
     fs = NewFileStore (join_path (fst pl) ''snapshot'') \<and> fw_dir w = join_path (fst pl) ''wal'' \<and> fw_codec w = snd pl \<and>
     (\<forall>st. cd_EncodeState (fw_codec w) st \<noteq> None) \<and>
     fw_inv w d \<and> dk_outcomes d = [] \<and> holds_latest fs d r \<and>
     log_indices F \<and> Suc (length F) < 2 ^ 64 \<and> (\<exists>j \<le> unat (snap_index r). fw_entries w = drop j F) \<and>
     unat (hs_Commit (fw_state w)) = c \<and> c \<le> length F \<and> list_all user_entry (take c F) \<and> unat (snap_index r) \<le> c \<and>
     (\<forall>m data. r = Some (m, data) \<longrightarrow> 0 < md_Index m \<and> snapshot_of data (log_exec (take (unat (md_Index m)) F) Map.empty))"

definition kv_ok :: "'db PebbleStore \<Rightarrow> Entry list \<Rightarrow> nat \<Rightarrow> bool" where
  "kv_ok s F a \<longleftrightarrow> ps_live s \<and> members_ok s \<and> ps_view s = log_exec (take a F) Map.empty \<and> ps_AppliedIndex s = Inr (word_of_nat a)"

fun node_ok :: "bytes \<times> Codec \<Rightarrow> ('ms \<Rightarrow> u64) \<Rightarrow> ('db, 'ms, 'rn) RaftNode \<Rightarrow> log_state \<Rightarrow> bool" where
  "node_ok pl f n (F, c, a) \<longleftrightarrow>
     (\<exists>r. disk_ok pl (n_snapStore n) (n_walStore n) (n_disk n) r F c \<and> kv_ok (n_kvStore n) F a \<and>
        a \<le> c \<and> unat (snap_index r) \<le> a \<and> f (n_storage n) = snap_index r)"

lemma disk_ok_outcomes: "disk_ok pl fs w d r F c \<Longrightarrow> dk_outcomes d = []"
  by (simp add: disk_ok_def)

lemma disk_ok_recoverable:
  assumes "disk_ok pl fs w d r F c"
  shows "recoverable fs d w r (take c F)"
proof -
  obtain j where j: "j \<le> unat (snap_index r)" "fw_entries w = drop j F"
    and F: "log_indices F" "unat (hs_Commit (fw_state w)) = c" "c \<le> length F" "list_all user_entry (take c F)"
    and s: "unat (snap_index r) \<le> c"
    using assms by (auto simp: disk_ok_def)
  have m: "max (snap_index r) (hs_Commit (fw_state w)) = hs_Commit (fw_state w)"
    using s F(2) by (simp add: max_def word_le_nat_alt)
  have "filter (\<lambda>e. snap_index r < e_Index e \<and> e_Index e \<le> hs_Commit (fw_state w)) (fw_entries w) =
      filter (\<lambda>e. Suc (unat (snap_index r)) \<le> ix e) (filter (\<lambda>e. ix e \<le> c) (filter (\<lambda>e. Suc j \<le> ix e) F))"
    using filter_log_from [OF F(1), of "Suc j" 0] j F(2) by (auto simp: word_less_nat_alt word_le_nat_alt intro!: filter_cong)
  also have "\<dots> = filter (\<lambda>e. Suc (unat (snap_index r)) \<le> ix e) (filter (\<lambda>e. ix e \<le> c) F)"
    using j(1) by (auto intro!: filter_cong)
  also have "\<dots> = drop (unat (snap_index r)) (take c F)"
    using filter_log_from [OF log_indices_take [OF F(1), of c], of "Suc (unat (snap_index r))" 0]
    by (simp add: filter_log_upto [OF F(1)])
  finally have w: "filter (\<lambda>e. snap_index r < e_Index e \<and> e_Index e \<le> hs_Commit (fw_state w)) (fw_entries w) =
      drop (unat (snap_index r)) (take c F)" .
  have "log_from_1 (take c F)" using log_indices_take [OF F(1), of c] F(4) by (simp add: log_from_1_def log_indices_def)
  moreover have "take (unat (md_Index mt)) (take c F) = take (unat (md_Index mt)) F" if "r = Some (mt, data)" for mt data
    using s that by (simp add: snap_index_def min_def)
  ultimately show ?thesis
    using assms w F(2,3) by (auto simp: recoverable_def disk_ok_def m split: option.splits)
qed

subsection \<open>Its preservation\<close>

lemma fw_Append_same: "fw_Append w st es d = ((w', d'), e) \<Longrightarrow> fw_dir w' = fw_dir w \<and> fw_codec w' = fw_codec w"
proof -
  have a: "fw_dir v' = fw_dir v \<and> fw_codec v' = fw_codec v"
    if "appendEntriesIncremental v es i b d = ((v', d'), e)" for v v' es i b d d' e
    using that by (auto simp: appendEntriesIncremental_def Let_def split: if_splits prod.splits sum.splits)
  have t: "fw_dir v' = fw_dir v \<and> fw_codec v' = fw_codec v" if "rewriteTail v k m d = ((v', d'), e)" for v v' k m d d' e
    using that by (auto simp: rewriteTail_def Let_def split: if_splits prod.splits option.splits dest!: a)
  show "fw_Append w st es d = ((w', d'), e) \<Longrightarrow> fw_dir w' = fw_dir w \<and> fw_codec w' = fw_codec w"
    by (auto simp: fw_Append_def Let_def split: if_splits prod.splits option.splits list.splits dest!: a t)
qed

lemma word_commit: "unat (hs_Commit (if isEmptyHardState hs then st else hs)) = next_commit hs (unat (hs_Commit st))"
  by (simp add: next_commit_def)

lemma log_head_le:
  assumes "log_indices F" "j < length F" "c < ix e" "j \<le> c"
  shows "e_Index (hd (drop j F)) \<le> e_Index e"
  using log_indices_drop [OF assms(1,2)] assms(3,4) by (simp add: word_le_nat_alt)

lemma log_no_gap:
  assumes "log_indices F" "j < length F" "ix e \<le> Suc (length F)" "Suc (length F) < 2 ^ 64"
  shows "\<not> e_Index e > e_Index (last (drop j F)) + 1"
proof -
  have "F \<noteq> []" using assms(2) by auto
  then have "unat (e_Index (last (drop j F))) = length F" using log_indices_last [OF assms(1)] assms(2) by (simp add: last_drop)
  then have "unat (e_Index (last (drop j F)) + 1) = Suc (length F)"
    using assms(4) by (simp add: unat_word_ariths)
  then show ?thesis using assms(3) by (simp add: word_less_nat_alt)
qed

lemma append_disk_ok:
  assumes ok: "disk_ok pl fs w d r F c" and room: "fw_room w (length inc)" and con: "consec inc"
    and pos: "inc \<noteq> [] \<Longrightarrow> c < ix (hd inc) \<and> ix (hd inc) \<le> Suc (length F)"
    and enc: "list_all (\<lambda>e. cd_EncodeEntry (fw_codec w) e \<noteq> None) inc"
    and size: "Suc (length (next_log F inc)) < 2 ^ 64"
    and c': "c \<le> next_commit hs c" "next_commit hs c \<le> length (next_log F inc)"
      "list_all user_entry (take (next_commit hs c) (next_log F inc))"
    and run: "fw_Append w hs inc d = ((w', d'), e)"
  shows "disk_ok pl fs w' d' r (next_log F inc) (next_commit hs c) \<and> fw_codec w' = fw_codec w"
proof -
  obtain j where j: "j \<le> unat (snap_index r)" "fw_entries w = drop j F"
    and F: "log_indices F" "unat (hs_Commit (fw_state w)) = c" "c \<le> length F" and s: "unat (snap_index r) \<le> c"
    and len: "Suc (length F) < 2 ^ 64" and inv: "fw_inv w d" and out: "dk_outcomes d = []" and h: "holds_latest fs d r"
    and dirs: "fs = NewFileStore (join_path (fst pl) ''snapshot'')" "fw_dir w = join_path (fst pl) ''wal''" "fw_codec w = snd pl"
    and st: "\<And>st. cd_EncodeState (fw_codec w) st \<noteq> None"
    and snap: "\<And>m data. r = Some (m, data) \<Longrightarrow> 0 < md_Index m \<and> snapshot_of data (log_exec (take (unat (md_Index m)) F) Map.empty)"
    using ok unfolding disk_ok_def by blast
  have jc: "j \<le> c" using j(1) s by simp
  have near: "\<not> e_Index (hd inc) > e_Index (last (fw_entries w)) + 1" if "inc \<noteq> []" "fw_entries w \<noteq> []"
    unfolding j(2) by (rule log_no_gap [OF F(1)]) (use that j(2) pos len in auto)
  have lo: "e_Index (hd (fw_entries w)) \<le> e_Index (hd inc)" if "inc \<noteq> []" "fw_entries w \<noteq> []"
    unfolding j(2) by (rule log_head_le [OF F(1)]) (use that j(2) pos jc in auto)
  obtain w1 d1 where run1: "fw_Append w hs inc d = ((w1, d1), None)" and out1: "dk_outcomes d1 = []"
    using fw_Append_clean [OF inv out, of inc hs] enc st near by (auto simp: list_all_iff)
  have eq: "w1 = w'" "d1 = d'" "e = None" using run run1 by simp_all
  note a = fw_Append_ok [OF inv con room lo run1, unfolded eq]
  have same: "fw_dir w' = fw_dir w" "fw_codec w' = fw_codec w" using fw_Append_same [OF run] by simp_all
  have "merged (fw_entries w) inc = drop j (next_log F inc)" unfolding j(2) by (rule merged_log [OF F(1)]) (use pos jc in auto)
  moreover have "log_indices (next_log F inc)" by (rule next_log_indices [OF F(1) con]) (use pos in auto)
  moreover have "take (unat (md_Index m)) (next_log F inc) = take (unat (md_Index m)) F" if "r = Some (m, data)" for m data
  proof (cases "inc = []")
    case False
    have "unat (md_Index m) \<le> c" using s that by (simp add: snap_index_def)
    then have "unat (md_Index m) \<le> ix (hd inc) - 1" using pos [OF False] by linarith
    then show ?thesis using pos [OF False] False F(3) s that by (simp add: next_log_def min_def snap_index_def)
  qed (simp add: next_log_def)
  moreover have "holds_latest fs d' r"
    by (rule holds_latest_apart [OF h within_Append [OF inv run]]) (simp add: dirs NewFileStore_def)
  moreover have "unat (hs_Commit (fw_state w')) = next_commit hs c" using a F(2) by (simp add: word_commit)
  ultimately show ?thesis
    unfolding disk_ok_def using a same out1 eq dirs st size c' j(1) s snap by (auto intro!: exI [of _ j])
qed

text \<open>The entries of a batch, on the database.\<close>

lemma members_ok_meta:
  assumes "members_ok s" "\<And>k. within metaMembersPrefix memberPrefixEnd k \<Longrightarrow> ps_contents s' k = None \<or> ps_contents s' k = ps_contents s k"
  shows "members_ok s'"
  using assms unfolding members_ok_def by (metis option.distinct(1))

lemma user_exec_meta:
  assumes "user_command c" "isMetaKey k"
  shows "ps_exec c m k = None \<or> ps_exec c m k = m k"
  using assms by (auto simp: ps_exec_def command_batch_def user_command_def)

lemma members_apply_normal:
  assumes "ps_live s" "user_entry e" "members_ok s"
  shows "members_ok (apply_normal e s)"
proof (cases "entry_command e")
  case None
  then have "apply_normal e s = s" by (auto simp: apply_normal_def entry_command_def split: option.splits)
  with assms show ?thesis by simp
next
  case (Some c)
  then have a: "apply_normal e s = fst (ps_Apply s c)"
    by (auto simp: apply_normal_def entry_command_def split: if_splits)
  have u: "user_command c" using assms(2) Some by (simp add: user_entry_def)
  obtain s' r where s': "ps_Apply s c = (s', Inr r)" "ps_contents s' = ps_exec c (ps_contents s)"
    using live_Apply [OF assms(1)] by blast
  show ?thesis unfolding a
    by (rule members_ok_meta [OF assms(3)]) (use s' user_exec_meta [OF u member_range_meta] in auto)
qed

lemma members_foldl:
  assumes "ps_live s" "list_all user_entry es" "members_ok s"
  shows "members_ok (foldl (\<lambda>s e. apply_normal e s) s es)"
  using assms
proof (induction es arbitrary: s)
  case (Cons e es)
  then have "ps_live (apply_normal e s)" "members_ok (apply_normal e s)"
    using live_apply_normal [OF Cons.prems(1)] members_apply_normal [OF Cons.prems(1)] by simp_all
  with Cons show ?case by simp
qed simp

lemma members_mark:
  assumes "ps_live s" "members_ok s"
  shows "members_ok (mark_applied i t s)"
proof (rule members_ok_meta [OF assms(2)])
  fix k assume "within metaMembersPrefix memberPrefixEnd k"
  then have "k \<noteq> metaAppliedIndexKey" "k \<noteq> metaAppliedTermKey" using meta_facts(4,5) by metis+
  from live_mark(4) [OF assms(1) this]
  show "ps_contents (mark_applied i t s) k = None \<or> ps_contents (mark_applied i t s) k = ps_contents s k" by blast
qed

lemma apply_kv_ok:
  assumes ok: "kv_ok (n_kvStore n) F a" and F: "log_indices F" "Suc (length F) < 2 ^ 64" and u: "list_all user_entry (take c F)"
    and es: "es = take k (drop a F)" "length es = k" "a + k \<le> c"
  shows "kv_ok (n_kvStore (applyCommittedEntries rl es n)) F (a + k)"
proof (cases "es = []")
  case False
  have user: "list_all user_entry es"
  proof -
    have "set es \<subseteq> set (take c F)"
      unfolding es(1) take_drop
      by (rule subset_trans [OF set_drop_subset set_take_subset_set_take]) (use es(3) in simp)
    with u show ?thesis by (auto simp: list_all_iff)
  qed
  have live: "ps_live (n_kvStore n)" "members_ok (n_kvStore n)" using ok by (simp_all add: kv_ok_def)
  note kv = applyCommittedEntries_kv [OF live(1) user refl, of rl]
  have "k \<noteq> 0" using False es(2) by auto
  then have last: "ix (last es) = a + k"
  proof -
    have "last es = F ! (a + k - 1)" using es False \<open>k \<noteq> 0\<close> by (simp add: last_conv_nth)
    moreover have "a + k - 1 < length F" using es \<open>k \<noteq> 0\<close> by auto
    ultimately show ?thesis using F(1) \<open>k \<noteq> 0\<close> by (simp add: log_indices_nth)
  qed
  then have "0 < e_Index (last es)" using \<open>k \<noteq> 0\<close> by (simp add: word_less_nat_alt)
  moreover have "e_Index (last es) = word_of_nat (a + k)" by (subst last [symmetric]) simp
  ultimately have ap: "ps_AppliedIndex (n_kvStore (applyCommittedEntries rl es n)) = Inr (word_of_nat (a + k))"
    using kv(3) [OF False] by (simp add: applied_at_def)
  have v: "log_exec es (ps_view (n_kvStore n)) = log_exec (take (a + k) F) Map.empty"
    using ok es(1) by (simp add: kv_ok_def take_add)
  have "n_kvStore (applyCommittedEntries rl es n) =
      mark_applied (e_Index (last es)) (e_Term (last es)) (foldl (\<lambda>s e. apply_normal e s) (n_kvStore n) es)"
    using False \<open>0 < e_Index (last es)\<close> by (simp add: applyCommittedEntries_def Let_def foldl_apply_entry_kv mark_applied_def)
  then have "members_ok (n_kvStore (applyCommittedEntries rl es n))"
    using members_mark members_foldl [OF live(1) user live(2)] foldl_apply_normal [OF live(1) user] by metis
  with kv(1,2) v ap show ?thesis by (simp add: kv_ok_def)
next
  case True
  then have "k = 0" using es(2) by simp
  with True ok show ?thesis by (simp add: applyCommittedEntries_def)
qed


text \<open>A snapshot and the compaction of the log.\<close>

lemma take_snapshot_frame:
  assumes "take_snapshot rl i data n = (n', res)"
  shows "n_kvStore n' = n_kvStore n" "n_snapStore n' = n_snapStore n" "n_walStore n' = n_walStore n" "n_cfg n' = n_cfg n"
  using assms by (auto simp: take_snapshot_def split: prod.splits sum.splits)

lemma no_newer_snapshot:
  assumes "holds_latest s d r" "snap_index r < md_Index m"
  shows "file_at d (metadataPath s m) = None"
proof (rule ccontr)
  assume "file_at d (metadataPath s m) \<noteq> None"
  then obtain x where x: "file_at d (metadataPath s m) = Some x" by blast
  have ok: "metas_ok s d" using assms(1) by (simp add: holds_latest_def)
  from metas_okD [OF ok _ x] obtain m' where "metadataPath s m = metadataPath s m'" "x = Marshal metadata_to_json m'"
    "is_ascii (md_Checksum m')" by auto
  with x have "stored s d m'" "md_Index m' = md_Index m" by (simp_all add: stored_def)
  with assms show False by (auto simp: holds_latest_def snap_index_def before_def split: option.splits)
qed

lemma take_snapshot_ok:
  assumes run: "take_snapshot rl i data n = (n', res)" and lib: "storage_ok rl f"
    and d: "disk_ok pl (n_snapStore n) (n_walStore n) (n_disk n) r F c" and f: "f (n_storage n) = snap_index r"
    and i: "unat i \<le> c" and data: "snapshot_of data (log_exec (take (unat i) F) Map.empty)"
  shows "\<exists>r'. disk_ok pl (n_snapStore n') (n_walStore n') (n_disk n') r' F c \<and> f (n_storage n') = snap_index r' \<and>
     (snap_index r' = i \<or> snap_index r' = snap_index r \<and> (\<exists>e. res = Inl e)) "
proof -
  obtain ms x where cr: "rl_CreateSnapshot rl i (currentConfState rl n) data (n_storage n) = (ms, x)" by force
  show ?thesis
  proof (cases x)
    case (Inl e)
    then have "f ms = f (n_storage n)" using lib cr unfolding storage_ok_def by blast
    then show ?thesis using run cr Inl d f by (intro exI [of _ r]) (auto simp: take_snapshot_def)
  next
    case (Inr snap)
    then have s: "snap_index r < i" "f ms = i" "rs_Index snap = i" using lib cr f unfolding storage_ok_def by metis+
    let ?m = "\<lparr>md_Term = rs_Term snap, md_Index = i, md_ConfState = mustMarshalConfState rl (rs_ConfState snap),
      md_Checksum = [], md_FileSize = word_of_nat (length data)\<rparr>"
    obtain d' res' where c: "fs_Create (n_snapStore n) ?m (Some (data, True)) (n_disk n) = (d', res')" by force
    have h: "holds_latest (n_snapStore n) (n_disk n) r" and out: "dk_outcomes (n_disk n) = []"
      and keep: "0 < fs_keep (n_snapStore n)" and w: "fw_inv (n_walStore n) (n_disk n)"
      and ap: "apart (fw_dir (n_walStore n)) (fs_dir (n_snapStore n))"
      using d by (auto simp: disk_ok_def NewFileStore_def defaultKeepSnapshots_def)
    have new: "file_at (n_disk n) (metadataPath (n_snapStore n) ?m) = None"
      by (rule no_newer_snapshot [OF h]) (use s in simp)
    obtain m where m: "res' = Inr m" using fs_Create_prefix(2) [OF c out] by blast
    let ?r = "Some (completed ?m data, data)"
    have "newest (completed ?m data) data r = ?r"
      using s(1) by (auto simp: newest_def snap_index_def before_def split: option.splits)
    with fs_Create_any [OF c h new keep] m have h': "holds_latest (n_snapStore n) d' ?r" by auto
    note wd = within_Create [OF c]
    have w': "fw_inv (n_walStore n) d'" by (rule fw_inv_apart [OF w wd ap])
    have out': "dk_outcomes d' = []" using wd out by (simp add: within_dir_def)
    have si: "snap_index ?r = i" by (simp add: snap_index_def)
    obtain j where j: "j \<le> unat (snap_index r)" "fw_entries (n_walStore n) = drop j F" using d by (auto simp: disk_ok_def)
    have "j \<le> unat i" using j(1) s(1) by (simp add: word_less_nat_alt)
    moreover have "0 < i" using s(1) by (metis word_gt_0 word_not_simps(1))
    ultimately have "disk_ok pl (n_snapStore n) (n_walStore n) d' ?r F c"
      using d h' w' out' i data j(2) unfolding disk_ok_def si by (auto intro!: exI [of _ j])
    moreover have "n_disk n' = d'" "n_storage n' = ms" "n_snapStore n' = n_snapStore n" "n_walStore n' = n_walStore n"
      using run cr Inr c m s(3) by (auto simp: take_snapshot_def)
    ultimately show ?thesis using s(2) si by (intro exI [of _ ?r]) simp
  qed
qed

lemma compact_index_le: "compact_index cfg i \<le> i"
  unfolding compact_index_def by (auto simp: word_le_nat_alt word_less_nat_alt unat_sub)

lemma compact_log_frame:
  assumes "compact_log rl k n = (n', e)"
  shows "n_kvStore n' = n_kvStore n" "n_snapStore n' = n_snapStore n" "n_cfg n' = n_cfg n"
  using assms by (auto simp: compact_log_def split: prod.splits sum.splits if_splits)

lemma compact_log_ok:
  assumes run: "compact_log rl k n = (n', e)" and lib: "storage_ok rl f"
    and d: "disk_ok pl (n_snapStore n) (n_walStore n) (n_disk n) r F c" and k: "unat k \<le> unat (snap_index r)"
  shows "disk_ok pl (n_snapStore n') (n_walStore n') (n_disk n') r F c \<and> f (n_storage n') = f (n_storage n)"
proof -
  obtain ms err where cp: "rl_Compact rl k (n_storage n) = (ms, err)" by force
  have fm: "f ms = f (n_storage n)" using lib cp unfolding storage_ok_def by (metis fst_conv)
  have inv: "fw_inv (n_walStore n) (n_disk n)" and out: "dk_outcomes (n_disk n) = []"
    and enc: "cd_EncodeState (fw_codec (n_walStore n)) (fw_state (n_walStore n)) \<noteq> None"
    and ap: "apart (fw_dir (n_walStore n)) (fs_dir (n_snapStore n))" and h: "holds_latest (n_snapStore n) (n_disk n) r"
    using d by (auto simp: disk_ok_def NewFileStore_def)
  obtain w' d' where t: "fw_TruncatePrefix (n_walStore n) k (n_disk n) = ((w', d'), None)"
    "within_dir (fw_dir (n_walStore n)) (n_disk n) d'" "fw_dir w' = fw_dir (n_walStore n)" "fw_codec w' = fw_codec (n_walStore n)"
    using truncate_clean [OF inv out enc] by blast
  note a = fw_TruncatePrefix_ok [OF inv t(1)]
  have h': "holds_latest (n_snapStore n) d' r" by (rule holds_latest_apart [OF h t(2) ap])
  have out': "dk_outcomes d' = []" using t(2) out by (simp add: within_dir_def)
  obtain j where j: "j \<le> unat (snap_index r)" "fw_entries (n_walStore n) = drop j F" and F: "log_indices F"
    using d by (auto simp: disk_ok_def)
  have "fw_entries w' = drop (max j (unat k - 1)) F"
    using a j(2) filter_log_from [OF F, of "unat k" j] by (simp add: word_le_nat_alt)
  moreover have "max j (unat k - 1) \<le> unat (snap_index r)" using j(1) k by simp
  ultimately have new: "disk_ok pl (n_snapStore n) w' d' r F c"
    using d a t(3,4) h' out' unfolding disk_ok_def by (auto intro!: exI [of _ "max j (unat k - 1)"])
  show ?thesis
    using run cp t(1) new d fm by (auto simp: compact_log_def split: sum.splits if_splits)
qed

lemma cleanup_disk_ok:
  assumes d: "disk_ok pl fs w d r F c" and run: "Cleanup fs keep d = (d', e)"
  shows "disk_ok pl fs w d' r F c"
proof -
  have inv: "fw_inv w d" and ap: "apart (fw_dir w) (fs_dir fs)" and h: "holds_latest fs d r" and out: "dk_outcomes d = []"
    and k: "0 < fs_keep fs"
    using d by (auto simp: disk_ok_def NewFileStore_def defaultKeepSnapshots_def)
  note wd = within_Cleanup [OF run]
  have "0 < (if keep \<le> 0 then fs_keep fs else keep)" using k by simp
  from Cleanup_latest [OF h this] have "holds_latest fs d' r" using run by simp
  moreover have "fw_inv w d'" by (rule fw_inv_apart [OF inv wd ap])
  moreover have "dk_outcomes d' = []" using wd out by (simp add: within_dir_def)
  ultimately show ?thesis using d unfolding disk_ok_def by blast
qed


lemma maybeTriggerSnapshot_ok:
  assumes ok: "node_ok pl f n (F, c, a)" and lib: "storage_ok rl f"
  shows "node_ok pl f (fst (maybeTriggerSnapshot rl n)) (F, c, a)"
proof -
  obtain r where d: "disk_ok pl (n_snapStore n) (n_walStore n) (n_disk n) r F c" and kv: "kv_ok (n_kvStore n) F a"
    and a: "a \<le> c" and s: "unat (snap_index r) \<le> a" and f: "f (n_storage n) = snap_index r"
    using ok by auto
  let ?i = "word_of_nat a :: u64"
  have "a < 2 ^ 64" using a d by (simp add: disk_ok_def)
  then have i: "unat ?i = a" by (simp add: unat_of_nat)
  have ai: "ps_AppliedIndex (n_kvStore n) = Inr ?i" using kv by (simp add: kv_ok_def)
  obtain cs err where snap: "rl_Snapshot rl (n_storage n) = (cs, err)" by force
  show ?thesis
  proof (cases "?i = 0 \<or> (err \<noteq> None \<and> err \<noteq> Some ErrSnapshotTemporarilyUnavailable) \<or>
      ?i - rs_Index cs < cf_SnapshotEntries (n_cfg n) \<or> (\<exists>e. ps_Snapshot (n_kvStore n) = Inl e)")
    case True
    then have "fst (maybeTriggerSnapshot rl n) = n" using ai snap by (auto simp: maybeTriggerSnapshot_def)
    with ok show ?thesis by simp
  next
    case False
    then obtain data where data: "ps_Snapshot (n_kvStore n) = Inr data" by (cases "ps_Snapshot (n_kvStore n)") auto
    have so: "snapshot_of data (log_exec (take (unat ?i) F) Map.empty)"
      using snapshot_of_Snapshot [OF _ _ data] kv ps_live_inv unfolding i kv_ok_def by metis
    obtain n1 r1 where t: "take_snapshot rl ?i data n = (n1, r1)" by force
    note fr = take_snapshot_frame [OF t]
    obtain r' where d1: "disk_ok pl (n_snapStore n1) (n_walStore n1) (n_disk n1) r' F c" "f (n_storage n1) = snap_index r'"
      and r': "snap_index r' = ?i \<or> snap_index r' = snap_index r \<and> (\<exists>e. r1 = Inl e)"
      using take_snapshot_ok [OF t lib d f _ so] i a by auto
    have s1: "unat (snap_index r') \<le> a" using r' i s by auto
    have ok1: "node_ok pl f n1 (F, c, a)" using d1 kv a s1 fr(1) by auto
    have eq: "maybeTriggerSnapshot rl n = (case r1 of Inl e \<Rightarrow> (n1, e)
      | Inr _ \<Rightarrow> (case compact_log rl (compact_index (n_cfg n1) ?i) n1 of
            (n2, Some e) \<Rightarrow> (n2, Some e)
          | (n2, None) \<Rightarrow> (case Cleanup (n_snapStore n2) (cf_KeepSnapshots (n_cfg n2)) (n_disk n2) of
              (d, e) \<Rightarrow> (n2\<lparr>n_disk := d\<rparr>, map_option NodeSnapshot e))))"
      using False ai snap data t by (auto simp: maybeTriggerSnapshot_def split: sum.splits)
    show ?thesis
    proof (cases r1)
      case (Inl e)
      then show ?thesis using eq ok1 by simp
    next
      case (Inr u)
      obtain n2 e2 where c2: "compact_log rl (compact_index (n_cfg n1) ?i) n1 = (n2, e2)" by force
      have "unat (compact_index (n_cfg n1) ?i) \<le> unat (snap_index r')"
        using compact_index_le [of "n_cfg n1" ?i] r' Inr by (simp add: word_le_nat_alt)
      from compact_log_ok [OF c2 lib d1(1) this] compact_log_frame [OF c2]
      have d2: "disk_ok pl (n_snapStore n2) (n_walStore n2) (n_disk n2) r' F c" "f (n_storage n2) = snap_index r'"
        "n_kvStore n2 = n_kvStore n" using d1(2) fr(1) by simp_all
      have ok2: "node_ok pl f n2 (F, c, a)" using d2 kv a s1 by auto
      obtain d3 e3 where c3: "Cleanup (n_snapStore n2) (cf_KeepSnapshots (n_cfg n2)) (n_disk n2) = (d3, e3)" by force
      have "node_ok pl f (n2\<lparr>n_disk := d3\<rparr>) (F, c, a)"
        using cleanup_disk_ok [OF d2(1) c3] d2 kv a s1 by auto
      then show ?thesis using eq Inr c2 c3 ok2 by (cases e2) simp_all
    qed
  qed
qed

lemma node_ok_same:
  assumes "node_ok pl f n s" "n_snapStore n' = n_snapStore n" "n_walStore n' = n_walStore n" "n_disk n' = n_disk n"
    "n_kvStore n' = n_kvStore n" "n_storage n' = n_storage n"
  shows "node_ok pl f n' s"
  using assms by (cases s) auto

lemma apply_entry_frame:
  "n_snapStore (apply_entry rl n e) = n_snapStore n \<and> n_walStore (apply_entry rl n e) = n_walStore n \<and>
   n_disk (apply_entry rl n e) = n_disk n \<and> n_storage (apply_entry rl n e) = n_storage n"
  by (auto simp: apply_entry_def apply_conf_change_def split: option.splits)

lemma foldl_apply_entry_frame:
  "n_snapStore (foldl (apply_entry rl) n es) = n_snapStore n \<and> n_walStore (foldl (apply_entry rl) n es) = n_walStore n \<and>
   n_disk (foldl (apply_entry rl) n es) = n_disk n \<and> n_storage (foldl (apply_entry rl) n es) = n_storage n"
  by (induction es arbitrary: n) (simp_all add: apply_entry_frame)

lemma applyCommittedEntries_frame [simp]:
  "n_snapStore (applyCommittedEntries rl es n) = n_snapStore n" "n_walStore (applyCommittedEntries rl es n) = n_walStore n"
  "n_disk (applyCommittedEntries rl es n) = n_disk n" "n_storage (applyCommittedEntries rl es n) = n_storage n"
  by (simp_all add: applyCommittedEntries_def Let_def foldl_apply_entry_frame)

lemma handleReady_ok:
  assumes ok: "node_ok pl f n (F, c, a)" and lib: "storage_ok rl f"
    and rd: "ready_ok (fw_codec (n_walStore n)) rd (F, c, a)" and room: "fw_room (n_walStore n) (length (rr_Entries rd))"
  shows "node_ok pl f (handleReady rl rd n) (spec_ready rd (F, c, a))"
proof -
  let ?inc = "rr_Entries rd" and ?hs = "rr_HardState rd" and ?C = "rr_CommittedEntries rd"
  let ?F = "next_log F ?inc" and ?c = "next_commit ?hs c"
  have R: "IsEmptySnap (rr_Snapshot rd)" "consec ?inc" "?inc \<noteq> [] \<Longrightarrow> c < ix (hd ?inc) \<and> ix (hd ?inc) \<le> Suc (length F)"
    "list_all (\<lambda>e. cd_EncodeEntry (fw_codec (n_walStore n)) e \<noteq> None) ?inc" "Suc (length ?F) < 2 ^ 64"
    "c \<le> ?c" "?c \<le> length ?F" "list_all user_entry (take ?c ?F)" "a + length ?C \<le> ?c" "?C = take (length ?C) (drop a ?F)"
    using rd by (auto simp: Let_def)
  obtain r where d: "disk_ok pl (n_snapStore n) (n_walStore n) (n_disk n) r F c" and kv: "kv_ok (n_kvStore n) F a"
    and a: "a \<le> c" and s: "unat (snap_index r) \<le> a" and f: "f (n_storage n) = snap_index r"
    using ok by auto
  have snap: "ready_snapshot rl (rr_Snapshot rd) n = n" using R(1) by (simp add: ready_snapshot_def)
  define n2 where "n2 = ready_persist rl ?hs ?inc n"
  obtain w' d' e where w: "(if \<not> isEmptyHardState ?hs \<or> ?inc \<noteq> [] then fw_Append (n_walStore n) ?hs ?inc (n_disk n)
      else ((n_walStore n, n_disk n), None)) = ((w', d'), e)" by (metis surj_pair)
  have d2: "disk_ok pl (n_snapStore n) w' d' r ?F ?c"
  proof (cases "\<not> isEmptyHardState ?hs \<or> ?inc \<noteq> []")
    case True
    then have "fw_Append (n_walStore n) ?hs ?inc (n_disk n) = ((w', d'), e)" using w by simp
    from append_disk_ok [OF d room R(2,3,4,5,6,7,8) this] show ?thesis by blast
  next
    case False
    then show ?thesis using d w by (simp add: next_log_def next_commit_def)
  qed
  have fa: "f (fst (rl_Append rl es ms)) = f ms" "f (rl_SetHardState rl hs ms) = f ms" for es ms hs
    using lib by (simp_all add: storage_ok_def)
  have n2: "n_walStore n2 = w'" "n_disk n2 = d'" "n_snapStore n2 = n_snapStore n" "n_kvStore n2 = n_kvStore n" "f (n_storage n2) = snap_index r"
    using w fa f unfolding n2_def ready_persist_def Let_def by (auto split: prod.splits if_splits)
  have same: "take a ?F = take a F"
    using R(3) a d by (cases "?inc = []") (auto simp: next_log_def disk_ok_def min_def)
  have kv2: "kv_ok (n_kvStore n2) ?F a" using kv by (simp add: kv_ok_def n2 same)
  have li: "log_indices ?F" using d2 by (simp add: disk_ok_def)
  define n4 where "n4 = applyCommittedEntries rl ?C (handleReadStates (rr_ReadStates rd) n2)"
  have "kv_ok (n_kvStore n4) ?F (a + length ?C)"
    unfolding n4_def by (rule apply_kv_ok [OF _ li R(5,8,10) _ R(9)]) (simp_all add: kv2)
  then have ok4: "node_ok pl f n4 (?F, ?c, a + length ?C)"
    using d2 s R(9) n2 by (auto simp: n4_def intro!: exI [of _ r])
  have "node_ok pl f (fst (maybeTriggerSnapshot rl (n4\<lparr>n_status := updateStatus rd (n_status n4)\<rparr>))) (?F, ?c, a + length ?C)"
    by (rule maybeTriggerSnapshot_ok [OF node_ok_same [OF ok4] lib]) simp_all
  then show ?thesis
    unfolding handleReady_def Let_def snap n2_def [symmetric] n4_def [symmetric]
    by (simp only: spec_ready.simps) (erule node_ok_same; simp)
qed


subsection \<open>Runs and restarts\<close>

text \<open>The contract holds for every batch of the run, and segment numbers do not run out.\<close>

fun run_ok :: "('ms, 'rn) raft_library \<Rightarrow> Codec \<Rightarrow> raft_ready list \<Rightarrow> ('db, 'ms, 'rn) RaftNode \<Rightarrow> log_state \<Rightarrow> bool" where
  "run_ok rl codec [] n s \<longleftrightarrow> True"
| "run_ok rl codec (rd # rds) n s \<longleftrightarrow>
     ready_ok codec rd s \<and> fw_room (n_walStore n) (length (rr_Entries rd)) \<and> run_ok rl codec rds (handleReady rl rd n) (spec_ready rd s)"

lemma node_ok_codec: "node_ok pl f n s \<Longrightarrow> fw_codec (n_walStore n) = snd pl"
  by (cases s) (auto simp: disk_ok_def)

lemma run_batches_ok:
  assumes "node_ok pl f n s" "storage_ok rl f" "run_ok rl (snd pl) rds n s"
  shows "node_ok pl f (run_batches rl rds n) (fold spec_ready rds s)"
  using assms
proof (induction rds arbitrary: n s)
  case (Cons rd rds)
  obtain F c a where s: "s = (F, c, a)" by (cases s) auto
  have "node_ok pl f (handleReady rl rd n) (spec_ready rd s)"
    unfolding s by (rule handleReady_ok) (use Cons.prems s node_ok_codec [OF Cons.prems(1)] in auto)
  from Cons.IH [OF this Cons.prems(2)] Cons.prems(3) show ?case by (simp add: run_batches_def)
qed (simp add: run_batches_def)

text \<open>
  A node that is made anew over the directory of another one: the same disk, and opening the database gives what the other one
  had committed.
\<close>

definition remade :: "bytes \<times> Codec \<Rightarrow> ('db, 'ms, 'rn) RaftNode \<Rightarrow> ('db, 'ms2, 'rn2) RaftNode \<Rightarrow> bool" where
  "remade pl n n2 \<longleftrightarrow> (\<exists>cfg temp ms op.
     cf_DataDir cfg = fst pl \<and> fst pl \<noteq> [] \<and> op (join_path (fst pl) ''pebble'') = Inr (the (ps_db (n_kvStore n))) \<and>
     New cfg True temp (snd pl) ((ps_pebble (n_kvStore n))\<lparr>pb_open := op\<rparr>) ms (n_disk n) = Inr n2)"

lemma remade_parts:
  assumes "remade pl n n2"
  shows "n_walStore n2 = NewFileWAL (join_path (fst pl) ''wal'') (snd pl)" "n_disk n2 = n_disk n"
    "n_snapStore n2 = NewFileStore (join_path (fst pl) ''snapshot'')" "\<not> n_started n2" "n_freshNode n2"
    "ps_Open (n_kvStore n2) True = ((n_kvStore n2)\<lparr>ps_db := Some (the (ps_db (n_kvStore n)))\<rparr>, None)"
    "\<exists>op. ps_pebble (n_kvStore n2) = (ps_pebble (n_kvStore n))\<lparr>pb_open := op\<rparr>"
proof -
  obtain cfg temp ms op where c: "cf_DataDir cfg = fst pl" "fst pl \<noteq> []"
    and o: "op (join_path (fst pl) ''pebble'') = Inr (the (ps_db (n_kvStore n)))"
    and new: "New cfg True temp (snd pl) ((ps_pebble (n_kvStore n))\<lparr>pb_open := op\<rparr>) ms (n_disk n) = Inr n2"
    using assms unfolding remade_def by blast
  have "cf_DataDir (WithDefaults cfg) = fst pl" using c(1) by (simp add: WithDefaults_def)
  with new c(2) o show "n_walStore n2 = NewFileWAL (join_path (fst pl) ''wal'') (snd pl)" "n_disk n2 = n_disk n"
    "n_snapStore n2 = NewFileStore (join_path (fst pl) ''snapshot'')" "\<not> n_started n2" "n_freshNode n2"
    "ps_Open (n_kvStore n2) True = ((n_kvStore n2)\<lparr>ps_db := Some (the (ps_db (n_kvStore n)))\<rparr>, None)"
    "\<exists>op. ps_pebble (n_kvStore n2) = (ps_pebble (n_kvStore n))\<lparr>pb_open := op\<rparr>"
    by (auto simp: New_def Let_def resolveDataDir_def ps_Open_def NewPebbleStore_def join_path_def split: option.splits)
qed

lemma Start_recoverable:
  assumes rec: "recoverable (n_snapStore n) (n_disk n) (n_walStore n) r G" and new: "remade pl n n2" and lib: "library_ok rl"
    and place: "n_snapStore n = NewFileStore (join_path (fst pl) ''snapshot'')" "fw_dir (n_walStore n) = join_path (fst pl) ''wal''"
      "fw_codec (n_walStore n) = snd pl" "dk_outcomes (n_disk n) = []"
    and kv: "ps_live (n_kvStore n)" and old: "r = None \<Longrightarrow> \<exists>k. ps_view (n_kvStore n) = log_exec (take k G) Map.empty"
  shows "\<exists>n3 e. Start rl True n2 = (n3, e) \<and> ps_live (n_kvStore n3) \<and> ps_view (n_kvStore n3) = log_exec G Map.empty \<and>
     (G \<noteq> [] \<longrightarrow> e = None \<and> ps_AppliedIndex (n_kvStore n3) = Inr (word_of_nat (length G)))"
proof -
  note p = remade_parts [OF new]
  let ?w = "n_walStore n"
  have inv: "fw_inv ?w (n_disk n)" and len: "length G = unat (max (snap_index r) (hs_Commit (fw_state ?w)))"
    using rec by (simp_all add: recoverable_def)
  let ?w1 = "(n_walStore n2)\<lparr>fw_state := fw_state ?w, fw_entries := fw_entries ?w, fw_segments := fw_segments ?w, fw_opened := True\<rparr>"
  have op: "fw_Open (n_walStore n2) (n_disk n2) = ((?w1, n_disk n2), None)"
    by (rule fw_Open_ok [OF inv [folded p(2)]]) (simp_all add: p NewFileWAL_def place next_io_clean)
  let ?kv = "(n_kvStore n2)\<lparr>ps_db := Some (the (ps_db (n_kvStore n)))\<rparr>"
  obtain db where db: "ps_db (n_kvStore n) = Some db" using kv by (auto simp: ps_live_def)
  obtain opn where pb: "ps_pebble (n_kvStore n2) = (ps_pebble (n_kvStore n))\<lparr>pb_open := opn\<rparr>" using p(7) by blast
  have live: "ps_live ?kv" using kv pb by (simp add: ps_live_def ps_inv_def pebble_ok_def)
  have "ps_contents ?kv = ps_contents (n_kvStore n)" using pb db by (simp add: ps_contents_def)
  then have view: "ps_view ?kv = ps_view (n_kvStore n)" unfolding ps_view_def by metis
  let ?n = "n2\<lparr>n_started := True, n_walStore := ?w1, n_disk := n_disk n2, n_kvStore := ?kv\<rparr>"
  obtain n3 where b: "bootstrapStorage rl ?n = (n3, None)" "ps_live (n_kvStore n3)" "ps_view (n_kvStore n3) = log_exec G Map.empty"
    "G \<noteq> [] \<Longrightarrow> \<exists>t. applied_at (n_kvStore n3) (word_of_nat (length G)) t"
    "n_freshNode n3 \<longleftrightarrow> n_freshNode n2 \<and> r = None \<and> isEmptyHardState (fw_state ?w) \<and> fw_entries ?w = []"
  proof (rule bootstrapStorage_ok [of ?n ?w r G rl])
    show "recoverable (n_snapStore ?n) (n_disk ?n) ?w r G" using rec p(2,3) place(1) by simp
    show "ps_live (n_kvStore ?n)" using live by simp
    show "library_ok rl" by (rule lib)
    show "dk_outcomes (n_disk ?n) = []" using place(4) p(2) by simp
    show "fw_Load (n_walStore ?n) = Inr (fw_state ?w, fw_entries ?w)" by (simp add: fw_Load_def)
    show "\<exists>k. ps_view (n_kvStore ?n) = log_exec (take k G) Map.empty" if "r = None"
      using view old [OF that] by simp
  qed auto
  let ?r = "rl_Campaign rl (rl_StartNode rl (n_cfg n3) (cf_Peers (n_cfg n3)) (n_storage n3))"
  have st: "Start rl True n2 = (if n_freshNode n3 then (n3\<lparr>n_raftNode := Some (fst ?r)\<rparr>, map_option NodeRaft (snd ?r))
      else (n3\<lparr>n_raftNode := Some (rl_RestartNode rl (n_cfg n3) (n_storage n3))\<rparr>, None))"
    using op p(4,6) b(1) by (simp add: Start_def Let_def split: prod.splits)
  have "\<not> n_freshNode n3" if "G \<noteq> []"
    using that b(5) len by (cases r) (auto simp: isEmptyHardState_def snap_index_def)
  moreover have "ps_AppliedIndex (n_kvStore n3) = Inr (word_of_nat (length G))" if "G \<noteq> []"
    using b(4) [OF that] by (auto simp: applied_at_def)
  ultimately show ?thesis using st b(2,3) by (cases "n_freshNode n3") auto
qed

lemma Start_recovers:
  assumes ok: "node_ok pl f n (F, c, a)" and new: "remade pl n n2" and lib: "library_ok rl"
  shows "\<exists>n3 e. Start rl True n2 = (n3, e) \<and> ps_live (n_kvStore n3) \<and> ps_view (n_kvStore n3) = log_exec (take c F) Map.empty \<and>
     (0 < c \<longrightarrow> e = None \<and> ps_AppliedIndex (n_kvStore n3) = Inr (word_of_nat c))"
proof -
  obtain r where d: "disk_ok pl (n_snapStore n) (n_walStore n) (n_disk n) r F c" and kv: "kv_ok (n_kvStore n) F a" and a: "a \<le> c"
    using ok by auto
  have old: "\<exists>k. ps_view (n_kvStore n) = log_exec (take k (take c F)) Map.empty"
    using kv a by (intro exI [of _ a]) (simp add: kv_ok_def min_def)
  have place: "n_snapStore n = NewFileStore (join_path (fst pl) ''snapshot'')" "fw_dir (n_walStore n) = join_path (fst pl) ''wal''"
      "fw_codec (n_walStore n) = snd pl" "dk_outcomes (n_disk n) = []" and c: "c \<le> length F"
    using d by (simp_all add: disk_ok_def)
  have live: "ps_live (n_kvStore n)" using kv by (simp add: kv_ok_def)
  have "0 < c \<Longrightarrow> take c F \<noteq> []" "length (take c F) = c" using c by auto
  with Start_recoverable [OF disk_ok_recoverable [OF d] new lib place live old] show ?thesis by auto
qed

text \<open>A node that is made over empty directories and started.\<close>

definition fresh_disk :: "bytes \<Rightarrow> disk \<Rightarrow> bool" where
  "fresh_disk dir d \<longleftrightarrow> dk_outcomes d = [] \<and>
     (\<forall>p. under (join_path dir ''wal'') p \<or> under (join_path dir ''snapshot'') p \<longrightarrow> contents d p = None)"

definition codec_total :: "Codec \<Rightarrow> bool" where
  "codec_total c \<longleftrightarrow> codec_ok c \<and> (\<forall>st. cd_EncodeState c st \<noteq> None)"

text \<open>Pebble without failures, whose database at the path is new.\<close>

definition pebble_fresh :: "'db pebble \<Rightarrow> bytes \<Rightarrow> bool" where
  "pebble_fresh p path \<longleftrightarrow> (\<exists>db. pb_open p path = Inr db \<and> pb_view p db = Map.empty \<and>
     (\<forall>s. ps_pebble s = p \<longrightarrow> ps_db s \<noteq> None \<longrightarrow> ps_live s))"

lemma Start_fresh_both:
  assumes new: "New cfg True temp (snd pl) p ms d = Inr n0" and dir: "cf_DataDir cfg = fst pl" "fst pl \<noteq> []"
    and disk: "fresh_disk (fst pl) d" and codec: "codec_total (snd pl)"
    and peb: "pebble_fresh p (join_path (fst pl) ''pebble'')" and f: "f ms = 0"
  shows "node_ok pl f (fst (Start rl True n0)) ([], 0, 0) \<and> st_AppliedIndex (n_status (fst (Start rl True n0))) = 0 \<and>
    ps_contents (n_kvStore (fst (Start rl True n0))) = Map.empty \<and> ((\<forall>r. snd (rl_Campaign rl r) = None) \<longrightarrow> snd (Start rl True n0) = None)"
proof -
  have "cf_DataDir (WithDefaults cfg) = fst pl" using dir(1) by (simp add: WithDefaults_def)
  with new dir(2) have n0: "n_walStore n0 = NewFileWAL (join_path (fst pl) ''wal'') (snd pl)" "n_disk n0 = d" "n_storage n0 = ms"
    "n_snapStore n0 = NewFileStore (join_path (fst pl) ''snapshot'')" "\<not> n_started n0"
    "n_kvStore n0 = NewPebbleStore p (join_path (fst pl) ''pebble'') []"
    by (auto simp: New_def Let_def resolveDataDir_def split: option.splits)
  obtain db where db: "pb_open p (join_path (fst pl) ''pebble'') = Inr db" "pb_view p db = Map.empty"
    and live: "\<And>s. ps_pebble s = p \<Longrightarrow> ps_db s \<noteq> None \<Longrightarrow> ps_live s" using peb unfolding pebble_fresh_def by blast
  let ?kv = "(n_kvStore n0)\<lparr>ps_db := Some db\<rparr>"
  have po: "ps_Open (n_kvStore n0) True = (?kv, None)" using db(1) n0(6) by (simp add: ps_Open_def NewPebbleStore_def join_path_def)
  have pk: "ps_pebble ?kv = p" using n0(6) by (simp add: NewPebbleStore_def)
  then have ct: "ps_contents ?kv = Map.empty" using db(2) by (simp add: ps_contents_def)
  have lv: "ps_live ?kv" by (rule live) (use pk in simp_all)
  have out: "dk_outcomes d = []" and no: "\<And>q. under (join_path (fst pl) ''wal'') q \<Longrightarrow> contents d q = None"
    "\<And>q. under (join_path (fst pl) ''snapshot'') q \<Longrightarrow> contents d q = None" using disk unfolding fresh_disk_def by blast+
  let ?w = "n_walStore n0" and ?w1 = "(n_walStore n0)\<lparr>fw_state := zero_HardState, fw_entries := [], fw_segments := [], fw_opened := True\<rparr>"
  have w: "codec_ok (fw_codec ?w)" "\<not> fw_opened ?w" "contents d (state_path ?w) = None" "\<forall>q. wal_path (fw_dir ?w) q \<longrightarrow> contents d q = None"
    using codec no(1) by (auto simp: n0 NewFileWAL_def codec_total_def state_path_def wal_path_def under_def join_path_def HasPrefix_iff)
  note open_wal = fw_Open_fresh [OF w(1,2) next_io_clean [OF out] w(3,4)]
  have h: "holds_latest (n_snapStore n0) d None"
    using no(2) by (auto simp: holds_latest_def metas_ok_def stored_def n0 NewFileStore_def meta_path_def under_def metadataPath_def
      join_path_def HasPrefix_iff)
  let ?n = "n0\<lparr>n_started := True, n_walStore := ?w1, n_disk := d, n_kvStore := ?kv\<rparr>"
  have "OpenLatest (n_snapStore n0) d = (d, Inl ErrSnapshotNotFound)" using OpenLatest_ok [OF h out] by simp
  then obtain n1 where b: "bootstrapStorage rl ?n = (n1, None)" "n_walStore n1 = ?w1" "n_disk n1 = d" "n_snapStore n1 = n_snapStore n0"
      "n_kvStore n1 = ?kv" "n_storage n1 = ms" "st_AppliedIndex (n_status n1) = 0"
    using n0 by (auto simp: bootstrapStorage_def restore_snapshot_def fw_Load_def isEmptyHardState_def zero_HardState_def Let_def)
  let ?r = "rl_Campaign rl (rl_StartNode rl (n_cfg n1) (cf_Peers (n_cfg n1)) (n_storage n1))"
  have st: "Start rl True n0 = (if n_freshNode n1 then (n1\<lparr>n_raftNode := Some (fst ?r)\<rparr>, map_option NodeRaft (snd ?r))
      else (n1\<lparr>n_raftNode := Some (rl_RestartNode rl (n_cfg n1) (n_storage n1))\<rparr>, None))"
    using open_wal(1) po n0(2,5) b(1) by (simp add: Start_def Let_def split: prod.splits)
  have d: "disk_ok pl (n_snapStore n0) ?w1 d None [] 0"
    using open_wal(2) h out codec unfolding disk_ok_def
    by (simp add: n0 NewFileWAL_def codec_total_def snap_index_def log_indices_def zero_HardState_def)
  have "ps_AppliedIndex ?kv = Inr 0"
  proof -
    obtain v where g: "pb_get (ps_pebble ?kv) db metaAppliedIndexKey = Inr v" using lv unfolding ps_live_def by blast
    have "v = None" using pb_get_ok [OF ps_live_inv [OF lv] _ g] ct by simp
    with g show ?thesis by (simp add: ps_AppliedIndex_def get_counter_def getDB_def)
  qed
  moreover have "members_ok ?kv" unfolding members_ok_def ct by simp
  moreover have "ps_view ?kv = Map.empty" unfolding ps_view_def ct by (simp add: fun_eq_iff)
  ultimately have "node_ok pl f n1 ([], 0, 0)"
    using d lv f b by (auto simp: kv_ok_def snap_index_def intro!: exI [of _ None])
  then show ?thesis unfolding st using b(5,7) ct by (auto intro: node_ok_same)
qed

lemma Start_fresh:
  assumes "New cfg True temp (snd pl) p ms d = Inr n0" "cf_DataDir cfg = fst pl" "fst pl \<noteq> []"
    "fresh_disk (fst pl) d" "codec_total (snd pl)" "pebble_fresh p (join_path (fst pl) ''pebble'')" "f ms = 0"
  shows "node_ok pl f (fst (Start rl True n0)) ([], 0, 0)"
  using Start_fresh_both [of cfg temp pl p ms d n0 f rl] assms by blast

lemma Start_fresh_applied:
  assumes "New cfg True temp (snd pl) p ms d = Inr n0" "cf_DataDir cfg = fst pl" "fst pl \<noteq> []"
    "fresh_disk (fst pl) d" "codec_total (snd pl)" "pebble_fresh p (join_path (fst pl) ''pebble'')"
  shows "st_AppliedIndex (n_status (fst (Start rl True n0))) = 0"
  using Start_fresh_both [of cfg temp pl p ms d n0 "\<lambda>_. 0" rl] assms by blast

lemma Start_fresh_empty:
  assumes "New cfg True temp (snd pl) p ms d = Inr n0" "cf_DataDir cfg = fst pl" "fst pl \<noteq> []"
    "fresh_disk (fst pl) d" "codec_total (snd pl)" "pebble_fresh p (join_path (fst pl) ''pebble'')" "\<forall>r. snd (rl_Campaign rl r) = None"
  shows "ps_contents (n_kvStore (fst (Start rl True n0))) = Map.empty" "snd (Start rl True n0) = None"
  using Start_fresh_both [of cfg temp pl p ms d n0 "\<lambda>_. 0" rl] assms by blast+


subsection \<open>Installed snapshots\<close>

text \<open>A snapshot that is received and installed is what a restart recovers, when the log has committed nothing beyond it.\<close>

lemma InstallSnapshot_recoverable:
  assumes lib: "library_ok rl" and running: "ensureRunning n = None" and data: "data \<noteq> []"
    and place: "n_snapStore n = NewFileStore (join_path (fst pl) ''snapshot'')" "fw_dir (n_walStore n) = join_path (fst pl) ''wal''"
      "dk_outcomes (n_disk n) = []"
    and inv: "fw_inv (n_walStore n) (n_disk n)" and h: "holds_latest (n_snapStore n) (n_disk n) r" and new: "snap_index r < md_Index meta"
    and live: "ps_live (n_kvStore n)" and st: "cd_EncodeState (fw_codec (n_walStore n)) (fw_state (n_walStore n)) \<noteq> None"
    and G: "log_from_1 G" "length G = unat (md_Index meta)" "snapshot_of data (log_exec G Map.empty)"
    and com: "hs_Commit (fw_state (n_walStore n)) \<le> md_Index meta"
  shows "\<exists>n'. InstallSnapshot rl meta data n = (n', None) \<and>
     recoverable (n_snapStore n') (n_disk n') (n_walStore n') (Some (completed meta data, data)) G \<and>
     ps_live (n_kvStore n') \<and> ps_view (n_kvStore n') = log_exec G Map.empty \<and> ps_AppliedIndex (n_kvStore n') = Inr (md_Index meta) \<and>
     n_snapStore n' = n_snapStore n \<and> fw_dir (n_walStore n') = fw_dir (n_walStore n) \<and> fw_codec (n_walStore n') = fw_codec (n_walStore n) \<and>
     dk_outcomes (n_disk n') = []"
proof -
  let ?fs = "n_snapStore n" and ?w = "n_walStore n" and ?r = "Some (completed meta data, data)"
  have ap: "apart (fw_dir ?w) (fs_dir ?fs)" and keep: "0 < fs_keep ?fs"
    using place by (simp_all add: NewFileStore_def defaultKeepSnapshots_def)
  obtain d1 res where cr: "fs_Create ?fs meta (Some (data, True)) (n_disk n) = (d1, res)" by force
  have nofile: "file_at (n_disk n) (metadataPath ?fs meta) = None" by (rule no_newer_snapshot [OF h new])
  obtain m where m: "res = Inr m" using fs_Create_prefix(2) [OF cr place(3)] by blast
  have nw: "newest (completed meta data) data r = ?r"
    using new by (auto simp: newest_def snap_index_def before_def split: option.splits)
  have h1: "holds_latest ?fs d1 ?r" using fs_Create_any [OF cr h nofile keep] m nw by auto
  note wd = within_Create [OF cr]
  have inv1: "fw_inv ?w d1" by (rule fw_inv_apart [OF inv wd ap])
  have out1: "dk_outcomes d1 = []" using wd place(3) by (simp add: within_dir_def)
  obtain kv where kv: "ps_Restore (n_kvStore n) data = (kv, None)" "ps_live kv" "ps_view kv = log_exec G Map.empty"
    using live_Restore [OF live G(3)] by blast
  note mk = live_mark [OF kv(2), where i = "md_Index meta" and t = "md_Term meta"]
  obtain kv1 where k1: "ps_SetAppliedIndex kv (md_Index meta) = (kv1, None)" "ps_live kv1"
    using live_set_counter [OF kv(2)] unfolding ps_SetAppliedIndex_def by blast
  obtain kv2 where k2: "ps_SetAppliedTerm kv1 (md_Term meta) = (kv2, None)"
    using live_set_counter [OF k1(2)] unfolding ps_SetAppliedTerm_def by blast
  have k2m: "kv2 = mark_applied (md_Index meta) (md_Term meta) kv" by (simp add: mark_applied_def k1(1) k2)
  obtain w' d' where t: "fw_TruncatePrefix ?w (md_Index meta) d1 = ((w', d'), None)" "within_dir (fw_dir ?w) d1 d'"
    "fw_dir w' = fw_dir ?w" "fw_codec w' = fw_codec ?w" using truncate_clean [OF inv1 out1 st] by blast
  have h': "holds_latest ?fs d' ?r" by (rule holds_latest_apart [OF h1 t(2) ap])
  have out': "dk_outcomes d' = []" using t(2) out1 by (simp add: within_dir_def)
  let ?s = "\<lparr>rs_Data = data, rs_Index = md_Index meta, rs_Term = md_Term meta, rs_ConfState = unmarshalConfState rl (md_ConfState meta)\<rparr>"
  obtain ms err where a: "rl_ApplySnapshot rl ?s (n_storage n) = (ms, err)" by force
  then have err: "err = None \<or> err = Some ErrSnapOutOfDate" using lib unfolding library_ok_def by (metis empty_iff insert_iff snd_conv)
  obtain n' where n': "InstallSnapshot rl meta data n = (n', None)" "n_walStore n' = w'" "n_disk n' = d'" "n_snapStore n' = ?fs" "n_kvStore n' = kv2"
    using running cr m data kv(1) k1(1) k2 t(1) a err
    by (auto simp: InstallSnapshot_def fs_Install_def Let_def)
  note a = fw_TruncatePrefix_ok [OF inv1 t(1)]
  have mx: "max (md_Index meta) (hs_Commit (fw_state w')) = md_Index meta" using com a by (simp add: max_def)
  have "filter (\<lambda>e. md_Index meta < e_Index e \<and> e_Index e \<le> hs_Commit (fw_state w')) (fw_entries w') = []"
    unfolding filter_empty_conv using com a by auto
  moreover have "0 < md_Index meta" using new by (metis word_gt_0 word_not_simps(1))
  ultimately have "recoverable ?fs d' w' ?r G"
    using a h' G mx by (simp add: recoverable_def snap_index_def)
  then show ?thesis using n' mk kv(3) t(3,4) out' k2m by (simp add: applied_at_def)
qed

end
