(* ===== verification/Raft_Props.thy ===== *)
theory Raft_Props
  imports Raft_Recovery
begin

text \<open>
  The properties of the Raft node: replicas agree, a restart keeps what is committed, and what read barriers guarantee and
  where they fail.
\<close>

subsection \<open>Read requests\<close>

text \<open>
  Read requests interleave with batches: a call registers, the library's answers arrive, a call gives up (its context ends, the node stops,
  or the library refuses).
\<close>

datatype read_event = EvBegin bytes | EvStates "raft_read_state list" | EvGiveUp bytes

definition request_ctx :: "bytes \<Rightarrow> ('db, 'ms, 'rn) RaftNode \<Rightarrow> bytes" where
  "request_ctx c n = (if c = [] then ''read-index-'' @ FormatUint (unat (n_readIndexCounter n + 1)) else c)"

fun read_step :: "read_event \<Rightarrow> ('db, 'ms, 'rn) RaftNode \<Rightarrow> ('db, 'ms, 'rn) RaftNode" where
  "read_step (EvBegin c) n = fst (readindex_begin c n)"
| "read_step (EvStates sts) n = handleReadStates sts n"
| "read_step (EvGiveUp c) n = removeWaiter c n"

definition waiters_ok :: "('db, 'ms, 'rn) RaftNode \<Rightarrow> bool" where
  "waiters_ok n \<longleftrightarrow> (\<forall>c ch. map_of (n_waiters n) c = Some ch \<longrightarrow> ch < length (n_chans n)) \<and>
     (\<forall>c c' ch. map_of (n_waiters n) c = Some ch \<longrightarrow> map_of (n_waiters n) c' = Some ch \<longrightarrow> c = c')"

text \<open>The channel of a call: waiting under a context, answered, or cut off.\<close>

definition waiting :: "bytes \<Rightarrow> nat \<Rightarrow> ('db, 'ms, 'rn) RaftNode \<Rightarrow> bool" where
  "waiting c ch n \<longleftrightarrow> waiters_ok n \<and> ch < length (n_chans n) \<and> n_chans n ! ch = (None, False) \<and> map_of (n_waiters n) c = Some ch"

definition settled :: "index_chan \<Rightarrow> nat \<Rightarrow> ('db, 'ms, 'rn) RaftNode \<Rightarrow> bool" where
  "settled v ch n \<longleftrightarrow> waiters_ok n \<and> ch < length (n_chans n) \<and> n_chans n ! ch = v \<and> ch \<notin> ran (map_of (n_waiters n))"

lemma running_read_step: "ensureRunning (read_step ev n) = ensureRunning n"
proof -
  have h: "n_started (handleReadStates sts n) = n_started n \<and> n_stopped (handleReadStates sts n) = n_stopped n" for sts
    by (induction sts arbitrary: n) (auto split: option.splits)
  show ?thesis
    by (cases ev) (auto simp: ensureRunning_def readindex_begin_def removeWaiter_def Let_def h split: option.splits if_splits)
qed

lemma begin_state:
  assumes "ensureRunning n = None"
  shows "n_chans (fst (readindex_begin c n)) = n_chans n @ [(None, False)]"
    "map_of (n_waiters (fst (readindex_begin c n))) = (map_of (n_waiters n))(request_ctx c n \<mapsto> length (n_chans n))"
    "snd (readindex_begin c n) = Inr (request_ctx c n, length (n_chans n))"
  using assms by (simp_all add: readindex_begin_def request_ctx_def Let_def update_conv')

lemma waiters_ok_begin:
  assumes "ensureRunning n = None" "waiters_ok n"
  shows "waiters_ok (fst (readindex_begin c n))"
  using assms(2) unfolding waiters_ok_def begin_state [OF assms(1)]
  by (auto split: if_splits) (metis less_irrefl less_SucI)+

lemma waiters_ok_remove:
  assumes "waiters_ok n"
  shows "waiters_ok (removeWaiter c n)"
  using assms unfolding waiters_ok_def
  by (auto simp: removeWaiter_def delete_conv' split: option.splits if_splits)

lemma handle_one:
  "handleReadStates (st # sts) n = handleReadStates sts
     (case map_of (n_waiters n) (rd_RequestCtx st) of None \<Rightarrow> n
      | Some ch \<Rightarrow> n\<lparr>n_chans := (n_chans n)[ch := (Some (rd_Index st), True)], n_waiters := AList.delete (rd_RequestCtx st) (n_waiters n)\<rparr>)"
  by (simp split: option.splits)

lemma settled_states:
  assumes "settled v ch n"
  shows "settled v ch (handleReadStates sts n)"
  using assms
proof (induction sts arbitrary: n)
  case (Cons st sts)
  show ?case
  proof (cases "map_of (n_waiters n) (rd_RequestCtx st)")
    case None
    then show ?thesis using Cons by simp
  next
    case (Some ch')
    have "ch' \<noteq> ch" using Cons.prems Some by (auto simp: settled_def ran_def)
    then have "settled v ch (n\<lparr>n_chans := (n_chans n)[ch' := (Some (rd_Index st), True)], n_waiters := AList.delete (rd_RequestCtx st) (n_waiters n)\<rparr>)"
      using Cons.prems unfolding settled_def waiters_ok_def by (auto simp: delete_conv' ran_def)
    from Cons.IH [OF this] Some show ?thesis by simp
  qed
qed simp

lemma settled_step:
  assumes "settled v ch n" "ensureRunning n = None"
  shows "settled v ch (read_step ev n)"
proof (cases ev)
  case (EvBegin c)
  have "waiters_ok (read_step ev n)" using waiters_ok_begin [OF assms(2)] assms(1) EvBegin by (simp add: settled_def)
  then show ?thesis
    using assms(1) begin_state [OF assms(2), of c] EvBegin by (auto simp: settled_def ran_def nth_append)
next
  case (EvStates sts)
  then show ?thesis using settled_states [OF assms(1)] by simp
next
  case (EvGiveUp c)
  have "waiters_ok (read_step ev n)" using waiters_ok_remove [of n c] assms(1) EvGiveUp by (simp add: settled_def)
  moreover have "ch' \<noteq> ch" if "map_of (n_waiters n) c = Some ch'" for ch' using assms(1) that by (auto simp: settled_def ran_def)
  ultimately show ?thesis
    using assms(1) EvGiveUp by (auto simp: settled_def removeWaiter_def ran_def delete_conv' split: option.splits)
qed

lemma settled_run:
  assumes "settled v ch n" "ensureRunning n = None"
  shows "settled v ch (fold read_step evs n)"
  using assms by (induction evs arbitrary: n) (simp_all add: settled_step running_read_step)


text \<open>Events that neither register nor give up under a context.\<close>

fun leaves :: "bytes \<Rightarrow> read_event \<Rightarrow> ('db, 'ms, 'rn) RaftNode \<Rightarrow> bool" where
  "leaves x (EvBegin c) n \<longleftrightarrow> request_ctx c n \<noteq> x"
| "leaves x (EvStates sts) n \<longleftrightarrow> True"
| "leaves x (EvGiveUp c) n \<longleftrightarrow> c \<noteq> x"

fun all_leave :: "bytes \<Rightarrow> read_event list \<Rightarrow> ('db, 'ms, 'rn) RaftNode \<Rightarrow> bool" where
  "all_leave x [] n \<longleftrightarrow> True"
| "all_leave x (ev # evs) n \<longleftrightarrow> leaves x ev n \<and> all_leave x evs (read_step ev n)"

fun answers :: "read_event \<Rightarrow> raft_read_state list" where
  "answers (EvStates sts) = sts"
| "answers _ = []"

definition answer_for :: "bytes \<Rightarrow> raft_read_state list \<Rightarrow> u64 option" where
  "answer_for c sts = map_option rd_Index (find (\<lambda>st. rd_RequestCtx st = c) sts)"

lemma find_append [simp]: "find P (xs @ ys) = (case find P xs of None \<Rightarrow> find P ys | Some x \<Rightarrow> Some x)"
  by (induction xs) auto

lemma answer_for_simps [simp]:
  "answer_for c [] = None"
  "answer_for c (st # sts) = (if rd_RequestCtx st = c then Some (rd_Index st) else answer_for c sts)"
  "answer_for c (xs @ ys) = (case answer_for c xs of None \<Rightarrow> answer_for c ys | Some i \<Rightarrow> Some i)"
  by (auto simp: answer_for_def split: option.splits)

definition followed :: "bytes \<Rightarrow> nat \<Rightarrow> u64 option \<Rightarrow> ('db, 'ms, 'rn) RaftNode \<Rightarrow> bool" where
  "followed c ch ans n \<longleftrightarrow> (case ans of None \<Rightarrow> waiting c ch n | Some i \<Rightarrow> settled (Some i, True) ch n)"

lemma waiting_states:
  assumes "waiting c ch n"
  shows "followed c ch (answer_for c sts) (handleReadStates sts n)"
  using assms
proof (induction sts arbitrary: n)
  case (Cons st sts)
  let ?x = "rd_RequestCtx st"
  show ?case
  proof (cases "map_of (n_waiters n) ?x")
    case None
    then have "?x \<noteq> c" using Cons.prems by (auto simp: waiting_def)
    then show ?thesis using None Cons by simp
  next
    case (Some ch')
    let ?n = "n\<lparr>n_chans := (n_chans n)[ch' := (Some (rd_Index st), True)], n_waiters := AList.delete ?x (n_waiters n)\<rparr>"
    have e: "handleReadStates (st # sts) n = handleReadStates sts ?n" using Some by simp
    have inj: "map_of (n_waiters n) y = Some ch' \<Longrightarrow> y = ?x" for y using Cons.prems Some by (auto simp: waiting_def waiters_ok_def)
    have ok: "waiters_ok ?n" using Cons.prems unfolding waiting_def waiters_ok_def by (auto simp: delete_conv')
    show ?thesis
    proof (cases "?x = c")
      case True
      then have "ch' = ch" using Some Cons.prems by (simp add: waiting_def)
      then have "settled (Some (rd_Index st), True) ch ?n"
        using Cons.prems ok inj True by (auto simp: waiting_def settled_def delete_conv' ran_def)
      from settled_states [OF this, of sts] e True show ?thesis by (simp add: followed_def)
    next
      case False
      then have "ch' \<noteq> ch" using Some Cons.prems inj [of c] by (auto simp: waiting_def)
      then have "waiting c ch ?n" using Cons.prems ok False by (auto simp: waiting_def delete_conv')
      from Cons.IH [OF this] e False show ?thesis by simp
    qed
  qed
qed (simp add: followed_def)

lemma waiting_step:
  assumes "waiting c ch n" "ensureRunning n = None" "leaves c ev n"
  shows "followed c ch (answer_for c (answers ev)) (read_step ev n)"
proof (cases ev)
  case (EvBegin x)
  then show ?thesis
    using assms begin_state [OF assms(2), of x] waiters_ok_begin [OF assms(2), of x]
    by (auto simp: followed_def waiting_def nth_append)
next
  case (EvStates sts)
  then show ?thesis using waiting_states [OF assms(1)] by simp
next
  case (EvGiveUp x)
  have "ch' \<noteq> ch" if "map_of (n_waiters n) x = Some ch'" for ch'
    using assms(1,3) that EvGiveUp by (auto simp: waiting_def waiters_ok_def)
  then show ?thesis
    using assms(1,3) EvGiveUp waiters_ok_remove [of n x]
    by (auto simp: followed_def waiting_def removeWaiter_def delete_conv' split: option.splits)
qed

lemma waiting_run:
  assumes "waiting c ch n" "ensureRunning n = None" "all_leave c evs n"
  shows "followed c ch (answer_for c (concat (map answers evs))) (fold read_step evs n)"
  using assms
proof (induction evs arbitrary: n)
  case (Cons ev evs)
  have f: "followed c ch (answer_for c (answers ev)) (read_step ev n)" using waiting_step [OF Cons.prems(1,2)] Cons.prems(3) by simp
  have run: "ensureRunning (read_step ev n) = None" using Cons.prems(2) by (simp add: running_read_step)
  show ?case
  proof (cases "answer_for c (answers ev)")
    case None
    with f Cons.IH [OF _ run] Cons.prems(3) show ?thesis by (simp add: followed_def)
  next
    case (Some i)
    with f settled_run [OF _ run, of "(Some i, True)" ch evs] show ?thesis by (simp add: followed_def)
  qed
qed (simp add: followed_def)

lemma begin_waiting:
  assumes "waiters_ok n" "ensureRunning n = None"
  shows "waiting (request_ctx c n) (length (n_chans n)) (fst (readindex_begin c n))"
  using assms begin_state [OF assms(2), of c] waiters_ok_begin [OF assms(2,1), of c] by (simp add: waiting_def nth_append)

lemma followed_result: "followed c ch ans n \<Longrightarrow> readindex_result ch n = map_option Inr ans"
  by (auto simp: followed_def readindex_result_def waiting_def settled_def split: option.splits)


subsection \<open>The status\<close>

lemma maybeTriggerSnapshot_status [simp]: "n_status (fst (maybeTriggerSnapshot rl n)) = n_status n"
proof -
  have 1: "n_status n1 = n_status n" if "take_snapshot rl i data n = (n1, r)" for i data n1 r
    using that by (auto simp: take_snapshot_def split: prod.splits sum.splits)
  have 2: "n_status n2 = n_status n1" if "compact_log rl i n1 = (n2, r)" for i n1 n2 r
    using that by (auto simp: compact_log_def split: prod.splits sum.splits if_splits)
  show ?thesis by (auto simp: maybeTriggerSnapshot_def split: prod.splits sum.splits option.splits dest!: 1 2)
qed

lemma foldl_apply_entry_status [simp]: "n_status (foldl (apply_entry rl) n es) = n_status n"
  by (induction es arbitrary: n) (auto simp: apply_entry_def apply_conf_change_def split: option.splits)

lemma handleReady_applied:
  "st_AppliedIndex (n_status (handleReady rl rd n)) =
     (if rr_CommittedEntries rd = [] then st_AppliedIndex (n_status n) else e_Index (last (rr_CommittedEntries rd)))"
  by (auto simp: handleReady_def Let_def updateStatus_def ready_snapshot_def ready_persist_def applyCommittedEntries_def
      split: option.splits prod.splits)

lemma ready_last:
  assumes "ready_ok codec rd (F, c, a)" "log_indices (next_log F (rr_Entries rd))" "rr_CommittedEntries rd \<noteq> []"
  shows "ix (last (rr_CommittedEntries rd)) = a + length (rr_CommittedEntries rd)"
proof -
  let ?C = "rr_CommittedEntries rd" and ?F = "next_log F (rr_Entries rd)"
  have C: "?C = take (length ?C) (drop a ?F)" "a + length ?C \<le> length ?F" using assms(1) by (auto simp: Let_def)
  have "last ?C = ?C ! (length ?C - 1)" using assms(3) by (simp add: last_conv_nth)
  also have "\<dots> = take (length ?C) (drop a ?F) ! (length ?C - 1)" using C(1) by simp
  also have "\<dots> = ?F ! (a + (length ?C - 1))" using C(2) assms(3) by (subst nth_take) (auto simp: nth_drop)
  finally have l: "last ?C = ?F ! (a + (length ?C - 1))" .
  have n: "0 < length ?C" using assms(3) by simp
  then have "a + (length ?C - 1) < length ?F" using C(2) by linarith
  with assms(2) have "ix (?F ! (a + (length ?C - 1))) = Suc (a + (length ?C - 1))" unfolding log_indices_nth by blast
  then show ?thesis using l n by simp
qed

lemma run_batches_status:
  assumes "node_ok pl f n (F, c, a)" "storage_ok rl f" "run_ok rl (snd pl) rds n (F, c, a)"
    "st_AppliedIndex (n_status n) = word_of_nat a" "fold spec_ready rds (F, c, a) = (F1, c1, a1)"
  shows "st_AppliedIndex (n_status (run_batches rl rds n)) = word_of_nat a1"
  using assms
proof (induction rds arbitrary: n F c a)
  case (Cons rd rds)
  let ?C = "rr_CommittedEntries rd"
  obtain F' c' where sp: "spec_ready rd (F, c, a) = (F', c', a + length ?C)" "F' = next_log F (rr_Entries rd)" by simp
  have rd: "ready_ok (snd pl) rd (F, c, a)" "fw_room (n_walStore n) (length (rr_Entries rd))" using Cons.prems(3) by simp_all
  have ok: "node_ok pl f (handleReady rl rd n) (F', c', a + length ?C)"
    unfolding sp(1) [symmetric] using Cons.prems(1,2) rd node_ok_codec [OF Cons.prems(1)] by (intro handleReady_ok) simp_all
  then have "log_indices F'" by (auto simp: disk_ok_def)
  have "st_AppliedIndex (n_status (handleReady rl rd n)) = word_of_nat (a + length ?C)"
  proof (cases "?C = []")
    case False
    then have "ix (last ?C) = a + length ?C" using ready_last [OF rd(1)] \<open>log_indices F'\<close> sp(2) by simp
    moreover have "e_Index (last ?C) = word_of_nat (ix (last ?C))" by simp
    ultimately have "e_Index (last ?C) = word_of_nat (a + length ?C)" by presburger
    with False show ?thesis by (simp add: handleReady_applied)
  qed (use Cons.prems(4) in \<open>simp add: handleReady_applied\<close>)
  from Cons.IH [OF ok Cons.prems(2) _ this] Cons.prems(3,5) sp(1) show ?case by (simp add: run_batches_def)
qed (simp add: run_batches_def)

subsection \<open>A sample node\<close>

text \<open>A library whose storage is the index of its snapshot.\<close>

definition sample_library :: "(u64, unit) raft_library" where
  "sample_library =
     \<lparr>rl_ApplySnapshot = (\<lambda>s ms. (rs_Index s, None)), rl_Append = (\<lambda>es ms. (ms, None)), rl_SetHardState = (\<lambda>hs ms. ms),
      rl_Snapshot = (\<lambda>ms. (\<lparr>rs_Data = [], rs_Index = ms, rs_Term = 0, rs_ConfState = zero_ConfState\<rparr>, None)),
      rl_CreateSnapshot = (\<lambda>i cs data ms. if i \<le> ms then (ms, Inl ErrSnapOutOfDate)
        else (i, Inr \<lparr>rs_Data = data, rs_Index = i, rs_Term = 1, rs_ConfState = cs\<rparr>)),
      rl_FirstIndex = (\<lambda>ms. Inr 1), rl_Compact = (\<lambda>i ms. (ms, None)), rl_InitialState = (\<lambda>ms. Inl ErrRaft),
      rl_StartNode = (\<lambda>cfg peers ms. ()), rl_RestartNode = (\<lambda>cfg ms. ()), rl_Campaign = (\<lambda>r. (r, None)),
      rl_ApplyConfChange = (\<lambda>cc r. r), rl_Advance = (\<lambda>r. r), rl_ConfState = (\<lambda>r. zero_ConfState),
      rl_Propose = (\<lambda>data r. (r, None)), rl_ProposeConfChange = (\<lambda>cc r. (r, None)), rl_TransferLeadership = (\<lambda>a b r. r),
      rl_Step = (\<lambda>m r. (r, None)), rl_DecodeConfChange = (\<lambda>b. None), rl_DecodeConfChangeV2 = (\<lambda>b. None),
      rl_MarshalConfState = (\<lambda>c. Some []), rl_UnmarshalConfState = (\<lambda>b. None), rl_MarshalMessage = (\<lambda>m. []),
      rl_EntryTypeName = (\<lambda>t. []), rl_MessageTypeName = (\<lambda>t. [])\<rparr>"

lemma sample_library_ok: "storage_ok sample_library id" "library_ok sample_library"
  by (simp_all add: storage_ok_def library_ok_def sample_library_def not_le)

definition sample_config :: Config where
  "sample_config =
     \<lparr>cf_NodeID = 1, cf_ClusterID = 1, cf_DataDir = ''data'', cf_Peers = [], cf_TickInterval = 0, cf_ElectionTick = 0,
      cf_HeartbeatTick = 0, cf_ReadyBufferSize = 0, cf_LinearizableReadTimeout = 0, cf_MaxSizePerMsg = 0, cf_MaxInflightMsgs = 0,
      cf_SnapshotEntries = 0, cf_CompactRetainEntries = 0, cf_KeepSnapshots = 0, cf_InitialAppliedIndex = 0, cf_InitialLeaderID = 0\<rparr>"

lemma sample_new: "\<exists>n. New sample_config True None codec p ms d = Inr n"
  by (simp add: New_def sample_config_def Validate_def WithDefaults_def resolveDataDir_def Let_def)

lemma list_pebble_live: "ps_pebble s = list_pebble \<Longrightarrow> ps_db s \<noteq> None \<Longrightarrow> ps_live s"
  using list_pebble_ok by (simp add: ps_live_def ps_inv_def) (simp add: list_pebble_def)

lemma list_pebble_fresh: "pebble_fresh list_pebble path"
  unfolding pebble_fresh_def using list_pebble_live by (intro exI [of _ "[]"]) (auto simp: list_pebble_def)

definition sample_put :: Command where
  "sample_put = \<lparr>cmd_Operation = OperationPut, cmd_Key = ''k'', cmd_Value = ''v'', cmd_Prefix = []\<rparr>"

definition put_entry :: Entry where
  "put_entry = \<lparr>e_Term = 1, e_Index = 1, e_Type = EntryNormal, e_Data = Marshal command_to_json sample_put\<rparr>"

definition sample_batch :: raft_ready where
  "sample_batch =
     \<lparr>rr_SoftState = None, rr_HardState = \<lparr>hs_Term = 1, hs_Vote = 1, hs_Commit = 1\<rparr>, rr_ReadStates = [], rr_Entries = [put_entry],
      rr_Snapshot = \<lparr>rs_Data = [], rs_Index = 0, rs_Term = 0, rs_ConfState = zero_ConfState\<rparr>, rr_CommittedEntries = [put_entry],
      rr_Messages = [], rr_MustSync = True\<rparr>"

lemma put_data: "Marshal command_to_json sample_put = ''{\"operation\":\"put\",\"key\":\"aw==\",\"value\":\"dg==\"}''"
  by code_simp

lemma put_entry_command: "entry_command put_entry = Some sample_put"
proof -
  have "decode_command (Marshal command_to_json sample_put) = Some sample_put"
    using command_json [of sample_put]
    by (simp add: decode_command_def Unmarshal_Marshal sample_put_def OperationPut_def sanitize_ascii)
  moreover have "e_Data put_entry \<noteq> []" by (simp add: put_entry_def put_data)
  ultimately show ?thesis by (simp add: entry_command_def put_entry_def)
qed

lemma put_entry_facts:
  "user_entry put_entry" "entry_exec put_entry m = m(''k'' \<mapsto> ''v'')" "cd_EncodeEntry fixed_codec put_entry \<noteq> None" "ix put_entry = 1"
  by (simp_all add: user_entry_def entry_exec_def put_entry_command sample_put_def user_command_def isMetaKey_def ps_exec_def command_batch_def)
    (simp_all add: put_entry_def put_data fixed_codec_def EntryNormal_def)

lemma sample_batch_ok: "ready_ok fixed_codec sample_batch ([], 0, 0)" "spec_ready sample_batch ([], 0, 0) = ([put_entry], 1, 1)"
  using put_entry_facts
  by (auto simp: sample_batch_def IsEmptySnap_def consec_nth next_log_def next_commit_def isEmptyHardState_def Let_def)

lemma no_entries_no_segments: "fw_inv w d \<Longrightarrow> fw_entries w = [] \<Longrightarrow> fw_segments w = []"
  by (cases "fw_segments w") (auto simp: fw_inv_def log_on_disk_def seg_holds_def list_all2_Cons1)

lemma sample_disk_fresh: "fresh_disk dir sample_disk"
  by (simp add: fresh_disk_def sample_disk_def)

lemma fixed_codec_total: "codec_total fixed_codec"
  using fixed_codec_ok fixed_codec_encodes by (simp add: codec_total_def)

lemma sample_start:
  assumes "New sample_config True None fixed_codec list_pebble 0 sample_disk = Inr n"
  shows "node_ok (''data'', fixed_codec) id (fst (Start sample_library True n)) ([], 0, 0)"
    "run_ok sample_library fixed_codec [sample_batch] (fst (Start sample_library True n)) ([], 0, 0)"
proof -
  show ok: "node_ok (''data'', fixed_codec) id (fst (Start sample_library True n)) ([], 0, 0)"
    by (rule Start_fresh [of sample_config None "(''data'', fixed_codec)" list_pebble 0 sample_disk])
      (use assms in \<open>simp_all add: sample_config_def sample_disk_fresh fixed_codec_total list_pebble_fresh\<close>)
  then obtain r where "disk_ok (''data'', fixed_codec) (n_snapStore (fst (Start sample_library True n)))
      (n_walStore (fst (Start sample_library True n))) (n_disk (fst (Start sample_library True n))) r [] 0" by auto
  then have "fw_entries (n_walStore (fst (Start sample_library True n))) = []" "fw_segments (n_walStore (fst (Start sample_library True n))) = []"
    using no_entries_no_segments by (auto simp: disk_ok_def)
  then show "run_ok sample_library fixed_codec [sample_batch] (fst (Start sample_library True n)) ([], 0, 0)"
    using sample_batch_ok(1) by (simp add: fw_room_def sample_batch_def)
qed

lemma restore_snapshot_flags:
  "restore_snapshot rl n = (n', r) \<Longrightarrow> n_started n' = n_started n \<and> n_stopped n' = n_stopped n"
  by (auto simp: restore_snapshot_def Let_def split: prod.splits sum.splits option.splits if_splits)

lemma bootstrapStorage_flags:
  "bootstrapStorage rl n = (n', e) \<Longrightarrow> n_started n' = n_started n \<and> n_stopped n' = n_stopped n"
  by (auto simp: bootstrapStorage_def Let_def split: prod.splits sum.splits option.splits dest!: restore_snapshot_flags)

lemma Start_flags:
  assumes "Start rl m n = (n', e)" "\<not> n_started n" "\<not> n_stopped n"
  shows "ensureRunning n' = None"
proof -
  have "n_started n' \<and> \<not> n_stopped n'"
    using assms by (auto simp: Start_def Let_def split: prod.splits option.splits if_splits dest!: bootstrapStorage_flags)
  then show ?thesis by (simp add: ensureRunning_def)
qed

lemma New_flags: "New cfg m t codec p ms d = Inr n \<Longrightarrow> \<not> n_started n \<and> \<not> n_stopped n"
  by (auto simp: New_def Let_def and_then_def split: option.splits sum.splits)

lemma sample_running:
  assumes "New sample_config True None fixed_codec list_pebble 0 sample_disk = Inr n"
  shows "ensureRunning (fst (Start sample_library True n)) = None"
  using Start_flags [of sample_library True n] New_flags [OF assms] by (cases "Start sample_library True n") simp

subsection \<open>Properties\<close>

text \<open>C3. Replicas agree. Two nodes whose databases work and hold the same business data, and which are handed the same committed entries,
  cut into ready batches in any two ways and whatever fails in their logs and snapshots, answer every lookup and every scan
  alike and have the same applied index.\<close>

theorem replicas_agree:
  assumes "ps_live (n_kvStore n1)" "ps_live (n_kvStore n2)" "ps_view (n_kvStore n1) = ps_view (n_kvStore n2)"
    "list_all plain_batch rds1" "list_all plain_batch rds2" "committed rds1 = committed rds2"
  shows "node_Scan a b lim (run_batches rl1 rds1 n1) = node_Scan a b lim (run_batches rl2 rds2 n2) \<and>
     (\<not> isMetaKey k \<longrightarrow> node_Get k (run_batches rl1 rds1 n1) = node_Get k (run_batches rl2 rds2 n2)) \<and>
     (committed rds1 \<noteq> [] \<longrightarrow> ps_AppliedIndex (n_kvStore (run_batches rl1 rds1 n1)) = Inr (e_Index (last (committed rds1))) \<and>
        ps_AppliedIndex (n_kvStore (run_batches rl2 rds2 n2)) = Inr (e_Index (last (committed rds1))))"
proof -
  note k1 = run_batches_kv [OF assms(1,4), of rl1] and k2 = run_batches_kv [OF assms(2,5), of rl2]
  have "ps_view (n_kvStore (run_batches rl1 rds1 n1)) = ps_view (n_kvStore (run_batches rl2 rds2 n2))"
    unfolding k1(2) k2(2) using assms(3,6) by simp
  then show ?thesis
    using k1(3) k2(3) assms(6) live_Get [OF k1(1)] live_Get [OF k2(1)]
    by (auto simp: node_Scan_def node_Get_def live_Scan [OF k1(1)] live_Scan [OF k2(1)] applied_at_def)
qed

theorem replicas_agree_witness:
  "\<exists>n1. New sample_config True None fixed_codec list_pebble 0 sample_disk = Inr n1 \<and>
     node_Scan [] [] 0 (run_batches sample_library [sample_batch] (fst (Start sample_library True n1))) =
     node_Scan [] [] 0 (run_batches sample_library [sample_batch, sample_batch\<lparr>rr_CommittedEntries := []\<rparr>] (fst (Start sample_library True n1)))"
proof -
  obtain n1 :: "((bytes, bytes) gomap, u64, unit) RaftNode" where n1: "New sample_config True None fixed_codec list_pebble 0 sample_disk = Inr n1"
    by (rule exE [OF sample_new])
  let ?n = "fst (Start sample_library True n1)"
  have live: "ps_live (n_kvStore ?n)" using sample_start(1) [OF n1] by (auto simp: kv_ok_def)
  have p: "list_all plain_batch [sample_batch]" "list_all plain_batch [sample_batch, sample_batch\<lparr>rr_CommittedEntries := []\<rparr>]"
    using put_entry_facts by (simp_all add: plain_batch_def sample_batch_def IsEmptySnap_def) (simp_all add: put_entry_def)
  have c: "committed [sample_batch] = committed [sample_batch, sample_batch\<lparr>rr_CommittedEntries := []\<rparr>]"
    by (simp add: sample_batch_def)
  from replicas_agree [OF live live refl p c, of "[]" "[]" 0 sample_library sample_library] n1 show ?thesis by blast
qed

text \<open>C1. A restart keeps exactly what is committed. A node is made over empty directories and started; then it handles any number of ready
  batches that keep the library's contract, taking snapshots and compacting its log as configured; then the process ends and a node made
  anew over the same directories is started. Its database holds the state that the committed entries of the log define, no
  more and no less, its applied index is the commit index, and it starts without an error.\<close>

theorem restart_keeps_committed:
  assumes "New cfg True temp (snd pl) p ms d = Inr n0" "cf_DataDir cfg = fst pl" "fst pl \<noteq> []"
    "fresh_disk (fst pl) d" "codec_total (snd pl)" "pebble_fresh p (join_path (fst pl) ''pebble'')"
    "storage_ok rl f" "f ms = 0" "run_ok rl (snd pl) rds (fst (Start rl True n0)) ([], 0, 0)"
    "fold spec_ready rds ([], 0, 0) = (F, c, a)" "remade pl (run_batches rl rds (fst (Start rl True n0))) n2" "library_ok rl2"
  shows "\<exists>n3 e. Start rl2 True n2 = (n3, e) \<and> ps_view (n_kvStore n3) = log_exec (take c F) Map.empty \<and>
     (0 < c \<longrightarrow> e = None \<and> ps_AppliedIndex (n_kvStore n3) = Inr (word_of_nat c))"
proof -
  have "node_ok pl f (fst (Start rl True n0)) ([], 0, 0)" using assms(1-6,8) by (rule Start_fresh)
  from run_batches_ok [OF this assms(7,9)] assms(10)
  have "node_ok pl f (run_batches rl rds (fst (Start rl True n0))) (F, c, a)" by simp
  from Start_recovers [OF this assms(11,12)] show ?thesis by blast
qed

theorem restart_keeps_committed_witness:
  "\<exists>n0 n2 n3. New sample_config True None fixed_codec list_pebble 0 sample_disk = Inr n0 \<and>
     remade (''data'', fixed_codec) (run_batches sample_library [sample_batch] (fst (Start sample_library True n0))) n2 \<and>
     Start sample_library True n2 = (n3, None) \<and> ps_view (n_kvStore n3) = [''k'' \<mapsto> ''v'']"
proof -
  let ?pl = "(''data'', fixed_codec)"
  obtain n0 :: "((bytes, bytes) gomap, u64, unit) RaftNode" where n0: "New sample_config True None fixed_codec list_pebble 0 sample_disk = Inr n0"
    by (rule exE [OF sample_new])
  note st = sample_start [OF n0]
  define n where "n = run_batches sample_library [sample_batch] (fst (Start sample_library True n0))"
  let ?p = "(ps_pebble (n_kvStore n))\<lparr>pb_open := \<lambda>_. Inr (the (ps_db (n_kvStore n)))\<rparr>"
  obtain n2 :: "((bytes, bytes) gomap, u64, unit) RaftNode" where "New sample_config True None fixed_codec ?p 0 (n_disk n) = Inr n2"
    by (rule exE [OF sample_new])
  then have re: "remade ?pl n n2" unfolding remade_def
    by (intro exI [of _ sample_config] exI [of _ None] exI [of _ 0] exI) (auto simp: sample_config_def)
  have "\<exists>n3 e. Start sample_library True n2 = (n3, e) \<and> ps_view (n_kvStore n3) = log_exec (take 1 [put_entry]) Map.empty \<and>
     ((0 :: nat) < 1 \<longrightarrow> e = None \<and> ps_AppliedIndex (n_kvStore n3) = Inr (word_of_nat 1))"
    by (rule restart_keeps_committed [of sample_config None ?pl list_pebble 0 sample_disk n0 sample_library id "[sample_batch]" "[put_entry]" 1 1])
      (use n0 st(2) re sample_library_ok sample_batch_ok(2) in
        \<open>simp_all add: sample_config_def sample_disk_fresh fixed_codec_total list_pebble_fresh n_def\<close>)
  with n0 re show ?thesis unfolding n_def by (auto simp: put_entry_facts)
qed



text \<open>The answer to a read request reaches the call that made it: as long as no other call registers or gives up under the same request
  context, in every interleaving of calls and batches the call returns the index of the first answer for its context, and waits
  until there is one.\<close>

theorem read_index_answered:
  assumes "waiters_ok n" "ensureRunning n = None" "readindex_begin c n = (n1, Inr (x, ch))" "all_leave x evs n1"
  shows "readindex_result ch (fold read_step evs n1) = map_option Inr (answer_for x (concat (map answers evs)))"
proof -
  have e: "n1 = fst (readindex_begin c n)" "x = request_ctx c n" "ch = length (n_chans n)"
    using assms(3) begin_state(3) [OF assms(2), of c] by simp_all
  have "waiting x ch n1" unfolding e by (rule begin_waiting [OF assms(1,2)])
  moreover have "ensureRunning n1 = None" using running_read_step [of "EvBegin c" n] assms(2) e(1) by simp
  ultimately show ?thesis using assms(4) by (intro followed_result [OF waiting_run])
qed

text \<open>A node that is started, with no read under way.\<close>

definition idle_node :: "('db, 'ms, 'rn) RaftNode \<Rightarrow> ('db, 'ms, 'rn) RaftNode" where
  "idle_node n = n\<lparr>n_started := True, n_stopped := False, n_waiters := [], n_chans := []\<rparr>"

lemma idle_node_ok: "waiters_ok (idle_node n)" "ensureRunning (idle_node n) = None" "n_chans (idle_node n) = []"
  by (simp_all add: idle_node_def waiters_ok_def ensureRunning_def)

lemma idle_begin:
  obtains n1 where "readindex_begin ''k'' (idle_node n) = (n1, Inr (''k'', 0))" "ensureRunning n1 = None" "length (n_chans n1) = 1"
  by (simp add: readindex_begin_def idle_node_ok(2,3) Let_def) (simp add: ensureRunning_def idle_node_def)

theorem read_index_answered_witness:
  "\<forall>n. \<exists>n1. readindex_begin ''k'' (idle_node n) = (n1, Inr (''k'', 0)) \<and>
     readindex_result 0 (fold read_step [EvBegin ''j'', EvStates [\<lparr>rd_Index = 7, rd_RequestCtx = ''k''\<rparr>]] n1) = Some (Inr 7)"
proof
  fix n
  obtain n1 where n1: "readindex_begin ''k'' (idle_node n) = (n1, Inr (''k'', 0))" and r1: "ensureRunning n1 = None" "length (n_chans n1) = 1"
    by (rule idle_begin)
  have "all_leave ''k'' [EvBegin ''j'', EvStates [\<lparr>rd_Index = 7, rd_RequestCtx = ''k''\<rparr>]] n1" by (simp add: request_ctx_def)
  from read_index_answered [OF idle_node_ok(1,2) n1 this] n1
  show "\<exists>n1. readindex_begin ''k'' (idle_node n) = (n1, Inr (''k'', 0)) \<and>
     readindex_result 0 (fold read_step [EvBegin ''j'', EvStates [\<lparr>rd_Index = 7, rd_RequestCtx = ''k''\<rparr>]] n1) = Some (Inr 7)" by auto
qed

text \<open>C35. Concurrent reads of one key are not answered. \<open>Get\<close> uses the key as the request context. When a second call registers the same
  context before the first is answered, the first call never gets an answer, whatever happens later; and when it then gives
  up, the second call returns the index 0 at once, so that it passes its barrier without waiting for any entry.\<close>

theorem same_key_reads_clash:
  assumes "waiters_ok n" "ensureRunning n = None" "c \<noteq> []" "readindex_begin c n = (n1, Inr (x, ch1))"
    "readindex_begin c n1 = (n2, Inr (y, ch2))"
  shows "readindex_result ch1 (fold read_step evs n2) = None \<and>
     readindex_result ch2 (fst (readindex_cancel x n2)) = Some (Inr 0) \<and> barrier_passed 0 (fst (readindex_cancel x n2))"
proof -
  have r1: "ensureRunning n1 = None" using running_read_step [of "EvBegin c" n] assms(2,4) by simp
  have r2: "ensureRunning n2 = None" using running_read_step [of "EvBegin c" n1] r1 assms(5) by simp
  have x: "x = c" "ch1 = length (n_chans n)" "n1 = fst (readindex_begin c n)"
    using assms(3,4) begin_state(3) [OF assms(2), of c] by (simp_all add: request_ctx_def)
  have y: "y = c" "ch2 = length (n_chans n1)" "n2 = fst (readindex_begin c n1)"
    using assms(3,5) begin_state(3) [OF r1, of c] by (simp_all add: request_ctx_def)
  note b1 = begin_state(1,2) [OF assms(2), of c, folded x(3)] and b2 = begin_state(1,2) [OF r1, of c, folded y(3)]
  have ctx: "request_ctx c n = c" "request_ctx c n1 = c" using assms(3) by (simp_all add: request_ctx_def)
  have ok: "waiters_ok n1" "waiters_ok n2"
    using waiters_ok_begin [OF assms(2,1), of c] waiters_ok_begin [OF r1, of c] x(3) y(3) by simp_all
  have "map_of (n_waiters n2) z \<noteq> Some ch1" for z
  proof (cases "z = c")
    case False
    then have "map_of (n_waiters n2) z = map_of (n_waiters n) z" using b1(2) b2(2) ctx by simp
    then show ?thesis using assms(1) x(2) by (auto simp: waiters_ok_def)
  qed (simp add: b1(1) b2(2) ctx x(2))
  then have "settled (None, False) ch1 n2" using ok b1(1) b2(1) x(2) by (auto simp: settled_def ran_def nth_append)
  from settled_run [OF this r2, of evs] have "readindex_result ch1 (fold read_step evs n2) = None"
    by (simp add: settled_def readindex_result_def)
  moreover have "readindex_result ch2 (fst (readindex_cancel x n2)) = Some (Inr 0)"
    using b2 ctx x(1) y(2) by (simp add: readindex_cancel_def removeWaiter_def readindex_result_def nth_append)
  ultimately show ?thesis by (simp add: barrier_passed_def)
qed

theorem same_key_reads_clash_witness:
  "\<forall>n. \<exists>n1 n2. readindex_begin ''k'' (idle_node n) = (n1, Inr (''k'', 0)) \<and> readindex_begin ''k'' n1 = (n2, Inr (''k'', 1)) \<and>
     readindex_result 0 (fold read_step [EvStates [\<lparr>rd_Index = 7, rd_RequestCtx = ''k''\<rparr>]] n2) = None \<and>
     readindex_result 1 (fst (readindex_cancel ''k'' n2)) = Some (Inr 0)"
proof
  fix n
  obtain n1 where n1: "readindex_begin ''k'' (idle_node n) = (n1, Inr (''k'', 0))" and r1: "ensureRunning n1 = None" "length (n_chans n1) = 1"
    by (rule idle_begin)
  obtain n2 where n2: "readindex_begin ''k'' n1 = (n2, Inr (''k'', 1))"
    using begin_state(3) [OF r1(1), of "''k''"] r1(2) by (cases "readindex_begin ''k'' n1") (simp add: request_ctx_def)
  from same_key_reads_clash [OF idle_node_ok(1,2) _ n1 n2, of "[EvStates [\<lparr>rd_Index = 7, rd_RequestCtx = ''k''\<rparr>]]"] n1 n2
  show "\<exists>n1 n2. readindex_begin ''k'' (idle_node n) = (n1, Inr (''k'', 0)) \<and> readindex_begin ''k'' n1 = (n2, Inr (''k'', 1)) \<and>
     readindex_result 0 (fold read_step [EvStates [\<lparr>rd_Index = 7, rd_RequestCtx = ''k''\<rparr>]] n2) = None \<and>
     readindex_result 1 (fst (readindex_cancel ''k'' n2)) = Some (Inr 0)"
    by blast
qed



end
