(* ===== verification/Http_Types.thy ===== *)
theory Http_Types
  imports Registry_Replication Registry_Watch Raft_Node
begin

text \<open>
  What the HTTP interface exchanges (\<open>internal/transport/http/dto.go\<close> and the writers at the end of
  \<open>handlers_impl.go\<close>): requests and replies, the strict decoding of request bodies, the data transfer objects with their
  JSON forms, and the server-sent events of the watch streams.
\<close>

subsection \<open>Requests and replies\<close>

text \<open>
  A request: its method, its query parameters, its headers (\<open>Header.Get\<close> returns the first value of a
  canonical name) and its body.
\<close>

record http_request =
  rq_Method :: bytes
  rq_Query :: url_values
  rq_Header :: "(bytes, bytes) gomap"
  rq_Body :: bytes

definition header_get :: "http_request \<Rightarrow> bytes \<Rightarrow> bytes" where
  "header_get r key = (case map_of (rq_Header r) key of None \<Rightarrow> [] | Some v \<Rightarrow> v)"

text \<open>The message of an error reply: a text of the handler or the \<open>Error()\<close> of the error that was returned to it.\<close>

datatype error_text =
    Text bytes
  | RegistryText registry_error
  | CallerText registry_error
  | SelectorText selector_error
  | NodeText node_error
  | PeerText
  | JSONText
  | InvalidText bytes bytes
  | NotLeaderText u64 bytes

record ErrorResponse =
  er_Code :: bytes
  er_Message :: error_text
  er_LeaderID :: u64
  er_LeaderAddr :: bytes

record 'd SuccessResponse =
  sr_Code :: bytes
  sr_Message :: bytes
  sr_Data :: "'d option"

text \<open>
  A reply: the plain 405 with its Allow header, an error or a success with its status, or a panic of the handler, on
  which \<open>net/http\<close> cuts the connection.
\<close>

datatype 'd reply =
    MethodNotAllowed bytes
  | ErrorReply nat ErrorResponse
  | SuccessReply nat "'d SuccessResponse"
  | Aborted

definition writeError :: "nat \<Rightarrow> bytes \<Rightarrow> error_text \<Rightarrow> 'd reply" where
  "writeError status code message =
     ErrorReply status \<lparr>er_Code = code, er_Message = message, er_LeaderID = 0, er_LeaderAddr = []\<rparr>"

definition writeNotLeader :: "u64 \<Rightarrow> bytes \<Rightarrow> 'd reply" where
  "writeNotLeader leaderID leaderAddr =
     ErrorReply 503 \<lparr>er_Code = ''not_leader'', er_Message = NotLeaderText leaderID leaderAddr, er_LeaderID = leaderID,
       er_LeaderAddr = leaderAddr\<rparr>"

definition writeOK :: "bytes \<Rightarrow> 'd option \<Rightarrow> 'd reply" where
  "writeOK message data = SuccessReply 200 \<lparr>sr_Code = ''ok'', sr_Message = message, sr_Data = data\<rparr>"

text \<open>\<open>allowMethod\<close>: the reply to a request with another method.\<close>

definition allowMethod :: "http_request \<Rightarrow> bytes \<Rightarrow> 'd reply option" where
  "allowMethod r method = (if rq_Method r = method then None else Some (MethodNotAllowed method))"

fun is_ok :: "'d reply \<Rightarrow> bool" where
  "is_ok (SuccessReply s r) = True"
| "is_ok _ = False"

lemma is_ok_simps [simp]: "\<not> is_ok (writeError s c t)" "\<not> is_ok (writeNotLeader i a)" "is_ok (writeOK m d)"
  by (simp_all add: writeError_def writeNotLeader_def writeOK_def)

lemma writeOK_inject [simp]: "writeOK m d = writeOK m' d' \<longleftrightarrow> m = m' \<and> d = d'"
  by (simp add: writeOK_def)

subsection \<open>Request bodies\<close>

text \<open>A decoder with \<open>DisallowUnknownFields\<close>: a member without a field is an error.\<close>

fun put_known_fields ::
  "(bytes \<times> (json \<Rightarrow> 'a \<Rightarrow> 'a option)) list \<Rightarrow> (bytes \<times> json) list \<Rightarrow> 'a \<Rightarrow> 'a option" where
  "put_known_fields fs [] x = Some x"
| "put_known_fields fs ((k, j) # ms) x =
     (case field_for fs k of
        None \<Rightarrow> None
      | Some put \<Rightarrow> (case put j x of None \<Rightarrow> None | Some x' \<Rightarrow> put_known_fields fs ms x'))"

fun into_known_struct :: "(bytes \<times> (json \<Rightarrow> 'a \<Rightarrow> 'a option)) list \<Rightarrow> json \<Rightarrow> 'a \<Rightarrow> 'a option" where
  "into_known_struct fs (JObj ms) x = put_known_fields fs ms x"
| "into_known_struct fs JNull x = Some x"
| "into_known_struct fs _ x = None"

definition decodeJSONBody ::
  "(bytes \<times> (json \<Rightarrow> 'a \<Rightarrow> 'a option)) list \<Rightarrow> http_request \<Rightarrow> 'a \<Rightarrow> 'a option" where
  "decodeJSONBody fs r zero = Decode (into_known_struct fs) (rq_Body r) zero"

text \<open>\<open>RegisterInput\<close> has no tags: the names of its fields are matched without regard to case.\<close>

definition register_fields :: "(bytes \<times> (json \<Rightarrow> RegisterInput \<Rightarrow> RegisterInput option)) list" where
  "register_fields =
     [field ''Namespace'' into_string ri_Namespace (\<lambda>v x. x\<lparr>ri_Namespace := v\<rparr>),
      field ''Service'' into_string ri_Service (\<lambda>v x. x\<lparr>ri_Service := v\<rparr>),
      field ''Organization'' into_string ri_Organization (\<lambda>v x. x\<lparr>ri_Organization := v\<rparr>),
      field ''BusinessDomain'' into_string ri_BusinessDomain (\<lambda>v x. x\<lparr>ri_BusinessDomain := v\<rparr>),
      field ''CapabilityDomain'' into_string ri_CapabilityDomain (\<lambda>v x. x\<lparr>ri_CapabilityDomain := v\<rparr>),
      field ''Application'' into_string ri_Application (\<lambda>v x. x\<lparr>ri_Application := v\<rparr>),
      field ''Role'' into_string ri_Role (\<lambda>v x. x\<lparr>ri_Role := v\<rparr>),
      field ''InstanceID'' into_string ri_InstanceID (\<lambda>v x. x\<lparr>ri_InstanceID := v\<rparr>),
      field ''Zone'' into_string ri_Zone (\<lambda>v x. x\<lparr>ri_Zone := v\<rparr>),
      field ''Labels'' (into_map into_string []) ri_Labels (\<lambda>v x. x\<lparr>ri_Labels := v\<rparr>),
      field ''Metadata'' (into_map into_string []) ri_Metadata (\<lambda>v x. x\<lparr>ri_Metadata := v\<rparr>),
      field ''Endpoints'' (into_slice (into_known_struct endpoint_fields) zero_endpoint) ri_Endpoints
        (\<lambda>v x. x\<lparr>ri_Endpoints := v\<rparr>),
      field ''LeaseTTLSeconds'' into_i64 ri_LeaseTTLSeconds (\<lambda>v x. x\<lparr>ri_LeaseTTLSeconds := v\<rparr>)]"

definition zero_register :: RegisterInput where
  "zero_register = \<lparr>ri_Namespace = [], ri_Service = [], ri_Organization = [], ri_BusinessDomain = [],
     ri_CapabilityDomain = [], ri_Application = [], ri_Role = [], ri_InstanceID = [], ri_Zone = [], ri_Labels = [],
     ri_Metadata = [], ri_Endpoints = [], ri_LeaseTTLSeconds = 0\<rparr>"

definition deregister_fields :: "(bytes \<times> (json \<Rightarrow> DeregisterRequest \<Rightarrow> DeregisterRequest option)) list" where
  "deregister_fields =
     [field ''namespace'' into_string dr_Namespace (\<lambda>v x. x\<lparr>dr_Namespace := v\<rparr>),
      field ''service'' into_string dr_Service (\<lambda>v x. x\<lparr>dr_Service := v\<rparr>),
      field ''organization'' into_string dr_Organization (\<lambda>v x. x\<lparr>dr_Organization := v\<rparr>),
      field ''businessDomain'' into_string dr_BusinessDomain (\<lambda>v x. x\<lparr>dr_BusinessDomain := v\<rparr>),
      field ''capabilityDomain'' into_string dr_CapabilityDomain (\<lambda>v x. x\<lparr>dr_CapabilityDomain := v\<rparr>),
      field ''application'' into_string dr_Application (\<lambda>v x. x\<lparr>dr_Application := v\<rparr>),
      field ''role'' into_string dr_Role (\<lambda>v x. x\<lparr>dr_Role := v\<rparr>),
      field ''instanceId'' into_string dr_InstanceID (\<lambda>v x. x\<lparr>dr_InstanceID := v\<rparr>)]"

definition zero_deregister :: DeregisterRequest where
  "zero_deregister = \<lparr>dr_Namespace = [], dr_Service = [], dr_Organization = [], dr_BusinessDomain = [],
     dr_CapabilityDomain = [], dr_Application = [], dr_Role = [], dr_InstanceID = []\<rparr>"

definition heartbeat_fields :: "(bytes \<times> (json \<Rightarrow> HeartbeatRequest \<Rightarrow> HeartbeatRequest option)) list" where
  "heartbeat_fields =
     [field ''namespace'' into_string hr_Namespace (\<lambda>v x. x\<lparr>hr_Namespace := v\<rparr>),
      field ''service'' into_string hr_Service (\<lambda>v x. x\<lparr>hr_Service := v\<rparr>),
      field ''organization'' into_string hr_Organization (\<lambda>v x. x\<lparr>hr_Organization := v\<rparr>),
      field ''businessDomain'' into_string hr_BusinessDomain (\<lambda>v x. x\<lparr>hr_BusinessDomain := v\<rparr>),
      field ''capabilityDomain'' into_string hr_CapabilityDomain (\<lambda>v x. x\<lparr>hr_CapabilityDomain := v\<rparr>),
      field ''application'' into_string hr_Application (\<lambda>v x. x\<lparr>hr_Application := v\<rparr>),
      field ''role'' into_string hr_Role (\<lambda>v x. x\<lparr>hr_Role := v\<rparr>),
      field ''instanceId'' into_string hr_InstanceID (\<lambda>v x. x\<lparr>hr_InstanceID := v\<rparr>),
      field ''leaseTtlSeconds'' into_i64 hr_LeaseTTLSeconds (\<lambda>v x. x\<lparr>hr_LeaseTTLSeconds := v\<rparr>)]"

definition zero_heartbeat :: HeartbeatRequest where
  "zero_heartbeat = \<lparr>hr_Namespace = [], hr_Service = [], hr_Organization = [], hr_BusinessDomain = [],
     hr_CapabilityDomain = [], hr_Application = [], hr_Role = [], hr_InstanceID = [], hr_LeaseTTLSeconds = 0\<rparr>"

record MemberChangeRequestDTO =
  mc_NodeID :: u64
  mc_HTTPAddr :: bytes
  mc_GRPCAddr :: bytes
  mc_AdminAddr :: bytes

definition member_change_to_json :: "MemberChangeRequestDTO \<Rightarrow> json" where
  "member_change_to_json m =
     JObj ([(''nodeId'', juint (mc_NodeID m))]
       @ omitempty ''httpAddr'' (mc_HTTPAddr m = []) (JStr (mc_HTTPAddr m))
       @ omitempty ''grpcAddr'' (mc_GRPCAddr m = []) (JStr (mc_GRPCAddr m))
       @ omitempty ''adminAddr'' (mc_AdminAddr m = []) (JStr (mc_AdminAddr m)))"

definition member_change_fields ::
  "(bytes \<times> (json \<Rightarrow> MemberChangeRequestDTO \<Rightarrow> MemberChangeRequestDTO option)) list" where
  "member_change_fields =
     [field ''nodeId'' into_u64 mc_NodeID (\<lambda>v x. x\<lparr>mc_NodeID := v\<rparr>),
      field ''httpAddr'' into_string mc_HTTPAddr (\<lambda>v x. x\<lparr>mc_HTTPAddr := v\<rparr>),
      field ''grpcAddr'' into_string mc_GRPCAddr (\<lambda>v x. x\<lparr>mc_GRPCAddr := v\<rparr>),
      field ''adminAddr'' into_string mc_AdminAddr (\<lambda>v x. x\<lparr>mc_AdminAddr := v\<rparr>)]"

definition zero_member_change :: MemberChangeRequestDTO where
  "zero_member_change = \<lparr>mc_NodeID = 0, mc_HTTPAddr = [], mc_GRPCAddr = [], mc_AdminAddr = []\<rparr>"

record LeaderTransferRequestDTO =
  lt_TargetNodeID :: u64

definition transfer_fields :: "(bytes \<times> (json \<Rightarrow> LeaderTransferRequestDTO \<Rightarrow> LeaderTransferRequestDTO option)) list" where
  "transfer_fields = [field ''targetNodeId'' into_u64 lt_TargetNodeID (\<lambda>v x. x\<lparr>lt_TargetNodeID := v\<rparr>)]"

subsection \<open>Instances and watch events\<close>

record RegistryInstanceDTO =
  id_Namespace :: bytes
  id_Service :: bytes
  id_Organization :: bytes
  id_BusinessDomain :: bytes
  id_CapabilityDomain :: bytes
  id_Application :: bytes
  id_Role :: bytes
  id_InstanceID :: bytes
  id_Zone :: bytes
  id_Labels :: "(bytes, bytes) gomap"
  id_Metadata :: "(bytes, bytes) gomap"
  id_Endpoints :: "Endpoint list"
  id_LeaseTTLSeconds :: int
  id_RegisteredAtUnix :: int
  id_LastHeartbeatUnix :: int

record RegistryWatchEventDTO =
  rw_Revision :: u64
  rw_Type :: bytes
  rw_Namespace :: bytes
  rw_Service :: bytes
  rw_Organization :: bytes
  rw_BusinessDomain :: bytes
  rw_CapabilityDomain :: bytes
  rw_Application :: bytes
  rw_Role :: bytes
  rw_InstanceID :: bytes
  rw_Instance :: "RegistryInstanceDTO option"
  rw_Instances :: "RegistryInstanceDTO list"

record ReplicationWatchEventDTO =
  rp_Revision :: u64
  rp_Type :: bytes
  rp_Namespace :: bytes
  rp_Service :: bytes
  rp_Organization :: bytes
  rp_BusinessDomain :: bytes
  rp_CapabilityDomain :: bytes
  rp_Application :: bytes
  rp_Role :: bytes
  rp_InstanceID :: bytes
  rp_SourceRegion :: bytes
  rp_SourceClusterID :: bytes
  rp_ExportedAtUnix :: int
  rp_Instance :: "RegistryInstanceDTO option"
  rp_Instances :: "RegistryInstanceDTO list"

text \<open>The string forms of the event types.\<close>

fun event_type_name :: "WatchEventType \<Rightarrow> bytes" where
  "event_type_name WatchEventUpsert = ''upsert''"
| "event_type_name WatchEventDelete = ''delete''"

definition instance_to_json :: "RegistryInstanceDTO \<Rightarrow> json" where
  "instance_to_json v = JObj
     ([(''namespace'', JStr (id_Namespace v)), (''service'', JStr (id_Service v))]
      @ omitempty ''organization'' (id_Organization v = []) (JStr (id_Organization v))
      @ omitempty ''businessDomain'' (id_BusinessDomain v = []) (JStr (id_BusinessDomain v))
      @ omitempty ''capabilityDomain'' (id_CapabilityDomain v = []) (JStr (id_CapabilityDomain v))
      @ omitempty ''application'' (id_Application v = []) (JStr (id_Application v))
      @ omitempty ''role'' (id_Role v = []) (JStr (id_Role v))
      @ [(''instanceId'', JStr (id_InstanceID v))]
      @ omitempty ''zone'' (id_Zone v = []) (JStr (id_Zone v))
      @ omitempty ''labels'' (id_Labels v = []) (string_map_to_json (id_Labels v))
      @ omitempty ''metadata'' (id_Metadata v = []) (string_map_to_json (id_Metadata v))
      @ omitempty ''endpoints'' (id_Endpoints v = []) (endpoints_to_json (id_Endpoints v))
      @ [(''leaseTtlSeconds'', jint (id_LeaseTTLSeconds v)), (''registeredAtUnix'', jint (id_RegisteredAtUnix v)),
         (''lastHeartbeatUnix'', jint (id_LastHeartbeatUnix v))])"

definition instance_fields :: "(bytes \<times> (json \<Rightarrow> RegistryInstanceDTO \<Rightarrow> RegistryInstanceDTO option)) list" where
  "instance_fields =
     [field ''namespace'' into_string id_Namespace (\<lambda>v x. x\<lparr>id_Namespace := v\<rparr>),
      field ''service'' into_string id_Service (\<lambda>v x. x\<lparr>id_Service := v\<rparr>),
      field ''organization'' into_string id_Organization (\<lambda>v x. x\<lparr>id_Organization := v\<rparr>),
      field ''businessDomain'' into_string id_BusinessDomain (\<lambda>v x. x\<lparr>id_BusinessDomain := v\<rparr>),
      field ''capabilityDomain'' into_string id_CapabilityDomain (\<lambda>v x. x\<lparr>id_CapabilityDomain := v\<rparr>),
      field ''application'' into_string id_Application (\<lambda>v x. x\<lparr>id_Application := v\<rparr>),
      field ''role'' into_string id_Role (\<lambda>v x. x\<lparr>id_Role := v\<rparr>),
      field ''instanceId'' into_string id_InstanceID (\<lambda>v x. x\<lparr>id_InstanceID := v\<rparr>),
      field ''zone'' into_string id_Zone (\<lambda>v x. x\<lparr>id_Zone := v\<rparr>),
      field ''labels'' (into_map into_string []) id_Labels (\<lambda>v x. x\<lparr>id_Labels := v\<rparr>),
      field ''metadata'' (into_map into_string []) id_Metadata (\<lambda>v x. x\<lparr>id_Metadata := v\<rparr>),
      field ''endpoints'' (into_slice (into_struct endpoint_fields) zero_endpoint) id_Endpoints
        (\<lambda>v x. x\<lparr>id_Endpoints := v\<rparr>),
      field ''leaseTtlSeconds'' into_i64 id_LeaseTTLSeconds (\<lambda>v x. x\<lparr>id_LeaseTTLSeconds := v\<rparr>),
      field ''registeredAtUnix'' into_i64 id_RegisteredAtUnix (\<lambda>v x. x\<lparr>id_RegisteredAtUnix := v\<rparr>),
      field ''lastHeartbeatUnix'' into_i64 id_LastHeartbeatUnix (\<lambda>v x. x\<lparr>id_LastHeartbeatUnix := v\<rparr>)]"

definition zero_instance :: RegistryInstanceDTO where
  "zero_instance = \<lparr>id_Namespace = [], id_Service = [], id_Organization = [], id_BusinessDomain = [],
     id_CapabilityDomain = [], id_Application = [], id_Role = [], id_InstanceID = [], id_Zone = [], id_Labels = [],
     id_Metadata = [], id_Endpoints = [], id_LeaseTTLSeconds = 0, id_RegisteredAtUnix = 0, id_LastHeartbeatUnix = 0\<rparr>"

definition watch_event_to_json :: "RegistryWatchEventDTO \<Rightarrow> json" where
  "watch_event_to_json v = JObj
     ([(''revision'', juint (rw_Revision v)), (''type'', JStr (rw_Type v))]
      @ omitempty ''namespace'' (rw_Namespace v = []) (JStr (rw_Namespace v))
      @ omitempty ''service'' (rw_Service v = []) (JStr (rw_Service v))
      @ omitempty ''organization'' (rw_Organization v = []) (JStr (rw_Organization v))
      @ omitempty ''businessDomain'' (rw_BusinessDomain v = []) (JStr (rw_BusinessDomain v))
      @ omitempty ''capabilityDomain'' (rw_CapabilityDomain v = []) (JStr (rw_CapabilityDomain v))
      @ omitempty ''application'' (rw_Application v = []) (JStr (rw_Application v))
      @ omitempty ''role'' (rw_Role v = []) (JStr (rw_Role v))
      @ omitempty ''instanceId'' (rw_InstanceID v = []) (JStr (rw_InstanceID v))
      @ (case rw_Instance v of None \<Rightarrow> [] | Some i \<Rightarrow> [(''instance'', instance_to_json i)])
      @ omitempty ''instances'' (rw_Instances v = []) (JArr (map instance_to_json (rw_Instances v))))"

definition replication_event_to_json :: "ReplicationWatchEventDTO \<Rightarrow> json" where
  "replication_event_to_json v = JObj
     ([(''revision'', juint (rp_Revision v)), (''type'', JStr (rp_Type v))]
      @ omitempty ''namespace'' (rp_Namespace v = []) (JStr (rp_Namespace v))
      @ omitempty ''service'' (rp_Service v = []) (JStr (rp_Service v))
      @ omitempty ''organization'' (rp_Organization v = []) (JStr (rp_Organization v))
      @ omitempty ''businessDomain'' (rp_BusinessDomain v = []) (JStr (rp_BusinessDomain v))
      @ omitempty ''capabilityDomain'' (rp_CapabilityDomain v = []) (JStr (rp_CapabilityDomain v))
      @ omitempty ''application'' (rp_Application v = []) (JStr (rp_Application v))
      @ omitempty ''role'' (rp_Role v = []) (JStr (rp_Role v))
      @ omitempty ''instanceId'' (rp_InstanceID v = []) (JStr (rp_InstanceID v))
      @ [(''sourceRegion'', JStr (rp_SourceRegion v)), (''sourceClusterId'', JStr (rp_SourceClusterID v))]
      @ omitempty ''exportedAtUnix'' (rp_ExportedAtUnix v = 0) (jint (rp_ExportedAtUnix v))
      @ (case rp_Instance v of None \<Rightarrow> [] | Some i \<Rightarrow> [(''instance'', instance_to_json i)])
      @ omitempty ''instances'' (rp_Instances v = []) (JArr (map instance_to_json (rp_Instances v))))"

text \<open>A pointer: null clears it, anything else is decoded into what it points to or into a new zero value.\<close>

fun into_ptr :: "(json \<Rightarrow> 'a \<Rightarrow> 'a option) \<Rightarrow> 'a \<Rightarrow> json \<Rightarrow> 'a option \<Rightarrow> 'a option option" where
  "into_ptr into zero JNull p = Some None"
| "into_ptr into zero j p = map_option Some (into j (case p of None \<Rightarrow> zero | Some x \<Rightarrow> x))"

definition replication_event_fields ::
  "(bytes \<times> (json \<Rightarrow> ReplicationWatchEventDTO \<Rightarrow> ReplicationWatchEventDTO option)) list" where
  "replication_event_fields =
     [field ''revision'' into_u64 rp_Revision (\<lambda>v x. x\<lparr>rp_Revision := v\<rparr>),
      field ''type'' into_string rp_Type (\<lambda>v x. x\<lparr>rp_Type := v\<rparr>),
      field ''namespace'' into_string rp_Namespace (\<lambda>v x. x\<lparr>rp_Namespace := v\<rparr>),
      field ''service'' into_string rp_Service (\<lambda>v x. x\<lparr>rp_Service := v\<rparr>),
      field ''organization'' into_string rp_Organization (\<lambda>v x. x\<lparr>rp_Organization := v\<rparr>),
      field ''businessDomain'' into_string rp_BusinessDomain (\<lambda>v x. x\<lparr>rp_BusinessDomain := v\<rparr>),
      field ''capabilityDomain'' into_string rp_CapabilityDomain (\<lambda>v x. x\<lparr>rp_CapabilityDomain := v\<rparr>),
      field ''application'' into_string rp_Application (\<lambda>v x. x\<lparr>rp_Application := v\<rparr>),
      field ''role'' into_string rp_Role (\<lambda>v x. x\<lparr>rp_Role := v\<rparr>),
      field ''instanceId'' into_string rp_InstanceID (\<lambda>v x. x\<lparr>rp_InstanceID := v\<rparr>),
      field ''sourceRegion'' into_string rp_SourceRegion (\<lambda>v x. x\<lparr>rp_SourceRegion := v\<rparr>),
      field ''sourceClusterId'' into_string rp_SourceClusterID (\<lambda>v x. x\<lparr>rp_SourceClusterID := v\<rparr>),
      field ''exportedAtUnix'' into_i64 rp_ExportedAtUnix (\<lambda>v x. x\<lparr>rp_ExportedAtUnix := v\<rparr>),
      field ''instance'' (into_ptr (into_struct instance_fields) zero_instance) rp_Instance (\<lambda>v x. x\<lparr>rp_Instance := v\<rparr>),
      field ''instances'' (into_slice (into_struct instance_fields) zero_instance) rp_Instances
        (\<lambda>v x. x\<lparr>rp_Instances := v\<rparr>)]"

definition zero_replication_event :: ReplicationWatchEventDTO where
  "zero_replication_event = \<lparr>rp_Revision = 0, rp_Type = [], rp_Namespace = [], rp_Service = [], rp_Organization = [],
     rp_BusinessDomain = [], rp_CapabilityDomain = [], rp_Application = [], rp_Role = [], rp_InstanceID = [],
     rp_SourceRegion = [], rp_SourceClusterID = [], rp_ExportedAtUnix = 0, rp_Instance = None, rp_Instances = []\<rparr>"

subsection \<open>Server-sent events\<close>

text \<open>The bytes of one event and of a ping. Encoding these objects never fails; a failing write ends the stream.\<close>

definition writeSSEEvent :: "('p \<Rightarrow> json) \<Rightarrow> u64 \<Rightarrow> bytes \<Rightarrow> 'p \<Rightarrow> bytes" where
  "writeSSEEvent to_json revision event payload =
     ''id: '' @ FormatUint (unat revision) @ [CHR 0x0A] @ ''event: '' @ event @ [CHR 0x0A]
     @ ''data: '' @ Marshal to_json payload @ [CHR 0x0A, CHR 0x0A]"

definition writeSSEPing :: bytes where
  "writeSSEPing = '': ping'' @ [CHR 0x0A, CHR 0x0A]"

end
