(* ===== verification/Http_Registry.thy ===== *)
theory Http_Registry
  imports Http_Types Transport
begin

text \<open>
  The data plane (\<open>RegistryAPI\<close> of \<open>internal/transport/http/handlers_impl.go\<close>): registration, deregistration, heartbeat, queries
  and the two watch streams. A handler takes the node it works on, as the operations of the Go interface
  \<open>registryNode\<close>, the clock readings it makes and the request, and returns the new state of the node and the reply.
\<close>

subsection \<open>The node behind the interface\<close>

record 'n registryNode =
  rn_ProposeCommand :: "Command \<Rightarrow> 'n \<Rightarrow> 'n \<times> node_error option"
  rn_LinearizableRead :: "bytes \<Rightarrow> 'n \<Rightarrow> 'n \<times> node_error option"
  rn_Get :: "bytes \<Rightarrow> 'n \<Rightarrow> 'n \<times> (node_error + bytes)"
  rn_Scan :: "bytes \<Rightarrow> bytes \<Rightarrow> int \<Rightarrow> 'n \<Rightarrow> 'n \<times> (node_error + KV list)"
  rn_Status :: "'n \<Rightarrow> Status"

text \<open>
  The Raft node as such a node. \<open>barrier\<close> is the run of \<open>LinearizableRead\<close>, during which other steps of the node happen: a
  new state and the error it returns, if any. \<open>Get\<close> and \<open>Scan\<close> read the database after it.
\<close>

definition raft_registryNode ::
  "('ms, 'rn) raft_library \<Rightarrow> (bytes \<Rightarrow> ('db, 'ms, 'rn) RaftNode \<Rightarrow> ('db, 'ms, 'rn) RaftNode \<times> node_error option) \<Rightarrow>
    ('db, 'ms, 'rn) RaftNode registryNode" where
  "raft_registryNode rl barrier =
     \<lparr>rn_ProposeCommand = ProposeCommand rl,
      rn_LinearizableRead = barrier,
      rn_Get = (\<lambda>key n. case barrier key n of (n', Some e) \<Rightarrow> (n', Inl e) | (n', None) \<Rightarrow> (n', node_Get key n')),
      rn_Scan = (\<lambda>start end limit n.
        case barrier (start @ end) n of (n', Some e) \<Rightarrow> (n', Inl e) | (n', None) \<Rightarrow> (n', node_Scan start end limit n')),
      rn_Status = node_Status\<rparr>"

record RegistryAPI =
  h_httpAddr :: bytes
  h_book :: AddressBook
  h_sourceRegion :: bytes
  h_sourceCluster :: bytes
  h_replicateAuth :: bytes
  h_promSDAuth :: bytes

definition leaderHTTPAddr :: "bytes \<Rightarrow> AddressBook \<Rightarrow> Status \<Rightarrow> u64 \<Rightarrow> bytes" where
  "leaderHTTPAddr httpAddr book status leaderID =
     (if leaderID = 0 then []
      else if leaderID = st_NodeID status then
        (if TrimSpace (HTTPAddr book leaderID) \<noteq> [] then TrimSpace (HTTPAddr book leaderID) else httpAddr)
      else HTTPAddr book leaderID)"

definition is_leader :: "Status \<Rightarrow> bool" where
  "is_leader status \<longleftrightarrow> st_Role status = RoleLeader \<and> st_LeaderID status = st_NodeID status"

text \<open>\<open>ensureWritable\<close>: the reply of a node that is not the leader.\<close>

definition ensureWritable :: "RegistryAPI \<Rightarrow> Status \<Rightarrow> 'd reply option" where
  "ensureWritable h status =
     (if is_leader status then None
      else Some (writeNotLeader (st_LeaderID status)
        (leaderHTTPAddr (h_httpAddr h) (h_book h) status (st_LeaderID status))))"

subsection \<open>Writing\<close>

definition registryEndpointsFromDTO :: "Endpoint list \<Rightarrow> Endpoint list" where
  "registryEndpointsFromDTO items = map clone_endpoint items"

definition registryRegisterInputFromDTO :: "RegisterInput \<Rightarrow> RegisterInput" where
  "registryRegisterInputFromDTO request =
     \<lparr>ri_Namespace = ri_Namespace request, ri_Service = ri_Service request, ri_Organization = ri_Organization request,
      ri_BusinessDomain = ri_BusinessDomain request, ri_CapabilityDomain = ri_CapabilityDomain request,
      ri_Application = ri_Application request, ri_Role = ri_Role request, ri_InstanceID = ri_InstanceID request,
      ri_Zone = ri_Zone request, ri_Labels = ri_Labels request, ri_Metadata = ri_Metadata request,
      ri_Endpoints = registryEndpointsFromDTO (ri_Endpoints request), ri_LeaseTTLSeconds = ri_LeaseTTLSeconds request\<rparr>"

definition required_text :: error_text where
  "required_text = Text ''namespace, service and instanceId are required''"

definition propose_reply :: "bytes \<Rightarrow> 'n \<times> node_error option \<Rightarrow> 'n \<times> unit reply" where
  "propose_reply message result =
     (case result of
        (n, Some e) \<Rightarrow> (n, writeError 500 ''propose_failed'' (NodeText e))
      | (n, None) \<Rightarrow> (n, writeOK message None))"

definition put_command :: "bytes \<Rightarrow> bytes \<Rightarrow> Command" where
  "put_command key value = \<lparr>cmd_Operation = OperationPut, cmd_Key = key, cmd_Value = value, cmd_Prefix = []\<rparr>"

definition delete_command :: "bytes \<Rightarrow> Command" where
  "delete_command key = \<lparr>cmd_Operation = OperationDelete, cmd_Key = key, cmd_Value = [], cmd_Prefix = []\<rparr>"

definition Register :: "'n registryNode \<Rightarrow> RegistryAPI \<Rightarrow> int \<Rightarrow> http_request \<Rightarrow> 'n \<Rightarrow> 'n \<times> unit reply" where
  "Register nd h now r n =
     (case allowMethod r ''POST'' of
        Some reply \<Rightarrow> (n, reply)
      | None \<Rightarrow>
     (case decodeJSONBody register_fields r zero_register of
        None \<Rightarrow> (n, writeError 400 ''bad_request'' JSONText)
      | Some request \<Rightarrow>
     (case NormalizeRegisterInput (registryRegisterInputFromDTO request) of
        Inl e \<Rightarrow> (n, writeError 400 ''bad_request'' (RegistryText e))
      | Inr input \<Rightarrow>
          if ri_Namespace input = [] \<or> ri_Service input = [] \<or> ri_InstanceID input = []
          then (n, writeError 400 ''bad_request'' required_text)
          else
     (case ensureWritable h (rn_Status nd n) of
        Some reply \<Rightarrow> (n, reply)
      | None \<Rightarrow>
          propose_reply ''instance registered''
            (rn_ProposeCommand nd
              (put_command (Key (ri_Namespace input) (ri_Service input) (ri_InstanceID input))
                (marshal_value (NewValue input now))) n)))))"

definition dr_identity :: "DeregisterRequest \<Rightarrow> ServiceIdentity" where
  "dr_identity r =
     \<lparr>si_service = dr_Service r, si_organization = dr_Organization r, si_businessDomain = dr_BusinessDomain r,
      si_capabilityDomain = dr_CapabilityDomain r, si_application = dr_Application r, si_role = dr_Role r\<rparr>"

definition Deregister :: "'n registryNode \<Rightarrow> RegistryAPI \<Rightarrow> http_request \<Rightarrow> 'n \<Rightarrow> 'n \<times> unit reply" where
  "Deregister nd h r n =
     (case allowMethod r ''POST'' of
        Some reply \<Rightarrow> (n, reply)
      | None \<Rightarrow>
     (case decodeJSONBody deregister_fields r zero_deregister of
        None \<Rightarrow> (n, writeError 400 ''bad_request'' JSONText)
      | Some request \<Rightarrow>
     (let namespace = TrimSpace (dr_Namespace request); instanceID = TrimSpace (dr_InstanceID request) in
      case NormalizeStructuredServiceIdentity (dr_identity request) of
        Inl e \<Rightarrow> (n, writeError 400 ''bad_request'' (RegistryText e))
      | Inr i \<Rightarrow>
          if namespace = [] \<or> si_service i = [] \<or> instanceID = []
          then (n, writeError 400 ''bad_request'' required_text)
          else
     (case ensureWritable h (rn_Status nd n) of
        Some reply \<Rightarrow> (n, reply)
      | None \<Rightarrow>
          propose_reply ''instance deregistered''
            (rn_ProposeCommand nd (delete_command (Key namespace (si_service i) instanceID)) n)))))"

definition hr_identity :: "HeartbeatRequest \<Rightarrow> ServiceIdentity" where
  "hr_identity r =
     \<lparr>si_service = hr_Service r, si_organization = hr_Organization r, si_businessDomain = hr_BusinessDomain r,
      si_capabilityDomain = hr_CapabilityDomain r, si_application = hr_Application r, si_role = hr_Role r\<rparr>"

text \<open>The value a heartbeat writes back.\<close>

definition renewed :: "int \<Rightarrow> int \<Rightarrow> Value \<Rightarrow> Value" where
  "renewed ttl now existing =
     (let v = (if ttl > 0 then existing\<lparr>v_LeaseTTLSeconds := ttl\<rparr>
               else if v_LeaseTTLSeconds existing \<le> 0
               then existing\<lparr>v_LeaseTTLSeconds := EffectiveLeaseTTLSeconds (v_LeaseTTLSeconds existing)\<rparr>
               else existing) in
      v\<lparr>v_LastHeartbeatUnix := now\<rparr>)"

definition Heartbeat :: "'n registryNode \<Rightarrow> RegistryAPI \<Rightarrow> int \<Rightarrow> http_request \<Rightarrow> 'n \<Rightarrow> 'n \<times> unit reply" where
  "Heartbeat nd h now r n =
     (case allowMethod r ''POST'' of
        Some reply \<Rightarrow> (n, reply)
      | None \<Rightarrow>
     (case decodeJSONBody heartbeat_fields r zero_heartbeat of
        None \<Rightarrow> (n, writeError 400 ''bad_request'' JSONText)
      | Some request \<Rightarrow>
     (let namespace = TrimSpace (hr_Namespace request); instanceID = TrimSpace (hr_InstanceID request) in
      case NormalizeStructuredServiceIdentity (hr_identity request) of
        Inl e \<Rightarrow> (n, writeError 400 ''bad_request'' (RegistryText e))
      | Inr i \<Rightarrow>
          if namespace = [] \<or> si_service i = [] \<or> instanceID = []
          then (n, writeError 400 ''bad_request'' required_text)
          else if hr_LeaseTTLSeconds request < 0
          then (n, writeError 400 ''bad_request'' (Text ''leaseTtlSeconds must be greater than or equal to 0''))
          else
     (case ensureWritable h (rn_Status nd n) of
        Some reply \<Rightarrow> (n, reply)
      | None \<Rightarrow>
     (let key = Key namespace (si_service i) instanceID in
      case rn_Get nd key n of
        (n1, Inl e) \<Rightarrow> (n1, writeError 500 ''read_failed'' (NodeText e))
      | (n1, Inr current) \<Rightarrow>
          if current = [] then (n1, writeError 404 ''not_found'' (Text ''instance not found''))
          else
     (case unmarshal_value current of
        None \<Rightarrow> (n1, writeError 500 ''unmarshal_failed'' JSONText)
      | Some existing \<Rightarrow>
          propose_reply ''heartbeat accepted''
            (rn_ProposeCommand nd
              (put_command key (marshal_value (renewed (hr_LeaseTTLSeconds request) now existing))) n1)))))))"

subsection \<open>Reading\<close>

definition endpointDTOsFromRegistry :: "Endpoint list \<Rightarrow> Endpoint list" where
  "endpointDTOsFromRegistry items = map clone_endpoint items"

definition instance_dto :: "Value \<Rightarrow> Endpoint list \<Rightarrow> RegistryInstanceDTO" where
  "instance_dto value endpoints =
     \<lparr>id_Namespace = v_Namespace value, id_Service = v_Service value, id_Organization = v_Organization value,
      id_BusinessDomain = v_BusinessDomain value, id_CapabilityDomain = v_CapabilityDomain value,
      id_Application = v_Application value, id_Role = v_Role value, id_InstanceID = v_InstanceID value,
      id_Zone = v_Zone value, id_Labels = CloneStringMap (v_Labels value), id_Metadata = CloneStringMap (v_Metadata value),
      id_Endpoints = endpointDTOsFromRegistry endpoints,
      id_LeaseTTLSeconds = EffectiveLeaseTTLSeconds (v_LeaseTTLSeconds value),
      id_RegisteredAtUnix = v_RegisteredAtUnix value, id_LastHeartbeatUnix = v_LastHeartbeatUnix value\<rparr>"

text \<open>The outer \<open>None\<close> is the panic of the matching, the inner one is the result false.\<close>

definition registryInstanceDTOFromValue :: "Value \<Rightarrow> Query \<Rightarrow> int \<Rightarrow> RegistryInstanceDTO option option" where
  "registryInstanceDTOFromValue value query now =
     (if \<not> IsAlive value now then Some None
      else case MatchQuery value query of
        None \<Rightarrow> None
      | Some False \<Rightarrow> Some None
      | Some True \<Rightarrow>
          if q_Endpoint query \<noteq> [] then
            (let endpoints = FilterEndpoints (v_Endpoints value) (q_Endpoint query) in
             if endpoints = [] then Some None else Some (Some (instance_dto value endpoints)))
          else Some (Some (instance_dto value (CloneEndpoints (v_Endpoints value)))))"

definition prefixUpperBound :: "bytes \<Rightarrow> bytes" where
  "prefixUpperBound p = (if p = [] then [] else p @ [CHR 0xFF])"

definition prefixRange :: "bytes \<Rightarrow> bytes \<times> bytes" where
  "prefixRange p = (if p = [] then ([], []) else (p, prefixUpperBound p))"

definition scan_prefix :: "Query \<Rightarrow> bytes" where
  "scan_prefix query =
     (if q_Service query \<noteq> [] \<and> length (q_Services query) \<le> 1 \<and> length (q_ServicePrefixes query) = 0
      then ServicePrefix (q_Namespace query) (q_Service query) else NamespacePrefix (q_Namespace query))"

text \<open>The loops over the scanned records: skip, or collect until the limit is reached.\<close>

fun collect_instances :: "(KV \<Rightarrow> 'a option option) \<Rightarrow> int \<Rightarrow> KV list \<Rightarrow> 'a list \<Rightarrow> 'a list option" where
  "collect_instances f limit [] result = Some result"
| "collect_instances f limit (item # items) result =
     (case f item of
        None \<Rightarrow> None
      | Some None \<Rightarrow> collect_instances f limit items result
      | Some (Some instance) \<Rightarrow>
          (let result' = result @ [instance] in
           if limit > 0 \<and> int (length result') \<ge> limit then Some result'
           else collect_instances f limit items result'))"

definition local_instance :: "Query \<Rightarrow> int \<Rightarrow> KV \<Rightarrow> RegistryInstanceDTO option option" where
  "local_instance query now item =
     (case unmarshal_value (kv_Value item) of
        None \<Rightarrow> Some None
      | Some value \<Rightarrow> registryInstanceDTOFromValue value query now)"

definition unmarshal_replicated :: "bytes \<Rightarrow> ReplicatedValue option" where
  "unmarshal_replicated data = Unmarshal (into_struct replicated_fields) data zero_replicated"

definition replicated_instance :: "Query \<Rightarrow> int \<Rightarrow> KV \<Rightarrow> RegistryInstanceDTO option option" where
  "replicated_instance query now item =
     (case ParseReplicatedKey (kv_Key item) of
        None \<Rightarrow> Some None
      | Some (_, _, namespace, service, _) \<Rightarrow>
          if namespace \<noteq> q_Namespace query \<or> \<not> MatchServiceQuery service query then Some None
          else case unmarshal_replicated (kv_Value item) of
            None \<Rightarrow> Some None
          | Some replicated \<Rightarrow> registryInstanceDTOFromValue (ToValue replicated) query now)"

definition instances_reply :: "'n \<Rightarrow> RegistryInstanceDTO list option \<Rightarrow> 'n \<times> RegistryInstanceDTO list reply" where
  "instances_reply n result = (case result of None \<Rightarrow> (n, Aborted) | Some items \<Rightarrow> (n, writeOK [] (Some items)))"

definition queryReplicatedInstances ::
  "'n registryNode \<Rightarrow> Query \<Rightarrow> int \<Rightarrow> 'n \<Rightarrow> 'n \<times> RegistryInstanceDTO list reply" where
  "queryReplicatedInstances nd query now n =
     (case rn_Scan nd ReplicationRootPrefix (prefixUpperBound ReplicationRootPrefix) 0 n of
        (n1, Inl e) \<Rightarrow> (n1, writeError 500 ''scan_failed'' (NodeText e))
      | (n1, Inr items) \<Rightarrow>
          instances_reply n1 (collect_instances (replicated_instance query now) (q_Limit query) items []))"

definition QueryInstances ::
  "'n registryNode \<Rightarrow> (nat \<Rightarrow> nat) \<Rightarrow> int \<Rightarrow> http_request \<Rightarrow> 'n \<Rightarrow> 'n \<times> RegistryInstanceDTO list reply" where
  "QueryInstances nd ul now r n =
     (case allowMethod r ''GET'' of
        Some reply \<Rightarrow> (n, reply)
      | None \<Rightarrow>
     (case ParseQuery ul (rq_Query r) of
        Inl e \<Rightarrow> (n, writeError 400 ''bad_request'' (RegistryText e))
      | Inr query \<Rightarrow>
     (case prefixRange (scan_prefix query) of (start, end) \<Rightarrow>
     (case rn_Scan nd start end 0 n of
        (n1, Inl e) \<Rightarrow> (n1, writeError 500 ''scan_failed'' (NodeText e))
      | (n1, Inr items) \<Rightarrow>
     (let result = collect_instances (local_instance query now) (q_Limit query) items [] in
      if result = Some [] then queryReplicatedInstances nd query now n1 else instances_reply n1 result)))))"

end
