(* ===== verification/Http_Watch.thy ===== *)
theory Http_Watch
  imports Http_Registry
begin

text \<open>
  The watch streams (\<open>WatchInstances\<close> and \<open>WatchReplication\<close> of \<open>internal/transport/http/handlers_impl.go\<close>): the checks of
  the request, the first frames from a snapshot or a replay, and the loop that turns events of the hub into frames.

  A frame is what \<open>writeSSEEvent\<close> or \<open>writeSSEPing\<close> writes. A stream is described by the frames it writes when no write
  fails; the return on a failed write leaves a prefix of them. The clock is read once per event: \<open>clock e\<close> is the
  reading for the event \<open>e\<close>.
\<close>

subsection \<open>Parameters\<close>

text \<open>\<open>strconv.ParseBool\<close>.\<close>

definition ParseBool :: "bytes \<Rightarrow> bool option" where
  "ParseBool s =
     (if s \<in> {''1'', ''t'', ''T'', ''TRUE'', ''true'', ''True''} then Some True
      else if s \<in> {''0'', ''f'', ''F'', ''FALSE'', ''false'', ''False''} then Some False
      else None)"

definition parseSinceRevision :: "bytes \<Rightarrow> u64 option" where
  "parseSinceRevision raw0 =
     (let raw = TrimSpace raw0 in if raw = [] then Some 0 else map_option word_of_nat (ParseUint raw))"

record RegistryIdentity =
  ri'_Namespace :: bytes
  ri'_Service :: bytes
  ri'_Organization :: bytes
  ri'_BusinessDomain :: bytes
  ri'_CapabilityDomain :: bytes
  ri'_Application :: bytes
  ri'_Role :: bytes
  ri'_Zone :: bytes

definition zero_identity :: RegistryIdentity where
  "zero_identity = \<lparr>ri'_Namespace = [], ri'_Service = [], ri'_Organization = [], ri'_BusinessDomain = [],
     ri'_CapabilityDomain = [], ri'_Application = [], ri'_Role = [], ri'_Zone = []\<rparr>"

definition firstQueryValue :: "url_values \<Rightarrow> bytes \<Rightarrow> bytes" where
  "firstQueryValue values key = (case url_all values key of [] \<Rightarrow> [] | v # _ \<Rightarrow> v)"

fun first_header :: "http_request \<Rightarrow> bytes list \<Rightarrow> bytes" where
  "first_header r [] = []"
| "first_header r (key # keys) =
     (if TrimSpace (header_get r key) \<noteq> [] then TrimSpace (header_get r key) else first_header r keys)"

definition callerField :: "http_request \<Rightarrow> bytes \<Rightarrow> bytes list \<Rightarrow> bytes" where
  "callerField r queryKey headerKeys =
     (let value = TrimSpace (firstQueryValue (rq_Query r) queryKey) in
      if value \<noteq> [] then value else first_header r headerKeys)"

definition parseRegistryCallerIdentity :: "http_request \<Rightarrow> registry_error + RegistryIdentity" where
  "parseRegistryCallerIdentity r =
     (let namespace = TrimSpace (callerField r ''callerNamespace'' [''X-StellMap-Caller-Namespace'', ''X-Caller-Namespace'']);
          i = \<lparr>si_service = TrimSpace (callerField r ''callerService'' [''X-StellMap-Caller-Service'', ''X-Caller-Service'']),
               si_organization = TrimSpace (callerField r ''callerOrganization''
                 [''X-StellMap-Caller-Organization'', ''X-Caller-Organization'']),
               si_businessDomain = TrimSpace (callerField r ''callerBusinessDomain''
                 [''X-StellMap-Caller-Business-Domain'', ''X-Caller-Business-Domain'']),
               si_capabilityDomain = TrimSpace (callerField r ''callerCapabilityDomain''
                 [''X-StellMap-Caller-Capability-Domain'', ''X-Caller-Capability-Domain'']),
               si_application = TrimSpace (callerField r ''callerApplication''
                 [''X-StellMap-Caller-Application'', ''X-Caller-Application'']),
               si_role = TrimSpace (callerField r ''callerRole'' [''X-StellMap-Caller-Role'', ''X-Caller-Role''])\<rparr> in
      if namespace = [] \<and> si_service i = [] \<and> si_organization i = [] \<and> si_businessDomain i = [] \<and>
         si_capabilityDomain i = [] \<and> si_application i = [] \<and> si_role i = []
      then Inr zero_identity
      else and_then (NormalizeStructuredServiceIdentity i) (\<lambda>j. Inr
        \<lparr>ri'_Namespace = namespace, ri'_Service = si_service j, ri'_Organization = si_organization j,
         ri'_BusinessDomain = si_businessDomain j, ri'_CapabilityDomain = si_capabilityDomain j,
         ri'_Application = si_application j, ri'_Role = si_role j, ri'_Zone = []\<rparr>))"

definition isAuthorized :: "bytes \<Rightarrow> http_request \<Rightarrow> bool" where
  "isAuthorized configured r =
     (let token = TrimSpace configured in
      token \<noteq> [] \<and> TrimSpace (header_get r ''Authorization'') = ''Bearer '' @ token)"

definition isAuthorizedReplicationRequest :: "RegistryAPI \<Rightarrow> http_request \<Rightarrow> bool" where
  "isAuthorizedReplicationRequest h r = isAuthorized (h_replicateAuth h) r"

definition isAuthorizedPrometheusSDRequest :: "RegistryAPI \<Rightarrow> http_request \<Rightarrow> bool" where
  "isAuthorizedPrometheusSDRequest h r = isAuthorized (h_promSDAuth h) r"

subsection \<open>Frames\<close>

datatype 'p stream_frame = Frame u64 bytes 'p | Ping

fun sse_frame :: "('p \<Rightarrow> json) \<Rightarrow> 'p stream_frame \<Rightarrow> bytes" where
  "sse_frame to_json (Frame revision event payload) = writeSSEEvent to_json revision event payload"
| "sse_frame to_json Ping = writeSSEPing"

text \<open>A delete event, also sent for an upsert that the query does not select.\<close>

definition delete_event :: "WatchEvent \<Rightarrow> RegistryWatchEventDTO" where
  "delete_event event =
     (case ParseServiceName (we_Service event) of (organization, businessDomain, capabilityDomain, application, role, _) \<Rightarrow>
        \<lparr>rw_Revision = we_Revision event, rw_Type = event_type_name WatchEventDelete, rw_Namespace = we_Namespace event,
         rw_Service = we_Service event, rw_Organization = organization, rw_BusinessDomain = businessDomain,
         rw_CapabilityDomain = capabilityDomain, rw_Application = application, rw_Role = role,
         rw_InstanceID = we_InstanceID event, rw_Instance = None, rw_Instances = []\<rparr>)"

definition upsert_event :: "WatchEvent \<Rightarrow> RegistryInstanceDTO \<Rightarrow> RegistryWatchEventDTO" where
  "upsert_event event instance =
     \<lparr>rw_Revision = we_Revision event, rw_Type = event_type_name WatchEventUpsert, rw_Namespace = we_Namespace event,
      rw_Service = we_Service event, rw_Organization = id_Organization instance,
      rw_BusinessDomain = id_BusinessDomain instance, rw_CapabilityDomain = id_CapabilityDomain instance,
      rw_Application = id_Application instance, rw_Role = id_Role instance, rw_InstanceID = we_InstanceID event,
      rw_Instance = Some instance, rw_Instances = []\<rparr>"

text \<open>The outer \<open>None\<close> is a panic, the inner one means that nothing is emitted.\<close>

definition registryWatchEventDTO :: "Query \<Rightarrow> int \<Rightarrow> WatchEvent \<Rightarrow> RegistryWatchEventDTO option option" where
  "registryWatchEventDTO query now event =
     (if we_Namespace event \<noteq> q_Namespace query \<or> \<not> MatchServiceQuery (we_Service event) query then Some None
      else case (we_Type event, we_Value event) of
        (WatchEventUpsert, Some value) \<Rightarrow>
          (case registryInstanceDTOFromValue value query now of
             None \<Rightarrow> None
           | Some (Some instance) \<Rightarrow> Some (Some (upsert_event event instance))
           | Some None \<Rightarrow> Some (Some (delete_event event)))
      | _ \<Rightarrow> Some (Some (delete_event event)))"

text \<open>The same for the replication stream: the fields of the event and where it was exported.\<close>

definition exported_event :: "bytes \<Rightarrow> bytes \<Rightarrow> int \<Rightarrow> RegistryWatchEventDTO \<Rightarrow> ReplicationWatchEventDTO" where
  "exported_event sourceRegion sourceCluster exportedAt e =
     \<lparr>rp_Revision = rw_Revision e, rp_Type = rw_Type e, rp_Namespace = rw_Namespace e, rp_Service = rw_Service e,
      rp_Organization = rw_Organization e, rp_BusinessDomain = rw_BusinessDomain e,
      rp_CapabilityDomain = rw_CapabilityDomain e, rp_Application = rw_Application e, rp_Role = rw_Role e,
      rp_InstanceID = rw_InstanceID e, rp_SourceRegion = sourceRegion, rp_SourceClusterID = sourceCluster,
      rp_ExportedAtUnix = exportedAt, rp_Instance = rw_Instance e, rp_Instances = rw_Instances e\<rparr>"

definition replicationWatchEventDTO ::
  "Query \<Rightarrow> bytes \<Rightarrow> bytes \<Rightarrow> int \<Rightarrow> int \<Rightarrow> WatchEvent \<Rightarrow> ReplicationWatchEventDTO option option" where
  "replicationWatchEventDTO query sourceRegion sourceCluster exportedAt now event =
     (case registryWatchEventDTO query now event of
        None \<Rightarrow> None
      | Some None \<Rightarrow> Some None
      | Some (Some e) \<Rightarrow> Some (Some (exported_event sourceRegion sourceCluster exportedAt e)))"

subsection \<open>The snapshot\<close>

text \<open>
  \<open>registryWatchSnapshot\<close>: a read barrier, the applied index, a scan (with its own barrier), and the
  instances. \<open>reqCtx\<close> is the request context made from the query and the clock.
\<close>

definition registryWatchSnapshot ::
  "'n registryNode \<Rightarrow> bytes \<Rightarrow> Query \<Rightarrow> int \<Rightarrow> 'n \<Rightarrow> 'n \<times> (node_error + RegistryInstanceDTO list option \<times> u64)" where
  "registryWatchSnapshot nd reqCtx query now n =
     (case rn_LinearizableRead nd reqCtx n of
        (n1, Some e) \<Rightarrow> (n1, Inl e)
      | (n1, None) \<Rightarrow>
          (let snapshotRevision = st_AppliedIndex (rn_Status nd n1) in
           case prefixRange (scan_prefix query) of (start, end) \<Rightarrow>
           (case rn_Scan nd start end 0 n1 of
              (n2, Inl e) \<Rightarrow> (n2, Inl e)
            | (n2, Inr items) \<Rightarrow>
                (n2, Inr (collect_instances (local_instance query now) (q_Limit query) items [], snapshotRevision)))))"

definition snapshot_event :: "Query \<Rightarrow> u64 \<Rightarrow> RegistryInstanceDTO list \<Rightarrow> RegistryWatchEventDTO" where
  "snapshot_event query revision items =
     \<lparr>rw_Revision = revision, rw_Type = ''snapshot'', rw_Namespace = q_Namespace query, rw_Service = q_Service query,
      rw_Organization = [], rw_BusinessDomain = [], rw_CapabilityDomain = [], rw_Application = [], rw_Role = [],
      rw_InstanceID = [], rw_Instance = None, rw_Instances = items\<rparr>"

subsection \<open>Streams\<close>

text \<open>The loop over the replayed events: the frames and the revision of the last one, or a panic.\<close>

fun replay_frames ::
  "(WatchEvent \<Rightarrow> 'p option option) \<Rightarrow> ('p \<Rightarrow> bytes) \<Rightarrow> WatchEvent list \<Rightarrow> 'p stream_frame list \<Rightarrow> u64 \<Rightarrow> ('p stream_frame list \<times> u64) option" where
  "replay_frames dto ty [] out current = Some (out, current)"
| "replay_frames dto ty (event # events) out current =
     (case dto event of
        None \<Rightarrow> None
      | Some None \<Rightarrow> replay_frames dto ty events out current
      | Some (Some payload) \<Rightarrow>
          replay_frames dto ty events (out @ [Frame (we_Revision event) (ty payload) payload]) (we_Revision event))"

text \<open>
  The event loop on what its \<open>select\<close> chooses: a tick of the ping timer, an event of the channel, or the end of the
  request or of the channel. A panic ends the stream too.
\<close>

datatype watch_input = Tick | Event WatchEvent | Finished

fun watch_loop :: "(WatchEvent \<Rightarrow> 'p option option) \<Rightarrow> ('p \<Rightarrow> bytes) \<Rightarrow> u64 \<Rightarrow> watch_input list \<Rightarrow> 'p stream_frame list" where
  "watch_loop dto ty current [] = []"
| "watch_loop dto ty current (Finished # inputs) = []"
| "watch_loop dto ty current (Tick # inputs) = Ping # watch_loop dto ty current inputs"
| "watch_loop dto ty current (Event event # inputs) =
     (if we_Revision event \<le> current then watch_loop dto ty current inputs
      else case dto event of
        None \<Rightarrow> []
      | Some None \<Rightarrow> watch_loop dto ty current inputs
      | Some (Some payload) \<Rightarrow>
          Frame (we_Revision event) (ty payload) payload # watch_loop dto ty (we_Revision event) inputs)"

text \<open>
  What precedes the loop, after the subscription: a refusal, or the first frames and the revision they reach. \<open>snap\<close> makes
  the payload of the snapshot frame.
\<close>

definition watch_open ::
  "'n registryNode \<Rightarrow> bytes \<Rightarrow> Query \<Rightarrow> int \<Rightarrow> (WatchEvent \<Rightarrow> 'p option option) \<Rightarrow> ('p \<Rightarrow> bytes) \<Rightarrow>
    (u64 \<Rightarrow> RegistryInstanceDTO list \<Rightarrow> 'p) \<Rightarrow> bool \<Rightarrow> u64 \<Rightarrow> WatchEvent list \<Rightarrow> bool \<Rightarrow> 'n \<Rightarrow>
    'n \<times> (unit reply + 'p stream_frame list \<times> u64)" where
  "watch_open nd reqCtx query now dto ty snap includeSnapshot since replay exact n =
     (if since > 0 \<and> \<not> exact \<and> \<not> includeSnapshot
      then (n, Inl (writeError 410 ''revision_expired'' (Text ''watch revision is no longer retained'')))
      else if since = 0 \<or> \<not> exact then
        (if \<not> includeSnapshot then (n, Inr ([Ping], since))
         else case registryWatchSnapshot nd reqCtx query now n of
           (n1, Inl e) \<Rightarrow> (n1, Inl (writeError 500 ''snapshot_failed'' (NodeText e)))
         | (n1, Inr (None, revision)) \<Rightarrow> (n1, Inl Aborted)
         | (n1, Inr (Some items, revision)) \<Rightarrow> (n1, Inr ([Frame revision ''snapshot'' (snap revision items)], revision)))
      else case replay_frames dto ty replay [] since of
        None \<Rightarrow> (n, Inl Aborted)
      | Some (out, current) \<Rightarrow> (n, Inr (if out = [] then [Ping] else out, current)))"

text \<open>
  The state of a stream that runs: its subscription (identifier and channel), the first frames and the revision from
  which the loop goes on.
\<close>

record 'p watch_session =
  ws_id :: u64
  ws_chan :: nat
  ws_frames :: "'p stream_frame list"
  ws_revision :: u64

text \<open>The deferred \<open>unsubscribe\<close> of a handler that returns before its loop. A panic of the hub is one of the request.\<close>

definition refuse ::
  "'n \<Rightarrow> WatchHub \<times> chan list \<Rightarrow> u64 \<Rightarrow> unit reply \<Rightarrow> ('n \<times> WatchHub \<times> chan list) \<times> (unit reply + 'p watch_session)" where
  "refuse n hub sid reply =
     (case unsubscribe (fst hub) (snd hub) sid of
        Inl _ \<Rightarrow> ((n, hub), Inl Aborted)
      | Inr hub' \<Rightarrow> ((n, hub'), Inl reply))"

definition watch_start ::
  "'n registryNode \<Rightarrow> bytes \<Rightarrow> Query \<Rightarrow> int \<Rightarrow> (WatchEvent \<Rightarrow> 'p option option) \<Rightarrow> ('p \<Rightarrow> bytes) \<Rightarrow>
    (u64 \<Rightarrow> RegistryInstanceDTO list \<Rightarrow> 'p) \<Rightarrow> bool \<Rightarrow> u64 \<Rightarrow> 'n \<times> WatchHub \<times> chan list \<Rightarrow>
    ('n \<times> WatchHub \<times> chan list) \<times> (unit reply + 'p watch_session)" where
  "watch_start nd reqCtx query now dto ty snap includeSnapshot since w =
     (case SubscribeSince (fst (snd w)) (snd (snd w)) 128 since of (hub, sid, c, replay, exact) \<Rightarrow>
        (case watch_open nd reqCtx query now dto ty snap includeSnapshot since replay exact (fst w) of
           (n, Inl reply) \<Rightarrow> refuse n hub sid reply
         | (n, Inr (out, current)) \<Rightarrow>
             ((n, hub), Inr \<lparr>ws_id = sid, ws_chan = c, ws_frames = out, ws_revision = current\<rparr>)))"

text \<open>\<open>hubSet\<close> is whether the handler has a hub, \<open>flushable\<close> whether the writer can flush.\<close>

definition WatchInstances ::
  "'n registryNode \<Rightarrow> (nat \<Rightarrow> nat) \<Rightarrow> bool \<Rightarrow> bool \<Rightarrow> bytes \<Rightarrow> int \<Rightarrow> (WatchEvent \<Rightarrow> int) \<Rightarrow> http_request \<Rightarrow>
    'n \<times> WatchHub \<times> chan list \<Rightarrow> ('n \<times> WatchHub \<times> chan list) \<times> (unit reply + RegistryWatchEventDTO watch_session)" where
  "WatchInstances nd ul hubSet flushable reqCtx now clock r w =
     (case allowMethod r ''GET'' of
        Some reply \<Rightarrow> (w, Inl reply)
      | None \<Rightarrow>
          if \<not> hubSet
          then (w, Inl (writeError 503 ''watch_unavailable'' (Text ''registry watch hub is not configured'')))
          else
     (case ParseQuery ul (rq_Query r) of
        Inl e \<Rightarrow> (w, Inl (writeError 400 ''bad_request'' (RegistryText e)))
      | Inr query \<Rightarrow>
     (case parseRegistryCallerIdentity r of
        Inl e \<Rightarrow> (w, Inl (writeError 400 ''bad_request'' (CallerText e)))
      | Inr caller \<Rightarrow>
     (case parseSinceRevision (url_get (rq_Query r) ''sinceRevision'') of
        None \<Rightarrow> (w, Inl (writeError 400 ''bad_request'' (InvalidText ''sinceRevision'' (url_get (rq_Query r) ''sinceRevision''))))
      | Some since \<Rightarrow>
     (let raw = TrimSpace (url_get (rq_Query r) ''includeSnapshot'') in
      case (if raw = [] then Some True else ParseBool raw) of
        None \<Rightarrow> (w, Inl (writeError 400 ''bad_request'' (InvalidText ''includeSnapshot'' raw)))
      | Some includeSnapshot \<Rightarrow>
          if \<not> flushable
          then (w, Inl (writeError 500 ''stream_not_supported'' (Text ''response writer does not support streaming'')))
          else watch_start nd reqCtx query now (\<lambda>e. registryWatchEventDTO query (clock e) e) rw_Type (snapshot_event query)
            includeSnapshot since w)))))"

definition WatchReplication ::
  "'n registryNode \<Rightarrow> RegistryAPI \<Rightarrow> (nat \<Rightarrow> nat) \<Rightarrow> bool \<Rightarrow> bool \<Rightarrow> bytes \<Rightarrow> int \<Rightarrow> int \<Rightarrow> (WatchEvent \<Rightarrow> int) \<Rightarrow> (WatchEvent \<Rightarrow> int) \<Rightarrow>
    http_request \<Rightarrow> 'n \<times> WatchHub \<times> chan list \<Rightarrow>
    ('n \<times> WatchHub \<times> chan list) \<times> (unit reply + ReplicationWatchEventDTO watch_session)" where
  "WatchReplication nd h ul hubSet flushable reqCtx now exportedNow clock exportClock r w =
     (case allowMethod r ''GET'' of
        Some reply \<Rightarrow> (w, Inl reply)
      | None \<Rightarrow>
          if \<not> hubSet
          then (w, Inl (writeError 503 ''watch_unavailable'' (Text ''registry watch hub is not configured'')))
          else if \<not> isAuthorizedReplicationRequest h r
          then (w, Inl (writeError 401 ''unauthorized'' (Text ''missing or invalid replication token'')))
          else
     (case ParseQuery ul (rq_Query r) of
        Inl e \<Rightarrow> (w, Inl (writeError 400 ''bad_request'' (RegistryText e)))
      | Inr query \<Rightarrow>
     (case parseSinceRevision (url_get (rq_Query r) ''sinceRevision'') of
        None \<Rightarrow> (w, Inl (writeError 400 ''bad_request'' (InvalidText ''sinceRevision'' (url_get (rq_Query r) ''sinceRevision''))))
      | Some since \<Rightarrow>
          if \<not> flushable
          then (w, Inl (writeError 500 ''stream_not_supported'' (Text ''response writer does not support streaming'')))
          else watch_start nd reqCtx query now
            (\<lambda>e. replicationWatchEventDTO query (h_sourceRegion h) (h_sourceCluster h) (exportClock e) (clock e) e) rp_Type
            (\<lambda>revision items. exported_event (h_sourceRegion h) (h_sourceCluster h) exportedNow
               (snapshot_event query revision items))
            True since w)))"

record RegistryWatchTarget =
  wt_Namespace :: bytes
  wt_Service :: bytes
  wt_Scope :: bytes

definition registryWatchTargetFromQuery :: "Query \<Rightarrow> RegistryWatchTarget" where
  "registryWatchTargetFromQuery query =
     (let t = \<lparr>wt_Namespace = q_Namespace query, wt_Service = [], wt_Scope = ''namespace''\<rparr> in
      if q_Service query \<noteq> [] \<and> length (q_Services query) \<le> 1 \<and> length (q_ServicePrefixes query) = 0
      then t\<lparr>wt_Scope := ''service'', wt_Service := q_Service query\<rparr>
      else if length (q_Services query) > 1 then t\<lparr>wt_Scope := ''service_set'', wt_Service := ''multiple''\<rparr>
      else if length (q_ServicePrefixes query) = 1
      then t\<lparr>wt_Scope := ''service_prefix'', wt_Service := hd (q_ServicePrefixes query)\<rparr>
      else if length (q_ServicePrefixes query) > 1 then t\<lparr>wt_Scope := ''service_prefix'', wt_Service := ''multiple''\<rparr>
      else t)"

end
