(* ===== verification/App_Events.thy ===== *)
theory App_Events
  imports Http_Watch Raft_Node
begin

text \<open>
  From committed entries to watch events (\<open>publishRegistryEvents\<close> of \<open>internal/app/app.go\<close>). An entry gives at most one event,
  whose revision is the index of the entry; the events of a batch are published in the order of its entries.
\<close>

definition registry_event :: "LogEntry \<Rightarrow> WatchEvent option" where
  "registry_event entry =
     (if e_Type (le_Raw entry) \<noteq> EntryNormal \<or> le_Data entry = [] then None
      else case decode_command (le_Data entry) of
        None \<Rightarrow> None
      | Some cmd \<Rightarrow>
          (case ParseKey (cmd_Key cmd) of
             None \<Rightarrow> None
           | Some (namespace, service, instanceID) \<Rightarrow>
               (let event = (\<lambda>ty value. \<lparr>we_Revision = le_Index entry, we_Type = ty, we_Namespace = namespace,
                      we_Service = service, we_InstanceID = instanceID, we_Value = value\<rparr>) in
                if cmd_Operation cmd = OperationPut then
                  (case unmarshal_value (cmd_Value cmd) of
                     None \<Rightarrow> None
                   | Some value \<Rightarrow> Some (event WatchEventUpsert (Some value)))
                else if cmd_Operation cmd = OperationDelete then Some (event WatchEventDelete None)
                else None)))"

text \<open>The application always has a hub: its constructor makes one when none is given.\<close>

fun publishRegistryEvents :: "WatchHub \<times> chan list \<Rightarrow> LogEntry list \<Rightarrow> hub_panic + WatchHub \<times> chan list" where
  "publishRegistryEvents hub [] = Inr hub"
| "publishRegistryEvents hub (entry # batch) =
     (case registry_event entry of
        None \<Rightarrow> publishRegistryEvents hub batch
      | Some event \<Rightarrow> and_then (Publish (fst hub) (snd hub) event) (\<lambda>hub'. publishRegistryEvents hub' batch))"

subsection \<open>The events of a log\<close>

definition log_entry :: "Entry \<Rightarrow> LogEntry" where
  "log_entry e = \<lparr>le_Index = e_Index e, le_Term = e_Term e, le_Type = [], le_Data = e_Data e, le_Raw = e\<rparr>"

definition log_events :: "Entry list \<Rightarrow> WatchEvent list" where
  "log_events es = List.map_filter (\<lambda>e. registry_event (log_entry e)) es"

lemma registry_event_converted:
  "List.map_filter registry_event (convertEntries rl es) = log_events es"
  by (induction es)
    (simp_all add: convertEntries_def log_events_def log_entry_def registry_event_def List.map_filter_def split: option.split)

lemma log_events_simps [simp]:
  "log_events [] = []" "log_events (es @ es') = log_events es @ log_events es'"
  "log_events (e # es) = (case registry_event (log_entry e) of None \<Rightarrow> log_events es | Some w \<Rightarrow> w # log_events es)"
  by (simp_all add: log_events_def List.map_filter_def split: option.split)

lemma event_revision: "registry_event (log_entry e) = Some w \<Longrightarrow> we_Revision w = e_Index e"
  by (auto simp: registry_event_def log_entry_def Let_def split: if_splits option.splits)

lemma log_events_entry: "w \<in> set (log_events es) \<Longrightarrow> \<exists>e \<in> set es. registry_event (log_entry e) = Some w"
  by (induction es) (auto split: option.splits)

text \<open>Events are in the order of their entries, and those after a revision are the events of the entries after it.\<close>

lemma log_events_sorted: "sorted_wrt (<) (map e_Index es) \<Longrightarrow> sorted_wrt (<) (map we_Revision (log_events es))"
proof (induction es)
  case (Cons e es)
  then show ?case by (auto split: option.split dest!: event_revision log_events_entry)
qed simp

lemma log_events_after:
  assumes "\<And>e. e \<in> set before \<Longrightarrow> e_Index e \<le> since" "\<And>e. e \<in> set after \<Longrightarrow> since < e_Index e"
  shows "filter (\<lambda>w. since < we_Revision w) (log_events (before @ after)) = log_events after"
proof -
  have "filter (\<lambda>w. since < we_Revision w) (log_events before) = []"
    using assms(1) by (fastforce simp: filter_empty_conv dest!: log_events_entry event_revision)
  moreover have "filter (\<lambda>w. since < we_Revision w) (log_events after) = log_events after"
    using assms(2) by (fastforce simp: filter_id_conv dest!: log_events_entry event_revision)
  ultimately show ?thesis by simp
qed

text \<open>Publishing a batch to a hub with nobody else about publishes its events one after the other.\<close>

lemma publishRegistryEvents_eq:
  "publishRegistryEvents hub batch =
     fold (\<lambda>event r. and_then r (\<lambda>(h, cs). Publish h cs event)) (List.map_filter registry_event batch) (Inr hub)"
proof (induction batch arbitrary: hub)
  case (Cons entry batch)
  have err: "fold (\<lambda>event r. and_then r (\<lambda>(h, cs). Publish h cs event)) es (Inl p) = Inl p" for es p
    by (induction es) simp_all
  show ?case
    by (cases hub; cases "registry_event entry"; cases "Publish (fst hub) (snd hub) (the (registry_event entry))")
      (auto simp: Cons.IH List.map_filter_def err)
qed (simp add: List.map_filter_def)

end
