(* ===== verification/Request_Text.thy ===== *)
theory Request_Text
  imports Http_Types
begin

text \<open>
  The text of requests. Everything \<open>encoding/json\<close> decodes is well-formed UTF-8, and trimming, splitting and joining keep it
  so; therefore the value an accepted registration stores survives its JSON form whatever bytes the client has sent.
\<close>

subsection \<open>UTF-8 and the string functions\<close>

lemma utf8_iff: "utf8 s \<longleftrightarrow> valid_utf8 s"
  using sanitize_valid [of s] valid_utf8_sanitize [of s] by (auto simp: utf8_def)

lemma utf8_Nil [simp]: "utf8 []"
  by (simp add: utf8_def)

lemma valid_utf8_induct [consumes 1, case_names Nil rune]:
  assumes "valid_utf8 s" "P []" "\<And>r t. valid_utf8 t \<Longrightarrow> P t \<Longrightarrow> P (EncodeRune r @ t)"
  shows "P s"
  using assms(1)
proof (induction s rule: valid_utf8.induct)
  case (2 c s)
  obtain r w where rw: "DecodeRune (c # s) = (r, w)" by fastforce
  with 2(2) have v: "\<not> (r = rune_error \<and> w = 1)" "valid_utf8 (drop (w - 1) s)" by (simp_all add: valid_utf8.simps(2))
  have "c # s = EncodeRune r @ drop (w - 1) s"
    using EncodeRune_DecodeRune [OF rw v(1)] DecodeRune_width(1) [OF rw]
    by (metis append_take_drop_id drop_Cons' not_one_le_zero)
  with 2(1) [OF rw [symmetric] v(2)] assms(3) [OF v(2)] show ?case by simp
qed (rule assms(2))

lemma valid_utf8_append: "valid_utf8 a \<Longrightarrow> valid_utf8 b \<Longrightarrow> valid_utf8 (a @ b)"
  by (induction rule: valid_utf8_induct) (simp_all add: valid_utf8_EncodeRune)

lemma EncodeRune_tail: "c \<in> set (tl (EncodeRune r)) \<Longrightarrow> cont_byte c"
  by (auto simp: EncodeRune_def cont_byte_def Let_def split: if_splits)

text \<open>A boundary in front of a byte that continues no sequence is a boundary between code points.\<close>

lemma valid_utf8_split:
  assumes "valid_utf8 (a @ b)" "b = [] \<or> \<not> cont_byte (hd b)"
  shows "valid_utf8 a \<and> valid_utf8 b"
proof -
  have "valid_utf8 s \<Longrightarrow> s = a @ b \<Longrightarrow> valid_utf8 a \<and> valid_utf8 b" for s
  proof (induction arbitrary: a rule: valid_utf8_induct)
    case (rune r t)
    show ?case
    proof (cases "a = []")
      case True
      with rune show ?thesis using valid_utf8_EncodeRune [of r t] by auto
    next
      case ne: False
      show ?thesis
      proof (cases "length (EncodeRune r) \<le> length a")
        case True
        with rune.prems obtain a' where "a = EncodeRune r @ a'" "t = a' @ b"
          by (auto simp: append_eq_append_conv2)
        with rune.IH [of a'] show ?thesis by (simp add: valid_utf8_EncodeRune)
      next
        case False
        with rune.prems obtain q where q: "EncodeRune r = a @ q" "b = q @ t" "q \<noteq> []"
          by (auto simp: append_eq_append_conv2)
        have "hd q \<in> set (tl (EncodeRune r))" using ne q(1,3) by (cases a; cases q) auto
        from EncodeRune_tail [OF this] assms(2) q(2,3) show ?thesis by simp
      qed
    qed
  qed simp
  with assms(1) show ?thesis by blast
qed

lemma space_seqs_runes: "p \<in> set space_seqs \<Longrightarrow> valid_utf8 p \<and> \<not> cont_byte (hd p)"
proof -
  have "list_all (\<lambda>p. valid_utf8 p \<and> \<not> cont_byte (hd p)) space_seqs"
    by (simp add: space_seqs_def cont_byte_def second_ok_def valid_utf8.simps(2) DecodeRune.simps(2) rune_error_def Let_def)
  then show "p \<in> set space_seqs \<Longrightarrow> ?thesis" by (auto simp: list_all_iff)
qed

lemma strip_left_keeps:
  assumes "\<And>p u. p \<in> set seqs \<Longrightarrow> P (p @ u) \<Longrightarrow> P u" "P s"
  shows "P (strip_left seqs s)"
  using assms
proof (induction seqs s rule: strip_left.induct)
  case (1 seqs s)
  show ?case
  proof (cases "find (\<lambda>p. p \<noteq> [] \<and> HasPrefix s p) seqs")
    case None
    with 1(3) show ?thesis by (subst strip_left.simps) simp
  next
    case (Some p)
    then have "p \<in> set seqs" "HasPrefix s p" by (auto simp: find_Some_iff)
    then have "P (drop (length p) s)" using 1(2) [of p] 1(3) by (auto simp: HasPrefix_iff)
    with 1(1) [OF Some 1(2)] Some show ?thesis by (subst strip_left.simps) simp
  qed
qed

lemma valid_utf8_TrimSpace: "valid_utf8 s \<Longrightarrow> valid_utf8 (TrimSpace s)"
proof -
  assume "valid_utf8 s"
  then have l: "valid_utf8 (strip_left space_seqs s)"
  proof (rule strip_left_keeps [rotated])
    fix p u assume "p \<in> set space_seqs" "valid_utf8 (p @ u)"
    moreover from this have "valid_utf8 p" using space_seqs_runes by blast
    moreover have "valid_utf8 p \<Longrightarrow> valid_utf8 (p @ u) \<Longrightarrow> valid_utf8 u"
      by (induction rule: valid_utf8_induct) (simp_all add: valid_utf8_EncodeRune)
    ultimately show "valid_utf8 u" by blast
  qed
  have "(valid_utf8 \<circ> rev) (strip_left (map rev space_seqs) (rev (strip_left space_seqs s)))"
  proof (rule strip_left_keeps)
    fix p u assume p: "p \<in> set (map rev space_seqs)" and v: "(valid_utf8 \<circ> rev) (p @ u)"
    then have "rev p \<in> set space_seqs" by auto
    from space_seqs_runes [OF this] v show "(valid_utf8 \<circ> rev) u"
      using valid_utf8_split [of "rev u" "rev p"] by simp
  qed (simp add: l)
  then show ?thesis by (simp add: TrimSpace_def)
qed

lemma valid_utf8_Split: "(of_char c :: nat) < 0x80 \<Longrightarrow> valid_utf8 s \<Longrightarrow> p \<in> set (Split s c) \<Longrightarrow> valid_utf8 p"
proof (induction "length (Split s c)" arbitrary: s)
  case (Suc n)
  show ?case
  proof (cases "c \<in> set s")
    case False
    with Suc.prems show ?thesis by (simp add: Split_no_sep)
  next
    case True
    then obtain a b where ab: "s = a @ c # b" "c \<notin> set a" by (metis split_list_first)
    have "\<not> cont_byte c" using Suc.prems(1) by (simp add: cont_byte_def)
    with valid_utf8_split [of a "c # b"] Suc.prems(1,2) ab(1) have v: "valid_utf8 a" "valid_utf8 b"
      by (auto simp: valid_utf8_ascii_Cons)
    from Suc.hyps(2) ab have "n = length (Split b c)" by (simp add: Split_append_sep)
    from Suc.hyps(1) [OF this Suc.prems(1) v(2)] Suc.prems(3) ab v(1) show ?thesis
      by (auto simp: Split_append_sep)
  qed
qed simp

lemma valid_utf8_Join: "valid_utf8 sep \<Longrightarrow> list_all valid_utf8 ps \<Longrightarrow> valid_utf8 (Join ps sep)"
  by (induction ps sep rule: Join.induct) (simp_all add: valid_utf8_append)

lemmas valid_text = valid_utf8_append valid_utf8_TrimSpace valid_utf8_Join

lemma utf8_TrimSpace [simp]: "utf8 s \<Longrightarrow> utf8 (TrimSpace s)"
  by (simp add: utf8_iff valid_utf8_TrimSpace)

text \<open>No well-formed string starts with the byte that closes the scanned ranges.\<close>

lemma utf8_not_top: "utf8 s \<Longrightarrow> \<not> HasPrefix s [CHR 0xFF]"
proof
  assume u: "utf8 s" and p: "HasPrefix s [CHR 0xFF]"
  then obtain t where s: "s = CHR 0xFF # t" by (auto simp: HasPrefix_iff)
  have "DecodeRune (CHR 0xFF # t) = (rune_error, 1)" by (simp add: DecodeRune.simps(2) Let_def)
  with u s show False by (simp add: utf8_iff valid_utf8.simps(2))
qed

subsection \<open>Decoders that keep a property\<close>

text \<open>A decoder keeps \<open>P\<close> when it maps a variable with \<open>P\<close> and a parsed tree to a variable with \<open>P\<close>.\<close>

definition keeps :: "('v \<Rightarrow> bool) \<Rightarrow> (json \<Rightarrow> 'v \<Rightarrow> 'v option) \<Rightarrow> bool" where
  "keeps P into \<longleftrightarrow> (\<forall>j x y. clean_json j = j \<longrightarrow> P x \<longrightarrow> into j x = Some y \<longrightarrow> P y)"

lemma keepsD: "keeps P into \<Longrightarrow> clean_json j = j \<Longrightarrow> P x \<Longrightarrow> into j x = Some y \<Longrightarrow> P y"
  by (simp add: keeps_def)

lemma keeps_string: "keeps utf8 into_string"
  unfolding keeps_def utf8_def using into_string_clean by blast

lemma Atoi_i64: "Atoi s = Some i \<Longrightarrow> is_i64 i"
  by (auto simp: Atoi_def Let_def split: if_splits)

lemma into_i64_range: "into_i64 j x = Some y \<Longrightarrow> is_i64 x \<Longrightarrow> is_i64 y"
  by (cases j) (auto dest: Atoi_i64)

lemma into_i32_range: "into_i32 j x = Some y \<Longrightarrow> i32 x \<Longrightarrow> i32 y"
  by (cases j) (auto simp: i32_def split: option.splits if_splits)

lemma keeps_ints: "keeps is_i64 into_i64" "keeps i32 into_i32"
  unfolding keeps_def using into_i64_range into_i32_range by blast+

definition text_map :: "(bytes, bytes) gomap \<Rightarrow> bool" where
  "text_map m \<longleftrightarrow> utf8_map m \<and> distinct (map fst m)"

lemma text_map_Nil [simp]: "text_map []"
  by (simp add: text_map_def utf8_map_def)

lemma text_map_update: "text_map m \<Longrightarrow> utf8 k \<Longrightarrow> utf8 v \<Longrightarrow> text_map (AList.update k v m)"
  using set_AList_put [of k v m] by (auto simp: text_map_def utf8_map_def list_all_iff distinct_update)

lemma put_members_text:
  "clean_members ms = ms \<Longrightarrow> text_map m \<Longrightarrow> put_members into_string [] ms m = Some m' \<Longrightarrow> text_map m'"
proof (induction ms arbitrary: m)
  case (Cons e ms)
  obtain k j where e: "e = (k, j)" by fastforce
  with Cons.prems(3) obtain v where v: "into_string j [] = Some v" "put_members into_string [] ms (AList.update k v m) = Some m'"
    by (auto split: option.splits)
  have "clean_json j = j" "utf8 k" "clean_members ms = ms" using Cons.prems(1) e by (auto simp: utf8_def)
  with keepsD [OF keeps_string _ _ v(1)] Cons.IH [OF _ text_map_update [OF Cons.prems(2)] v(2)] show ?case by simp
qed simp

lemma keeps_map: "keeps text_map (into_map into_string [])"
proof -
  have "text_map y" if "clean_json j = j" "text_map x" "into_map into_string [] j x = Some y" for j x y
    using that put_members_text by (cases j) auto
  then show ?thesis by (simp add: keeps_def)
qed

lemma keeps_slice: "keeps P into \<Longrightarrow> P zero \<Longrightarrow> keeps (list_all P) (into_slice into zero)"
proof -
  assume k: "keeps P into" and z: "P zero"
  have "list_all P y" if j: "clean_json j = j" and i: "into_slice into zero j x = Some y" for j x y
  proof (cases j)
    case (JArr js)
    then have c: "clean_json i = i" if "i \<in> set js" for i using j that by (simp add: map_idI map_eq_conv list_eq_iff_nth_eq) (metis in_set_conv_nth)
    from i JArr have "map (\<lambda>j. into j zero) js = map Some y" by (simp add: those_Some_iff)
    then have "\<exists>i \<in> set js. into i zero = Some v" if "v \<in> set y" for v
      using that by (metis (no_types, lifting) image_iff list.set_map)
    then show ?thesis unfolding list_all_iff using c keepsD [OF k _ z] by blast
  qed (use i in auto)
  then show ?thesis by (simp add: keeps_def)
qed

lemma keeps_field:
  assumes "keeps P into" "\<And>x. Q x \<Longrightarrow> P (get x)" "\<And>x v. Q x \<Longrightarrow> P v \<Longrightarrow> Q (upd v x)"
  shows "keeps Q (snd (field n into get upd))"
  using assms unfolding keeps_def field_def by fastforce

lemma keeps_known_struct:
  assumes "\<forall>f \<in> snd ` set fs. keeps Q f"
  shows "keeps Q (into_known_struct fs)"
proof -
  have m: "Q y" if "clean_members ms = ms" "Q x" "put_known_fields fs ms x = Some y" for ms x y
    using that
  proof (induction ms arbitrary: x)
    case (Cons e ms)
    obtain k j where e: "e = (k, j)" by fastforce
    with Cons.prems(3) obtain f x' where f: "field_for fs k = Some f" "f j x = Some x'" "put_known_fields fs ms x' = Some y"
      by (auto split: option.splits)
    have "keeps Q f" using field_for_set [OF f(1)] assms by blast
    with Cons.prems e f(2) have "Q x'" by (auto dest: keepsD)
    with Cons.IH [OF _ _ f(3)] Cons.prems(1) e show ?case by auto
  qed simp
  have "Q y" if "clean_json j = j" "Q x" "into_known_struct fs j x = Some y" for j x y
    using that m by (cases j) auto
  then show ?thesis by (simp add: keeps_def)
qed

lemma keeps_struct:
  assumes "\<forall>f \<in> snd ` set fs. keeps Q f"
  shows "keeps Q (into_struct fs)"
proof -
  have m: "Q y" if "clean_members ms = ms" "Q x" "put_fields fs ms x = Some y" for ms x y
    using that
  proof (induction ms arbitrary: x)
    case (Cons e ms)
    obtain k j where e: "e = (k, j)" by fastforce
    show ?case
    proof (cases "field_for fs k")
      case None
      with Cons e show ?thesis by auto
    next
      case (Some f)
      with Cons.prems(3) e obtain x' where f: "f j x = Some x'" "put_fields fs ms x' = Some y" by (auto split: option.splits)
      have "keeps Q f" using field_for_set [OF Some] assms by blast
      with Cons.prems e f(1) have "Q x'" by (auto dest: keepsD)
      with Cons.IH [OF _ _ f(2)] Cons.prems(1) e show ?thesis by auto
    qed
  qed simp
  have "Q y" if "clean_json j = j" "Q x" "into_struct fs j x = Some y" for j x y
    using that m by (cases j) auto
  then show ?thesis by (simp add: keeps_def)
qed

lemma Unmarshal_keeps: "keeps P into \<Longrightarrow> P zero \<Longrightarrow> Unmarshal into data zero = Some y \<Longrightarrow> P y"
  by (auto simp: Unmarshal_def split: option.splits dest: keepsD parse_json_clean)

lemma parse_first_clean: "parse_first s = Some v \<Longrightarrow> clean_json v = v"
  unfolding parse_first_def using conjunct1 [OF parse_clean [of "Suc (length s)"]] by (force simp del: parse_value.simps)

lemma Decode_keeps: "keeps P into \<Longrightarrow> P zero \<Longrightarrow> Decode into data zero = Some y \<Longrightarrow> P y"
  by (auto simp: Decode_def split: option.splits dest: keepsD parse_first_clean)

subsection \<open>Decoded requests and values\<close>

definition typed_endpoint :: "Endpoint \<Rightarrow> bool" where
  "typed_endpoint e \<longleftrightarrow> utf8_endpoint e \<and> i32 (ep_Port e) \<and> i32 (ep_Weight e)"

lemma endpoint_fields_keep: "\<forall>f \<in> snd ` set endpoint_fields. keeps typed_endpoint f"
  by (simp add: endpoint_fields_def)
    (intro conjI keeps_field [OF keeps_string] keeps_field [OF keeps_ints(2)];
      simp add: typed_endpoint_def utf8_endpoint_def)

lemma zero_endpoint_typed: "typed_endpoint zero_endpoint"
  by (simp add: typed_endpoint_def utf8_endpoint_def zero_endpoint_def i32_def)

lemmas keeps_endpoints =
  keeps_slice [OF keeps_struct [OF endpoint_fields_keep] zero_endpoint_typed]
  keeps_slice [OF keeps_known_struct [OF endpoint_fields_keep] zero_endpoint_typed]

definition text_register :: "RegisterInput \<Rightarrow> bool" where
  "text_register r \<longleftrightarrow>
     list_all utf8 [ri_Namespace r, ri_Service r, ri_Organization r, ri_BusinessDomain r, ri_CapabilityDomain r,
       ri_Application r, ri_Role r, ri_InstanceID r, ri_Zone r] \<and>
     text_map (ri_Labels r) \<and> text_map (ri_Metadata r) \<and> list_all typed_endpoint (ri_Endpoints r) \<and>
     is_i64 (ri_LeaseTTLSeconds r)"

lemma register_fields_keep: "\<forall>f \<in> snd ` set register_fields. keeps text_register f"
  by (simp add: register_fields_def)
    (intro conjI keeps_field [OF keeps_string] keeps_field [OF keeps_map] keeps_field [OF keeps_endpoints(2)]
      keeps_field [OF keeps_ints(1)]; simp add: text_register_def)

lemma decoded_register: "decodeJSONBody register_fields r zero_register = Some x \<Longrightarrow> text_register x"
  unfolding decodeJSONBody_def
  by (erule Decode_keeps [OF keeps_known_struct [OF register_fields_keep], rotated])
    (simp add: text_register_def zero_register_def is_i64_def)

definition text_value :: "Value \<Rightarrow> bool" where
  "text_value v \<longleftrightarrow> utf8_value v \<and> typed_value v"

lemma text_value_iff:
  "text_value v \<longleftrightarrow>
     list_all utf8 [v_Namespace v, v_Service v, v_Organization v, v_BusinessDomain v, v_CapabilityDomain v,
       v_Application v, v_Role v, v_InstanceID v, v_Zone v] \<and>
     text_map (v_Labels v) \<and> text_map (v_Metadata v) \<and> list_all typed_endpoint (v_Endpoints v) \<and>
     is_i64 (v_LeaseTTLSeconds v) \<and> is_i64 (v_RegisteredAtUnix v) \<and> is_i64 (v_LastHeartbeatUnix v)"
  by (auto simp: text_value_def utf8_value_def typed_value_def text_map_def typed_endpoint_def list_all_iff)

lemma value_fields_keep: "\<forall>f \<in> snd ` set value_fields. keeps text_value f"
  by (simp add: value_fields_def)
    (intro conjI keeps_field [OF keeps_string] keeps_field [OF keeps_map] keeps_field [OF keeps_endpoints(1)]
      keeps_field [OF keeps_ints(1)]; simp add: text_value_iff)

lemma decoded_value: "unmarshal_value data = Some v \<Longrightarrow> text_value v"
  unfolding unmarshal_value_def
  by (erule Unmarshal_keeps [OF keeps_struct [OF value_fields_keep], rotated])
    (simp add: text_value_iff zero_value_def is_i64_def)

lemma text_value_roundtrip: "text_value v \<Longrightarrow> unmarshal_value (marshal_value v) = Some (sort_maps v)"
  by (simp add: text_value_def unmarshal_marshal_value)

subsection \<open>Accepted registrations\<close>

lemma clone_entries_text: "utf8_map es \<Longrightarrow> text_map acc \<Longrightarrow> text_map (clone_entries es acc)"
proof (induction es acc rule: clone_entries.induct)
  case (2 k v rest acc)
  from 2(3) have "utf8 k" "utf8 v" "utf8_map rest" by (simp_all add: utf8_map_def)
  with 2 show ?case by (simp add: Let_def text_map_update)
qed simp

lemma text_map_Clone: "text_map m \<Longrightarrow> text_map (CloneStringMap m)"
  by (simp add: CloneStringMap_def clone_entries_text text_map_def [of m])

definition text_identity :: "ServiceIdentity \<Rightarrow> bool" where
  "text_identity i \<longleftrightarrow> list_all utf8 (si_service i # si_dims i)"

lemma dot_ascii [simp]: "(of_char (CHR ''.'') :: nat) < 0x80"
  by simp

lemma text_fill:
  assumes "text_identity i"
  shows "text_identity (fill_identity i)"
proof (cases rule: ParseServiceName_cases [of "si_service i"])
  case fail
  with assms show ?thesis by (simp add: fill_identity_def text_identity_def si_dims_def or_else_def)
next
  case (ok a b c d e)
  have "utf8 (TrimSpace (si_service i))" using assms by (simp add: text_identity_def)
  then have "list_all utf8 [a, b, c, d, e]"
    unfolding list_all_iff using valid_utf8_Split [OF dot_ascii, of "TrimSpace (si_service i)"] ok(2) by (simp add: utf8_iff)
  with assms ok(1) show ?thesis by (simp add: fill_identity_def text_identity_def si_dims_def or_else_def)
qed

lemma text_canonical: "text_identity i \<Longrightarrow> utf8 (si_canonical i)"
proof -
  assume "text_identity i"
  then have "list_all valid_utf8 (map TrimSpace (si_dims i))"
    by (simp add: text_identity_def si_dims_def utf8_iff valid_utf8_TrimSpace)
  moreover have "valid_utf8 ''.''" by (rule valid_utf8_ascii) (simp add: is_ascii_def)
  ultimately show ?thesis
    using valid_utf8_Join [of "''.''" "map TrimSpace (si_dims i)"]
    by (simp add: utf8_iff si_canonical_def ComposeServiceName_def si_dims_def)
qed

lemma text_normalized_identity:
  assumes "NormalizeStructuredServiceIdentity i = Inr j" "text_identity i"
  shows "text_identity j"
proof -
  let ?t = "trim_identity i"
  let ?f = "if si_service ?t \<noteq> [] then fill_identity ?t else ?t"
  have t: "text_identity ?t" using assms(2) by (simp add: text_identity_def trim_identity_def si_dims_def)
  then have f: "text_identity ?f" using text_fill by simp
  have "j = ?f \<or> j = ?f\<lparr>si_service := si_canonical ?f\<rparr>"
    using assms(1) by (auto simp: NormalizeStructuredServiceIdentity_def Let_def split: if_splits)
  with f text_canonical [OF f] show ?thesis by (auto simp: text_identity_def si_dims_def)
qed

lemma text_normalized_endpoints:
  assumes "fold_result normalize_endpoint xs (seen, es) = Inr (seen', es')" "list_all typed_endpoint xs" "list_all typed_endpoint es"
  shows "list_all typed_endpoint es'"
  using assms
proof (induction xs arbitrary: seen es)
  case (Cons x xs)
  then obtain seen1 es1 where 1: "normalize_endpoint x (seen, es) = Inr (seen1, es1)"
    and 2: "fold_result normalize_endpoint xs (seen1, es1) = Inr (seen', es')" by auto
  have x: "typed_endpoint x" using Cons.prems(2) by simp
  have "\<exists>e. es1 = es @ [e] \<and> typed_endpoint e"
    using 1 x
    by (auto simp: normalize_endpoint_def Let_def typed_endpoint_def utf8_endpoint_def i32_def DefaultEndpointWeight_def
        split: if_splits)
  with Cons.IH [OF 2] Cons.prems(2,3) show ?case by auto
qed simp

lemma is_i64_lease: "is_i64 l \<Longrightarrow> is_i64 (EffectiveLeaseTTLSeconds l)"
  by (simp add: EffectiveLeaseTTLSeconds_def DefaultLeaseTTLSeconds_def is_i64_def)

lemma text_normalized_register:
  assumes "NormalizeRegisterInput r = Inr r'" "text_register r"
  shows "text_register r'"
proof -
  from assms(1) obtain i seen es where i: "NormalizeStructuredServiceIdentity (ri_identity r) = Inr i"
    and es: "fold_result normalize_endpoint (ri_Endpoints r) ({}, []) = Inr (seen, es)"
    and r': "r' = \<lparr>ri_Namespace = TrimSpace (ri_Namespace r), ri_Service = si_service i,
        ri_Organization = si_organization i, ri_BusinessDomain = si_businessDomain i,
        ri_CapabilityDomain = si_capabilityDomain i, ri_Application = si_application i, ri_Role = si_role i,
        ri_InstanceID = TrimSpace (ri_InstanceID r), ri_Zone = TrimSpace (ri_Zone r),
        ri_Labels = CloneStringMap (ri_Labels r), ri_Metadata = CloneStringMap (ri_Metadata r), ri_Endpoints = es,
        ri_LeaseTTLSeconds = EffectiveLeaseTTLSeconds (ri_LeaseTTLSeconds r)\<rparr>"
    by (auto simp: NormalizeRegisterInput_def split: if_splits)
  have "text_identity i"
    by (rule text_normalized_identity [OF i]) (use assms(2) in \<open>simp add: text_register_def text_identity_def ri_identity_def si_dims_def\<close>)
  moreover have "list_all typed_endpoint es"
    using text_normalized_endpoints [OF es] assms(2) by (simp add: text_register_def)
  ultimately show ?thesis
    using assms(2) by (simp add: r' text_register_def text_identity_def si_dims_def text_map_Clone is_i64_lease)
qed

lemma text_NewValue: "text_register r \<Longrightarrow> is_i64 now \<Longrightarrow> text_value (NewValue r now)"
  by (simp add: text_register_def text_value_iff NewValue_def text_map_Clone is_i64_lease)

end
