(* ===== verification/Directory.thy ===== *)
theory Directory
  imports Http_Registry Request_Text Raft_Correct
begin

text \<open>
  The directory of instances that the data plane keeps in the state machine. A query is specified on the whole directory; the
  handler, which scans the narrowest prefix it can, gives the same answer as long as every value is stored under its
  own key, and all writes of the program keep it so. The locale \<open>Registry_Node\<close> is the contract of the Go interface
  \<open>registryNode\<close>; it is interpreted on the Raft node.
\<close>

subsection \<open>The contract of a node\<close>

locale Registry_Node =
  fixes node :: "'n registryNode \<Rightarrow> bool"
    and inv :: "'n \<Rightarrow> bool"
    and dir :: "'n \<Rightarrow> (bytes \<rightharpoonup> bytes)"
  assumes finite_dir: "inv n \<Longrightarrow> finite (dom (dir n))"
    and propose_ok: "node nd \<Longrightarrow> inv n \<Longrightarrow> rn_ProposeCommand nd c n = (n', e) \<Longrightarrow> inv n' \<and> dir n' = dir n"
    and barrier_ok: "node nd \<Longrightarrow> inv n \<Longrightarrow> rn_LinearizableRead nd ctx n = (n', e) \<Longrightarrow> inv n'"
    and get_ok: "node nd \<Longrightarrow> inv n \<Longrightarrow> \<not> isMetaKey k \<Longrightarrow> rn_Get nd k n = (n', Inr v) \<Longrightarrow>
      inv n' \<and> v = or_empty (dir n' k)"
    and scan_ok: "node nd \<Longrightarrow> inv n \<Longrightarrow> rn_Scan nd a b l n = (n', Inr items) \<Longrightarrow>
      inv n' \<and> items = limited l (entries (dir n') a b)"

text \<open>The Raft node: during a barrier the node goes on, on the same database.\<close>

definition node_dir :: "('db, 'ms, 'rn) RaftNode \<Rightarrow> (bytes \<rightharpoonup> bytes)" where
  "node_dir n = ps_view (n_kvStore n)"

definition node_inv :: "('db, 'ms, 'rn) RaftNode \<Rightarrow> bool" where
  "node_inv n \<longleftrightarrow> ps_inv (n_kvStore n)"

definition barrier_keeps ::
  "(bytes \<Rightarrow> ('db, 'ms, 'rn) RaftNode \<Rightarrow> ('db, 'ms, 'rn) RaftNode \<times> node_error option) \<Rightarrow> bool" where
  "barrier_keeps barrier \<longleftrightarrow> (\<forall>ctx n. node_inv n \<longrightarrow> node_inv (fst (barrier ctx n)))"

definition raft_node :: "('db, 'ms, 'rn) RaftNode registryNode \<Rightarrow> bool" where
  "raft_node nd \<longleftrightarrow> (\<exists>rl barrier. nd = raft_registryNode rl barrier \<and> barrier_keeps barrier)"

lemma Propose_keeps: "ProposeCommand rl c n = (n', e) \<Longrightarrow> n_kvStore n' = n_kvStore n"
  by (auto simp: ProposeCommand_def Propose_def with_raft_def split: option.splits prod.splits)

interpretation rn: Registry_Node raft_node node_inv node_dir
proof unfold_locales
  fix n :: "('db, 'ms, 'rn) RaftNode"
  show "node_inv n \<Longrightarrow> finite (dom (node_dir n))" by (simp add: node_inv_def node_dir_def ps_finite_view)
next
  fix nd :: "('db, 'ms, 'rn) RaftNode registryNode" and n c n' e
  assume "raft_node nd" "node_inv n" "rn_ProposeCommand nd c n = (n', e)"
  then show "node_inv n' \<and> node_dir n' = node_dir n"
    using Propose_keeps by (fastforce simp: raft_node_def raft_registryNode_def node_inv_def node_dir_def)
next
  fix nd :: "('db, 'ms, 'rn) RaftNode registryNode" and n ctx n' e
  assume "raft_node nd" "node_inv n" "rn_LinearizableRead nd ctx n = (n', e)"
  then show "node_inv n'" by (auto simp: raft_node_def raft_registryNode_def barrier_keeps_def dest: spec2 [of _ ctx n])
next
  fix nd :: "('db, 'ms, 'rn) RaftNode registryNode" and n k n' v
  assume a: "raft_node nd" "node_inv n" "\<not> isMetaKey k" "rn_Get nd k n = (n', Inr v)"
  then obtain rl barrier where b: "nd = raft_registryNode rl barrier" "barrier k n = (n', None)" "node_inv n'" "node_Get k n' = Inr v"
    by (auto simp: raft_node_def raft_registryNode_def barrier_keeps_def split: prod.splits option.splits) (metis fst_conv)
  then have "ps_Get (n_kvStore n') k = Inr v" by (auto simp: node_Get_def split: sum.splits)
  with ps.get_ok [OF _ a(3)] b(3) show "node_inv n' \<and> v = or_empty (node_dir n' k)" by (simp add: node_inv_def node_dir_def)
next
  fix nd :: "('db, 'ms, 'rn) RaftNode registryNode" and a b l n n' items
  assume a: "raft_node nd" "node_inv n" "rn_Scan nd a b l n = (n', Inr items)"
  then obtain rl barrier where b: "nd = raft_registryNode rl barrier" "barrier (a @ b) n = (n', None)" "node_inv n'"
      "node_Scan a b l n' = Inr items"
    by (auto simp: raft_node_def raft_registryNode_def barrier_keeps_def split: prod.splits option.splits) (metis fst_conv)
  then have "ps_Scan (n_kvStore n') a b l = Inr items" by (auto simp: node_Scan_def split: sum.splits)
  with ps.scan_ok b(3) show "node_inv n' \<and> items = limited l (entries (node_dir n') a b)"
    by (simp add: node_inv_def node_dir_def)
qed

subsection \<open>Answers on the whole directory\<close>

definition answer_of :: "Query \<Rightarrow> Value \<Rightarrow> RegistryInstanceDTO" where
  "answer_of q v = instance_dto v (FilterEndpoints (v_Endpoints v) (q_Endpoint q))"

definition selected :: "Query \<Rightarrow> int \<Rightarrow> Value \<Rightarrow> RegistryInstanceDTO option" where
  "selected q t v = (if IsAlive v t \<and> query_selects q v then Some (answer_of q v) else None)"

definition wanted :: "Query \<Rightarrow> int \<Rightarrow> KV \<Rightarrow> RegistryInstanceDTO option" where
  "wanted q t item = (case unmarshal_value (kv_Value item) of None \<Rightarrow> None | Some v \<Rightarrow> selected q t v)"

definition directory :: "(bytes \<rightharpoonup> bytes) \<Rightarrow> KV list" where
  "directory m = filter (\<lambda>i. HasPrefix (kv_Key i) RootPrefix) (entries m [] [])"

definition local_answer :: "Query \<Rightarrow> int \<Rightarrow> (bytes \<rightharpoonup> bytes) \<Rightarrow> RegistryInstanceDTO list" where
  "local_answer q t m =
     limited (q_Limit q) (List.map_filter (wanted q t) (directory m))"

definition wanted_replica :: "Query \<Rightarrow> int \<Rightarrow> KV \<Rightarrow> RegistryInstanceDTO option" where
  "wanted_replica q t item =
     (case ParseReplicatedKey (kv_Key item) of
        None \<Rightarrow> None
      | Some (_, _, namespace, service, _) \<Rightarrow>
          if namespace = q_Namespace q \<and> service_matches q (TrimSpace service)
          then (case unmarshal_replicated (kv_Value item) of None \<Rightarrow> None | Some w \<Rightarrow> selected q t (ToValue w))
          else None)"

definition replica_answer :: "Query \<Rightarrow> int \<Rightarrow> (bytes \<rightharpoonup> bytes) \<Rightarrow> RegistryInstanceDTO list" where
  "replica_answer q t m =
     limited (q_Limit q)
       (List.map_filter (wanted_replica q t) (entries m ReplicationRootPrefix (prefixUpperBound ReplicationRootPrefix)))"

lemma registryInstanceDTO_parsed:
  assumes "ParseQuery ul values = Inr q"
  shows "registryInstanceDTOFromValue v q t = Some (selected q t v)"
proof -
  have "FilterEndpoints (v_Endpoints v) (q_Endpoint q) \<noteq> []" if "query_selects q v" "q_Endpoint q \<noteq> []"
    using that by (simp add: query_selects_def FilterEndpoints_empty_iff)
  then show ?thesis
    using MatchQuery_parsed [OF assms, of v]
    by (auto simp: registryInstanceDTOFromValue_def selected_def answer_of_def FilterEndpoints_def Let_def split: bool.split)
qed

lemma local_instance_parsed:
  "ParseQuery ul values = Inr q \<Longrightarrow> local_instance q t item = Some (wanted q t item)"
  by (simp add: local_instance_def wanted_def registryInstanceDTO_parsed split: option.split)

lemma replicated_instance_parsed:
  "ParseQuery ul values = Inr q \<Longrightarrow> replicated_instance q t item = Some (wanted_replica q t item)"
  by (auto simp: replicated_instance_def wanted_replica_def registryInstanceDTO_parsed MatchServiceQuery_iff
      split: option.split)

text \<open>The collecting loops keep what is wanted, up to the limit.\<close>

lemma collect_instances_eq:
  assumes "\<And>item. f item = Some (g item)" "0 < limit \<Longrightarrow> int (length result) < limit"
  shows "collect_instances f limit items result = Some (limited limit (result @ List.map_filter g items))"
  using assms(2)
proof (induction items arbitrary: result)
  case (Cons item items)
  show ?case
  proof (cases "g item")
    case None
    with Cons show ?thesis by (simp add: assms(1) map_filter_simps)
  next
    case (Some x)
    have "take (nat limit) (result @ x # xs) = result @ [x]" if "0 < limit" "limit \<le> 1 + int (length result)" for xs
    proof -
      have "nat limit = Suc (length result)" using that Cons.prems by linarith
      then show ?thesis by simp
    qed
    with Some Cons show ?thesis by (auto simp: assms(1) map_filter_simps Let_def limited_def)
  qed
qed (auto simp: limited_def)

lemmas collect_all = collect_instances_eq [where result = "[]", simplified]

subsection \<open>Every value under its own key\<close>

definition stored :: "(bytes \<rightharpoonup> bytes) \<Rightarrow> bytes \<Rightarrow> Value option" where
  "stored m k = (case m k of None \<Rightarrow> None | Some d \<Rightarrow> unmarshal_value d)"

definition key_of :: "Value \<Rightarrow> bytes" where
  "key_of v = Key (v_Namespace v) (v_Service v) (v_InstanceID v)"

definition directory_ok :: "(bytes \<rightharpoonup> bytes) \<Rightarrow> bool" where
  "directory_ok m \<longleftrightarrow> (\<forall>k v. HasPrefix k RootPrefix \<longrightarrow> stored m k = Some v \<longrightarrow> k = key_of v \<and> trimmed (v_Service v))"

lemma directory_okD: "directory_ok m \<Longrightarrow> HasPrefix k RootPrefix \<Longrightarrow> stored m k = Some v \<Longrightarrow> k = key_of v \<and> trimmed (v_Service v)"
  unfolding directory_ok_def by blast

lemma stored_text: "stored m k = Some v \<Longrightarrow> text_value v"
  by (auto simp: stored_def split: option.splits dest: decoded_value)

text \<open>The scanned ranges hold the keys with a prefix, except those that go on with the byte 0xFF.\<close>

lemma within_prefix:
  "p \<noteq> [] \<Longrightarrow> within p (prefixUpperBound p) k \<longleftrightarrow> HasPrefix k p \<and> \<not> HasPrefix k (p @ [CHR 0xFF])"
  by (simp add: within_def prefixUpperBound_def prefix_range)

lemma HasPrefix_append_iff: "HasPrefix (p @ s) (p @ q) \<longleftrightarrow> HasPrefix s q"
  by (auto simp: HasPrefix_iff)

lemma within_append: "p \<noteq> [] \<Longrightarrow> utf8 s \<Longrightarrow> within p (prefixUpperBound p) (p @ s)"
  using utf8_not_top [of s] by (simp add: within_prefix HasPrefix_append_iff)

lemma RootPrefix_ne [simp]: "RootPrefix \<noteq> []"
  by (simp add: RootPrefix_def)

lemma entries_narrow:
  assumes "finite (dom m)" "\<And>k. within a b k \<Longrightarrow> within a' b' k"
  shows "entries m a b = filter (\<lambda>i. within a b (kv_Key i)) (entries m a' b')"
proof -
  have "{k \<in> dom m. within a b k} = {k \<in> {k \<in> dom m. within a' b' k}. within a b k}" using assms(2) by auto
  moreover have "finite {k \<in> dom m. within a' b' k}" using assms(1) by simp
  ultimately show ?thesis
    using sorted_list_of_set_filter [of "{k \<in> dom m. within a' b' k}" "within a b"]
    by (simp add: entries_def filter_map comp_def)
qed

lemma map_filter_outside:
  "(\<And>x. x \<in> set xs \<Longrightarrow> \<not> P x \<Longrightarrow> g x = None) \<Longrightarrow> List.map_filter g (filter P xs) = List.map_filter g xs"
  by (induction xs) (auto simp: map_filter_simps split: option.split)

lemma utf8_append: "utf8 a \<Longrightarrow> utf8 b \<Longrightarrow> utf8 (a @ b)"
  by (simp add: utf8_iff valid_utf8_append)

lemma utf8_slash [simp]: "utf8 ''/''"
  by (simp add: utf8_def sanitize_ascii is_ascii_def)

lemma scan_prefix_cases:
  assumes "ParseQuery ul values = Inr q"
  shows "scan_prefix q = RootPrefix @ q_Namespace q @ ''/'' \<or>
    q_Service q \<noteq> [] \<and> scan_prefix q = RootPrefix @ q_Namespace q @ ''/'' @ q_Service q @ ''/''"
proof -
  have "TrimSpace (q_Namespace q) = q_Namespace q" using ParseQuery_namespace [OF assms] by simp
  then show ?thesis by (auto simp: scan_prefix_def ServicePrefix_def NamespacePrefix_def)
qed

lemma wanted_in_scan:
  assumes q: "ParseQuery ul values = Inr q" and ok: "directory_ok m" and k: "HasPrefix k RootPrefix" "m k = Some d"
    and w: "wanted q t \<lparr>kv_Key = k, kv_Value = d\<rparr> \<noteq> None"
  shows "within (scan_prefix q) (prefixUpperBound (scan_prefix q)) k"
proof -
  obtain v where v: "unmarshal_value d = Some v" "query_selects q v"
    using w by (auto simp: wanted_def selected_def split: option.splits if_splits)
  then have st: "stored m k = Some v" by (simp add: stored_def k)
  from directory_okD [OF ok k(1) st] have key: "k = key_of v" "trimmed (v_Service v)" by simp_all
  have ns: "v_Namespace v = q_Namespace q" and svc: "q_Service q = [] \<or> v_Service v = q_Service q"
    using v(2) key(2) by (auto simp: query_selects_def service_matches_def trimmed_iff)
  have u: "utf8 (v_Service v)" "utf8 (v_InstanceID v)" using stored_text [OF st] by (simp_all add: text_value_iff)
  show ?thesis
    using scan_prefix_cases [OF q]
  proof
    assume p: "scan_prefix q = RootPrefix @ q_Namespace q @ ''/''"
    have "k = scan_prefix q @ v_Service v @ ''/'' @ v_InstanceID v" by (simp add: p key(1) key_of_def Key_def ns)
    moreover have "utf8 (v_Service v @ ''/'' @ v_InstanceID v)" using u by (intro utf8_append) simp_all
    ultimately show ?thesis using within_append [of "scan_prefix q"] by (simp add: p)
  next
    assume p: "q_Service q \<noteq> [] \<and> scan_prefix q = RootPrefix @ q_Namespace q @ ''/'' @ q_Service q @ ''/''"
    then have "k = scan_prefix q @ v_InstanceID v" using svc by (simp add: key(1) key_of_def Key_def ns)
    then show ?thesis using within_append [of "scan_prefix q"] u(2) p by simp
  qed
qed

lemma within_all [simp]: "within [] [] k"
  by (simp add: within_def)

text \<open>Scanning the narrow range misses nothing.\<close>

lemma narrow_scan:
  assumes "finite (dom m)" "ParseQuery ul values = Inr q" "directory_ok m"
  shows "List.map_filter (wanted q t) (entries m (scan_prefix q) (prefixUpperBound (scan_prefix q))) =
     List.map_filter (wanted q t) (directory m)"
proof -
  let ?in = "within (scan_prefix q) (prefixUpperBound (scan_prefix q))"
  have root: "HasPrefix k RootPrefix" if "?in k" for k
  proof -
    obtain s where "scan_prefix q = RootPrefix @ s" using scan_prefix_cases [OF assms(2)] by auto
    with that show ?thesis by (auto simp: within_prefix HasPrefix_iff)
  qed
  have "entries m (scan_prefix q) (prefixUpperBound (scan_prefix q)) = filter (\<lambda>i. ?in (kv_Key i)) (directory m)"
    using entries_narrow [OF assms(1), of "scan_prefix q" "prefixUpperBound (scan_prefix q)" "[]" "[]"] root
    by (auto simp: directory_def intro: filter_cong)
  moreover have "wanted q t i = None" if "i \<in> set (directory m)" "\<not> ?in (kv_Key i)" for i
  proof (rule ccontr)
    assume w: "wanted q t i \<noteq> None"
    note i0 = that
    obtain k d where i: "i = \<lparr>kv_Key = k, kv_Value = d\<rparr>" "m k = Some d" "HasPrefix k RootPrefix"
      using i0(1) set_entries [OF assms(1)] by (auto simp: directory_def)
    from wanted_in_scan [OF assms(2,3) i(3,2)] w that(2) show False by (simp add: i(1))
  qed
  ultimately show ?thesis by (simp add: map_filter_outside)
qed

subsection \<open>Queries\<close>

context Registry_Node
begin

text \<open>
  The reply to a query: the answer on the directory at the moment of the scan, and if that is empty the answer from the
  replicated directories at the moment of the second scan.
\<close>

lemma query_ok:
  assumes nd: "node nd" "inv n" and q: "ParseQuery ul (rq_Query r) = Inr q" and get: "rq_Method r = ''GET''"
    and run: "QueryInstances nd ul now r n = (n2, reply)" "is_ok reply"
  shows "\<exists>n1 items. rn_Scan nd (scan_prefix q) (prefixUpperBound (scan_prefix q)) 0 n = (n1, Inr items) \<and> inv n2 \<and>
    (directory_ok (dir n1) \<longrightarrow>
      (if local_answer q now (dir n1) \<noteq> [] then n2 = n1 \<and> reply = writeOK [] (Some (local_answer q now (dir n1)))
       else reply = writeOK [] (Some (replica_answer q now (dir n2)))))"
proof -
  have ne: "scan_prefix q \<noteq> []" using scan_prefix_cases [OF q] by auto
  then have pr: "prefixRange (scan_prefix q) = (scan_prefix q, prefixUpperBound (scan_prefix q))" by (simp add: prefixRange_def)
  obtain n1 items where scan: "rn_Scan nd (scan_prefix q) (prefixUpperBound (scan_prefix q)) 0 n = (n1, Inr items)"
    using run by (cases "rn_Scan nd (scan_prefix q) (prefixUpperBound (scan_prefix q)) 0 n"; cases "snd (rn_Scan nd (scan_prefix q) (prefixUpperBound (scan_prefix q)) 0 n)")
      (auto simp: QueryInstances_def allowMethod_def get q pr)
  from scan_ok [OF nd scan] have n1: "inv n1" "items = entries (dir n1) (scan_prefix q) (prefixUpperBound (scan_prefix q))"
    by (simp_all add: limited_def)
  let ?L = "limited (q_Limit q) (List.map_filter (wanted q now) items)"
  have loop: "QueryInstances nd ul now r n = (if ?L = [] then queryReplicatedInstances nd q now n1 else (n1, writeOK [] (Some ?L)))"
    by (simp add: QueryInstances_def allowMethod_def get q pr scan collect_all local_instance_parsed [OF q] Let_def
        instances_reply_def)
  have narrow: "?L = local_answer q now (dir n1)" if "directory_ok (dir n1)"
    using narrow_scan [OF finite_dir [OF n1(1)] q that] by (simp add: n1(2) local_answer_def)
  have rep: "inv n2 \<and> reply = writeOK [] (Some (replica_answer q now (dir n2)))" if l: "?L = []"
  proof -
    have run2: "queryReplicatedInstances nd q now n1 = (n2, reply)" using loop run(1) l by simp
    obtain n2' items' where s2: "rn_Scan nd ReplicationRootPrefix (prefixUpperBound ReplicationRootPrefix) 0 n1 = (n2', Inr items')"
      using run2 run(2) by (cases "rn_Scan nd ReplicationRootPrefix (prefixUpperBound ReplicationRootPrefix) 0 n1";
          cases "snd (rn_Scan nd ReplicationRootPrefix (prefixUpperBound ReplicationRootPrefix) 0 n1)")
        (auto simp: queryReplicatedInstances_def)
    from scan_ok [OF nd(1) n1(1) s2]
    have "inv n2'" "items' = entries (dir n2') ReplicationRootPrefix (prefixUpperBound ReplicationRootPrefix)"
      by (simp_all add: limited_def)
    with run2 show ?thesis
      by (auto simp: queryReplicatedInstances_def s2 collect_all replicated_instance_parsed [OF q] instances_reply_def
          replica_answer_def)
  qed
  show ?thesis
  proof (cases "?L = []")
    case True
    with rep narrow scan show ?thesis by auto
  next
    case False
    with loop run(1) have "n2 = n1" "reply = writeOK [] (Some ?L)" by simp_all
    with False narrow scan n1(1) show ?thesis by auto
  qed
qed

end

end
