(* ===== verification/Directory_Props.thy ===== *)
theory Directory_Props
  imports Directory Raft_Props
begin

text \<open>
  What the data plane promises its clients: queries answer from the whole directory, a registered instance is found until its
  lease ends or it is deregistered, only the leader writes, and every write keeps the directory in order.
\<close>

subsection \<open>Recording the proposals of a handler\<close>

text \<open>A node that also records the commands proposed to it.\<close>

definition recording :: "'n registryNode \<Rightarrow> ('n \<times> Command list) registryNode" where
  "recording nd =
     \<lparr>rn_ProposeCommand = (\<lambda>c (n, cs). case rn_ProposeCommand nd c n of (n', e) \<Rightarrow> ((n', cs @ [c]), e)),
      rn_LinearizableRead = (\<lambda>ctx (n, cs). case rn_LinearizableRead nd ctx n of (n', e) \<Rightarrow> ((n', cs), e)),
      rn_Get = (\<lambda>k (n, cs). case rn_Get nd k n of (n', v) \<Rightarrow> ((n', cs), v)),
      rn_Scan = (\<lambda>a b l (n, cs). case rn_Scan nd a b l n of (n', v) \<Rightarrow> ((n', cs), v)),
      rn_Status = (\<lambda>(n, cs). rn_Status nd n)\<rparr>"

lemma recording_simps [simp]:
  "rn_ProposeCommand (recording nd) c (n, cs) = (case rn_ProposeCommand nd c n of (n', e) \<Rightarrow> ((n', cs @ [c]), e))"
  "rn_Get (recording nd) k (n, cs) = (case rn_Get nd k n of (n', v) \<Rightarrow> ((n', cs), v))"
  "rn_Status (recording nd) (n, cs) = rn_Status nd n"
  by (simp_all add: recording_def)

subsection \<open>What the writing handlers propose\<close>

definition accepted_registration :: "http_request \<Rightarrow> RegisterInput option" where
  "accepted_registration r =
     (if rq_Method r \<noteq> ''POST'' then None
      else case decodeJSONBody register_fields r zero_register of
        None \<Rightarrow> None
      | Some request \<Rightarrow>
          (case NormalizeRegisterInput (registryRegisterInputFromDTO request) of
             Inl e \<Rightarrow> None
           | Inr input \<Rightarrow>
               if ri_Namespace input = [] \<or> ri_Service input = [] \<or> ri_InstanceID input = [] then None else Some input))"

definition registration :: "RegisterInput \<Rightarrow> int \<Rightarrow> Command" where
  "registration input now = put_command (key_of (NewValue input now)) (marshal_value (NewValue input now))"

lemma key_of_NewValue: "key_of (NewValue input now) = Key (ri_Namespace input) (ri_Service input) (ri_InstanceID input)"
  by (simp add: key_of_def NewValue_def)

lemma Register_accepted:
  assumes "accepted_registration r = Some input"
  shows "Register nd h now r n =
     (case ensureWritable h (rn_Status nd n) of
        Some reply \<Rightarrow> (n, reply)
      | None \<Rightarrow> propose_reply ''instance registered'' (rn_ProposeCommand nd (registration input now) n))"
  using assms
  by (auto simp: accepted_registration_def Register_def registration_def key_of_NewValue allowMethod_def
      split: if_splits option.splits sum.splits)

lemma Register_refused:
  assumes "accepted_registration r = None"
  shows "\<exists>reply. Register nd h now r n = (n, reply) \<and> \<not> is_ok reply"
  using assms
  by (auto simp: accepted_registration_def Register_def allowMethod_def split: if_splits option.splits sum.splits)

lemma DTO_id [simp]: "registryRegisterInputFromDTO x = x"
proof -
  have "map clone_endpoint es = es" for es by (induction es) (simp_all add: clone_endpoint_def)
  then show ?thesis by (cases x) (simp add: registryRegisterInputFromDTO_def registryEndpointsFromDTO_def)
qed

lemma accepted_text:
  assumes "accepted_registration r = Some input"
  shows "text_register input \<and> register_ok input"
proof -
  obtain x where "decodeJSONBody register_fields r zero_register = Some x" "NormalizeRegisterInput x = Inr input"
    using assms by (auto simp: accepted_registration_def split: if_splits option.splits sum.splits)
  with decoded_register text_normalized_register NormalizeRegisterInput_ok show ?thesis by blast
qed

text \<open>The values the handlers write: well-formed text, in range, with a trimmed service.\<close>

definition good_value :: "Value \<Rightarrow> bool" where
  "good_value v \<longleftrightarrow> text_value v \<and> trimmed (v_Service v)"

lemma accepted_good: "accepted_registration r = Some input \<Longrightarrow> is_i64 now \<Longrightarrow> good_value (NewValue input now)"
  using accepted_text [of r input] text_NewValue [of input now]
  by (auto simp: good_value_def NewValue_def register_ok_def identity_ok_def ri_identity_def)

text \<open>
  The commands of the program: a value under its own key, a deletion, or something outside the directory.
\<close>

definition registry_command :: "Command \<Rightarrow> bool" where
  "registry_command c \<longleftrightarrow>
     (\<exists>v. good_value v \<and> c = put_command (key_of v) (marshal_value v)) \<or>
     cmd_Operation c \<noteq> OperationPut \<or> \<not> HasPrefix (cmd_Key c) RootPrefix"

lemma ps_exec_put: "cmd_Operation c = OperationPut \<Longrightarrow> ps_exec c m = m(cmd_Key c \<mapsto> cmd_Value c)"
  by (simp add: ps_exec_def command_batch_def)

lemma ps_exec_simps [simp]:
  "ps_exec (put_command k v) m = m(k \<mapsto> v)" "ps_exec (delete_command k) m = m(k := None)"
  by (simp_all add: ps_exec_def command_batch_def put_command_def delete_command_def)

lemma ps_exec_shrinks: "cmd_Operation c \<noteq> OperationPut \<Longrightarrow> ps_exec c m k = Some d \<Longrightarrow> m k = Some d"
  by (auto simp: ps_exec_def command_batch_def split: if_splits)

lemma finite_exec: "finite (dom m) \<Longrightarrow> finite (dom (ps_exec c m))"
proof -
  assume f: "finite (dom m)"
  have "dom (ps_exec c m) \<subseteq> insert (cmd_Key c) (dom m)"
    by (auto simp: ps_exec_def command_batch_def split: if_splits)
  with f show ?thesis using finite_subset by blast
qed

lemma key_of_sort [simp]: "key_of (sort_maps v) = key_of v" "v_Service (sort_maps v) = v_Service v"
  by (simp_all add: key_of_def sort_maps_def)

lemma key_of_root: "HasPrefix (key_of v) RootPrefix"
  by (simp add: key_of_def Key_def HasPrefix_iff)

lemma registry_command_keeps:
  assumes "registry_command c" "directory_ok m"
  shows "directory_ok (ps_exec c m)"
  unfolding directory_ok_def
proof (intro allI impI)
  fix k v assume k: "HasPrefix k RootPrefix" and s: "stored (ps_exec c m) k = Some v"
  have old: "k = key_of v \<and> trimmed (v_Service v)" if "stored m k = Some v"
    using directory_okD [OF assms(2) k that] .
  show "k = key_of v \<and> trimmed (v_Service v)"
  proof (cases "cmd_Operation c = OperationPut")
    case False
    with s ps_exec_shrinks [of c m k] have "stored m k = Some v" by (auto simp: stored_def split: option.splits)
    then show ?thesis by (rule old)
  next
    case True
    show ?thesis
    proof (cases "k = cmd_Key c")
      case eq: True
      then obtain w where w: "good_value w" "c = put_command (key_of w) (marshal_value w)"
        using assms(1) True k by (auto simp: registry_command_def)
      then have "v = sort_maps w" "k = key_of w"
        using s eq by (auto simp: stored_def put_command_def ps_exec_put text_value_roundtrip good_value_def)
      with w(1) show ?thesis by (simp add: good_value_def)
    next
      case False
      with s True have "stored m k = Some v" by (simp add: stored_def ps_exec_put)
      then show ?thesis by (rule old)
    qed
  qed
qed

lemma registry_commands_keep:
  "list_all registry_command cs \<Longrightarrow> directory_ok m \<Longrightarrow> finite (dom m) \<Longrightarrow>
     directory_ok (fold ps_exec cs m) \<and> finite (dom (fold ps_exec cs m))"
  by (induction cs arbitrary: m) (simp_all add: registry_command_keeps finite_exec)

lemma registration_good: "good_value v \<Longrightarrow> registry_command (put_command (key_of v) (marshal_value v))"
  by (auto simp: registry_command_def)

lemma heartbeat_ttl: "decodeJSONBody heartbeat_fields r zero_heartbeat = Some x \<Longrightarrow> is_i64 (hr_LeaseTTLSeconds x)"
proof -
  have "\<forall>f \<in> snd ` set heartbeat_fields. keeps (\<lambda>x. is_i64 (hr_LeaseTTLSeconds x)) f"
    by (simp add: heartbeat_fields_def)
      (intro conjI keeps_field [OF keeps_string] keeps_field [OF keeps_ints(1)] keeps_field [where P = "\<lambda>_. True"];
        simp add: keeps_def)
  then show "decodeJSONBody heartbeat_fields r zero_heartbeat = Some x \<Longrightarrow> ?thesis"
    unfolding decodeJSONBody_def
    by (elim Decode_keeps [OF keeps_known_struct, rotated -1]) (simp_all add: zero_heartbeat_def is_i64_def)
qed

lemma renewed_good:
  "good_value v \<Longrightarrow> is_i64 ttl \<Longrightarrow> is_i64 now \<Longrightarrow> good_value (renewed ttl now v) \<and> key_of (renewed ttl now v) = key_of v"
  by (auto simp: good_value_def text_value_iff renewed_def Let_def key_of_def is_i64_lease)

text \<open>A heartbeat either proposes nothing, or writes back the value it has read, renewed.\<close>

definition accepted_heartbeat :: "http_request \<Rightarrow> (bytes \<times> int) option" where
  "accepted_heartbeat r =
     (if rq_Method r \<noteq> ''POST'' then None
      else case decodeJSONBody heartbeat_fields r zero_heartbeat of
        None \<Rightarrow> None
      | Some request \<Rightarrow>
          (let namespace = TrimSpace (hr_Namespace request); instanceID = TrimSpace (hr_InstanceID request) in
           case NormalizeStructuredServiceIdentity (hr_identity request) of
             Inl e \<Rightarrow> None
           | Inr i \<Rightarrow>
               if namespace = [] \<or> si_service i = [] \<or> instanceID = [] \<or> hr_LeaseTTLSeconds request < 0 then None
               else Some (Key namespace (si_service i) instanceID, hr_LeaseTTLSeconds request)))"

lemma Heartbeat_accepted:
  assumes "accepted_heartbeat r = Some (key, ttl)"
  shows "Heartbeat nd h now r n =
     (case ensureWritable h (rn_Status nd n) of
        Some reply \<Rightarrow> (n, reply)
      | None \<Rightarrow>
          (case rn_Get nd key n of
             (n1, Inl e) \<Rightarrow> (n1, writeError 500 ''read_failed'' (NodeText e))
           | (n1, Inr current) \<Rightarrow>
               if current = [] then (n1, writeError 404 ''not_found'' (Text ''instance not found''))
               else (case unmarshal_value current of
                 None \<Rightarrow> (n1, writeError 500 ''unmarshal_failed'' JSONText)
               | Some existing \<Rightarrow>
                   propose_reply ''heartbeat accepted''
                     (rn_ProposeCommand nd (put_command key (marshal_value (renewed ttl now existing))) n1))))"
    "is_i64 ttl" "0 \<le> ttl" "HasPrefix key RootPrefix"
  using assms heartbeat_ttl [of r]
  by (auto simp: accepted_heartbeat_def Heartbeat_def allowMethod_def Let_def Key_def HasPrefix_iff
      split: if_splits option.splits sum.splits)

lemma Heartbeat_refused:
  "accepted_heartbeat r = None \<Longrightarrow> \<exists>reply. Heartbeat nd h now r n = (n, reply) \<and> \<not> is_ok reply"
  by (auto simp: accepted_heartbeat_def Heartbeat_def allowMethod_def Let_def split: if_splits option.splits sum.splits)

lemma propose_reply_cases:
  "propose_reply msg (n, e) = (case e of Some x \<Rightarrow> (n, writeError 500 ''propose_failed'' (NodeText x)) | None \<Rightarrow> (n, writeOK msg None))"
  by (simp add: propose_reply_def split: option.split)

lemma meta_not_root: "HasPrefix k RootPrefix \<Longrightarrow> \<not> isMetaKey k"
  by (auto simp: isMetaKey_iff HasPrefix_iff RootPrefix_def)

context Registry_Node
begin

lemma register_proposes:
  assumes "Register (recording nd) h now r (n, cs) = ((n', cs'), reply)" "is_i64 now"
  shows "\<exists>new. cs' = cs @ new \<and> length new \<le> 1 \<and> list_all registry_command new \<and>
     (new \<noteq> [] \<longrightarrow> is_leader (rn_Status nd n)) \<and> (is_ok reply \<longrightarrow> new \<noteq> [])"
proof (cases "accepted_registration r")
  case None
  with Register_refused [of r "recording nd" h now "(n, cs)"] assms(1) show ?thesis by auto
next
  case (Some input)
  have "registry_command (registration input now)"
    unfolding registration_def using accepted_good [OF Some assms(2)] by (rule registration_good)
  with assms(1) show ?thesis
    by (auto simp: Register_accepted [OF Some] ensureWritable_def propose_reply_cases split: if_splits prod.splits option.splits)
qed

lemma deregister_proposes:
  assumes "Deregister (recording nd) h r (n, cs) = ((n', cs'), reply)"
  shows "\<exists>new. cs' = cs @ new \<and> length new \<le> 1 \<and> list_all registry_command new \<and>
     (new \<noteq> [] \<longrightarrow> is_leader (rn_Status nd n)) \<and> (is_ok reply \<longrightarrow> new \<noteq> [])"
  using assms
  by (auto simp: Deregister_def allowMethod_def Let_def ensureWritable_def propose_reply_cases registry_command_def
      delete_command_def split: if_splits option.splits sum.splits prod.splits)

lemma heartbeat_proposes:
  assumes nd: "node nd" "inv n" and run: "Heartbeat (recording nd) h now r (n, cs) = ((n', cs'), reply)" and now: "is_i64 now"
    and dir: "\<And>k n1 v. rn_Get nd k n = (n1, v) \<Longrightarrow> directory_ok (dir n1)"
  shows "\<exists>new. cs' = cs @ new \<and> length new \<le> 1 \<and> list_all registry_command new \<and>
     (new \<noteq> [] \<longrightarrow> is_leader (rn_Status nd n)) \<and> (is_ok reply \<longrightarrow> new \<noteq> [])"
proof (cases "accepted_heartbeat r")
  case None
  with Heartbeat_refused [of r "recording nd" h now "(n, cs)"] run show ?thesis by auto
next
  case (Some a)
  then obtain key ttl where a: "accepted_heartbeat r = Some (key, ttl)" by (cases a) simp
  have good: "registry_command (put_command key (marshal_value (renewed ttl now v)))"
    if g: "rn_Get nd key n = (n1, Inr d)" and d: "d \<noteq> []" "unmarshal_value d = Some v" for n1 d v
  proof -
    have root: "HasPrefix key RootPrefix" by (rule Heartbeat_accepted(4) [OF a])
    from get_ok [OF nd meta_not_root [OF root] g] d have st: "stored (dir n1) key = Some v"
      by (auto simp: stored_def or_empty_def split: option.splits)
    from directory_okD [OF dir [OF g] root this] stored_text [OF st] have v: "key = key_of v" "good_value v"
      by (simp_all add: good_value_def)
    from renewed_good [OF v(2) Heartbeat_accepted(2) [OF a] now] v(1) show ?thesis
      using registration_good [of "renewed ttl now v"] by simp
  qed
  show ?thesis
    using run good
    by (auto simp: Heartbeat_accepted(1) [OF a] ensureWritable_def propose_reply_cases
        split: if_splits prod.splits option.splits sum.splits)
qed

end

subsection \<open>Members of an answer\<close>

lemma set_map_filter: "set (List.map_filter f xs) = {y. \<exists>x \<in> set xs. f x = Some y}"
  by (induction xs) (auto simp: map_filter_simps split: option.split)

lemma wanted_iff:
  "wanted q t i = Some y \<longleftrightarrow> (\<exists>v. unmarshal_value (kv_Value i) = Some v \<and> IsAlive v t \<and> query_selects q v \<and> y = answer_of q v)"
  by (auto simp: wanted_def selected_def split: option.split)

lemma stored_iff: "stored m k = Some v \<longleftrightarrow> (\<exists>d. m k = Some d \<and> unmarshal_value d = Some v)"
  by (simp add: stored_def split: option.split)

lemma set_local_answer:
  assumes "finite (dom m)" "q_Limit q = 0"
  shows "set (local_answer q t m) =
     {answer_of q v |k v. HasPrefix k RootPrefix \<and> stored m k = Some v \<and> IsAlive v t \<and> query_selects q v}"
proof -
  have "i \<in> set (directory m) \<longleftrightarrow> HasPrefix (kv_Key i) RootPrefix \<and> m (kv_Key i) = Some (kv_Value i)" for i
    using set_entries [OF assms(1), of "[]" "[]"] by (cases i) (auto simp: directory_def)
  moreover have eta: "\<lparr>kv_Key = kv_Key i, kv_Value = kv_Value i\<rparr> = i" for i by (cases i) simp
  ultimately have "set (local_answer q t m) = {y. \<exists>k d. HasPrefix k RootPrefix \<and> m k = Some d \<and> wanted q t \<lparr>kv_Key = k, kv_Value = d\<rparr> = Some y}"
    using assms(2) by (auto simp: local_answer_def limited_def set_map_filter) (metis eta)
  also have "\<dots> = {answer_of q v |k v. HasPrefix k RootPrefix \<and> stored m k = Some v \<and> IsAlive v t \<and> query_selects q v}"
    unfolding wanted_iff stored_iff by auto
  finally show ?thesis .
qed

lemma sort_maps_selects: "text_value v \<Longrightarrow> query_selects q (sort_maps v) \<longleftrightarrow> query_selects q v"
proof -
  assume "text_value v"
  then have "map_of (sort_key fst (v_Labels v)) = map_of (v_Labels v)"
    by (intro map_of_sort_key) (simp add: text_value_def typed_value_def)
  then show ?thesis by (simp add: query_selects_def sort_maps_def)
qed

lemma sort_maps_alive [simp]: "IsAlive (sort_maps v) t = IsAlive v t"
  by (simp add: IsAlive_def sort_maps_def)

lemma answer_of_ids [simp]:
  "id_Namespace (answer_of q v) = v_Namespace v" "id_Service (answer_of q v) = v_Service v"
  "id_InstanceID (answer_of q v) = v_InstanceID v"
  by (simp_all add: answer_of_def instance_dto_def)

definition untouched :: "bytes \<Rightarrow> Command list \<Rightarrow> bool" where
  "untouched k cs \<longleftrightarrow> (\<forall>c \<in> set cs. \<forall>m. ps_exec c m k = m k)"

lemma untouched_fold: "untouched k cs \<Longrightarrow> fold ps_exec cs m k = m k"
  by (induction cs arbitrary: m) (simp_all add: untouched_def)

lemma stored_put: "good_value v \<Longrightarrow> m (key_of v) = Some (marshal_value v) \<Longrightarrow> stored m (key_of v) = Some (sort_maps v)"
  by (simp add: stored_def good_value_def text_value_roundtrip)

text \<open>In an orderly directory the answer of an instance stands for its key.\<close>

lemma answer_iff:
  assumes "directory_ok m" "finite (dom m)" "q_Limit q = 0" "good_value v" "stored m (key_of v) = Some (sort_maps v)"
  shows "answer_of q (sort_maps v) \<in> set (local_answer q t m) \<longleftrightarrow> IsAlive v t \<and> query_selects q v"
proof
  assume "answer_of q (sort_maps v) \<in> set (local_answer q t m)"
  then obtain k w where w: "HasPrefix k RootPrefix" "stored m k = Some w" "IsAlive w t" "query_selects q w"
      "answer_of q w = answer_of q (sort_maps v)"
    unfolding set_local_answer [OF assms(2,3)] by auto
  then have "key_of w = key_of v" by (metis answer_of_ids key_of_def key_of_sort(1))
  with directory_okD [OF assms(1) w(1,2)] have "k = key_of v" by simp
  with w(2) assms(5) have "w = sort_maps v" by simp
  with w(3,4) sort_maps_selects [of v q] assms(4) show "IsAlive v t \<and> query_selects q v" by (simp add: good_value_def)
next
  assume "IsAlive v t \<and> query_selects q v"
  with sort_maps_selects [of v q] assms(4) have "IsAlive (sort_maps v) t \<and> query_selects q (sort_maps v)"
    by (simp add: good_value_def)
  with assms(5) key_of_root [of v] show "answer_of q (sort_maps v) \<in> set (local_answer q t m)"
    unfolding set_local_answer [OF assms(2,3)] by blast
qed

lemma answer_gone:
  assumes "directory_ok m" "finite (dom m)" "q_Limit q = 0" "m (key_of v) = None" "d \<in> set (local_answer q t m)"
  shows "(id_Namespace d, id_Service d, id_InstanceID d) \<noteq> (v_Namespace v, v_Service v, v_InstanceID v)"
proof
  assume eq: "(id_Namespace d, id_Service d, id_InstanceID d) = (v_Namespace v, v_Service v, v_InstanceID v)"
  obtain k w where w: "HasPrefix k RootPrefix" "stored m k = Some w" "d = answer_of q w"
    using assms(5) unfolding set_local_answer [OF assms(2,3)] by auto
  with directory_okD [OF assms(1) w(1,2)] eq have "k = key_of v" by (simp add: key_of_def)
  with w(2) assms(4) show False by (simp add: stored_def)
qed

subsection \<open>A sample node\<close>

text \<open>A leader over a database that never fails, whose read barriers pass at once.\<close>

definition sample_node :: "(bytes, bytes) gomap \<Rightarrow> ((bytes, bytes) gomap, u64, unit) RaftNode" where
  "sample_node db =
     (case New sample_config True None fixed_codec list_pebble 0 sample_disk of
        Inr n \<Rightarrow> n\<lparr>n_kvStore := list_store db, n_started := True, n_raftNode := Some (),
          n_status := (n_status n)\<lparr>st_Role := RoleLeader, st_LeaderID := st_NodeID (n_status n)\<rparr>\<rparr>)"

definition sample_nd :: "((bytes, bytes) gomap, u64, unit) RaftNode registryNode" where
  "sample_nd = raft_registryNode sample_library (\<lambda>ctx n. (n, None))"

definition sample_api :: RegistryAPI where
  "sample_api = \<lparr>h_httpAddr = ''h'', h_book = NewAddressBook [] [] [], h_sourceRegion = ''r'', h_sourceCluster = ''c'',
     h_replicateAuth = ''t'', h_promSDAuth = ''p''\<rparr>"

lemma sample_node_parts:
  "n_kvStore (sample_node db) = list_store db" "is_leader (rn_Status sample_nd (sample_node db))"
  "ensureRunning (sample_node db) = None" "n_raftNode (sample_node db) = Some ()"
proof -
  obtain n :: "((bytes, bytes) gomap, u64, unit) RaftNode" where
    n: "New sample_config True None fixed_codec list_pebble 0 sample_disk = Inr n" by (rule exE [OF sample_new])
  then have "\<not> n_stopped n" by (auto simp: New_def Let_def split: option.splits sum.splits)
  with n show "n_kvStore (sample_node db) = list_store db" "is_leader (rn_Status sample_nd (sample_node db))"
    "ensureRunning (sample_node db) = None" "n_raftNode (sample_node db) = Some ()"
    by (simp_all add: sample_node_def sample_nd_def raft_registryNode_def node_Status_def is_leader_def ensureRunning_def)
qed

lemma list_store_live: "ps_live (list_store db)"
  by (rule list_pebble_live) (simp_all add: list_store_def)

lemma sample_nd_ok: "raft_node sample_nd" "node_inv (sample_node db)"
proof -
  have "barrier_keeps (\<lambda>ctx n. (n, None))" by (simp add: barrier_keeps_def)
  then show "raft_node sample_nd" unfolding raft_node_def sample_nd_def by blast
qed (simp add: node_inv_def sample_node_parts)

lemma sample_Scan:
  "rn_Scan sample_nd a b l (sample_node db) = (sample_node db, Inr (limited l (entries (node_dir (sample_node db)) a b)))"
  by (simp add: sample_nd_def raft_registryNode_def node_Scan_def live_Scan [OF list_store_live] sample_node_parts node_dir_def)

lemma sample_Propose: "rn_ProposeCommand sample_nd c (sample_node db) = (sample_node db, None)"
  by (simp add: sample_nd_def raft_registryNode_def ProposeCommand_def Propose_def with_raft_def sample_node_parts
      sample_library_def)

lemma sample_dir:
  "list_all (\<lambda>(k, v). \<not> isMetaKey k) db \<Longrightarrow> node_dir (sample_node db) = map_of db"
proof -
  assume a: "list_all (\<lambda>(k, v). \<not> isMetaKey k) db"
  have "map_of db k = None" if "isMetaKey k" for k
    using a that by (induction db) auto
  then show ?thesis by (simp add: node_dir_def sample_node_parts ps_view_def fun_eq_iff)
qed

subsection \<open>Properties\<close>

text \<open>C6. A query answers from the whole directory. The handler scans only the prefix of the namespace or, for a single
  service, of that service; its reply is nevertheless the answer computed from every record of the directory, in the
  order of the keys and up to the limit: the instances that are alive at the time of the query and that the query
  selects, each with the endpoints it asks for. Only when there is none is the answer taken from the replicated
  directories. The directory is the one at the time of the scan, after its read barrier; during the barriers the
  node may do anything that keeps its database and every value under its own key.\<close>

theorem query_equals_directory:
  fixes nd :: "('db, 'ms, 'rn) RaftNode registryNode"
  assumes "raft_node nd" "node_inv n" "ParseQuery ul (rq_Query r) = Inr q" "rq_Method r = ''GET''"
    "QueryInstances nd ul now r n = (n2, reply)" "is_ok reply"
  shows "\<exists>n1 items. rn_Scan nd (scan_prefix q) (prefixUpperBound (scan_prefix q)) 0 n = (n1, Inr items) \<and>
    (directory_ok (node_dir n1) \<longrightarrow>
      (if local_answer q now (node_dir n1) \<noteq> []
       then n2 = n1 \<and> reply = writeOK [] (Some (local_answer q now (node_dir n1)))
       else reply = writeOK [] (Some (replica_answer q now (node_dir n2)))))"
  using rn.query_ok [OF assms] by blast

definition sample_query :: http_request where
  "sample_query = \<lparr>rq_Method = ''GET'', rq_Query = [(''namespace'', [''prod'']), (''service'', ['' orders''])], rq_Header = [],
     rq_Body = []\<rparr>"

definition sample_q :: Query where
  "sample_q = \<lparr>q_Namespace = ''prod'', q_Service = ''orders'', q_Services = [''orders''], q_ServicePrefixes = [],
     q_Zone = [], q_Endpoint = [], q_Selector = [], q_Limit = 0\<rparr>"

lemma sample_parse: "ParseQuery id (rq_Query sample_query) = Inr sample_q"
  by code_simp

abbreviation sample_value :: Value where
  "sample_value \<equiv> NewValue (sample_normal ''prod'' ''orders'' 15) 1000"

lemma sample_value_facts:
  "good_value sample_value" "query_selects sample_q sample_value" "IsAlive sample_value 1010" "\<not> IsAlive sample_value 1016"
  "key_of sample_value = ''/registry/prod/orders/i1''"
proof -
  show "good_value sample_value"
    by (simp add: good_value_def text_value_iff NewValue_def sample_normal_def sample_input_def sample_endpoint_def
        CloneStringMap_def is_i64_def EffectiveLeaseTTLSeconds_def typed_endpoint_def utf8_endpoint_def utf8_def
        sanitize_ascii is_ascii_def i32_def) code_simp
  have "TrimSpace ''orders'' = ''orders''" by code_simp
  then show "query_selects sample_q sample_value"
    by (simp add: query_selects_def service_matches_def NewValue_def sample_normal_def sample_input_def sample_q_def)
qed (code_simp, code_simp, simp add: key_of_def Key_def RootPrefix_def NewValue_def sample_normal_def sample_input_def)

lemma sample_directory:
  "node_dir (sample_node [(key_of sample_value, marshal_value sample_value)]) = [key_of sample_value \<mapsto> marshal_value sample_value]"
  "directory_ok [key_of sample_value \<mapsto> marshal_value sample_value]"
proof -
  show "node_dir (sample_node [(key_of sample_value, marshal_value sample_value)]) = [key_of sample_value \<mapsto> marshal_value sample_value]"
    by (subst sample_dir) (simp_all add: meta_not_root key_of_root)
  have "directory_ok Map.empty" by (simp add: directory_ok_def stored_def)
  from registry_command_keeps [OF registration_good [OF sample_value_facts(1)] this]
  show "directory_ok [key_of sample_value \<mapsto> marshal_value sample_value]" by simp
qed

lemma sample_answer:
  "local_answer sample_q 1010 [key_of sample_value \<mapsto> marshal_value sample_value] = [answer_of sample_q (sort_maps sample_value)]"
proof -
  have "directory [key_of sample_value \<mapsto> marshal_value sample_value] = [\<lparr>kv_Key = key_of sample_value, kv_Value = marshal_value sample_value\<rparr>]"
    by (simp add: directory_def entries_def key_of_root)
  moreover have "wanted sample_q 1010 \<lparr>kv_Key = key_of sample_value, kv_Value = marshal_value sample_value\<rparr> =
      Some (answer_of sample_q (sort_maps sample_value))"
    using sample_value_facts by (simp add: wanted_iff text_value_roundtrip good_value_def sort_maps_selects)
  ultimately show ?thesis by (simp add: local_answer_def limited_def sample_q_def [THEN arg_cong, of q_Limit] map_filter_simps)
qed

theorem query_equals_directory_witness:
  "\<exists>n2. QueryInstances sample_nd id 1010 sample_query (sample_node [(key_of sample_value, marshal_value sample_value)]) =
     (n2, writeOK [] (Some [answer_of sample_q (sort_maps sample_value)]))"
proof -
  let ?n = "sample_node [(key_of sample_value, marshal_value sample_value)]"
  obtain n2 reply where run: "QueryInstances sample_nd id 1010 sample_query ?n = (n2, reply)" by fastforce
  have get: "rq_Method sample_query = ''GET''" by (simp add: sample_query_def)
  have "is_ok reply"
    using run sample_parse
    by (auto simp: QueryInstances_def allowMethod_def get prefixRange_def sample_Scan collect_all
        local_instance_parsed [OF sample_parse] replicated_instance_parsed [OF sample_parse] instances_reply_def
        queryReplicatedInstances_def Let_def split: if_splits)
  from query_equals_directory [OF sample_nd_ok sample_parse get run this] sample_directory sample_answer run
  show ?thesis by (auto simp: sample_Scan)
qed


definition sample_body :: json where
  "sample_body = JObj [(''namespace'', JStr '' prod''), (''service'', JStr ''orders''), (''instanceId'', JStr ''i1''),
     (''endpoints'', JArr [JObj [(''protocol'', JStr ''http''), (''host'', JStr '' h ''), (''port'', JNum ''80'')]]),
     (''leaseTtlSeconds'', JNum ''15'')]"

definition sample_register :: http_request where
  "sample_register = \<lparr>rq_Method = ''POST'', rq_Query = [], rq_Header = [], rq_Body = enc_json sample_body @ [CHR 0x0A]\<rparr>"

lemma sample_accepted: "accepted_registration sample_register = Some (sample_normal ''prod'' ''orders'' 15)"
proof -
  have "wf_json sample_body \<and> clean_json sample_body = sample_body"
    by (simp add: sample_body_def int_literal_def is_digit_def sanitize_ascii is_ascii_def)
  then have "decodeJSONBody register_fields sample_register zero_register = into_known_struct register_fields sample_body zero_register"
    by (simp add: decodeJSONBody_def Decode_def sample_register_def parse_json_enc_json)
  also have "\<dots> = Some (sample_input '' prod'' ''orders'' 15)" by code_simp
  finally have d: "decodeJSONBody register_fields sample_register zero_register = Some (sample_input '' prod'' ''orders'' 15)" .
  have "NormalizeRegisterInput (sample_input '' prod'' ''orders'' 15) = Inr (sample_normal ''prod'' ''orders'' 15)"
  proof -
    have "NormalizeRegisterInput (sample_input ''prod'' ''orders'' 15) = Inr (sample_normal ''prod'' ''orders'' 15)"
      by (rule sample_normalizes) (code_simp, code_simp, simp_all)
    moreover have "TrimSpace '' prod'' = ''prod''" "TrimSpace ''prod'' = ''prod''" by code_simp+
    ultimately show ?thesis by (simp add: NormalizeRegisterInput_def sample_input_def sample_normal_def ri_identity_def)
  qed
  with d show ?thesis
    by (simp add: accepted_registration_def sample_register_def sample_normal_def sample_input_def)
qed

lemma sample_registers:
  "Register (recording sample_nd) sample_api 1000 sample_register (sample_node [], []) =
     ((sample_node [], [registration (sample_normal ''prod'' ''orders'' 15) 1000]), writeOK ''instance registered'' None)"
  by (simp add: Register_accepted [OF sample_accepted] ensureWritable_def sample_node_parts sample_Propose propose_reply_cases)


definition redirect :: "RegistryAPI \<Rightarrow> Status \<Rightarrow> 'd reply" where
  "redirect h status =
     writeNotLeader (st_LeaderID status) (leaderHTTPAddr (h_httpAddr h) (h_book h) status (st_LeaderID status))"



text \<open>C8. Every write keeps the directory in order. Each of the three writing handlers proposes at most one command, exactly
  one when it answers with success, and only on the leader; whatever the directory is when the command is
  applied, if every value is under its own key before, so it is after, and no command touches the metadata. For the
  heartbeat, which writes back what it has read, this relies on the directory being in order when it is read.\<close>

theorem writes_keep_directory:
  fixes nd :: "('db, 'ms, 'rn) RaftNode registryNode"
  assumes "raft_node nd" "node_inv n" "is_i64 now" "\<forall>k. directory_ok (node_dir (fst (rn_Get nd k n)))"
    "run \<in> {Register (recording nd) h now r (n, []), Deregister (recording nd) h r (n, []),
      Heartbeat (recording nd) h now r (n, [])}"
  shows "length (snd (fst run)) \<le> 1 \<and> (is_ok (snd run) \<longrightarrow> length (snd (fst run)) = 1) \<and>
     (snd (fst run) \<noteq> [] \<longrightarrow> is_leader (rn_Status nd n)) \<and>
     (\<forall>c \<in> set (snd (fst run)). \<forall>m. directory_ok m \<longrightarrow> directory_ok (ps_exec c m))"
proof -
  obtain n' cs' reply where run: "run = ((n', cs'), reply)" by (metis prod.exhaust_sel)
  have dir: "directory_ok (node_dir n1)" if "rn_Get nd k n = (n1, v)" for k n1 v using assms(4) that by (metis fst_conv)
  have "\<exists>new. cs' = [] @ new \<and> length new \<le> 1 \<and> list_all registry_command new \<and>
     (new \<noteq> [] \<longrightarrow> is_leader (rn_Status nd n)) \<and> (is_ok reply \<longrightarrow> new \<noteq> [])"
    using assms(5) unfolding run
  proof (elim insertE emptyE)
    assume "((n', cs'), reply) = Register (recording nd) h now r (n, [])"
    from rn.register_proposes [OF this [symmetric] assms(3)] show ?thesis .
  next
    assume "((n', cs'), reply) = Deregister (recording nd) h r (n, [])"
    from rn.deregister_proposes [OF this [symmetric]] show ?thesis .
  next
    assume "((n', cs'), reply) = Heartbeat (recording nd) h now r (n, [])"
    from rn.heartbeat_proposes [OF assms(1,2) this [symmetric] assms(3) dir] show ?thesis .
  qed
  then show ?thesis using registry_command_keeps by (cases cs') (auto simp: run list_all_iff le_Suc_eq)
qed

theorem writes_keep_directory_witness:
  "\<exists>c. Register (recording sample_nd) sample_api 1000 sample_register (sample_node [], []) =
       ((sample_node [], [c]), writeOK ''instance registered'' None) \<and> directory_ok (ps_exec c Map.empty)"
proof -
  have g: "fst (rn_Get sample_nd k (sample_node [])) = sample_node []" for k
    by (simp add: sample_nd_def raft_registryNode_def)
  have e: "directory_ok Map.empty" by (simp add: directory_ok_def stored_def)
  have d: "\<forall>k. directory_ok (node_dir (fst (rn_Get sample_nd k (sample_node []))))"
    using sample_dir [of "[]"] by (simp add: g e)
  have i: "is_i64 1000" by (simp add: is_i64_def)
  from writes_keep_directory [OF sample_nd_ok i d insertI1, of sample_api sample_register] e show ?thesis
    by (simp add: sample_registers)
qed

text \<open>C20. The effect of a heartbeat. A heartbeat that is answered with success has found the instance in the directory it
  read, and the command it proposed stores, whatever the directory is when it is applied, the instance it read with the
  new heartbeat time and lease: alive up to and including \<open>now\<close> plus the lease and not after. It does so also when the
  instance has been deregistered or replaced since the read: the deregistered instance is back, and a newer
  registration under the same key is undone.\<close>

theorem heartbeat_effect:
  fixes nd :: "('db, 'ms, 'rn) RaftNode registryNode"
  assumes "raft_node nd" "node_inv n" "is_i64 now" "0 < now"
    "Heartbeat (recording nd) h now r (n, cs) = ((n', cs'), reply)" "is_ok reply"
  shows "\<exists>key ttl n1 d v c lease. accepted_heartbeat r = Some (key, ttl) \<and> rn_Get nd key n = (n1, Inr d) \<and>
     stored (node_dir n1) key = Some v \<and> cs' = cs @ [c] \<and>
     lease = (if ttl > 0 then ttl else EffectiveLeaseTTLSeconds (v_LeaseTTLSeconds v)) \<and>
     (\<forall>m. \<exists>w. stored (ps_exec c m) key = Some w \<and>
        w = sort_maps (v\<lparr>v_LastHeartbeatUnix := now, v_LeaseTTLSeconds := lease\<rparr>) \<and>
        (now + lease < 2 ^ 63 \<longrightarrow> (\<forall>t. IsAlive w t \<longleftrightarrow> t \<le> now + lease)))"
proof -
  obtain key ttl where a: "accepted_heartbeat r = Some (key, ttl)"
    using Heartbeat_refused [of r "recording nd" h now "(n, cs)"] assms(5,6) by (cases "accepted_heartbeat r") auto
  note hb = Heartbeat_accepted [OF a]
  obtain n1 d v where g: "rn_Get nd key n = (n1, Inr d)" "d \<noteq> []" "unmarshal_value d = Some v"
    and cs: "cs' = cs @ [put_command key (marshal_value (renewed ttl now v))]"
    using assms(5,6)
    by (auto simp: hb(1) ensureWritable_def propose_reply_cases split: if_splits prod.splits option.splits sum.splits)
  from rn.get_ok [OF assms(1,2) meta_not_root [OF hb(4)] g(1)] g(2,3) have st: "stored (node_dir n1) key = Some v"
    by (auto simp: stored_def or_empty_def split: option.splits)
  let ?l = "if ttl > 0 then ttl else EffectiveLeaseTTLSeconds (v_LeaseTTLSeconds v)"
  have ren: "renewed ttl now v = v\<lparr>v_LastHeartbeatUnix := now, v_LeaseTTLSeconds := ?l\<rparr>"
    by (cases v) (simp add: renewed_def EffectiveLeaseTTLSeconds_def Let_def)
  have tv: "text_value (renewed ttl now v)"
    using decoded_value [OF g(3)] hb(2) assms(3) by (auto simp: text_value_iff renewed_def Let_def is_i64_lease)
  have l: "0 < ?l" by (simp add: EffectiveLeaseTTLSeconds_def DefaultLeaseTTLSeconds_def)
  have alive: "IsAlive (renewed ttl now v) t \<longleftrightarrow> t \<le> now + ?l" if "now + ?l < 2 ^ 63" for t
  proof -
    have "EffectiveLeaseTTLSeconds ?l = ?l" using l by (simp add: EffectiveLeaseTTLSeconds_def)
    moreover have "wrap_i64 (now + ?l) = now + ?l"
      using that assms(4) l by (intro wrap_i64_id) (simp add: is_i64_def)
    ultimately show ?thesis using assms(4) l unfolding ren by (simp add: IsAlive_def Let_def)
  qed
  have "\<exists>w. stored (ps_exec (put_command key (marshal_value (renewed ttl now v))) m) key = Some w \<and>
      w = sort_maps (v\<lparr>v_LastHeartbeatUnix := now, v_LeaseTTLSeconds := ?l\<rparr>) \<and>
      (now + ?l < 2 ^ 63 \<longrightarrow> (\<forall>t. IsAlive w t \<longleftrightarrow> t \<le> now + ?l))" for m
    using alive text_value_roundtrip [OF tv] unfolding ren by (simp add: stored_def)
  with a g(1) st cs show ?thesis by blast
qed

definition sample_beat :: json where
  "sample_beat = JObj [(''namespace'', JStr ''prod''), (''service'', JStr ''orders''), (''instanceId'', JStr ''i1''),
     (''leaseTtlSeconds'', JNum ''20'')]"

definition sample_heartbeat :: http_request where
  "sample_heartbeat = \<lparr>rq_Method = ''POST'', rq_Query = [], rq_Header = [], rq_Body = enc_json sample_beat @ [CHR 0x0A]\<rparr>"

lemma sample_heartbeat_accepted: "accepted_heartbeat sample_heartbeat = Some (key_of sample_value, 20)"
proof -
  have "wf_json sample_beat \<and> clean_json sample_beat = sample_beat"
    by (simp add: sample_beat_def int_literal_def is_digit_def sanitize_ascii is_ascii_def)
  then have "decodeJSONBody heartbeat_fields sample_heartbeat zero_heartbeat = into_known_struct heartbeat_fields sample_beat zero_heartbeat"
    by (simp add: decodeJSONBody_def Decode_def sample_heartbeat_def parse_json_enc_json)
  also have "\<dots> = Some \<lparr>hr_Namespace = ''prod'', hr_Service = ''orders'', hr_Organization = [], hr_BusinessDomain = [],
     hr_CapabilityDomain = [], hr_Application = [], hr_Role = [], hr_InstanceID = ''i1'', hr_LeaseTTLSeconds = 20\<rparr>"
    by code_simp
  finally have d: "decodeJSONBody heartbeat_fields sample_heartbeat zero_heartbeat = \<dots>" .
  have "NormalizeStructuredServiceIdentity \<lparr>si_service = ''orders'', si_organization = [], si_businessDomain = [],
      si_capabilityDomain = [], si_application = [], si_role = []\<rparr> =
    Inr \<lparr>si_service = ''orders'', si_organization = [], si_businessDomain = [], si_capabilityDomain = [],
      si_application = [], si_role = []\<rparr>" "TrimSpace ''prod'' = ''prod''" "TrimSpace ''i1'' = ''i1''"
    by code_simp+
  then show ?thesis
    by (simp add: accepted_heartbeat_def d) (simp add: sample_heartbeat_def hr_identity_def Key_def RootPrefix_def sample_value_facts)
qed

lemma sample_Get: "rn_Get sample_nd k (sample_node db) = (sample_node db, Inr (or_empty (map_of db k)))"
  by (simp add: sample_nd_def raft_registryNode_def node_Get_def sample_node_parts ps_Get_def getDB_def list_store_def
      list_pebble_def or_empty_def split: option.split)

lemma marshal_ne: "marshal_value v \<noteq> []"
  by (simp add: marshal_value_def Marshal_def value_to_json_def)

theorem heartbeat_effect_witness:
  "\<exists>n' c w. Heartbeat (recording sample_nd) sample_api 1010 sample_heartbeat
       (sample_node [(key_of sample_value, marshal_value sample_value)], []) =
       ((n', [c]), writeOK ''heartbeat accepted'' None) \<and>
     stored (ps_exec c (ps_exec (delete_command (key_of sample_value)) Map.empty)) (key_of sample_value) = Some w \<and>
     IsAlive w 1030 \<and> \<not> IsAlive w 1031"
proof -
  let ?n = "sample_node [(key_of sample_value, marshal_value sample_value)]"
  have u: "unmarshal_value (marshal_value sample_value) = Some (sort_maps sample_value)"
    using sample_value_facts(1) by (simp add: text_value_roundtrip good_value_def)
  have run: "Heartbeat (recording sample_nd) sample_api 1010 sample_heartbeat (?n, []) =
      ((?n, [put_command (key_of sample_value) (marshal_value (renewed 20 1010 (sort_maps sample_value)))]),
       writeOK ''heartbeat accepted'' None)"
    by (simp add: Heartbeat_accepted(1) [OF sample_heartbeat_accepted] ensureWritable_def sample_node_parts sample_Get
        or_empty_def marshal_ne u sample_Propose propose_reply_cases)
  have i: "is_i64 1010" "(0::int) < 1010" by (simp_all add: is_i64_def)
  from heartbeat_effect [OF sample_nd_ok i run is_ok_simps(3)] obtain key ttl c lease where
    k: "accepted_heartbeat sample_heartbeat = Some (key, ttl)"
    and c: "[put_command (key_of sample_value) (marshal_value (renewed 20 1010 (sort_maps sample_value)))] = [] @ [c]"
    and lease: "0 < ttl \<Longrightarrow> lease = ttl"
    and w: "\<And>m. \<exists>w. stored (ps_exec c m) key = Some w \<and> (1010 + lease < 2 ^ 63 \<longrightarrow> (\<forall>t. IsAlive w t \<longleftrightarrow> t \<le> 1010 + lease))"
    by (elim exE conjE) (metis (no_types, lifting))
  have "key = key_of sample_value" "ttl = 20" using k sample_heartbeat_accepted by simp_all
  with w [of "ps_exec (delete_command (key_of sample_value)) Map.empty"] lease c run show ?thesis by auto
qed

end
