(* ===== verification/Watch_Stream.thy ===== *)
theory Watch_Stream
  imports App_Events Directory_Props
begin

text \<open>
  A watch stream as its client sees it: the frames carry a view of the selected instances from the state of the snapshot to the
  state of the whole log. The locale \<open>Watch_Client\<close> is what a client does with frames; it is interpreted on the plain view
  below and on the mirror of another region.
\<close>

subsection \<open>The frames of a list of events\<close>

definition event_frame :: "(WatchEvent \<Rightarrow> 'p option option) \<Rightarrow> ('p \<Rightarrow> bytes) \<Rightarrow> WatchEvent \<Rightarrow> 'p stream_frame list" where
  "event_frame dto ty e = (case dto e of Some (Some p) \<Rightarrow> [Frame (we_Revision e) (ty p) p] | _ \<Rightarrow> [])"

definition event_frames :: "(WatchEvent \<Rightarrow> 'p option option) \<Rightarrow> ('p \<Rightarrow> bytes) \<Rightarrow> WatchEvent list \<Rightarrow> 'p stream_frame list" where
  "event_frames dto ty es = concat (map (event_frame dto ty) es)"

lemma event_frames_simps [simp]:
  "event_frames dto ty [] = []" "event_frames dto ty (e # es) = event_frame dto ty e @ event_frames dto ty es"
  "event_frames dto ty (es @ es') = event_frames dto ty es @ event_frames dto ty es'"
  by (simp_all add: event_frames_def)

fun input_events :: "watch_input list \<Rightarrow> WatchEvent list" where
  "input_events [] = []"
| "input_events (Event e # is) = e # input_events is"
| "input_events (_ # is) = input_events is"

lemma replay_frames_eq:
  assumes "\<And>e. dto e \<noteq> None"
  shows "\<exists>r. replay_frames dto ty es out r0 = Some (out @ event_frames dto ty es, r) \<and>
    (r = r0 \<or> r \<in> we_Revision ` set es)"
proof (induction es arbitrary: out r0)
  case (Cons e es)
  obtain x where "dto e = Some x" using assms [of e] by blast
  show ?case
  proof (cases x)
    case None
    with \<open>dto e = Some x\<close> Cons [of out r0] show ?thesis by (auto simp: event_frame_def)
  next
    case (Some p)
    with \<open>dto e = Some x\<close> Cons [of "out @ [Frame (we_Revision e) (ty p) p]" "we_Revision e"] show ?thesis
      by (auto simp: event_frame_def)
  qed
qed simp

text \<open>The loop drops the events up to the revision it has reached, which in an ordered stream are those before its start.\<close>

lemma watch_loop_frames:
  assumes "\<And>e. dto e \<noteq> None" "sorted_wrt (<) (map we_Revision (input_events is))" "Finished \<notin> set is"
  shows "filter (\<lambda>f. f \<noteq> Ping) (watch_loop dto ty r is) = event_frames dto ty (filter (\<lambda>e. r < we_Revision e) (input_events is))"
  using assms(2,3)
proof (induction "is" arbitrary: r)
  case (Cons i "is")
  show ?case
  proof (cases i)
    case (Event e)
    obtain x where x: "dto e = Some x" using assms(1) [of e] by blast
    have later: "filter (\<lambda>w. we_Revision e < we_Revision w) (input_events is) = filter (\<lambda>w. r < we_Revision w) (input_events is)"
      if "r < we_Revision e"
      using Cons.prems(1) that by (intro filter_cong) (auto simp: Event)
    show ?thesis
      using Cons later by (cases x) (auto simp: Event x event_frame_def)
  qed (use Cons in simp_all)
qed simp

subsection \<open>Clients\<close>

definition pair_of :: "RegistryInstanceDTO \<Rightarrow> bytes \<times> bytes" where
  "pair_of d = (id_Service d, id_InstanceID d)"

text \<open>
  A client keeps something for each pair of service and instance identifier of the watched namespace. \<open>shows s p d\<close> says that
  its state \<open>s\<close> presents \<open>d\<close> for the pair \<open>p\<close>. \<open>ok\<close> limits the payloads to those the client can take.
\<close>

locale Watch_Client =
  fixes client :: "RegistryWatchEventDTO stream_frame \<Rightarrow> 's \<Rightarrow> 's"
    and presents :: "'s \<Rightarrow> bytes \<times> bytes \<Rightarrow> RegistryInstanceDTO option \<Rightarrow> bool"
    and ok :: "RegistryInstanceDTO \<Rightarrow> bool"
    and pair_ok :: "bytes \<times> bytes \<Rightarrow> bool"
  assumes ping: "client Ping s = s"
    and upsert_same: "rw_Type e = event_type_name WatchEventUpsert \<Longrightarrow> rw_Instance e = Some d \<Longrightarrow> ok d \<Longrightarrow>
      pair_of d = (rw_Service e, rw_InstanceID e) \<Longrightarrow> presents (client (Frame r (rw_Type e) e) s) (pair_of d) (Some d)"
    and upsert_other: "rw_Type e = event_type_name WatchEventUpsert \<Longrightarrow> rw_Instance e = Some d \<Longrightarrow> ok d \<Longrightarrow>
      pair_of d = (rw_Service e, rw_InstanceID e) \<Longrightarrow> pair_ok p \<Longrightarrow> p \<noteq> pair_of d \<Longrightarrow>
      presents (client (Frame r (rw_Type e) e) s) p x \<longleftrightarrow> presents s p x"
    and delete_same: "rw_Type e = event_type_name WatchEventDelete \<Longrightarrow> pair_ok (rw_Service e, rw_InstanceID e) \<Longrightarrow>
      presents (client (Frame r (rw_Type e) e) s) (rw_Service e, rw_InstanceID e) None"
    and delete_other: "rw_Type e = event_type_name WatchEventDelete \<Longrightarrow> pair_ok p \<Longrightarrow> pair_ok (rw_Service e, rw_InstanceID e) \<Longrightarrow>
      p \<noteq> (rw_Service e, rw_InstanceID e) \<Longrightarrow> presents (client (Frame r (rw_Type e) e) s) p x \<longleftrightarrow> presents s p x"
    and snapshot: "rw_Type e = ''snapshot'' \<Longrightarrow> list_all ok (rw_Instances e) \<Longrightarrow> pair_ok p \<Longrightarrow>
      {d \<in> set (rw_Instances e). pair_of d = p} = set_option x \<Longrightarrow> presents (client (Frame r (rw_Type e) e) s) p x"

subsection \<open>Commands and keys\<close>

text \<open>
  The commands of the program as the streams see them: prefixes are deleted only in the replicated directories.
\<close>

definition watched_command :: "Command \<Rightarrow> bool" where
  "watched_command c \<longleftrightarrow> registry_command c \<and>
     (cmd_Operation c = OperationDeletePrefix \<longrightarrow> HasPrefix (cmd_Prefix c) ReplicationRootPrefix)"

definition watched_log :: "Entry list \<Rightarrow> bool" where
  "watched_log es \<longleftrightarrow> (\<forall>e \<in> set es. \<forall>c. entry_command e = Some c \<longrightarrow> watched_command c)"

lemma watched_log_simps [simp]:
  "watched_log []" "watched_log (es @ es') \<longleftrightarrow> watched_log es \<and> watched_log es'"
  "watched_log (e # es) \<longleftrightarrow> (\<forall>c. entry_command e = Some c \<longrightarrow> watched_command c) \<and> watched_log es"
  by (auto simp: watched_log_def)

lemma watched_log_keeps:
  "watched_log es \<Longrightarrow> directory_ok m \<Longrightarrow> finite (dom m) \<Longrightarrow> directory_ok (log_exec es m) \<and> finite (dom (log_exec es m))"
proof (induction es arbitrary: m)
  case (Cons e es)
  then have "directory_ok (entry_exec e m) \<and> finite (dom (entry_exec e m))"
    by (auto simp: entry_exec_def watched_command_def registry_command_keeps finite_exec split: option.split)
  with Cons show ?case by simp
qed simp

lemma ps_exec_watched:
  assumes "watched_command c" "HasPrefix k RootPrefix"
  shows "ps_exec c m k =
    (if cmd_Key c = k \<and> cmd_Operation c = OperationPut then Some (cmd_Value c)
     else if cmd_Key c = k \<and> cmd_Operation c = OperationDelete then None else m k)"
proof -
  have "\<not> (HasPrefix (cmd_Prefix c) ReplicationRootPrefix \<and> HasPrefix k (cmd_Prefix c))"
    using assms(2) by (auto simp: HasPrefix_iff RootPrefix_def ReplicationRootPrefix_def)
  with assms(1) show ?thesis
    by (auto simp: ps_exec_def command_batch_def watched_command_def prefix_range)
qed

text \<open>A value under a key that parses has the parts of the key.\<close>

lemma key_of_parts:
  assumes "ParseKey (Key n s i) = Some (n, s, i)" "key_of v = Key n s i"
  shows "v_Namespace v = n \<and> v_Service v = s \<and> v_InstanceID v = i"
proof -
  have c: "count_list t (CHR ''/'') = 0 \<longleftrightarrow> CHR ''/'' \<notin> set t" for t by (simp add: count_list_0_iff)
  have slash: "CHR ''/'' \<notin> set n" "CHR ''/'' \<notin> set s" "CHR ''/'' \<notin> set i" using assms(1) by (auto simp: ParseKey_iff)
  have eq: "v_Namespace v @ CHR ''/'' # v_Service v @ CHR ''/'' # v_InstanceID v = n @ CHR ''/'' # s @ CHR ''/'' # i"
    using assms(2) by (simp add: key_of_def Key_def)
  then have "count_list (v_Namespace v @ CHR ''/'' # v_Service v @ CHR ''/'' # v_InstanceID v) (CHR ''/'') =
      count_list (n @ CHR ''/'' # s @ CHR ''/'' # i) (CHR ''/'')" by simp
  then have "count_list (v_Namespace v) (CHR ''/'') + (count_list (v_Service v) (CHR ''/'') + count_list (v_InstanceID v) (CHR ''/'')) = 0"
    using slash by simp
  then have "CHR ''/'' \<notin> set (v_Namespace v)" "CHR ''/'' \<notin> set (v_Service v)" "CHR ''/'' \<notin> set (v_InstanceID v)"
    by (simp_all add: c)
  then have "Split (v_Namespace v @ CHR ''/'' # v_Service v @ CHR ''/'' # v_InstanceID v) (CHR ''/'') =
      [v_Namespace v, v_Service v, v_InstanceID v]" by (simp add: Split_append_sep Split_no_sep)
  moreover have "Split (n @ CHR ''/'' # s @ CHR ''/'' # i) (CHR ''/'') = [n, s, i]"
    using slash by (simp add: Split_append_sep Split_no_sep)
  ultimately have "[v_Namespace v, v_Service v, v_InstanceID v] = [n, s, i]" unfolding eq by (rule subst)
  then show ?thesis by simp
qed


text \<open>What a stream at time \<open>t\<close> should present for a pair.\<close>

definition cell :: "Query \<Rightarrow> int \<Rightarrow> (bytes \<rightharpoonup> bytes) \<Rightarrow> bytes \<times> bytes \<Rightarrow> RegistryInstanceDTO option" where
  "cell q t m p = (case stored m (Key (q_Namespace q) (fst p) (snd p)) of None \<Rightarrow> None | Some v \<Rightarrow> selected q t v)"

definition plain_pair :: "Query \<Rightarrow> bytes \<times> bytes \<Rightarrow> bool" where
  "plain_pair q p \<longleftrightarrow> ParseKey (Key (q_Namespace q) (fst p) (snd p)) = Some (q_Namespace q, fst p, snd p)"

lemma selected_ids: "selected q t v = Some d \<Longrightarrow> pair_of d = (v_Service v, v_InstanceID v) \<and> v_Namespace v = q_Namespace q"
  by (auto simp: selected_def pair_of_def query_selects_def split: if_splits)

text \<open>The snapshot presents the right cells.\<close>

lemma snapshot_cells:
  assumes "ParseQuery ul values = Inr q" "directory_ok m" "finite (dom m)" "plain_pair q p"
  shows "{d \<in> set (List.map_filter (wanted q t) (directory m)). pair_of d = p} = set_option (cell q t m p)"
  (is "?l = ?r")
proof -
  let ?k = "Key (q_Namespace q) (fst p) (snd p)"
  have root: "HasPrefix ?k RootPrefix" by (simp add: Key_def HasPrefix_iff)
  have items: "i \<in> set (directory m) \<longleftrightarrow> HasPrefix (kv_Key i) RootPrefix \<and> m (kv_Key i) = Some (kv_Value i)" for i
    using set_entries [OF assms(3), of "[]" "[]"] by (cases i) (auto simp: directory_def)
  show ?thesis
  proof (intro set_eqI iffI)
    fix d assume "d \<in> ?l"
    then obtain i v where i: "i \<in> set (directory m)" "unmarshal_value (kv_Value i) = Some v" "selected q t v = Some d" "pair_of d = p"
      by (auto simp: set_map_filter wanted_def split: option.splits)
    then have st: "stored m (kv_Key i) = Some v" "HasPrefix (kv_Key i) RootPrefix" by (simp_all add: items stored_def)
    with directory_okD [OF assms(2) st(2,1)] selected_ids [OF i(3)] i(4) have "kv_Key i = ?k" by (auto simp: key_of_def)
    with st i(3) show "d \<in> ?r" by (simp add: cell_def)
  next
    fix d assume "d \<in> ?r"
    then obtain v where v: "stored m ?k = Some v" "selected q t v = Some d" by (auto simp: cell_def split: option.splits)
    then obtain b where b: "m ?k = Some b" "unmarshal_value b = Some v" by (auto simp: stored_iff)
    let ?i = "\<lparr>kv_Key = ?k, kv_Value = b\<rparr>"
    have "?i \<in> set (directory m)" by (simp add: items b root)
    moreover have "wanted q t ?i = Some d" by (simp add: wanted_def b v)
    moreover have "key_of v = ?k" using directory_okD [OF assms(2) root v(1)] by simp
    with key_of_parts [OF assms(4) [unfolded plain_pair_def]] selected_ids [OF v(2)] have "pair_of d = p" by simp
    ultimately show "d \<in> ?l" by (auto simp: set_map_filter)
  qed
qed


text \<open>What one entry does to a cell.\<close>

lemma cell_other:
  assumes "watched_command c" "cmd_Key c \<noteq> Key (q_Namespace q) (fst p) (snd p) \<or> cmd_Operation c \<notin> {OperationPut, OperationDelete}"
  shows "cell q t (ps_exec c m) p = cell q t m p"
proof -
  have "HasPrefix (Key (q_Namespace q) (fst p) (snd p)) RootPrefix" by (simp add: Key_def HasPrefix_iff)
  from ps_exec_watched [OF assms(1) this, of m] assms(2) show ?thesis by (auto simp: cell_def stored_def)
qed

lemma Put_not_Delete [simp]: "OperationPut \<noteq> OperationDelete" "OperationDelete \<noteq> OperationPut"
  "OperationPut \<noteq> OperationDeletePrefix" "OperationDelete \<noteq> OperationDeletePrefix"
  by (simp_all add: OperationPut_def OperationDelete_def OperationDeletePrefix_def)

text \<open>The event of a command on a key that parses.\<close>

lemma event_cases:
  assumes "entry_command e = Some c" "watched_command c" "registry_event (log_entry e) = Some w"
  shows "ParseKey (cmd_Key c) = Some (we_Namespace w, we_Service w, we_InstanceID w) \<and> we_Revision w = e_Index e \<and>
    (cmd_Operation c = OperationPut \<and> we_Type w = WatchEventUpsert \<and>
       (\<exists>v. we_Value w = Some v \<and> unmarshal_value (cmd_Value c) = Some v \<and> v_Namespace v = we_Namespace w \<and>
          v_Service v = we_Service w \<and> v_InstanceID v = we_InstanceID w \<and> trimmed (v_Service v)) \<or>
     cmd_Operation c = OperationDelete \<and> we_Type w = WatchEventDelete)"
proof -
  have d: "e_Type e = EntryNormal" "e_Data e \<noteq> []" "decode_command (e_Data e) = Some c"
    using assms(1) by (auto simp: entry_command_def split: if_splits)
  obtain n s i where k: "ParseKey (cmd_Key c) = Some (n, s, i)"
    using assms(3) d by (auto simp: registry_event_def log_entry_def split: option.splits)
  then have key: "cmd_Key c = Key n s i" by (simp add: ParseKey_iff)
  have own: "v_Namespace v = n \<and> v_Service v = s \<and> v_InstanceID v = i \<and> trimmed (v_Service v)"
    if op: "cmd_Operation c = OperationPut" and v: "unmarshal_value (cmd_Value c) = Some v" for v
  proof -
    have "HasPrefix (cmd_Key c) RootPrefix" by (simp add: key Key_def HasPrefix_iff)
    then obtain u where u: "good_value u" "c = put_command (key_of u) (marshal_value u)"
      using assms(2) op by (auto simp: watched_command_def registry_command_def)
    then have "v = sort_maps u" "key_of u = Key n s i"
      using v key by (auto simp: put_command_def text_value_roundtrip good_value_def)
    with u(1) key_of_parts [of n s i v] k key show ?thesis by (simp add: good_value_def)
  qed
  from assms(3) d k own show ?thesis
    by (auto simp: registry_event_def log_entry_def Let_def split: if_splits option.splits)
qed

lemma no_event:
  assumes "entry_command e = Some c" "watched_command c" "registry_event (log_entry e) = None" "plain_pair q p"
  shows "cmd_Key c \<noteq> Key (q_Namespace q) (fst p) (snd p) \<or> cmd_Operation c \<notin> {OperationPut, OperationDelete}"
proof (rule ccontr)
  assume "\<not> ?thesis"
  then have c: "cmd_Key c = Key (q_Namespace q) (fst p) (snd p)" "cmd_Operation c = OperationPut \<or> cmd_Operation c = OperationDelete" by auto
  have d: "e_Type e = EntryNormal" "e_Data e \<noteq> []" "decode_command (e_Data e) = Some c"
    using assms(1) by (auto simp: entry_command_def split: if_splits)
  have "\<exists>v. unmarshal_value (cmd_Value c) = Some v" if op: "cmd_Operation c = OperationPut"
  proof -
    have "HasPrefix (cmd_Key c) RootPrefix" by (simp add: c Key_def HasPrefix_iff)
    then obtain u where "good_value u" "c = put_command (key_of u) (marshal_value u)"
      using assms(2) op by (auto simp: watched_command_def registry_command_def)
    then show ?thesis by (simp add: put_command_def text_value_roundtrip good_value_def)
  qed
  with c(2) have "registry_event (log_entry e) \<noteq> None"
    using d assms(4) by (cases p) (auto simp: registry_event_def log_entry_def c(1) plain_pair_def Let_def)
  with assms(3) show False by simp
qed


lemma cell_unmatched:
  assumes "directory_ok m" "plain_pair q p" "\<not> MatchServiceQuery (fst p) q"
  shows "cell q t m p = None"
proof (cases "stored m (Key (q_Namespace q) (fst p) (snd p))")
  case (Some v)
  have "HasPrefix (Key (q_Namespace q) (fst p) (snd p)) RootPrefix" by (simp add: Key_def HasPrefix_iff)
  from directory_okD [OF assms(1) this Some] key_of_parts [OF assms(2) [unfolded plain_pair_def]]
  have "v_Service v = fst p" by simp
  with assms(3) have "selected q t v = None" by (simp add: selected_def query_selects_def MatchServiceQuery_iff)
  with Some show ?thesis by (simp add: cell_def)
qed (simp add: cell_def)

lemma event_dto:
  assumes "ParseQuery ul values = Inr q"
  shows "registryWatchEventDTO q t w = Some
    (if we_Namespace w \<noteq> q_Namespace q \<or> \<not> MatchServiceQuery (we_Service w) q then None
     else case (we_Type w, we_Value w) of
       (WatchEventUpsert, Some v) \<Rightarrow> Some (case selected q t v of Some d \<Rightarrow> upsert_event w d | None \<Rightarrow> delete_event w)
     | _ \<Rightarrow> Some (delete_event w))"
  by (auto simp: registryWatchEventDTO_def registryInstanceDTO_parsed [OF assms] split: WatchEventType.split option.split)

lemma event_fields [simp]:
  "rw_Type (delete_event w) = event_type_name WatchEventDelete" "rw_Service (delete_event w) = we_Service w"
  "rw_InstanceID (delete_event w) = we_InstanceID w"
  "rw_Type (upsert_event w d) = event_type_name WatchEventUpsert" "rw_Service (upsert_event w d) = we_Service w"
  "rw_InstanceID (upsert_event w d) = we_InstanceID w" "rw_Instance (upsert_event w d) = Some d"
  "rw_Type (snapshot_event q r items) = ''snapshot''" "rw_Instances (snapshot_event q r items) = items"
  by (simp_all add: delete_event_def upsert_event_def snapshot_event_def split: prod.split)

lemma event_dto_type:
  "registryWatchEventDTO q t w = Some (Some x) \<Longrightarrow> rw_Type x \<noteq> ''snapshot''"
  by (auto simp: registryWatchEventDTO_def split: if_splits WatchEventType.splits option.splits)

text \<open>The frames of a watch by the query.\<close>

definition watch_frames :: "Query \<Rightarrow> (WatchEvent \<Rightarrow> int) \<Rightarrow> WatchEvent list \<Rightarrow> RegistryWatchEventDTO stream_frame list" where
  "watch_frames q clock = event_frames (\<lambda>w. registryWatchEventDTO q (clock w) w) rw_Type"

lemma watch_frames_simps [simp]:
  "watch_frames q clock [] = []" "watch_frames q clock (ws @ ws') = watch_frames q clock ws @ watch_frames q clock ws'"
  by (simp_all add: watch_frames_def)

text \<open>A stream whose events have been heard from a point before the revision: the events after the revision are its frames.\<close>

lemma heard_frames:
  assumes q: "ParseQuery ul values = Inr q" and log: "sorted_wrt (<) (map e_Index (prior @ mid @ after))"
    and r: "\<And>e. e \<in> set prior \<Longrightarrow> e_Index e \<le> r" "\<And>e. e \<in> set (mid @ after) \<Longrightarrow> r < e_Index e"
    and heard: "prior = early @ late" "input_events is = log_events (late @ mid @ after)" "Finished \<notin> set is"
  shows "filter (\<lambda>f. f \<noteq> Ping) (watch_loop (\<lambda>e. registryWatchEventDTO q (clock e) e) rw_Type r is) =
    watch_frames q clock (log_events (mid @ after))"
proof -
  have sorted: "sorted_wrt (<) (map we_Revision (input_events is))"
    using log_events_sorted [of "late @ mid @ after"] log by (simp add: heard sorted_wrt_append del: log_events_simps)
  show ?thesis
    using watch_loop_frames [OF _ sorted heard(3), of "\<lambda>e. registryWatchEventDTO q (clock e) e" rw_Type r]
      log_events_after [of late r "mid @ after"] r
    by (simp add: event_dto [OF q] watch_frames_def heard(1,2) del: log_events_simps)
qed

text \<open>Events and values that a client can take.\<close>

definition fits :: "(RegistryInstanceDTO \<Rightarrow> bool) \<Rightarrow> (bytes \<times> bytes \<Rightarrow> bool) \<Rightarrow> Query \<Rightarrow> WatchEvent \<Rightarrow> bool" where
  "fits ok pair_ok q w \<longleftrightarrow>
     (we_Namespace w = q_Namespace q \<and> MatchServiceQuery (we_Service w) q \<longrightarrow> pair_ok (we_Service w, we_InstanceID w)) \<and>
     (\<forall>v. we_Type w = WatchEventUpsert \<longrightarrow> we_Value w = Some v \<longrightarrow> query_selects q v \<longrightarrow> ok (answer_of q v))"

context Watch_Client
begin

text \<open>An event that is sent: the payload of its frame, and what the frame does to a pair.\<close>

lemma sent_step:
  assumes q: "ParseQuery ul values = Inr q" and p: "pair_ok p"
    and e: "entry_command e = Some c" "watched_command c" "registry_event (log_entry e) = Some w" "fits ok pair_ok q w"
    and matched: "we_Namespace w = q_Namespace q" "MatchServiceQuery (we_Service w) q"
  obtains x where "watch_frames q clock [w] = [x]"
    "p \<noteq> (we_Service w, we_InstanceID w) \<Longrightarrow> presents (client x s) p y \<longleftrightarrow> presents s p y"
    "p = (we_Service w, we_InstanceID w) \<Longrightarrow>
       presents (client x s) p (if cmd_Operation c = OperationPut then selected q (clock w) (the (unmarshal_value (cmd_Value c))) else None)"
proof -
  note ev = event_cases [OF e(1-3)]
  have po: "pair_ok (we_Service w, we_InstanceID w)" using e(4) matched by (simp add: fits_def)
  have up: "ok d \<and> pair_of d = (we_Service w, we_InstanceID w)"
    if "we_Type w = WatchEventUpsert" "we_Value w = Some v" "selected q (clock w) v = Some d" for v d
    using that e(4) selected_ids [OF that(3)] ev by (auto simp: fits_def selected_def split: if_splits)
  show thesis
  proof (cases "cmd_Operation c = OperationPut \<and> selected q (clock w) (the (unmarshal_value (cmd_Value c))) \<noteq> None")
    case True
    with ev obtain v d where v: "we_Type w = WatchEventUpsert" "we_Value w = Some v" "unmarshal_value (cmd_Value c) = Some v"
      "selected q (clock w) v = Some d" by auto
    let ?x = "Frame (we_Revision w) (rw_Type (upsert_event w d)) (upsert_event w d)"
    have "watch_frames q clock [w] = [?x]" using matched v by (simp add: watch_frames_def event_frame_def event_dto [OF q])
    with that [of ?x] up [OF v(1,2,4)] upsert_same [of "upsert_event w d" d] upsert_other [of "upsert_event w d" d p] p True v
    show thesis by auto
  next
    case False
    let ?x = "Frame (we_Revision w) (rw_Type (delete_event w)) (delete_event w)"
    have "watch_frames q clock [w] = [?x]"
      using matched ev False by (auto simp: watch_frames_def event_frame_def event_dto [OF q])
    with that [of ?x] delete_same [of "delete_event w"] delete_other [of "delete_event w" p] p po False
    show thesis by auto
  qed
qed

lemma entry_step:
  assumes q: "ParseQuery ul values = Inr q" and p: "plain_pair q p" "pair_ok p"
    and e: "watched_log [e]" "list_all (fits ok pair_ok q) (log_events [e])" and m: "directory_ok m"
    and s: "presents s p (cell q t m p)"
  shows "\<exists>t' \<in> insert t (clock ` set (log_events [e])).
    presents (fold client (watch_frames q clock (log_events [e])) s) p (cell q t' (entry_exec e m) p)"
proof (cases "registry_event (log_entry e)")
  case None
  with s no_event [OF _ _ None p(1)] cell_other e(1) show ?thesis by (simp add: entry_exec_def split: option.split)
next
  case w: (Some w)
  then obtain c where c: "entry_command e = Some c"
    by (auto simp: entry_command_def registry_event_def log_entry_def split: if_splits option.splits)
  then have wc: "watched_command c" using e(1) by simp
  let ?k = "Key (q_Namespace q) (fst p) (snd p)"
  have root: "HasPrefix ?k RootPrefix" by (simp add: Key_def HasPrefix_iff)
  have pk: "ParseKey (cmd_Key c) = Some (we_Namespace w, we_Service w, we_InstanceID w)" using event_cases [OF c wc w] by simp
  have same: "we_Namespace w = q_Namespace q \<and> p = (we_Service w, we_InstanceID w)" if "cmd_Key c = ?k"
    using pk p(1) that by (cases p) (simp add: plain_pair_def)
  have other: "cell q t (ps_exec c m) p = cell q t m p" if "cmd_Key c \<noteq> ?k" using that cell_other [OF wc] by simp
  show ?thesis
  proof (cases "we_Namespace w = q_Namespace q \<and> MatchServiceQuery (we_Service w) q")
    case False
    then have "watch_frames q clock [w] = []" by (simp add: watch_frames_def event_frame_def event_dto [OF q])
    moreover have "cell q t (ps_exec c m) p = cell q t m p" if "cmd_Key c = ?k"
      using cell_unmatched [OF _ p(1)] m registry_command_keeps wc same [OF that] False by (simp add: watched_command_def)
    ultimately show ?thesis using s w c other by (cases "cmd_Key c = ?k") (simp_all add: entry_exec_def)
  next
    case True
    have fit: "fits ok pair_ok q w" using e(2) w by simp
    show ?thesis
    proof (rule sent_step [OF q p(2) c wc w fit, of clock s "cell q t m p"])
      fix x assume x: "watch_frames q clock [w] = [x]"
        "p \<noteq> (we_Service w, we_InstanceID w) \<Longrightarrow> presents (client x s) p (cell q t m p) \<longleftrightarrow> presents s p (cell q t m p)"
        "p = (we_Service w, we_InstanceID w) \<Longrightarrow>
          presents (client x s) p (if cmd_Operation c = OperationPut then selected q (clock w) (the (unmarshal_value (cmd_Value c))) else None)"
      show ?thesis
      proof (cases "cmd_Key c = ?k")
        case k: True
        then have "cell q (clock w) (ps_exec c m) p =
            (if cmd_Operation c = OperationPut then selected q (clock w) (the (unmarshal_value (cmd_Value c))) else None)"
          using ps_exec_watched [OF wc root, of m] event_cases [OF c wc w] by (auto simp: cell_def stored_def)
        with x(1,3) same [OF k] w c show ?thesis by (simp add: entry_exec_def)
      next
        case False
        then have "p \<noteq> (we_Service w, we_InstanceID w)" using True pk by (auto simp: ParseKey_iff)
        with x(1,2) s other [OF False] w c show ?thesis by (simp add: entry_exec_def)
      qed
    qed (use True in simp_all)
  qed
qed

lemma log_run:
  assumes q: "ParseQuery ul values = Inr q" and p: "plain_pair q p" "pair_ok p"
    and es: "watched_log es" "list_all (fits ok pair_ok q) (log_events es)" and m: "directory_ok m"
    and s: "presents s p (cell q t m p)"
  shows "\<exists>t' \<in> insert t (clock ` set (log_events es)).
    presents (fold client (watch_frames q clock (log_events es)) s) p (cell q t' (log_exec es m) p)"
  using es m s
proof (induction es arbitrary: s t m)
  case (Cons e es)
  have parts: "log_events (e # es) = log_events [e] @ log_events es" by (simp split: option.split)
  have e: "watched_log [e]" "watched_log es" "list_all (fits ok pair_ok q) (log_events [e])" "list_all (fits ok pair_ok q) (log_events es)"
    using Cons.prems(1,2) by (simp_all add: parts del: log_events_simps(3))
  from entry_step [OF q p e(1,3) Cons.prems(3,4)] obtain t1 where t1: "t1 \<in> insert t (clock ` set (log_events [e]))"
    "presents (fold client (watch_frames q clock (log_events [e])) s) p (cell q t1 (entry_exec e m) p)" by blast
  have "directory_ok (entry_exec e m)"
    using Cons.prems(1,3) by (auto simp: entry_exec_def watched_command_def registry_command_keeps split: option.split)
  from Cons.IH [OF e(2,4) this t1(2)] t1(1) show ?case
    unfolding parts watch_frames_simps by (auto simp del: log_events_simps(3))
qed simp

lemma without_pings: "fold client fs s = fold client (filter (\<lambda>f. f \<noteq> Ping) fs) s"
  by (induction fs arbitrary: s) (simp_all add: ping)

text \<open>
  A stream that starts from a snapshot: the client ends with the cells of the whole log. \<open>mid\<close> are the entries that were
  applied between the reading of the revision and the scan; their events come again.
\<close>

lemma snapshot_stream:
  assumes q: "ParseQuery ul values = Inr q" and p: "plain_pair q p" "pair_ok p"
    and log: "watched_log (prior @ mid @ after)" "sorted_wrt (<) (map e_Index (prior @ mid @ after))"
      "directory_ok m0" "finite (dom m0)"
    and r: "\<And>e. e \<in> set prior \<Longrightarrow> e_Index e \<le> r" "\<And>e. e \<in> set (mid @ after) \<Longrightarrow> r < e_Index e"
    and items: "items = List.map_filter (wanted q now) (directory (log_exec (prior @ mid) m0))" "list_all ok items"
    and fit: "list_all (fits ok pair_ok q) (log_events (mid @ after))"
    and heard: "prior = early @ late" "input_events is = log_events (late @ mid @ after)" "Finished \<notin> set is"
  shows "\<exists>t \<in> insert now (clock ` set (log_events (mid @ after))).
    presents (fold client (Frame r ''snapshot'' (snapshot_event q r items) #
        watch_loop (\<lambda>e. registryWatchEventDTO q (clock e) e) rw_Type r is) s) p
      (cell q t (log_exec (prior @ mid @ after) m0) p)"
proof -
  let ?m = "log_exec (prior @ mid) m0"
  have ok: "directory_ok ?m" "finite (dom ?m)" using watched_log_keeps [of "prior @ mid" m0] log by simp_all
  have s1: "presents (client (Frame r ''snapshot'' (snapshot_event q r items)) s) p (cell q now ?m p)"
    using snapshot [of "snapshot_event q r items" p "cell q now ?m p" r s] snapshot_cells [OF q ok p(1)] p(2) items by simp
  have frames: "filter (\<lambda>f. f \<noteq> Ping) (watch_loop (\<lambda>e. registryWatchEventDTO q (clock e) e) rw_Type r is) =
      watch_frames q clock (log_events (mid @ after))"
    by (rule heard_frames [OF q log(2) _ _ heard]) (fact r)+
  have fin: "log_exec (mid @ after) ?m = log_exec (prior @ mid @ after) m0"
    using log_exec_suffix [of mid prior m0] by simp
  have "watched_log (mid @ after)" using log(1) by simp
  from log_run [OF q p this fit ok(1) s1, of clock] show ?thesis
    unfolding fold_Cons comp_def without_pings [of "watch_loop _ _ _ _"] frames fin .
qed

text \<open>A stream that is resumed at a revision the client has: the replayed events and those that follow.\<close>

lemma resumed_stream:
  assumes q: "ParseQuery ul values = Inr q" and p: "plain_pair q p" "pair_ok p"
    and log: "watched_log (prior @ after)" "directory_ok m0" "finite (dom m0)"
    and fit: "list_all (fits ok pair_ok q) (log_events after)"
    and s: "presents s p (cell q t (log_exec prior m0) p)"
  shows "\<exists>t' \<in> insert t (clock ` set (log_events after)).
    presents (fold client (watch_frames q clock (log_events after)) s) p (cell q t' (log_exec (prior @ after) m0) p)"
  using log_run [OF q p _ fit _ s, of clock] watched_log_keeps [of prior m0] log by simp

end

subsection \<open>The plain view\<close>

fun view_step :: "RegistryWatchEventDTO stream_frame \<Rightarrow> (bytes \<times> bytes \<rightharpoonup> RegistryInstanceDTO) \<Rightarrow> (bytes \<times> bytes \<rightharpoonup> RegistryInstanceDTO)" where
  "view_step Ping view = view"
| "view_step (Frame revision event e) view =
     (if event = ''snapshot'' then fold (\<lambda>d v. v(pair_of d \<mapsto> d)) (rw_Instances e) Map.empty
      else if event = event_type_name WatchEventUpsert
      then (case rw_Instance e of None \<Rightarrow> view | Some d \<Rightarrow> view((rw_Service e, rw_InstanceID e) \<mapsto> d))
      else if event = event_type_name WatchEventDelete then view((rw_Service e, rw_InstanceID e) := None)
      else view)"

lemma fold_pairs:
  "fold (\<lambda>d v. v(pair_of d \<mapsto> d)) ds v p = (case filter (\<lambda>d. pair_of d = p) ds of [] \<Rightarrow> v p | xs \<Rightarrow> Some (last xs))"
  by (induction ds arbitrary: v) (auto split: list.splits)

interpretation plain: Watch_Client view_step "\<lambda>view p x. view p = x" "\<lambda>d. True" "\<lambda>p. True"
proof unfold_locales
  fix e :: RegistryWatchEventDTO and p r s and x :: "RegistryInstanceDTO option"
  assume e: "rw_Type e = ''snapshot''" and x: "{d \<in> set (rw_Instances e). pair_of d = p} = set_option x"
  let ?ds = "filter (\<lambda>d. pair_of d = p) (rw_Instances e)"
  have l: "last xs = a" if "xs \<noteq> []" "set xs \<subseteq> {a}" for xs and a :: RegistryInstanceDTO
    using last_in_set [OF that(1)] that(2) by auto
  have "set ?ds = set_option x" using x by simp
  then have "(case ?ds of [] \<Rightarrow> None | xs \<Rightarrow> Some (last xs)) = x"
    by (cases x; cases ?ds) (auto dest!: equalityD1 simp: l split: if_splits)
  then show "view_step (Frame r (rw_Type e) e) s p = x" by (simp add: e fold_pairs)
qed auto

subsection \<open>Sessions\<close>

context Registry_Node
begin

lemma snapshot_ok:
  assumes nd: "node nd" "inv n" and q: "ParseQuery ul values = Inr q" "q_Limit q = 0"
    and run: "registryWatchSnapshot nd reqCtx q now n = (n', Inr (items, r))" "directory_ok (dir n')"
  shows "inv n' \<and> items = Some (List.map_filter (wanted q now) (directory (dir n')))"
proof -
  have ne: "scan_prefix q \<noteq> []" using scan_prefix_cases [OF q(1)] by auto
  then have pr: "prefixRange (scan_prefix q) = (scan_prefix q, prefixUpperBound (scan_prefix q))" by (simp add: prefixRange_def)
  obtain n1 kvs where b: "rn_LinearizableRead nd reqCtx n = (n1, None)"
    "rn_Scan nd (scan_prefix q) (prefixUpperBound (scan_prefix q)) 0 n1 = (n', Inr kvs)"
    "items = collect_instances (local_instance q now) (q_Limit q) kvs []"
    using run(1) by (auto simp: registryWatchSnapshot_def pr Let_def split: prod.splits option.splits sum.splits)
  from scan_ok [OF nd(1) barrier_ok [OF nd b(1)] b(2)] narrow_scan [OF finite_dir q(1) run(2)] q(2)
  show ?thesis by (simp add: b(3) collect_all local_instance_parsed [OF q(1)] limited_def)
qed

text \<open>A session that starts with a snapshot frame has taken the snapshot from the directory.\<close>

lemma open_ok:
  assumes nd: "node nd" "inv n" and q: "ParseQuery ul values = Inr q" "q_Limit q = 0"
    and dto: "\<And>e. dto e \<noteq> None" "\<And>e y. dto e = Some (Some y) \<Longrightarrow> ty y \<noteq> ''snapshot''"
    and run: "watch_open nd reqCtx q now dto ty snap incl since replay exact n = (n', Inr ([Frame rv ''snapshot'' x], rv'))"
    and ok: "directory_ok (dir n')"
  shows "rv' = rv \<and> x = snap rv (List.map_filter (wanted q now) (directory (dir n')))"
proof -
  have no: "[Frame rv ''snapshot'' x] \<noteq> event_frames dto ty replay"
  proof
    assume eq: "[Frame rv ''snapshot'' x] = event_frames dto ty replay"
    have "Frame rv ''snapshot'' x \<in> set [Frame rv ''snapshot'' x]" by simp
    then obtain w where "dto w = Some (Some x)" "ty x = ''snapshot''"
      unfolding eq by (auto simp: event_frames_def event_frame_def split: option.splits)
    with dto(2) show False by blast
  qed
  obtain r' where "replay_frames dto ty replay [] since = Some (event_frames dto ty replay, r')"
    using replay_frames_eq [of dto ty replay "[]" since] dto(1) by auto
  with run no obtain items where "registryWatchSnapshot nd reqCtx q now n = (n', Inr (Some items, rv))"
      "rv' = rv" "x = snap rv items"
    by (auto simp: watch_open_def split: if_splits prod.splits sum.splits option.splits)
  with snapshot_ok [OF nd q _ ok] show ?thesis by force
qed

lemma session_ok:
  assumes nd: "node nd" "inv n" and q: "ParseQuery ul (rq_Query r) = Inr q" "q_Limit q = 0"
    and run: "WatchInstances nd ul True True reqCtx now clock r (n, hub) = ((n', hub'), Inr s)"
    and snap: "ws_frames s = [Frame rv ''snapshot'' x]" and ok: "directory_ok (dir n')"
  shows "ws_revision s = rv \<and> x = snapshot_event q rv (List.map_filter (wanted q now) (directory (dir n')))"
proof -
  let ?dto = "\<lambda>e. registryWatchEventDTO q (clock e) e"
  obtain incl since replay exact where o:
      "watch_open nd reqCtx q now ?dto rw_Type (snapshot_event q) incl since replay exact n = (n', Inr (ws_frames s, ws_revision s))"
    using run q(1)
    by (auto simp: WatchInstances_def watch_start_def refuse_def Let_def
        split: option.splits sum.splits prod.splits if_splits)
  have d1: "\<And>e. ?dto e \<noteq> None" by (simp add: event_dto [OF q(1)])
  have d2: "\<And>e y. ?dto e = Some (Some y) \<Longrightarrow> rw_Type y \<noteq> ''snapshot''" using event_dto_type by blast
  show ?thesis by (rule open_ok [OF nd q d1 d2 o [unfolded snap] ok])
qed

lemma replication_session_ok:
  assumes nd: "node nd" "inv n" and q: "ParseQuery ul (rq_Query r) = Inr q" "q_Limit q = 0"
    and run: "WatchReplication nd h ul True True reqCtx now exported_at clock exportClock r (n, hub) = ((n', hub'), Inr s)"
    and snap: "ws_frames s = [Frame rv ''snapshot'' x]" and ok: "directory_ok (dir n')"
  shows "ws_revision s = rv \<and> x = exported_event (h_sourceRegion h) (h_sourceCluster h) exported_at
    (snapshot_event q rv (List.map_filter (wanted q now) (directory (dir n'))))"
proof -
  let ?dto = "\<lambda>e. replicationWatchEventDTO q (h_sourceRegion h) (h_sourceCluster h) (exportClock e) (clock e) e"
  let ?snap = "\<lambda>revision items. exported_event (h_sourceRegion h) (h_sourceCluster h) exported_at (snapshot_event q revision items)"
  obtain since replay exact where o:
      "watch_open nd reqCtx q now ?dto rp_Type ?snap True since replay exact n = (n', Inr (ws_frames s, ws_revision s))"
    using run q(1)
    by (auto simp: WatchReplication_def watch_start_def refuse_def Let_def
        split: option.splits sum.splits prod.splits if_splits)
  have d1: "\<And>e. ?dto e \<noteq> None" by (simp add: replicationWatchEventDTO_def event_dto [OF q(1)] split: option.split)
  have d2: "\<And>e y. ?dto e = Some (Some y) \<Longrightarrow> rp_Type y \<noteq> ''snapshot''"
    using event_dto_type by (auto simp: replicationWatchEventDTO_def exported_event_def split: option.splits)
  show ?thesis by (rule open_ok [OF nd q d1 d2 o [unfolded snap] ok])
qed

end

text \<open>C4. A watch stream leads its client to the state of the log. A watch that opens with a snapshot at the revision \<open>rv\<close> and is handed the events
  of the committed entries in order shows, for every instance whose namespace, service and identifier have no slash, what a query
  would select from the state of the whole log at some moment of the stream; instances that the query does not select are absent.
  Entries that are applied between the reading of the revision and the scan, and entries applied before the revision but
  published after the subscription, do no harm.\<close>

theorem watch_converges:
  fixes nd :: "('db, 'ms, 'rn) RaftNode registryNode"
  assumes nd: "raft_node nd" "node_inv n" and q: "ParseQuery ul (rq_Query r) = Inr q" "q_Limit q = 0"
    and run: "WatchInstances nd ul True True reqCtx now clock r (n, hub) = ((n', hub'), Inr s)"
      "ws_frames s = [Frame rv ''snapshot'' x]"
    and log: "watched_log (prior @ mid @ after)" "sorted_wrt (<) (map e_Index (prior @ mid @ after))"
    and applied: "\<And>e. e \<in> set prior \<Longrightarrow> e_Index e \<le> rv" "\<And>e. e \<in> set (mid @ after) \<Longrightarrow> rv < e_Index e"
      "node_dir n' = log_exec (prior @ mid) Map.empty"
    and heard: "prior = early @ late" "input_events inputs = log_events (late @ mid @ after)" "Finished \<notin> set inputs"
    and p: "ParseKey (Key (q_Namespace q) service instanceID) = Some (q_Namespace q, service, instanceID)"
  shows "\<exists>t \<in> insert now (clock ` set (input_events inputs)).
    fold view_step (ws_frames s @ watch_loop (\<lambda>e. registryWatchEventDTO q (clock e) e) rw_Type (ws_revision s) inputs)
      Map.empty (service, instanceID) =
    (case stored (log_exec (prior @ mid @ after) Map.empty) (Key (q_Namespace q) service instanceID) of
       None \<Rightarrow> None | Some v \<Rightarrow> selected q t v)"
proof -
  have e0: "directory_ok Map.empty" "finite (dom Map.empty)" by (simp_all add: directory_ok_def stored_def)
  have "watched_log (prior @ mid)" using log(1) by simp
  from watched_log_keeps [OF this e0] have "directory_ok (node_dir n')" by (simp add: applied(3))
  from rn.session_ok [OF nd q run this]
  have s: "ws_revision s = rv" "x = snapshot_event q rv (List.map_filter (wanted q now) (directory (log_exec (prior @ mid) Map.empty)))"
    by (simp_all add: applied(3))
  have pp: "plain_pair q (service, instanceID)" using p by (simp add: plain_pair_def)
  have fit: "list_all (fits (\<lambda>d. True) (\<lambda>p. True) q) (log_events (mid @ after))" by (simp add: fits_def list_all_iff)
  obtain t where t: "t \<in> insert now (clock ` set (log_events (mid @ after)))"
    "fold view_step (Frame rv ''snapshot'' x # watch_loop (\<lambda>e. registryWatchEventDTO q (clock e) e) rw_Type rv inputs) Map.empty (service, instanceID) =
       cell q t (log_exec (prior @ mid @ after) Map.empty) (service, instanceID)"
    using plain.snapshot_stream [OF q(1) pp TrueI log e0 applied(1,2) refl _ fit heard, of now clock Map.empty] unfolding s(2)
    by (auto simp: list_all_iff)
  moreover have "set (log_events (mid @ after)) \<subseteq> set (input_events inputs)" by (auto simp: heard(2))
  ultimately show ?thesis by (auto simp: run(2) s(1) cell_def)
qed


definition command_entry :: "Command \<Rightarrow> u64 \<Rightarrow> Entry" where
  "command_entry c i = \<lparr>e_Term = 1, e_Index = i, e_Type = EntryNormal, e_Data = Marshal command_to_json c\<rparr>"

lemma command_entry_command:
  assumes "cmd_Operation c \<in> {OperationPut, OperationDelete, OperationDeletePrefix}"
  shows "entry_command (command_entry c i) = Some c"
proof -
  have "sanitize (cmd_Operation c) = cmd_Operation c"
    using assms by (auto simp: OperationPut_def OperationDelete_def OperationDeletePrefix_def sanitize_ascii is_ascii_def)
  then have "decode_command (Marshal command_to_json c) = Some c"
    using command_json [of c] by (simp add: decode_command_def Unmarshal_Marshal)
  moreover have "Marshal command_to_json c \<noteq> []" by (simp add: Marshal_def command_to_json_def)
  ultimately show ?thesis by (simp add: entry_command_def command_entry_def)
qed

lemma put_is_put [simp]: "cmd_Operation (put_command k v) = OperationPut" "cmd_Key (put_command k v) = k" "cmd_Value (put_command k v) = v"
  by (simp_all add: put_command_def)

lemma sample_watch:
  "parseRegistryCallerIdentity sample_query = Inr zero_identity" "parseSinceRevision (url_get (rq_Query sample_query) ''sinceRevision'') = Some 0"
  "TrimSpace (url_get (rq_Query sample_query) ''includeSnapshot'') = []" "rq_Method sample_query = ''GET''"
  "SubscribeSince NewWatchHub [] 128 0 = ((\<lparr>wh_nextID = 1, wh_watchers = [(1, 0)], wh_history = []\<rparr>, [\<lparr>ch_cap = 128, ch_buf = [], ch_closed = False\<rparr>]), 1, 0, [], False)"
  by code_simp+

lemma sample_session:
  "\<exists>s. WatchInstances sample_nd id True True reqCtx now clock sample_query (sample_node [], NewWatchHub, []) =
     ((sample_node [], \<lparr>wh_nextID = 1, wh_watchers = [(1, 0)], wh_history = []\<rparr>, [\<lparr>ch_cap = 128, ch_buf = [], ch_closed = False\<rparr>]), Inr s) \<and>
   ws_frames s = [Frame 0 ''snapshot'' (snapshot_event sample_q 0 [])]"
proof -
  have bar: "rn_LinearizableRead sample_nd reqCtx (sample_node []) = (sample_node [], None)"
    by (simp add: sample_nd_def raft_registryNode_def)
  obtain n :: "((bytes, bytes) gomap, u64, unit) RaftNode" where
    n: "New sample_config True None fixed_codec list_pebble 0 sample_disk = Inr n" by (rule exE [OF sample_new])
  then have st: "st_AppliedIndex (rn_Status sample_nd (sample_node [])) = 0"
    by (auto simp: New_def Let_def sample_config_def WithDefaults_def sample_node_def sample_nd_def raft_registryNode_def node_Status_def split: option.splits sum.splits)
  have dir: "node_dir (sample_node []) = Map.empty" by (simp add: sample_dir)
  show ?thesis
    by (simp add: WatchInstances_def allowMethod_def sample_watch sample_parse watch_start_def watch_open_def registryWatchSnapshot_def
      bar st sample_Scan dir prefixRange_def entries_def limited_def split: prod.split)
qed

theorem watch_converges_witness:
  "\<exists>s. snd (WatchInstances sample_nd id True True [] 1005 (\<lambda>e. 1010) sample_query (sample_node [], NewWatchHub, [])) = Inr s \<and>
    fold view_step (ws_frames s @ watch_loop (\<lambda>e. registryWatchEventDTO sample_q 1010 e) rw_Type (ws_revision s)
        (map Event (log_events [command_entry (put_command (key_of sample_value) (marshal_value sample_value)) 1])))
      Map.empty (''orders'', ''i1'') = Some (answer_of sample_q (sort_maps sample_value))"
proof -
  let ?e = "command_entry (put_command (key_of sample_value) (marshal_value sample_value)) 1"
  obtain s where s: "WatchInstances sample_nd id True True [] 1005 (\<lambda>e. 1010) sample_query (sample_node [], NewWatchHub, []) =
     ((sample_node [], \<lparr>wh_nextID = 1, wh_watchers = [(1, 0)], wh_history = []\<rparr>, [\<lparr>ch_cap = 128, ch_buf = [], ch_closed = False\<rparr>]), Inr s)"
   "ws_frames s = [Frame 0 ''snapshot'' (snapshot_event sample_q 0 [])]"
    using sample_session by blast
  have c: "entry_command ?e = Some (put_command (key_of sample_value) (marshal_value sample_value))"
    by (rule command_entry_command) simp
  have key: "key_of sample_value = Key (q_Namespace sample_q) ''orders'' ''i1''"
    "ParseKey (Key (q_Namespace sample_q) ''orders'' ''i1'') = Some (q_Namespace sample_q, ''orders'', ''i1'')"
    by (simp add: sample_value_facts(5) sample_q_def Key_def RootPrefix_def) code_simp
  have log: "watched_log ([] @ [] @ [?e])" "sorted_wrt (<) (map e_Index ([] @ [] @ [?e]))"
    using registration_good [OF sample_value_facts(1)] by (simp_all add: c watched_command_def)
  have ev: "input_events (map Event ws) = ws" "Finished \<notin> set (map Event ws)" for ws by (induction ws) auto
  have ex: "log_exec ([] @ [] @ [?e]) Map.empty = [key_of sample_value \<mapsto> marshal_value sample_value]"
    by (simp add: entry_exec_def c)
  have lim: "q_Limit sample_q = 0" by (simp add: sample_q_def)
  have idx: "e_Index e \<le> 0" if "e \<in> set []" for e :: Entry using that by simp
  have later: "0 < e_Index e" if "e \<in> set ([] @ [?e])" for e using that by (simp add: command_entry_def)
  have dir: "node_dir (sample_node []) = log_exec ([] @ []) Map.empty" by (simp add: sample_dir)
  have heard: "[] = [] @ ([] :: Entry list)" "input_events (map Event (log_events [?e])) = log_events ([] @ [] @ [?e])" by (simp_all add: ev(1))
  obtain t where t: "t \<in> insert 1005 ((\<lambda>e. 1010) ` set (input_events (map Event (log_events [?e]))))"
    "fold view_step (ws_frames s @ watch_loop (\<lambda>e. registryWatchEventDTO sample_q 1010 e) rw_Type (ws_revision s) (map Event (log_events [?e])))
      Map.empty (''orders'', ''i1'') =
     (case stored (log_exec ([] @ [] @ [?e]) Map.empty) (Key (q_Namespace sample_q) ''orders'' ''i1'') of None \<Rightarrow> None | Some v \<Rightarrow> selected sample_q t v)"
    by (rule bexE [OF watch_converges [OF sample_nd_ok sample_parse lim s log idx later dir heard ev(2) key(2)]])
  have st: "stored [key_of sample_value \<mapsto> marshal_value sample_value] (key_of sample_value) = Some (sort_maps sample_value)"
    by (rule stored_put [OF sample_value_facts(1)]) simp
  have "IsAlive sample_value 1005" by code_simp
  with t(1) sample_value_facts(1-3) have "selected sample_q t (sort_maps sample_value) = Some (answer_of sample_q (sort_maps sample_value))"
    by (auto simp: selected_def sort_maps_selects good_value_def)
  with t(2) st s(1) show ?thesis unfolding ex key(1) [symmetric] by simp
qed

end
