(* ===== verification/Cleanup.thy ===== *)
theory Cleanup
  imports Directory_Props
begin

text \<open>
  The removal of expired instances (\<open>CleanupCursor\<close> of \<open>internal/registry/cleanup.go\<close>, \<open>CleanupExpiredRegistry\<close> of
  \<open>internal/app/app.go\<close>): the leader scans one page of the directory per round, proposes the deletion of what has expired, and goes on in
  the next round where the page ended. Rounds run beside all other writes.
\<close>

subsection \<open>The cursor\<close>

record CleanupCursor =
  cu_ScanStart :: bytes

definition cursor_Next :: "CleanupCursor \<Rightarrow> bytes \<Rightarrow> bytes" where
  "cursor_Next c defaultStart = (if cu_ScanStart c = [] then defaultStart else cu_ScanStart c)"

definition nextScanStartAfter :: "bytes \<Rightarrow> bytes" where
  "nextScanStartAfter key = key @ [CHR 0x00]"

definition cursor_Advance :: "CleanupCursor \<Rightarrow> bytes \<Rightarrow> KV list \<Rightarrow> int \<Rightarrow> CleanupCursor" where
  "cursor_Advance c defaultStart items limit =
     (if items = [] \<or> limit \<le> 0 \<or> int (length items) < limit then c\<lparr>cu_ScanStart := defaultStart\<rparr>
      else c\<lparr>cu_ScanStart := nextScanStartAfter (kv_Key (last items))\<rparr>)"

subsection \<open>A round\<close>

definition isRegistryCleanupLeader :: "Status \<Rightarrow> bool" where
  "isRegistryCleanupLeader status \<longleftrightarrow>
     st_Started status \<and> \<not> st_Stopped status \<and> st_Role status = RoleLeader \<and> st_LeaderID status = st_NodeID status"

fun cleanup_loop :: "'n registryNode \<Rightarrow> int \<Rightarrow> int \<Rightarrow> KV list \<Rightarrow> int \<Rightarrow> 'n \<Rightarrow> 'n \<times> node_error option" where
  "cleanup_loop nd limit now [] deleted n = (n, None)"
| "cleanup_loop nd limit now (item # items) deleted n =
     (if \<not> isRegistryCleanupLeader (rn_Status nd n) then (n, None)
      else case unmarshal_value (kv_Value item) of
        None \<Rightarrow> cleanup_loop nd limit now items deleted n
      | Some value \<Rightarrow>
          if IsAlive value now then cleanup_loop nd limit now items deleted n
          else (case rn_ProposeCommand nd (delete_command (kv_Key item)) n of
             (n1, Some e) \<Rightarrow> (n1, Some e)
           | (n1, None) \<Rightarrow>
               if deleted + 1 \<ge> limit then (n1, None) else cleanup_loop nd limit now items (deleted + 1) n1))"

definition CleanupExpiredRegistry ::
  "'n registryNode \<Rightarrow> int \<Rightarrow> int \<Rightarrow> CleanupCursor \<Rightarrow> 'n \<Rightarrow> 'n \<times> CleanupCursor \<times> node_error option" where
  "CleanupExpiredRegistry nd limit now cursor n =
     (let start = RootPrefix; end = start @ [CHR 0xFF]; scanStart = cursor_Next cursor start in
      case rn_Scan nd scanStart end limit n of
        (n1, Inl e) \<Rightarrow> (n1, cursor, Some e)
      | (n1, Inr items) \<Rightarrow>
          (let cursor1 = cursor_Advance cursor start items limit in
           if items = [] then (n1, cursor1, None)
           else case cleanup_loop nd limit now items 0 n1 of (n2, e) \<Rightarrow> (n2, cursor1, e)))"

text \<open>One tick of \<open>cleanupExpiredRegistryLoop\<close>.\<close>

definition cleanup_tick :: "'n registryNode \<Rightarrow> int \<Rightarrow> int \<Rightarrow> CleanupCursor \<Rightarrow> 'n \<Rightarrow> 'n \<times> CleanupCursor \<times> node_error option" where
  "cleanup_tick nd limit now cursor n =
     (if \<not> isRegistryCleanupLeader (rn_Status nd n) then (n, cursor, None) else CleanupExpiredRegistry nd limit now cursor n)"

subsection \<open>What a round proposes\<close>

definition expired :: "int \<Rightarrow> KV \<Rightarrow> bool" where
  "expired now item \<longleftrightarrow> (case unmarshal_value (kv_Value item) of None \<Rightarrow> False | Some v \<Rightarrow> \<not> IsAlive v now)"

definition deletions :: "int \<Rightarrow> KV list \<Rightarrow> Command list" where
  "deletions now items = map (delete_command \<circ> kv_Key) (filter (expired now) items)"

lemma deletions_simps [simp]:
  "deletions now [] = []"
  "deletions now (item # items) = (if expired now item then delete_command (kv_Key item) # deletions now items else deletions now items)"
  by (simp_all add: deletions_def)

text \<open>Some of the deletions are proposed, and all of them when the node stays leader and nothing fails.\<close>

lemma cleanup_loop_some:
  "cleanup_loop (recording nd) limit now items deleted (n, cs) = ((n', cs'), e) \<Longrightarrow>
     \<exists>ds. cs' = cs @ ds \<and> prefix ds (deletions now items)"
proof (induction items arbitrary: deleted n cs)
  case (Cons item items)
  show ?case
  proof (cases "isRegistryCleanupLeader (rn_Status nd n) \<and> expired now item")
    case True
    obtain n1 e1 where p: "rn_ProposeCommand nd (delete_command (kv_Key item)) n = (n1, e1)" by fastforce
    show ?thesis
      using Cons.prems Cons.IH [of "deleted + 1" n1 "cs @ [delete_command (kv_Key item)]"] True p
      by (cases e1) (auto simp: expired_def split: option.splits if_splits)
  next
    case False
    with Cons show ?thesis by (auto simp: expired_def split: if_splits option.splits)
  qed
qed simp

lemma cleanup_loop_all:
  assumes steady: "\<And>c n n1 e. rn_ProposeCommand nd c n = (n1, e) \<Longrightarrow> rn_Status nd n1 = rn_Status nd n"
    and run: "isRegistryCleanupLeader (rn_Status nd n)"
      "cleanup_loop (recording nd) limit now items deleted (n, cs) = ((n', cs'), None)"
      "deleted + int (length items) \<le> limit"
  shows "cs' = cs @ deletions now items"
  using run
proof (induction items arbitrary: deleted n cs)
  case (Cons item items)
  show ?case
  proof (cases "expired now item")
    case True
    obtain n1 e1 where p: "rn_ProposeCommand nd (delete_command (kv_Key item)) n = (n1, e1)" by fastforce
    then have "e1 = None" using Cons.prems(1,2) True by (auto simp: expired_def split: option.splits)
    moreover have "items = []" if "limit \<le> deleted + 1" using that Cons.prems(3) by (cases items) simp_all
    ultimately show ?thesis
      using Cons.prems Cons.IH [of n1 "deleted + 1" "cs @ [delete_command (kv_Key item)]"] True p steady [OF p]
      by (auto simp: expired_def split: option.splits if_splits)
  next
    case False
    with Cons show ?thesis by (auto simp: expired_def split: option.splits)
  qed
qed simp

abbreviation cleanup_end :: bytes where
  "cleanup_end \<equiv> RootPrefix @ [CHR 0xFF]"

lemma le_append: "(p :: bytes) \<le> p @ t"
  by (induction p) simp_all

definition cursor_ok :: "CleanupCursor \<Rightarrow> bool" where
  "cursor_ok c \<longleftrightarrow> RootPrefix \<le> cursor_Next c RootPrefix"

definition page_of :: "(bytes \<rightharpoonup> bytes) \<Rightarrow> int \<Rightarrow> CleanupCursor \<Rightarrow> KV list" where
  "page_of m limit c = limited limit (entries m (cursor_Next c RootPrefix) cleanup_end)"

lemma page_item:
  assumes "finite (dom m)" "i \<in> set (page_of m limit c)"
  shows "m (kv_Key i) = Some (kv_Value i) \<and> cursor_Next c RootPrefix \<le> kv_Key i \<and> kv_Key i < cleanup_end"
proof -
  have "i \<in> set (entries m (cursor_Next c RootPrefix) cleanup_end)"
    using assms(2) by (auto simp: page_of_def limited_def dest: in_set_takeD split: if_splits)
  with set_entries [OF assms(1)] show ?thesis by (auto simp: within_def)
qed

lemma page_root:
  assumes "finite (dom m)" "cursor_ok c" "i \<in> set (page_of m limit c)"
  shows "HasPrefix (kv_Key i) RootPrefix"
  using page_item [OF assms(1,3)] assms(2) prefix_range [of RootPrefix "kv_Key i"] by (auto simp: cursor_ok_def)

lemma page_sorted: "sorted_wrt (<) (map kv_Key (page_of m limit c))"
  using entries_sorted [of m "cursor_Next c RootPrefix" cleanup_end]
  by (auto simp: page_of_def limited_def take_map [symmetric] sorted_wrt_take)

lemma cursor_ok_Advance:
  assumes "finite (dom m)" "cursor_ok c"
  shows "cursor_ok (cursor_Advance c RootPrefix (page_of m limit c) limit)"
proof (cases "page_of m limit c = []")
  case False
  then have "HasPrefix (kv_Key (last (page_of m limit c))) RootPrefix" using page_root [OF assms] last_in_set by blast
  then have "RootPrefix \<le> kv_Key (last (page_of m limit c)) @ [CHR 0x00]" by (auto simp: HasPrefix_iff le_append)
  then show ?thesis by (simp add: cursor_ok_def cursor_Advance_def cursor_Next_def nextScanStartAfter_def)
qed (simp add: cursor_ok_def cursor_Advance_def cursor_Next_def)

text \<open>A proposal does not change the status that the node reports; the event loop does.\<close>

locale Steady_Node = Registry_Node +
  assumes steady: "node nd \<Longrightarrow> rn_ProposeCommand nd c n = (n', e) \<Longrightarrow> rn_Status nd n' = rn_Status nd n"
begin

lemma cleanup_loop_keeps:
  "node nd \<Longrightarrow> inv n \<Longrightarrow> cleanup_loop (recording nd) limit now items deleted (n, cs) = ((n', cs'), e) \<Longrightarrow>
     inv n' \<and> dir n' = dir n \<and> rn_Status nd n' = rn_Status nd n"
proof (induction items arbitrary: deleted n cs)
  case (Cons item items)
  obtain n1 e1 where p: "rn_ProposeCommand nd (delete_command (kv_Key item)) n = (n1, e1)" by fastforce
  from propose_ok [OF Cons.prems(1,2) p] steady [OF Cons.prems(1) p] Cons.prems Cons.IH [of n] Cons.IH [of n1] p show ?case
    by (cases e1) (fastforce split: if_splits option.splits)+
qed simp

text \<open>A round reads a page of the directory, moves the cursor and proposes deletions of expired records of the page.\<close>

lemma cleanup_round:
  assumes nd: "node nd" "inv n" and run: "CleanupExpiredRegistry (recording nd) limit now cursor (n, []) = ((n', cs), cursor', e)"
    and pos: "0 < limit"
  obtains (failed) "cs = []" "cursor' = cursor" "e \<noteq> None"
  | (scanned) "inv n'" "cursor' = cursor_Advance cursor RootPrefix (page_of (dir n') limit cursor) limit"
    "prefix cs (deletions now (page_of (dir n') limit cursor))"
    "isRegistryCleanupLeader (rn_Status nd n') \<Longrightarrow> e = None \<Longrightarrow> cs = deletions now (page_of (dir n') limit cursor)"
proof (cases "snd (rn_Scan nd (cursor_Next cursor RootPrefix) cleanup_end limit n)")
  case (Inl x)
  with run show thesis
    by (intro failed; cases "rn_Scan nd (cursor_Next cursor RootPrefix) cleanup_end limit n")
      (auto simp: CleanupExpiredRegistry_def recording_def Let_def)
next
  case (Inr items)
  then obtain n1 where sc: "rn_Scan nd (cursor_Next cursor RootPrefix) cleanup_end limit n = (n1, Inr items)"
    by (cases "rn_Scan nd (cursor_Next cursor RootPrefix) cleanup_end limit n") simp
  from scan_ok [OF nd sc] have items: "inv n1" "items = page_of (dir n1) limit cursor" by (simp_all add: page_of_def)
  have cu: "cursor' = cursor_Advance cursor RootPrefix items limit"
    and loop: "cleanup_loop (recording nd) limit now items 0 (n1, []) = ((n', cs), e)"
    using run sc by (auto simp: CleanupExpiredRegistry_def Let_def recording_def split: if_splits prod.splits)
  from cleanup_loop_keeps [OF nd(1) items(1) loop] have k: "inv n'" "dir n' = dir n1" "rn_Status nd n' = rn_Status nd n1" by simp_all
  have len: "0 + int (length items) \<le> limit" using pos by (simp add: items(2) page_of_def limited_def)
  show thesis
  proof (rule scanned)
    assume "isRegistryCleanupLeader (rn_Status nd n')" "e = None"
    then have "isRegistryCleanupLeader (rn_Status nd n1)" "cleanup_loop (recording nd) limit now items 0 (n1, []) = ((n', cs), None)"
      using loop k(3) by simp_all
    from cleanup_loop_all [where nd = nd, OF steady [OF nd(1)] this len] items(2) k(2)
    show "cs = deletions now (page_of (dir n') limit cursor)" by simp
  qed (use items k cu cleanup_loop_some [OF loop] in auto)
qed

end

lemma Propose_status: "ProposeCommand rl c n = (n', e) \<Longrightarrow> node_Status n' = node_Status n"
  by (auto simp: node_Status_def ProposeCommand_def Propose_def with_raft_def split: option.splits prod.splits)

interpretation sn: Steady_Node raft_node node_inv node_dir
  by unfold_locales (auto simp: raft_node_def raft_registryNode_def dest: Propose_status)

lemma prefix_sorted: "prefix xs ys \<Longrightarrow> sorted_wrt R ys \<Longrightarrow> sorted_wrt R xs"
  by (auto simp: prefix_def sorted_wrt_append)

lemma deletions_sorted: "sorted_wrt (<) (map kv_Key items) \<Longrightarrow> sorted_wrt (<) (map cmd_Key (deletions now items))"
  by (simp add: deletions_def delete_command_def comp_def sorted_wrt_map sorted_wrt_filter)

text \<open>C10. The cleanup deletes only what has expired. Whatever happens, also when the node loses leadership or a proposal fails, every command that a
  tick proposes deletes a key of the directory whose value, at the scan, was expired by the clock reading of the round; there are at most
  as many as the configured limit, in the order of the keys, and the cursor stays in the directory.\<close>

theorem cleanup_only_expired:
  fixes nd :: "('db, 'ms, 'rn) RaftNode registryNode"
  assumes nd: "raft_node nd" "node_inv n" and run: "cleanup_tick (recording nd) limit now cursor (n, []) = ((n', cs), cursor', e)"
    and pos: "0 < limit" "cursor_ok cursor"
  shows "cursor_ok cursor' \<and> int (length cs) \<le> limit \<and> sorted_wrt (<) (map cmd_Key cs) \<and>
    (\<forall>c \<in> set cs. \<exists>k v. c = delete_command k \<and> HasPrefix k RootPrefix \<and> stored (node_dir n') k = Some v \<and> \<not> IsAlive v now)"
proof (cases "isRegistryCleanupLeader (rn_Status nd n)")
  case False
  with run pos show ?thesis by (auto simp: cleanup_tick_def recording_def)
next
  case True
  then have r: "CleanupExpiredRegistry (recording nd) limit now cursor (n, []) = ((n', cs), cursor', e)"
    using run by (simp add: cleanup_tick_def)
  show ?thesis
  proof (rule sn.cleanup_round [OF nd r pos(1)])
    assume "cs = []" "cursor' = cursor"
    with pos show ?thesis by simp
  next
    let ?page = "page_of (node_dir n') limit cursor"
    assume n': "node_inv n'" and cu: "cursor' = cursor_Advance cursor RootPrefix ?page limit" and cs: "prefix cs (deletions now ?page)"
    note fin = rn.finite_dir [OF n']
    have "length (deletions now ?page) \<le> length ?page" by (simp add: deletions_def)
    moreover have "int (length ?page) \<le> limit" using pos(1) by (simp add: page_of_def limited_def)
    moreover have "length cs \<le> length (deletions now ?page)" using cs by (rule prefix_length_le)
    ultimately have "int (length cs) \<le> limit" by linarith
    moreover have "sorted_wrt (<) (map cmd_Key cs)"
      using prefix_sorted [OF map_mono_prefix [OF cs] deletions_sorted [OF page_sorted]] .
    moreover have "\<exists>k v. c = delete_command k \<and> HasPrefix k RootPrefix \<and> stored (node_dir n') k = Some v \<and> \<not> IsAlive v now" if mem: "c \<in> set cs" for c
    proof -
      obtain i where i: "i \<in> set ?page" "expired now i" "c = delete_command (kv_Key i)"
        using subsetD [OF set_mono_prefix [OF cs] mem] by (auto simp: deletions_def)
      then show ?thesis using page_root [OF fin pos(2) i(1)] page_item [OF fin i(1)]
        by (auto simp: expired_def stored_def split: option.splits)
    qed
    ultimately show ?thesis using cursor_ok_Advance [OF fin pos(2)] cu by blast
  qed
qed

subsection \<open>Every expired record is reached\<close>

text \<open>Rounds one after the other. Between them, and during the barrier of their scans, other writers change the directory at will.\<close>

inductive cleanup_run :: "'n registryNode \<Rightarrow> ('n \<Rightarrow> bool) \<Rightarrow> int \<Rightarrow> CleanupCursor \<Rightarrow> (int \<times> 'n \<times> Command list) list \<Rightarrow> bool"
  for nd :: "'n registryNode" and inv :: "'n \<Rightarrow> bool" and limit :: int where
  stop: "cleanup_run nd inv limit cursor []"
| round: "inv n \<Longrightarrow> CleanupExpiredRegistry (recording nd) limit now cursor (n, []) = ((n', cs), cursor', None) \<Longrightarrow>
    cleanup_run nd inv limit cursor' rounds \<Longrightarrow> cleanup_run nd inv limit cursor ((now, n', cs) # rounds)"

text \<open>How many rounds it takes at most from a cursor to a key, when all keys ever stored are in \<open>K\<close>.\<close>

definition rounds_left :: "bytes set \<Rightarrow> nat \<Rightarrow> bytes \<Rightarrow> bytes \<Rightarrow> nat" where
  "rounds_left K l k s =
     (if s \<le> k then card {x \<in> K. s \<le> x \<and> x < k} div l + 1 else card {x \<in> K. s \<le> x} div l + card K div l + 2)"

lemma rounds_left_le: "finite K \<Longrightarrow> rounds_left K l k s \<le> 2 * (card K div l + 1)"
proof -
  assume "finite K"
  then have "card {x \<in> K. P x} div l \<le> card K div l" for P by (intro div_le_mono card_mono) auto
  from this [of "\<lambda>x. s \<le> x \<and> x < k"] this [of "\<lambda>x. s \<le> x"] show ?thesis by (simp add: rounds_left_def)
qed

lemma sorted_last: "sorted_wrt (<) xs \<Longrightarrow> x \<in> set xs \<Longrightarrow> x \<le> last xs" for x :: "'a :: linorder"
  by (induction xs) (auto intro: less_imp_le)

text \<open>A full page takes its keys out of the count.\<close>

lemma page_counts:
  fixes K :: "bytes set"
  assumes "finite K" "P \<subseteq> {x \<in> K. s \<le> x \<and> Q x}" "\<And>x. x \<in> P \<Longrightarrow> x < s'" "s \<le> s'" "card P = l" "0 < l"
  shows "card {x \<in> K. s' \<le> x \<and> Q x} div l + 1 \<le> card {x \<in> K. s \<le> x \<and> Q x} div l"
proof -
  have "P \<inter> {x \<in> K. s' \<le> x \<and> Q x} = {}" using assms(3) by (auto dest: leD)
  moreover have "finite P" using assms(1,2) finite_subset by fastforce
  ultimately have "card (P \<union> {x \<in> K. s' \<le> x \<and> Q x}) = l + card {x \<in> K. s' \<le> x \<and> Q x}"
    using assms(1,5) by (simp add: card_Un_disjoint)
  moreover have "P \<union> {x \<in> K. s' \<le> x \<and> Q x} \<subseteq> {x \<in> K. s \<le> x \<and> Q x}" using assms(2,4) by auto
  then have "card (P \<union> {x \<in> K. s' \<le> x \<and> Q x}) \<le> card {x \<in> K. s \<le> x \<and> Q x}" using assms(1) by (intro card_mono) auto
  ultimately have "l + card {x \<in> K. s' \<le> x \<and> Q x} \<le> card {x \<in> K. s \<le> x \<and> Q x}" by simp
  then have "(l + card {x \<in> K. s' \<le> x \<and> Q x}) div l \<le> card {x \<in> K. s \<le> x \<and> Q x} div l" by (rule div_le_mono)
  with assms(6) show ?thesis by (simp add: div_add_self1)
qed

lemma missed_page:
  assumes m: "finite (dom m)" "dom m \<subseteq> K" "finite K" and pos: "0 < limit"
    and k: "k \<in> dom m" "RootPrefix \<le> k" "k < cleanup_end" "k \<notin> kv_Key ` set (page_of m limit c)"
  shows "rounds_left K (nat limit) k (cursor_Next (cursor_Advance c RootPrefix (page_of m limit c) limit) RootPrefix) <
    rounds_left K (nat limit) k (cursor_Next c RootPrefix)"
proof -
  let ?p = "page_of m limit c" and ?s = "cursor_Next c RootPrefix"
  let ?E = "entries m ?s cleanup_end"
  have items: "kv_Key ` set ?E = {x \<in> dom m. ?s \<le> x \<and> x < cleanup_end}"
    using set_entries [OF m(1)] by (force simp: within_def image_def)
  have take: "?p = take (nat limit) ?E" using pos by (simp add: page_of_def limited_def)
  show ?thesis
  proof (cases "int (length ?p) < limit")
    case True
    then have "?p = ?E" using pos by (simp add: take)
    with items k have "\<not> ?s \<le> k" by auto
    moreover have "cursor_Next (cursor_Advance c RootPrefix ?p limit) RootPrefix = RootPrefix"
      using True by (simp add: cursor_Advance_def cursor_Next_def)
    moreover have "card {x \<in> K. RootPrefix \<le> x \<and> x < k} div nat limit \<le> card K div nat limit"
      using m(3) by (intro div_le_mono card_mono) auto
    ultimately show ?thesis using k(2) by (simp add: rounds_left_def)
  next
    case False
    then have len: "length ?p = nat limit" "?p \<noteq> []" using pos by (auto simp: take)
    let ?l = "kv_Key (last ?p)"
    have next': "cursor_Next (cursor_Advance c RootPrefix ?p limit) RootPrefix = ?l @ [CHR 0x00]"
      using len pos by (simp add: cursor_Advance_def cursor_Next_def nextScanStartAfter_def)
    have after: "?l @ [CHR 0x00] \<le> x \<longleftrightarrow> ?l < x" for x using within_after [of ?l "[]" x] by (simp add: within_def)
    have max: "x \<le> ?l" if "x \<in> kv_Key ` set ?p" for x
      using sorted_last [OF page_sorted, of x m limit c] that len(2) by (simp add: last_map)
    have P: "kv_Key ` set ?p \<subseteq> {x \<in> K. ?s \<le> x}" using page_item [OF m(1)] m(2) by fastforce
    have "distinct (map kv_Key ?p)" using page_sorted [of m limit c] by (simp add: strict_sorted_iff)
    then have cP: "card (kv_Key ` set ?p) = nat limit" using distinct_card len(1) by fastforce
    have "?l \<in> kv_Key ` set ?p" using len(2) by simp
    then have sl: "?s \<le> ?l @ [CHR 0x00]" using P le_append [of ?l "[CHR 0x00]"] by auto
    have less: "x < ?l @ [CHR 0x00]" if "x \<in> kv_Key ` set ?p" for x using max [OF that] after [of x] by (auto simp: not_le)
    have pos': "0 < nat limit" using pos by simp
    show ?thesis
    proof (cases "?s \<le> k")
      case True
      have "k \<in> kv_Key ` set (drop (nat limit) ?E)"
      proof -
        have "k \<in> kv_Key ` set (take (nat limit) ?E @ drop (nat limit) ?E)" using k True items by simp
        with k(4) show ?thesis unfolding set_append image_Un take by blast
      qed
      moreover have "sorted_wrt (<) (map kv_Key (?p @ drop (nat limit) ?E))" using entries_sorted by (simp add: take)
      ultimately have lk: "?l < k" using len(2) by (auto simp: sorted_wrt_append)
      have "kv_Key ` set ?p \<subseteq> {x \<in> K. ?s \<le> x \<and> x < k}" using P max lk by fastforce
      from page_counts [OF m(3) this less sl cP pos'] show ?thesis using True lk after by (simp add: next' rounds_left_def)
    next
      case False
      have "kv_Key ` set ?p \<subseteq> {x \<in> K. ?s \<le> x \<and> True}" using P by simp
      from page_counts [OF m(3) this less sl cP pos'] False sl show ?thesis
        using order_trans [OF sl, of k] by (auto simp: next' rounds_left_def)
    qed
  qed
qed

lemma expired_in_page:
  "finite (dom m) \<Longrightarrow> stored m k = Some v \<Longrightarrow> \<not> IsAlive v now \<Longrightarrow> k \<in> kv_Key ` set (page_of m limit c) \<Longrightarrow>
     delete_command k \<in> set (deletions now (page_of m limit c))"
  using page_item by (fastforce simp: deletions_def expired_def stored_def split: option.splits)

lemma key_in_range:
  assumes "stored m k = Some v" "k = key_of v"
  shows "RootPrefix \<le> k" "k < cleanup_end"
proof -
  let ?t = "v_Namespace v @ ''/'' @ v_Service v @ ''/'' @ v_InstanceID v"
  have "utf8 (v_Namespace v)" "utf8 (v_Service v)" "utf8 (v_InstanceID v)"
    using stored_text [OF assms(1)] by (simp_all add: text_value_iff)
  then have "utf8 ?t" by (intro utf8_append utf8_slash)
  moreover have "k = RootPrefix @ ?t" by (simp add: assms(2) key_of_def Key_def)
  ultimately have "within RootPrefix (prefixUpperBound RootPrefix) k" using within_append by simp
  then show "RootPrefix \<le> k" "k < cleanup_end" by (simp_all add: within_def prefixUpperBound_def)
qed

text \<open>C9. Every expired record is reached, whatever else is written. While the node stays leader and its rounds return no error, a key whose
  record stays in the directory and expired is proposed for deletion after at most \<open>2 * (N div limit + 1)\<close> rounds, where \<open>N\<close> bounds the
  number of different keys stored during that time and the cursor may start anywhere. Other writers may add, change and delete other
  records between and during the rounds.\<close>

theorem cleanup_reaches:
  fixes nd :: "('db, 'ms, 'rn) RaftNode registryNode"
  assumes nd: "raft_node nd" and pos: "0 < limit" and run: "cleanup_run nd node_inv limit cursor rounds"
    and all: "\<And>now n cs. (now, n, cs) \<in> set rounds \<Longrightarrow>
       isRegistryCleanupLeader (rn_Status nd n) \<and> dom (node_dir n) \<subseteq> K \<and>
       (\<exists>v. stored (node_dir n) k = Some v \<and> k = key_of v \<and> \<not> IsAlive v now)"
    and K: "finite K" "2 * (card K div nat limit + 1) \<le> length rounds"
  shows "\<exists>(now, n, cs) \<in> set rounds. delete_command k \<in> set cs"
proof -
  have "rounds_left K (nat limit) k (cursor_Next cursor RootPrefix) \<le> length rounds"
    using rounds_left_le [OF K(1)] K(2) order_trans by blast
  with run all show ?thesis
  proof (induction rounds rule: cleanup_run.induct)
    case (stop cursor)
    then show ?case by (simp add: rounds_left_def split: if_splits)
  next
    case (round n now cursor n' cs cursor' rounds)
    from round.prems(1) [of now n' cs] obtain v where v: "stored (node_dir n') k = Some v" "k = key_of v" "\<not> IsAlive v now"
      and l: "isRegistryCleanupLeader (rn_Status nd n')" and d: "dom (node_dir n') \<subseteq> K" by auto
    show ?case
    proof (rule sn.cleanup_round [OF nd round.hyps(1,2) pos])
      let ?page = "page_of (node_dir n') limit cursor"
      assume n': "node_inv n'" and cu: "cursor' = cursor_Advance cursor RootPrefix ?page limit"
        and cs: "isRegistryCleanupLeader (rn_Status nd n') \<Longrightarrow> None = None \<Longrightarrow> cs = deletions now ?page"
      note fin = rn.finite_dir [OF n']
      show ?thesis
      proof (cases "k \<in> kv_Key ` set ?page")
        case True
        with expired_in_page [OF fin v(1,3)] cs l show ?thesis by auto
      next
        case False
        have "k \<in> dom (node_dir n')" using v(1) by (auto simp: stored_iff)
        from missed_page [OF fin d K(1) pos this key_in_range [OF v(1,2)] False] cu round.prems(2)
        have "rounds_left K (nat limit) k (cursor_Next cursor' RootPrefix) \<le> length rounds" by simp
        moreover have "isRegistryCleanupLeader (rn_Status nd n) \<and> dom (node_dir n) \<subseteq> K \<and>
            (\<exists>v. stored (node_dir n) k = Some v \<and> k = key_of v \<and> \<not> IsAlive v t)" if "(t, n, ds) \<in> set rounds" for t n ds
          using round.prems(1) [of t n ds] that by simp
        ultimately show ?thesis using round.IH by auto
      qed
    qed simp
  qed
qed


abbreviation sample_db :: "(bytes, bytes) gomap" where
  "sample_db \<equiv> [(key_of sample_value, marshal_value sample_value)]"

lemma sample_leads: "isRegistryCleanupLeader (rn_Status sample_nd (sample_node db))"
  using sample_node_parts(2,3) [of db]
  by (auto simp: isRegistryCleanupLeader_def is_leader_def sample_nd_def raft_registryNode_def node_Status_def ensureRunning_def
      split: if_splits)

lemma entries_single: "within a b k \<Longrightarrow> entries [k \<mapsto> d] a b = [\<lparr>kv_Key = k, kv_Value = d\<rparr>]"
proof -
  assume "within a b k"
  then have "{x \<in> dom [k \<mapsto> d]. within a b x} = {k}" by auto
  then show ?thesis by (simp add: entries_def)
qed

lemma sample_page:
  "entries (node_dir (sample_node sample_db)) RootPrefix cleanup_end = [\<lparr>kv_Key = key_of sample_value, kv_Value = marshal_value sample_value\<rparr>]"
proof -
  have "stored [key_of sample_value \<mapsto> marshal_value sample_value] (key_of sample_value) = Some (sort_maps sample_value)"
    by (rule stored_put [OF sample_value_facts(1)]) simp
  from key_in_range [OF this] have "within RootPrefix cleanup_end (key_of sample_value)" by (simp only: within_def key_of_sort) simp
  then show ?thesis unfolding sample_directory(1) by (rule entries_single)
qed

lemma sample_round:
  assumes "cursor_Next c RootPrefix = RootPrefix"
  shows "CleanupExpiredRegistry (recording sample_nd) 5 1016 c (sample_node sample_db, []) =
     ((sample_node sample_db, [delete_command (key_of sample_value)]), \<lparr>cu_ScanStart = RootPrefix\<rparr>, None)"
proof -
  have "expired 1016 \<lparr>kv_Key = key_of sample_value, kv_Value = marshal_value sample_value\<rparr>"
    using sample_value_facts(1,4) by (simp add: expired_def text_value_roundtrip good_value_def)
  then obtain v where "unmarshal_value (marshal_value sample_value) = Some v" "\<not> IsAlive v 1016"
    by (auto simp: expired_def split: option.splits)
  then show ?thesis
    by (simp add: CleanupExpiredRegistry_def recording_def Let_def sample_Scan sample_page assms limited_def cursor_Advance_def sample_leads sample_Propose)
qed

theorem cleanup_only_expired_witness:
  "\<exists>n' cs cursor'. cleanup_tick (recording sample_nd) 5 1016 \<lparr>cu_ScanStart = []\<rparr> (sample_node sample_db, []) = ((n', cs), cursor', None) \<and>
    int (length cs) \<le> 5 \<and> delete_command (key_of sample_value) \<in> set cs"
proof -
  have c: "cursor_Next \<lparr>cu_ScanStart = []\<rparr> RootPrefix = RootPrefix" by (simp add: cursor_Next_def)
  then have "cleanup_tick (recording sample_nd) 5 1016 \<lparr>cu_ScanStart = []\<rparr> (sample_node sample_db, []) =
     ((sample_node sample_db, [delete_command (key_of sample_value)]), \<lparr>cu_ScanStart = RootPrefix\<rparr>, None)"
    using sample_round [OF c] sample_leads by (simp add: cleanup_tick_def recording_def)
  from this cleanup_only_expired [OF sample_nd_ok this] c show ?thesis by (simp add: cursor_ok_def)
qed

theorem cleanup_reaches_witness:
  "\<exists>rounds. length rounds = 2 \<and> cleanup_run sample_nd node_inv 5 \<lparr>cu_ScanStart = []\<rparr> rounds \<and>
    (\<exists>(now, n, cs) \<in> set rounds. delete_command (key_of sample_value) \<in> set cs)"
proof -
  let ?r = "(1016, sample_node sample_db, [delete_command (key_of sample_value)])"
  let ?K = "{key_of sample_value}"
  have run: "cleanup_run sample_nd node_inv 5 \<lparr>cu_ScanStart = []\<rparr> [?r, ?r]"
    by (rule cleanup_run.round, rule sample_nd_ok(2), rule sample_round, simp add: cursor_Next_def, rule cleanup_run.round,
        rule sample_nd_ok(2), rule sample_round, simp add: cursor_Next_def, rule cleanup_run.stop)
  have st: "stored (node_dir (sample_node sample_db)) (key_of sample_value) = Some (sort_maps sample_value)"
    using stored_put [OF sample_value_facts(1)] by (simp add: sample_directory(1))
  have all: "isRegistryCleanupLeader (rn_Status sample_nd n) \<and> dom (node_dir n) \<subseteq> ?K \<and>
      (\<exists>v. stored (node_dir n) (key_of sample_value) = Some v \<and> key_of sample_value = key_of v \<and> \<not> IsAlive v now)"
    if "(now, n, cs) \<in> set [?r, ?r]" for now n cs
    using that st sample_value_facts(4) by (auto simp: sample_leads) (auto simp: sample_directory(1) split: if_splits)
  show ?thesis
    using cleanup_reaches [OF sample_nd_ok(1) _ run all] run by (intro exI [of _ "[?r, ?r]"]) auto
qed

end
