(* ===== verification/Replication_Tracker.thy ===== *)
theory Replication_Tracker
  imports Registry_Model "HOL-Library.AList"
begin

text \<open>
  The progress of the replication tasks (\<open>internal/replication/tracker.go\<close>): a table of one status per source region, source
  cluster, namespace and service. Every operation holds the lock of the tracker. The clock is a parameter.
\<close>

record replication_status =
  rs_SourceRegion :: bytes
  rs_SourceClusterID :: bytes
  rs_Namespace :: bytes
  rs_Service :: bytes
  rs_Connected :: bool
  rs_LastAppliedRevision :: u64
  rs_LastSnapshotRevision :: u64
  rs_LastSyncUnix :: int
  rs_ErrorCount :: u64
  rs_LastError :: bytes

record Tracker =
  tk_status :: "(bytes, replication_status) gomap"

definition NewTracker :: Tracker where
  "NewTracker = \<lparr>tk_status = []\<rparr>"

definition tracker_key :: "bytes \<Rightarrow> bytes \<Rightarrow> bytes \<Rightarrow> bytes \<Rightarrow> bytes" where
  "tracker_key sourceRegion sourceClusterID namespace service =
     sourceRegion @ [CHR 0x00] @ sourceClusterID @ [CHR 0x00] @ namespace @ [CHR 0x00] @ service"

definition zero_status :: replication_status where
  "zero_status = \<lparr>rs_SourceRegion = [], rs_SourceClusterID = [], rs_Namespace = [], rs_Service = [], rs_Connected = False,
     rs_LastAppliedRevision = 0, rs_LastSnapshotRevision = 0, rs_LastSyncUnix = 0, rs_ErrorCount = 0, rs_LastError = []\<rparr>"

text \<open>Reading an entry, or the zero status, with the four names filled in; every operation starts with it.\<close>

definition tracker_item :: "Tracker \<Rightarrow> bytes \<Rightarrow> bytes \<Rightarrow> bytes \<Rightarrow> bytes \<Rightarrow> replication_status" where
  "tracker_item t sourceRegion sourceClusterID namespace service =
     (case map_of (tk_status t) (tracker_key sourceRegion sourceClusterID namespace service) of
        None \<Rightarrow> zero_status | Some item \<Rightarrow> item)
     \<lparr>rs_SourceRegion := sourceRegion, rs_SourceClusterID := sourceClusterID, rs_Namespace := namespace, rs_Service := service\<rparr>"

definition put_item :: "Tracker \<Rightarrow> replication_status \<Rightarrow> Tracker" where
  "put_item t item =
     t\<lparr>tk_status := AList.update (tracker_key (rs_SourceRegion item) (rs_SourceClusterID item) (rs_Namespace item) (rs_Service item))
        item (tk_status t)\<rparr>"

definition SetConnected :: "int \<Rightarrow> bytes \<Rightarrow> bytes \<Rightarrow> bytes \<Rightarrow> bytes \<Rightarrow> bool \<Rightarrow> Tracker \<Rightarrow> Tracker" where
  "SetConnected now sourceRegion sourceClusterID namespace service connected t =
     (let item = (tracker_item t sourceRegion sourceClusterID namespace service)\<lparr>rs_Connected := connected\<rparr> in
      put_item t (if connected then item\<lparr>rs_LastError := [], rs_LastSyncUnix := now\<rparr> else item))"

definition UpdateRevision :: "int \<Rightarrow> bytes \<Rightarrow> bytes \<Rightarrow> bytes \<Rightarrow> bytes \<Rightarrow> u64 \<Rightarrow> u64 \<Rightarrow> Tracker \<Rightarrow> Tracker" where
  "UpdateRevision now sourceRegion sourceClusterID namespace service appliedRevision snapshotRevision t =
     (let item = (tracker_item t sourceRegion sourceClusterID namespace service)\<lparr>rs_Connected := True\<rparr>;
          item1 = (if appliedRevision > rs_LastAppliedRevision item then item\<lparr>rs_LastAppliedRevision := appliedRevision\<rparr> else item);
          item2 = (if snapshotRevision > 0 then item1\<lparr>rs_LastSnapshotRevision := snapshotRevision\<rparr> else item1) in
      put_item t (item2\<lparr>rs_LastSyncUnix := now, rs_LastError := []\<rparr>))"

definition RecordError :: "int \<Rightarrow> bytes \<Rightarrow> bytes \<Rightarrow> bytes \<Rightarrow> bytes \<Rightarrow> bytes \<Rightarrow> Tracker \<Rightarrow> Tracker" where
  "RecordError now sourceRegion sourceClusterID namespace service message t =
     (let item = tracker_item t sourceRegion sourceClusterID namespace service in
      put_item t (item\<lparr>rs_Connected := False, rs_ErrorCount := rs_ErrorCount item + 1, rs_LastError := message,
        rs_LastSyncUnix := now\<rparr>))"

text \<open>\<open>List\<close>: the statuses ordered by region, cluster, namespace and service. Comparing the four names in turn is comparing the lists of them.\<close>

definition tracker_List :: "Tracker \<Rightarrow> replication_status list" where
  "tracker_List t =
     sort_key (\<lambda>s. [rs_SourceRegion s, rs_SourceClusterID s, rs_Namespace s, rs_Service s]) (map snd (tk_status t))"

subsection \<open>Progress\<close>

text \<open>
  The table has one entry per task, filed under its names; the revision listed for a task only grows, an error keeps it and is
  counted, and an update brings it to the larger of the two revisions. \<open>List\<close> shows every entry, in order.
\<close>

definition tracker_ok :: "Tracker \<Rightarrow> bool" where
  "tracker_ok t \<longleftrightarrow> distinct (map fst (tk_status t)) \<and>
     (\<forall>k s. map_of (tk_status t) k = Some s \<longrightarrow>
        k = tracker_key (rs_SourceRegion s) (rs_SourceClusterID s) (rs_Namespace s) (rs_Service s))"

definition progress :: "Tracker \<Rightarrow> bytes \<Rightarrow> u64" where
  "progress t k = (case map_of (tk_status t) k of None \<Rightarrow> 0 | Some s \<Rightarrow> rs_LastAppliedRevision s)"

lemma tracker_ok_put: "tracker_ok t \<Longrightarrow> tracker_ok (put_item t item)"
  by (auto simp: tracker_ok_def put_item_def distinct_update update_conv' split: if_splits)

lemma tracker_ops_ok:
  "tracker_ok NewTracker" "tracker_ok t \<Longrightarrow> tracker_ok (SetConnected now r c n s b t)"
  "tracker_ok t \<Longrightarrow> tracker_ok (UpdateRevision now r c n s a p t)" "tracker_ok t \<Longrightarrow> tracker_ok (RecordError now r c n s m t)"
  by (simp_all add: SetConnected_def UpdateRevision_def RecordError_def Let_def tracker_ok_put)
    (simp add: tracker_ok_def NewTracker_def)

lemma progress_put:
  "progress (put_item t item) k =
     (if k = tracker_key (rs_SourceRegion item) (rs_SourceClusterID item) (rs_Namespace item) (rs_Service item)
      then rs_LastAppliedRevision item else progress t k)"
  by (simp add: progress_def put_item_def update_conv')

lemma tracker_item_names [simp]:
  "rs_SourceRegion (tracker_item t r c n s) = r" "rs_SourceClusterID (tracker_item t r c n s) = c"
  "rs_Namespace (tracker_item t r c n s) = n" "rs_Service (tracker_item t r c n s) = s"
  "rs_LastAppliedRevision (tracker_item t r c n s) = progress t (tracker_key r c n s)"
  by (simp_all add: tracker_item_def progress_def zero_status_def split: option.split)

lemma tracker_progress:
  "progress (SetConnected now r c n s b t) k = progress t k" "progress (RecordError now r c n s m t) k = progress t k"
  "progress (UpdateRevision now r c n s a p t) k =
     (if k = tracker_key r c n s then max a (progress t k) else progress t k)"
  by (auto simp: SetConnected_def RecordError_def UpdateRevision_def Let_def progress_put max_def not_less)

lemma tracker_List_entries: "set (tracker_List t) = snd ` set (tk_status t)" "length (tracker_List t) = length (tk_status t)"
  by (simp_all add: tracker_List_def)

end
