(* ===== verification/Mirror.thy ===== *)
theory Mirror
  imports Cleanup Replication_Tracker Http_Watch
begin

text \<open>
  The mirror of other regions (\<open>internal/app/replication.go\<close>): the leader reads the replication stream of a service in another cluster
  and writes what it reads under the prefix of that cluster, with a checkpoint of the revision it has reached.

  The HTTP client is not part of the sources: \<open>fetch\<close> maps an address and an authorization header to what the request
  brings. The clock is a parameter that is read several times; its readings are numbered.
\<close>

subsection \<open>Targets\<close>

record ReplicationService =
  sv_Namespace :: bytes
  sv_Service :: bytes

record ReplicationTarget =
  tg_SourceRegion :: bytes
  tg_SourceClusterID :: bytes
  tg_BaseURL :: bytes
  tg_Services :: "ReplicationService list"

text \<open>The structs have no tags: the names of their fields are matched without regard to case.\<close>

definition service_fields :: "(bytes \<times> (json \<Rightarrow> ReplicationService \<Rightarrow> ReplicationService option)) list" where
  "service_fields =
     [field ''Namespace'' into_string sv_Namespace (\<lambda>v x. x\<lparr>sv_Namespace := v\<rparr>),
      field ''Service'' into_string sv_Service (\<lambda>v x. x\<lparr>sv_Service := v\<rparr>)]"

definition target_fields :: "(bytes \<times> (json \<Rightarrow> ReplicationTarget \<Rightarrow> ReplicationTarget option)) list" where
  "target_fields =
     [field ''SourceRegion'' into_string tg_SourceRegion (\<lambda>v x. x\<lparr>tg_SourceRegion := v\<rparr>),
      field ''SourceClusterID'' into_string tg_SourceClusterID (\<lambda>v x. x\<lparr>tg_SourceClusterID := v\<rparr>),
      field ''BaseURL'' into_string tg_BaseURL (\<lambda>v x. x\<lparr>tg_BaseURL := v\<rparr>),
      field ''Services'' (into_slice (into_struct service_fields) \<lparr>sv_Namespace = [], sv_Service = []\<rparr>) tg_Services
        (\<lambda>v x. x\<lparr>tg_Services := v\<rparr>)]"

definition zero_target :: ReplicationTarget where
  "zero_target = \<lparr>tg_SourceRegion = [], tg_SourceClusterID = [], tg_BaseURL = [], tg_Services = []\<rparr>"

datatype targets_error =
    TargetsUnreadable
  | TargetsNotJSON
  | TargetIncomplete nat
  | TargetWithoutService nat
  | ServiceIncomplete nat nat

fun check_services :: "nat \<Rightarrow> nat \<Rightarrow> ReplicationService list \<Rightarrow> targets_error + ReplicationService list" where
  "check_services index serviceIndex [] = Inr []"
| "check_services index serviceIndex (s # ss) =
     (let s1 = \<lparr>sv_Namespace = TrimSpace (sv_Namespace s), sv_Service = TrimSpace (sv_Service s)\<rparr> in
      if sv_Namespace s1 = [] \<or> sv_Service s1 = [] then Inl (ServiceIncomplete index serviceIndex)
      else and_then (check_services index (serviceIndex + 1) ss) (\<lambda>ss1. Inr (s1 # ss1)))"

fun check_targets :: "nat \<Rightarrow> ReplicationTarget list \<Rightarrow> targets_error + ReplicationTarget list" where
  "check_targets index [] = Inr []"
| "check_targets index (t # ts) =
     (let region = TrimSpace (tg_SourceRegion t); cluster = TrimSpace (tg_SourceClusterID t);
          baseURL = TrimRight (TrimSpace (tg_BaseURL t)) (CHR ''/'') in
      if region = [] \<or> cluster = [] \<or> baseURL = [] then Inl (TargetIncomplete index)
      else if tg_Services t = [] then Inl (TargetWithoutService index)
      else and_then (check_services index 0 (tg_Services t)) (\<lambda>services.
        and_then (check_targets (index + 1) ts) (\<lambda>ts1.
          Inr (\<lparr>tg_SourceRegion = region, tg_SourceClusterID = cluster, tg_BaseURL = baseURL, tg_Services = services\<rparr> # ts1))))"

text \<open>\<open>os.ReadFile\<close> is a parameter: the contents of the file, if it can be read.\<close>

definition ParseReplicationTargetsFile :: "(bytes \<Rightarrow> bytes option) \<Rightarrow> bytes \<Rightarrow> targets_error + ReplicationTarget list" where
  "ParseReplicationTargetsFile readFile path =
     (case readFile path of
        None \<Rightarrow> Inl TargetsUnreadable
      | Some data \<Rightarrow>
          (case Unmarshal (into_slice (into_struct target_fields) zero_target) data [] of
             None \<Rightarrow> Inl TargetsNotJSON
           | Some targets \<Rightarrow> check_targets 0 targets))"

definition LoadReplicationTargets :: "(bytes \<Rightarrow> bytes option) \<Rightarrow> bytes \<Rightarrow> targets_error + ReplicationTarget list" where
  "LoadReplicationTargets readFile file0 =
     (let file = TrimSpace file0 in if file = [] then Inr [] else ParseReplicationTargetsFile readFile file)"

text \<open>\<open>replicationLoop\<close> starts one goroutine per target and service.\<close>

definition replication_tasks :: "ReplicationTarget list \<Rightarrow> (ReplicationTarget \<times> ReplicationService) list" where
  "replication_tasks targets = concat (map (\<lambda>t. map (Pair t) (tg_Services t)) targets)"

subsection \<open>Writing what was read\<close>

datatype mirror_error =
    MirrorNode node_error
  | BadRevision bytes
  | BadPayload
  | BadStatus nat bytes
  | RequestFailed
  | LineTooLong
  | ReadFailed
  | BadCheckpoint

definition delete_prefix_command :: "bytes \<Rightarrow> Command" where
  "delete_prefix_command p = \<lparr>cmd_Operation = OperationDeletePrefix, cmd_Key = [], cmd_Value = [], cmd_Prefix = p\<rparr>"

definition replicatedValueFromDTO :: "int \<Rightarrow> ReplicationTarget \<Rightarrow> RegistryInstanceDTO \<Rightarrow> u64 \<Rightarrow> ReplicatedValue" where
  "replicatedValueFromDTO now target d revision =
     (let value = \<lparr>v_Namespace = id_Namespace d, v_Service = id_Service d, v_Organization = [], v_BusinessDomain = [],
            v_CapabilityDomain = [], v_Application = [], v_Role = [], v_InstanceID = id_InstanceID d, v_Zone = id_Zone d,
            v_Labels = CloneStringMap (id_Labels d), v_Metadata = CloneStringMap (id_Metadata d), v_Endpoints = id_Endpoints d,
            v_LeaseTTLSeconds = id_LeaseTTLSeconds d, v_RegisteredAtUnix = id_RegisteredAtUnix d,
            v_LastHeartbeatUnix = id_LastHeartbeatUnix d\<rparr> in
      NewReplicatedValue now (tg_SourceRegion target) (tg_SourceClusterID target) revision value now)"

definition replicated_put :: "ReplicatedValue \<Rightarrow> Command" where
  "replicated_put value =
     put_command (ReplicatedKey (rv_SourceRegion value) (rv_SourceClusterID value) (rv_Namespace value) (rv_Service value) (rv_InstanceID value))
       (Marshal replicated_to_json value)"

definition putReplicatedValue :: "'n registryNode \<Rightarrow> ReplicatedValue \<Rightarrow> 'n \<Rightarrow> 'n \<times> mirror_error option" where
  "putReplicatedValue nd value n =
     (case rn_ProposeCommand nd (replicated_put value) n of (n1, e) \<Rightarrow> (n1, map_option MirrorNode e))"

definition task_checkpoint :: "ReplicationTarget \<Rightarrow> ReplicationService \<Rightarrow> u64 \<Rightarrow> u64 \<Rightarrow> int \<Rightarrow> ReplicationCheckpoint" where
  "task_checkpoint target service applied snapshot now =
     \<lparr>rc_SourceRegion = tg_SourceRegion target, rc_SourceClusterID = tg_SourceClusterID target, rc_Namespace = sv_Namespace service,
      rc_Service = sv_Service service, rc_LastAppliedRevision = applied, rc_LastSnapshotRevision = snapshot, rc_UpdatedAtUnix = now\<rparr>"

definition checkpoint_put :: "ReplicationCheckpoint \<Rightarrow> Command" where
  "checkpoint_put c =
     put_command (ReplicationCheckpointKey (rc_SourceRegion c) (rc_SourceClusterID c) (rc_Namespace c) (rc_Service c))
       (Marshal checkpoint_to_json c)"

definition putReplicationCheckpoint ::
  "'n registryNode \<Rightarrow> int \<Rightarrow> ReplicationCheckpoint \<Rightarrow> 'n \<times> Tracker \<Rightarrow> ('n \<times> Tracker) \<times> mirror_error option" where
  "putReplicationCheckpoint nd synced c w =
     (case rn_ProposeCommand nd (checkpoint_put c) (fst w) of
        (n1, Some e) \<Rightarrow> ((n1, snd w), Some (MirrorNode e))
      | (n1, None) \<Rightarrow>
          ((n1, UpdateRevision synced (rc_SourceRegion c) (rc_SourceClusterID c) (rc_Namespace c) (rc_Service c)
              (rc_LastAppliedRevision c) (rc_LastSnapshotRevision c) (snd w)), None))"

text \<open>The readings of the clock while one event is handled: one per value, one for the checkpoint and one for the tracker.\<close>

fun put_instances ::
  "'n registryNode \<Rightarrow> (nat \<Rightarrow> int) \<Rightarrow> ReplicationTarget \<Rightarrow> u64 \<Rightarrow> nat \<Rightarrow> RegistryInstanceDTO list \<Rightarrow> 'n \<Rightarrow> 'n \<times> mirror_error option" where
  "put_instances nd now target revision i [] n = (n, None)"
| "put_instances nd now target revision i (d # ds) n =
     (case putReplicatedValue nd (replicatedValueFromDTO (now i) target d revision) n of
        (n1, Some e) \<Rightarrow> (n1, Some e)
      | (n1, None) \<Rightarrow> put_instances nd now target revision (i + 1) ds n1)"

definition applyReplicationSnapshot ::
  "'n registryNode \<Rightarrow> (nat \<Rightarrow> int) \<Rightarrow> ReplicationTarget \<Rightarrow> ReplicationService \<Rightarrow> ReplicationWatchEventDTO \<Rightarrow> u64 \<Rightarrow>
    'n \<times> Tracker \<Rightarrow> ('n \<times> Tracker) \<times> mirror_error option" where
  "applyReplicationSnapshot nd now target service payload revision w =
     (case rn_ProposeCommand nd (delete_prefix_command (ReplicationServicePrefix (tg_SourceRegion target) (tg_SourceClusterID target)
              (sv_Namespace service) (sv_Service service))) (fst w) of
        (n1, Some e) \<Rightarrow> ((n1, snd w), Some (MirrorNode e))
      | (n1, None) \<Rightarrow>
          (case put_instances nd now target revision 0 (rp_Instances payload) n1 of
             (n2, Some e) \<Rightarrow> ((n2, snd w), Some e)
           | (n2, None) \<Rightarrow>
               (let i = length (rp_Instances payload) in
                putReplicationCheckpoint nd (now (i + 1)) (task_checkpoint target service revision revision (now i)) (n2, snd w))))"

definition applyReplicationUpsert ::
  "'n registryNode \<Rightarrow> (nat \<Rightarrow> int) \<Rightarrow> ReplicationTarget \<Rightarrow> ReplicationService \<Rightarrow> ReplicationWatchEventDTO \<Rightarrow> u64 \<Rightarrow>
    'n \<times> Tracker \<Rightarrow> ('n \<times> Tracker) \<times> mirror_error option" where
  "applyReplicationUpsert nd now target service payload revision w =
     (case rp_Instance payload of
        None \<Rightarrow> putReplicationCheckpoint nd (now 1) (task_checkpoint target service revision 0 (now 0)) w
      | Some d \<Rightarrow>
          (case putReplicatedValue nd (replicatedValueFromDTO (now 0) target d revision) (fst w) of
             (n1, Some e) \<Rightarrow> ((n1, snd w), Some e)
           | (n1, None) \<Rightarrow> putReplicationCheckpoint nd (now 2) (task_checkpoint target service revision 0 (now 1)) (n1, snd w)))"

definition applyReplicationDelete ::
  "'n registryNode \<Rightarrow> (nat \<Rightarrow> int) \<Rightarrow> ReplicationTarget \<Rightarrow> ReplicationService \<Rightarrow> ReplicationWatchEventDTO \<Rightarrow> u64 \<Rightarrow>
    'n \<times> Tracker \<Rightarrow> ('n \<times> Tracker) \<times> mirror_error option" where
  "applyReplicationDelete nd now target service payload revision w =
     (let put = putReplicationCheckpoint nd (now 1) (task_checkpoint target service revision 0 (now 0)) in
      if rp_InstanceID payload = [] then put w
      else case rn_ProposeCommand nd (delete_command (ReplicatedKey (tg_SourceRegion target) (tg_SourceClusterID target)
              (sv_Namespace service) (sv_Service service) (rp_InstanceID payload))) (fst w) of
        (n1, Some e) \<Rightarrow> ((n1, snd w), Some (MirrorNode e))
      | (n1, None) \<Rightarrow> put (n1, snd w))"

definition applyReplicationEvent ::
  "'n registryNode \<Rightarrow> (nat \<Rightarrow> int) \<Rightarrow> ReplicationTarget \<Rightarrow> ReplicationService \<Rightarrow> bytes \<Rightarrow> u64 \<Rightarrow> bytes \<Rightarrow>
    'n \<times> Tracker \<Rightarrow> ('n \<times> Tracker) \<times> mirror_error option" where
  "applyReplicationEvent nd now target service eventType revision data w =
     (if eventType \<notin> {''snapshot'', event_type_name WatchEventUpsert, event_type_name WatchEventDelete} then (w, None)
      else case Unmarshal (into_struct replication_event_fields) data zero_replication_event of
        None \<Rightarrow> (w, Some BadPayload)
      | Some payload \<Rightarrow>
          if eventType = ''snapshot'' then applyReplicationSnapshot nd now target service payload revision w
          else if eventType = event_type_name WatchEventUpsert then applyReplicationUpsert nd now target service payload revision w
          else applyReplicationDelete nd now target service payload revision w)"

subsection \<open>Reading the stream\<close>

text \<open>\<open>fmt.Sscanf\<close> with the verb d: leading digits; what follows them is not looked at.\<close>

definition parseRevision :: "bytes \<Rightarrow> u64 option" where
  "parseRevision raw =
     (let digits = takeWhile is_digit (TrimSpace raw) in
      if digits = [] then None else map_option word_of_nat (ParseUint digits))"

record replicationSSEEvent =
  se_ID :: bytes
  se_Event :: bytes
  se_Data :: bytes

definition zero_sse :: replicationSSEEvent where
  "zero_sse = \<lparr>se_ID = [], se_Event = [], se_Data = []\<rparr>"

definition sse_field :: "bytes \<Rightarrow> replicationSSEEvent \<Rightarrow> replicationSSEEvent" where
  "sse_field line current =
     (if HasPrefix line '':'' then current
      else if HasPrefix line ''id:'' then current\<lparr>se_ID := TrimSpace (TrimPrefix line ''id:'')\<rparr>
      else if HasPrefix line ''event:'' then current\<lparr>se_Event := TrimSpace (TrimPrefix line ''event:'')\<rparr>
      else if HasPrefix line ''data:'' then current\<lparr>se_Data := TrimSpace (TrimPrefix line ''data:'')\<rparr>
      else current)"

text \<open>
  The loop over the lines. Within a connection a revision is handled at most once; \<open>clock r\<close> are the readings of the clock while
  the event of the revision \<open>r\<close> is handled.
\<close>

fun stream_lines ::
  "'n registryNode \<Rightarrow> (u64 \<Rightarrow> nat \<Rightarrow> int) \<Rightarrow> ReplicationTarget \<Rightarrow> ReplicationService \<Rightarrow> bytes list \<Rightarrow> replicationSSEEvent \<Rightarrow> u64 \<Rightarrow>
    'n \<times> Tracker \<Rightarrow> ('n \<times> Tracker) \<times> mirror_error option" where
  "stream_lines nd clock target service [] current currentRevision w = (w, None)"
| "stream_lines nd clock target service (line # rest) current currentRevision w =
     (if line \<noteq> [] then stream_lines nd clock target service rest (sse_field line current) currentRevision w
      else if se_Event current = [] \<or> se_Data current = [] then stream_lines nd clock target service rest zero_sse currentRevision w
      else case parseRevision (se_ID current) of
        None \<Rightarrow> (w, Some (BadRevision (se_ID current)))
      | Some revision \<Rightarrow>
          if \<not> revision > currentRevision then stream_lines nd clock target service rest zero_sse currentRevision w
          else (case applyReplicationEvent nd (clock revision) target service (se_Event current) revision (se_Data current) w of
             (w1, Some e) \<Rightarrow> (w1, Some e)
           | (w1, None) \<Rightarrow> stream_lines nd clock target service rest zero_sse revision w1))"

text \<open>
  \<open>bufio.Scanner\<close> with its line splitter: the lines of the text without their line ends, a last line without one included. A
  line that does not fit the buffer of 10 MiB ends the scan with an error.
\<close>

definition dropCR :: "bytes \<Rightarrow> bytes" where
  "dropCR line = (if line \<noteq> [] \<and> last line = CHR 0x0D then butlast line else line)"

definition raw_lines :: "bytes \<Rightarrow> bytes list" where
  "raw_lines text = (let parts = Split text (CHR 0x0A) in if last parts = [] then butlast parts else parts)"

definition fits_buffer :: "bytes \<Rightarrow> bool" where
  "fits_buffer line \<longleftrightarrow> length line < 10485760"

definition stream_body ::
  "'n registryNode \<Rightarrow> (u64 \<Rightarrow> nat \<Rightarrow> int) \<Rightarrow> ReplicationTarget \<Rightarrow> ReplicationService \<Rightarrow> bytes \<Rightarrow> bool \<Rightarrow>
    'n \<times> Tracker \<Rightarrow> ('n \<times> Tracker) \<times> mirror_error option" where
  "stream_body nd clock target service body broken w =
     (let text = raw_lines body in
      case stream_lines nd clock target service (map dropCR (takeWhile fits_buffer text)) zero_sse 0 w of
        (w1, Some e) \<Rightarrow> (w1, Some e)
      | (w1, None) \<Rightarrow> (w1, if \<not> list_all fits_buffer text then Some LineTooLong else if broken then Some ReadFailed else None))"

subsection \<open>A connection\<close>

definition hex_upper :: "nat \<Rightarrow> char" where
  "hex_upper d = (if d < 10 then char_of (48 + d) else char_of (55 + d))"

text \<open>\<open>url.QueryEscape\<close> and \<open>Values.Encode\<close> for the three parameters, whose names are already in order.\<close>

definition query_unreserved :: "char \<Rightarrow> bool" where
  "query_unreserved c \<longleftrightarrow>
     (let b = of_char c :: nat in
      48 \<le> b \<and> b \<le> 57 \<or> 65 \<le> b \<and> b \<le> 90 \<or> 97 \<le> b \<and> b \<le> 122 \<or> c \<in> set ''-_.~'')"

definition QueryEscape :: "bytes \<Rightarrow> bytes" where
  "QueryEscape s = concat (map (\<lambda>c. if query_unreserved c then [c] else if c = CHR '' '' then ''+''
     else [CHR ''%'', hex_upper (of_char c div 16), hex_upper (of_char c mod 16)]) s)"

definition buildReplicationWatchURL :: "bytes \<Rightarrow> ReplicationService \<Rightarrow> u64 \<Rightarrow> bytes" where
  "buildReplicationWatchURL baseURL service sinceRevision =
     TrimRight baseURL (CHR ''/'') @ ''/internal/v1/replication/watch?'' @
     ''namespace='' @ QueryEscape (sv_Namespace service) @ ''&service='' @ QueryEscape (sv_Service service) @
     (if sinceRevision > 0 then ''&sinceRevision='' @ QueryEscape (FormatUint (unat sinceRevision)) else [])"

definition readReplicationCheckpoint ::
  "'n registryNode \<Rightarrow> ReplicationTarget \<Rightarrow> ReplicationService \<Rightarrow> 'n \<Rightarrow> 'n \<times> (mirror_error + ReplicationCheckpoint)" where
  "readReplicationCheckpoint nd target service n =
     (case rn_Get nd (ReplicationCheckpointKey (tg_SourceRegion target) (tg_SourceClusterID target) (sv_Namespace service)
            (sv_Service service)) n of
        (n1, Inl e) \<Rightarrow> (n1, Inl (MirrorNode e))
      | (n1, Inr data) \<Rightarrow>
          (n1, if data = [] then Inr zero_checkpoint
               else case Unmarshal (into_struct checkpoint_fields) data zero_checkpoint of
                 None \<Rightarrow> Inl BadCheckpoint | Some c \<Rightarrow> Inr c))"

text \<open>What a request brings: nothing, or a status and the body as far as it was read, and whether reading it broke off.\<close>

datatype response = NoResponse | Response nat bytes bool

definition track :: "ReplicationTarget \<Rightarrow> ReplicationService \<Rightarrow> int \<Rightarrow> bool \<Rightarrow> Tracker \<Rightarrow> Tracker" where
  "track target service now connected t =
     SetConnected now (tg_SourceRegion target) (tg_SourceClusterID target) (sv_Namespace service) (sv_Service service) connected t"

definition runReplicationStream ::
  "'n registryNode \<Rightarrow> (bytes \<Rightarrow> bytes \<Rightarrow> response) \<Rightarrow> bytes \<Rightarrow> (u64 \<Rightarrow> nat \<Rightarrow> int) \<Rightarrow> int \<Rightarrow> mirror_error option \<Rightarrow> ReplicationTarget \<Rightarrow>
    ReplicationService \<Rightarrow> 'n \<times> Tracker \<Rightarrow> ('n \<times> Tracker) \<times> mirror_error option" where
  "runReplicationStream nd fetch token clock now ctxErr target service w =
     (case readReplicationCheckpoint nd target service (fst w) of
        (n1, Inl e) \<Rightarrow> ((n1, snd w), Some e)
      | (n1, Inr checkpoint) \<Rightarrow>
          (case fetch (buildReplicationWatchURL (tg_BaseURL target) service (rc_LastAppliedRevision checkpoint)) (''Bearer '' @ token) of
             NoResponse \<Rightarrow> ((n1, snd w), Some RequestFailed)
           | Response status body broken \<Rightarrow>
               if status \<noteq> 200 then ((n1, snd w), Some (BadStatus status (TrimSpace body)))
               else (case stream_body nd clock target service body broken (n1, track target service now True (snd w)) of
                  (w1, Some e) \<Rightarrow> (w1, Some e)
                | (w1, None) \<Rightarrow> (w1, ctxErr))))"

definition errorsIsContext :: "mirror_error \<Rightarrow> bool" where
  "errorsIsContext e \<longleftrightarrow> e = MirrorNode ContextDone"

text \<open>One turn of \<open>replicateServiceLoop\<close>. \<open>message\<close> is the text of an error.\<close>

definition replicate_turn ::
  "'n registryNode \<Rightarrow> (bytes \<Rightarrow> bytes \<Rightarrow> response) \<Rightarrow> bytes \<Rightarrow> (u64 \<Rightarrow> nat \<Rightarrow> int) \<Rightarrow> int \<Rightarrow> (mirror_error \<Rightarrow> bytes) \<Rightarrow> mirror_error option \<Rightarrow>
    ReplicationTarget \<Rightarrow> ReplicationService \<Rightarrow> 'n \<times> Tracker \<Rightarrow> 'n \<times> Tracker" where
  "replicate_turn nd fetch token clock now message ctxErr target service w =
     (let w0 = (fst w, track target service now False (snd w)) in
      if \<not> isRegistryCleanupLeader (rn_Status nd (fst w)) then w0
      else case runReplicationStream nd fetch token clock now ctxErr target service w0 of
        (w1, None) \<Rightarrow> w1
      | (w1, Some e) \<Rightarrow>
          if errorsIsContext e then w1
          else (fst w1, RecordError now (tg_SourceRegion target) (tg_SourceClusterID target) (sv_Namespace service) (sv_Service service)
            (message e) (snd w1)))"

end
