(* ===== verification/Mirror_Wire.thy ===== *)
theory Mirror_Wire
  imports Mirror Selector_Correct Request_Text
begin

text \<open>
  The wire between the replication stream and the mirror: the transfer objects survive their JSON form, and the bytes of a
  stream are read back as the frames that were written.
\<close>

subsection \<open>Instances and events as JSON\<close>

definition value_of_instance :: "RegistryInstanceDTO \<Rightarrow> Value" where
  "value_of_instance d =
     \<lparr>v_Namespace = id_Namespace d, v_Service = id_Service d, v_Organization = id_Organization d,
      v_BusinessDomain = id_BusinessDomain d, v_CapabilityDomain = id_CapabilityDomain d, v_Application = id_Application d,
      v_Role = id_Role d, v_InstanceID = id_InstanceID d, v_Zone = id_Zone d, v_Labels = id_Labels d, v_Metadata = id_Metadata d,
      v_Endpoints = id_Endpoints d, v_LeaseTTLSeconds = id_LeaseTTLSeconds d, v_RegisteredAtUnix = id_RegisteredAtUnix d,
      v_LastHeartbeatUnix = id_LastHeartbeatUnix d\<rparr>"

definition text_instance :: "RegistryInstanceDTO \<Rightarrow> bool" where
  "text_instance d \<longleftrightarrow> utf8_value (value_of_instance d) \<and> typed_value (value_of_instance d)"

definition sort_instance :: "RegistryInstanceDTO \<Rightarrow> RegistryInstanceDTO" where
  "sort_instance d = d\<lparr>id_Labels := sort_key fst (id_Labels d), id_Metadata := sort_key fst (id_Metadata d)\<rparr>"

lemma put_omitted_endpoints:
  assumes "map_of fs n = Some (\<lambda>j x. map_option (\<lambda>v. upd v x) (into_slice (into_struct endpoint_fields) zero_endpoint j (get x)))"
    "upd [] x = x" "get x = []" "list_all utf8_endpoint es" "list_all (\<lambda>e. i32 (ep_Port e) \<and> i32 (ep_Weight e)) es"
  shows "put_fields fs (omitempty n (es = []) (clean_json (endpoints_to_json es)) @ ms) x = put_fields fs ms (upd es x)"
  by (rule put_omitted [where into = "into_slice (into_struct endpoint_fields) zero_endpoint", OF assms(1)])
    (use assms(2-) in \<open>auto simp: endpoints_json\<close>)

lemma wf_instance [simp]: "wf_json (instance_to_json d)"
  by (simp add: instance_to_json_def omitempty_def endpoints_json)

lemma instance_json:
  assumes "text_instance d"
  shows "into_struct instance_fields (clean_json (instance_to_json d)) zero_instance = Some (sort_instance d)"
  using assms
  by (simp add: instance_to_json_def instance_fields_def zero_instance_def field_def sanitize_ascii utf8_value_def typed_value_def
    text_instance_def value_of_instance_def sort_instance_def utf8_def clean_omitempty put_omitted_string put_omitted_map
    put_omitted_endpoints put_next del: put_fields.simps(2))

definition text_event :: "ReplicationWatchEventDTO \<Rightarrow> bool" where
  "text_event e \<longleftrightarrow>
     list_all utf8 [rp_Type e, rp_Namespace e, rp_Service e, rp_Organization e, rp_BusinessDomain e, rp_CapabilityDomain e,
       rp_Application e, rp_Role e, rp_InstanceID e, rp_SourceRegion e, rp_SourceClusterID e] \<and>
     is_i64 (rp_ExportedAtUnix e) \<and> pred_option text_instance (rp_Instance e) \<and> list_all text_instance (rp_Instances e)"

definition sort_event :: "ReplicationWatchEventDTO \<Rightarrow> ReplicationWatchEventDTO" where
  "sort_event e = e\<lparr>rp_Instance := map_option sort_instance (rp_Instance e), rp_Instances := map sort_instance (rp_Instances e)\<rparr>"

lemma clean_instance_object: "\<exists>ms. clean_json (instance_to_json d) = JObj ms"
  by (simp add: instance_to_json_def)

lemma into_ptr_object: "(\<exists>ms. j = JObj ms) \<Longrightarrow> into_ptr into zero j None = map_option Some (into j zero)"
  by auto

lemma put_omitted_number:
  assumes "map_of fs n = Some (\<lambda>j x. map_option (\<lambda>v. upd v x) (into_i64 j (get x)))" "upd 0 x = x" "is_i64 i"
  shows "put_fields fs (omitempty n (i = 0) (jint i) @ ms) x = put_fields fs ms (upd i x)"
  by (rule put_omitted [where into = into_i64, OF assms(1)]) (use assms(2-) in auto)

lemma put_instance:
  assumes "map_of fs n = Some (\<lambda>j x. map_option (\<lambda>v. upd v x) (into_ptr (into_struct instance_fields) zero_instance j (get x)))"
    "get x = None" "upd None x = x" "pred_option text_instance p" "is_ascii n"
  shows "put_fields fs (clean_members (case p of None \<Rightarrow> [] | Some i \<Rightarrow> [(n, instance_to_json i)]) @ ms) x =
     put_fields fs ms (upd (map_option sort_instance p) x)"
proof (cases p)
  case (Some i)
  with assms(4) instance_json [of i] into_ptr_object [OF clean_instance_object, of "into_struct instance_fields" zero_instance i]
  have "into_ptr (into_struct instance_fields) zero_instance (clean_json (instance_to_json i)) (get x) = Some (Some (sort_instance i))"
    by (simp add: assms(2))
  with Some assms(1,5) show ?thesis by (simp add: put_next sanitize_ascii del: put_fields.simps(2))
qed (simp add: assms(3))

lemma put_instances_slice:
  assumes "map_of fs n = Some (\<lambda>j x. map_option (\<lambda>v. upd v x) (into_slice (into_struct instance_fields) zero_instance j (get x)))"
    "upd [] x = x" "list_all text_instance ds"
  shows "put_fields fs (omitempty n (ds = []) (JArr (map (clean_json \<circ> instance_to_json) ds))) x = Some (upd (map sort_instance ds) x)"
proof (cases "ds = []")
  case False
  have "those (map ((\<lambda>j. into_struct instance_fields j zero_instance) \<circ> (clean_json \<circ> instance_to_json)) ds) = Some (map sort_instance ds)"
    by (rule those_map_Some) (use assms(3) in \<open>auto simp: list_all_iff instance_json\<close>)
  with False assms(1) show ?thesis by (simp add: omitempty_def put_next comp_def del: put_fields.simps(2))
qed (simp add: assms(2) omitempty_def)

lemma event_json:
  assumes "text_event e"
  shows "into_struct replication_event_fields (clean_json (replication_event_to_json e)) zero_replication_event = Some (sort_event e)"
  using assms
  by (simp add: replication_event_to_json_def replication_event_fields_def zero_replication_event_def field_def sanitize_ascii 
    text_event_def sort_event_def utf8_def clean_omitempty put_omitted_string put_omitted_number put_instance put_instances_slice
    put_next is_ascii_def del: put_fields.simps(2))

lemma wf_event: "wf_json (replication_event_to_json e)"
  by (auto simp: replication_event_to_json_def omitempty_def wf_elems_iff split: option.split)

lemma event_roundtrip:
  "text_event e \<Longrightarrow>
     Unmarshal (into_struct replication_event_fields) (Marshal replication_event_to_json e) zero_replication_event = Some (sort_event e)"
  by (simp add: Unmarshal_Marshal wf_event event_json)

subsection \<open>JSON text has no control characters\<close>

definition printable :: "bytes \<Rightarrow> bool" where
  "printable s \<longleftrightarrow> list_all (\<lambda>c. 0x20 \<le> (of_char c :: nat)) s"

lemma printable_simps [simp]:
  "printable []" "printable (c # s) \<longleftrightarrow> 0x20 \<le> (of_char c :: nat) \<and> printable s" "printable (s @ t) \<longleftrightarrow> printable s \<and> printable t"
  by (simp_all add: printable_def)

lemma printable_hex: "d < 16 \<Longrightarrow> 0x20 \<le> (of_char (Go_Json_Text.hex_digit d) :: nat)"
  by (auto simp: Go_Json_Text.hex_digit_def)

lemma printable_escape: "(of_char c :: nat) < 0x80 \<Longrightarrow> printable (escape_ascii c)"
  by (auto simp: escape_ascii_def Let_def printable_hex less_mult_imp_div_less)

lemma DecodeRune_bytes:
  assumes "DecodeRune (c # s) = (r, w)" "\<not> (r = rune_error \<and> w = 1)" "0x80 \<le> (of_char c :: nat)"
  shows "printable (take w (c # s))"
  using assms by (auto simp: DecodeRune.simps(2) Let_def cont_byte_def second_ok_def split: if_splits list.splits)

lemma printable_runes: "printable (enc_runes s)"
proof (induction s rule: enc_runes.induct)
  case (2 c s)
  obtain r w where rw: "DecodeRune (c # s) = (r, w)" by fastforce
  show ?case
  proof (cases "(of_char c :: nat) < 0x80")
    case True
    with 2(1) show ?thesis by (simp add: enc_runes.simps(2) printable_escape)
  next
    case False
    with rw 2(2-4) [OF False rw [symmetric]] DecodeRune_bytes [OF rw] printable_hex [of "r mod 16"] show ?thesis
      by (auto simp: enc_runes.simps(2))
  qed
qed simp

lemma printable_number: "int_literal s \<Longrightarrow> printable s"
  by (cases s) (auto simp: int_literal_def printable_def list_all_iff is_digit_def split: if_splits)

lemma printable_json:
  "wf_json j \<Longrightarrow> printable (enc_json j)" "wf_elems xs \<Longrightarrow> printable (enc_elems xs)" "wf_members ms \<Longrightarrow> printable (enc_members ms)"
proof (induction j and xs and ms rule: enc_json_enc_elems_enc_members.induct)
qed (auto simp: enc_string_def printable_runes printable_number)

lemma printable_no_newline: "printable s \<Longrightarrow> CHR 0x0A \<notin> set s \<and> CHR 0x0D \<notin> set s"
  by (auto simp: printable_def list_all_iff)

subsection \<open>Lines\<close>

lemma raw_lines_append:
  assumes "CHR 0x0A \<notin> set x"
  shows "raw_lines (x @ CHR 0x0A # t) = x # raw_lines t"
  using assms by (simp add: raw_lines_def Split_append_sep Let_def)

lemma raw_lines_Nil [simp]: "raw_lines [] = []"
  by (simp add: raw_lines_def)

lemma dropCR_plain: "CHR 0x0D \<notin> set x \<Longrightarrow> dropCR x = x"
  by (cases "x = []") (auto simp: dropCR_def dest: last_in_set)

lemma TrimSpace_blank: "TrimSpace (CHR '' '' # s) = TrimSpace s"
proof -
  have "find (\<lambda>p. p \<noteq> [] \<and> HasPrefix (CHR '' '' # s) p) space_seqs = Some [CHR '' '']"
    by (simp add: space_seqs_def HasPrefix_def)
  then have "strip_left space_seqs (CHR '' '' # s) = strip_left space_seqs s"
    by (subst strip_left.simps) simp
  then show ?thesis by (simp add: TrimSpace_def)
qed

lemma TrimSpace_object: "TrimSpace (Marshal to x) = Marshal to x" if "\<exists>ms. to x = JObj ms"
  using that by (auto simp: Marshal_def trimmed_iff [symmetric] intro!: trimmed_solid simp: solid_def)

lemma digits_solid: "list_all is_digit s \<Longrightarrow> trimmed s"
proof (rule trimmed_solid)
  assume d: "list_all is_digit s"
  then have "solid c" if "c \<in> set s" for c using that by (auto simp: solid_def is_digit_def list_all_iff)
  then show "s = [] \<or> solid (hd s) \<and> solid (last s)" by (cases "s = []") simp_all
qed

lemma parseRevision_Format [simp]: "parseRevision (FormatUint (unat r)) = Some r"
proof -
  have d: "list_all is_digit (FormatUint (unat r))" by (rule FormatUint_digits)
  then have "takeWhile is_digit (FormatUint (unat r)) = FormatUint (unat r)" by (simp add: list_all_iff)
  moreover have "TrimSpace (FormatUint (unat r)) = FormatUint (unat r)" using digits_solid [OF d] by (simp add: trimmed_iff)
  moreover have "FormatUint (unat r) \<noteq> []" by (subst FormatUint.simps) simp
  ultimately show ?thesis using unsigned_less [of r, where ?'a = nat] by (simp add: parseRevision_def ParseUint_FormatUint del: takeWhile_eq_all_conv)
qed

subsection \<open>Frames\<close>

definition frame_type_ok :: "bytes \<Rightarrow> bool" where
  "frame_type_ok ty \<longleftrightarrow> ty \<in> {''snapshot'', event_type_name WatchEventUpsert, event_type_name WatchEventDelete}"

fun frame_lines :: "ReplicationWatchEventDTO stream_frame \<Rightarrow> bytes list" where
  "frame_lines Ping = ['': ping'', []]"
| "frame_lines (Frame r ty p) =
     [''id: '' @ FormatUint (unat r), ''event: '' @ ty, ''data: '' @ Marshal replication_event_to_json p, []]"

fun frame_ok :: "ReplicationWatchEventDTO stream_frame \<Rightarrow> bool" where
  "frame_ok Ping = True"
| "frame_ok (Frame r ty p) = frame_type_ok ty"

lemma type_printable: "frame_type_ok ty \<Longrightarrow> printable ty \<and> trimmed ty \<and> ty \<noteq> []"
  by (auto simp: frame_type_ok_def intro!: trimmed_solid) (simp_all add: solid_def)

lemma event_text: "printable (Marshal replication_event_to_json p)" "Marshal replication_event_to_json p \<noteq> []"
  "TrimSpace (Marshal replication_event_to_json p) = Marshal replication_event_to_json p"
  using printable_json(1) [OF wf_event [of p]] TrimSpace_object [of replication_event_to_json p]
  by (simp_all add: Marshal_def replication_event_to_json_def)

lemma printable_digits: "printable (FormatUint n)"
  using FormatUint_digits [of n] by (auto simp: printable_def list_all_iff is_digit_def)

lemma frame_lines_printable: "frame_ok f \<Longrightarrow> l \<in> set (frame_lines f) \<Longrightarrow> printable l"
  using printable_digits type_printable event_text(1) by (cases f) auto

text \<open>The lines of the bytes of a stream.\<close>

lemma sse_frame_lines: "sse_frame replication_event_to_json f = concat (map (\<lambda>l. l @ [CHR 0x0A]) (frame_lines f))"
  by (cases f) (simp_all add: writeSSEEvent_def writeSSEPing_def)

lemma raw_lines_concat: "(\<And>l. l \<in> set ls \<Longrightarrow> CHR 0x0A \<notin> set l) \<Longrightarrow> raw_lines (concat (map (\<lambda>l. l @ [CHR 0x0A]) ls)) = ls"
  by (induction ls) (simp_all add: raw_lines_append)

lemma stream_text:
  assumes "list_all frame_ok fs"
  shows "raw_lines (concat (map (sse_frame replication_event_to_json) fs)) = concat (map frame_lines fs)"
    "map dropCR (concat (map frame_lines fs)) = concat (map frame_lines fs)"
proof -
  have nl: "CHR 0x0A \<notin> set l \<and> CHR 0x0D \<notin> set l" if "l \<in> set (concat (map frame_lines fs))" for l
    using that assms frame_lines_printable printable_no_newline by (fastforce simp: list_all_iff)
  have "concat (map (sse_frame replication_event_to_json) fs) = concat (map (\<lambda>l. l @ [CHR 0x0A]) (concat (map frame_lines fs)))"
    by (induction fs) (simp_all add: sse_frame_lines)
  moreover have "raw_lines (concat (map (\<lambda>l. l @ [CHR 0x0A]) (concat (map frame_lines fs)))) = concat (map frame_lines fs)"
    by (rule raw_lines_concat) (use nl in blast)
  ultimately show "raw_lines (concat (map (sse_frame replication_event_to_json) fs)) = concat (map frame_lines fs)" by simp
  show "map dropCR (concat (map frame_lines fs)) = concat (map frame_lines fs)"
    using nl dropCR_plain by (intro map_idI) blast
qed

text \<open>What the mirror does with frames: those that do not advance the revision are passed over.\<close>

fun run_frames ::
  "'n registryNode \<Rightarrow> (u64 \<Rightarrow> nat \<Rightarrow> int) \<Rightarrow> ReplicationTarget \<Rightarrow> ReplicationService \<Rightarrow> ReplicationWatchEventDTO stream_frame list \<Rightarrow>
    u64 \<Rightarrow> 'n \<times> Tracker \<Rightarrow> ('n \<times> Tracker) \<times> mirror_error option" where
  "run_frames nd clock target service [] current w = (w, None)"
| "run_frames nd clock target service (Ping # fs) current w = run_frames nd clock target service fs current w"
| "run_frames nd clock target service (Frame r ty p # fs) current w =
     (if \<not> r > current then run_frames nd clock target service fs current w
      else case applyReplicationEvent nd (clock r) target service ty r (Marshal replication_event_to_json p) w of
        (w1, Some e) \<Rightarrow> (w1, Some e)
      | (w1, None) \<Rightarrow> run_frames nd clock target service fs r w1)"

lemma sse_fields:
  "sse_field (''id: '' @ s) c = c\<lparr>se_ID := TrimSpace s\<rparr>" "sse_field (''event: '' @ s) c = c\<lparr>se_Event := TrimSpace s\<rparr>"
  "sse_field (''data: '' @ s) c = c\<lparr>se_Data := TrimSpace s\<rparr>" "sse_field '': ping'' c = c"
  by (simp_all add: sse_field_def HasPrefix_def TrimPrefix_def TrimSpace_blank)

lemma TrimSpace_digits [simp]: "TrimSpace (FormatUint n) = FormatUint n"
  using digits_solid [OF FormatUint_digits] by (simp add: trimmed_iff)

lemma stream_lines_frames:
  "list_all frame_ok fs \<Longrightarrow>
     stream_lines nd clock target service (concat (map frame_lines fs)) zero_sse current w = run_frames nd clock target service fs current w"
proof (induction fs arbitrary: current w)
  case (Cons f fs)
  show ?case
  proof (cases f)
    case (Frame r ty p)
    then have ty: "TrimSpace ty = ty" "ty \<noteq> []" using Cons.prems type_printable by (auto simp: trimmed_iff)
    show ?thesis
      using Cons by (simp add: Frame sse_fields [simplified] zero_sse_def ty event_text(2,3) eval_nat_numeral split: prod.split option.split)
  next
    case Ping
    then show ?thesis using Cons by (simp add: sse_fields [simplified] zero_sse_def)
  qed
qed simp

lemma stream_read_back:
  assumes "list_all frame_ok fs" "list_all (list_all fits_buffer \<circ> frame_lines) fs"
  shows "stream_body nd clock target service (concat (map (sse_frame replication_event_to_json) fs)) broken w =
     (case run_frames nd clock target service fs 0 w of
        (w1, Some e) \<Rightarrow> (w1, Some e) | (w1, None) \<Rightarrow> (w1, if broken then Some ReadFailed else None))"
proof -
  have fit: "list_all fits_buffer (concat (map frame_lines fs))" using assms(2) by (induction fs) auto
  then have "takeWhile fits_buffer (concat (map frame_lines fs)) = concat (map frame_lines fs)"
    by (subst takeWhile_eq_all_conv) (simp only: list_all_iff)
  with fit show ?thesis
    unfolding stream_body_def Let_def stream_text [OF assms(1)] by (simp only: stream_text [OF assms(1)] stream_lines_frames [OF assms(1)]) simp
qed

end
