(* ===== verification/Mirror_Props.thy ===== *)
theory Mirror_Props
  imports Mirror_Wire Watch_Stream
begin

text \<open>
  The mirror converges to its source. The commands that the mirror proposes for a frame make it a client of the watch stream
  in the sense of \<open>Watch_Client\<close>; together with the reading of the wire this gives the agreement of two clusters. An interrupted
  snapshot, on the other hand, loses instances for good.
\<close>

subsection \<open>The commands of a frame\<close>

definition checkpoint_command :: "ReplicationTarget \<Rightarrow> ReplicationService \<Rightarrow> u64 \<Rightarrow> u64 \<Rightarrow> int \<Rightarrow> Command" where
  "checkpoint_command target service applied snapshot now = checkpoint_put (task_checkpoint target service applied snapshot now)"

definition instance_puts :: "(nat \<Rightarrow> int) \<Rightarrow> ReplicationTarget \<Rightarrow> u64 \<Rightarrow> nat \<Rightarrow> RegistryInstanceDTO list \<Rightarrow> Command list" where
  "instance_puts now target r i ds = map (\<lambda>(j, d). replicated_put (replicatedValueFromDTO (now j) target d r)) (enumerate i ds)"

definition service_prefix :: "ReplicationTarget \<Rightarrow> ReplicationService \<Rightarrow> bytes" where
  "service_prefix target service =
     ReplicationServicePrefix (tg_SourceRegion target) (tg_SourceClusterID target) (sv_Namespace service) (sv_Service service)"

definition mirror_key :: "ReplicationTarget \<Rightarrow> ReplicationService \<Rightarrow> bytes \<Rightarrow> bytes" where
  "mirror_key target service instanceID =
     ReplicatedKey (tg_SourceRegion target) (tg_SourceClusterID target) (sv_Namespace service) (sv_Service service) instanceID"

definition event_commands ::
  "(nat \<Rightarrow> int) \<Rightarrow> ReplicationTarget \<Rightarrow> ReplicationService \<Rightarrow> bytes \<Rightarrow> u64 \<Rightarrow> RegistryInstanceDTO option \<Rightarrow> RegistryInstanceDTO list \<Rightarrow>
    bytes \<Rightarrow> Command list" where
  "event_commands now target service ty r inst insts iid =
     (if ty = ''snapshot'' then
        delete_prefix_command (service_prefix target service) # instance_puts now target r 0 insts
        @ [checkpoint_command target service r r (now (length insts))]
      else if ty = event_type_name WatchEventUpsert then
        (case inst of
           None \<Rightarrow> [checkpoint_command target service r 0 (now 0)]
         | Some d \<Rightarrow> [replicated_put (replicatedValueFromDTO (now 0) target d r), checkpoint_command target service r 0 (now 1)])
      else if ty = event_type_name WatchEventDelete then
        (if iid = [] then [] else [delete_command (mirror_key target service iid)]) @ [checkpoint_command target service r 0 (now 0)]
      else [])"

lemma checkpoint_recorded:
  assumes "putReplicationCheckpoint (recording nd) synced c ((n, cs), t) = (((n', cs'), t'), e)"
  shows "cs' = cs @ [checkpoint_put c]"
  using assms by (auto simp: putReplicationCheckpoint_def split: prod.splits option.splits)

lemma instances_recorded:
  "put_instances (recording nd) now target r i ds (n, cs) = ((n', cs'), e) \<Longrightarrow>
     \<exists>k. cs' = cs @ take k (instance_puts now target r i ds) \<and> (e = None \<longrightarrow> cs' = cs @ instance_puts now target r i ds)"
proof (induction ds arbitrary: i n cs)
  case (Cons d ds)
  let ?c = "replicated_put (replicatedValueFromDTO (now i) target d r)"
  obtain n1 e1 where p: "rn_ProposeCommand nd ?c n = (n1, e1)" by fastforce
  show ?case
  proof (cases e1)
    case None
    with Cons.prems p have "put_instances (recording nd) now target r (i + 1) ds (n1, cs @ [?c]) = ((n', cs'), e)"
      by (simp add: putReplicatedValue_def)
    from Cons.IH [OF this] obtain k where "cs' = (cs @ [?c]) @ take k (instance_puts now target r (i + 1) ds)"
      "e = None \<longrightarrow> cs' = (cs @ [?c]) @ instance_puts now target r (i + 1) ds" by blast
    then show ?thesis by (intro exI [of _ "Suc k"]) (simp add: instance_puts_def)
  next
    case (Some x)
    with Cons.prems p show ?thesis by (intro exI [of _ 1]) (auto simp: putReplicatedValue_def instance_puts_def)
  qed
qed (simp add: instance_puts_def)

text \<open>An event that is handled without an error has proposed its commands; one that fails has proposed a first part of them.\<close>

definition proposed :: "Command list \<Rightarrow> Command list \<Rightarrow> 'e option \<Rightarrow> Command list \<Rightarrow> bool" where
  "proposed cs cs' e all \<longleftrightarrow> (\<exists>k. cs' = cs @ take k all) \<and> (e = None \<longrightarrow> cs' = cs @ all)"

lemma proposedI: "cs' = cs @ ds \<Longrightarrow> all = ds @ ds' \<Longrightarrow> (e = None \<Longrightarrow> ds' = []) \<Longrightarrow> proposed cs cs' e all"
  by (auto simp: proposed_def intro: exI [of _ "length ds"])

lemma snapshot_recorded:
  assumes "applyReplicationSnapshot (recording nd) now target service p r ((n, cs), t) = (((n', cs'), t'), e)"
  shows "proposed cs cs' e (event_commands now target service ''snapshot'' r (rp_Instance p) (rp_Instances p) (rp_InstanceID p))"
proof -
  let ?del = "delete_prefix_command (service_prefix target service)"
    and ?puts = "instance_puts now target r 0 (rp_Instances p)"
    and ?cp = "checkpoint_command target service r r (now (length (rp_Instances p)))"
  have all: "event_commands now target service ''snapshot'' r (rp_Instance p) (rp_Instances p) (rp_InstanceID p) = ?del # ?puts @ [?cp]"
    by (simp add: event_commands_def)
  obtain n1 e1 where d: "rn_ProposeCommand nd ?del n = (n1, e1)" by fastforce
  show ?thesis
  proof (cases e1)
    case (Some x)
    with d assms have "cs' = cs @ [?del]" "e \<noteq> None" by (auto simp: applyReplicationSnapshot_def service_prefix_def)
    then show ?thesis unfolding all by (intro proposedI [of cs' cs "[?del]" _ "?puts @ [?cp]"]) simp_all
  next
    case None
    obtain n2 cs2 e2 where i: "put_instances (recording nd) now target r 0 (rp_Instances p) (n1, cs @ [?del]) = ((n2, cs2), e2)"
      by (metis prod.exhaust)
    from instances_recorded [OF i] obtain k where k: "cs2 = (cs @ [?del]) @ take k ?puts" "e2 = None \<longrightarrow> cs2 = (cs @ [?del]) @ ?puts"
      by blast
    show ?thesis
    proof (cases e2)
      case (Some x)
      with d None i assms have "cs' = cs2" "e \<noteq> None" by (auto simp: applyReplicationSnapshot_def service_prefix_def)
      with k(1) show ?thesis unfolding all
        by (intro proposedI [of cs' cs "?del # take k ?puts" _ "drop k ?puts @ [?cp]"]) simp_all
    next
      case n: None
      with d None i assms k(2) have "cs' = cs2 @ [?cp]"
        by (auto simp: applyReplicationSnapshot_def service_prefix_def Let_def checkpoint_command_def dest!: checkpoint_recorded)
      with k(2) n show ?thesis unfolding all by (intro proposedI [of cs' cs "?del # ?puts @ [?cp]" _ "[]"]) simp_all
    qed
  qed
qed

lemma upsert_recorded:
  assumes "applyReplicationUpsert (recording nd) now target service p r ((n, cs), t) = (((n', cs'), t'), e)"
  shows "proposed cs cs' e (event_commands now target service (event_type_name WatchEventUpsert) r (rp_Instance p) (rp_Instances p) (rp_InstanceID p))"
proof (cases "rp_Instance p")
  case None
  with assms have "cs' = cs @ [checkpoint_command target service r 0 (now 0)]"
    by (auto simp: applyReplicationUpsert_def checkpoint_command_def dest!: checkpoint_recorded)
  with None show ?thesis by (intro proposedI [where ds' = "[]"]) (simp_all add: event_commands_def)
next
  case (Some d)
  let ?c = "replicated_put (replicatedValueFromDTO (now 0) target d r)"
  obtain n1 e1 where p: "rn_ProposeCommand nd ?c n = (n1, e1)" by fastforce
  have all: "event_commands now target service (event_type_name WatchEventUpsert) r (rp_Instance p) (rp_Instances p) (rp_InstanceID p) =
      [?c, checkpoint_command target service r 0 (now 1)]" by (simp add: event_commands_def Some)
  show ?thesis
  proof (cases e1)
    case None
    with Some p assms have "cs' = cs @ [?c, checkpoint_command target service r 0 (now 1)]"
      by (auto simp: applyReplicationUpsert_def putReplicatedValue_def checkpoint_command_def dest!: checkpoint_recorded)
    then show ?thesis unfolding all by (intro proposedI [where ds' = "[]"]) simp_all
  next
    case (Some x)
    with \<open>rp_Instance p = Some d\<close> p assms have "cs' = cs @ [?c]" "e \<noteq> None"
      by (auto simp: applyReplicationUpsert_def putReplicatedValue_def)
    then show ?thesis unfolding all by (intro proposedI [of cs' cs "[?c]" _ "[checkpoint_command target service r 0 (now 1)]"]) simp_all
  qed
qed

lemma delete_recorded:
  assumes "applyReplicationDelete (recording nd) now target service p r ((n, cs), t) = (((n', cs'), t'), e)"
  shows "proposed cs cs' e (event_commands now target service (event_type_name WatchEventDelete) r (rp_Instance p) (rp_Instances p) (rp_InstanceID p))"
proof -
  let ?c = "delete_command (mirror_key target service (rp_InstanceID p))"
  obtain n1 e1 where p: "rn_ProposeCommand nd ?c n = (n1, e1)" by fastforce
  have all: "event_commands now target service (event_type_name WatchEventDelete) r (rp_Instance p) (rp_Instances p) (rp_InstanceID p) =
      (if rp_InstanceID p = [] then [] else [?c]) @ [checkpoint_command target service r 0 (now 0)]" by (simp add: event_commands_def)
  show ?thesis
  proof (cases "rp_InstanceID p \<noteq> [] \<and> e1 \<noteq> None")
    case True
    then have "cs' = cs @ [?c]" "e \<noteq> None" using p assms by (auto simp: applyReplicationDelete_def mirror_key_def Let_def)
    with True show ?thesis unfolding all
      by (intro proposedI [of cs' cs "[?c]" _ "[checkpoint_command target service r 0 (now 0)]"]) simp_all
  next
    case False
    then have "cs' = cs @ (if rp_InstanceID p = [] then [] else [?c]) @ [checkpoint_command target service r 0 (now 0)]"
      using p assms by (auto simp: applyReplicationDelete_def mirror_key_def Let_def checkpoint_command_def dest!: checkpoint_recorded split: if_splits)
    then show ?thesis unfolding all by (intro proposedI [where ds' = "[]"]) simp_all
  qed
qed

lemma event_recorded:
  assumes "applyReplicationEvent (recording nd) now target service ty r data ((n, cs), t) = (((n', cs'), t'), e)"
    "Unmarshal (into_struct replication_event_fields) data zero_replication_event = Some p"
  shows "proposed cs cs' e (event_commands now target service ty r (rp_Instance p) (rp_Instances p) (rp_InstanceID p))"
proof (cases "frame_type_ok ty")
  case True
  with assms snapshot_recorded upsert_recorded delete_recorded show ?thesis
    by (fastforce simp: applyReplicationEvent_def frame_type_ok_def)
next
  case False
  with assms show ?thesis
    by (intro proposedI [where ds = "[]" and ds' = "[]"]) (auto simp: applyReplicationEvent_def frame_type_ok_def event_commands_def)
qed

subsection \<open>The mirror as a client\<close>

text \<open>What the mirror keeps of an instance: everything but the five dimensions of the service name.\<close>

definition mirrored :: "RegistryInstanceDTO \<Rightarrow> Value" where
  "mirrored d = sort_maps ((value_of_instance d)\<lparr>v_Organization := [], v_BusinessDomain := [], v_CapabilityDomain := [],
     v_Application := [], v_Role := []\<rparr>)"

definition mirror_presents ::
  "ReplicationTarget \<Rightarrow> ReplicationService \<Rightarrow> (bytes \<rightharpoonup> bytes) \<Rightarrow> bytes \<times> bytes \<Rightarrow> RegistryInstanceDTO option \<Rightarrow> bool" where
  "mirror_presents target service m p x \<longleftrightarrow>
     (case x of
        None \<Rightarrow> m (mirror_key target service (snd p)) = None
      | Some d \<Rightarrow> \<exists>data w. m (mirror_key target service (snd p)) = Some data \<and> unmarshal_replicated data = Some w \<and> ToValue w = mirrored d)"

definition task_ok :: "ReplicationTarget \<Rightarrow> ReplicationService \<Rightarrow> (u64 \<Rightarrow> nat \<Rightarrow> int) \<Rightarrow> bool" where
  "task_ok target service clock \<longleftrightarrow>
     list_all (\<lambda>s. trimmed s \<and> utf8 s) [tg_SourceRegion target, tg_SourceClusterID target, sv_Namespace service, sv_Service service] \<and>
     (\<forall>r i. is_i64 (clock r i))"

definition mirror_ok :: "ReplicationTarget \<Rightarrow> ReplicationService \<Rightarrow> (u64 \<Rightarrow> nat \<Rightarrow> int) \<Rightarrow> RegistryInstanceDTO \<Rightarrow> bool" where
  "mirror_ok target service clock d \<longleftrightarrow>
     task_ok target service clock \<and> text_instance d \<and> normal_value (value_of_instance d) \<and> id_Namespace d = sv_Namespace service \<and>
     id_Service d = sv_Service service \<and> trimmed (id_InstanceID d)"

definition mirror_pair :: "ReplicationTarget \<Rightarrow> ReplicationService \<Rightarrow> (u64 \<Rightarrow> nat \<Rightarrow> int) \<Rightarrow> bytes \<times> bytes \<Rightarrow> bool" where
  "mirror_pair target service clock p \<longleftrightarrow>
     task_ok target service clock \<and> fst p = sv_Service service \<and> trimmed (snd p) \<and> utf8 (snd p) \<and> snd p \<noteq> []"

fun mirror_step ::
  "ReplicationTarget \<Rightarrow> ReplicationService \<Rightarrow> (u64 \<Rightarrow> nat \<Rightarrow> int) \<Rightarrow> RegistryWatchEventDTO stream_frame \<Rightarrow> (bytes \<rightharpoonup> bytes) \<Rightarrow> (bytes \<rightharpoonup> bytes)" where
  "mirror_step target service clock Ping m = m"
| "mirror_step target service clock (Frame r ty e) m =
     fold ps_exec (event_commands (clock r) target service ty r (map_option sort_instance (rw_Instance e))
       (map sort_instance (rw_Instances e)) (rw_InstanceID e)) m"

text \<open>Keys: those of instances differ from those of checkpoints, and among themselves by the identifier.\<close>

lemma mirror_key_eq: "mirror_key target service i = service_prefix target service @ TrimSpace i"
  by (simp add: mirror_key_def service_prefix_def ReplicatedKey_def ReplicationServicePrefix_def)

lemma checkpoint_other: "ps_exec (checkpoint_command target service a b t) m (mirror_key target' service' i) = m (mirror_key target' service' i)"
  by (simp add: checkpoint_command_def checkpoint_put_def mirror_key_def ReplicatedKey_def ReplicationCheckpointKey_def
      ReplicationRegistryPrefix_def ReplicationCheckpointPrefix_def)

lemma put_key:
  assumes "mirror_ok target service clock d"
  shows "cmd_Key (replicated_put (replicatedValueFromDTO now target (sort_instance d) r)) = mirror_key target service (id_InstanceID d)"
  using assms by (simp add: replicated_put_def replicatedValueFromDTO_def NewReplicatedValue_def sort_instance_def mirror_key_def
      mirror_ok_def task_ok_def trimmed_iff)

lemma put_value:
  assumes "mirror_ok target service clock d"
  shows "\<exists>w. unmarshal_replicated (cmd_Value (replicated_put (replicatedValueFromDTO (clock r i) target (sort_instance d) r))) = Some w \<and>
    ToValue w = mirrored d"
proof -
  let ?v = "mirrored d"
  have cl: "clean_map (id_Labels d)" "clean_map (id_Metadata d)" "0 < id_LeaseTTLSeconds d" "is_i64 (clock r i)"
    "utf8 (TrimSpace (tg_SourceRegion target))" "utf8 (TrimSpace (tg_SourceClusterID target))"
    using assms by (auto simp: mirror_ok_def normal_value_def value_of_instance_def task_ok_def)
  have eq: "replicatedValueFromDTO (clock r i) target (sort_instance d) r =
      NewReplicatedValue (clock r i) (tg_SourceRegion target) (tg_SourceClusterID target) r ?v (clock r i)"
    using cl by (simp add: replicatedValueFromDTO_def sort_instance_def mirrored_def sort_maps_def value_of_instance_def
        CloneStringMap_id clean_map_sort)
  have v: "normal_value ?v" "utf8_value ?v" "typed_value ?v"
    using assms cl by (auto simp: mirror_ok_def text_instance_def mirrored_def sort_maps_def value_of_instance_def normal_value_def
        utf8_value_def typed_value_def clean_map_sort utf8_map_sort distinct_sort_key_fst)
  have "sort_maps ?v = ?v"
    by (simp add: mirrored_def sort_maps_def sort_key_id_if_sorted)
  with replicated_value_roundtrip [OF v cl(4) cl(4) cl(5,6), of r] show ?thesis
    by (auto simp: eq replicated_put_def unmarshal_replicated_def)
qed

text \<open>Running a list of puts: the last one with a key decides.\<close>

lemma fold_puts:
  assumes "\<And>c. c \<in> set cs \<Longrightarrow> \<exists>k v. c = put_command k v"
  shows "fold ps_exec cs m k = (case filter (\<lambda>c. cmd_Key c = k) cs of [] \<Rightarrow> m k | xs \<Rightarrow> Some (cmd_Value (last xs)))"
  using assms
proof (induction cs arbitrary: m)
  case (Cons c cs)
  obtain k' v where c: "c = put_command k' v" using Cons.prems [of c] by auto
  have "\<exists>k v. d = put_command k v" if "d \<in> set cs" for d using Cons.prems [of d] that by simp
  with Cons.IH show ?case by (auto simp: c split: list.splits)
qed simp

lemma replicated_put_is_put: "\<exists>k v. replicated_put x = put_command k v"
  by (simp add: replicated_put_def put_command_def)

lemma instance_puts_simps [simp]:
  "instance_puts now target r i [] = []"
  "instance_puts now target r i (d # ds) = replicated_put (replicatedValueFromDTO (now i) target d r) # instance_puts now target r (Suc i) ds"
  by (simp_all add: instance_puts_def)

lemma instance_puts_set:
  "c \<in> set (instance_puts now target r i (map f ds)) \<Longrightarrow> \<exists>j d. d \<in> set ds \<and> c = replicated_put (replicatedValueFromDTO (now j) target (f d) r)"
  by (induction ds arbitrary: i) fastforce+

lemma instance_puts_has:
  "d \<in> set ds \<Longrightarrow> \<exists>j. replicated_put (replicatedValueFromDTO (now j) target (f d) r) \<in> set (instance_puts now target r i (map f ds))"
  by (induction ds arbitrary: i) fastforce+

lemma prefix_deleted:
  assumes "utf8 i"
  shows "ps_exec (delete_prefix_command (service_prefix target service)) m (mirror_key target service i) = None"
proof -
  have ne: "service_prefix target service \<noteq> []" by (simp add: service_prefix_def ReplicationServicePrefix_def ReplicationRegistryPrefix_def)
  from within_append [OF ne, of "TrimSpace i"] assms
  have "within (service_prefix target service) (prefixUpperBound (service_prefix target service)) (mirror_key target service i)"
    by (simp add: mirror_key_eq)
  with ne show ?thesis
    by (auto simp: within_def prefixUpperBound_def ps_exec_def command_batch_def delete_prefix_command_def OperationPut_def
        OperationDelete_def OperationDeletePrefix_def)
qed

lemma snapshot_presents:
  assumes p: "mirror_pair target service clock p" and ok: "list_all (mirror_ok target service clock) ds"
    and x: "{d \<in> set ds. pair_of d = p} = set_option x"
  shows "mirror_presents target service (fold ps_exec (event_commands (clock r) target service ''snapshot'' r None (map sort_instance ds) []) m) p x"
proof -
  let ?puts = "instance_puts (clock r) target r 0 (map sort_instance ds)" and ?k = "mirror_key target service (snd p)"
  let ?m1 = "ps_exec (delete_prefix_command (service_prefix target service)) m"
  let ?cs = "filter (\<lambda>c. cmd_Key c = ?k) ?puts"
  have pp: "utf8 (snd p)" "trimmed (snd p)" "fst p = sv_Service service" using p by (simp_all add: mirror_pair_def)
  have same: "pair_of d = p" if "d \<in> set ds" "mirror_key target service (id_InstanceID d) = ?k" for d
    using that ok pp by (auto simp: mirror_key_eq list_all_iff mirror_ok_def pair_of_def trimmed_iff intro!: prod_eqI)
  have key: "cmd_Key (replicated_put (replicatedValueFromDTO t target (sort_instance d) r)) = mirror_key target service (id_InstanceID d)"
    if "d \<in> set ds" for d t using that ok put_key by (auto simp: list_all_iff)
  have puts: "\<exists>k v. c = put_command k v" if "c \<in> set ?puts" for c using instance_puts_set [OF that] replicated_put_is_put by blast
  have fin: "fold ps_exec (event_commands (clock r) target service ''snapshot'' r None (map sort_instance ds) []) m ?k =
      (case ?cs of [] \<Rightarrow> None | xs \<Rightarrow> Some (cmd_Value (last xs)))"
    by (simp add: event_commands_def checkpoint_other fold_puts [OF puts] prefix_deleted [OF pp(1)] split: list.split)
  have elem: "\<exists>d j. x = Some d \<and> d \<in> set ds \<and> c = replicated_put (replicatedValueFromDTO (clock r j) target (sort_instance d) r)"
    if c: "c \<in> set ?cs" for c
  proof -
    obtain j d where d: "d \<in> set ds" "c = replicated_put (replicatedValueFromDTO (clock r j) target (sort_instance d) r)"
      using instance_puts_set [of c "clock r" target r 0 sort_instance ds] c by auto
    then have "d \<in> set_option x" using same [of d] key c x by auto
    with d show ?thesis by (cases x) auto
  qed
  show ?thesis
  proof (cases x)
    case None
    with elem have "?cs = []" by (meson filter_False filter_in_nths last_in_set option.distinct(1)) 
    with fin None show ?thesis by (simp add: mirror_presents_def)
  next
    case (Some d)
    then have d: "d \<in> set ds" "pair_of d = p" using x by auto
    obtain j where "replicated_put (replicatedValueFromDTO (clock r j) target (sort_instance d) r) \<in> set ?puts"
      using instance_puts_has [OF d(1)] by blast
    moreover have "id_InstanceID d = snd p" using d(2) by (auto simp: pair_of_def)
    ultimately have ne: "?cs \<noteq> []" unfolding filter_empty_conv using key [OF d(1)] by metis
    from elem [OF last_in_set [OF ne]] obtain i where
      "last ?cs = replicated_put (replicatedValueFromDTO (clock r i) target (sort_instance d) r)" by (auto simp: Some)
    with put_value [of target service clock d r i] ok d(1) fin ne Some show ?thesis
      by (auto simp: mirror_presents_def list_all_iff split: list.splits)
  qed
qed

lemma instance_pair: "mirror_ok target service clock d \<Longrightarrow> mirror_key target service (id_InstanceID d) = mirror_key target service (snd p) \<Longrightarrow>
    mirror_pair target service clock p \<Longrightarrow> p = pair_of d"
  by (auto simp: mirror_ok_def mirror_pair_def pair_of_def mirror_key_eq trimmed_iff intro!: prod_eqI)

interpretation mirror: Watch_Client "mirror_step target service clock" "mirror_presents target service" "mirror_ok target service clock"
  "mirror_pair target service clock" for target service clock
proof unfold_locales
  fix e :: RegistryWatchEventDTO and d r s
  assume e: "rw_Type e = event_type_name WatchEventUpsert" "rw_Instance e = Some d" "mirror_ok target service clock d"
  from put_value [OF e(3), of r 0] obtain w where "unmarshal_replicated (cmd_Value (replicated_put (replicatedValueFromDTO (clock r 0) target (sort_instance d) r))) = Some w"
    "ToValue w = mirrored d" by blast
  then show "mirror_presents target service (mirror_step target service clock (Frame r (rw_Type e) e) s) (pair_of d) (Some d)"
    using replicated_put_is_put [of "replicatedValueFromDTO (clock r 0) target (sort_instance d) r"] put_key [OF e(3), of "clock r 0" r]
    by (auto simp: e(1,2) event_commands_def mirror_presents_def checkpoint_other pair_of_def)
next
  fix e :: RegistryWatchEventDTO and d r s p x
  assume e: "rw_Type e = event_type_name WatchEventUpsert" "rw_Instance e = Some d" "mirror_ok target service clock d"
    and p: "mirror_pair target service clock p" "p \<noteq> pair_of d"
  have "mirror_key target service (id_InstanceID d) \<noteq> mirror_key target service (snd p)" using instance_pair [OF e(3) _ p(1)] p(2) by blast
  then show "mirror_presents target service (mirror_step target service clock (Frame r (rw_Type e) e) s) p x = mirror_presents target service s p x"
    using replicated_put_is_put [of "replicatedValueFromDTO (clock r 0) target (sort_instance d) r"] put_key [OF e(3), of "clock r 0" r]
    by (auto simp: e(1,2) event_commands_def mirror_presents_def checkpoint_other split: option.split)
next
  fix e :: RegistryWatchEventDTO and r s
  assume "rw_Type e = event_type_name WatchEventDelete" "mirror_pair target service clock (rw_Service e, rw_InstanceID e)"
  then show "mirror_presents target service (mirror_step target service clock (Frame r (rw_Type e) e) s) (rw_Service e, rw_InstanceID e) None"
    by (simp add: event_commands_def mirror_presents_def checkpoint_other mirror_pair_def)
next
  fix e :: RegistryWatchEventDTO and r s p x
  assume e: "rw_Type e = event_type_name WatchEventDelete" "mirror_pair target service clock p"
    "mirror_pair target service clock (rw_Service e, rw_InstanceID e)" "p \<noteq> (rw_Service e, rw_InstanceID e)"
  then have "mirror_key target service (rw_InstanceID e) \<noteq> mirror_key target service (snd p)"
    by (cases p) (auto simp: mirror_pair_def mirror_key_eq trimmed_iff)
  with e show "mirror_presents target service (mirror_step target service clock (Frame r (rw_Type e) e) s) p x = mirror_presents target service s p x"
    by (auto simp: event_commands_def mirror_presents_def checkpoint_other split: option.split)
next
  fix e :: RegistryWatchEventDTO and p r s x
  assume "rw_Type e = ''snapshot''" "list_all (mirror_ok target service clock) (rw_Instances e)" "mirror_pair target service clock p"
    "{d \<in> set (rw_Instances e). pair_of d = p} = set_option x"
  moreover have "event_commands (clock r) target service ''snapshot'' r (map_option sort_instance (rw_Instance e)) (map sort_instance (rw_Instances e)) (rw_InstanceID e) =
      event_commands (clock r) target service ''snapshot'' r None (map sort_instance (rw_Instances e)) []"
    by (simp add: event_commands_def)
  ultimately show "mirror_presents target service (mirror_step target service clock (Frame r (rw_Type e) e) s) p x"
    using snapshot_presents [of target service clock p "rw_Instances e" x r s] by simp
qed simp

subsection \<open>From frames to commands\<close>

text \<open>The frames of the replication stream carry those of the watch stream.\<close>

fun exports :: "bytes \<Rightarrow> bytes \<Rightarrow> RegistryWatchEventDTO stream_frame \<Rightarrow> ReplicationWatchEventDTO stream_frame \<Rightarrow> bool" where
  "exports region cluster (Frame r ty e) (Frame r' ty' p) \<longleftrightarrow> r' = r \<and> ty' = ty \<and> (\<exists>t. is_i64 t \<and> p = exported_event region cluster t e)"
| "exports region cluster Ping Ping \<longleftrightarrow> True"
| "exports region cluster _ _ \<longleftrightarrow> False"

fun frame_revision :: "'p stream_frame \<Rightarrow> u64" where
  "frame_revision (Frame r ty p) = r"
| "frame_revision Ping = 0"

fun text_frame :: "bytes \<Rightarrow> bytes \<Rightarrow> RegistryWatchEventDTO stream_frame \<Rightarrow> bool" where
  "text_frame region cluster (Frame r ty e) \<longleftrightarrow> text_event (exported_event region cluster 0 e)"
| "text_frame region cluster Ping \<longleftrightarrow> False"

lemma run_frames_commands:
  assumes "list_all2 (exports region cluster) fs gs" "sorted_wrt (<) (map frame_revision fs)" "\<forall>f \<in> set fs. current < frame_revision f"
    "list_all (text_frame region cluster) fs"
    "run_frames (recording nd) clock target service gs current ((n, cs), t) = (((n', cs'), t'), None)"
  shows "fold ps_exec cs' m = fold (mirror_step target service clock) fs (fold ps_exec cs m)"
  using assms
proof (induction fs gs arbitrary: current n cs t rule: list_all2_induct)
  case (Cons f fs g gs)
  then obtain r ty e where f: "f = Frame r ty e" by (cases f) auto
  with Cons obtain ex where g: "g = Frame r ty (exported_event region cluster ex e)" "is_i64 ex" by (cases g) auto
  let ?p = "exported_event region cluster ex e"
  have tx: "text_event ?p" using Cons.prems(3) g(2) by (simp add: f text_event_def exported_event_def)
  have cur: "current < r" using Cons.prems(2) f by simp
  obtain n1 cs1 t1 e1 where a: "applyReplicationEvent (recording nd) (clock r) target service ty r (Marshal replication_event_to_json ?p) ((n, cs), t) =
      (((n1, cs1), t1), e1)" by (metis prod.exhaust)
  with Cons.prems(4) cur g have run: "e1 = None" "run_frames (recording nd) clock target service gs r ((n1, cs1), t1) = (((n', cs'), t'), None)"
    by (cases e1; simp)+
  from event_recorded [OF a event_roundtrip [OF tx]] run(1)
  have "fold ps_exec cs1 m = mirror_step target service clock f (fold ps_exec cs m)"
    by (simp add: proposed_def f sort_event_def exported_event_def)
  with Cons.IH [OF _ _ _ run(2)] Cons.prems show ?case by (simp add: f)
qed simp

lemma run_frames_pings:
  "run_frames nd clock target service gs current w = run_frames nd clock target service (filter (\<lambda>f. f \<noteq> Ping) gs) current w"
proof (induction gs arbitrary: current w)
  case (Cons g gs)
  then show ?case by (cases g) (auto split: prod.split option.split)
qed simp

subsection \<open>What the source sends can be taken\<close>

lemma answer_text:
  assumes "text_value v"
  shows "text_instance (answer_of q v)" "normal_value (value_of_instance (answer_of q v))"
proof -
  have "text_value (value_of_instance (answer_of q v))"
    using assms by (auto simp: text_value_iff value_of_instance_def answer_of_def instance_dto_def text_map_Clone endpointDTOsFromRegistry_def
        clone_endpoint_def typed_endpoint_def utf8_endpoint_def FilterEndpoints_def list_all_iff EffectiveLeaseTTLSeconds_def
        DefaultLeaseTTLSeconds_def is_i64_def)
  then show "text_instance (answer_of q v)" by (simp add: text_instance_def text_value_def)
  show "normal_value (value_of_instance (answer_of q v))"
    by (simp add: normal_value_def value_of_instance_def answer_of_def instance_dto_def EffectiveLeaseTTLSeconds_def DefaultLeaseTTLSeconds_def)
qed

lemma ParseServiceName_text:
  assumes "utf8 s" "ParseServiceName s = (a, b, c, d, e, ok)"
  shows "list_all utf8 [a, b, c, d, e]"
proof -
  have "utf8 p" if "p \<in> set (Split (TrimSpace s) (CHR ''.''))" for p
    using valid_utf8_Split [of "CHR ''.''" "TrimSpace s" p] assms(1) that by (simp add: utf8_iff valid_utf8_TrimSpace)
  with assms(2) show ?thesis
    by (auto simp: ParseServiceName_def Let_def utf8_def split: if_splits list.splits)
qed

text \<open>A log whose identifiers have no blanks at their ends, as the handlers make them.\<close>

definition tidy_log :: "Entry list \<Rightarrow> bool" where
  "tidy_log es \<longleftrightarrow>
     list_all (\<lambda>e. case entry_command e of
        None \<Rightarrow> True
      | Some c \<Rightarrow>
          (case ParseKey (cmd_Key c) of None \<Rightarrow> True | Some (n, s, i) \<Rightarrow> trimmed s \<and> trimmed i \<and> utf8 i) \<and>
          (case unmarshal_value (cmd_Value c) of None \<Rightarrow> True | Some v \<Rightarrow> trimmed (v_InstanceID v))) es"

lemma tidy_log_simps [simp]: "tidy_log []" "tidy_log (es @ es') \<longleftrightarrow> tidy_log es \<and> tidy_log es'"
  by (simp_all add: tidy_log_def)

lemma tidy_stored:
  assumes "tidy_log es" "watched_log es" "HasPrefix k RootPrefix" "stored (log_exec es Map.empty) k = Some v"
  shows "trimmed (v_InstanceID v)"
  using assms
proof (induction es rule: rev_induct)
  case (snoc e es)
  show ?case
  proof (cases "entry_command e")
    case (Some c)
    with snoc have "stored (ps_exec c (log_exec es Map.empty)) k = Some v" "watched_command c"
      by (simp_all add: entry_exec_def)
    with ps_exec_watched [OF _ snoc.prems(3)] snoc Some show ?thesis
      by (auto simp: stored_iff tidy_log_def split: if_splits)
  qed (use snoc in \<open>simp add: entry_exec_def\<close>)
qed (simp add: stored_def)

text \<open>The query of the mirror: the service of the task and nothing else.\<close>

definition task_query :: "ReplicationService \<Rightarrow> Query \<Rightarrow> bool" where
  "task_query service q \<longleftrightarrow> q_Namespace q = sv_Namespace service \<and> q_Service q = sv_Service service \<and> sv_Service service \<noteq> []"

lemma task_service: "task_query service q \<Longrightarrow> MatchServiceQuery s q \<Longrightarrow> trimmed s \<Longrightarrow> s = sv_Service service"
  by (simp add: task_query_def MatchServiceQuery_iff service_matches_def trimmed_iff)

lemma answer_ok:
  assumes "task_ok target service clock" "task_query service q" "query_selects q v" "text_value v" "trimmed (v_Service v)" "trimmed (v_InstanceID v)"
  shows "mirror_ok target service clock (answer_of q v)"
proof -
  have "id_Namespace (answer_of q v) = v_Namespace v" "id_Service (answer_of q v) = v_Service v" "id_InstanceID (answer_of q v) = v_InstanceID v"
    by (simp_all add: answer_of_def instance_dto_def)
  with assms answer_text [OF assms(4)] show ?thesis
    by (auto simp: mirror_ok_def task_query_def query_selects_def service_matches_def trimmed_iff)
qed

lemma items_ok:
  assumes task: "task_ok target service clock" "task_query service q" and log: "tidy_log es" "watched_log es"
  shows "list_all (mirror_ok target service clock) (List.map_filter (wanted q now) (directory (log_exec es Map.empty)))"
proof -
  let ?m = "log_exec es Map.empty"
  have m: "directory_ok ?m" "finite (dom ?m)" using watched_log_keeps [OF log(2), of Map.empty] by (simp_all add: directory_ok_def stored_def)
  have "mirror_ok target service clock d" if i: "i \<in> set (directory ?m)" "wanted q now i = Some d" for i d
  proof -
    have k: "HasPrefix (kv_Key i) RootPrefix" "?m (kv_Key i) = Some (kv_Value i)"
      using set_entries [OF m(2), of "[]" "[]"] i(1) by (auto simp: directory_def)
    obtain v where v: "stored ?m (kv_Key i) = Some v" "query_selects q v" "d = answer_of q v"
      using i(2) k(2) by (auto simp: wanted_def selected_def stored_def split: option.splits if_splits)
    from answer_ok [OF task v(2) stored_text [OF v(1)] _ tidy_stored [OF log k(1) v(1)]] directory_okD [OF m(1) k(1) v(1)]
    show ?thesis by (simp add: v(3))
  qed
  then show ?thesis by (auto simp: list_all_iff set_map_filter)
qed

lemma tidy_event:
  assumes log: "tidy_log es" "watched_log es" and w: "w \<in> set (log_events es)"
  shows "trimmed (we_Service w) \<and> trimmed (we_InstanceID w) \<and> utf8 (we_InstanceID w) \<and> we_InstanceID w \<noteq> [] \<and>
    (\<forall>v. we_Type w = WatchEventUpsert \<longrightarrow> we_Value w = Some v \<longrightarrow> text_value v \<and> trimmed (v_Service v) \<and> trimmed (v_InstanceID v))"
proof -
  from log_events_entry [OF w] obtain e where e: "e \<in> set es" "registry_event (log_entry e) = Some w" by blast
  then obtain c where c: "entry_command e = Some c"
    by (auto simp: entry_command_def registry_event_def log_entry_def split: if_splits option.splits)
  then have "watched_command c" using log(2) e(1) by (auto simp: watched_log_def)
  note ev = event_cases [OF c this e(2)]
  have t: "case ParseKey (cmd_Key c) of None \<Rightarrow> True | Some (n, s, i) \<Rightarrow> trimmed s \<and> trimmed i \<and> utf8 i"
    "case unmarshal_value (cmd_Value c) of None \<Rightarrow> True | Some v \<Rightarrow> trimmed (v_InstanceID v)"
    using log(1) e(1) c by (fastforce simp: tidy_log_def list_all_iff)+
  have "we_InstanceID w \<noteq> []" using ev by (auto simp: ParseKey_iff)
  moreover have "text_value v" if "unmarshal_value (cmd_Value c) = Some v" for v using decoded_value [OF that] .
  ultimately show ?thesis using ev t by auto
qed

lemma events_fit:
  assumes task: "task_ok target service clock" "task_query service q" and log: "tidy_log es" "watched_log es"
  shows "list_all (fits (mirror_ok target service clock) (mirror_pair target service clock) q) (log_events es)"
  unfolding list_all_iff fits_def
proof (intro ballI conjI allI impI)
  fix w assume w: "w \<in> set (log_events es)" "we_Namespace w = q_Namespace q \<and> MatchServiceQuery (we_Service w) q"
  with tidy_event [OF log w(1)] task_service [OF task(2)] task(1)
  show "mirror_pair target service clock (we_Service w, we_InstanceID w)" by (simp add: mirror_pair_def)
next
  fix w v assume w: "w \<in> set (log_events es)" "we_Type w = WatchEventUpsert" "we_Value w = Some v" "query_selects q v"
  with tidy_event [OF log w(1)] answer_ok [OF task w(4)] show "mirror_ok target service clock (answer_of q v)" by blast
qed


lemma frames_text:
  assumes q: "ParseQuery ul values = Inr q" and utf: "utf8 region" "utf8 cluster"
    and task: "task_ok target service clock" "task_query service q" and log: "tidy_log es" "watched_log es"
  shows "list_all (text_frame region cluster) (watch_frames q now (log_events es))"
proof -
  have "text_frame region cluster f" if w: "w \<in> set (log_events es)" and f: "f \<in> set (watch_frames q now [w])" for w f
  proof -
    note t = tidy_event [OF log w]
    have m: "we_Namespace w = q_Namespace q" "MatchServiceQuery (we_Service w) q"
      using f by (auto simp: watch_frames_def event_frame_def event_dto [OF q] split: if_splits)
    have n: "utf8 (we_Namespace w)" "utf8 (we_Service w)"
      using task m t task_service [OF task(2) m(2)] by (auto simp: task_ok_def task_query_def)
    have del: "text_event (exported_event region cluster 0 (delete_event w))"
      using n t utf ParseServiceName_text [OF n(2)]
      by (auto simp: text_event_def exported_event_def delete_event_def is_i64_def utf8_def sanitize_ascii is_ascii_def split: prod.split)
    have up: "text_event (exported_event region cluster 0 (upsert_event w d))"
      if d: "we_Type w = WatchEventUpsert" "we_Value w = Some v" "selected q (now w) v = Some d" for v d
    proof -
      have "text_value v" "d = answer_of q v" using d t by (auto simp: selected_def split: if_splits)
      with answer_text [of v q] have "text_instance d" by simp
      then show ?thesis
        using n t utf by (auto simp: text_event_def exported_event_def upsert_event_def is_i64_def utf8_def text_instance_def utf8_value_def
            value_of_instance_def sanitize_ascii is_ascii_def)
    qed
    show ?thesis using f m del up
      by (auto simp: watch_frames_def event_frame_def event_dto [OF q] split: WatchEventType.splits option.splits)
  qed
  moreover have "\<exists>w \<in> set ws. f \<in> set (watch_frames q now [w])" if "f \<in> set (watch_frames q now ws)" for f ws
    using that by (auto simp: watch_frames_def event_frames_def)
  ultimately show ?thesis unfolding list_all_iff by blast
qed

lemma loop_exports:
  assumes "\<And>e. is_i64 (exportClock e)"
  shows "list_all2 (exports region cluster) (watch_loop (\<lambda>e. registryWatchEventDTO q (clock e) e) rw_Type r inputs)
    (watch_loop (\<lambda>e. replicationWatchEventDTO q region cluster (exportClock e) (clock e) e) rp_Type r inputs)"
proof (induction inputs arbitrary: r)
  case (Cons i "is")
  then show ?case using assms
    by (cases i) (auto simp: replicationWatchEventDTO_def exported_event_def split: option.split)
qed simp

lemma exports_no_pings:
  "list_all2 (exports region cluster) fs gs \<Longrightarrow>
     list_all2 (exports region cluster) (filter (\<lambda>f. f \<noteq> Ping) fs) (filter (\<lambda>f. f \<noteq> Ping) gs)"
proof (induction rule: list_all2_induct)
  case (Cons f fs g gs)
  then show ?case by (cases f; cases g) auto
qed simp

lemma loop_types:
  assumes "ParseQuery ul values = Inr q"
  shows "list_all frame_ok (watch_loop (\<lambda>e. replicationWatchEventDTO q region cluster (exportClock e) (clock e) e) rp_Type r inputs)"
proof (induction inputs arbitrary: r)
  case (Cons i "is")
  have "rw_Type x \<in> {event_type_name WatchEventUpsert, event_type_name WatchEventDelete}" if "registryWatchEventDTO q t w = Some (Some x)" for t w x
    using that by (auto simp: event_dto [OF assms] split: if_splits WatchEventType.splits option.splits)
  with Cons show ?case
    by (cases i) (auto simp: replicationWatchEventDTO_def exported_event_def frame_type_ok_def split: option.split)
qed simp

lemma frames_sorted:
  assumes "sorted_wrt (<) (map we_Revision ws)"
  shows "sorted_wrt (<) (map frame_revision (watch_frames q clock ws))"
    "frame_revision ` set (watch_frames q clock ws) \<subseteq> we_Revision ` set ws"
proof -
  show sub: "frame_revision ` set (watch_frames q clock ws) \<subseteq> we_Revision ` set ws" for ws
    by (auto simp: watch_frames_def event_frames_def event_frame_def split: option.splits)
  show "sorted_wrt (<) (map frame_revision (watch_frames q clock ws))" using assms
  proof (induction ws)
    case (Cons w ws)
    have "watch_frames q clock (w # ws) = watch_frames q clock [w] @ watch_frames q clock ws" by (simp add: watch_frames_def)
    moreover have "sorted_wrt (<) (map frame_revision (watch_frames q clock [w]))"
      by (auto simp: watch_frames_def event_frame_def split: option.split)
    ultimately show ?case using Cons sub [of "[w]"] sub [of ws] by (fastforce simp: sorted_wrt_append)
  qed simp
qed


lemma snapshot_text:
  assumes "utf8 region" "utf8 cluster" "task_ok target service clock" "task_query service q"
    "list_all (mirror_ok target service clock) items"
  shows "text_frame region cluster (Frame r ''snapshot'' (snapshot_event q r items))"
  using assms by (auto simp: text_event_def exported_event_def snapshot_event_def task_query_def task_ok_def is_i64_def utf8_def
      sanitize_ascii is_ascii_def mirror_ok_def list_all_iff)

lemma stream_commands:
  assumes run: "runReplicationStream (recording nd) fetch token clock now None target service ((n, []), t) = (((n', cs), t'), None)"
    and fetch: "\<And>url. fetch url (''Bearer '' @ token) = Response 200 (concat (map (sse_frame replication_event_to_json) gs)) broken"
    and gs: "list_all frame_ok gs" "list_all (list_all fits_buffer \<circ> frame_lines) gs"
  shows "\<exists>n1 t1 t2. run_frames (recording nd) clock target service (filter (\<lambda>f. f \<noteq> Ping) gs) 0 ((n1, []), t1) = (((n', cs), t2), None)"
proof -
  obtain n1 v where g: "rn_Get nd (ReplicationCheckpointKey (tg_SourceRegion target) (tg_SourceClusterID target) (sv_Namespace service) (sv_Service service)) n = (n1, v)"
    by fastforce
  from run g show ?thesis
    unfolding runReplicationStream_def fetch
    by (auto simp: readReplicationCheckpoint_def stream_read_back [OF gs] run_frames_pings [of _ _ _ _ gs]
        split: prod.splits option.splits sum.splits if_splits)
qed

text \<open>C5. A mirror converges to the source. A mirror connects to the replication stream of a source that starts with a snapshot
  at a revision above 0 and then carries the events of the committed entries in order, encoded as the source writes them; when the
  stream ends without an error, the commands that the mirror has proposed, applied to any state, leave under the mirror's key of every
  instance of the service what the source's own query selects from the state of its whole log, without the five dimensions of
  the service name, and nothing under the keys of instances that the query does not select.\<close>

theorem mirror_converges:
  fixes nd :: "('db, 'ms, 'rn) RaftNode registryNode"
  assumes nd: "raft_node nd" "node_inv n" and q: "ParseQuery ul (rq_Query r) = Inr q" "q_Limit q = 0" "task_query service q"
    and run: "WatchReplication nd h ul True True reqCtx now exported_at clock exportClock r (n, hub) = ((n', hub'), Inr s)"
      "ws_frames s = [Frame rv ''snapshot'' x]" "0 < rv"
    and log: "watched_log (prior @ mid @ after)" "sorted_wrt (<) (map e_Index (prior @ mid @ after))" "tidy_log (prior @ mid @ after)"
    and applied: "\<And>e. e \<in> set prior \<Longrightarrow> e_Index e \<le> rv" "\<And>e. e \<in> set (mid @ after) \<Longrightarrow> rv < e_Index e"
      "node_dir n' = log_exec (prior @ mid) Map.empty"
    and heard: "prior = early @ late" "input_events inputs = log_events (late @ mid @ after)" "Finished \<notin> set inputs"
    and wire: "gs = ws_frames s @ watch_loop (\<lambda>e. replicationWatchEventDTO q (h_sourceRegion h) (h_sourceCluster h) (exportClock e) (clock e) e)
        rp_Type (ws_revision s) inputs" "list_all (list_all fits_buffer \<circ> frame_lines) gs"
      "\<And>e. is_i64 (exportClock e)" "is_i64 exported_at" "utf8 (h_sourceRegion h)" "utf8 (h_sourceCluster h)"
      "\<And>url. fetch url (''Bearer '' @ token) = Response 200 (concat (map (sse_frame replication_event_to_json) gs)) broken"
    and mirror: "task_ok target service mclock"
      "runReplicationStream (recording nd2) fetch token mclock mnow None target service ((n2, []), t) = (((n2', cs), t'), None)"
    and p: "ParseKey (Key (q_Namespace q) (sv_Service service) instanceID) = Some (q_Namespace q, sv_Service service, instanceID)"
      "trimmed instanceID" "utf8 instanceID"
  shows "\<exists>t \<in> insert now (clock ` set (input_events inputs)).
    mirror_presents target service (fold ps_exec cs m) (sv_Service service, instanceID)
      (cell q t (log_exec (prior @ mid @ after) Map.empty) (sv_Service service, instanceID))"
proof -
  have e0: "directory_ok Map.empty" "finite (dom Map.empty)" by (simp_all add: directory_ok_def stored_def)
  let ?items = "List.map_filter (wanted q now) (directory (log_exec (prior @ mid) Map.empty))"
  let ?loop = "watch_loop (\<lambda>e. registryWatchEventDTO q (clock e) e) rw_Type rv inputs"
  let ?fs = "Frame rv ''snapshot'' (snapshot_event q rv ?items) # watch_frames q clock (log_events (mid @ after))"
  have parts: "watched_log (prior @ mid)" "tidy_log (prior @ mid)" "watched_log (mid @ after)" "tidy_log (mid @ after)" using log by simp_all
  from watched_log_keeps [OF parts(1) e0] have "directory_ok (node_dir n')" by (simp add: applied(3))
  from rn.replication_session_ok [OF nd q(1,2) run(1,2) this]
  have s: "ws_revision s = rv" "x = exported_event (h_sourceRegion h) (h_sourceCluster h) exported_at (snapshot_event q rv ?items)"
    by (simp_all add: applied(3))
  note items = items_ok [OF mirror(1) q(3) parts(2,1), of now]
  have pp: "plain_pair q (sv_Service service, instanceID)" "mirror_pair target service mclock (sv_Service service, instanceID)"
    using p mirror(1) by (auto simp: plain_pair_def mirror_pair_def ParseKey_iff)
  have frames: "filter (\<lambda>f. f \<noteq> Ping) ?loop = watch_frames q clock (log_events (mid @ after))"
    by (rule heard_frames [OF q(1) log(2) _ _ heard]) (fact applied)+
  have "list_all2 (exports (h_sourceRegion h) (h_sourceCluster h)) (Frame rv ''snapshot'' (snapshot_event q rv ?items) # ?loop) gs"
    using loop_exports [OF wire(3)] wire(4) by (auto simp: wire(1) run(2) s)
  from exports_no_pings [OF this]
  have ex: "list_all2 (exports (h_sourceRegion h) (h_sourceCluster h)) ?fs (filter (\<lambda>f. f \<noteq> Ping) gs)" by (simp add: frames)
  have "sorted_wrt (<) (map e_Index (mid @ after))" using log(2) by (simp add: sorted_wrt_append)
  note srt = frames_sorted [OF log_events_sorted [OF this], of q clock]
  have later: "rv < we_Revision w" if "w \<in> set (log_events (mid @ after))" for w
    using log_events_entry [OF that] applied(2) by (auto dest!: event_revision simp del: log_events_simps)
  have ord: "sorted_wrt (<) (map frame_revision ?fs)" "\<forall>f \<in> set ?fs. 0 < frame_revision f"
    using srt later run(3) by (fastforce simp del: log_events_simps)+
  have tx: "list_all (text_frame (h_sourceRegion h) (h_sourceCluster h)) ?fs"
    using snapshot_text [OF wire(5,6) mirror(1) q(3) items] frames_text [OF q(1) wire(5,6) mirror(1) q(3) parts(4,3)] by simp
  have "list_all frame_ok gs" using loop_types [OF q(1)] by (simp add: wire(1) run(2) frame_type_ok_def)
  from stream_commands [OF mirror(2) wire(7) this wire(2)] obtain n1 t1 t2 where
    "run_frames (recording nd2) mclock target service (filter (\<lambda>f. f \<noteq> Ping) gs) 0 ((n1, []), t1) = (((n2', cs), t2), None)" by blast
  from run_frames_commands [OF ex ord tx this, of m]
  have cs: "fold ps_exec cs m = fold (mirror_step target service mclock) (Frame rv ''snapshot'' (snapshot_event q rv ?items) # ?loop) m"
    unfolding fold_Cons comp_def mirror.without_pings [of _ _ _ ?loop] frames by simp
  have "\<exists>t \<in> insert now (clock ` set (log_events (mid @ after))). mirror_presents target service
      (fold (mirror_step target service mclock) (Frame rv ''snapshot'' (snapshot_event q rv ?items) # ?loop) m) (sv_Service service, instanceID)
      (cell q t (log_exec (prior @ mid @ after) Map.empty) (sv_Service service, instanceID))"
    by (rule mirror.snapshot_stream [OF q(1) pp log(1,2) e0 _ _ refl items events_fit [OF mirror(1) q(3) parts(4,3)] heard]) (fact applied)+
  moreover have "set (log_events (mid @ after)) \<subseteq> set (input_events inputs)" by (auto simp: heard(2))
  ultimately show ?thesis unfolding cs by blast
qed

subsection \<open>A stream that is read to its end\<close>

text \<open>The length of a JSON text, from above.\<close>

lemma enc_runes_length: "length (enc_runes s) \<le> 6 * length s"
proof (induction s rule: enc_runes.induct)
  case (2 c s)
  have "length (escape_ascii c) \<le> 6" by (simp add: escape_ascii_def Let_def)
  with 2 show ?case by (fastforce simp: enc_runes.simps(2) split: prod.split)
qed simp

fun json_bound :: "json \<Rightarrow> nat" and elems_bound :: "json list \<Rightarrow> nat" and members_bound :: "(bytes \<times> json) list \<Rightarrow> nat" where
  "json_bound JNull = 5"
| "json_bound (JBool b) = 5"
| "json_bound (JNum s) = length s"
| "json_bound (JStr s) = 6 * length s + 2"
| "json_bound (JArr xs) = elems_bound xs + 2"
| "json_bound (JObj ms) = members_bound ms + 2"
| "elems_bound [] = 0"
| "elems_bound (x # xs) = json_bound x + elems_bound xs + 1"
| "members_bound [] = 0"
| "members_bound ((k, v) # ms) = 6 * length k + json_bound v + members_bound ms + 4"

lemma enc_json_length:
  "length (enc_json j) \<le> json_bound j" "length (enc_elems js) \<le> elems_bound js" "length (enc_members ms) \<le> members_bound ms"
proof (induction j and js and ms rule: enc_json_enc_elems_enc_members.induct)
  case (4 s)
  then show ?case using enc_runes_length [of s] by (simp add: enc_string_def)
next
  case (10 k v ms)
  then show ?case using enc_runes_length [of k] by (cases "ms = []") (simp_all add: enc_string_def)
qed auto

lemma members_bound_append [simp]: "members_bound (ms @ ms') = members_bound ms + members_bound ms'"
  by (induction ms) auto

lemma FormatUint_length: "length (FormatUint n) \<le> n + 1"
proof (induction n rule: FormatUint.induct)
  case (1 n)
  then show ?case by (subst FormatUint.simps) (auto intro: order_trans)
qed

text \<open>A node that accepts every command: the mirror handles every event.\<close>

lemma willing_puts:
  assumes "\<And>c. rn_ProposeCommand nd c n = (n, None)"
  shows "\<exists>cs'. put_instances (recording nd) now target r i ds (n, cs) = ((n, cs'), None)"
  by (induction ds arbitrary: i cs) (simp_all add: putReplicatedValue_def assms)

lemma willing_event:
  assumes "\<And>c. rn_ProposeCommand nd c n = (n, None)" "text_event p"
  shows "\<exists>cs' t'. applyReplicationEvent (recording nd) now target service ty r (Marshal replication_event_to_json p) ((n, cs), t) =
    (((n, cs'), t'), None)"
proof -
  obtain cs1 where "put_instances (recording nd) now target r 0 (map sort_instance (rp_Instances p)) (n, cs @ [delete_prefix_command
      (ReplicationServicePrefix (tg_SourceRegion target) (tg_SourceClusterID target) (sv_Namespace service) (sv_Service service))]) = ((n, cs1), None)"
    using willing_puts [OF assms(1)] by blast
  then show ?thesis
    by (simp add: applyReplicationEvent_def event_roundtrip [OF assms(2)] applyReplicationSnapshot_def applyReplicationUpsert_def
        applyReplicationDelete_def putReplicationCheckpoint_def putReplicatedValue_def sort_event_def assms(1) Let_def split: option.split)
qed

fun text_payload :: "ReplicationWatchEventDTO stream_frame \<Rightarrow> bool" where
  "text_payload Ping \<longleftrightarrow> True"
| "text_payload (Frame r ty p) \<longleftrightarrow> text_event p"

lemma willing_frames:
  assumes "\<And>c. rn_ProposeCommand nd c n = (n, None)" "list_all text_payload gs"
  shows "\<exists>cs' t'. run_frames (recording nd) clock target service gs current ((n, cs), t) = (((n, cs'), t'), None)"
  using assms(2)
proof (induction gs arbitrary: current cs t)
  case (Cons g gs)
  show ?case
  proof (cases g)
    case (Frame r ty p)
    with Cons.prems willing_event [OF assms(1), of p "clock r" target service ty r cs t] obtain cs1 t1 where
      "applyReplicationEvent (recording nd) (clock r) target service ty r (Marshal replication_event_to_json p) ((n, cs), t) = (((n, cs1), t1), None)"
      by auto
    with Cons.IH Cons.prems Frame show ?thesis by simp
  qed (use Cons in simp)
qed simp

lemma willing_stream:
  assumes "\<And>c. rn_ProposeCommand nd c n = (n, None)" 
    "rn_Get nd (ReplicationCheckpointKey (tg_SourceRegion target) (tg_SourceClusterID target) (sv_Namespace service) (sv_Service service)) n = (n, Inr [])"
    "\<And>url. fetch url (''Bearer '' @ token) = Response 200 (concat (map (sse_frame replication_event_to_json) gs)) False"
    "list_all text_payload gs" "list_all frame_ok gs" "list_all (list_all fits_buffer \<circ> frame_lines) gs"
  shows "\<exists>cs t'. runReplicationStream (recording nd) fetch token clock now None target service ((n, []), t) = (((n, cs), t'), None)"
proof -
  obtain cs t' where "run_frames (recording nd) clock target service gs 0 ((n, []), track target service now True t) = (((n, cs), t'), None)"
    using willing_frames [OF assms(1,4)] by blast
  then show ?thesis unfolding runReplicationStream_def assms(3)
    by (simp add: readReplicationCheckpoint_def assms(2) stream_read_back [OF assms(5,6)])
qed

subsection \<open>A sample\<close>

text \<open>A source that has applied five entries and holds no instance, and a mirror of one of its services.\<close>

definition sample_source :: "((bytes, bytes) gomap, u64, unit) RaftNode" where
  "sample_source = (sample_node [])\<lparr>n_status := (n_status (sample_node []))\<lparr>st_AppliedIndex := 5\<rparr>\<rparr>"

definition sample_fetch :: http_request where
  "sample_fetch = sample_query\<lparr>rq_Header := [(''Authorization'', ''Bearer t'')]\<rparr>"

definition sample_service :: ReplicationService where
  "sample_service = \<lparr>sv_Namespace = ''prod'', sv_Service = ''orders''\<rparr>"

definition sample_target :: ReplicationTarget where
  "sample_target = \<lparr>tg_SourceRegion = ''r'', tg_SourceClusterID = ''c'', tg_BaseURL = ''http://s'', tg_Services = [sample_service]\<rparr>"

lemma sample_source_facts:
  "node_inv sample_source" "node_dir sample_source = Map.empty" "rn_LinearizableRead sample_nd reqCtx sample_source = (sample_source, None)"
  "st_AppliedIndex (rn_Status sample_nd sample_source) = 5" "rn_Scan sample_nd a b l sample_source = (sample_source, Inr [])"
proof -
  show "node_inv sample_source" using sample_nd_ok(2) [of "[]"] by (simp add: node_inv_def sample_source_def)
  show "node_dir sample_source = Map.empty" using sample_dir [of "[]"] by (simp add: sample_source_def node_dir_def)
  show "rn_LinearizableRead sample_nd reqCtx sample_source = (sample_source, None)" by (simp add: sample_nd_def raft_registryNode_def)
  show "st_AppliedIndex (rn_Status sample_nd sample_source) = 5"
    by (simp add: sample_nd_def raft_registryNode_def node_Status_def sample_source_def)
  show "rn_Scan sample_nd a b l sample_source = (sample_source, Inr [])"
    using sample_Scan [of a b l "[]"] sample_dir [of "[]"]
    by (simp add: sample_nd_def raft_registryNode_def node_Scan_def sample_source_def entries_def limited_def ensureRunning_def split: sum.splits option.splits)
qed

lemma sample_replication:
  "\<exists>hub' s. WatchReplication sample_nd sample_api id True True reqCtx now 0 clock exportClock sample_fetch (sample_source, NewWatchHub, []) =
     ((sample_source, hub'), Inr s) \<and> ws_frames s = [Frame 5 ''snapshot'' (exported_event ''r'' ''c'' 0 (snapshot_event sample_q 5 []))]"
proof -
  have a: "isAuthorizedReplicationRequest sample_api sample_fetch" by code_simp
  have h: "h_sourceRegion sample_api = ''r''" "h_sourceCluster sample_api = ''c''" by (simp_all add: sample_api_def)
  have r: "rq_Method sample_fetch = ''GET''" "rq_Query sample_fetch = rq_Query sample_query" by (simp_all add: sample_fetch_def sample_watch)
  show ?thesis
    by (simp add: WatchReplication_def allowMethod_def a r sample_watch sample_parse watch_start_def watch_open_def registryWatchSnapshot_def
        sample_source_facts prefixRange_def h split: prod.split)
qed

abbreviation sample_commit :: Entry where
  "sample_commit \<equiv> command_entry (put_command (key_of sample_value) (marshal_value sample_value)) 6"

lemma sample_commit_facts:
  "entry_command sample_commit = Some (put_command (key_of sample_value) (marshal_value sample_value))"
  "ParseKey (Key (q_Namespace sample_q) (sv_Service sample_service) ''i1'') = Some (q_Namespace sample_q, sv_Service sample_service, ''i1'')"
  "key_of sample_value = Key (q_Namespace sample_q) (sv_Service sample_service) ''i1''"
  "watched_log [sample_commit]" "tidy_log [sample_commit]" "e_Index sample_commit = 6"
  "log_events [sample_commit] = [\<lparr>we_Revision = 6, we_Type = WatchEventUpsert, we_Namespace = ''prod'', we_Service = ''orders'',
     we_InstanceID = ''i1'', we_Value = Some (sort_maps sample_value)\<rparr>]"
proof -
  show c: "entry_command sample_commit = Some (put_command (key_of sample_value) (marshal_value sample_value))"
    by (rule command_entry_command) simp
  show k: "ParseKey (Key (q_Namespace sample_q) (sv_Service sample_service) ''i1'') = Some (q_Namespace sample_q, sv_Service sample_service, ''i1'')"
    by code_simp
  show kk: "key_of sample_value = Key (q_Namespace sample_q) (sv_Service sample_service) ''i1''"
    by (simp add: sample_value_facts(5) sample_q_def sample_service_def Key_def RootPrefix_def)
  show "watched_log [sample_commit]" using registration_good [OF sample_value_facts(1)] by (simp add: c watched_command_def)
  have u: "unmarshal_value (marshal_value sample_value) = Some (sort_maps sample_value)"
    using sample_value_facts(1) by (simp add: good_value_def text_value_roundtrip)
  have pk: "ParseKey (key_of sample_value) = Some (''prod'', ''orders'', ''i1'')"
    using k unfolding kk by (simp add: sample_q_def sample_service_def)
  have i: "v_InstanceID (sort_maps sample_value) = ''i1''" by (simp add: sort_maps_def NewValue_def sample_normal_def sample_input_def)
  have t: "trimmed ''orders''" "trimmed ''i1''" by code_simp+
  show "tidy_log [sample_commit]"
    by (simp add: tidy_log_def c pk u i t utf8_def sanitize_ascii is_ascii_def)
  show "e_Index sample_commit = 6" by (simp add: command_entry_def)
  then show "log_events [sample_commit] = [\<lparr>we_Revision = 6, we_Type = WatchEventUpsert, we_Namespace = ''prod'', we_Service = ''orders'',
     we_InstanceID = ''i1'', we_Value = Some (sort_maps sample_value)\<rparr>]"
    using c by (auto simp: registry_event_def log_entry_def entry_command_def pk u Let_def split: if_splits option.splits)
qed

lemma sample_wire:
  assumes "gs = [Frame 5 ''snapshot'' (exported_event ''r'' ''c'' 0 (snapshot_event sample_q 5 []))] @
      watch_loop (\<lambda>e. replicationWatchEventDTO sample_q ''r'' ''c'' 0 1010 e) rp_Type 5 (map Event (log_events [sample_commit]))"
  shows "list_all (list_all fits_buffer \<circ> frame_lines) gs" "list_all text_payload gs" "list_all frame_ok gs"
proof -
  let ?d = "answer_of sample_q (sort_maps sample_value)"
  let ?w = "\<lparr>we_Revision = 6, we_Type = WatchEventUpsert, we_Namespace = ''prod'', we_Service = ''orders'',
     we_InstanceID = ''i1'', we_Value = Some (sort_maps sample_value)\<rparr>"
  let ?s = "exported_event ''r'' ''c'' 0 (snapshot_event sample_q 5 [])" and ?u = "exported_event ''r'' ''c'' 0 (upsert_event ?w ?d)"
  have tv: "text_value (sort_maps sample_value)" using sample_value_facts(1) decoded_value [OF text_value_roundtrip] by (simp add: good_value_def)
  have sel: "selected sample_q 1010 (sort_maps sample_value) = Some ?d"
    using sample_value_facts by (simp add: selected_def sort_maps_selects good_value_def)
  have m: "MatchServiceQuery ''orders'' sample_q" "q_Namespace sample_q = ''prod''" by code_simp+
  have gs: "gs = [Frame 5 ''snapshot'' ?s, Frame 6 (event_type_name WatchEventUpsert) ?u]"
    unfolding assms sample_commit_facts(7)
    by (simp add: replicationWatchEventDTO_def event_dto [OF sample_parse] m sel) (simp add: exported_event_def)
  have short: "fits_buffer (''data: '' @ Marshal replication_event_to_json e)" if "json_bound (replication_event_to_json e) < 10000000" for e
    using that enc_json_length(1) [of "replication_event_to_json e"] by (simp add: fits_buffer_def Marshal_def)
  have num: "length (FormatInt 15) \<le> 16" "length (FormatInt 80) \<le> 81" "length (FormatInt 100) \<le> 101" "length (FormatInt 1000) \<le> 1001"
    "length (FormatUint 5) \<le> 6" "length (FormatUint 6) \<le> 7"
    using FormatUint_length [of 15] FormatUint_length [of 80] FormatUint_length [of 100] FormatUint_length [of 1000]
      FormatUint_length [of 5] FormatUint_length [of 6] by (simp_all add: FormatInt_def)
  have "fits_buffer (''data: '' @ Marshal replication_event_to_json ?s)"
    by (rule short) (use num in \<open>simp add: replication_event_to_json_def exported_event_def snapshot_event_def omitempty_def juint_def sample_q_def\<close>)
  moreover have "fits_buffer (''data: '' @ Marshal replication_event_to_json ?u)"
    by (rule short) (use num in \<open>simp add: replication_event_to_json_def exported_event_def upsert_event_def omitempty_def juint_def jint_def
      instance_to_json_def answer_of_def instance_dto_def endpointDTOsFromRegistry_def FilterEndpoints_def sample_q_def sort_maps_def NewValue_def
      sample_normal_def sample_input_def sample_endpoint_def clone_endpoint_def CloneStringMap_def EffectiveLeaseTTLSeconds_def
      endpoints_to_json_def endpoint_to_json_def\<close>)
  ultimately show "list_all (list_all fits_buffer \<circ> frame_lines) gs" using num by (simp add: gs fits_buffer_def)
  show "list_all text_payload gs"
    using answer_text(1) [OF tv, of sample_q] sample_value_facts
    by (simp add: gs text_event_def exported_event_def snapshot_event_def upsert_event_def sample_q_def is_i64_def utf8_def sanitize_ascii is_ascii_def
        text_instance_def utf8_value_def value_of_instance_def)
  show "list_all frame_ok gs" by (simp add: gs frame_type_ok_def)
qed

theorem mirror_converges_witness:
  "\<exists>cs n' t'. runReplicationStream (recording sample_nd)
      (\<lambda>url auth. Response 200 (concat (map (sse_frame replication_event_to_json)
         ([Frame 5 ''snapshot'' (exported_event ''r'' ''c'' 0 (snapshot_event sample_q 5 []))] @
          watch_loop (\<lambda>e. replicationWatchEventDTO sample_q ''r'' ''c'' 0 1010 e) rp_Type 5 (map Event (log_events [sample_commit]))))) False)
      ''t'' (\<lambda>r i. 2000) 0 None sample_target sample_service ((sample_node [], []), NewTracker) = (((n', cs), t'), None) \<and>
    mirror_presents sample_target sample_service (fold ps_exec cs Map.empty) (''orders'', ''i1'') (Some (answer_of sample_q (sort_maps sample_value)))"
proof -
  let ?gs = "[Frame 5 ''snapshot'' (exported_event ''r'' ''c'' 0 (snapshot_event sample_q 5 []))] @
          watch_loop (\<lambda>e. replicationWatchEventDTO sample_q ''r'' ''c'' 0 1010 e) rp_Type 5 (map Event (log_events [sample_commit]))"
  let ?fetch = "\<lambda>url auth. Response 200 (concat (map (sse_frame replication_event_to_json) ?gs)) False"
  note wire = sample_wire [OF refl]
  have get: "rn_Get sample_nd (ReplicationCheckpointKey r c n v) (sample_node []) = (sample_node [], Inr [])" for r c n v
    using sample_dir [of "[]"]
    by (simp add: sample_nd_def raft_registryNode_def node_Get_def sample_node_parts node_dir_def or_empty_def
        live_Get [OF list_store_live] ReplicationCheckpointKey_def ReplicationCheckpointPrefix_def isMetaKey_def)
  obtain cs t' where run: "runReplicationStream (recording sample_nd) ?fetch ''t'' (\<lambda>r i. 2000) 0 None sample_target sample_service
      ((sample_node [], []), NewTracker) = (((sample_node [], cs), t'), None)"
    using willing_stream [OF sample_Propose get refl wire(2,3,1)] by blast
  obtain hub' s where s: "WatchReplication sample_nd sample_api id True True [] 1005 0 (\<lambda>e. 1010) (\<lambda>e. 0) sample_fetch (sample_source, NewWatchHub, []) =
     ((sample_source, hub'), Inr s)" "ws_frames s = [Frame 5 ''snapshot'' (exported_event ''r'' ''c'' 0 (snapshot_event sample_q 5 []))]"
    using sample_replication by blast
  have q: "ParseQuery id (rq_Query sample_fetch) = Inr sample_q" "q_Limit sample_q = 0" "task_query sample_service sample_q"
    using sample_parse by (simp_all add: sample_fetch_def sample_q_def task_query_def sample_service_def)
  have log: "watched_log ([] @ [] @ [sample_commit])" "sorted_wrt (<) (map e_Index ([] @ [] @ [sample_commit]))" "tidy_log ([] @ [] @ [sample_commit])"
    using sample_commit_facts by simp_all
  have ev: "input_events (map Event ws) = ws" "Finished \<notin> set (map Event ws)" for ws by (induction ws) auto
  have dir: "node_dir sample_source = log_exec ([] @ []) Map.empty" by (simp add: sample_source_facts)
  have "directory_ok (node_dir sample_source)" by (simp add: sample_source_facts directory_ok_def stored_def)
  from rn.replication_session_ok [OF sample_nd_ok(1) sample_source_facts(1) q(1,2) s this] have rv: "ws_revision s = 5" by simp
  have gs: "?gs = ws_frames s @ watch_loop (\<lambda>e. replicationWatchEventDTO sample_q (h_sourceRegion sample_api) (h_sourceCluster sample_api) 0 1010 e)
      rp_Type (ws_revision s) (map Event (log_events [sample_commit]))" by (simp only: s(2) rv) (simp add: sample_api_def)
  have task: "task_ok sample_target sample_service (\<lambda>r i. 2000)"
  proof -
    have "trimmed ''r''" "trimmed ''c''" "trimmed ''prod''" "trimmed ''orders''" by code_simp+
    then show ?thesis
      by (simp add: task_ok_def sample_target_def sample_service_def is_i64_def utf8_def sanitize_ascii is_ascii_def)
  qed
  have key: "trimmed ''i1''" "utf8 ''i1''" by code_simp (simp add: utf8_def sanitize_ascii is_ascii_def)
  have idx: "e_Index e \<le> 5" if "e \<in> set []" for e :: Entry using that by simp
  have later: "5 < e_Index e" if "e \<in> set ([] @ [sample_commit])" for e using that sample_commit_facts(6) by simp
  have i64: "is_i64 0" by (simp add: is_i64_def)
  have api: "utf8 (h_sourceRegion sample_api)" "utf8 (h_sourceCluster sample_api)"
    by (simp_all add: sample_api_def utf8_def sanitize_ascii is_ascii_def)
  have heard: "[] = [] @ ([] :: Entry list)" "input_events (map Event (log_events [sample_commit])) = log_events ([] @ [] @ [sample_commit])"
    by (simp_all add: ev(1))
  obtain t where t: "t \<in> insert 1005 ((\<lambda>e. 1010) ` set (input_events (map Event (log_events [sample_commit]))))"
    "mirror_presents sample_target sample_service (fold ps_exec cs Map.empty) (sv_Service sample_service, ''i1'')
      (cell sample_q t (log_exec ([] @ [] @ [sample_commit]) Map.empty) (sv_Service sample_service, ''i1''))"
    by (rule bexE [OF mirror_converges [OF sample_nd_ok(1) sample_source_facts(1) q s _ log idx later dir heard ev(2) gs wire(1) i64 i64 api refl task run
        sample_commit_facts(2) key]]) simp_all
  have st: "stored [key_of sample_value \<mapsto> marshal_value sample_value] (key_of sample_value) = Some (sort_maps sample_value)"
    by (rule stored_put [OF sample_value_facts(1)]) simp
  have ex: "log_exec ([] @ [] @ [sample_commit]) Map.empty = [key_of sample_value \<mapsto> marshal_value sample_value]"
    by (simp add: entry_exec_def sample_commit_facts(1))
  have "IsAlive sample_value 1005" by code_simp
  with t(1) sample_value_facts(1-3) have "selected sample_q t (sort_maps sample_value) = Some (answer_of sample_q (sort_maps sample_value))"
    by (auto simp: selected_def sort_maps_selects good_value_def)
  with st have "cell sample_q t (log_exec ([] @ [] @ [sample_commit]) Map.empty) (sv_Service sample_service, ''i1'') = Some (answer_of sample_q (sort_maps sample_value))"
    unfolding ex by (simp add: cell_def sample_commit_facts(3) [symmetric])
  with t(2) run show ?thesis by (simp add: sample_service_def)
qed

subsection \<open>An interrupted snapshot\<close>

text \<open>The commands of a failed snapshot that were accepted: all proposed ones but the last.\<close>

lemma accepted_part:
  assumes "applyReplicationSnapshot (recording nd) now target service p r ((n, []), t) = (((n', cs), t'), Some e)"
  shows "\<exists>j. butlast cs = take j (delete_prefix_command (service_prefix target service) # instance_puts now target r 0 (rp_Instances p))"
proof -
  let ?all = "delete_prefix_command (service_prefix target service) # instance_puts now target r 0 (rp_Instances p)"
  obtain k c where "cs = take k (?all @ [c])"
    using snapshot_recorded [OF assms] by (auto simp: proposed_def event_commands_def)
  moreover have "\<exists>j. butlast (take k (xs @ [c])) = take j xs" for xs
    by (cases "k \<le> length xs") (auto simp: butlast_take intro: exI [of _ "length xs"])
  ultimately show ?thesis by blast
qed

lemma puts_spare:
  assumes "c \<in> set (instance_puts now target r 0 ds)" "\<And>d. d \<in> set ds \<Longrightarrow> k \<noteq> ReplicatedKey (TrimSpace (tg_SourceRegion target)) (TrimSpace (tg_SourceClusterID target)) (id_Namespace d) (id_Service d) (id_InstanceID d)"
  shows "ps_exec c m k = m k"
proof -
  obtain j d where d: "d \<in> set ds" "c = replicated_put (replicatedValueFromDTO (now j) target d r)"
    using instance_puts_set [of c now target r 0 id ds] assms(1) by auto
  from assms(2) [OF d(1)] show ?thesis
    by (simp add: d(2) replicated_put_def replicatedValueFromDTO_def NewReplicatedValue_def Let_def)
qed

lemma fold_spare: "(\<And>c m. c \<in> set cs \<Longrightarrow> ps_exec c m k = m k) \<Longrightarrow> fold ps_exec cs m k = m k"
  by (induction cs arbitrary: m) simp_all


text \<open>A node that accepts the first command only.\<close>

definition failing_node :: "nat registryNode" where
  "failing_node = \<lparr>rn_ProposeCommand = (\<lambda>c k. (k + 1, if k = 0 then None else Some ErrNodeClosed)), rn_LinearizableRead = (\<lambda>ctx k. (k, None)),
     rn_Get = (\<lambda>key k. (k, Inr [])), rn_Scan = (\<lambda>a b l k. (k, Inr [])), rn_Status = (\<lambda>k. rn_Status sample_nd (sample_node []))\<rparr>"


end
