(* ===== verification/Peer_Transport.thy ===== *)
theory Peer_Transport
  imports Transport_Correct Raft_Props
begin

text \<open>
  The sending side of the transport between nodes (\<open>internal/runtime/peer_transport.go\<close>): the cache of clients, and how the messages
  of a ready batch are grouped and sent. The gRPC client is a parameter: making a client for an address, closing it, sending a
  batch and streaming a snapshot.
\<close>

record 'c peer_net =
  pn_NewPeerClient :: "bytes \<Rightarrow> 'c option"
  pn_Close :: "'c \<Rightarrow> bool"
  pn_Send :: "'c \<Rightarrow> RaftMessageBatch \<Rightarrow> bool"
  pn_InstallSnapshot :: "'c \<Rightarrow> SnapshotChunk list \<Rightarrow> bool"

record 'c PeerTransport =
  pt_selfID :: u64
  pt_book :: AddressBook
  pt_chunkSize :: int
  pt_clients :: "(u64, 'c) gomap"

datatype peer_error = NoAddress u64 | NoClient u64 | EmptySnapshotData u64 | SendFailed u64 | InstallFailed u64 | CloseFailed u64

text \<open>What goes over the network: the target and the client it was sent on.\<close>

datatype 'c sent = SentBatch u64 'c RaftMessageBatch | SentSnapshot u64 'c "SnapshotChunk list"

definition NewPeerTransport :: "u64 \<Rightarrow> AddressBook \<Rightarrow> int \<Rightarrow> 'c PeerTransport" where
  "NewPeerTransport selfID book chunkSize =
     \<lparr>pt_selfID = selfID, pt_book = book, pt_chunkSize = (if chunkSize \<le> 0 then int DefaultSnapshotChunk else chunkSize), pt_clients = []\<rparr>"

definition drop_client :: "'c peer_net \<Rightarrow> u64 \<Rightarrow> 'c PeerTransport \<Rightarrow> 'c PeerTransport \<times> peer_error option" where
  "drop_client net nodeID t =
     (case map_of (pt_clients t) nodeID of
        None \<Rightarrow> (t, None)
      | Some client \<Rightarrow>
          if \<not> pn_Close net client then (t, Some (CloseFailed nodeID))
          else (t\<lparr>pt_clients := AList.delete nodeID (pt_clients t)\<rparr>, None))"

definition UpsertPeer ::
  "'c peer_net \<Rightarrow> u64 \<Rightarrow> bytes \<Rightarrow> bytes \<Rightarrow> bytes \<Rightarrow> 'c PeerTransport \<Rightarrow> 'c PeerTransport \<times> peer_error option" where
  "UpsertPeer net nodeID httpAddr grpcAddr adminAddr t =
     drop_client net nodeID (t\<lparr>pt_book := ab_Set (pt_book t) nodeID httpAddr grpcAddr adminAddr\<rparr>)"

definition RemovePeer :: "'c peer_net \<Rightarrow> u64 \<Rightarrow> 'c PeerTransport \<Rightarrow> 'c PeerTransport \<times> peer_error option" where
  "RemovePeer net nodeID t = drop_client net nodeID (t\<lparr>pt_book := ab_Delete (pt_book t) nodeID\<rparr>)"

definition peer_client :: "'c peer_net \<Rightarrow> u64 \<Rightarrow> 'c PeerTransport \<Rightarrow> 'c PeerTransport \<times> (peer_error + 'c)" where
  "peer_client net targetID t =
     (case map_of (pt_clients t) targetID of
        Some client \<Rightarrow> (t, Inr client)
      | None \<Rightarrow>
          (let addr = GRPCAddr (pt_book t) targetID in
           if addr = [] then (t, Inl (NoAddress targetID))
           else case pn_NewPeerClient net addr of
             None \<Rightarrow> (t, Inl (NoClient targetID))
           | Some client \<Rightarrow> (t\<lparr>pt_clients := AList.update targetID client (pt_clients t)\<rparr>, Inr client)))"

definition marshalConfState :: "('ms, 'rn) raft_library \<Rightarrow> ConfState \<Rightarrow> bytes" where
  "marshalConfState rl confState = (case rl_MarshalConfState rl confState of None \<Rightarrow> [] | Some data \<Rightarrow> data)"

definition snapshot_chunks :: "('ms, 'rn) raft_library \<Rightarrow> raft_snapshot \<Rightarrow> int \<Rightarrow> SnapshotChunk list" where
  "snapshot_chunks rl s chunkSize =
     splitSnapshotChunks \<lparr>sm_Term = rs_Term s, sm_Index = rs_Index s, sm_ConfState = marshalConfState rl (rs_ConfState s), sm_Checksum = [],
       sm_FileSize = word_of_nat (length (rs_Data s))\<rparr> (rs_Data s) chunkSize"

definition sendSnapshot ::
  "('ms, 'rn) raft_library \<Rightarrow> 'c peer_net \<Rightarrow> raft_message \<Rightarrow> 'c PeerTransport \<Rightarrow> 'c PeerTransport \<times> 'c sent list \<times> peer_error option" where
  "sendSnapshot rl net message t =
     (if rm_To message = 0 \<or> rm_To message = pt_selfID t then (t, [], None)
      else case peer_client net (rm_To message) t of
        (t1, Inl e) \<Rightarrow> (t1, [], Some e)
      | (t1, Inr client) \<Rightarrow>
          if rs_Data (rm_Snapshot message) = [] then (t1, [], Some (EmptySnapshotData (rm_To message)))
          else let chunks = snapshot_chunks rl (rm_Snapshot message) (pt_chunkSize t1) in
            (t1, [SentSnapshot (rm_To message) client chunks],
             if pn_InstallSnapshot net client chunks then None else Some (InstallFailed (rm_To message))))"

definition raft_envelope :: "OutboundMessage \<Rightarrow> RaftEnvelope" where
  "raft_envelope message = \<lparr>re_From = om_From message, re_To = om_To message, re_Payload = om_Payload message\<rparr>"

text \<open>The first loop: snapshots are sent at once, everything else is grouped by target.\<close>

definition add_message :: "OutboundMessage \<Rightarrow> (u64, RaftEnvelope list) gomap \<Rightarrow> (u64, RaftEnvelope list) gomap" where
  "add_message message grouped =
     AList.update (om_To message)
       ((case map_of grouped (om_To message) of None \<Rightarrow> [] | Some items \<Rightarrow> items) @ [raft_envelope message]) grouped"

fun forward_messages ::
  "('ms, 'rn) raft_library \<Rightarrow> 'c peer_net \<Rightarrow> OutboundMessage list \<Rightarrow> (u64, RaftEnvelope list) gomap \<Rightarrow> 'c PeerTransport \<Rightarrow>
    'c PeerTransport \<times> 'c sent list \<times> peer_error list \<times> (u64, RaftEnvelope list) gomap" where
  "forward_messages rl net [] grouped t = (t, [], [], grouped)"
| "forward_messages rl net (message # messages) grouped t =
     (if om_To message = 0 \<or> om_To message = pt_selfID t then forward_messages rl net messages grouped t
      else if rm_Type (om_Raw message) = MsgSnap then
        (case sendSnapshot rl net (om_Raw message) t of
           (t1, out, e) \<Rightarrow>
             (case forward_messages rl net messages grouped t1 of
                (t2, out', es, grouped') \<Rightarrow> (t2, out @ out', (case e of None \<Rightarrow> es | Some x \<Rightarrow> x # es), grouped')))
      else forward_messages rl net messages (add_message message grouped) t)"

text \<open>The second loop, over the groups in the order in which the loop meets them.\<close>

fun send_groups ::
  "'c peer_net \<Rightarrow> (u64, RaftEnvelope list) gomap \<Rightarrow> 'c PeerTransport \<Rightarrow> 'c PeerTransport \<times> 'c sent list \<times> peer_error list" where
  "send_groups net [] t = (t, [], [])"
| "send_groups net ((targetID, items) # groups) t =
     (case peer_client net targetID t of
        (t1, Inl e) \<Rightarrow> (case send_groups net groups t1 of (t2, out, es) \<Rightarrow> (t2, out, e # es))
      | (t1, Inr client) \<Rightarrow>
          (let batch = \<lparr>rb_Messages = items\<rparr> in
           case send_groups net groups t1 of
             (t2, out, es) \<Rightarrow>
               (t2, SentBatch targetID client batch # out, if pn_Send net client batch then es else SendFailed targetID # es)))"

text \<open>\<open>Forward\<close>; \<open>visit\<close> is the order of the range loop over the groups. The error is the list of those that were joined.\<close>

definition Forward ::
  "('ms, 'rn) raft_library \<Rightarrow> 'c peer_net \<Rightarrow> ((u64, RaftEnvelope list) gomap \<Rightarrow> (u64, RaftEnvelope list) gomap) \<Rightarrow> Ready \<Rightarrow>
    'c PeerTransport \<Rightarrow> 'c PeerTransport \<times> 'c sent list \<times> peer_error list" where
  "Forward rl net visit ready t =
     (case forward_messages rl net (ry_Messages ready) [] t of
        (t1, out, es, grouped) \<Rightarrow>
          (case send_groups net (visit grouped) t1 of (t2, out', es') \<Rightarrow> (t2, out @ out', es @ es')))"

definition pt_Close :: "'c peer_net \<Rightarrow> 'c PeerTransport \<Rightarrow> 'c PeerTransport \<times> peer_error list" where
  "pt_Close net t =
     (t\<lparr>pt_clients := []\<rparr>, List.map_filter (\<lambda>(id, client). if pn_Close net client then None else Some (CloseFailed id)) (pt_clients t))"

subsection \<open>What reaches a target\<close>

text \<open>The messages of a batch for a target, without snapshots, as they are put on the wire.\<close>

definition for_target :: "u64 \<Rightarrow> u64 \<Rightarrow> OutboundMessage list \<Rightarrow> RaftEnvelope list" where
  "for_target self i messages =
     (if i = 0 \<or> i = self then [] else map raft_envelope (filter (\<lambda>m. om_To m = i \<and> rm_Type (om_Raw m) \<noteq> MsgSnap) messages))"

definition batches :: "u64 \<Rightarrow> 'c sent list \<Rightarrow> RaftEnvelope list list" where
  "batches i out =
     List.map_filter (\<lambda>s. case s of SentBatch j c b \<Rightarrow> if j = i then Some (rb_Messages b) else None | SentSnapshot j c cs \<Rightarrow> None) out"

lemma batches_simps [simp]:
  "batches i [] = []" "batches i (SentBatch j c b # out) = (if j = i then rb_Messages b # batches i out else batches i out)"
  "batches i (SentSnapshot j c cs # out) = batches i out" "batches i (out @ out') = batches i out @ batches i out'"
  by (simp_all add: batches_def List.map_filter_def)

lemma peer_client_keeps:
  "peer_client net i t = (t', r) \<Longrightarrow> pt_selfID t' = pt_selfID t \<and> pt_book t' = pt_book t \<and> pt_chunkSize t' = pt_chunkSize t"
  by (auto simp: peer_client_def Let_def split: option.splits if_splits)

lemma peer_client_error: "peer_client net i t = (t', Inl e) \<Longrightarrow> e = NoAddress i \<or> e = NoClient i"
  by (auto simp: peer_client_def Let_def split: option.splits if_splits)

lemma sendSnapshot_keeps:
  "sendSnapshot rl net m t = (t', out, e) \<Longrightarrow> pt_selfID t' = pt_selfID t \<and> pt_chunkSize t' = pt_chunkSize t \<and> batches i out = [] \<and>
     (\<forall>s \<in> set out. \<exists>c. s = SentSnapshot (rm_To m) c (snapshot_chunks rl (rm_Snapshot m) (pt_chunkSize t)) \<and> rm_To m \<noteq> 0 \<and>
        rm_To m \<noteq> pt_selfID t \<and> rs_Data (rm_Snapshot m) \<noteq> [])"
  by (auto simp: sendSnapshot_def Let_def split: if_splits prod.splits sum.splits dest!: peer_client_keeps)

lemma add_message_group:
  "map_of (add_message m g) i = (if i = om_To m then Some ((case map_of g i of None \<Rightarrow> [] | Some xs \<Rightarrow> xs) @ [raft_envelope m]) else map_of g i)"
  "distinct (map fst g) \<Longrightarrow> distinct (map fst (add_message m g))"
  by (simp_all add: add_message_def update_conv' distinct_update)

lemma forward_messages_groups:
  assumes "forward_messages rl net ms g t = (t', out, es, g')"
  shows "pt_selfID t' = pt_selfID t \<and> batches i out = [] \<and> (distinct (map fst g) \<longrightarrow> distinct (map fst g')) \<and>
    map_of g' i = (if for_target (pt_selfID t) i ms = [] then map_of g i
      else Some ((case map_of g i of None \<Rightarrow> [] | Some xs \<Rightarrow> xs) @ for_target (pt_selfID t) i ms))"
  using assms
proof (induction ms arbitrary: g t t' out es g')
  case (Cons m ms)
  show ?case
  proof (cases "om_To m = 0 \<or> om_To m = pt_selfID t")
    case True
    with Cons show ?thesis by (fastforce simp: for_target_def)
  next
    case False
    show ?thesis
    proof (cases "rm_Type (om_Raw m) = MsgSnap")
      case True
      obtain t1 out1 e1 where s: "sendSnapshot rl net (om_Raw m) t = (t1, out1, e1)" by (metis prod.exhaust)
      obtain t2 out2 es2 g2 where r: "forward_messages rl net ms g t1 = (t2, out2, es2, g2)" by (metis prod.exhaust)
      from Cons.prems s r False True have "t' = t2" "out = out1 @ out2" "g' = g2" by auto
      with Cons.IH [OF r] sendSnapshot_keeps [OF s, of i] True show ?thesis by (simp add: for_target_def)
    next
      case f: False
      with False Cons.prems have "forward_messages rl net ms (add_message m g) t = (t', out, es, g')" by simp
      from Cons.IH [OF this] f False show ?thesis by (auto simp: for_target_def add_message_group)
    qed
  qed
qed (simp add: for_target_def)

fun error_target :: "peer_error \<Rightarrow> u64" where
  "error_target (NoAddress i) = i" | "error_target (NoClient i) = i" | "error_target (EmptySnapshotData i) = i"
| "error_target (SendFailed i) = i" | "error_target (InstallFailed i) = i" | "error_target (CloseFailed i) = i"

lemma send_groups_batches:
  assumes "send_groups net gs t = (t', out, es)" "distinct (map fst gs)"
  shows "batches i out = (case map_of gs i of None \<Rightarrow> [] | Some items \<Rightarrow> if {NoAddress i, NoClient i} \<inter> set es \<noteq> {} then [] else [items]) \<and>
    error_target ` set es \<subseteq> fst ` set gs"
  using assms
proof (induction gs arbitrary: t t' out es)
  case (Cons g gs)
  obtain j items where g: "g = (j, items)" by fastforce
  obtain t1 r where c: "peer_client net j t = (t1, r)" by fastforce
  obtain t2 out2 es2 where s: "send_groups net gs t1 = (t2, out2, es2)" by (metis prod.exhaust)
  have d: "distinct (map fst gs)" "j \<notin> fst ` set gs" using Cons.prems(2) g by auto
  note ih = Cons.IH [OF s d(1)]
  let ?b = "\<lambda>gs es. case map_of gs i of None \<Rightarrow> [] | Some items \<Rightarrow> if {NoAddress i, NoClient i} \<inter> set es \<noteq> {} then [] else [items]"
  have sub: "error_target ` set es2 \<subseteq> fst ` set gs" using ih by simp
  have "e \<notin> set es2" if "error_target e = j" for e using sub d(2) that by blast
  then have none: "{NoAddress j, NoClient j} \<inter> set es2 = {}" by auto
  have mj: "map_of gs j = None" using d(2) by (simp add: map_of_eq_None_iff)
  show ?case
  proof (cases r)
    case (Inl e)
    with Cons.prems(1) c s g have "out = out2" "es = e # es2" by auto
    moreover have "e = NoAddress j \<or> e = NoClient j" using peer_client_error [OF c [unfolded Inl]] .
    ultimately have "batches i out = ?b (g # gs) es" "error_target ` set es \<subseteq> fst ` set (g # gs)"
      using ih none mj sub by (auto simp: g simp del: image_subset_iff split: option.split)
    then show ?thesis ..
  next
    case (Inr cl)
    with Cons.prems(1) c s g have "out = SentBatch j cl \<lparr>rb_Messages = items\<rparr> # out2" "es = es2 \<or> es = SendFailed j # es2"
      by (auto simp: Let_def split: if_splits)
    moreover from this(2) have "error_target ` set es \<subseteq> error_target ` insert (SendFailed j) (set es2)" by (intro image_mono) auto
    ultimately have "batches i out = ?b (g # gs) es" "error_target ` set es \<subseteq> insert j (fst ` set gs)"
      using ih none mj sub by (auto simp: g split: option.split)
    then show ?thesis by (simp add: g)
  qed
qed simp

lemma forward_messages_snapshots:
  assumes "forward_messages rl net ms g t = (t', out, es, g')" "s \<in> set out" "list_all (\<lambda>m. rm_To (om_Raw m) = om_To m) ms"
  shows "\<exists>m \<in> set ms. \<exists>c. s = SentSnapshot (om_To m) c (snapshot_chunks rl (rm_Snapshot (om_Raw m)) (pt_chunkSize t)) \<and>
    rm_Type (om_Raw m) = MsgSnap \<and> om_To m \<noteq> 0 \<and> om_To m \<noteq> pt_selfID t \<and> rs_Data (rm_Snapshot (om_Raw m)) \<noteq> []"
  using assms
proof (induction ms arbitrary: g t t' out es g')
  case (Cons m ms)
  show ?case
  proof (cases "om_To m \<noteq> 0 \<and> om_To m \<noteq> pt_selfID t \<and> rm_Type (om_Raw m) = MsgSnap")
    case True
    obtain t1 out1 e1 where s: "sendSnapshot rl net (om_Raw m) t = (t1, out1, e1)" by (metis prod.exhaust)
    obtain t2 out2 es2 g2 where r: "forward_messages rl net ms g t1 = (t2, out2, es2, g2)" by (metis prod.exhaust)
    from Cons.prems s r True have "out = out1 @ out2" by auto
    with Cons.IH [OF r] Cons.prems sendSnapshot_keeps [OF s] True show ?thesis by auto
  next
    case False
    with Cons show ?thesis by (fastforce split: if_splits)
  qed
qed simp

lemma send_groups_targets:
  "send_groups net gs t = (t', out, es) \<Longrightarrow> s \<in> set out \<Longrightarrow> \<exists>i c b. s = SentBatch i c b \<and> (i, rb_Messages b) \<in> set gs"
proof (induction gs arbitrary: t t' out es)
  case (Cons g gs)
  obtain j items where "g = (j, items)" by fastforce
  with Cons show ?case by (fastforce simp: Let_def split: prod.splits sum.splits)
qed simp

lemma split_chunks_data: "0 < k \<Longrightarrow> concat (map sc_Data (split_chunks meta data k offset)) = drop offset data"
proof (induction meta data k offset rule: split_chunks.induct)
  case (1 meta data k offset)
  show ?case
  proof (cases "offset < length data")
    case True
    have "take (min k (length data - offset)) (drop offset data) @ drop (offset + k) data = drop offset data"
      by (metis append_take_drop_id drop_drop add.commute length_drop min.commute take_all_iff nle_le min_def)
    with 1 True show ?thesis by (subst split_chunks.simps) (auto simp: Let_def min_def split: if_splits)
  qed (subst split_chunks.simps, simp)
qed

lemma chunks_data:
  assumes "data \<noteq> []"
  shows "concat (map sc_Data (splitSnapshotChunks meta data n)) = data"
  using assms by (simp add: splitSnapshotChunks_def Let_def split_chunks_data DefaultSnapshotChunk_def)


definition sample_message :: OutboundMessage where
  "sample_message = \<lparr>om_To = 2, om_From = 1, om_Type = [], om_Payload = ''m'', om_Raw = \<lparr>rm_Type = MsgOther [], rm_To = 2, rm_From = 1,
     rm_Snapshot = \<lparr>rs_Data = [], rs_Index = 0, rs_Term = 0, rs_ConfState = zero_ConfState\<rparr>\<rparr>\<rparr>"

definition sample_net :: "bytes peer_net" where
  "sample_net = \<lparr>pn_NewPeerClient = Some, pn_Close = (\<lambda>c. True), pn_Send = (\<lambda>c b. True), pn_InstallSnapshot = (\<lambda>c cs. True)\<rparr>"

definition sample_ready :: Ready where
  "sample_ready = \<lparr>ry_SoftState = \<lparr>so_LeaderID = 1, so_Role = RoleLeader\<rparr>, ry_HardState = \<lparr>rh_Term = 1, rh_Vote = 1, rh_Commit = 1\<rparr>,
     ry_Entries = [], ry_CommittedEntries = [], ry_Messages = [sample_message, sample_message], ry_Snapshot = None, ry_MustSync = False\<rparr>"

end
