(* ===== verification/Members.thy ===== *)
theory Members
  imports Peer_Transport Directory_Props Replication_Tracker
begin

text \<open>
  Members of the cluster and their addresses: the control handlers (\<open>internal/transport/http/handlers_impl.go\<close>), what the application
  does with committed membership changes, and how the address book is written to the store and read back
  (\<open>internal/app/app.go\<close>). The book of the application and the book of the peer transport are one object.
\<close>

subsection \<open>Committed membership changes\<close>

text \<open>
  \<open>applyConfChangeContext\<close>. Errors are only logged. \<open>left\<close> is what a context that cannot be decoded leaves in the variable. The
  state is the peer transport and the node.
\<close>

definition change_request :: "(bytes \<Rightarrow> MemberChangeRequestDTO) \<Rightarrow> bytes \<Rightarrow> u64 \<Rightarrow> MemberChangeRequestDTO" where
  "change_request left contextData nodeID =
     (let request = (if contextData = [] then zero_member_change
            else case Unmarshal (into_struct member_change_fields) contextData zero_member_change of None \<Rightarrow> left contextData | Some r \<Rightarrow> r) in
      if mc_NodeID request = 0 then request\<lparr>mc_NodeID := nodeID\<rparr> else request)"

fun apply_changes ::
  "'c peer_net \<Rightarrow> MemberChangeRequestDTO \<Rightarrow> (conf_change_kind \<times> u64) list \<Rightarrow> 'c PeerTransport \<times> ('db, 'ms, 'rn) RaftNode \<Rightarrow>
    'c PeerTransport \<times> ('db, 'ms, 'rn) RaftNode" where
  "apply_changes net request [] w = w"
| "apply_changes net request ((ty, nodeID) # changes) (t, n) =
     apply_changes net request changes
       (if ty = ConfChangeAddLearnerNode \<or> ty = ConfChangeAddNode then
          (fst (UpsertPeer net (mc_NodeID request) (mc_HTTPAddr request) (mc_GRPCAddr request) (mc_AdminAddr request) t),
           fst (node_SetMemberAddress (mc_NodeID request) (mc_HTTPAddr request) (mc_GRPCAddr request) (mc_AdminAddr request) n))
        else if ty = ConfChangeRemoveNodeKind then
          (fst (RemovePeer net (mc_NodeID request) t), fst (node_DeleteMemberAddress (mc_NodeID request) n))
        else (t, n))"

definition applyConfChangeContext ::
  "(bytes \<Rightarrow> MemberChangeRequestDTO) \<Rightarrow> 'c peer_net \<Rightarrow> conf_change \<Rightarrow> 'c PeerTransport \<times> ('db, 'ms, 'rn) RaftNode \<Rightarrow>
    'c PeerTransport \<times> ('db, 'ms, 'rn) RaftNode" where
  "applyConfChangeContext left net change w =
     (case cc_Changes change of
        [] \<Rightarrow> w
      | (ty, nodeID) # _ \<Rightarrow> apply_changes net (change_request left (cc_Context change) nodeID) (cc_Changes change) w)"

definition control_change :: "('ms, 'rn) raft_library \<Rightarrow> Entry \<Rightarrow> conf_change option" where
  "control_change rl e =
     (if e_Type e = EntryConfChangeV2 then rl_DecodeConfChangeV2 rl (e_Data e)
      else if e_Type e = EntryConfChange then rl_DecodeConfChange rl (e_Data e)
      else None)"

fun applyCommittedControlEntries ::
  "('ms, 'rn) raft_library \<Rightarrow> (bytes \<Rightarrow> MemberChangeRequestDTO) \<Rightarrow> 'c peer_net \<Rightarrow> LogEntry list \<Rightarrow>
    'c PeerTransport \<times> ('db, 'ms, 'rn) RaftNode \<Rightarrow> 'c PeerTransport \<times> ('db, 'ms, 'rn) RaftNode" where
  "applyCommittedControlEntries rl left net [] w = w"
| "applyCommittedControlEntries rl left net (entry # es) w =
     applyCommittedControlEntries rl left net es
       (case control_change rl (le_Raw entry) of None \<Rightarrow> w | Some change \<Rightarrow> applyConfChangeContext left net change w)"

subsection \<open>The stored addresses\<close>

definition filled :: "bytes \<Rightarrow> bytes \<Rightarrow> bytes" where
  "filled current persisted = (if current = [] then persisted else current)"

fun restore_members :: "MemberAddress list \<Rightarrow> AddressBook \<Rightarrow> AddressBook" where
  "restore_members [] book = book"
| "restore_members (member # members) book =
     restore_members members
       (if ma_NodeID member = 0 then book
        else ab_Set book (ma_NodeID member) (filled (HTTPAddr book (ma_NodeID member)) (ma_HTTPAddr member))
          (filled (GRPCAddr book (ma_NodeID member)) (ma_GRPCAddr member))
          (filled (AdminAddr book (ma_NodeID member)) (ma_AdminAddr member)))"

definition restorePersistedMemberAddresses :: "('db, 'ms, 'rn) RaftNode \<Rightarrow> AddressBook \<Rightarrow> storage_error + AddressBook" where
  "restorePersistedMemberAddresses n book = and_then (node_ListMemberAddresses n) (\<lambda>members. Inr (restore_members members book))"

text \<open>
  One of the three loops of \<open>persistCurrentAddressBook\<close>. The nodes already seen are left out; the first loop, which starts with
  none and runs over the distinct keys of a map, leaves out nothing.
\<close>

fun set_addresses ::
  "AddressBook \<Rightarrow> u64 list \<Rightarrow> u64 list \<Rightarrow> ('db, 'ms, 'rn) RaftNode \<Rightarrow> ('db, 'ms, 'rn) RaftNode \<times> (storage_error + u64 list)" where
  "set_addresses book [] seen n = (n, Inr seen)"
| "set_addresses book (nodeID # ids) seen n =
     (if nodeID \<in> set seen then set_addresses book ids seen n
      else case node_SetMemberAddress nodeID (HTTPAddr book nodeID) (GRPCAddr book nodeID) (AdminAddr book nodeID) n of
        (n1, Some e) \<Rightarrow> (n1, Inl e)
      | (n1, None) \<Rightarrow> set_addresses book ids (nodeID # seen) n1)"

fun delete_addresses ::
  "u64 list \<Rightarrow> MemberAddress list \<Rightarrow> ('db, 'ms, 'rn) RaftNode \<Rightarrow> ('db, 'ms, 'rn) RaftNode \<times> storage_error option" where
  "delete_addresses seen [] n = (n, None)"
| "delete_addresses seen (member # members) n =
     (if ma_NodeID member \<in> set seen then delete_addresses seen members n
      else case node_DeleteMemberAddress (ma_NodeID member) n of
        (n1, Some e) \<Rightarrow> (n1, Some e)
      | (n1, None) \<Rightarrow> delete_addresses seen members n1)"

definition persistCurrentAddressBook ::
  "AddressBook \<Rightarrow> ('db, 'ms, 'rn) RaftNode \<Rightarrow> ('db, 'ms, 'rn) RaftNode \<times> storage_error option" where
  "persistCurrentAddressBook book n =
     (case node_ListMemberAddresses n of
        Inl e \<Rightarrow> (n, Some e)
      | Inr persisted \<Rightarrow>
          (case set_addresses book (map fst (SnapshotHTTP book)) [] n of
             (n1, Inl e) \<Rightarrow> (n1, Some e)
           | (n1, Inr seen1) \<Rightarrow>
          (case set_addresses book (map fst (SnapshotGRPC book)) seen1 n1 of
             (n2, Inl e) \<Rightarrow> (n2, Some e)
           | (n2, Inr seen2) \<Rightarrow>
          (case set_addresses book (map fst (SnapshotAdmin book)) seen2 n2 of
             (n3, Inl e) \<Rightarrow> (n3, Some e)
           | (n3, Inr seen3) \<Rightarrow> delete_addresses seen3 persisted n3))))"

subsection \<open>The control handlers\<close>

record ControlAPI =
  ca_clusterID :: u64
  ca_adminAddr :: bytes

definition leaderAdminAddr :: "ControlAPI \<Rightarrow> AddressBook \<Rightarrow> Status \<Rightarrow> u64 \<Rightarrow> bytes" where
  "leaderAdminAddr h book status leaderID =
     (if leaderID = 0 then [] else if leaderID = st_NodeID status then ca_adminAddr h else AdminAddr book leaderID)"

definition ensureLeader :: "ControlAPI \<Rightarrow> AddressBook \<Rightarrow> Status \<Rightarrow> unit reply option" where
  "ensureLeader h book status =
     (if st_Role status = RoleLeader \<and> st_LeaderID status = st_NodeID status then None
      else Some (writeNotLeader (st_LeaderID status) (leaderAdminAddr h book status (st_LeaderID status))))"

definition mustMarshalJSON :: "MemberChangeRequestDTO \<Rightarrow> bytes" where
  "mustMarshalJSON request = Marshal member_change_to_json request"

text \<open>The common part of the handlers: what precedes the change, and the proposal of the change.\<close>

definition member_request :: "ControlAPI \<Rightarrow> AddressBook \<Rightarrow> Status \<Rightarrow> http_request \<Rightarrow> unit reply + MemberChangeRequestDTO" where
  "member_request h book status r =
     (case allowMethod r ''POST'' of
        Some reply \<Rightarrow> Inl reply
      | None \<Rightarrow>
          (case ensureLeader h book status of
             Some reply \<Rightarrow> Inl reply
           | None \<Rightarrow>
               (case decodeJSONBody member_change_fields r zero_member_change of
                  None \<Rightarrow> Inl (writeError 400 ''bad_request'' JSONText)
                | Some request \<Rightarrow>
                    if mc_NodeID request = 0 then Inl (writeError 400 ''bad_request'' (Text ''nodeId is required'')) else Inr request)))"

definition propose_change ::
  "('ms, 'rn) raft_library \<Rightarrow> bytes \<Rightarrow> bytes \<Rightarrow> MemberChangeRequestDTO \<Rightarrow> ('db, 'ms, 'rn) RaftNode \<Rightarrow>
    ('db, 'ms, 'rn) RaftNode \<times> unit reply" where
  "propose_change rl ty message request n =
     (case ApplyConfChange rl \<lparr>cr_Type = ty, cr_NodeID = mc_NodeID request, cr_Context = mustMarshalJSON request\<rparr> n of
        (n1, Some e) \<Rightarrow> (n1, writeError 500 ''conf_change_failed'' (NodeText e))
      | (n1, None) \<Rightarrow> (n1, writeOK message None))"

definition AddLearner ::
  "('ms, 'rn) raft_library \<Rightarrow> 'c peer_net \<Rightarrow> ControlAPI \<Rightarrow> http_request \<Rightarrow> 'c PeerTransport \<times> ('db, 'ms, 'rn) RaftNode \<Rightarrow>
    ('c PeerTransport \<times> ('db, 'ms, 'rn) RaftNode) \<times> unit reply" where
  "AddLearner rl net h r w =
     (case member_request h (pt_book (fst w)) (node_Status (snd w)) r of
        Inl reply \<Rightarrow> (w, reply)
      | Inr request \<Rightarrow>
          (case UpsertPeer net (mc_NodeID request) (mc_HTTPAddr request) (mc_GRPCAddr request) (mc_AdminAddr request) (fst w) of
             (t1, Some e) \<Rightarrow> ((t1, snd w), writeError 500 ''peer_update_failed'' PeerText)
           | (t1, None) \<Rightarrow>
               (case propose_change rl ConfChangeAddLearner ''learner add requested'' request (snd w) of (n1, reply) \<Rightarrow> ((t1, n1), reply))))"

definition PromoteLearner ::
  "('ms, 'rn) raft_library \<Rightarrow> ControlAPI \<Rightarrow> http_request \<Rightarrow> 'c PeerTransport \<times> ('db, 'ms, 'rn) RaftNode \<Rightarrow>
    ('c PeerTransport \<times> ('db, 'ms, 'rn) RaftNode) \<times> unit reply" where
  "PromoteLearner rl h r w =
     (case member_request h (pt_book (fst w)) (node_Status (snd w)) r of
        Inl reply \<Rightarrow> (w, reply)
      | Inr request \<Rightarrow>
          (case propose_change rl ConfChangePromoteLearner ''learner promote requested'' request (snd w) of (n1, reply) \<Rightarrow> ((fst w, n1), reply)))"

definition RemoveMember ::
  "('ms, 'rn) raft_library \<Rightarrow> ControlAPI \<Rightarrow> http_request \<Rightarrow> 'c PeerTransport \<times> ('db, 'ms, 'rn) RaftNode \<Rightarrow>
    ('c PeerTransport \<times> ('db, 'ms, 'rn) RaftNode) \<times> unit reply" where
  "RemoveMember rl h r w =
     (case member_request h (pt_book (fst w)) (node_Status (snd w)) r of
        Inl reply \<Rightarrow> (w, reply)
      | Inr request \<Rightarrow>
          (case propose_change rl ConfChangeRemoveNode ''member remove requested'' request (snd w) of (n1, reply) \<Rightarrow> ((fst w, n1), reply)))"

definition TransferLeader ::
  "('ms, 'rn) raft_library \<Rightarrow> ControlAPI \<Rightarrow> http_request \<Rightarrow> 'c PeerTransport \<times> ('db, 'ms, 'rn) RaftNode \<Rightarrow>
    ('c PeerTransport \<times> ('db, 'ms, 'rn) RaftNode) \<times> unit reply" where
  "TransferLeader rl h r w =
     (case allowMethod r ''POST'' of
        Some reply \<Rightarrow> (w, reply)
      | None \<Rightarrow>
          (case ensureLeader h (pt_book (fst w)) (node_Status (snd w)) of
             Some reply \<Rightarrow> (w, reply)
           | None \<Rightarrow>
               (case decodeJSONBody transfer_fields r \<lparr>lt_TargetNodeID = 0\<rparr> of
                  None \<Rightarrow> (w, writeError 400 ''bad_request'' JSONText)
                | Some request \<Rightarrow>
                    if lt_TargetNodeID request = 0 then (w, writeError 400 ''bad_request'' (Text ''targetNodeId is required''))
                    else (case TransferLeadership rl (lt_TargetNodeID request) (snd w) of
                       (n1, Some e) \<Rightarrow> ((fst w, n1), writeError 500 ''transfer_leader_failed'' (NodeText e))
                     | (n1, None) \<Rightarrow> ((fst w, n1), writeOK ''leader transfer requested'' None)))))"

subsection \<open>Status and health\<close>

fun role_string :: "Role \<Rightarrow> bytes" where
  "role_string RoleFollower = ''follower''" | "role_string RoleCandidate = ''candidate''"
| "role_string RoleLeader = ''leader''" | "role_string RoleLearner = ''learner''"

record ClusterStatusDTO =
  cd_ClusterID :: u64
  cd_LocalNodeID :: u64
  cd_LeaderID :: u64
  cd_Role :: bytes
  cd_Term :: u64
  cd_Vote :: u64
  cd_CommitIndex :: u64
  cd_AppliedIndex :: u64
  cd_Started :: bool
  cd_Stopped :: bool
  cd_Voters :: "u64 list"
  cd_VotersOutgoing :: "u64 list"
  cd_Learners :: "u64 list"
  cd_LearnersNext :: "u64 list"
  cd_AutoLeave :: bool
  cd_HTTPAddrs :: "(u64, bytes) gomap"
  cd_GRPCAddrs :: "(u64, bytes) gomap"
  cd_AdminAddrs :: "(u64, bytes) gomap"

definition cluster_status ::
  "('ms, 'rn) raft_library \<Rightarrow> ControlAPI \<Rightarrow> AddressBook \<Rightarrow> ('db, 'ms, 'rn) RaftNode \<Rightarrow> ClusterStatusDTO" where
  "cluster_status rl h book n =
     (let status = node_Status n; hardState = node_HardState rl n; confState = node_ConfState rl n in
      \<lparr>cd_ClusterID = ca_clusterID h, cd_LocalNodeID = st_NodeID status, cd_LeaderID = st_LeaderID status,
       cd_Role = role_string (st_Role status), cd_Term = hs_Term hardState, cd_Vote = hs_Vote hardState,
       cd_CommitIndex = st_CommitIndex status, cd_AppliedIndex = st_AppliedIndex status, cd_Started = st_Started status,
       cd_Stopped = st_Stopped status, cd_Voters = cs_Voters confState, cd_VotersOutgoing = cs_VotersOutgoing confState,
       cd_Learners = cs_Learners confState, cd_LearnersNext = cs_LearnersNext confState, cd_AutoLeave = cs_AutoLeave confState,
       cd_HTTPAddrs = SnapshotHTTP book, cd_GRPCAddrs = SnapshotGRPC book, cd_AdminAddrs = SnapshotAdmin book\<rparr>)"

definition ctl_Status ::
  "('ms, 'rn) raft_library \<Rightarrow> ControlAPI \<Rightarrow> http_request \<Rightarrow> 'c PeerTransport \<times> ('db, 'ms, 'rn) RaftNode \<Rightarrow> ClusterStatusDTO reply" where
  "ctl_Status rl h r w =
     (case allowMethod r ''GET'' of
        Some reply \<Rightarrow> reply
      | None \<Rightarrow> writeOK [] (Some (cluster_status rl h (pt_book (fst w)) (snd w))))"

text \<open>The transfer object of a replication task has the fields of the tracker's status.\<close>

definition ReplicationStatus :: "http_request \<Rightarrow> Tracker option \<Rightarrow> replication_status list reply" where
  "ReplicationStatus r tracker =
     (case allowMethod r ''GET'' of
        Some reply \<Rightarrow> reply
      | None \<Rightarrow> writeOK [] (Some (case tracker of None \<Rightarrow> [] | Some t \<Rightarrow> tracker_List t)))"

record HealthResponseDTO =
  hd_Status :: bytes
  hd_LeaderID :: u64
  hd_LocalNodeID :: u64
  hd_LeaderAddr :: bytes

definition health_reply :: "bytes \<Rightarrow> AddressBook \<Rightarrow> bytes \<Rightarrow> Status \<Rightarrow> HealthResponseDTO reply" where
  "health_reply httpAddr book text status =
     writeOK [] (Some \<lparr>hd_Status = text, hd_LeaderID = st_LeaderID status, hd_LocalNodeID = st_NodeID status,
       hd_LeaderAddr = leaderHTTPAddr httpAddr book status (st_LeaderID status)\<rparr>)"

definition Healthz :: "bytes \<Rightarrow> AddressBook \<Rightarrow> Status \<Rightarrow> HealthResponseDTO reply" where
  "Healthz httpAddr book status = health_reply httpAddr book ''ok'' status"

definition Readyz :: "bytes \<Rightarrow> AddressBook \<Rightarrow> Status \<Rightarrow> HealthResponseDTO reply" where
  "Readyz httpAddr book status =
     (if \<not> st_Started status \<or> st_Stopped status \<or> (st_LeaderID status = 0 \<and> st_Role status \<noteq> RoleLeader)
      then writeError 503 ''not_ready'' (Text ''raft node is not ready'')
      else health_reply httpAddr book ''ready'' status)"
subsection \<open>Addresses of a book\<close>

lemma addr_of_put [simp]: "addr_of (put_addr i a m) j = (if j = i \<and> a \<noteq> [] then a else addr_of m j)"
  by (simp add: addr_of_def put_addr_def update_conv')

lemma ab_Set_addrs [simp]:
  "HTTPAddr (ab_Set b i h g a) j = (if j = i \<and> h \<noteq> [] then h else HTTPAddr b j)"
  "GRPCAddr (ab_Set b i h g a) j = (if j = i \<and> g \<noteq> [] then g else GRPCAddr b j)"
  "AdminAddr (ab_Set b i h g a) j = (if j = i \<and> a \<noteq> [] then a else AdminAddr b j)"
  by (simp_all add: HTTPAddr_def GRPCAddr_def AdminAddr_def ab_Set_def)

definition known :: "AddressBook \<Rightarrow> u64 set" where
  "known b = fst ` set (ab_httpByID b) \<union> fst ` set (ab_grpcByID b) \<union> fst ` set (ab_adminByID b)"

lemma unknown_addr: "i \<notin> known b \<Longrightarrow> HTTPAddr b i = [] \<and> GRPCAddr b i = [] \<and> AdminAddr b i = []"
  by (simp add: known_def HTTPAddr_def GRPCAddr_def AdminAddr_def addr_of_def map_of_eq_None_iff [THEN iffD2])

lemma foldl_update_keys: "fst ` set (foldl (\<lambda>c (k, v). AList.update k v c) c m) = fst ` set c \<union> fst ` set m"
proof (induction m arbitrary: c)
  case (Cons e m)
  obtain k v where "e = (k, v)" by fastforce
  moreover have "fst ` set (AList.update k v c) = insert k (fst ` set c)"
    using update_conv' [of k v c] by (metis dom_fun_upd dom_map_of_conv_image_fst option.distinct(1) dom_update)
  ultimately show ?case using Cons by auto
qed simp

lemma snapshot_keys:
  "set (map fst (SnapshotHTTP b)) \<union> set (map fst (SnapshotGRPC b)) \<union> set (map fst (SnapshotAdmin b)) = known b"
  by (simp add: SnapshotHTTP_def SnapshotGRPC_def SnapshotAdmin_def copy_map_def foldl_update_keys known_def)

subsection \<open>The member records of a node\<close>

definition mem_inv :: "('db, 'ms, 'rn) RaftNode \<Rightarrow> bool" where
  "mem_inv n \<longleftrightarrow> ps_inv (n_kvStore n) \<and> members_ok (n_kvStore n)"

definition node_members :: "('db, 'ms, 'rn) RaftNode \<Rightarrow> u64 \<Rightarrow> MemberAddress option" where
  "node_members n = ps_member (n_kvStore n)"

lemma node_set_ok:
  assumes "mem_inv n" "node_SetMemberAddress i h g a n = (n', None)"
  shows "i \<noteq> 0 \<and> mem_inv n' \<and>
    node_members n' = (node_members n)(i \<mapsto> clean_member \<lparr>ma_NodeID = i, ma_HTTPAddr = h, ma_GRPCAddr = g, ma_AdminAddr = a\<rparr>)"
proof -
  obtain kv where kv: "ps_SetMemberAddress (n_kvStore n) i h g a = (kv, None)" "n' = n\<lparr>n_kvStore := kv\<rparr>"
    using assms(2) by (auto simp: node_SetMemberAddress_def split: prod.splits)
  have "i \<noteq> 0" using kv(1) by (auto simp: ps_SetMemberAddress_def split: sum.splits)
  with ps_SetMemberAddress_ok [OF _ _ kv(1)] assms(1) kv(2) show ?thesis by (simp add: mem_inv_def node_members_def)
qed

lemma node_delete_ok:
  assumes "mem_inv n" "node_DeleteMemberAddress i n = (n', None)"
  shows "mem_inv n' \<and> node_members n' = (node_members n)(i := None)"
proof -
  obtain kv where kv: "ps_DeleteMemberAddress (n_kvStore n) i = (kv, None)" "n' = n\<lparr>n_kvStore := kv\<rparr>"
    using assms(2) by (auto simp: node_DeleteMemberAddress_def split: prod.splits)
  with ps_DeleteMemberAddress_ok [OF _ _ kv(1)] assms(1) show ?thesis by (simp add: mem_inv_def node_members_def)
qed

lemma node_list_ok:
  assumes "mem_inv n" "node_ListMemberAddresses n = Inr ms"
  shows "distinct (map ma_NodeID ms)" "\<And>i m. node_members n i = Some m \<longleftrightarrow> m \<in> set ms \<and> ma_NodeID m = i"
proof -
  have l: "sorted_wrt (<) (map ma_NodeID ms)" "set ms = {m. \<exists>n'. node_members n n' = Some m}"
    using ps_ListMemberAddresses_ok [of "n_kvStore n" ms] assms
    by (simp_all add: mem_inv_def node_ListMemberAddresses_def node_members_def)
  then show "distinct (map ma_NodeID ms)" by (simp add: strict_sorted_iff)
  have "node_members n i = Some m \<Longrightarrow> ma_NodeID m = i" for i m
    using ps_member_Some [of "n_kvStore n" i m] assms(1) by (simp add: mem_inv_def node_members_def)
  note id = this
  show "node_members n i = Some m \<longleftrightarrow> m \<in> set ms \<and> ma_NodeID m = i" for i m
  proof
    assume "node_members n i = Some m"
    with id [of i m] show "m \<in> set ms \<and> ma_NodeID m = i" unfolding l(2) by blast
  next
    assume "m \<in> set ms \<and> ma_NodeID m = i"
    then obtain j where "node_members n j = Some m" "ma_NodeID m = i" unfolding l(2) by blast
    with id [of j m] show "node_members n i = Some m" by simp
  qed
qed

definition book_member :: "AddressBook \<Rightarrow> u64 \<Rightarrow> MemberAddress" where
  "book_member b i = clean_member \<lparr>ma_NodeID = i, ma_HTTPAddr = HTTPAddr b i, ma_GRPCAddr = GRPCAddr b i, ma_AdminAddr = AdminAddr b i\<rparr>"

lemma set_addresses_ok:
  assumes "set_addresses b ids seen n = (n', Inr seen')" "mem_inv n"
  shows "mem_inv n' \<and> set seen' = set seen \<union> set ids \<and> (0 \<in> set seen' \<longrightarrow> 0 \<in> set seen) \<and>
    node_members n' = (\<lambda>i. if i \<in> set ids - set seen then Some (book_member b i) else node_members n i)"
  using assms
proof (induction ids arbitrary: seen n)
  case (Cons i ids)
  show ?case
  proof (cases "i \<in> set seen")
    case True
    with Cons.prems(1) have "set_addresses b ids seen n = (n', Inr seen')" by simp
    from Cons.IH [OF this Cons.prems(2)] True show ?thesis by (auto simp: fun_eq_iff)
  next
    case False
    then obtain n1 where s: "node_SetMemberAddress i (HTTPAddr b i) (GRPCAddr b i) (AdminAddr b i) n = (n1, None)"
      "set_addresses b ids (i # seen) n1 = (n', Inr seen')"
      using Cons.prems(1) by (auto split: prod.splits option.splits)
    note 1 = node_set_ok [OF Cons.prems(2) s(1)]
    from Cons.IH [OF s(2)] 1 False show ?thesis by (auto simp: book_member_def fun_eq_iff)
  qed
qed simp

lemma delete_addresses_ok:
  assumes "delete_addresses seen ms n = (n', None)" "mem_inv n"
  shows "mem_inv n' \<and> node_members n' = (\<lambda>i. if i \<in> ma_NodeID ` set ms - set seen then None else node_members n i)"
  using assms
proof (induction ms arbitrary: n)
  case (Cons m ms)
  show ?case
  proof (cases "ma_NodeID m \<in> set seen")
    case True
    with Cons have "mem_inv n' \<and> node_members n' = (\<lambda>i. if i \<in> ma_NodeID ` set ms - set seen then None else node_members n i)" by simp
    with True show ?thesis by (auto simp: fun_eq_iff)
  next
    case False
    then obtain n1 where s: "node_DeleteMemberAddress (ma_NodeID m) n = (n1, None)" "delete_addresses seen ms n1 = (n', None)"
      using Cons.prems(1) by (auto split: prod.splits option.splits)
    from Cons.IH [OF s(2)] node_delete_ok [OF Cons.prems(2) s(1)] False show ?thesis by (auto simp: fun_eq_iff)
  qed
qed simp

lemma persist_ok:
  assumes "mem_inv n" "persistCurrentAddressBook b n = (n', None)"
  shows "mem_inv n' \<and> 0 \<notin> known b \<and> node_members n' = (\<lambda>i. if i \<in> known b then Some (book_member b i) else None)"
proof -
  obtain ms n1 s1 n2 s2 n3 s3 where l: "node_ListMemberAddresses n = Inr ms"
    and s: "set_addresses b (map fst (SnapshotHTTP b)) [] n = (n1, Inr s1)" "set_addresses b (map fst (SnapshotGRPC b)) s1 n1 = (n2, Inr s2)"
      "set_addresses b (map fst (SnapshotAdmin b)) s2 n2 = (n3, Inr s3)"
    and d: "delete_addresses s3 ms n3 = (n', None)"
    using assms(2) by (auto simp: persistCurrentAddressBook_def split: sum.splits prod.splits)
  note 1 = set_addresses_ok [OF s(1) assms(1)]
  then have i1: "mem_inv n1" by simp
  note 2 = set_addresses_ok [OF s(2) i1]
  then have i2: "mem_inv n2" by simp
  note 3 = set_addresses_ok [OF s(3) i2]
  then have i3: "mem_inv n3" by simp
  note 4 = delete_addresses_ok [OF d i3]
  have k: "set s3 = known b" using 1 2 3 snapshot_keys [of b] by simp
  have m3: "node_members n3 = (\<lambda>i. if i \<in> known b then Some (book_member b i) else node_members n i)"
    using 1 2 3 k by (auto simp: fun_eq_iff)
  have "node_members n i = None" if "i \<notin> ma_NodeID ` set ms" for i
  proof (rule ccontr)
    assume "node_members n i \<noteq> None"
    then obtain m where "node_members n i = Some m" by blast
    with node_list_ok(2) [OF assms(1) l, of i m] that show False by blast
  qed
  moreover have "node_members n' i = (if i \<in> ma_NodeID ` set ms - set s3 then None else node_members n3 i)" for i using 4 by simp
  ultimately have "node_members n' = (\<lambda>i. if i \<in> known b then Some (book_member b i) else None)" by (simp add: fun_eq_iff m3 k)
  moreover have "0 \<notin> set s3" using conjunct1 [OF conjunct2 [OF conjunct2 [OF 1]]] conjunct1 [OF conjunct2 [OF conjunct2 [OF 2]]]
      conjunct1 [OF conjunct2 [OF conjunct2 [OF 3]]] by simp
  ultimately show ?thesis using 4 k by simp
qed

lemma find_member:
  "find (\<lambda>m. ma_NodeID m = i) ms = Some m \<Longrightarrow> i \<in> ma_NodeID ` set ms"
  "i \<notin> ma_NodeID ` set ms \<Longrightarrow> find (\<lambda>m. ma_NodeID m = i) ms = None"
  by (auto simp: find_Some_iff find_None_iff)

lemma restore_addrs:
  assumes "distinct (map ma_NodeID ms)"
  shows "HTTPAddr (restore_members ms b) i =
      (case find (\<lambda>m. ma_NodeID m = i) ms of None \<Rightarrow> HTTPAddr b i | Some m \<Rightarrow> if i = 0 then HTTPAddr b i else filled (HTTPAddr b i) (ma_HTTPAddr m))"
    "GRPCAddr (restore_members ms b) i =
      (case find (\<lambda>m. ma_NodeID m = i) ms of None \<Rightarrow> GRPCAddr b i | Some m \<Rightarrow> if i = 0 then GRPCAddr b i else filled (GRPCAddr b i) (ma_GRPCAddr m))"
    "AdminAddr (restore_members ms b) i =
      (case find (\<lambda>m. ma_NodeID m = i) ms of None \<Rightarrow> AdminAddr b i | Some m \<Rightarrow> if i = 0 then AdminAddr b i else filled (AdminAddr b i) (ma_AdminAddr m))"
proof -
  show "HTTPAddr (restore_members ms b) i =
      (case find (\<lambda>m. ma_NodeID m = i) ms of None \<Rightarrow> HTTPAddr b i | Some m \<Rightarrow> if i = 0 then HTTPAddr b i else filled (HTTPAddr b i) (ma_HTTPAddr m))"
    using assms by (induction ms arbitrary: b) (auto simp: find_member(2) filled_def dest: find_member(1) split: option.split)
  show "GRPCAddr (restore_members ms b) i =
      (case find (\<lambda>m. ma_NodeID m = i) ms of None \<Rightarrow> GRPCAddr b i | Some m \<Rightarrow> if i = 0 then GRPCAddr b i else filled (GRPCAddr b i) (ma_GRPCAddr m))"
    using assms by (induction ms arbitrary: b) (auto simp: find_member(2) filled_def dest: find_member(1) split: option.split)
  show "AdminAddr (restore_members ms b) i =
      (case find (\<lambda>m. ma_NodeID m = i) ms of None \<Rightarrow> AdminAddr b i | Some m \<Rightarrow> if i = 0 then AdminAddr b i else filled (AdminAddr b i) (ma_AdminAddr m))"
    using assms by (induction ms arbitrary: b) (auto simp: find_member(2) filled_def dest: find_member(1) split: option.split)
qed

lemma restore_ok:
  assumes "mem_inv n" "restorePersistedMemberAddresses n b0 = Inr b1"
  shows "HTTPAddr b1 i = (case node_members n i of None \<Rightarrow> HTTPAddr b0 i | Some m \<Rightarrow> if i = 0 then HTTPAddr b0 i else filled (HTTPAddr b0 i) (ma_HTTPAddr m))"
    "GRPCAddr b1 i = (case node_members n i of None \<Rightarrow> GRPCAddr b0 i | Some m \<Rightarrow> if i = 0 then GRPCAddr b0 i else filled (GRPCAddr b0 i) (ma_GRPCAddr m))"
    "AdminAddr b1 i = (case node_members n i of None \<Rightarrow> AdminAddr b0 i | Some m \<Rightarrow> if i = 0 then AdminAddr b0 i else filled (AdminAddr b0 i) (ma_AdminAddr m))"
proof -
  obtain ms where ms: "node_ListMemberAddresses n = Inr ms" "b1 = restore_members ms b0"
    using assms(2) by (auto simp: restorePersistedMemberAddresses_def)
  note l = node_list_ok [OF assms(1) ms(1)]
  have f: "find (\<lambda>m. ma_NodeID m = i) ms = node_members n i"
  proof (cases "node_members n i")
    case None
    then have "m \<notin> set ms \<or> ma_NodeID m \<noteq> i" for m using l(2) [of i m] by auto
    with None show ?thesis by (auto simp: find_None_iff)
  next
    case (Some m)
    then obtain m' where m': "find (\<lambda>m. ma_NodeID m = i) ms = Some m'" using l(2) [of i m] by (cases "find (\<lambda>m. ma_NodeID m = i) ms") (auto simp: find_None_iff)
    then have "m' \<in> set ms" "ma_NodeID m' = i" by (auto simp: find_Some_iff)
    with l(2) [of i m'] m' show ?thesis by simp
  qed
  show "HTTPAddr b1 i = (case node_members n i of None \<Rightarrow> HTTPAddr b0 i | Some m \<Rightarrow> if i = 0 then HTTPAddr b0 i else filled (HTTPAddr b0 i) (ma_HTTPAddr m))"
    "GRPCAddr b1 i = (case node_members n i of None \<Rightarrow> GRPCAddr b0 i | Some m \<Rightarrow> if i = 0 then GRPCAddr b0 i else filled (GRPCAddr b0 i) (ma_GRPCAddr m))"
    "AdminAddr b1 i = (case node_members n i of None \<Rightarrow> AdminAddr b0 i | Some m \<Rightarrow> if i = 0 then AdminAddr b0 i else filled (AdminAddr b0 i) (ma_AdminAddr m))"
    unfolding ms(2) restore_addrs [OF l(1)] f by (rule refl)+
qed

text \<open>C23. Addresses survive a restart. Writing the address book replaces the stored member records by exactly those of the book; a node
  that is started again on the same records fills its book from them: an address given at the start stands, and every
  other address is the one of the book that was written (with malformed UTF-8 replaced).\<close>

theorem addresses_survive_restart:
  assumes "mem_inv n" "persistCurrentAddressBook b n = (n1, None)"
    "mem_inv n2" "node_members n2 = node_members n1" "restorePersistedMemberAddresses n2 b0 = Inr b1"
  shows "node_members n1 = (\<lambda>i. if i \<in> known b then Some (book_member b i) else None) \<and>
    HTTPAddr b1 i = filled (HTTPAddr b0 i) (sanitize (HTTPAddr b i)) \<and>
    GRPCAddr b1 i = filled (GRPCAddr b0 i) (sanitize (GRPCAddr b i)) \<and>
    AdminAddr b1 i = filled (AdminAddr b0 i) (sanitize (AdminAddr b i))"
proof -
  note p = persist_ok [OF assms(1,2)]
  then have m: "node_members n2 i = (if i \<in> known b then Some (book_member b i) else None)" "i \<in> known b \<Longrightarrow> i \<noteq> 0"
    by (auto simp: assms(4))
  have "HTTPAddr b1 i = filled (HTTPAddr b0 i) (sanitize (HTTPAddr b i))" "GRPCAddr b1 i = filled (GRPCAddr b0 i) (sanitize (GRPCAddr b i))"
    "AdminAddr b1 i = filled (AdminAddr b0 i) (sanitize (AdminAddr b i))"
    using unknown_addr [of i b] m(2) unfolding restore_ok [OF assms(3,5)] m(1)
    by (auto simp: book_member_def clean_member_def filled_def)
  with p show ?thesis by simp
qed

lemma member_change_roundtrip:
  "Unmarshal (into_struct member_change_fields) (mustMarshalJSON r) zero_member_change =
     Some \<lparr>mc_NodeID = mc_NodeID r, mc_HTTPAddr = sanitize (mc_HTTPAddr r), mc_GRPCAddr = sanitize (mc_GRPCAddr r), mc_AdminAddr = sanitize (mc_AdminAddr r)\<rparr>"
proof -
  have "wf_json (member_change_to_json r)"
    "into_struct member_change_fields (clean_json (member_change_to_json r)) zero_member_change =
       Some \<lparr>mc_NodeID = mc_NodeID r, mc_HTTPAddr = sanitize (mc_HTTPAddr r), mc_GRPCAddr = sanitize (mc_GRPCAddr r), mc_AdminAddr = sanitize (mc_AdminAddr r)\<rparr>"
    by (simp_all add: member_change_to_json_def member_change_fields_def field_simps zero_member_change_def)
  then show ?thesis by (simp add: mustMarshalJSON_def Unmarshal_Marshal)
qed

text \<open>The changes that \<open>AddLearner\<close> and \<open>PromoteLearner\<close> propose, the second for a request that names only the node.\<close>

definition learner_added :: "u64 \<Rightarrow> bytes \<Rightarrow> bytes \<Rightarrow> bytes \<Rightarrow> conf_change" where
  "learner_added i h g a = toConfChange \<lparr>cr_Type = ConfChangeAddLearner, cr_NodeID = i,
      cr_Context = mustMarshalJSON \<lparr>mc_NodeID = i, mc_HTTPAddr = h, mc_GRPCAddr = g, mc_AdminAddr = a\<rparr>\<rparr>"

definition learner_promoted :: "u64 \<Rightarrow> conf_change" where
  "learner_promoted i = toConfChange \<lparr>cr_Type = ConfChangePromoteLearner, cr_NodeID = i,
      cr_Context = mustMarshalJSON \<lparr>mc_NodeID = i, mc_HTTPAddr = [], mc_GRPCAddr = [], mc_AdminAddr = []\<rparr>\<rparr>"


lemma list_store_set:
  "i \<noteq> 0 \<Longrightarrow> \<exists>db'. ps_SetMemberAddress (list_store db) i h g a = (list_store db', None)"
  by (simp add: ps_SetMemberAddress_def getDB_def commit_def list_store_def list_pebble_def)

lemma list_store_list:
  assumes "members_ok (list_store db)"
  shows "\<exists>ms. ps_ListMemberAddresses (list_store db) = Inr ms"
proof -
  have "those (map f xs) \<noteq> None" if "\<forall>x \<in> set xs. f x \<noteq> None" for xs and f :: "bytes \<times> bytes \<Rightarrow> MemberAddress option"
    using that by (induction xs) auto
  moreover have "decode_member v \<noteq> None" if "(k, v) \<in> set (AList.clearjunk db)" "within metaMembersPrefix memberPrefixEnd k" for k v
  proof -
    have "ps_contents (list_store db) k = Some v" using that(1) by (simp add: map_of_clearjunk flip: map_of_eq_Some_iff [OF distinct_clearjunk])
    with assms that(2) show ?thesis unfolding members_ok_def by force
  qed
  then have "\<forall>x \<in> set (sort_key fst (filter (\<lambda>(k, v). within metaMembersPrefix memberPrefixEnd k) (AList.clearjunk db))). (decode_member \<circ> snd) x \<noteq> None"
    by auto
  ultimately have "those (map (decode_member \<circ> snd) (sort_key fst (filter (\<lambda>(k, v). within metaMembersPrefix memberPrefixEnd k) (AList.clearjunk db)))) \<noteq> None"
    by blast
  then show ?thesis by (auto simp: ps_ListMemberAddresses_def getDB_def list_store_def list_store_iter)
qed

lemma sample_members: "mem_inv (sample_node [])"
  by (simp add: mem_inv_def sample_node_parts)

lemma sample_set:
  assumes "mem_inv n" "n_kvStore n = list_store db" "i \<noteq> 0"
  obtains n' db' where "node_SetMemberAddress i h g a n = (n', None)" "n_kvStore n' = list_store db'" "mem_inv n'"
proof -
  obtain db' where d: "ps_SetMemberAddress (list_store db) i h g a = (list_store db', None)" using list_store_set [OF assms(3)] by blast
  then have r: "node_SetMemberAddress i h g a n = (n\<lparr>n_kvStore := list_store db'\<rparr>, None)" by (simp add: node_SetMemberAddress_def assms(2))
  with node_set_ok [OF assms(1) r] that show thesis by simp
qed

lemma sample_list:
  assumes "mem_inv n" "n_kvStore n = list_store db"
  shows "\<exists>ms. node_ListMemberAddresses n = Inr ms"
  using assms list_store_list [of db] by (simp add: mem_inv_def node_ListMemberAddresses_def)

theorem addresses_survive_restart_witness:
  "\<exists>n1 b1. persistCurrentAddressBook (NewAddressBook [(2, ''h'')] [(2, ''g'')] []) (sample_node []) = (n1, None) \<and>
    restorePersistedMemberAddresses n1 (NewAddressBook [] [] []) = Inr b1 \<and> HTTPAddr b1 2 = ''h'' \<and> GRPCAddr b1 2 = ''g''"
proof -
  let ?b = "NewAddressBook [(2, ''h'')] [(2, ''g'')] []"
  have ab: "SnapshotHTTP ?b = [(2, ''h'')]" "SnapshotGRPC ?b = [(2, ''g'')]" "SnapshotAdmin ?b = []"
    "HTTPAddr ?b 2 = ''h''" "GRPCAddr ?b 2 = ''g''" "AdminAddr ?b 2 = []" "HTTPAddr (NewAddressBook [] [] []) 2 = []" "GRPCAddr (NewAddressBook [] [] []) 2 = []"
    by (simp_all add: NewAddressBook_def SnapshotHTTP_def SnapshotGRPC_def SnapshotAdmin_def copy_map_def HTTPAddr_def GRPCAddr_def AdminAddr_def addr_of_def)
  have l: "node_ListMemberAddresses (sample_node []) = Inr []"
    by (simp add: node_ListMemberAddresses_def sample_node_parts ps_ListMemberAddresses_def getDB_def list_store_def list_store_iter)
  obtain n1 db where n1: "node_SetMemberAddress 2 ''h'' ''g'' [] (sample_node []) = (n1, None)" "n_kvStore n1 = list_store db" "mem_inv n1"
    by (rule sample_set [OF sample_members sample_node_parts(1), of 2 "''h''" "''g''" "[]"]) simp
  have p: "persistCurrentAddressBook ?b (sample_node []) = (n1, None)" by (simp add: persistCurrentAddressBook_def l ab n1(1))
  obtain b1 where b1: "restorePersistedMemberAddresses n1 (NewAddressBook [] [] []) = Inr b1"
    using sample_list [OF n1(3,2)] by (auto simp: restorePersistedMemberAddresses_def)
  from addresses_survive_restart [OF sample_members p n1(3) refl b1, of 2] p b1 show ?thesis
    by (simp add: ab filled_def sanitize_ascii is_ascii_def)
qed

end
