(* ===== verification/Prometheus_SD.thy ===== *)
theory Prometheus_SD
  imports Directory_Props Http_Watch
begin

text \<open>
  Service discovery for Prometheus (\<open>PrometheusSD\<close> and its helpers in \<open>internal/transport/http/handlers_impl.go\<close>): the target groups
  of local instances, of mirrored ones and of the cluster's own nodes. The reply is the bare list of groups, without the
  envelope of the other handlers.
\<close>

subsection \<open>Host and port\<close>

text \<open>\<open>net.JoinHostPort\<close> and \<open>net.SplitHostPort\<close>.\<close>

definition JoinHostPort :: "bytes \<Rightarrow> bytes \<Rightarrow> bytes" where
  "JoinHostPort host port = (if CHR '':'' \<in> set host then ''['' @ host @ '']:'' @ port else host @ '':'' @ port)"

fun last_colon :: "bytes \<Rightarrow> nat option" where
  "last_colon [] = None"
| "last_colon (c # s) = (case last_colon s of Some i \<Rightarrow> Some (Suc i) | None \<Rightarrow> if c = CHR '':'' then Some 0 else None)"

definition SplitHostPort :: "bytes \<Rightarrow> (bytes \<times> bytes) option" where
  "SplitHostPort hostport =
     (case last_colon hostport of
        None \<Rightarrow> None
      | Some i \<Rightarrow>
          if hd hostport = CHR ''['' then
            (let close = length (takeWhile (\<lambda>c. c \<noteq> CHR '']'') hostport) in
             if close = length hostport then None
             else if close + 1 \<noteq> i then None
             else if CHR ''['' \<in> set (drop 1 hostport) \<or> CHR '']'' \<in> set (drop (close + 1) hostport) then None
             else Some (drop 1 (take close hostport), drop (i + 1) hostport))
          else if CHR '':'' \<in> set (take i hostport) then None
          else if CHR ''['' \<in> set hostport \<or> CHR '']'' \<in> set hostport then None
          else Some (take i hostport, drop (i + 1) hostport))"

subsection \<open>The query\<close>

record prometheusSDQuery =
  pq_Namespace :: bytes
  pq_Service :: bytes
  pq_Zone :: bytes
  pq_Endpoint :: bytes
  pq_Scope :: bytes
  pq_IncludeSelf :: bool
  pq_Selector :: Selector

definition parsePrometheusSDQuery :: "(nat \<Rightarrow> nat) \<Rightarrow> url_values \<Rightarrow> error_text + prometheusSDQuery" where
  "parsePrometheusSDQuery ul values =
     (let get = (\<lambda>key. TrimSpace (firstQueryValue values key));
          endpoint = (if get ''endpoint'' = [] then ''metrics'' else get ''endpoint'');
          scope = (if get ''scope'' = [] then ''local'' else get ''scope'') in
      if get ''service'' \<noteq> [] \<and> get ''namespace'' = [] then Inl (Text ''namespace is required when service is specified'')
      else if scope \<notin> {''local'', ''merged''} then Inl (Text ''scope must be one of local or merged'')
      else case (if get ''includeSelf'' = [] then Some False else ParseBool (get ''includeSelf'')) of
        None \<Rightarrow> Inl (InvalidText ''includeSelf'' (get ''includeSelf''))
      | Some includeSelf \<Rightarrow>
          (case ParseLabelSelectorFilters ul (url_all values ''selector'') (url_all values ''label'') of
             Inl e \<Rightarrow> Inl (SelectorText e)
           | Inr selector \<Rightarrow>
               Inr \<lparr>pq_Namespace = get ''namespace'', pq_Service = get ''service'', pq_Zone = get ''zone'', pq_Endpoint = endpoint,
                 pq_Scope = scope, pq_IncludeSelf = includeSelf, pq_Selector = selector\<rparr>))"

definition sd_query :: "prometheusSDQuery \<Rightarrow> Query" where
  "sd_query query =
     \<lparr>q_Namespace = pq_Namespace query, q_Service = pq_Service query, q_Services = [], q_ServicePrefixes = [], q_Zone = pq_Zone query,
      q_Endpoint = [], q_Selector = pq_Selector query, q_Limit = 0\<rparr>"

definition matchPrometheusSDQuery :: "Value \<Rightarrow> prometheusSDQuery \<Rightarrow> bool option" where
  "matchPrometheusSDQuery value query = MatchQuery value (sd_query query)"

subsection \<open>Target groups\<close>

record PrometheusSDTargetGroupDTO =
  pg_Targets :: "bytes list"
  pg_Labels :: "(bytes, bytes) gomap"

definition normalizePrometheusScheme :: "(nat \<Rightarrow> nat) \<Rightarrow> bytes \<Rightarrow> bytes" where
  "normalizePrometheusScheme ul protocol = (if ToLower ul (TrimSpace protocol) = ''https'' then ''https'' else ''http'')"

definition normalizePrometheusPath :: "bytes \<Rightarrow> bytes" where
  "normalizePrometheusPath path0 =
     (let path = TrimSpace path0 in
      if path = [] then ''/metrics'' else if HasPrefix path ''/'' then path else ''/'' @ path)"

definition joinPrometheusTargetAddress :: "bytes \<Rightarrow> int \<Rightarrow> bytes option" where
  "joinPrometheusTargetAddress host0 port =
     (let host = TrimSpace host0 in
      if host = [] \<or> port \<le> 0 then None
      else if host \<in> {''0.0.0.0'', ''::'', ''[::]''} then None
      else Some (JoinHostPort host (FormatInt port)))"

fun findPrometheusEndpoint :: "(nat \<Rightarrow> nat) \<Rightarrow> Endpoint list \<Rightarrow> bytes \<Rightarrow> Endpoint option" where
  "findPrometheusEndpoint ul [] expected = None"
| "findPrometheusEndpoint ul (endpoint # endpoints) expected =
     (if (ep_Name endpoint = expected \<or> ep_Protocol endpoint = expected) \<and>
         normalizePrometheusScheme ul (ep_Protocol endpoint) \<in> {''http'', ''https''}
      then Some endpoint else findPrometheusEndpoint ul endpoints expected)"

definition label_letter :: "nat \<Rightarrow> bool" where
  "label_letter r \<longleftrightarrow> 97 \<le> r \<and> r \<le> 122 \<or> 65 \<le> r \<and> r \<le> 90 \<or> r = 95"

text \<open>The loop over the code points with their byte offsets.\<close>

fun label_runes :: "nat \<Rightarrow> bytes \<Rightarrow> bytes" where
  "label_runes index [] = []"
| "label_runes index (c # s) =
     (case DecodeRune (c # s) of
        (r, w) \<Rightarrow>
          (if label_letter r \<or> 48 \<le> r \<and> r \<le> 57 \<and> index > 0 then EncodeRune r else ''_'') @ label_runes (index + w) (drop (w - 1) s))"

definition sanitizePrometheusLabelName :: "bytes \<Rightarrow> bytes" where
  "sanitizePrometheusLabelName raw0 =
     (let raw = TrimSpace raw0; sanitized = label_runes 0 raw in
      if raw = [] then []
      else if sanitized = [] then []
      else if \<not> label_letter (of_char (hd sanitized)) then ''_'' @ sanitized
      else sanitized)"

fun addPrefixedPrometheusLabels :: "(bytes, bytes) gomap \<Rightarrow> bytes \<Rightarrow> (bytes, bytes) gomap \<Rightarrow> (bytes, bytes) gomap" where
  "addPrefixedPrometheusLabels target pfx [] = target"
| "addPrefixedPrometheusLabels target pfx ((key, value) # items) =
     (let sanitizedKey = sanitizePrometheusLabelName (pfx @ key) in
      addPrefixedPrometheusLabels
        (if sanitizedKey = [] then target else AList.update sanitizedKey (TrimSpace value) target) pfx items)"

definition deleteEmptyLabels :: "(bytes, bytes) gomap \<Rightarrow> (bytes, bytes) gomap" where
  "deleteEmptyLabels labels = filter (\<lambda>(key, value). TrimSpace value \<noteq> []) labels"

definition system_labels :: "(nat \<Rightarrow> nat) \<Rightarrow> Value \<Rightarrow> Endpoint \<Rightarrow> bytes \<Rightarrow> bytes \<Rightarrow> bytes \<Rightarrow> (bytes, bytes) gomap" where
  "system_labels ul value endpoint origin sourceRegion sourceCluster =
     [(''namespace'', v_Namespace value), (''service'', v_Service value), (''instance_id'', v_InstanceID value), (''region'', sourceRegion),
      (''zone'', v_Zone value), (''cluster_id'', sourceCluster), (''target_origin'', origin), (''target_kind'', ''service_instance''),
      (''endpoint_name'', ep_Name endpoint), (''endpoint_proto'', ep_Protocol endpoint),
      (''__scheme__'', normalizePrometheusScheme ul (ep_Protocol endpoint)),
      (''__metrics_path__'', normalizePrometheusPath (ep_Path endpoint))]"

definition prometheusSDTargetGroupFromValue ::
  "(nat \<Rightarrow> nat) \<Rightarrow> Value \<Rightarrow> bytes \<Rightarrow> bytes \<Rightarrow> bytes \<Rightarrow> bytes \<Rightarrow> PrometheusSDTargetGroupDTO option" where
  "prometheusSDTargetGroupFromValue ul value endpointName origin sourceRegion sourceCluster =
     (case findPrometheusEndpoint ul (v_Endpoints value) endpointName of
        None \<Rightarrow> None
      | Some endpoint \<Rightarrow>
          (case joinPrometheusTargetAddress (ep_Host endpoint) (ep_Port endpoint) of
             None \<Rightarrow> None
           | Some address \<Rightarrow>
               Some \<lparr>pg_Targets = [address],
                 pg_Labels = deleteEmptyLabels (addPrefixedPrometheusLabels (addPrefixedPrometheusLabels
                   (system_labels ul value endpoint origin sourceRegion sourceCluster) ''stellmap_label_'' (v_Labels value))
                   ''stellmap_meta_'' (v_Metadata value))\<rparr>))"

text \<open>The loops over the scanned records; \<open>None\<close> is a panic of the selector.\<close>

definition sd_value ::
  "(nat \<Rightarrow> nat) \<Rightarrow> prometheusSDQuery \<Rightarrow> int \<Rightarrow> bytes \<Rightarrow> bytes \<Rightarrow> bytes \<Rightarrow> Value \<Rightarrow> PrometheusSDTargetGroupDTO option option" where
  "sd_value ul query now origin sourceRegion sourceCluster value =
     (if \<not> IsAlive value now then Some None
      else case matchPrometheusSDQuery value query of
        None \<Rightarrow> None
      | Some False \<Rightarrow> Some None
      | Some True \<Rightarrow> Some (prometheusSDTargetGroupFromValue ul value (pq_Endpoint query) origin sourceRegion sourceCluster))"

definition sd_local :: "(nat \<Rightarrow> nat) \<Rightarrow> RegistryAPI \<Rightarrow> prometheusSDQuery \<Rightarrow> int \<Rightarrow> KV \<Rightarrow> PrometheusSDTargetGroupDTO option option" where
  "sd_local ul h query now item =
     (case unmarshal_value (kv_Value item) of
        None \<Rightarrow> Some None
      | Some value \<Rightarrow> sd_value ul query now ''local'' (h_sourceRegion h) (h_sourceCluster h) value)"

definition sd_replicated :: "(nat \<Rightarrow> nat) \<Rightarrow> prometheusSDQuery \<Rightarrow> int \<Rightarrow> KV \<Rightarrow> PrometheusSDTargetGroupDTO option option" where
  "sd_replicated ul query now item =
     (case unmarshal_replicated (kv_Value item) of
        None \<Rightarrow> Some None
      | Some replicated \<Rightarrow>
          sd_value ul query now ''replicated'' (rv_SourceRegion replicated) (rv_SourceClusterID replicated) (ToValue replicated))"

definition localPrometheusSDTargetGroups ::
  "'n registryNode \<Rightarrow> (nat \<Rightarrow> nat) \<Rightarrow> RegistryAPI \<Rightarrow> prometheusSDQuery \<Rightarrow> int \<Rightarrow> 'n \<Rightarrow>
    'n \<times> (node_error + PrometheusSDTargetGroupDTO list option)" where
  "localPrometheusSDTargetGroups nd ul h query now n =
     (case rn_Scan nd RootPrefix (prefixUpperBound RootPrefix) 0 n of
        (n1, Inl e) \<Rightarrow> (n1, Inl e)
      | (n1, Inr items) \<Rightarrow> (n1, Inr (collect_instances (sd_local ul h query now) 0 items [])))"

definition replicatedPrometheusSDTargetGroups ::
  "'n registryNode \<Rightarrow> (nat \<Rightarrow> nat) \<Rightarrow> prometheusSDQuery \<Rightarrow> int \<Rightarrow> 'n \<Rightarrow> 'n \<times> (node_error + PrometheusSDTargetGroupDTO list option)" where
  "replicatedPrometheusSDTargetGroups nd ul query now n =
     (case rn_Scan nd ReplicationRootPrefix (prefixUpperBound ReplicationRootPrefix) 0 n of
        (n1, Inl e) \<Rightarrow> (n1, Inl e)
      | (n1, Inr items) \<Rightarrow> (n1, Inr (collect_instances (sd_replicated ul query now) 0 items [])))"

definition normalizePrometheusDiscoveryAddress :: "bytes \<Rightarrow> bytes option" where
  "normalizePrometheusDiscoveryAddress addr0 =
     (let addr = TrimSpace addr0 in
      if addr = [] then None
      else case SplitHostPort addr of
        None \<Rightarrow> None
      | Some (host0, port) \<Rightarrow>
          (let host = TrimSpace host0 in
           if host \<in> {[], ''0.0.0.0'', ''::'', ''[::]''} then None else Some (JoinHostPort host port)))"

definition self_group :: "RegistryAPI \<Rightarrow> u64 \<Rightarrow> bytes \<Rightarrow> PrometheusSDTargetGroupDTO option" where
  "self_group h nodeID addr =
     (case normalizePrometheusDiscoveryAddress addr of
        None \<Rightarrow> None
      | Some target \<Rightarrow>
          Some \<lparr>pg_Targets = [target],
            pg_Labels = [(''namespace'', ''system''), (''service'', ''stellmapd''), (''instance_id'', ''node-'' @ FormatUint (unat nodeID)),
              (''node_id'', FormatUint (unat nodeID)), (''region'', h_sourceRegion h), (''cluster_id'', h_sourceCluster h),
              (''target_origin'', ''self''), (''target_kind'', ''stellmapd''), (''component'', ''stellmapd''), (''__scheme__'', ''http''),
              (''__metrics_path__'', ''/metrics'')]\<rparr>)"

definition selfPrometheusSDTargetGroups :: "RegistryAPI \<Rightarrow> Status \<Rightarrow> PrometheusSDTargetGroupDTO list" where
  "selfPrometheusSDTargetGroups h status =
     (let addrs = SnapshotHTTP (h_book h); currentAddr = TrimSpace (h_httpAddr h);
          known = TrimSpace (or_empty (map_of addrs (st_NodeID status)));
          addrs' = (if currentAddr \<noteq> [] \<and> known = [] then AList.update (st_NodeID status) currentAddr addrs else addrs) in
      List.map_filter (\<lambda>(nodeID, addr). self_group h nodeID addr) addrs')"

definition prometheusSDTargetGroups ::
  "'n registryNode \<Rightarrow> (nat \<Rightarrow> nat) \<Rightarrow> RegistryAPI \<Rightarrow> prometheusSDQuery \<Rightarrow> int \<Rightarrow> int \<Rightarrow> 'n \<Rightarrow>
    'n \<times> (node_error + PrometheusSDTargetGroupDTO list option)" where
  "prometheusSDTargetGroups nd ul h query now now' n =
     (case localPrometheusSDTargetGroups nd ul h query now n of
        (n1, Inl e) \<Rightarrow> (n1, Inl e)
      | (n1, Inr None) \<Rightarrow> (n1, Inr None)
      | (n1, Inr (Some localItems)) \<Rightarrow>
          (case (if pq_Scope query = ''merged'' then replicatedPrometheusSDTargetGroups nd ul query now' n1 else (n1, Inr (Some []))) of
             (n2, Inl e) \<Rightarrow> (n2, Inl e)
           | (n2, Inr None) \<Rightarrow> (n2, Inr None)
           | (n2, Inr (Some replicatedItems)) \<Rightarrow>
               (n2, Inr (Some (localItems @ replicatedItems @
                  (if pq_IncludeSelf query then selfPrometheusSDTargetGroups h (rn_Status nd n2) else []))))))"

definition PrometheusSD ::
  "'n registryNode \<Rightarrow> (nat \<Rightarrow> nat) \<Rightarrow> RegistryAPI \<Rightarrow> int \<Rightarrow> int \<Rightarrow> http_request \<Rightarrow> 'n \<Rightarrow>
    'n \<times> (unit reply + PrometheusSDTargetGroupDTO list)" where
  "PrometheusSD nd ul h now now' r n =
     (case allowMethod r ''GET'' of
        Some reply \<Rightarrow> (n, Inl reply)
      | None \<Rightarrow>
          if \<not> isAuthorizedPrometheusSDRequest h r
          then (n, Inl (writeError 401 ''unauthorized'' (Text ''missing or invalid prometheus sd token'')))
          else (case parsePrometheusSDQuery ul (rq_Query r) of
             Inl e \<Rightarrow> (n, Inl (writeError 400 ''bad_request'' e))
           | Inr query \<Rightarrow>
               (case prometheusSDTargetGroups nd ul h query now now' n of
                  (n1, Inl e) \<Rightarrow> (n1, Inl (writeError 500 ''scan_failed'' (NodeText e)))
                | (n1, Inr None) \<Rightarrow> (n1, Inl Aborted)
                | (n1, Inr (Some items)) \<Rightarrow> (n1, Inr items))))"

subsection \<open>Host and port: round trip\<close>

lemma last_colon_append: "last_colon (s @ CHR '':'' # t) = Some (length s + (case last_colon t of None \<Rightarrow> 0 | Some i \<Rightarrow> Suc i))"
  by (induction s) (simp_all split: option.split)

lemma last_colon_none: "CHR '':'' \<notin> set s \<Longrightarrow> last_colon s = None"
  by (induction s) auto

lemma SplitHostPort_Join:
  assumes "CHR ''['' \<notin> set host" "CHR '']'' \<notin> set host" "CHR '':'' \<notin> set port" "CHR ''['' \<notin> set port" "CHR '']'' \<notin> set port"
  shows "SplitHostPort (JoinHostPort host port) = Some (host, port)"
proof (cases "CHR '':'' \<in> set host")
  case True
  have l: "last_colon (CHR ''['' # host @ CHR '']'' # CHR '':'' # port) = Some (length host + 2)"
    using last_colon_append [of "CHR ''['' # host @ [CHR '']'']" port] assms(3) by (simp add: last_colon_none)
  have "takeWhile (\<lambda>c. c \<noteq> CHR '']'') (host @ CHR '']'' # CHR '':'' # port) = host"
    using assms(2) by (induction host) auto
  with l True assms show ?thesis by (simp add: SplitHostPort_def JoinHostPort_def Let_def)
next
  case False
  then have l: "last_colon (host @ CHR '':'' # port) = Some (length host)"
    using last_colon_append [of host port] assms(3) by (simp add: last_colon_none)
  have "hd (host @ CHR '':'' # port) \<noteq> CHR ''[''" using assms(1) by (cases host) auto
  with l False assms show ?thesis by (auto simp: SplitHostPort_def JoinHostPort_def)
qed

subsection \<open>Label names\<close>

definition label_char :: "char \<Rightarrow> bool" where
  "label_char c \<longleftrightarrow> label_letter (of_char c) \<or> is_digit c"

text \<open>The names that Prometheus accepts.\<close>

definition label_name :: "bytes \<Rightarrow> bool" where
  "label_name s \<longleftrightarrow> s \<noteq> [] \<and> label_letter (of_char (hd s)) \<and> list_all label_char s"

lemma rune_char: "label_letter r \<or> 48 \<le> r \<and> r \<le> 57 \<Longrightarrow> EncodeRune r = [char_of r] \<and> label_char (char_of r)"
  by (auto simp: EncodeRune_def label_letter_def label_char_def is_digit_def)

lemma label_runes_chars: "list_all label_char (label_runes i s)"
proof (induction i s rule: label_runes.induct)
  case (2 i c s)
  have u: "label_char (CHR ''_'')" by (simp add: label_char_def label_letter_def)
  obtain r w where "DecodeRune (c # s) = (r, w)" by fastforce
  with 2 rune_char [of r] u show ?case by auto
qed simp

lemma sanitized_name: "sanitizePrometheusLabelName raw = [] \<or> label_name (sanitizePrometheusLabelName raw)"
  using label_runes_chars [of 0 "TrimSpace raw"]
  by (auto simp: sanitizePrometheusLabelName_def label_name_def Let_def label_letter_def label_char_def)

lemma label_runes_prefix:
  assumes "list_all label_char p" "0 < i"
  shows "label_runes i (p @ s) = p @ label_runes (i + length p) s"
  using assms
proof (induction p arbitrary: i)
  case (Cons c p)
  have c: "(of_char c :: nat) < 0x80" "label_letter (of_char c) \<or> 48 \<le> (of_char c :: nat) \<and> (of_char c :: nat) \<le> 57"
    using Cons.prems by (auto simp: label_char_def label_letter_def is_digit_def)
  with Cons rune_char [of "of_char c"] show ?case by (simp add: DecodeRune_ascii del: DecodeRune.simps)
qed simp

lemma strip_left_solid:
  assumes "\<And>p. p \<in> set seqs \<Longrightarrow> c \<notin> set p"
  shows "\<exists>a'. strip_left seqs (a @ c # b) = a' @ c # b"
proof (induction "length a" arbitrary: a rule: less_induct)
  case less
  show ?case
  proof (cases "find (\<lambda>p. p \<noteq> [] \<and> HasPrefix (a @ c # b) p) seqs")
    case None
    then show ?thesis by (subst strip_left.simps) auto
  next
    case (Some p)
    then have p: "p \<in> set seqs" "p \<noteq> []" "HasPrefix (a @ c # b) p" by (auto simp: find_Some_iff)
    then obtain t where t: "a @ c # b = p @ t" by (auto simp: HasPrefix_iff)
    with assms [OF p(1)] obtain a' where a: "a = p @ a'" "t = a' @ c # b"
      by (auto simp: append_eq_append_conv2 Cons_eq_append_conv)
    with less [of a'] p(2) Some show ?thesis by (subst strip_left.simps) simp
  qed
qed

lemma TrimSpace_solid_prefix:
  assumes "p \<noteq> []" "list_all solid p"
  shows "\<exists>t. TrimSpace (p @ s) = p @ t"
proof -
  have out: "c \<notin> set q" if "solid c" "q \<in> set space_seqs" for c q using that by (auto simp: solid_def space_seqs_def)
  obtain c p' where p: "p = c # p'" using assms(1) by (cases p) auto
  have l: "strip_left space_seqs (p @ s) = p @ s"
    by (rule strip_left_none) (use assms(2) out p in \<open>fastforce simp: HasPrefix_iff Cons_eq_append_conv\<close>)
  obtain d q where d: "p = q @ [d]" using assms(1) by (metis rev_exhaust)
  have "\<exists>a'. strip_left (map rev space_seqs) (rev s @ d # rev q) = a' @ d # rev q"
    by (rule strip_left_solid) (use assms(2) out d in auto)
  then obtain a' where "strip_left (map rev space_seqs) (rev s @ d # rev q) = a' @ d # rev q" by blast
  then have "TrimSpace (p @ s) = rev (a' @ d # rev q)" unfolding TrimSpace_def l by (simp add: d)
  then show ?thesis by (simp add: d)
qed

lemma sanitized_prefix:
  assumes "p = CHR ''s'' # p'" "list_all label_char p"
  shows "\<exists>t. sanitizePrometheusLabelName (p @ key) = p @ t"
proof -
  have "list_all solid p" using assms(2) by (auto simp: list_all_iff label_char_def label_letter_def is_digit_def solid_def)
  then obtain t where t: "TrimSpace (p @ key) = p @ t" using TrimSpace_solid_prefix [of p key] assms(1) by auto
  have s: "char_of (115 :: nat) = CHR ''s''" by code_simp
  have "label_runes 0 (p @ t) = p @ label_runes (length p) t"
    using label_runes_prefix [of p' 1 t] assms rune_char [of 115]
    by (simp add: label_letter_def DecodeRune_ascii s del: DecodeRune.simps)
  then show ?thesis using t assms(1) by (auto simp: sanitizePrometheusLabelName_def Let_def label_letter_def)
qed

subsection \<open>Groups\<close>

lemma labels_added:
  assumes "p = CHR ''s'' # p'" "list_all label_char p"
    "distinct (map fst m)" "list_all (label_name \<circ> fst) m"
  shows "distinct (map fst (addPrefixedPrometheusLabels m p items)) \<and> list_all (label_name \<circ> fst) (addPrefixedPrometheusLabels m p items) \<and>
    (\<forall>k. \<not> HasPrefix k p \<longrightarrow> map_of (addPrefixedPrometheusLabels m p items) k = map_of m k)"
  using assms(3,4)
proof (induction items arbitrary: m)
  case (Cons i items)
  obtain k v where i: "i = (k, v)" by fastforce
  let ?n = "sanitizePrometheusLabelName (p @ k)"
  obtain t where t: "?n = p @ t" using sanitized_prefix [OF assms(1,2)] by blast
  have n: "label_name ?n" using sanitized_name [of "p @ k"] t assms(1) by auto
  let ?m = "AList.update ?n (TrimSpace v) m"
  have d: "distinct (map fst ?m)" using Cons.prems(1) by (simp add: distinct_update)
  have l: "list_all (label_name \<circ> fst) ?m" using Cons.prems(2) n set_AList_put [of ?n "TrimSpace v" m] by (auto simp: list_all_iff)
  have "map_of ?m j = map_of m j" if "\<not> HasPrefix j p" for j using that t by (auto simp: update_conv)
  moreover have "?n \<noteq> []" using n by (simp add: label_name_def)
  ultimately show ?case using Cons.IH [OF d l] by (simp add: i Let_def)
qed simp

lemma labels_kept:
  "distinct (map fst m) \<Longrightarrow> distinct (map fst (deleteEmptyLabels m))"
  "list_all P m \<Longrightarrow> list_all P (deleteEmptyLabels m)"
  "distinct (map fst m) \<Longrightarrow> map_of m k = Some v \<Longrightarrow> TrimSpace v \<noteq> [] \<Longrightarrow> map_of (deleteEmptyLabels m) k = Some v"
proof -
  show "distinct (map fst m) \<Longrightarrow> distinct (map fst (deleteEmptyLabels m))" by (simp add: deleteEmptyLabels_def distinct_map_filter)
  show "list_all P m \<Longrightarrow> list_all P (deleteEmptyLabels m)" by (simp add: deleteEmptyLabels_def list_all_iff)
  assume a: "distinct (map fst m)" "map_of m k = Some v" "TrimSpace v \<noteq> []"
  then have "(k, v) \<in> set (deleteEmptyLabels m)" by (auto simp: deleteEmptyLabels_def dest: map_of_SomeD)
  with a(1) show "map_of (deleteEmptyLabels m) k = Some v" by (simp add: deleteEmptyLabels_def distinct_map_filter)
qed

text \<open>What a scraper relies on: one address, label names that it accepts, and the labels that say how to reach the address.\<close>

definition group_ok :: "PrometheusSDTargetGroupDTO \<Rightarrow> bool" where
  "group_ok g \<longleftrightarrow>
     length (pg_Targets g) = 1 \<and> distinct (map fst (pg_Labels g)) \<and> list_all (label_name \<circ> fst) (pg_Labels g) \<and>
     map_of (pg_Labels g) ''__scheme__'' \<in> {Some ''http'', Some ''https''} \<and>
     (case map_of (pg_Labels g) ''__metrics_path__'' of None \<Rightarrow> False | Some path \<Rightarrow> HasPrefix path ''/'')"

lemma normalized_path: "HasPrefix (normalizePrometheusPath p) ''/'' \<and> TrimSpace (normalizePrometheusPath p) \<noteq> []"
proof -
  have "TrimSpace (CHR ''/'' # s) \<noteq> []" for s
    using TrimSpace_solid_prefix [of "''/''" s] by (auto simp: solid_def)
  then show ?thesis by (auto simp: normalizePrometheusPath_def Let_def HasPrefix_iff)
qed

lemma normalized_scheme: "normalizePrometheusScheme ul p \<in> {''http'', ''https''}"
  by (simp add: normalizePrometheusScheme_def)

text \<open>The scheme of an endpoint is always http or https: the guard of the search holds for every endpoint.\<close>

lemma findPrometheusEndpoint_find:
  "findPrometheusEndpoint ul es expected = find (\<lambda>e. ep_Name e = expected \<or> ep_Protocol e = expected) es"
  using normalized_scheme by (induction es) auto

lemma instance_group_ok:
  assumes "prometheusSDTargetGroupFromValue ul v e origin region cluster = Some g"
  shows "group_ok g"
proof -
  obtain ep addr where ep: "findPrometheusEndpoint ul (v_Endpoints v) e = Some ep"
    and g: "pg_Targets g = [addr]" "pg_Labels g = deleteEmptyLabels (addPrefixedPrometheusLabels (addPrefixedPrometheusLabels
                   (system_labels ul v ep origin region cluster) ''stellmap_label_'' (v_Labels v)) ''stellmap_meta_'' (v_Metadata v))"
    using assms by (auto simp: prometheusSDTargetGroupFromValue_def split: option.splits)
  let ?m0 = "system_labels ul v ep origin region cluster"
  let ?m1 = "addPrefixedPrometheusLabels ?m0 ''stellmap_label_'' (v_Labels v)"
  let ?m2 = "addPrefixedPrometheusLabels ?m1 ''stellmap_meta_'' (v_Metadata v)"
  have m0: "distinct (map fst ?m0)" "list_all (label_name \<circ> fst) ?m0"
    by (simp_all add: system_labels_def label_name_def label_char_def label_letter_def is_digit_def)
  have c: "list_all label_char ''stellmap_label_''" "list_all label_char ''stellmap_meta_''"
    by (simp_all add: label_char_def label_letter_def is_digit_def)
  note m1 = labels_added [OF refl c(1) m0, of "v_Labels v"]
  then have m2: "distinct (map fst ?m2)" "list_all (label_name \<circ> fst) ?m2"
    "\<not> HasPrefix k ''stellmap_label_'' \<Longrightarrow> \<not> HasPrefix k ''stellmap_meta_'' \<Longrightarrow> map_of ?m2 k = map_of ?m0 k" for k
    using labels_added [OF refl c(2), of ?m1 "v_Metadata v"] by simp_all
  have "map_of ?m2 ''__scheme__'' = Some (normalizePrometheusScheme ul (ep_Protocol ep))"
    "map_of ?m2 ''__metrics_path__'' = Some (normalizePrometheusPath (ep_Path ep))"
    by (subst m2(3); simp add: HasPrefix_def system_labels_def)+
  moreover have "TrimSpace ''http'' \<noteq> []" "TrimSpace ''https'' \<noteq> []" by code_simp+
  then have "TrimSpace (normalizePrometheusScheme ul (ep_Protocol ep)) \<noteq> []" using normalized_scheme [of ul "ep_Protocol ep"] by auto
  ultimately have "map_of (deleteEmptyLabels ?m2) ''__scheme__'' = Some (normalizePrometheusScheme ul (ep_Protocol ep))"
    "map_of (deleteEmptyLabels ?m2) ''__metrics_path__'' = Some (normalizePrometheusPath (ep_Path ep))"
    using labels_kept(3) [OF m2(1)] normalized_path by auto
  then show ?thesis
    using m2(1,2) labels_kept(1,2) normalized_path normalized_scheme [of ul "ep_Protocol ep"] unfolding group_ok_def g by auto
qed

lemma self_group_ok: "self_group h i a = Some g \<Longrightarrow> group_ok g"
  by (simp add: self_group_def group_ok_def HasPrefix_def split: option.splits)
    (drule sym, simp add: label_name_def label_char_def label_letter_def is_digit_def)

lemma collected:
  "collect_instances f limit items result = Some gs \<Longrightarrow> g \<in> set gs \<Longrightarrow> g \<in> set result \<or> (\<exists>i \<in> set items. f i = Some (Some g))"
proof (induction items arbitrary: result)
  case (Cons i items)
  then show ?case by (fastforce simp: Let_def split: option.splits if_splits)
qed simp

lemma groups_ok:
  assumes "prometheusSDTargetGroups nd ul h query now now' n = (n', Inr (Some gs))" "g \<in> set gs"
  shows "group_ok g"
proof -
  have val: "group_ok g" if "sd_value ul query t orig r c v = Some (Some g)" for t orig r c v
    using that by (auto simp: sd_value_def dest: instance_group_ok split: if_splits option.splits bool.splits)
  have loc: "group_ok g" if "localPrometheusSDTargetGroups nd ul h query now n = (n1, Inr (Some ls))" "g \<in> set ls" for n1 ls
    using that val by (auto simp: localPrometheusSDTargetGroups_def sd_local_def split: prod.splits sum.splits option.splits dest!: collected)
  have rep: "group_ok g" if "replicatedPrometheusSDTargetGroups nd ul query now' n1 = (n2, Inr (Some rs))" "g \<in> set rs" for n1 n2 rs
    using that val by (auto simp: replicatedPrometheusSDTargetGroups_def sd_replicated_def split: prod.splits sum.splits option.splits dest!: collected)
  have "group_ok g" if "g \<in> set (selfPrometheusSDTargetGroups h st)" for st
    using that by (auto simp: selfPrometheusSDTargetGroups_def Let_def set_map_filter self_group_ok split: if_splits)
  with assms loc rep show ?thesis
    by (auto simp: prometheusSDTargetGroups_def split: prod.splits sum.splits option.splits if_splits)
qed

subsection \<open>Which instances are listed\<close>

definition sd_wanted :: "(nat \<Rightarrow> nat) \<Rightarrow> RegistryAPI \<Rightarrow> prometheusSDQuery \<Rightarrow> int \<Rightarrow> KV \<Rightarrow> PrometheusSDTargetGroupDTO option" where
  "sd_wanted ul h q t item =
     (case unmarshal_value (kv_Value item) of
        None \<Rightarrow> None
      | Some v \<Rightarrow>
          if IsAlive v t \<and> (pq_Namespace q = [] \<or> v_Namespace v = pq_Namespace q) \<and> (pq_Service q = [] \<or> TrimSpace (v_Service v) = pq_Service q) \<and>
            (pq_Zone q = [] \<or> v_Zone v = pq_Zone q) \<and> list_all (requirement_holds (map_of (v_Labels v))) (pq_Selector q)
          then prometheusSDTargetGroupFromValue ul v (pq_Endpoint q) ''local'' (h_sourceRegion h) (h_sourceCluster h) else None)"

lemma parsed_selector: "parsePrometheusSDQuery ul values = Inr q \<Longrightarrow> list_all requirement_ok (pq_Selector q)"
  by (auto simp: parsePrometheusSDQuery_def Let_def dest: ParseLabelSelectorFilters_requirements split: if_splits option.splits sum.splits)

lemma sd_local_wanted:
  assumes "parsePrometheusSDQuery ul values = Inr q"
  shows "sd_local ul h q t item = Some (sd_wanted ul h q t item)"
  using MatchesLabelSelector_ok [OF parsed_selector [OF assms]]
  by (auto simp: sd_local_def sd_value_def sd_wanted_def matchPrometheusSDQuery_def MatchQuery_def sd_query_def MatchServiceQuery_iff
      service_matches_def split: option.split bool.split)

lemma root_scan:
  assumes "finite (dom m)" "directory_ok m"
  shows "List.map_filter (sd_wanted ul h q t) (entries m RootPrefix (prefixUpperBound RootPrefix)) =
    List.map_filter (sd_wanted ul h q t) (directory m)"
proof -
  let ?in = "within RootPrefix (prefixUpperBound RootPrefix)"
  have "entries m RootPrefix (prefixUpperBound RootPrefix) = filter (\<lambda>i. ?in (kv_Key i)) (directory m)"
    using entries_narrow [OF assms(1), of RootPrefix "prefixUpperBound RootPrefix" "[]" "[]"]
    by (auto simp: directory_def within_prefix intro: filter_cong)
  moreover have "sd_wanted ul h q t i = None" if i: "i \<in> set (directory m)" "\<not> ?in (kv_Key i)" for i
  proof (rule ccontr)
    assume "sd_wanted ul h q t i \<noteq> None"
    then obtain v where v: "unmarshal_value (kv_Value i) = Some v" by (auto simp: sd_wanted_def split: option.splits)
    have k: "HasPrefix (kv_Key i) RootPrefix" "m (kv_Key i) = Some (kv_Value i)"
      using i(1) set_entries [OF assms(1), of "[]" "[]"] by (auto simp: directory_def)
    with v have st: "stored m (kv_Key i) = Some v" by (simp add: stored_def)
    have "utf8 (v_Namespace v @ ''/'' @ v_Service v @ ''/'' @ v_InstanceID v)"
      using stored_text [OF st] by (intro utf8_append) (simp_all add: text_value_iff)
    with within_append [of RootPrefix] directory_okD [OF assms(2) k(1) st] i(2) show False by (simp add: key_of_def Key_def)
  qed
  ultimately show ?thesis by (simp add: map_filter_outside)
qed

context Registry_Node
begin

lemma local_groups_ok:
  assumes nd: "node nd" "inv n" and q: "parsePrometheusSDQuery ul values = Inr q"
    and run: "localPrometheusSDTargetGroups nd ul h q now n = (n', Inr gs)" "directory_ok (dir n')"
  shows "gs = Some (List.map_filter (sd_wanted ul h q now) (directory (dir n')))"
proof -
  obtain items where i: "rn_Scan nd RootPrefix (prefixUpperBound RootPrefix) 0 n = (n', Inr items)"
    "gs = collect_instances (sd_local ul h q now) 0 items []"
    using run(1) by (auto simp: localPrometheusSDTargetGroups_def split: prod.splits sum.splits)
  from scan_ok [OF nd i(1)] have "inv n'" "items = entries (dir n') RootPrefix (prefixUpperBound RootPrefix)" by (simp_all add: limited_def)
  with i(2) root_scan [OF finite_dir run(2)] show ?thesis by (simp add: collect_all sd_local_wanted [OF q] limited_def)
qed

end


definition sample_scrape :: http_request where
  "sample_scrape = \<lparr>rq_Method = ''GET'', rq_Query = [(''endpoint'', [''http''])], rq_Header = [(''Authorization'', ''Bearer p'')], rq_Body = []\<rparr>"

end
