(* ===== verification/App_Start.thy ===== *)
theory App_Start
  imports Members Mirror Prometheus_SD App_Events
begin

text \<open>
  How a node is put together (\<open>cmd/stellmapd\<close> and \<open>internal/app/app.go\<close>): the configuration and its checks, the peers and the address
  book made from it, starting and stopping, one turn of the loop over ready batches, and the guard of the admin listener. The file
  system is a parameter.
\<close>

subsection \<open>Configuration\<close>

text \<open>Durations are nanoseconds.\<close>

record AppConfig =
  ac_NodeID :: u64
  ac_ClusterID :: u64
  ac_Region :: bytes
  ac_DataDir :: bytes
  ac_HTTPAddr :: bytes
  ac_AdminAddr :: bytes
  ac_AdminToken :: bytes
  ac_ReplicationToken :: bytes
  ac_PrometheusSDToken :: bytes
  ac_ReplicationTargetsFile :: bytes
  ac_GRPCAddr :: bytes
  ac_PeerIDs :: bytes
  ac_PeerGRPCAddrs :: bytes
  ac_PeerHTTPAddrs :: bytes
  ac_PeerAdminAddrs :: bytes
  ac_RequestTimeout :: int
  ac_ShutdownTimeout :: int
  ac_RegistryCleanupInterval :: int
  ac_RegistryCleanupDeleteLimit :: int

text \<open>\<open>parseFlags\<close> after parsing: the fields whose flags were given replace those of the configuration file.\<close>

definition override_flags :: "bytes set \<Rightarrow> AppConfig \<Rightarrow> AppConfig \<Rightarrow> AppConfig" where
  "override_flags given cli cfg =
     (let pick = (\<lambda>name get. if name \<in> given then get cli else get cfg) in
      \<lparr>ac_NodeID = (if ''node-id'' \<in> given then ac_NodeID cli else ac_NodeID cfg),
       ac_ClusterID = (if ''cluster-id'' \<in> given then ac_ClusterID cli else ac_ClusterID cfg),
       ac_Region = pick ''region'' ac_Region, ac_DataDir = pick ''data-dir'' ac_DataDir, ac_HTTPAddr = pick ''http-addr'' ac_HTTPAddr,
       ac_AdminAddr = pick ''admin-addr'' ac_AdminAddr, ac_AdminToken = pick ''admin-token'' ac_AdminToken,
       ac_ReplicationToken = pick ''replication-token'' ac_ReplicationToken,
       ac_PrometheusSDToken = pick ''prometheus-sd-token'' ac_PrometheusSDToken,
       ac_ReplicationTargetsFile = pick ''replication-targets-file'' ac_ReplicationTargetsFile, ac_GRPCAddr = pick ''grpc-addr'' ac_GRPCAddr,
       ac_PeerIDs = pick ''peer-ids'' ac_PeerIDs, ac_PeerGRPCAddrs = pick ''peer-grpc-addrs'' ac_PeerGRPCAddrs,
       ac_PeerHTTPAddrs = pick ''peer-http-addrs'' ac_PeerHTTPAddrs, ac_PeerAdminAddrs = pick ''peer-admin-addrs'' ac_PeerAdminAddrs,
       ac_RequestTimeout = (if ''request-timeout'' \<in> given then ac_RequestTimeout cli else ac_RequestTimeout cfg),
       ac_ShutdownTimeout = (if ''shutdown-timeout'' \<in> given then ac_ShutdownTimeout cli else ac_ShutdownTimeout cfg),
       ac_RegistryCleanupInterval =
         (if ''registry-cleanup-interval'' \<in> given then ac_RegistryCleanupInterval cli else ac_RegistryCleanupInterval cfg),
       ac_RegistryCleanupDeleteLimit =
         (if ''registry-cleanup-delete-limit'' \<in> given then ac_RegistryCleanupDeleteLimit cli else ac_RegistryCleanupDeleteLimit cfg)\<rparr>)"

datatype startup_error =
    NotPositive bytes
  | Missing bytes
  | DataDirFailed
  | TargetsProblem targets_error
  | BadPeerID bytes
  | BadMapping bytes
  | BadMappingID bytes
  | NodeProblem node_error
  | StoreProblem storage_error
  | ListenFailed
  | PeerProblem peer_error
  | ServerProblem

definition trim_config :: "AppConfig \<Rightarrow> AppConfig" where
  "trim_config cfg =
     cfg\<lparr>ac_Region := TrimSpace (ac_Region cfg), ac_DataDir := TrimSpace (ac_DataDir cfg), ac_HTTPAddr := TrimSpace (ac_HTTPAddr cfg),
       ac_AdminAddr := TrimSpace (ac_AdminAddr cfg), ac_GRPCAddr := TrimSpace (ac_GRPCAddr cfg), ac_AdminToken := TrimSpace (ac_AdminToken cfg),
       ac_ReplicationToken := TrimSpace (ac_ReplicationToken cfg), ac_PrometheusSDToken := TrimSpace (ac_PrometheusSDToken cfg),
       ac_ReplicationTargetsFile := TrimSpace (ac_ReplicationTargetsFile cfg), ac_PeerIDs := TrimSpace (ac_PeerIDs cfg),
       ac_PeerGRPCAddrs := TrimSpace (ac_PeerGRPCAddrs cfg), ac_PeerHTTPAddrs := TrimSpace (ac_PeerHTTPAddrs cfg),
       ac_PeerAdminAddrs := TrimSpace (ac_PeerAdminAddrs cfg)\<rparr>"

definition ValidateConfig :: "(bytes \<Rightarrow> bool) \<Rightarrow> (bytes \<Rightarrow> bytes option) \<Rightarrow> AppConfig \<Rightarrow> startup_error + AppConfig" where
  "ValidateConfig mkdirAll readFile cfg =
     (if ac_NodeID cfg = 0 then Inl (NotPositive ''node-id'')
      else if ac_ClusterID cfg = 0 then Inl (NotPositive ''cluster-id'')
      else if TrimSpace (ac_Region cfg) = [] then Inl (Missing ''region'')
      else if TrimSpace (ac_DataDir cfg) = [] then Inl (Missing ''data-dir'')
      else if TrimSpace (ac_HTTPAddr cfg) = [] then Inl (Missing ''http-addr'')
      else if TrimSpace (ac_AdminAddr cfg) = [] then Inl (Missing ''admin-addr'')
      else if TrimSpace (ac_GRPCAddr cfg) = [] then Inl (Missing ''grpc-addr'')
      else if TrimSpace (ac_AdminToken cfg) = [] then Inl (Missing ''admin-token'')
      else if TrimSpace (ac_ReplicationToken cfg) = [] then Inl (Missing ''replication-token'')
      else if TrimSpace (ac_PrometheusSDToken cfg) = [] then Inl (Missing ''prometheus-sd-token'')
      else if ac_RequestTimeout cfg \<le> 0 then Inl (NotPositive ''request-timeout'')
      else if ac_ShutdownTimeout cfg \<le> 0 then Inl (NotPositive ''shutdown-timeout'')
      else if ac_RegistryCleanupInterval cfg \<le> 0 then Inl (NotPositive ''registry-cleanup-interval'')
      else if ac_RegistryCleanupDeleteLimit cfg \<le> 0 then Inl (NotPositive ''registry-cleanup-delete-limit'')
      else let cfg' = trim_config cfg in
        if \<not> mkdirAll (ac_DataDir cfg') then Inl DataDirFailed
        else case LoadReplicationTargets readFile (ac_ReplicationTargetsFile cfg') of
          Inl e \<Rightarrow> Inl (TargetsProblem e)
        | Inr targets \<Rightarrow> Inr cfg')"

subsection \<open>Peers and addresses\<close>

fun peer_ids :: "bytes list \<Rightarrow> u64 list \<Rightarrow> startup_error + u64 list" where
  "peer_ids [] peers = Inr peers"
| "peer_ids (item0 # items) peers =
     (let item = TrimSpace item0 in
      if item = [] then peer_ids items peers
      else case ParseUint item of
        None \<Rightarrow> Inl (BadPeerID item)
      | Some k \<Rightarrow> (let id = word_of_nat k in if id \<in> set peers then peer_ids items peers else peer_ids items (peers @ [id])))"

definition parsePeerIDs :: "u64 \<Rightarrow> bytes \<Rightarrow> startup_error + u64 list" where
  "parsePeerIDs selfID raw =
     and_then (peer_ids (Split raw (CHR '','')) []) (\<lambda>peers. Inr (if selfID \<in> set peers then peers else peers @ [selfID]))"

fun address_items :: "bytes list \<Rightarrow> (u64, bytes) gomap \<Rightarrow> startup_error + (u64, bytes) gomap" where
  "address_items [] result = Inr result"
| "address_items (item0 # items) result =
     (let item = TrimSpace item0 in
      if item = [] then address_items items result
      else case SplitN2 item ''='' of
        [left, right] \<Rightarrow>
          (case ParseUint (TrimSpace left) of
             None \<Rightarrow> Inl (BadMappingID left)
           | Some k \<Rightarrow> address_items items (AList.update (word_of_nat k) (TrimSpace right) result))
      | _ \<Rightarrow> Inl (BadMapping item))"

definition parseAddressMap :: "bytes \<Rightarrow> startup_error + (u64, bytes) gomap" where
  "parseAddressMap raw = (if TrimSpace raw = [] then Inr [] else address_items (Split raw (CHR '','')) [])"

definition preferAdvertiseAddr :: "(u64, bytes) gomap \<Rightarrow> u64 \<Rightarrow> bytes \<Rightarrow> bytes" where
  "preferAdvertiseAddr addrs nodeID fallback =
     (case map_of addrs nodeID of
        None \<Rightarrow> TrimSpace fallback
      | Some addr \<Rightarrow> if TrimSpace addr \<noteq> [] then TrimSpace addr else TrimSpace fallback)"

text \<open>The first part of \<open>newServerApp\<close>, for a checked configuration: the peers and the address book.\<close>

definition server_book :: "AppConfig \<Rightarrow> startup_error + u64 list \<times> AddressBook" where
  "server_book cfg =
     and_then (parsePeerIDs (ac_NodeID cfg) (ac_PeerIDs cfg)) (\<lambda>peers.
     and_then (parseAddressMap (ac_PeerHTTPAddrs cfg)) (\<lambda>http.
     and_then (parseAddressMap (ac_PeerGRPCAddrs cfg)) (\<lambda>grpc.
     and_then (parseAddressMap (ac_PeerAdminAddrs cfg)) (\<lambda>admin.
       Inr (peers, ab_Set (NewAddressBook http grpc admin) (ac_NodeID cfg)
         (preferAdvertiseAddr http (ac_NodeID cfg) (ac_HTTPAddr cfg))
         (preferAdvertiseAddr grpc (ac_NodeID cfg) (ac_GRPCAddr cfg))
         (preferAdvertiseAddr admin (ac_NodeID cfg) (ac_AdminAddr cfg)))))))"

definition raft_config :: "AppConfig \<Rightarrow> u64 list \<Rightarrow> Config \<Rightarrow> Config" where
  "raft_config cfg peers zero =
     zero\<lparr>cf_NodeID := ac_NodeID cfg, cf_ClusterID := ac_ClusterID cfg, cf_DataDir := ac_DataDir cfg, cf_Peers := peers\<rparr>"

subsection \<open>Start, turn and stop\<close>

text \<open>The state is the peer transport, with the book that the application shares with it, and the node.\<close>

definition app_Start ::
  "('ms, 'rn) raft_library \<Rightarrow> bool \<Rightarrow> bool \<Rightarrow> 'c PeerTransport \<times> ('db, 'ms, 'rn) RaftNode \<Rightarrow>
    ('c PeerTransport \<times> ('db, 'ms, 'rn) RaftNode) \<times> startup_error option" where
  "app_Start rl mkdirOK listenOK w =
     (case Start rl mkdirOK (snd w) of
        (n1, Some e) \<Rightarrow> ((fst w, n1), Some (NodeProblem e))
      | (n1, None) \<Rightarrow>
          (case restorePersistedMemberAddresses n1 (pt_book (fst w)) of
             Inl e \<Rightarrow> ((fst w, fst (Stop n1)), Some (StoreProblem e))
           | Inr book \<Rightarrow>
               (let t1 = (fst w)\<lparr>pt_book := book\<rparr> in
                case persistCurrentAddressBook book n1 of
                  (n2, Some e) \<Rightarrow> ((t1, fst (Stop n2)), Some (StoreProblem e))
                | (n2, None) \<Rightarrow> if \<not> listenOK then ((t1, fst (Stop n2)), Some ListenFailed) else ((t1, n2), None))))"

text \<open>One turn of \<open>forwardReadyLoop\<close>. A panic of the hub ends the process.\<close>

definition forward_ready ::
  "('ms, 'rn) raft_library \<Rightarrow> (bytes \<Rightarrow> MemberChangeRequestDTO) \<Rightarrow> 'c peer_net \<Rightarrow>
    ((u64, RaftEnvelope list) gomap \<Rightarrow> (u64, RaftEnvelope list) gomap) \<Rightarrow> Ready \<Rightarrow>
    'c PeerTransport \<times> ('db, 'ms, 'rn) RaftNode \<times> WatchHub \<times> chan list \<Rightarrow>
    hub_panic + ('c PeerTransport \<times> ('db, 'ms, 'rn) RaftNode \<times> WatchHub \<times> chan list) \<times> 'c sent list" where
  "forward_ready rl left net visit ready w =
     (case w of (t, n, hub) \<Rightarrow>
     (case applyCommittedControlEntries rl left net (ry_CommittedEntries ready) (t, n) of (t1, n1) \<Rightarrow>
        and_then (publishRegistryEvents hub (ry_CommittedEntries ready)) (\<lambda>hub'.
        case Forward rl net visit ready t1 of (t2, out, es) \<Rightarrow> Inr ((t2, n1, hub'), out))))"

text \<open>\<open>Stop\<close>: \<open>shutdown\<close> are the errors of the three servers. The context of a shutdown is not cancelled.\<close>

definition app_Stop ::
  "'c peer_net \<Rightarrow> bool list \<Rightarrow> 'c PeerTransport \<times> ('db, 'ms, 'rn) RaftNode \<Rightarrow>
    ('c PeerTransport \<times> ('db, 'ms, 'rn) RaftNode) \<times> startup_error list" where
  "app_Stop net shutdown w =
     (case persistCurrentAddressBook (pt_book (fst w)) (snd w) of (n1, e1) \<Rightarrow>
     (case pt_Close net (fst w) of (t1, es) \<Rightarrow>
     (case Stop n1 of (n2, e2) \<Rightarrow>
        ((t1, n2), map StoreProblem (case e1 of None \<Rightarrow> [] | Some e \<Rightarrow> [e]) @ map (\<lambda>_. ServerProblem) (filter Not shutdown) @
          map PeerProblem es @ map NodeProblem (case e2 of None \<Rightarrow> [] | Some e \<Rightarrow> [e])))))"

subsection \<open>The admin listener\<close>

definition isLocalAdminRequest :: "bytes \<Rightarrow> bool" where
  "isLocalAdminRequest remoteAddr0 =
     (let remoteAddr = TrimSpace remoteAddr0 in
      remoteAddr \<noteq> [] \<and> (case SplitHostPort remoteAddr of None \<Rightarrow> remoteAddr | Some (host, _) \<Rightarrow> host) = ''127.0.0.1'')"

definition isAuthorizedAdminRequest :: "http_request \<Rightarrow> bytes \<Rightarrow> bool" where
  "isAuthorizedAdminRequest r token \<longleftrightarrow> TrimSpace token \<noteq> [] \<and> TrimSpace (header_get r ''Authorization'') = ''Bearer '' @ token"

definition adminAuthMiddleware :: "bytes \<Rightarrow> bytes \<Rightarrow> http_request \<Rightarrow> ('w \<Rightarrow> 'w \<times> unit reply) \<Rightarrow> 'w \<Rightarrow> 'w \<times> unit reply" where
  "adminAuthMiddleware token remoteAddr r next_handler w =
     (if \<not> isLocalAdminRequest remoteAddr then (w, writeError 403 ''forbidden'' (Text ''admin listener only allows 127.0.0.1''))
      else if \<not> isAuthorizedAdminRequest r token then (w, writeError 401 ''unauthorized'' (Text ''missing or invalid admin token''))
      else next_handler w)"

subsection \<open>Peers and addresses of a checked configuration\<close>

definition listed_ids :: "bytes list \<Rightarrow> u64 set" where
  "listed_ids items = {word_of_nat k | k. \<exists>item \<in> set items. TrimSpace item \<noteq> [] \<and> ParseUint (TrimSpace item) = Some k}"

lemma listed_ids_simps [simp]:
  "listed_ids [] = {}"
  "listed_ids (item # items) =
     (if TrimSpace item = [] then {} else case ParseUint (TrimSpace item) of None \<Rightarrow> {} | Some k \<Rightarrow> {word_of_nat k}) \<union> listed_ids items"
  by (auto simp: listed_ids_def split: option.splits)

lemma peer_ids_ok: "peer_ids items peers = Inr out \<Longrightarrow> distinct peers \<Longrightarrow> distinct out \<and> set out = set peers \<union> listed_ids items"
  by (induction items peers rule: peer_ids.induct) (auto simp: Let_def split: if_splits option.splits)

lemma parsePeerIDs_ok:
  "parsePeerIDs self raw = Inr peers \<Longrightarrow> distinct peers \<and> set peers = insert self (listed_ids (Split raw (CHR '','')))"
  using peer_ids_ok [of _ "[]"] by (auto simp: parsePeerIDs_def split: if_splits)

lemma ValidateConfig_ok:
  assumes "ValidateConfig mk rf cfg0 = Inr cfg"
  shows "cfg = trim_config cfg0" "ac_NodeID cfg \<noteq> 0" "ac_HTTPAddr cfg \<noteq> []" "ac_GRPCAddr cfg \<noteq> []" "ac_AdminAddr cfg \<noteq> []"
    "ac_AdminToken cfg \<noteq> []" "TrimSpace (ac_AdminToken cfg) = ac_AdminToken cfg" "0 < ac_RegistryCleanupDeleteLimit cfg"
  using assms by (auto simp: ValidateConfig_def trim_config_def Let_def split: if_splits sum.splits)

lemma TrimSpace_filled [simp]: "TrimSpace s \<noteq> [] \<Longrightarrow> preferAdvertiseAddr m i s \<noteq> []"
  by (simp add: preferAdvertiseAddr_def split: option.split)

lemma server_book_ok:
  assumes "ValidateConfig mk rf cfg0 = Inr cfg" "server_book cfg = Inr (peers, book)"
  shows "distinct peers" "set peers = insert (ac_NodeID cfg) (listed_ids (Split (ac_PeerIDs cfg) (CHR '','')))"
    "HTTPAddr book (ac_NodeID cfg) \<noteq> []" "GRPCAddr book (ac_NodeID cfg) \<noteq> []" "AdminAddr book (ac_NodeID cfg) \<noteq> []"
proof -
  have t: "TrimSpace (ac_HTTPAddr cfg) \<noteq> []" "TrimSpace (ac_GRPCAddr cfg) \<noteq> []" "TrimSpace (ac_AdminAddr cfg) \<noteq> []"
    using ValidateConfig_ok [OF assms(1)] by (simp_all add: trim_config_def)
  obtain http grpc admin where b: "parsePeerIDs (ac_NodeID cfg) (ac_PeerIDs cfg) = Inr peers"
      "book = ab_Set (NewAddressBook http grpc admin) (ac_NodeID cfg) (preferAdvertiseAddr http (ac_NodeID cfg) (ac_HTTPAddr cfg))
         (preferAdvertiseAddr grpc (ac_NodeID cfg) (ac_GRPCAddr cfg)) (preferAdvertiseAddr admin (ac_NodeID cfg) (ac_AdminAddr cfg))"
    using assms(2) by (auto simp: server_book_def)
  from b(2) t show "HTTPAddr book (ac_NodeID cfg) \<noteq> []" "GRPCAddr book (ac_NodeID cfg) \<noteq> []" "AdminAddr book (ac_NodeID cfg) \<noteq> []" by simp_all
  from parsePeerIDs_ok [OF b(1)] show "distinct peers" "set peers = insert (ac_NodeID cfg) (listed_ids (Split (ac_PeerIDs cfg) (CHR '','')))"
    by simp_all
qed

subsection \<open>Writing the book to a working store\<close>

lemma live_set_member:
  assumes "ps_live (n_kvStore n)" "i \<noteq> 0"
  obtains n' where "node_SetMemberAddress i h g a n = (n', None)" "ps_live (n_kvStore n')"
proof -
  obtain db where db: "ps_db (n_kvStore n) = Some db" using assms(1) by (auto simp: ps_live_def)
  from live_commit [OF assms(1) db, of "[BSet (memberAddressKey i) (mustJSON \<lparr>ma_NodeID = i, ma_HTTPAddr = h, ma_GRPCAddr = g, ma_AdminAddr = a\<rparr>)]"]
  obtain s where "commit (n_kvStore n) db [BSet (memberAddressKey i) (mustJSON \<lparr>ma_NodeID = i, ma_HTTPAddr = h, ma_GRPCAddr = g, ma_AdminAddr = a\<rparr>)] = (s, None)" "ps_live s" by blast
  with assms(2) show thesis
    by (intro that [of "n\<lparr>n_kvStore := s\<rparr>"]) (simp_all add: node_SetMemberAddress_def ps_SetMemberAddress_def getDB_def db)
qed

lemma live_delete_member:
  assumes "ps_live (n_kvStore n)" "i \<noteq> 0"
  obtains n' where "node_DeleteMemberAddress i n = (n', None)" "ps_live (n_kvStore n')"
proof -
  obtain db where db: "ps_db (n_kvStore n) = Some db" using assms(1) by (auto simp: ps_live_def)
  from live_commit [OF assms(1) db, of "[BDelete (memberAddressKey i)]"]
  obtain s where "commit (n_kvStore n) db [BDelete (memberAddressKey i)] = (s, None)" "ps_live s" by blast
  with assms(2) show thesis
    by (intro that [of "n\<lparr>n_kvStore := s\<rparr>"]) (simp_all add: node_DeleteMemberAddress_def ps_DeleteMemberAddress_def getDB_def db)
qed

lemma live_list_members:
  assumes "ps_live (n_kvStore n)" "mem_inv n"
  obtains ms where "node_ListMemberAddresses n = Inr ms"
proof -
  let ?s = "n_kvStore n"
  obtain db kvs where db: "ps_db ?s = Some db" "pb_iter (ps_pebble ?s) db metaMembersPrefix memberPrefixEnd = Inr (kvs, None)"
    using assms(1) unfolding ps_live_def by blast
  obtain tail where t: "sorted_wrt (<) (map fst (kvs @ tail))" "map_of (kvs @ tail) = ps_contents ?s |` Collect (within metaMembersPrefix memberPrefixEnd)"
    "tail = []" using pb_iter_ok [OF ps_live_inv [OF assms(1)] db] by blast
  have "\<exists>y. decode_member v = Some y" if "(k, v) \<in> set kvs" for k v
  proof -
    have "map_of kvs k = Some v" using t(1,3) that by (simp add: strict_sorted_iff)
    then have "ps_contents ?s k = Some v" "within metaMembersPrefix memberPrefixEnd k" using t(2,3) by (auto simp: restrict_map_def split: if_splits)
    then show ?thesis using assms(2) unfolding mem_inv_def members_ok_def by blast
  qed
  then have "those (map (decode_member \<circ> snd) kvs) \<noteq> None" by (induction kvs) force+
  then show thesis using that by (auto simp: node_ListMemberAddresses_def ps_ListMemberAddresses_def getDB_def db)
qed

lemma live_set_addresses:
  "ps_live (n_kvStore n) \<Longrightarrow> 0 \<notin> set ids \<Longrightarrow> \<exists>n' seen'. set_addresses b ids seen n = (n', Inr seen') \<and> ps_live (n_kvStore n')"
proof (induction ids arbitrary: seen n)
  case (Cons i ids)
  then have "i \<noteq> 0" by auto
  from live_set_member [OF Cons.prems(1) this, of "HTTPAddr b i" "GRPCAddr b i" "AdminAddr b i"] obtain n1
    where "node_SetMemberAddress i (HTTPAddr b i) (GRPCAddr b i) (AdminAddr b i) n = (n1, None)" "ps_live (n_kvStore n1)" by blast
  with Cons.IH [of n1 "i # seen"] Cons.IH [of n seen] Cons.prems show ?case by simp
qed simp

lemma live_delete_addresses:
  "ps_live (n_kvStore n) \<Longrightarrow> 0 \<notin> ma_NodeID ` set ms \<Longrightarrow> \<exists>n'. delete_addresses seen ms n = (n', None)"
proof (induction ms arbitrary: n)
  case (Cons m ms)
  then have "ma_NodeID m \<noteq> 0" by auto
  from live_delete_member [OF Cons.prems(1) this] obtain n1 where "node_DeleteMemberAddress (ma_NodeID m) n = (n1, None)" "ps_live (n_kvStore n1)" by blast
  with Cons.IH [of n1] Cons.IH [of n] Cons.prems show ?case by simp
qed simp

lemma persist_succeeds:
  assumes "ps_live (n_kvStore n)" "mem_inv n" "node_members n 0 = None" "0 \<notin> known b"
  obtains n' where "persistCurrentAddressBook b n = (n', None)"
proof -
  obtain ms where ms: "node_ListMemberAddresses n = Inr ms" by (rule live_list_members [OF assms(1,2)])
  have z: "0 \<notin> ma_NodeID ` set ms" using node_list_ok(2) [OF assms(2) ms, of 0] assms(3) by auto
  have k: "0 \<notin> set (map fst (SnapshotHTTP b))" "0 \<notin> set (map fst (SnapshotGRPC b))" "0 \<notin> set (map fst (SnapshotAdmin b))"
    using assms(4) unfolding snapshot_keys [of b, symmetric] by blast+
  obtain n1 s1 where 1: "set_addresses b (map fst (SnapshotHTTP b)) [] n = (n1, Inr s1)" "ps_live (n_kvStore n1)"
    using live_set_addresses [OF assms(1) k(1)] by blast
  obtain n2 s2 where 2: "set_addresses b (map fst (SnapshotGRPC b)) s1 n1 = (n2, Inr s2)" "ps_live (n_kvStore n2)"
    using live_set_addresses [OF 1(2) k(2)] by blast
  obtain n3 s3 where 3: "set_addresses b (map fst (SnapshotAdmin b)) s2 n2 = (n3, Inr s3)" "ps_live (n_kvStore n3)"
    using live_set_addresses [OF 2(2) k(3)] by blast
  from live_delete_addresses [OF 3(2) z] show thesis using that by (auto simp: persistCurrentAddressBook_def ms 1 2 3)
qed

lemma known_ab_Set: "known (ab_Set b i h g a) \<subseteq> insert i (known b)"
proof -
  have "fst ` set (put_addr i v m) \<subseteq> insert i (fst ` set m)" for v and m :: "(u64, bytes) gomap"
    by (auto simp: put_addr_def update_conv' simp flip: dom_map_of_conv_image_fst)
  from this [of h "ab_httpByID b"] this [of g "ab_grpcByID b"] this [of a "ab_adminByID b"] show ?thesis
    by (simp add: known_def ab_Set_def) blast
qed

lemma known_restore: "0 \<notin> known b \<Longrightarrow> 0 \<notin> known (restore_members ms b)"
proof (induction ms arbitrary: b)
  case (Cons m ms)
  have "0 \<notin> known (ab_Set b (ma_NodeID m) h g a)" if "ma_NodeID m \<noteq> 0" for h g a
    using known_ab_Set [of b "ma_NodeID m" h g a] that Cons.prems by auto
  with Cons show ?case by simp
qed simp

definition stored_addr :: "(MemberAddress \<Rightarrow> bytes) \<Rightarrow> MemberAddress option \<Rightarrow> bytes" where
  "stored_addr get member = (case member of None \<Rightarrow> [] | Some m \<Rightarrow> get m)"


subsection \<open>The admin guard\<close>

lemma Bearer_trimmed: "trimmed t \<Longrightarrow> t \<noteq> [] \<Longrightarrow> trimmed (''Bearer '' @ t)"
proof -
  assume t: "trimmed t" "t \<noteq> []"
  have sp: "\<forall>p \<in> set space_seqs. p \<noteq> [] \<and> hd p \<noteq> CHR ''B'' \<and> (p = '' '' \<or> CHR '' '' \<notin> set p)" by (simp add: space_seqs_def)
  have "\<not> HasSuffix (''Bearer '' @ t) p" if p: "p \<in> set space_seqs" for p
  proof
    assume "HasSuffix (''Bearer '' @ t) p"
    then obtain u where u: "''Bearer '' @ t = u @ p" by (auto simp: HasSuffix_iff)
    have "\<not> HasSuffix t p" using t(1) p by (simp add: trimmed_def)
    with u obtain q where q: "p = q @ t" "''Bearer '' = u @ q" "q \<noteq> []" unfolding append_eq_append_conv2 HasSuffix_iff by force
    then have "last q = CHR '' ''" by (metis append_is_Nil_conv last.simps last_appendR list.distinct(1))
    then have "CHR '' '' \<in> set p" "p \<noteq> '' ''" using q t(2) last_in_set [OF q(3)] by (auto simp: append_eq_Cons_conv)
    with sp p show False by blast
  qed
  moreover have "\<not> HasPrefix (''Bearer '' @ t) p" if "p \<in> set space_seqs" for p
    using sp that by (cases p) (auto simp: HasPrefix_iff)
  ultimately show ?thesis by (simp add: trimmed_def)
qed


definition sample_app_config :: AppConfig where
  "sample_app_config =
     \<lparr>ac_NodeID = 1, ac_ClusterID = 1, ac_Region = ''r'', ac_DataDir = ''data'', ac_HTTPAddr = ''h'', ac_AdminAddr = ''a'', ac_AdminToken = ''t'',
      ac_ReplicationToken = ''t'', ac_PrometheusSDToken = ''t'', ac_ReplicationTargetsFile = [], ac_GRPCAddr = ''g'', ac_PeerIDs = ''1,2'',
      ac_PeerGRPCAddrs = ''2=b'', ac_PeerHTTPAddrs = [], ac_PeerAdminAddrs = [], ac_RequestTimeout = 1, ac_ShutdownTimeout = 1,
      ac_RegistryCleanupInterval = 1, ac_RegistryCleanupDeleteLimit = 1\<rparr>"

lemma sample_app_config_ok: "ValidateConfig (\<lambda>_. True) (\<lambda>_. None) sample_app_config = Inr sample_app_config"
  by code_simp

lemma sample_lists:
  "Split ''1,2'' (CHR '','') = [''1'', ''2'']" "Split ''2=b'' (CHR '','') = [''2=b'']" "SplitN2 ''2=b'' ''='' = [''2'', ''b'']"
  "TrimSpace ''1'' = ''1''" "TrimSpace ''2'' = ''2''" "TrimSpace ''2=b'' = ''2=b''" "TrimSpace ''b'' = ''b''" "TrimSpace ''h'' = ''h''"
  "TrimSpace ''g'' = ''g''" "TrimSpace ''a'' = ''a''"
  by code_simp+

lemma sample_ids: "ParseUint ''1'' = Some 1" "ParseUint ''2'' = Some 2"
  by (simp_all add: ParseUint_def digits_value_def is_digit_def)

lemma sample_server_book:
  "server_book sample_app_config = Inr ([1, 2], \<lparr>ab_httpByID = [(1, ''h'')], ab_grpcByID = [(2, ''b''), (1, ''g'')], ab_adminByID = [(1, ''a'')]\<rparr>)"
  by (simp add: server_book_def sample_app_config_def parsePeerIDs_def parseAddressMap_def sample_lists sample_ids preferAdvertiseAddr_def
      NewAddressBook_def copy_map_def ab_Set_def put_addr_def)

definition sample_admin_request :: http_request where
  "sample_admin_request = \<lparr>rq_Method = ''GET'', rq_Query = [], rq_Header = [(''Authorization'', ''Bearer t'')], rq_Body = []\<rparr>"

lemma sample_admin_request_ok:
  "isLocalAdminRequest ''127.0.0.1:9''" "TrimSpace (header_get sample_admin_request ''Authorization'') = ''Bearer t''"
  "ac_AdminToken sample_app_config = ''t''"
proof -
  show "isLocalAdminRequest ''127.0.0.1:9''" by code_simp
  show "ac_AdminToken sample_app_config = ''t''" by (simp add: sample_app_config_def)
  have "header_get sample_admin_request ''Authorization'' = ''Bearer t''" by (simp add: header_get_def sample_admin_request_def)
  moreover have "TrimSpace ''Bearer t'' = ''Bearer t''" by code_simp
  ultimately show "TrimSpace (header_get sample_admin_request ''Authorization'') = ''Bearer t''" by simp
qed


lemma sample_Start:
  assumes "New sample_config True None fixed_codec list_pebble 0 sample_disk = Inr n"
  shows "\<exists>n1. Start sample_library True n = (n1, None) \<and> ps_live (n_kvStore n1) \<and> mem_inv n1 \<and> node_members n1 = Map.empty"
proof -
  let ?s = "n_kvStore (fst (Start sample_library True n))"
  have e: "ps_contents ?s = Map.empty" "snd (Start sample_library True n) = None"
    using Start_fresh_empty [of sample_config None "(''data'', fixed_codec)" list_pebble 0 sample_disk n sample_library] assms
    by (simp_all add: sample_config_def sample_disk_fresh fixed_codec_total list_pebble_fresh) (simp_all add: sample_library_def)
  have "node_ok (''data'', fixed_codec) id (fst (Start sample_library True n)) ([], 0, 0)" by (rule sample_start [OF assms])
  then have "ps_live ?s" "members_ok ?s" by (auto simp: kv_ok_def)
  moreover have "ps_member ?s = Map.empty" by (simp add: ps_member_def e(1) fun_eq_iff)
  ultimately show ?thesis using e(2) by (cases "Start sample_library True n") (simp add: mem_inv_def ps_live_inv node_members_def)
qed

end
