(* ===== verification/Control_Client.thy ===== *)
theory Control_Client
  imports App_Start
begin

text \<open>
  The command line client (\<open>cmd/stellmapctl/main.go\<close>) and the routes of the two HTTP servers
  (\<open>internal/transport/http/server.go\<close> and \<open>handler_*.go\<close>). Parsing and printing a URL and the HTTP client are parameters; the
  client returns the status and the body of a reply, or nothing when the request or the reading of the reply failed. Flags are parsed.
\<close>

subsection \<open>Routes\<close>

datatype route =
    RouteRegister | RouteDeregister | RouteHeartbeat | RouteInstances | RouteWatch | RouteReplicationWatch | RoutePrometheusSD
  | RouteHealthz | RouteReadyz | RouteMetrics
  | RouteStatus | RouteReplicationStatus | RouteAddLearner | RoutePromoteLearner | RouteRemoveMember | RouteTransferLeader

definition publicRegistryRoutes :: "(bytes \<times> route) list" where
  "publicRegistryRoutes =
     [(''/api/v1/registry/register'', RouteRegister), (''/api/v1/registry/deregister'', RouteDeregister),
      (''/api/v1/registry/heartbeat'', RouteHeartbeat), (''/api/v1/registry/instances'', RouteInstances),
      (''/api/v1/registry/watch'', RouteWatch), (''/internal/v1/replication/watch'', RouteReplicationWatch),
      (''/internal/v1/prometheus/sd'', RoutePrometheusSD)]"

definition publicHealthRoutes :: "(bytes \<times> route) list" where
  "publicHealthRoutes = [(''/healthz'', RouteHealthz), (''/readyz'', RouteReadyz), (''/metrics'', RouteMetrics)]"

definition adminControlRoutes :: "(bytes \<times> route) list" where
  "adminControlRoutes =
     [(''/admin/v1/status'', RouteStatus), (''/admin/v1/replication/status'', RouteReplicationStatus),
      (''/admin/v1/members/add-learner'', RouteAddLearner), (''/admin/v1/members/promote'', RoutePromoteLearner),
      (''/admin/v1/members/remove'', RouteRemoveMember), (''/admin/v1/leader/transfer'', RouteTransferLeader)]"

text \<open>
  The handler of a path. The patterns have no variable, host, method or trailing slash, so a handler gets exactly the requests
  whose path is its pattern; the multiplexer answers all others itself.
\<close>

definition NewPublicServer :: "bytes \<Rightarrow> route option" where
  "NewPublicServer = map_of (publicRegistryRoutes @ publicHealthRoutes)"

definition NewAdminServer :: "bytes \<Rightarrow> route option" where
  "NewAdminServer = map_of adminControlRoutes"

subsection \<open>Addresses of servers\<close>

record 'u url_ops =
  url_Parse :: "bytes \<Rightarrow> 'u option"
  url_String :: "'u \<Rightarrow> bytes"
  url_Scheme :: "'u \<Rightarrow> bytes"
  url_Host :: "'u \<Rightarrow> bytes"
  url_Hostname :: "'u \<Rightarrow> bytes"
  url_Path :: "'u \<Rightarrow> bytes"
  url_SetPath :: "bytes \<Rightarrow> 'u \<Rightarrow> 'u"

datatype ctl_error =
    ServerRequired
  | BadURL
  | InvalidServer bytes
  | TokenRequired
  | NodeRequired bytes
  | RequestFailed
  | StatusText int bytes
  | Failure bytes bytes
  | LeaderAddressEmpty
  | BadLeaderAddress
  | BadReply

definition trim_slashes :: "bytes \<Rightarrow> bytes" where
  "trim_slashes s = rev (dropWhile (\<lambda>c. c = CHR ''/'') (rev s))"

definition normalizeBaseURL :: "'u url_ops \<Rightarrow> bytes \<Rightarrow> ctl_error + bytes" where
  "normalizeBaseURL u server0 =
     (let server1 = TrimSpace server0 in
      if server1 = [] then Inl ServerRequired
      else let server = (if Index server1 ''://'' = None then ''http://'' @ server1 else server1) in
        case url_Parse u server of
          None \<Rightarrow> Inl BadURL
        | Some parsed \<Rightarrow>
            if url_Host u parsed = [] then Inl (InvalidServer server)
            else Inr (trim_slashes (url_String u (url_SetPath u (trim_slashes (url_Path u parsed)) parsed))))"

definition netSplitHostPort :: "bytes \<Rightarrow> (bytes \<times> int) option" where
  "netSplitHostPort address =
     (let parts = Split address (CHR '':'') in
      if length parts < 2 then None
      else case Atoi (last parts) of
        None \<Rightarrow> None
      | Some port \<Rightarrow> (let host = Join (butlast parts) '':'' in Some (if host = [] then ''127.0.0.1'' else host, port)))"

definition resolveLeaderBaseURL :: "'u url_ops \<Rightarrow> bytes \<Rightarrow> bytes \<Rightarrow> ctl_error + bytes" where
  "resolveLeaderBaseURL u currentBaseURL leaderAddr0 =
     (case url_Parse u currentBaseURL of
        None \<Rightarrow> Inl BadURL
      | Some current \<Rightarrow>
          (let leaderAddr = TrimSpace leaderAddr0 in
           if leaderAddr = [] then Inl LeaderAddressEmpty
           else if Index leaderAddr ''://'' \<noteq> None then normalizeBaseURL u leaderAddr
           else let addr = (if HasPrefix leaderAddr '':''
                  then (if url_Hostname u current = [] then ''127.0.0.1'' else url_Hostname u current) @ leaderAddr else leaderAddr) in
             if netSplitHostPort addr = None then Inl BadLeaderAddress
             else normalizeBaseURL u (url_Scheme u current @ ''://'' @ addr)))"

definition resolveAdminToken :: "bytes \<Rightarrow> bytes \<Rightarrow> bytes" where
  "resolveAdminToken flagToken env = (if TrimSpace flagToken \<noteq> [] then TrimSpace flagToken else TrimSpace env)"

subsection \<open>Requests\<close>

record controlClient =
  cl_baseURL :: bytes
  cl_token :: bytes

definition newControlClient :: "'u url_ops \<Rightarrow> bytes \<Rightarrow> bytes \<Rightarrow> ctl_error + controlClient" where
  "newControlClient u server token =
     and_then (normalizeBaseURL u server) (\<lambda>baseURL.
       if TrimSpace token = [] then Inl TokenRequired else Inr \<lparr>cl_baseURL = baseURL, cl_token = token\<rparr>)"

record ctl_request =
  cq_Method :: bytes
  cq_URL :: bytes
  cq_Header :: "(bytes, bytes) gomap"
  cq_Body :: bytes

type_synonym 'w ctl_net = "ctl_request \<Rightarrow> 'w \<Rightarrow> 'w \<times> (int \<times> bytes) option"

text \<open>The error and success envelopes, as far as the client reads them. The data are any JSON value.\<close>

record failure =
  fa_Code :: bytes
  fa_Message :: bytes
  fa_RequestID :: bytes
  fa_LeaderID :: u64
  fa_LeaderAddr :: bytes

definition failure_fields :: "(bytes \<times> (json \<Rightarrow> failure \<Rightarrow> failure option)) list" where
  "failure_fields =
     [field ''code'' into_string fa_Code (\<lambda>v x. x\<lparr>fa_Code := v\<rparr>), field ''message'' into_string fa_Message (\<lambda>v x. x\<lparr>fa_Message := v\<rparr>),
      field ''requestId'' into_string fa_RequestID (\<lambda>v x. x\<lparr>fa_RequestID := v\<rparr>),
      field ''leaderId'' into_u64 fa_LeaderID (\<lambda>v x. x\<lparr>fa_LeaderID := v\<rparr>),
      field ''leaderAddr'' into_string fa_LeaderAddr (\<lambda>v x. x\<lparr>fa_LeaderAddr := v\<rparr>)]"

definition zero_failure :: failure where
  "zero_failure = \<lparr>fa_Code = [], fa_Message = [], fa_RequestID = [], fa_LeaderID = 0, fa_LeaderAddr = []\<rparr>"

record successEnvelope =
  se_Code :: bytes
  se_Message :: bytes
  se_Data :: "json option"

definition success_fields :: "(bytes \<times> (json \<Rightarrow> successEnvelope \<Rightarrow> successEnvelope option)) list" where
  "success_fields =
     [field ''code'' into_string se_Code (\<lambda>v x. x\<lparr>se_Code := v\<rparr>), field ''message'' into_string se_Message (\<lambda>v x. x\<lparr>se_Message := v\<rparr>),
      field ''data'' (\<lambda>j x. Some (Some j)) se_Data (\<lambda>v x. x\<lparr>se_Data := v\<rparr>)]"

definition ctl_message :: "controlClient \<Rightarrow> bytes \<Rightarrow> bytes \<Rightarrow> bytes option \<Rightarrow> ctl_request" where
  "ctl_message c method path body =
     \<lparr>cq_Method = method, cq_URL = cl_baseURL c @ path,
      cq_Header = (case body of None \<Rightarrow> [] | Some _ \<Rightarrow> [(''Content-Type'', ''application/json'')]) @ [(''Authorization'', ''Bearer '' @ cl_token c)],
      cq_Body = (case body of None \<Rightarrow> [] | Some payload \<Rightarrow> payload)\<rparr>"

text \<open>\<open>do\<close>, which returns the data of the reply, for the caller to decode.\<close>

function ctl_do ::
  "'u url_ops \<Rightarrow> 'w ctl_net \<Rightarrow> controlClient \<Rightarrow> bytes \<Rightarrow> bytes \<Rightarrow> bytes option \<Rightarrow> bool \<Rightarrow> 'w \<Rightarrow> 'w \<times> (ctl_error + json option)" where
  "ctl_do u net c method path body allowRedirect w =
     (case net (ctl_message c method path body) w of
        (w1, None) \<Rightarrow> (w1, Inl RequestFailed)
      | (w1, Some (status, data)) \<Rightarrow>
          if status \<ge> 400 then
            (case Unmarshal (into_struct failure_fields) data zero_failure of
               None \<Rightarrow> (w1, Inl (StatusText status data))
             | Some failure \<Rightarrow>
                 if allowRedirect \<and> fa_Code failure = ''not_leader'' \<and> fa_LeaderAddr failure \<noteq> [] then
                   (case resolveLeaderBaseURL u (cl_baseURL c) (fa_LeaderAddr failure) of
                      Inl e \<Rightarrow> (w1, Inl e)
                    | Inr nextBaseURL \<Rightarrow> ctl_do u net (c\<lparr>cl_baseURL := nextBaseURL\<rparr>) method path body False w1)
                 else (w1, Inl (Failure (fa_Code failure) (fa_Message failure))))
          else if data = [] then (w1, Inr None)
          else (case Unmarshal (into_struct success_fields) data \<lparr>se_Code = [], se_Message = [], se_Data = None\<rparr> of
             None \<Rightarrow> (w1, Inl BadReply)
           | Some envelope \<Rightarrow> (w1, Inr (se_Data envelope))))"
  by pat_completeness auto

termination
  by (relation "measure (\<lambda>(u, net, c, method, path, body, allowRedirect, w). if allowRedirect then 1 else 0)") auto

declare ctl_do.simps [simp del]

definition ctl_run ::
  "'u url_ops \<Rightarrow> 'w ctl_net \<Rightarrow> bytes \<Rightarrow> bytes \<Rightarrow> bytes \<Rightarrow> bytes \<Rightarrow> bytes \<Rightarrow> bytes option \<Rightarrow> 'w \<Rightarrow> 'w \<times> (ctl_error + json option)" where
  "ctl_run u net server flagToken env method path body w =
     (case newControlClient u server (resolveAdminToken flagToken env) of
        Inl e \<Rightarrow> (w, Inl e)
      | Inr c \<Rightarrow> ctl_do u net c method path body True w)"

subsection \<open>Commands\<close>

definition transfer_to_json :: "LeaderTransferRequestDTO \<Rightarrow> json" where
  "transfer_to_json r = JObj [(''targetNodeId'', juint (lt_TargetNodeID r))]"

text \<open>What a command sends, given its flags.\<close>

datatype ctl_command =
    CmdStatus
  | CmdAddLearner u64 bytes bytes bytes
  | CmdPromote u64
  | CmdRemove u64
  | CmdTransfer u64

fun ctl_call :: "ctl_command \<Rightarrow> ctl_error + bytes \<times> bytes \<times> bytes option" where
  "ctl_call CmdStatus = Inr (''GET'', ''/admin/v1/status'', None)"
| "ctl_call (CmdAddLearner nodeID httpAddr grpcAddr adminAddr) =
     (if nodeID = 0 then Inl (NodeRequired ''node-id'')
      else Inr (''POST'', ''/admin/v1/members/add-learner'',
        Some (Marshal member_change_to_json \<lparr>mc_NodeID = nodeID, mc_HTTPAddr = httpAddr, mc_GRPCAddr = grpcAddr, mc_AdminAddr = adminAddr\<rparr>)))"
| "ctl_call (CmdPromote nodeID) =
     (if nodeID = 0 then Inl (NodeRequired ''node-id'')
      else Inr (''POST'', ''/admin/v1/members/promote'',
        Some (Marshal member_change_to_json \<lparr>mc_NodeID = nodeID, mc_HTTPAddr = [], mc_GRPCAddr = [], mc_AdminAddr = []\<rparr>)))"
| "ctl_call (CmdRemove nodeID) =
     (if nodeID = 0 then Inl (NodeRequired ''node-id'')
      else Inr (''POST'', ''/admin/v1/members/remove'',
        Some (Marshal member_change_to_json \<lparr>mc_NodeID = nodeID, mc_HTTPAddr = [], mc_GRPCAddr = [], mc_AdminAddr = []\<rparr>)))"
| "ctl_call (CmdTransfer targetNodeID) =
     (if targetNodeID = 0 then Inl (NodeRequired ''target-node-id'')
      else Inr (''POST'', ''/admin/v1/leader/transfer'', Some (Marshal transfer_to_json \<lparr>lt_TargetNodeID = targetNodeID\<rparr>)))"

definition run_command ::
  "'u url_ops \<Rightarrow> 'w ctl_net \<Rightarrow> bytes \<Rightarrow> bytes \<Rightarrow> bytes \<Rightarrow> ctl_command \<Rightarrow> 'w \<Rightarrow> 'w \<times> (ctl_error + json option)" where
  "run_command u net server flagToken env cmd w =
     (case ctl_call cmd of
        Inl e \<Rightarrow> (w, Inl e)
      | Inr (method, path, body) \<Rightarrow> ctl_run u net server flagToken env method path body w)"

subsection \<open>What a command sends\<close>

text \<open>A network that keeps the requests with their replies.\<close>

definition logged :: "'w ctl_net \<Rightarrow> ('w \<times> (ctl_request \<times> (int \<times> bytes) option) list) ctl_net" where
  "logged net r wl = (case net r (fst wl) of (w', x) \<Rightarrow> ((w', snd wl @ [(r, x)]), x))"

definition points_to :: "(int \<times> bytes) option \<Rightarrow> bytes \<Rightarrow> bool" where
  "points_to reply addr \<longleftrightarrow> (\<exists>status data failure. reply = Some (status, data) \<and> status \<ge> 400 \<and>
     Unmarshal (into_struct failure_fields) data zero_failure = Some failure \<and> fa_Code failure = ''not_leader'' \<and> fa_LeaderAddr failure = addr \<and> addr \<noteq> [])"

lemma ctl_do_once:
  assumes "ctl_do u (logged net) c method path body False (w, l) = ((w', l'), out)"
  shows "\<exists>x. l' = l @ [(ctl_message c method path body, x)]"
  using assms by (subst (asm) ctl_do.simps) (auto simp: logged_def split: prod.splits option.splits if_splits)

lemma ctl_do_log:
  assumes "ctl_do u (logged net) c method path body True (w, []) = ((w', l), out)"
  shows "\<exists>x rest. l = (ctl_message c method path body, x) # rest \<and>
    (rest = [] \<or> (\<exists>addr next y. points_to x addr \<and> resolveLeaderBaseURL u (cl_baseURL c) addr = Inr next \<and>
       rest = [(ctl_message (c\<lparr>cl_baseURL := next\<rparr>) method path body, y)]))"
proof -
  obtain w1 x where n: "net (ctl_message c method path body) w = (w1, x)" by fastforce
  then have l: "logged net (ctl_message c method path body) (w, []) = ((w1, [(ctl_message c method path body, x)]), x)" by (simp add: logged_def)
  show ?thesis
  proof (cases "\<exists>addr next. points_to x addr \<and> resolveLeaderBaseURL u (cl_baseURL c) addr = Inr next")
    case True
    then obtain addr nxt where a: "points_to x addr" "resolveLeaderBaseURL u (cl_baseURL c) addr = Inr nxt" by blast
    then have "ctl_do u (logged net) (c\<lparr>cl_baseURL := nxt\<rparr>) method path body False (w1, [(ctl_message c method path body, x)]) = ((w', l), out)"
      using assms by (subst (asm) ctl_do.simps) (auto simp: l points_to_def)
    from ctl_do_once [OF this] obtain y where "l = [(ctl_message c method path body, x), (ctl_message (c\<lparr>cl_baseURL := nxt\<rparr>) method path body, y)]"
      by auto
    with a show ?thesis by blast
  next
    case False
    then have "l = [(ctl_message c method path body, x)]"
      using assms by (subst (asm) ctl_do.simps) (auto simp: l points_to_def split: option.splits prod.splits if_splits sum.splits)
    then show ?thesis by simp
  qed
qed

text \<open>C25. A command ends after at most two requests, whatever the servers answer. Every request carries the token, which is never
  blank; the second is sent only when the first was answered with the address of the leader, and differs from it in nothing but
  the base of its URL, which is the one made from that address.\<close>

theorem ctl_follows_once:
  assumes "run_command u (logged net) server flagToken env cmd (w, []) = ((w', l), out)"
  shows "l = [] \<or> (\<exists>method path body base x rest. ctl_call cmd = Inr (method, path, body) \<and> normalizeBaseURL u server = Inr base \<and>
    TrimSpace (resolveAdminToken flagToken env) \<noteq> [] \<and>
    l = (ctl_message \<lparr>cl_baseURL = base, cl_token = resolveAdminToken flagToken env\<rparr> method path body, x) # rest \<and>
    (rest = [] \<or> (\<exists>addr next y. points_to x addr \<and> resolveLeaderBaseURL u base addr = Inr next \<and>
       rest = [(ctl_message \<lparr>cl_baseURL = next, cl_token = resolveAdminToken flagToken env\<rparr> method path body, y)])))"
proof (cases "ctl_call cmd")
  case (Inr call)
  obtain verb path body where c: "ctl_call cmd = Inr (verb, path, body)" using Inr by (cases call) auto
  show ?thesis
  proof (cases "newControlClient u server (resolveAdminToken flagToken env)")
    case (Inr cl)
    then obtain base where b: "normalizeBaseURL u server = Inr base" "TrimSpace (resolveAdminToken flagToken env) \<noteq> []"
        "cl = \<lparr>cl_baseURL = base, cl_token = resolveAdminToken flagToken env\<rparr>"
      by (auto simp: newControlClient_def split: if_splits)
    have "ctl_do u (logged net) cl verb path body True (w, []) = ((w', l), out)"
      using assms by (simp add: run_command_def c ctl_run_def Inr)
    from ctl_do_log [OF this] c b show ?thesis by auto
  qed (use assms c in \<open>simp add: run_command_def ctl_run_def\<close>)
qed (use assms in \<open>simp add: run_command_def\<close>)

lemma Decode_Marshal: "wf_json (to x) \<Longrightarrow> Decode into (Marshal to x) y = into (clean_json (to x)) y"
proof -
  assume w: "wf_json (to x)"
  have "parse_value (Suc (length (enc_json (to x) @ []))) (enc_json (to x) @ []) = Some (clean_json (to x), [])"
    using parse_value_enc_json(1) [OF w stops_facts(1)] parse_value_enough le_SucI by blast
  then show ?thesis by (simp add: Decode_def Marshal_def parse_first_def)
qed

lemma member_change_body:
  assumes "rq_Body r = Marshal member_change_to_json m"
  shows "decodeJSONBody member_change_fields r zero_member_change =
    Some \<lparr>mc_NodeID = mc_NodeID m, mc_HTTPAddr = sanitize (mc_HTTPAddr m), mc_GRPCAddr = sanitize (mc_GRPCAddr m), mc_AdminAddr = sanitize (mc_AdminAddr m)\<rparr>"
proof -
  have "wf_json (member_change_to_json m)"
    "into_known_struct member_change_fields (clean_json (member_change_to_json m)) zero_member_change =
      Some \<lparr>mc_NodeID = mc_NodeID m, mc_HTTPAddr = sanitize (mc_HTTPAddr m), mc_GRPCAddr = sanitize (mc_GRPCAddr m), mc_AdminAddr = sanitize (mc_AdminAddr m)\<rparr>"
    by (simp_all add: member_change_to_json_def member_change_fields_def field_simps zero_member_change_def)
  then show ?thesis by (simp add: decodeJSONBody_def assms Decode_Marshal)
qed

lemma transfer_body:
  assumes "rq_Body r = Marshal transfer_to_json m"
  shows "decodeJSONBody transfer_fields r \<lparr>lt_TargetNodeID = 0\<rparr> = Some m"
proof -
  have "wf_json (transfer_to_json m)" "into_known_struct transfer_fields (clean_json (transfer_to_json m)) \<lparr>lt_TargetNodeID = 0\<rparr> = Some m"
    by (simp_all add: transfer_to_json_def transfer_fields_def field_simps)
  then show ?thesis by (simp add: decodeJSONBody_def assms Decode_Marshal)
qed

fun understood :: "ControlAPI \<Rightarrow> AddressBook \<Rightarrow> Status \<Rightarrow> http_request \<Rightarrow> ctl_command \<Rightarrow> route option \<Rightarrow> bool" where
  "understood h book status r CmdStatus route \<longleftrightarrow> route = Some RouteStatus \<and> (allowMethod r ''GET'' :: unit reply option) = None"
| "understood h book status r (CmdAddLearner i ha ga aa) route \<longleftrightarrow> route = Some RouteAddLearner \<and>
     member_request h book status r = Inr \<lparr>mc_NodeID = i, mc_HTTPAddr = sanitize ha, mc_GRPCAddr = sanitize ga, mc_AdminAddr = sanitize aa\<rparr>"
| "understood h book status r (CmdPromote i) route \<longleftrightarrow> route = Some RoutePromoteLearner \<and>
     member_request h book status r = Inr \<lparr>mc_NodeID = i, mc_HTTPAddr = [], mc_GRPCAddr = [], mc_AdminAddr = []\<rparr>"
| "understood h book status r (CmdRemove i) route \<longleftrightarrow> route = Some RouteRemoveMember \<and>
     member_request h book status r = Inr \<lparr>mc_NodeID = i, mc_HTTPAddr = [], mc_GRPCAddr = [], mc_AdminAddr = []\<rparr>"
| "understood h book status r (CmdTransfer i) route \<longleftrightarrow> route = Some RouteTransferLeader \<and> i \<noteq> 0 \<and>
     (allowMethod r ''POST'' :: unit reply option) = None \<and> decodeJSONBody transfer_fields r \<lparr>lt_TargetNodeID = 0\<rparr> = Some \<lparr>lt_TargetNodeID = i\<rparr>"

lemma routes:
  "NewAdminServer ''/admin/v1/status'' = Some RouteStatus" "NewPublicServer ''/admin/v1/status'' = None"
  "NewAdminServer ''/admin/v1/members/add-learner'' = Some RouteAddLearner" "NewPublicServer ''/admin/v1/members/add-learner'' = None"
  "NewAdminServer ''/admin/v1/members/promote'' = Some RoutePromoteLearner" "NewPublicServer ''/admin/v1/members/promote'' = None"
  "NewAdminServer ''/admin/v1/members/remove'' = Some RouteRemoveMember" "NewPublicServer ''/admin/v1/members/remove'' = None"
  "NewAdminServer ''/admin/v1/leader/transfer'' = Some RouteTransferLeader" "NewPublicServer ''/admin/v1/leader/transfer'' = None"
  by code_simp+

text \<open>C26. Client and server agree. The path of every command is routed by the admin server to the handler of that command, and by the
  public server to none; on the leader the handler takes from the request the node and the addresses that were given on the
  command line (with malformed UTF-8 replaced).\<close>

theorem ctl_understood:
  assumes "ctl_call cmd = Inr (method, path, body)" "rq_Method r = method" "body = None \<or> body = Some (rq_Body r)" "ensureLeader h book status = None"
  shows "understood h book status r cmd (NewAdminServer path) \<and> NewPublicServer path = None"
proof (cases cmd)
  case CmdStatus
  with assms show ?thesis by (auto simp: routes allowMethod_def)
next
  case (CmdAddLearner i ha ga aa)
  with assms show ?thesis by (auto simp: routes member_request_def allowMethod_def dest!: member_change_body [OF sym] split: if_splits)
next
  case (CmdPromote i)
  with assms show ?thesis by (auto simp: routes member_request_def allowMethod_def dest!: member_change_body [OF sym] split: if_splits)
next
  case (CmdRemove i)
  with assms show ?thesis by (auto simp: routes member_request_def allowMethod_def dest!: member_change_body [OF sym] split: if_splits)
next
  case (CmdTransfer i)
  with assms show ?thesis by (auto simp: routes allowMethod_def dest!: transfer_body [OF sym] split: if_splits)
qed

theorem ctl_understood_witness:
  "member_request \<lparr>ca_clusterID = 1, ca_adminAddr = ''a''\<rparr> (NewAddressBook [] [] []) (rn_Status sample_nd (sample_node []))
     \<lparr>rq_Method = ''POST'', rq_Query = [], rq_Header = [],
       rq_Body = Marshal member_change_to_json \<lparr>mc_NodeID = 4, mc_HTTPAddr = [], mc_GRPCAddr = [], mc_AdminAddr = []\<rparr>\<rparr> =
   Inr \<lparr>mc_NodeID = 4, mc_HTTPAddr = [], mc_GRPCAddr = [], mc_AdminAddr = []\<rparr>"
proof -
  have "ensureLeader \<lparr>ca_clusterID = 1, ca_adminAddr = ''a''\<rparr> (NewAddressBook [] [] []) (rn_Status sample_nd (sample_node [])) = None"
    using sample_node_parts(2) by (simp add: ensureLeader_def is_leader_def)
  from ctl_understood [of "CmdPromote 4" "''POST''" "''/admin/v1/members/promote''" _ "\<lparr>rq_Method = ''POST'', rq_Query = [], rq_Header = [],
       rq_Body = Marshal member_change_to_json \<lparr>mc_NodeID = 4, mc_HTTPAddr = [], mc_GRPCAddr = [], mc_AdminAddr = []\<rparr>\<rparr>", OF _ _ _ this]
  show ?thesis by simp
qed

definition sample_urls :: "bytes url_ops" where
  "sample_urls = \<lparr>url_Parse = Some, url_String = id, url_Scheme = \<lambda>s. ''http'', url_Host = id, url_Hostname = id, url_Path = \<lambda>s. [],
     url_SetPath = \<lambda>p s. s\<rparr>"

text \<open>A server that always points to another one.\<close>

definition sample_failure :: json where
  "sample_failure = JObj [(''code'', JStr ''not_leader''), (''leaderAddr'', JStr ''b:1'')]"

lemma sample_follow:
  "snd (fst (run_command sample_urls (logged (\<lambda>r w. (w, Some (503, enc_json sample_failure)))) ''a:1'' ''t'' [] CmdStatus ((), []))) \<noteq> []"
  by code_simp

theorem ctl_follows_once_witness:
  "\<exists>w' l out. run_command sample_urls (logged (\<lambda>r w. (w, Some (503, enc_json sample_failure)))) ''a:1'' ''t'' [] CmdStatus ((), []) = ((w', l), out) \<and>
    l \<noteq> [] \<and> length l \<le> 2"
proof -
  obtain w' l out where r: "run_command sample_urls (logged (\<lambda>r w. (w, Some (503, enc_json sample_failure)))) ''a:1'' ''t'' [] CmdStatus ((), []) = ((w', l), out)"
    by (metis prod.exhaust)
  from ctl_follows_once [OF r] have "length l \<le> 2" by auto
  with r sample_follow show ?thesis by auto
qed
end
