(* ===== verification/Active_Metrics.thy ===== *)
theory Active_Metrics
  imports Cleanup Http_Watch
begin

text \<open>
  The gauge of active instances (\<open>internal/metrics/registry.go\<close>): the label values of the registry metrics and the collector that
  counts the live instances of the directory by identity. A count is a natural number where the source has a float64, which is
  exact below \<open>2\<^sup>5\<^sup>3\<close>. What the collector sends to its channel is the list of label values and counts.
\<close>

definition labelValue :: "bytes \<Rightarrow> bytes" where
  "labelValue value0 = (let value = TrimSpace value0 in if value = [] then ''unknown'' else value)"

definition requestLabels :: "RegistryIdentity \<Rightarrow> bytes list" where
  "requestLabels identity =
     [labelValue (ri'_Namespace identity), labelValue (ri'_Service identity), labelValue (ri'_Organization identity),
      labelValue (ri'_BusinessDomain identity), labelValue (ri'_CapabilityDomain identity), labelValue (ri'_Application identity),
      labelValue (ri'_Role identity), labelValue (ri'_Zone identity)]"

definition decodeRegistryValue :: "bytes \<Rightarrow> Value option" where
  "decodeRegistryValue raw = (if raw = [] then None else unmarshal_value raw)"

definition active_labels :: "Value \<Rightarrow> bytes list" where
  "active_labels value =
     [labelValue (v_Namespace value), labelValue (v_Service value), labelValue (v_Organization value), labelValue (v_BusinessDomain value),
      labelValue (v_CapabilityDomain value), labelValue (v_Application value), labelValue (v_Role value), labelValue (v_Zone value)]"

definition label_key :: "Value \<Rightarrow> bytes" where
  "label_key value = Join (active_labels value) [CHR 0x00]"

fun count_items :: "int \<Rightarrow> KV list \<Rightarrow> (bytes, nat) gomap \<Rightarrow> (bytes, bytes list) gomap \<Rightarrow> (bytes, nat) gomap \<times> (bytes, bytes list) gomap" where
  "count_items now [] counts labelsByKey = (counts, labelsByKey)"
| "count_items now (item # items) counts labelsByKey =
     (case decodeRegistryValue (kv_Value item) of
        None \<Rightarrow> count_items now items counts labelsByKey
      | Some value \<Rightarrow>
          if \<not> IsAlive value now then count_items now items counts labelsByKey
          else let key = label_key value in
            count_items now items (AList.update key ((case map_of counts key of None \<Rightarrow> 0 | Some c \<Rightarrow> c) + 1) counts)
              (AList.update key (active_labels value) labelsByKey))"

definition Collect_active :: "'n registryNode \<Rightarrow> int \<Rightarrow> 'n \<Rightarrow> 'n \<times> (node_error + (bytes list \<times> nat) list)" where
  "Collect_active nd now n =
     (case rn_Scan nd RootPrefix (prefixUpperBound RootPrefix) 0 n of
        (n1, Inl e) \<Rightarrow> (n1, Inl e)
      | (n1, Inr items) \<Rightarrow>
          (case count_items now items [] [] of
             (counts, labelsByKey) \<Rightarrow> (n1, Inr (map (\<lambda>(key, count). (case map_of labelsByKey key of None \<Rightarrow> [] | Some labels \<Rightarrow> labels, count)) counts))))"

subsection \<open>What is counted\<close>

definition live_values :: "int \<Rightarrow> KV list \<Rightarrow> Value list" where
  "live_values now items = filter (\<lambda>v. IsAlive v now) (List.map_filter (unmarshal_value \<circ> kv_Value) items)"

definition tally :: "('a \<Rightarrow> 'b) \<Rightarrow> 'a list \<Rightarrow> 'b \<rightharpoonup> nat" where
  "tally f xs y = (let k = length (filter (\<lambda>x. f x = y) xs) in if k = 0 then None else Some k)"

lemma decode_unmarshal: "decodeRegistryValue raw = unmarshal_value raw"
proof -
  have "parse_json [] = None" by code_simp
  then show ?thesis by (simp add: decodeRegistryValue_def unmarshal_value_def Unmarshal_def)
qed

lemma tally_snoc: "tally f (xs @ [x]) = (tally f xs)(f x \<mapsto> (case tally f xs (f x) of None \<Rightarrow> 0 | Some c \<Rightarrow> c) + 1)"
  by (auto simp: tally_def fun_eq_iff)

lemma live_values_simps:
  "live_values now [] = []"
  "live_values now (item # items) =
     (case unmarshal_value (kv_Value item) of None \<Rightarrow> [] | Some v \<Rightarrow> if IsAlive v now then [v] else []) @ live_values now items"
  by (simp_all add: live_values_def map_filter_simps split: option.split)

lemma count_items_ok:
  assumes "count_items now items counts ls = (counts', ls')" "distinct (map fst counts)" "map_of counts = tally label_key vs"
    "\<forall>v \<in> set vs. \<exists>u \<in> set vs. label_key u = label_key v \<and> map_of ls (label_key v) = Some (active_labels u)"
  shows "distinct (map fst counts') \<and> map_of counts' = tally label_key (vs @ live_values now items) \<and>
    (\<forall>v \<in> set (vs @ live_values now items). \<exists>u \<in> set (vs @ live_values now items). label_key u = label_key v \<and> map_of ls' (label_key v) = Some (active_labels u))"
  using assms
proof (induction items arbitrary: counts ls vs)
  case (Cons item items)
  show ?case
  proof (cases "\<exists>v. unmarshal_value (kv_Value item) = Some v \<and> IsAlive v now")
    case False
    then have "count_items now items counts ls = (counts', ls')" "live_values now (item # items) = live_values now items"
      using Cons.prems(1) by (auto simp: decode_unmarshal live_values_simps(2) split: option.splits if_splits)
    with Cons.IH [OF _ Cons.prems(2-4)] show ?thesis by simp
  next
    case True
    then obtain v where v: "unmarshal_value (kv_Value item) = Some v" "IsAlive v now" by blast
    let ?c = "AList.update (label_key v) ((case map_of counts (label_key v) of None \<Rightarrow> 0 | Some c \<Rightarrow> c) + 1) counts"
      and ?l = "AList.update (label_key v) (active_labels v) ls"
    have "count_items now items ?c ?l = (counts', ls')" using Cons.prems(1) v by (simp add: decode_unmarshal Let_def)
    moreover have "distinct (map fst ?c)" using Cons.prems(2) by (rule distinct_update)
    moreover have "map_of ?c = tally label_key (vs @ [v])" by (simp add: update_conv' Cons.prems(3) tally_snoc)
    moreover have "\<forall>w \<in> set (vs @ [v]). \<exists>u \<in> set (vs @ [v]). label_key u = label_key w \<and> map_of ?l (label_key w) = Some (active_labels u)"
      using Cons.prems(4) by (auto simp: update_conv')
    ultimately show ?thesis using Cons.IH [of ?c ?l "vs @ [v]"] v by (simp add: live_values_simps(2))
  qed
qed (simp add: live_values_simps(1))

lemma tally_Some: "tally f xs y = Some k \<Longrightarrow> \<exists>x \<in> set xs. f x = y"
proof (rule ccontr)
  assume "tally f xs y = Some k" "\<not> (\<exists>x \<in> set xs. f x = y)"
  then have "filter (\<lambda>x. f x = y) xs = []" by (simp add: filter_empty_conv)
  with \<open>tally f xs y = Some k\<close> show False by (simp add: tally_def)
qed

lemma sum_cons:
  "distinct ys \<Longrightarrow> f x \<in> set ys \<Longrightarrow>
    sum_list (map (\<lambda>y. length (filter (\<lambda>x. f x = y) (x # xs))) ys) = sum_list (map (\<lambda>y. length (filter (\<lambda>x. f x = y) xs)) ys) + 1"
proof (induction ys)
  case (Cons y ys)
  show ?case
  proof (cases "y = f x")
    case True
    then have "sum_list (map (\<lambda>y. length (filter (\<lambda>x. f x = y) (x # xs))) ys) = sum_list (map (\<lambda>y. length (filter (\<lambda>x. f x = y) xs)) ys)"
      using Cons.prems(1) by (intro arg_cong [of _ _ sum_list]) auto
    with True show ?thesis by simp
  qed (use Cons in auto)
qed simp

lemma sum_counts:
  "distinct ys \<Longrightarrow> \<forall>x \<in> set xs. f x \<in> set ys \<Longrightarrow> sum_list (map (\<lambda>y. length (filter (\<lambda>x. f x = y) xs)) ys) = length xs"
proof (induction xs)
  case (Cons x xs)
  then show ?case using sum_cons [of ys f x xs] by simp
qed simp

lemma sum_tally:
  assumes "distinct (map fst kvs)" "map_of kvs = tally f xs"
  shows "sum_list (map snd kvs) = length xs"
proof -
  have v: "snd kv = length (filter (\<lambda>x. f x = fst kv) xs)" if "kv \<in> set kvs" for kv
  proof -
    have "map_of kvs (fst kv) = Some (snd kv)" using assms(1) that by simp
    then show ?thesis unfolding assms(2) by (simp add: tally_def Let_def split: if_splits)
  qed
  have "f x \<in> set (map fst kvs)" if "x \<in> set xs" for x
  proof -
    have "filter (\<lambda>z. f z = f x) xs \<noteq> []" using that by (auto simp: filter_empty_conv)
    then have "map_of kvs (f x) \<noteq> None" unfolding assms(2) by (simp add: tally_def)
    then show ?thesis by (simp add: map_of_eq_None_iff)
  qed
  then have s: "\<forall>x \<in> set xs. f x \<in> set (map fst kvs)" by blast
  have "map snd kvs = map (\<lambda>y. length (filter (\<lambda>x. f x = y) xs)) (map fst kvs)" using v by simp
  then show ?thesis using sum_counts [OF assms(1) s] by (rule ssubst)
qed

lemma key_split: "\<forall>l \<in> set (active_labels v). CHR 0x00 \<notin> set l \<Longrightarrow> Split (label_key v) (CHR 0x00) = active_labels v"
  unfolding label_key_def by (rule Split_Join) (simp_all add: active_labels_def)

lemma map_of_renamed: "inj_on g (fst ` set xs \<union> {k}) \<Longrightarrow> map_of (map (\<lambda>(k, c). (g k, c)) xs) (g k) = map_of xs k"
  by (induction xs) (auto simp: inj_on_def)

lemma renamed_tally:
  assumes "distinct (map fst counts)" "map_of counts = tally key vs" "inj g" "\<And>v. v \<in> set vs \<Longrightarrow> g (key v) = f v"
  shows "distinct (map fst (map (\<lambda>(k, c). (g k, c)) counts))" "map_of (map (\<lambda>(k, c). (g k, c)) counts) = tally f vs"
proof -
  have e: "map fst (map (\<lambda>(k, c). (g k, c)) counts) = map g (map fst counts)" by (simp add: comp_def case_prod_beta)
  show "distinct (map fst (map (\<lambda>(k, c). (g k, c)) counts))"
    unfolding e by (rule distinct_map [THEN iffD2]) (use assms(1,3) inj_on_subset in blast)
  show "map_of (map (\<lambda>(k, c). (g k, c)) counts) = tally f vs"
  proof
    fix y
    show "map_of (map (\<lambda>(k, c). (g k, c)) counts) y = tally f vs y"
    proof (cases "y \<in> f ` set vs")
      case True
      then obtain v where v: "v \<in> set vs" "y = g (key v)" "y = f v" using assms(4) by auto
      have "map_of (map (\<lambda>(k, c). (g k, c)) counts) y = tally key vs (key v)"
        unfolding v(2) assms(2) [symmetric] by (rule map_of_renamed) (use assms(3) in \<open>auto simp: inj_on_def\<close>)
      moreover have "filter (\<lambda>x. key x = key v) vs = filter (\<lambda>x. f x = y) vs"
        using assms(3,4) v by (intro filter_cong) (auto simp: inj_eq simp flip: assms(4))
      ultimately show ?thesis by (simp add: tally_def)
    next
      case False
      have "y \<notin> fst ` set (map (\<lambda>(k, c). (g k, c)) counts)"
      proof
        assume "y \<in> fst ` set (map (\<lambda>(k, c). (g k, c)) counts)"
        then obtain k where "k \<in> fst ` set counts" "y = g k" by force
        then obtain c where "tally key vs k = Some c" using assms(2) by (metis map_of_eq_None_iff option.exhaust)
        with tally_Some [of key vs k] \<open>y = g k\<close> assms(4) False show False by blast
      qed
      moreover have "filter (\<lambda>x. f x = y) vs = []" using False by (auto simp: filter_empty_conv)
      ultimately show ?thesis by (simp add: tally_def map_of_eq_None_iff [THEN iffD2])
    qed
  qed
qed

text \<open>C28. The gauge of active instances. The counts that the collector reports add up to the number of live instances of the directory.
  When no label value has a zero byte, there is one count for each combination of label values that a live instance has, and
  it is the number of live instances with these values.\<close>

theorem active_gauge:
  fixes nd :: "('db, 'ms, 'rn) RaftNode registryNode"
  assumes "raft_node nd" "node_inv n" "Collect_active nd now n = (n', Inr out)"
  defines "vs \<equiv> live_values now (entries (node_dir n') RootPrefix (prefixUpperBound RootPrefix))"
  shows "sum_list (map snd out) = length vs \<and>
    ((\<forall>v \<in> set vs. \<forall>l \<in> set (active_labels v). CHR 0x00 \<notin> set l) \<longrightarrow> distinct (map fst out) \<and> map_of out = tally active_labels vs)"
proof -
  obtain items counts ls where i: "rn_Scan nd RootPrefix (prefixUpperBound RootPrefix) 0 n = (n', Inr items)"
    and c: "count_items now items [] [] = (counts, ls)"
    and out: "out = map (\<lambda>(key, count). (case map_of ls key of None \<Rightarrow> [] | Some labels \<Rightarrow> labels, count)) counts"
    using assms(3) by (auto simp: Collect_active_def split: prod.splits sum.splits)
  have vs: "vs = live_values now items" using rn.scan_ok [OF assms(1,2) i] by (simp add: vs_def limited_def)
  have "map_of [] = tally label_key []" by (simp add: tally_def fun_eq_iff)
  from count_items_ok [OF c _ this] have k: "distinct (map fst counts)" "map_of counts = tally label_key vs"
    "\<forall>v \<in> set vs. \<exists>u \<in> set vs. label_key u = label_key v \<and> map_of ls (label_key v) = Some (active_labels u)" by (simp_all add: vs)
  have "sum_list (map snd out) = length vs" using sum_tally [OF k(1,2)] by (simp add: out comp_def case_prod_beta)
  moreover have "distinct (map fst out) \<and> map_of out = tally active_labels vs"
    if z: "\<forall>v \<in> set vs. \<forall>l \<in> set (active_labels v). CHR 0x00 \<notin> set l"
  proof -
    let ?g = "\<lambda>k. Split k (CHR 0x00)"
    have g: "?g (label_key v) = active_labels v" if "v \<in> set vs" for v using z that by (intro key_split) blast
    have inj: "inj ?g" by (rule injI) (metis Join_Split)
    have "map_of ls key = Some (?g key)" if "key \<in> fst ` set counts" for key
    proof -
      have "map_of counts key \<noteq> None" using that by (simp add: map_of_eq_None_iff)
      then obtain c where "tally label_key vs key = Some c" unfolding k(2) by blast
      from tally_Some [OF this] obtain v where v: "v \<in> set vs" "label_key v = key" by blast
      with k(3) obtain u where "u \<in> set vs" "label_key u = key" "map_of ls key = Some (active_labels u)" by blast
      with g [of u] show ?thesis by simp
    qed
    then have "out = map (\<lambda>(k, c). (?g k, c)) counts" unfolding out by (intro map_cong) force+
    with renamed_tally [OF k(1,2) inj g] show ?thesis by simp
  qed
  ultimately show ?thesis by blast
qed

theorem active_gauge_witness:
  "\<exists>out. Collect_active sample_nd 1010 (sample_node sample_db) = (sample_node sample_db, Inr out) \<and> sum_list (map snd out) = 1"
proof -
  obtain counts ls where "count_items 1010 (limited 0 (entries (node_dir (sample_node sample_db)) RootPrefix (prefixUpperBound RootPrefix))) [] [] = (counts, ls)"
    by fastforce
  then obtain out where run: "Collect_active sample_nd 1010 (sample_node sample_db) = (sample_node sample_db, Inr out)"
    by (simp add: Collect_active_def sample_Scan)
  have e: "prefixUpperBound RootPrefix = cleanup_end" by code_simp
  have u: "unmarshal_value (marshal_value sample_value) = Some (sort_maps sample_value)"
    using sample_value_facts(1) by (simp add: good_value_def text_value_roundtrip)
  have "IsAlive (sort_maps sample_value) 1010" using sample_value_facts(3) by simp
  then have "live_values 1010 (entries (node_dir (sample_node sample_db)) RootPrefix (prefixUpperBound RootPrefix)) = [sort_maps sample_value]"
    by (simp add: e sample_page live_values_simps u)
  with active_gauge [OF sample_nd_ok run] run show ?thesis by simp
qed
end
