(* ===== verification/Spec2Isabelle.thy ===== *)
theory Spec2Isabelle
  imports Selector_Correct Registry_Correct Storage_Props Wal_Props Watch_Correct Registry_Replication Snapshot_Correct Transport_Correct
    Raft_Props Watch_Stream Cleanup Mirror_Props Control_Client Active_Metrics
begin

text \<open>
  Stellmap is a service registry. Instances of services register with a lease, renew it by heartbeats and are found by queries and
  watches; the directory is replicated between the nodes of a cluster by Raft, and other clusters may mirror it. This
  development models the Go sources of the daemon \<open>stellmapd\<close> (\<open>cmd/stellmapd\<close>, \<open>internal\<close>) and of its client
  \<open>stellmapctl\<close>, one group of definitions per component, with the names of the source.

  \<^bold>\<open>How the parts work together.\<close> A request reaches a handler of the data plane (\<open>internal/transport/http\<close>), which checks it, normalises
  it (\<open>internal/registry\<close>) and proposes a command to the Raft node (\<open>internal/raftnode\<close>). The Raft library hands the node
  batches of entries; the node writes them to its log (\<open>internal/wal\<close>), applies the committed ones to a Pebble store
  (\<open>internal/storage\<close>), now and then takes a snapshot (\<open>internal/snapshot\<close>) and passes the batch on to the application
  (\<open>internal/app\<close>). The application updates the members, publishes watch events to a hub and sends the messages of the batch to
  the other nodes (\<open>internal/runtime\<close>, \<open>internal/transport/grpc\<close>). Queries and watches read the store, the leader deletes what
  has expired, and a mirror follows the watch stream of another cluster and proposes what it hears to its own.

  \<^bold>\<open>Foundations.\<close>
    \<^item> \<open>Prelude\<close>: bytes, Go maps as association lists in the order of one iteration, errors as the left values of sums.
    \<^item> \<open>Go_Strings\<close>, \<open>Go_Encoding\<close>, \<open>Go_Json_Text\<close>, \<open>Go_Json\<close>, \<open>Go_Sha256\<close>: what the sources use of \<open>strings\<close>, \<open>strconv\<close>,
      \<open>unicode/utf8\<close>, \<open>encoding/binary\<close>, \<open>encoding/base64\<close>, \<open>encoding/json\<close> and \<open>crypto/sha256\<close>, with the round trips of
      printing and parsing. JSON is parsed with as much fuel as the text is long, which is shown to be enough.

  \<^bold>\<open>The registry.\<close>
    \<^item> \<open>Registry_Selector\<close>, \<open>Selector_Correct\<close>: label selectors (\<open>selector.go\<close>); a parsed selector means the conjunction of its
      requirements, and indexing or slicing out of range is a value of the model, so that the absence of panics is a theorem and
      their presence for malformed UTF-8 too.
    \<^item> \<open>Registry_Model\<close>, \<open>Registry_Correct\<close>, \<open>Registry_Json\<close>: inputs, values, leases, keys and queries (\<open>model.go\<close>) and their JSON
      form; normal forms, the lease rule with its 64-bit overflow, the meaning of a query, and the round trip of stored values.
    \<^item> \<open>Registry_Watch\<close>, \<open>Watch_Correct\<close>: the watch hub (\<open>watch.go\<close>) as a step relation in which the parts of an operation that hold
      no lock interleave; each event reaches a watcher once, and the panic of a publication during a cancellation.
    \<^item> \<open>Registry_Replication\<close>: keys and values mirrored from other clusters (\<open>replication.go\<close>).

  \<^bold>\<open>Storage on a node.\<close>
    \<^item> \<open>Storage\<close>, \<open>Storage_Correct\<close>, \<open>Storage_Props\<close>: commands and the two state machines. The locale \<open>State_Machine\<close> is the contract of
      the Go interface and is interpreted on both.
    \<^item> \<open>Wal\<close>, \<open>Wal_Correct\<close>, \<open>Wal_Crash\<close>, \<open>Wal_Props\<close>: the log in memory and in segment files. Every system call may fail, a write
      after any number of bytes. The locale \<open>Write_Ahead_Log\<close> is the contract, interpreted on both; the log refines a list of
      entries, and what a crash can and cannot lose is stated for truncations and for overwrites.
    \<^item> \<open>Snapshot\<close>, \<open>Snapshot_Correct\<close>, \<open>Node_Disk\<close>: snapshot files and the disk that they share with the log.

  \<^bold>\<open>The Raft node.\<close> \<open>Raft_Types\<close>, \<open>Raft_Node\<close> (\<open>raftnode/*.go\<close>); \<open>Raft_Correct\<close>, \<open>Raft_Recovery\<close>, \<open>Raft_Props\<close>. The node is a record with its
  log, store, snapshots and disk; a ready batch is one step. Replicas that are handed the same entries agree, a restart recovers
  what was committed, a read behind its barrier answers from a committed prefix, an installed snapshot survives.

  \<^bold>\<open>Between nodes.\<close> \<open>Transport\<close>, \<open>Transport_Correct\<close> (messages, snapshot chunks and their assembly, address book), \<open>Peer_Transport\<close> (the sending
  side), \<open>Members\<close> (membership changes, stored addresses, control and health handlers).

  \<^bold>\<open>The data plane.\<close> \<open>Http_Types\<close>, \<open>Request_Text\<close>, \<open>Http_Registry\<close>, \<open>Http_Watch\<close> model the handlers, from the method check to the reply.
  \<open>Directory\<close> specifies queries on the whole directory; the locale \<open>Registry_Node\<close> is the contract of the interface
  \<open>registryNode\<close>, interpreted on the Raft node (\<open>rn\<close>). \<open>Directory_Props\<close> has the properties that clients rely on. \<open>App_Events\<close> makes watch
  events of committed entries; \<open>Watch_Stream\<close> shows that a watch converges to the directory, over the locale \<open>Watch_Client\<close>.
  \<open>Cleanup\<close> removes what has expired (locale \<open>Steady_Node\<close>); \<open>Prometheus_SD\<close> and \<open>Active_Metrics\<close> list and count live instances.

  \<^bold>\<open>Mirrors.\<close> \<open>Replication_Tracker\<close>, \<open>Mirror\<close>, \<open>Mirror_Wire\<close>, \<open>Mirror_Props\<close>: the mirror reads the bytes of another cluster's stream; it is
  a second interpretation of \<open>Watch_Client\<close>, which gives the agreement of the two clusters.

  \<^bold>\<open>Processes.\<close> \<open>App_Start\<close> (configuration, start, loop, stop, admin guard), \<open>Control_Client\<close> (\<open>stellmapctl\<close> and the routes of the servers).

  \<^bold>\<open>What is assumed.\<close> Code outside the repository is a parameter with named hypotheses: Pebble (\<open>pebble_ok\<close>: lookups, ranges and
  batches act on a map; \<open>ps_live\<close>: without failures), the Raft library (\<open>raft_library\<close>; \<open>ready_ok\<close>: batches extend the log and
  commit what is in it; \<open>storage_ok\<close>, \<open>library_ok\<close>), the protobuf codec (\<open>codec_ok\<close>), read barriers (\<open>barrier_keeps\<close>). The gRPC and
  HTTP clients, URLs, clocks, the Unicode case table and the order of map iterations are arguments without hypotheses. Each
  hypothesis is met by a concrete instance in a witness. Loops that the program runs for ever (ready batches, cleanup ticks,
  watch inputs, stream lines) are folds over the list of what they are handed, so no fuel is needed; all functions are total.

  \<^bold>\<open>Not modelled.\<close> Metrics other than the gauge of active instances, and logging: they hand numbers and texts to libraries. The TOML
  file (decoded by a library), command line parsing, the making of servers and listeners, timeouts, and the code that
  \<open>protoc\<close> generates. The goroutines of a node are steps of one state: their interleaving is modelled for the watch hub,
  read requests and the rounds of the cleanup, between which anything may be written. The text of error messages is kept only as
  far as code reads it. \<open>Http_Types\<close> lists the replies without their JSON text, except for what mirrors and watch clients parse.
\<close>

end
